(* ===== verification/Prelude.thy ===== *)
theory Prelude
  imports Main "HOL-Library.Word"
begin

text \<open>
  Shared vocabulary of the development: the machine integers of the C sources, the errno
  values the sources return, fact collections for the components, and generic lemmas on
  words, lists and options.

  Conventions used by every component theory:
  \<^item> a C function that returns an error code returns an \<open>int\<close>, 0 for success and a
    negative errno for failure, as in the source;
  \<^item> a call of code that is not in the repository (the Zephyr kernel, a driver, the
    Bluetooth stack, nRF Cloud) is an element of the component's trace type, appended to the
    trace in the order in which the code makes the calls; what such a call returns is an
    argument of the definition;
  \<^item> a pointer is a number, with 0 for NULL where the code compares with NULL;
  \<^item> \<open>None\<close> as the result of a routine means undefined behaviour in C (a read outside an
    array, a division by zero), so a theorem that a routine returns \<open>Some\<close> says that it is
    free of it.
\<close>

section \<open>Machine integers\<close>

type_synonym u8 = "8 word"
type_synonym u16 = "16 word"
type_synonym u32 = "32 word"
type_synonym u64 = "64 word"

section \<open>Addresses\<close>

type_synonym ptr = nat
type_synonym device = nat

section \<open>Error codes\<close>

named_theorems errno_defs "the errno values the sources return"

definition ENOENT :: int where [errno_defs]: "ENOENT = 2"
definition EIO :: int where [errno_defs]: "EIO = 5"
definition ENXIO :: int where [errno_defs]: "ENXIO = 6"
definition EAGAIN :: int where [errno_defs]: "EAGAIN = 11"
definition ENOMEM :: int where [errno_defs]: "ENOMEM = 12"
definition EACCES :: int where [errno_defs]: "EACCES = 13"
definition EFAULT :: int where [errno_defs]: "EFAULT = 14"
definition EBUSY :: int where [errno_defs]: "EBUSY = 16"
definition EINVAL :: int where [errno_defs]: "EINVAL = 22"
definition ENODATA :: int where [errno_defs]: "ENODATA = 61"
definition EALREADY :: int where [errno_defs]: "EALREADY = 120"
definition ENOTSUP :: int where [errno_defs]: "ENOTSUP = 134"

section \<open>Generic lemmas\<close>

lemma unat_minus_le:
  fixes a b :: "'a::len word"
  shows "b \<le> a \<Longrightarrow> unat (a - b) = unat a - unat b"
  by (rule unat_sub)

lemma unat_mult_nowrap:
  fixes a b :: "'a::len word"
  shows "unat a * unat b < 2 ^ LENGTH('a) \<Longrightarrow> unat (a * b) = unat a * unat b"
  by (simp add: unat_word_ariths)

lemma unat_plus_nowrap:
  fixes a b :: "'a::len word"
  shows "unat a + unat b < 2 ^ LENGTH('a) \<Longrightarrow> unat (a + b) = unat a + unat b"
  by (simp add: unat_word_ariths)

lemma unat_u8_less: "unat (w :: u8) < 256"
  using unsigned_less [of w] by simp

lemma unat_u16_less: "unat (w :: u16) < 65536"
  using unsigned_less [of w] by simp

lemma unat_of_u16 [simp]: "unat (ucast (w :: u16) :: u32) = unat w"
  using unat_u16_less [of w] by (simp add: unsigned_ucast_eq take_bit_nat_eq_self)

lemma unat_of_u8 [simp]: "unat (ucast (w :: u8) :: u32) = unat w"
proof -
  have "unat w < 256" using unsigned_less [of w] by simp
  then show ?thesis by (simp add: unsigned_ucast_eq take_bit_nat_eq_self)
qed

lemma unat_u32_less: "unat (w :: u32) < 4294967296"
  using unsigned_less [of w] by simp

lemma unat_of_nat_u32: "n < 2 ^ 32 \<Longrightarrow> unat (of_nat n :: u32) = n"
  by (simp add: unsigned_of_nat take_bit_nat_eq_self)

lemma unat_of_nat_u16: "n < 65536 \<Longrightarrow> unat (of_nat n :: u16) = n"
  by (simp add: unsigned_of_nat take_bit_nat_eq_self)

lemma ucast_u16_0: "(ucast (w :: u16) :: u32) = 0 \<longleftrightarrow> w = 0"
  by (metis unat_of_u16 unat_eq_0)

text \<open>A truncated quotient lies below the factor it scales when the fraction is at most one.\<close>

lemma div_scale_le: "x \<le> d \<Longrightarrow> (k * x) div d \<le> (k::nat)"
proof (cases "d = 0")
  case False
  assume "x \<le> d"
  then have "(k * x) div d \<le> (k * d) div d" by (intro div_le_mono mult_le_mono) auto
  with False show ?thesis by simp
qed simp

text \<open>A list with one element appended and its oldest dropped once it outgrows its bound.\<close>

definition last_n :: "nat \<Rightarrow> 'a list \<Rightarrow> 'a list" where
  "last_n n xs = drop (length xs - n) xs"

lemma length_last_n [simp]: "length (last_n n xs) = min n (length xs)"
  by (simp add: last_n_def)

lemma last_n_short [simp]: "length xs \<le> n \<Longrightarrow> last_n n xs = xs"
  by (simp add: last_n_def)

lemma last_n_snoc: "0 < n \<Longrightarrow> last_n n (last_n n xs @ [x]) = last_n n (xs @ [x])"
  by (cases "length xs < n") (auto simp: last_n_def Suc_diff_le)

lemma last_n_append_last_n: "last_n n (last_n n xs @ ys) = last_n n (xs @ ys)"
  by (cases "length xs \<le> n") (auto simp: last_n_def add.commute)

section \<open>Advertising data\<close>

text \<open>
  Advertising data is a list of elements, each a type and its bytes. \<open>bt_data_parse\<close> is the stack's:
  it hands the elements to the callback in order until the callback returns false, which is the named
  hypothesis \<open>parse_ok\<close> of what uses it.
\<close>

type_synonym adv_element = "u8 \<times> u8 list"
type_synonym 's adv_parser = "(adv_element \<Rightarrow> 's \<Rightarrow> bool \<times> 's) \<Rightarrow> adv_element list \<Rightarrow> 's \<Rightarrow> 's"

fun in_order :: "(adv_element \<Rightarrow> 's \<Rightarrow> bool \<times> 's) \<Rightarrow> adv_element list \<Rightarrow> 's \<Rightarrow> 's" where
  "in_order f [] s = s"
| "in_order f (d # ds) s = (let (go_on, s1) = f d s in if go_on then in_order f ds s1 else s1)"

definition parse_ok :: "'s adv_parser \<Rightarrow> bool" where
  "parse_ok parse \<longleftrightarrow> (\<forall>f ds s. parse f ds s = in_order f ds s)"

section \<open>C strings\<close>

text \<open>
  \<open>strncmp(a, b, n) == 0\<close> on the bytes of two strings: a NUL, or the end of the list, ends a string.
\<close>

fun strn_eq :: "nat \<Rightarrow> u8 list \<Rightarrow> u8 list \<Rightarrow> bool" where
  "strn_eq 0 a b = True"
| "strn_eq (Suc n) a b =
     (let x = (case a of [] \<Rightarrow> 0 | c # _ \<Rightarrow> c); y = (case b of [] \<Rightarrow> 0 | c # _ \<Rightarrow> c)
      in x = y \<and> (x = 0 \<or> strn_eq n (tl a) (tl b)))"

lemma strn_eq_prefix:
  "0 \<notin> set a \<Longrightarrow> strn_eq (length a) a b \<longleftrightarrow> take (length a) b = a"
proof (induction a arbitrary: b)
  case (Cons x a)
  then show ?case by (cases b) (auto simp: Let_def)
qed simp

section \<open>Bytes\<close>

text \<open>The bytes of a 32-bit integer in memory (the targets are little-endian), and the reverse.\<close>

definition le32 :: "u32 \<Rightarrow> u8 list" where
  "le32 w = [ucast w, ucast (drop_bit 8 w), ucast (drop_bit 16 w), ucast (drop_bit 24 w)]"

fun rd32 :: "u8 list \<Rightarrow> u32" where
  "rd32 (b0 # b1 # b2 # b3 # _) =
     or (ucast b0) (or (push_bit 8 (ucast b1)) (or (push_bit 16 (ucast b2)) (push_bit 24 (ucast b3))))"
| "rd32 _ = 0"

lemma length_le32 [simp]: "length (le32 w) = 4"
  by (simp add: le32_def)

lemma rd32_le32 [simp]: "rd32 (le32 w @ bs) = w"
proof (rule bit_word_eqI)
  fix n
  assume "n < LENGTH(32)"
  then have "n < 8 \<or> 8 \<le> n \<and> n < 16 \<or> 16 \<le> n \<and> n < 24 \<or> 24 \<le> n \<and> n < 32" by auto
  then show "bit (rd32 (le32 w @ bs)) n = bit w n"
    by (auto simp: le32_def bit_simps)
qed

lemma and_255: "and w 255 = take_bit 8 (w :: u32)"
proof -
  have "(255 :: u32) = mask 8" by (simp only: mask_eq_exp_minus_1) simp
  then show ?thesis by (simp only: take_bit_eq_mask)
qed

lemma bit_u8_high: "\<not> bit (x :: u8) (8 + n)"
  using bit_imp_le_length [of x "8 + n"] by auto

definition bytes_of :: "string \<Rightarrow> u8 list" where
  "bytes_of s = map of_char s"

section \<open>Decimal numbers\<close>

text \<open>Decimal digits of a number, as \<open>printf\<close> writes them.\<close>

fun dec :: "nat \<Rightarrow> string" where
  "dec n = (if n < 10 then [char_of (48 + n)] else dec (n div 10) @ [char_of (48 + n mod 10)])"

declare dec.simps [simp del]

lemma length_dec_le: "n < 10 ^ k \<Longrightarrow> 0 < k \<Longrightarrow> length (dec n) \<le> k"
proof (induction n arbitrary: k rule: dec.induct)
  case (1 n)
  show ?case
  proof (cases "n < 10")
    case True
    with "1.prems" show ?thesis by (simp add: dec.simps [of n])
  next
    case False
    then have "k \<noteq> 1" "k \<noteq> 0" using "1.prems" by auto
    then obtain k' where k: "k = Suc k'" "0 < k'" by (cases k) auto
    with "1.prems" have "n div 10 < 10 ^ k'" by (simp add: less_mult_imp_div_less mult.commute)
    with 1 False k have "length (dec (n div 10)) \<le> k'" by simp
    with False k show ?thesis by (simp add: dec.simps [of n])
  qed
qed


text \<open>The number back from its digits; so different numbers have different digits.\<close>

definition dec_value :: "string \<Rightarrow> nat" where
  "dec_value s = foldl (\<lambda>a c. 10 * a + (of_char c - 48)) 0 s"

lemma dec_value_dec [simp]: "dec_value (dec n) = n"
proof (induction n rule: dec.induct)
  case (1 n)
  have "of_char (char_of (48 + d)) = (48 + d :: nat)" if "d < 10" for d :: nat
    using that by (simp add: of_char_of)
  then show ?case using 1 by (simp add: dec.simps [of n] dec_value_def)
qed

lemma dec_eq_iff: "dec m = dec n \<longleftrightarrow> m = n"
  by (metis dec_value_dec)

lemma dec_nonempty [simp]: "dec n \<noteq> []"
  by (simp add: dec.simps [of n])

end
