(* ===== verification/Battery.thy ===== *)
theory Battery
  imports Prelude
begin

text \<open>
  The battery monitor of \<open>driver/battery\<close> (\<open>battery.c\<close>, \<open>main.c\<close>): set-up of the divider and
  its ADC channel, enabling and sampling the measurement, and the estimate of the remaining
  capacity from a discharge curve. What the GPIO and ADC drivers return is a field of the record
  \<open>battery_env\<close>; the module's two static variables are the record \<open>battery_state\<close>.
\<close>

section \<open>The discharge curve\<close>

record battery_level_point =
  lvl_pptt :: u16
  lvl_mV :: u16

text \<open>
  \<open>battery_level_pptt\<close> walks down the array with a pointer; the model keeps the index of
  that pointer and yields \<open>None\<close> where the pointer would leave the array.
\<close>

function find_point :: "u32 \<Rightarrow> battery_level_point list \<Rightarrow> nat \<Rightarrow> nat option" where
  "find_point batt_mV curve i =
     (if i < length curve
      then if 0 < lvl_pptt (curve ! i) \<and> batt_mV < ucast (lvl_mV (curve ! i))
           then find_point batt_mV curve (Suc i)
           else Some i
      else None)"
  by pat_completeness auto
termination
  by (relation "measure (\<lambda>(batt_mV, curve, i). length curve - i)") auto

declare find_point.simps [simp del]

text \<open>
  The interpolation is done in 32-bit unsigned arithmetic: the differences of the 16-bit fields
  are promoted to \<open>int\<close> and converted to \<open>unsigned int\<close> by the operands next to them.
\<close>

definition interpolate :: "battery_level_point \<Rightarrow> battery_level_point \<Rightarrow> u32 \<Rightarrow> u32" where
  "interpolate pa pb batt_mV =
     ucast (lvl_pptt pb)
     + ((ucast (lvl_pptt pa) - ucast (lvl_pptt pb)) * (batt_mV - ucast (lvl_mV pb)))
       div (ucast (lvl_mV pa) - ucast (lvl_mV pb))"

definition battery_level_pptt :: "u32 \<Rightarrow> battery_level_point list \<Rightarrow> u32 option" where
  "battery_level_pptt batt_mV curve =
     (if curve = [] then None
      else if ucast (lvl_mV (curve ! 0)) \<le> batt_mV then Some (ucast (lvl_pptt (curve ! 0)))
      else case find_point batt_mV curve 0 of
             None \<Rightarrow> None
           | Some i \<Rightarrow>
               let pb = curve ! i in
               if batt_mV < ucast (lvl_mV pb) then Some (ucast (lvl_pptt pb))
               else if i = 0 then None
               else let pa = curve ! (i - 1) in
                 if (ucast (lvl_mV pa) - ucast (lvl_mV pb) :: u32) = 0 then None
                 else Some (interpolate pa pb batt_mV))"

text \<open>
  What \<open>battery.h\<close> asks of a curve: it is not empty, its last point has level zero, and
  both fields decrease along it (the voltages strictly, since two points are divided by their
  distance).
\<close>

definition curve_ok :: "battery_level_point list \<Rightarrow> bool" where
  "curve_ok curve \<longleftrightarrow> curve \<noteq> [] \<and> lvl_pptt (last curve) = 0 \<and>
     sorted_wrt (\<lambda>p q. lvl_pptt q \<le> lvl_pptt p \<and> lvl_mV q < lvl_mV p) curve"

text \<open>The two tables of \<open>main.c\<close>, selected by the devicetree.\<close>

definition levels_divider :: "battery_level_point list" where
  "levels_divider =
     [\<lparr>lvl_pptt = 10000, lvl_mV = 3950\<rparr>, \<lparr>lvl_pptt = 625, lvl_mV = 3550\<rparr>,
      \<lparr>lvl_pptt = 0, lvl_mV = 3100\<rparr>]"

definition levels_linear :: "battery_level_point list" where
  "levels_linear = [\<lparr>lvl_pptt = 10000, lvl_mV = 3600\<rparr>, \<lparr>lvl_pptt = 0, lvl_mV = 1700\<rparr>]"

section \<open>The divider: configuration, state and drivers\<close>

datatype adc_gain = ADC_GAIN_1 | ADC_GAIN_1_6

record io_channel_config =
  io_label :: "string option"
  io_channel :: u8

record gpio_channel_config =
  gp_label :: "string option"
  gp_pin :: u8
  gp_flags :: u32

record divider_config =
  dc_io :: io_channel_config
  dc_gpio :: gpio_channel_config
  output_ohm :: u32
  full_ohm :: u32

record adc_channel_cfg =
  acc_gain :: adc_gain
  acc_acquisition_us :: nat
  acc_input_positive :: u8

record adc_sequence =
  asq_channels :: u32
  asq_oversampling :: u8
  asq_calibrate :: bool
  asq_resolution :: u8

record divider_data =
  dd_adc :: "device option"
  dd_gpio :: "device option"
  dd_cfg :: adc_channel_cfg
  dd_seq :: adc_sequence
  dd_raw :: u16

record battery_state =
  bs_data :: divider_data
  battery_ok :: bool

text \<open>
  The drivers: device lookup, GPIO configuration and writes, ADC set-up, an ADC read (its return
  code and the sample it stores) and the conversion to millivolts. \<open>be_output_inactive\<close> and
  \<open>be_ain0\<close> are the driver constants \<open>GPIO_OUTPUT_INACTIVE\<close> and
  \<open>SAADC_CH_PSELP_PSELP_AnalogInput0\<close>, \<open>be_gain\<close> is \<open>BATTERY_ADC_GAIN\<close>.
\<close>

record battery_env =
  be_binding :: "string \<Rightarrow> device option"
  be_gpio_configure :: "device \<Rightarrow> u8 \<Rightarrow> u32 \<Rightarrow> int"
  be_gpio_set :: "device \<Rightarrow> u8 \<Rightarrow> bool \<Rightarrow> int"
  be_adc_setup :: "device \<Rightarrow> adc_channel_cfg \<Rightarrow> int"
  be_adc_read :: "adc_sequence \<Rightarrow> int \<times> u16"
  be_raw_to_mV :: "adc_gain \<Rightarrow> u8 \<Rightarrow> u32 \<Rightarrow> u32"
  be_output_inactive :: u32
  be_ain0 :: u8
  be_gain :: adc_gain

section \<open>Set-up and sampling\<close>

definition adc_seq_init :: adc_sequence where
  "adc_seq_init =
     \<lparr>asq_channels = 1, asq_oversampling = 4, asq_calibrate = True, asq_resolution = 14\<rparr>"

definition adc_cfg_init :: "battery_env \<Rightarrow> io_channel_config \<Rightarrow> adc_channel_cfg" where
  "adc_cfg_init env iocp =
     \<lparr>acc_gain = be_gain env, acc_acquisition_us = 40,
      acc_input_positive = be_ain0 env + io_channel iocp\<rparr>"

text \<open>The GPIO that feeds the divider, configured only where the devicetree names one.\<close>

definition gpio_setup ::
    "battery_env \<Rightarrow> gpio_channel_config \<Rightarrow> divider_data \<Rightarrow> int \<times> divider_data" where
  "gpio_setup env gcp ddp =
     (case gp_label gcp of
        None \<Rightarrow> (0, ddp)
      | Some label \<Rightarrow>
          (case be_binding env label of
             None \<Rightarrow> (- ENOENT, ddp\<lparr>dd_gpio := None\<rparr>)
           | Some gpio \<Rightarrow>
               (be_gpio_configure env gpio (gp_pin gcp)
                  (or (be_output_inactive env) (gp_flags gcp)),
                ddp\<lparr>dd_gpio := Some gpio\<rparr>)))"

definition divider_setup ::
    "battery_env \<Rightarrow> divider_config \<Rightarrow> divider_data \<Rightarrow> int \<times> divider_data" where
  "divider_setup env cfg ddp =
     (case io_label (dc_io cfg) of
        None \<Rightarrow> (- ENOTSUP, ddp)
      | Some label \<Rightarrow>
          (case be_binding env label of
             None \<Rightarrow> (- ENOENT, ddp\<lparr>dd_adc := None\<rparr>)
           | Some adc \<Rightarrow>
               (let (rc, ddp) = gpio_setup env (dc_gpio cfg) (ddp\<lparr>dd_adc := Some adc\<rparr>) in
                if rc \<noteq> 0 then (rc, ddp)
                else let accp = adc_cfg_init env (dc_io cfg) in
                  (be_adc_setup env adc accp,
                   ddp\<lparr>dd_seq := adc_seq_init, dd_cfg := accp\<rparr>))))"

definition battery_setup ::
    "battery_env \<Rightarrow> divider_config \<Rightarrow> battery_state \<Rightarrow> int \<times> battery_state" where
  "battery_setup env cfg bs =
     (let (rc, ddp) = divider_setup env cfg (bs_data bs)
      in (rc, bs\<lparr>bs_data := ddp, battery_ok := (rc = 0)\<rparr>))"

definition battery_measure_enable ::
    "battery_env \<Rightarrow> divider_config \<Rightarrow> bool \<Rightarrow> battery_state \<Rightarrow> int" where
  "battery_measure_enable env cfg enable bs =
     (if battery_ok bs
      then case dd_gpio (bs_data bs) of
             None \<Rightarrow> 0
           | Some gpio \<Rightarrow> be_gpio_set env gpio (gp_pin (dc_gpio cfg)) enable
      else - ENOENT)"

text \<open>
  \<open>val * (uint64_t)full_ohm / output_ohm\<close>: the signed millivolts are converted to 64 unsigned
  bits, and the quotient back to \<open>int\<close>.
\<close>

definition scale_divider :: "divider_config \<Rightarrow> u32 \<Rightarrow> int" where
  "scale_divider cfg val =
     sint (ucast ((scast val * ucast (full_ohm cfg)) div (ucast (output_ohm cfg)) :: u64) :: u32)"

definition battery_sample ::
    "battery_env \<Rightarrow> divider_config \<Rightarrow> battery_state \<Rightarrow> int \<times> battery_state" where
  "battery_sample env cfg bs =
     (if battery_ok bs
      then let ddp = bs_data bs; seq = dd_seq ddp; (rc, raw) = be_adc_read env seq;
             bs = bs\<lparr>bs_data := ddp\<lparr>dd_seq := seq\<lparr>asq_calibrate := False\<rparr>, dd_raw := raw\<rparr>\<rparr>
           in if rc = 0
              then let val = be_raw_to_mV env (acc_gain (dd_cfg ddp)) (asq_resolution seq) (scast raw)
                   in (if output_ohm cfg \<noteq> 0 then scale_divider cfg val else sint val, bs)
              else (rc, bs)
      else (- ENOENT, bs))"

section \<open>The main program\<close>

definition pad0 :: "nat \<Rightarrow> string \<Rightarrow> string" where
  "pad0 w s = replicate (w - length s) CHR ''0'' @ s"

definition now_fields :: "u32 \<Rightarrow> nat \<times> nat \<times> nat \<times> nat" where
  "now_fields uptime =
     (let now = unat uptime; ms = now mod 1000; now = now div 1000;
          s = now mod 60; now = now div 60; min = now mod 60; now = now div 60
      in (now, min, s, ms))"

definition now_str_untruncated :: "u32 \<Rightarrow> string" where
  "now_str_untruncated uptime =
     (let (h, min, s, ms) = now_fields uptime
      in dec h @ '':'' @ pad0 2 (dec min) @ '':'' @ pad0 2 (dec s) @ ''.'' @ pad0 3 (dec ms))"

text \<open>\<open>snprintf\<close> keeps what fits in the buffer with its terminating zero byte.\<close>

definition now_str :: "u32 \<Rightarrow> string" where
  "now_str uptime = take (16 - 1) (now_str_untruncated uptime)"

datatype battery_out =
    InitFailed int
  | ReadFailed int
  | Level int u32
  | CurveFault
  | Disabled int

text \<open>
  The loop of \<open>main\<close> over the environments of its successive samples (one per round); it ends
  at the first negative sample. An exhausted list is a run observed up to there.
\<close>

fun battery_loop ::
    "divider_config \<Rightarrow> battery_level_point list \<Rightarrow> battery_env list \<Rightarrow> battery_state \<Rightarrow>
     battery_out list" where
  "battery_loop cfg levels [] bs = []"
| "battery_loop cfg levels (env # envs) bs =
     (let (batt_mV, bs) = battery_sample env cfg bs in
      if batt_mV < 0
      then [ReadFailed batt_mV, Disabled (battery_measure_enable env cfg False bs)]
      else (case battery_level_pptt (word_of_int batt_mV) levels of
              None \<Rightarrow> [CurveFault]
            | Some pptt \<Rightarrow> Level batt_mV pptt # battery_loop cfg levels envs bs))"

definition battery_main ::
    "battery_env \<Rightarrow> divider_config \<Rightarrow> battery_level_point list \<Rightarrow> battery_env list \<Rightarrow>
     battery_state \<Rightarrow> battery_out list" where
  "battery_main env0 cfg levels envs bs =
     (let rc = battery_measure_enable env0 cfg True bs in
      if rc \<noteq> 0 then [InitFailed rc] else battery_loop cfg levels envs bs)"

section \<open>Correctness of the level estimate\<close>

subsection \<open>The walk down the curve\<close>

lemma find_point_Some:
  "find_point m curve i = Some j \<Longrightarrow>
     i \<le> j \<and> j < length curve \<and>
     (\<forall>k. i \<le> k \<and> k < j \<longrightarrow> 0 < lvl_pptt (curve ! k) \<and> m < ucast (lvl_mV (curve ! k))) \<and>
     \<not> (0 < lvl_pptt (curve ! j) \<and> m < ucast (lvl_mV (curve ! j)))"
proof (induction m curve i rule: find_point.induct)
  case (1 m curve i)
  let ?go = "i < length curve \<and> 0 < lvl_pptt (curve ! i) \<and> m < ucast (lvl_mV (curve ! i))"
  show ?case
  proof (cases ?go)
    case True
    with "1.prems" have "find_point m curve (Suc i) = Some j"
      by (simp add: find_point.simps [of m curve i])
    with "1.IH" True have "Suc i \<le> j \<and> j < length curve \<and>
       (\<forall>k. Suc i \<le> k \<and> k < j \<longrightarrow> 0 < lvl_pptt (curve ! k) \<and> m < ucast (lvl_mV (curve ! k))) \<and>
       \<not> (0 < lvl_pptt (curve ! j) \<and> m < ucast (lvl_mV (curve ! j)))" by blast
    with True show ?thesis by (metis Suc_leD Suc_leI le_neq_implies_less)
  next
    case False
    with "1.prems" show ?thesis
      by (auto simp: find_point.simps [of m curve i] split: if_splits)
  qed
qed

lemma find_point_total:
  "i < length curve \<Longrightarrow> lvl_pptt (last curve) = 0 \<Longrightarrow> find_point m curve i \<noteq> None"
proof (induction m curve i rule: find_point.induct)
  case (1 m curve i)
  show ?case
  proof (cases "0 < lvl_pptt (curve ! i) \<and> m < ucast (lvl_mV (curve ! i))")
    case True
    have "last curve = curve ! i" if "Suc i = length curve"
      using that by (metis One_nat_def diff_Suc_1 last_conv_nth length_0_conv nat.simps(3))
    with True "1.prems"(2) have "Suc i \<noteq> length curve" by auto
    with "1.prems" have "Suc i < length curve" by simp
    with 1 True show ?thesis by (simp add: find_point.simps [of m curve i])
  next
    case False
    with "1.prems" show ?thesis by (auto simp: find_point.simps [of m curve i])
  qed
qed

subsection \<open>The interpolation does not overflow\<close>

text \<open>The natural-number reading of the interpolation, without any wrap-around.\<close>

definition lerp :: "nat \<Rightarrow> nat \<Rightarrow> nat \<Rightarrow> nat \<Rightarrow> nat \<Rightarrow> nat" where
  "lerp la lb va vb m = lb + (la - lb) * (m - vb) div (va - vb)"

lemma lerp_ge: "lb \<le> lerp la lb va vb m"
  by (simp add: lerp_def)

lemma lerp_le: "lb \<le> la \<Longrightarrow> m \<le> va \<Longrightarrow> lerp la lb va vb m \<le> la"
  using div_scale_le [OF diff_le_mono, of m va "la - lb" vb] by (simp add: lerp_def)

lemma lerp_mono: "m \<le> m' \<Longrightarrow> lerp la lb va vb m \<le> lerp la lb va vb m'"
  by (auto simp: lerp_def intro!: div_le_mono mult_le_mono)

lemma unat_interpolate:
  assumes lvl: "lvl_pptt pb \<le> lvl_pptt pa" and mV: "lvl_mV pb < lvl_mV pa"
    and lo: "ucast (lvl_mV pb) \<le> m" and hi: "m < ucast (lvl_mV pa)"
  shows "unat (interpolate pa pb m) =
     lerp (unat (lvl_pptt pa)) (unat (lvl_pptt pb)) (unat (lvl_mV pa)) (unat (lvl_mV pb)) (unat m)"
    (is "_ = lerp ?la ?lb ?va ?vb ?m")
proof -
  have le: "?lb \<le> ?la" "?vb < ?va" "?vb \<le> ?m" "?m < ?va"
    using lvl mV lo hi by (simp_all add: word_le_nat_alt word_less_nat_alt)
  have bound: "?la < 65536" "?va < 65536" by (rule unat_u16_less)+
  let ?dl = "ucast (lvl_pptt pa) - ucast (lvl_pptt pb) :: u32"
  let ?dm = "m - ucast (lvl_mV pb)"
  have dl: "unat ?dl = ?la - ?lb"
    using le by (subst unat_minus_le) (simp_all add: word_le_nat_alt)
  have dm: "unat ?dm = ?m - ?vb"
    using le by (subst unat_minus_le) (simp_all add: word_le_nat_alt)
  have dv: "unat (ucast (lvl_mV pa) - ucast (lvl_mV pb) :: u32) = ?va - ?vb"
    using le by (subst unat_minus_le) (simp_all add: word_le_nat_alt)
  have "(?la - ?lb) * (?m - ?vb) \<le> 65535 * 65535"
    using le bound by (intro mult_le_mono) linarith+
  then have prod: "unat (?dl * ?dm) = (?la - ?lb) * (?m - ?vb)"
    by (subst unat_mult_nowrap) (simp_all add: dl dm)
  have quot: "(?la - ?lb) * (?m - ?vb) div (?va - ?vb) \<le> ?la - ?lb"
    using le by (intro div_scale_le) linarith
  show ?thesis
    unfolding interpolate_def lerp_def
    using quot le bound
    by (subst unat_plus_nowrap) (simp_all add: unat_div prod dv)
qed

subsection \<open>The level, in natural numbers\<close>

text \<open>
  The position of a voltage on a valid curve: the index of the first point at or below it (or of
  the first point with level zero).
\<close>

lemma curve_ok_nth:
  "curve_ok curve \<Longrightarrow> i < j \<Longrightarrow> j < length curve \<Longrightarrow>
     lvl_pptt (curve ! j) \<le> lvl_pptt (curve ! i) \<and> lvl_mV (curve ! j) < lvl_mV (curve ! i)"
  by (auto simp: curve_ok_def dest: sorted_wrt_nth_less)

lemma curve_ok_nth_le:
  "curve_ok curve \<Longrightarrow> i \<le> j \<Longrightarrow> j < length curve \<Longrightarrow> lvl_pptt (curve ! j) \<le> lvl_pptt (curve ! i)"
  using curve_ok_nth [of curve i j] by (cases "i = j") auto

lemma curve_ok_find_point:
  "curve_ok curve \<Longrightarrow> \<exists>i < length curve. find_point m curve 0 = Some i"
  using find_point_total [of 0 curve m] find_point_Some [of m curve 0]
  by (fastforce simp: curve_ok_def)

text \<open>Along a valid curve a larger voltage stops earlier.\<close>

lemma find_point_antimono:
  assumes "m \<le> m'" "find_point m curve 0 = Some i" "find_point m' curve 0 = Some i'"
  shows "i' \<le> i"
proof (rule ccontr)
  assume "\<not> i' \<le> i"
  then have "0 < lvl_pptt (curve ! i) \<and> m' < ucast (lvl_mV (curve ! i))"
    using find_point_Some [OF assms(3)] by auto
  with assms(1) have "0 < lvl_pptt (curve ! i) \<and> m < ucast (lvl_mV (curve ! i))" by auto
  with find_point_Some [OF assms(2)] show False by blast
qed

definition level_at :: "battery_level_point list \<Rightarrow> nat \<Rightarrow> u32 \<Rightarrow> nat" where
  "level_at curve i m =
     (if i = 0 \<or> m < ucast (lvl_mV (curve ! i)) then unat (lvl_pptt (curve ! i))
      else lerp (unat (lvl_pptt (curve ! (i - 1)))) (unat (lvl_pptt (curve ! i)))
        (unat (lvl_mV (curve ! (i - 1)))) (unat (lvl_mV (curve ! i))) (unat m))"

lemma battery_level_at:
  assumes ok: "curve_ok curve" and fp: "find_point m curve 0 = Some i"
  shows "map_option unat (battery_level_pptt m curve) = Some (level_at curve i m)"
proof -
  note props = find_point_Some [OF fp]
  from ok have ne: "curve \<noteq> []" by (simp add: curve_ok_def)
  show ?thesis
  proof (cases "ucast (lvl_mV (curve ! 0)) \<le> m")
    case True
    then have "i = 0" using props by (cases i) auto
    with True ne show ?thesis by (simp add: battery_level_pptt_def level_at_def)
  next
    case above: False
    show ?thesis
    proof (cases "m < ucast (lvl_mV (curve ! i))")
      case True
      with above fp ne show ?thesis
        by (simp add: battery_level_pptt_def level_at_def Let_def)
    next
      case False
      with above have "i \<noteq> 0" by (cases "i = 0") auto
      then have pa: "m < ucast (lvl_mV (curve ! (i - 1)))" using props by auto
      have ord: "lvl_pptt (curve ! i) \<le> lvl_pptt (curve ! (i - 1))"
        "lvl_mV (curve ! i) < lvl_mV (curve ! (i - 1))"
        using curve_ok_nth [OF ok, of "i - 1" i] props \<open>i \<noteq> 0\<close> by auto
      then have "(ucast (lvl_mV (curve ! (i - 1))) :: u32) \<noteq> ucast (lvl_mV (curve ! i))"
        by (metis less_irrefl unat_of_u16 word_unat_eq_iff)
      with above False fp ne \<open>i \<noteq> 0\<close> pa ord show ?thesis
        by (simp add: battery_level_pptt_def level_at_def Let_def unat_interpolate)
    qed
  qed
qed

lemma level_at_bounds:
  assumes ok: "curve_ok curve" and fp: "find_point m curve 0 = Some i"
  shows "unat (lvl_pptt (curve ! i)) \<le> level_at curve i m"
    and "0 < i \<Longrightarrow> level_at curve i m \<le> unat (lvl_pptt (curve ! (i - 1)))"
proof -
  note props = find_point_Some [OF fp]
  show "unat (lvl_pptt (curve ! i)) \<le> level_at curve i m"
    by (simp add: level_at_def lerp_ge)
  assume "0 < i"
  then have "unat (lvl_pptt (curve ! i)) \<le> unat (lvl_pptt (curve ! (i - 1)))"
    and "unat m \<le> unat (lvl_mV (curve ! (i - 1)))"
    using props curve_ok_nth_le [OF ok, of "i - 1" i]
    by (auto simp: word_less_nat_alt word_le_nat_alt intro!: less_imp_le)
  with \<open>0 < i\<close> show "level_at curve i m \<le> unat (lvl_pptt (curve ! (i - 1)))"
    by (simp add: level_at_def lerp_le)
qed

lemma level_at_mono:
  assumes ok: "curve_ok curve" and le: "m \<le> m'"
    and fp: "find_point m curve 0 = Some i" and fp': "find_point m' curve 0 = Some i'"
  shows "level_at curve i m \<le> level_at curve i' m'"
proof (cases "i = i'")
  case True
  from le have "unat m \<le> unat m'" by (simp add: word_le_nat_alt)
  with True le show ?thesis by (auto simp: level_at_def lerp_ge intro: lerp_mono)
next
  case False
  with find_point_antimono [OF le fp fp'] have "i' < i" by simp
  then have "level_at curve i m \<le> unat (lvl_pptt (curve ! (i - 1)))"
    using level_at_bounds(2) [OF ok fp] by simp
  also have "\<dots> \<le> unat (lvl_pptt (curve ! i'))"
    using curve_ok_nth_le [OF ok, of i' "i - 1"] \<open>i' < i\<close> find_point_Some [OF fp]
    by (auto simp: word_le_nat_alt)
  also have "\<dots> \<le> level_at curve i' m'" by (rule level_at_bounds(1) [OF ok fp'])
  finally show ?thesis .
qed

lemma level_at_le_first:
  assumes ok: "curve_ok curve" and fp: "find_point m curve 0 = Some i"
  shows "level_at curve i m \<le> unat (lvl_pptt (hd curve))"
proof (cases "i = 0")
  case True
  with ok show ?thesis by (simp add: level_at_def hd_conv_nth curve_ok_def)
next
  case False
  then have "level_at curve i m \<le> unat (lvl_pptt (curve ! (i - 1)))"
    using level_at_bounds(2) [OF ok fp] by simp
  also have "\<dots> \<le> unat (lvl_pptt (curve ! 0))"
    using curve_ok_nth_le [OF ok, of 0 "i - 1"] find_point_Some [OF fp] False
    by (auto simp: word_le_nat_alt)
  finally show ?thesis using ok by (simp add: hd_conv_nth curve_ok_def)
qed

lemma battery_level_some:
  assumes "curve_ok curve"
  obtains i l where "find_point m curve 0 = Some i" "i < length curve"
    "battery_level_pptt m curve = Some l" "unat l = level_at curve i m"
  using curve_ok_find_point [OF assms, of m] battery_level_at [OF assms, of m] by fastforce

text \<open>At a point of the curve the walk stops there, or earlier at another point with level zero.\<close>

lemma find_point_at_point:
  assumes ok: "curve_ok curve" and j: "j < length curve"
    and fp: "find_point (ucast (lvl_mV (curve ! j))) curve 0 = Some i"
  shows "i = j \<or> i < j \<and> lvl_pptt (curve ! i) = 0"
proof -
  note props = find_point_Some [OF fp]
  have "i \<le> j" using props by (metis le0 linorder_not_less order_less_irrefl)
  moreover have "lvl_pptt (curve ! i) = 0" if "i < j"
    using props curve_ok_nth [OF ok that j]
    by (auto simp: word_less_nat_alt word_unat_eq_iff)
  ultimately show ?thesis by force
qed

lemma level_at_point:
  assumes ok: "curve_ok curve" and j: "j < length curve"
    and fp: "find_point (ucast (lvl_mV (curve ! j))) curve 0 = Some i"
  shows "level_at curve i (ucast (lvl_mV (curve ! j))) = unat (lvl_pptt (curve ! j))"
  using find_point_at_point [OF assms]
proof
  assume "i = j"
  then show ?thesis by (simp add: level_at_def lerp_def)
next
  assume i: "i < j \<and> lvl_pptt (curve ! i) = 0"
  then have "lvl_mV (curve ! j) < lvl_mV (curve ! i)" and "lvl_pptt (curve ! j) = 0"
    using curve_ok_nth [OF ok _ j, of i] by auto
  with i show ?thesis by (simp add: level_at_def word_less_nat_alt)
qed

section \<open>Uptime strings\<close>

lemma length_pad0: "length s \<le> w \<Longrightarrow> length (pad0 w s) = w"
  by (simp add: pad0_def)

lemma now_fields_split:
  "now_fields uptime = (h, mn, s, ms) \<Longrightarrow>
     unat uptime = ((h * 60 + mn) * 60 + s) * 1000 + ms \<and> mn < 60 \<and> s < 60 \<and> ms < 1000 \<and> h < 1194"
proof -
  assume "now_fields uptime = (h, mn, s, ms)"
  then have f: "h = unat uptime div 1000 div 60 div 60" "mn = unat uptime div 1000 div 60 mod 60"
    "s = unat uptime div 1000 mod 60" "ms = unat uptime mod 1000"
    by (simp_all add: now_fields_def Let_def)
  have "unat uptime = ((h * 60 + mn) * 60 + s) * 1000 + ms"
    unfolding f by (simp only: div_mult_mod_eq)
  moreover have "h < 1194"
    using unat_u32_less [of uptime] unfolding f by (simp flip: div_mult2_eq)
  ultimately show ?thesis by (simp add: f)
qed

section \<open>Properties\<close>

lemma level_bounds_aux:
  assumes ok: "curve_ok curve"
  shows "\<exists>l. battery_level_pptt m curve = Some l \<and> l \<le> ucast (lvl_pptt (hd curve))"
proof -
  obtain i l where "find_point m curve 0 = Some i" "battery_level_pptt m curve = Some l"
    "unat l = level_at curve i m" using battery_level_some [OF ok] .
  with level_at_le_first [OF ok] show ?thesis by (simp add: word_le_nat_alt)
qed

text \<open>
  on a valid discharge curve the level estimate neither reads outside the table nor divides
  by zero, and it never exceeds the level of the first point.
\<close>

theorem battery_level_defined:
  assumes "curve_ok curve"
  shows "\<exists>l. battery_level_pptt m curve = Some l \<and> l \<le> ucast (lvl_pptt (hd curve))"
  using assms by (rule level_bounds_aux)

theorem battery_level_defined_witness:
  "\<exists>l. battery_level_pptt 3700 levels_divider = Some l \<and> l \<le> 10000"
  using battery_level_defined [of levels_divider 3700]
  by (simp add: levels_divider_def curve_ok_def)

text \<open>
  C37: the estimate is monotone in the measured voltage, across the segments of the curve and in
  spite of the truncating division within one.
\<close>

theorem battery_level_mono:
  assumes "curve_ok curve" and "m \<le> m'"
    and "battery_level_pptt m curve = Some l" and "battery_level_pptt m' curve = Some l'"
  shows "l \<le> l'"
proof -
  obtain i j where "find_point m curve 0 = Some i" "find_point m' curve 0 = Some j"
    "unat l = level_at curve i m" "unat l' = level_at curve j m'"
    using battery_level_some [OF assms(1), of m] battery_level_some [OF assms(1), of m'] assms(3,4)
    by (metis option.inject)
  with level_at_mono [OF assms(1,2)] show ?thesis by (simp add: word_le_nat_alt)
qed

lemma levels_divider_3600: "battery_level_pptt 3600 levels_divider = Some 1796"
  by (simp add: battery_level_pptt_def levels_divider_def find_point.simps interpolate_def)

lemma levels_divider_3700: "battery_level_pptt 3700 levels_divider = Some 4140"
  by (simp add: battery_level_pptt_def levels_divider_def find_point.simps interpolate_def)

theorem battery_level_mono_witness: "(1796 :: u32) \<le> 4140"
  using battery_level_mono [OF _ _ levels_divider_3600 levels_divider_3700]
  by (simp add: levels_divider_def curve_ok_def)

text \<open>
  at the voltage of a point of the curve the estimate is the level of that point.
\<close>

theorem battery_level_exact:
  assumes "curve_ok curve" and "p \<in> set curve"
  shows "battery_level_pptt (ucast (lvl_mV p)) curve = Some (ucast (lvl_pptt p))"
proof -
  from assms(2) obtain j where j: "j < length curve" "p = curve ! j" by (auto simp: in_set_conv_nth)
  obtain i l where "find_point (ucast (lvl_mV p)) curve 0 = Some i"
    "battery_level_pptt (ucast (lvl_mV p)) curve = Some l" "unat l = level_at curve i (ucast (lvl_mV p))"
    using battery_level_some [OF assms(1)] .
  with level_at_point [OF assms(1) j(1)] j(2) show ?thesis by (simp add: word_unat_eq_iff)
qed

theorem battery_level_exact_witness: "battery_level_pptt 3550 levels_divider = Some 625"
  using battery_level_exact [of levels_divider "\<lparr>lvl_pptt = 625, lvl_mV = 3550\<rparr>"]
  by (simp add: levels_divider_def curve_ok_def)

text \<open>
  the uptime string always fits in its 16-byte buffer, so \<open>snprintf\<close> truncates
  nothing, and its fields are the hours, minutes, seconds and milliseconds of the uptime.
\<close>

theorem now_str_fits:
  "now_str uptime = now_str_untruncated uptime \<and>
   (case now_fields uptime of (h, mn, s, ms) \<Rightarrow>
      unat uptime = ((h * 60 + mn) * 60 + s) * 1000 + ms \<and> mn < 60 \<and> s < 60 \<and> ms < 1000)"
proof -
  obtain h mn s ms where f: "now_fields uptime = (h, mn, s, ms)" by (metis prod_cases4)
  note b = now_fields_split [OF f]
  have "length (dec h) \<le> 4" "length (dec mn) \<le> 2" "length (dec s) \<le> 2" "length (dec ms) \<le> 3"
    using b by (simp_all add: length_dec_le)
  then have "length (now_str_untruncated uptime) \<le> 15"
    by (simp add: now_str_untruncated_def f length_pad0)
  with b f show ?thesis by (simp add: now_str_def)
qed

text \<open>
  C31: with one of the two tables of the program, \<open>main\<close> never leaves the table, whatever the
  drivers return, and every level it prints is at most 10000.
\<close>

lemma battery_loop_levels:
  "curve_ok levels \<Longrightarrow> \<forall>out \<in> set (battery_loop cfg levels envs bs).
     out \<noteq> CurveFault \<and> (\<forall>mV l. out = Level mV l \<longrightarrow> 0 \<le> mV \<and> l \<le> ucast (lvl_pptt (hd levels)))"
proof (induction cfg levels envs bs rule: battery_loop.induct)
  case (2 cfg levels env envs bs)
  obtain mV bs' where s: "battery_sample env cfg bs = (mV, bs')" by (cases "battery_sample env cfg bs")
  obtain l where "battery_level_pptt (word_of_int mV) levels = Some l" "l \<le> ucast (lvl_pptt (hd levels))"
    using level_bounds_aux [OF "2.prems"] by blast
  with 2 s show ?case by simp
qed simp

theorem battery_main_levels:
  assumes "levels = levels_divider \<or> levels = levels_linear"
    and "out \<in> set (battery_main env0 cfg levels envs bs)"
  shows "out \<noteq> CurveFault \<and> (\<forall>mV l. out = Level mV l \<longrightarrow> 0 \<le> mV \<and> l \<le> 10000)"
proof -
  have ok: "curve_ok levels" and top: "lvl_pptt (hd levels) = 10000"
    using assms(1) by (auto simp: levels_divider_def levels_linear_def curve_ok_def)
  show ?thesis
    using assms(2) battery_loop_levels [OF ok, of cfg envs bs] top
    by (auto simp: battery_main_def Let_def split: if_splits)
qed

text \<open>A board without a divider whose driver reads 2650 mV once and then fails.\<close>

definition demo_env :: "int \<Rightarrow> battery_env" where
  "demo_env rc =
     \<lparr>be_binding = (\<lambda>_. Some 1), be_gpio_configure = (\<lambda>_ _ _. 0), be_gpio_set = (\<lambda>_ _ _. 0),
      be_adc_setup = (\<lambda>_ _. 0), be_adc_read = (\<lambda>_. (rc, 2650)), be_raw_to_mV = (\<lambda>_ _ v. v),
      be_output_inactive = 0, be_ain0 = 1, be_gain = ADC_GAIN_1_6\<rparr>"

definition demo_cfg :: divider_config where
  "demo_cfg =
     \<lparr>dc_io = \<lparr>io_label = Some ''ADC_0'', io_channel = 4\<rparr>,
      dc_gpio = \<lparr>gp_label = None, gp_pin = 0, gp_flags = 0\<rparr>, output_ohm = 0, full_ohm = 0\<rparr>"

definition demo_state :: battery_state where
  "demo_state =
     \<lparr>bs_data = \<lparr>dd_adc = Some 1, dd_gpio = None,
        dd_cfg = \<lparr>acc_gain = ADC_GAIN_1_6, acc_acquisition_us = 40, acc_input_positive = 5\<rparr>,
        dd_seq = adc_seq_init, dd_raw = 0\<rparr>, battery_ok = True\<rparr>"

lemma demo_run:
  "battery_main (demo_env 0) demo_cfg levels_linear [demo_env 0, demo_env (- 5)] demo_state =
     [Level 2650 5000, ReadFailed (- 5), Disabled 0]"
proof -
  have "battery_level_pptt 2650 levels_linear = Some 5000"
    by (simp add: battery_level_pptt_def levels_linear_def find_point.simps interpolate_def)
  then show ?thesis
    by (simp add: battery_main_def battery_measure_enable_def battery_sample_def demo_env_def
        demo_cfg_def demo_state_def adc_seq_init_def)
qed

theorem battery_main_levels_witness:
  "Level 2650 5000 \<in> set (battery_main (demo_env 0) demo_cfg levels_linear
       [demo_env 0, demo_env (- 5)] demo_state) \<and> (5000 :: u32) \<le> 10000"
  using battery_main_levels [of levels_linear "Level 2650 5000" "demo_env 0" demo_cfg
      "[demo_env 0, demo_env (- 5)]" demo_state] demo_run
  by simp

lemma divider_setup_bound:
  "divider_setup env cfg ddp = (0, ddp') \<Longrightarrow> dd_adc ddp' \<noteq> None \<and> dd_seq ddp' = adc_seq_init"
  by (auto simp: divider_setup_def gpio_setup_def Let_def errno_defs
      split: option.splits prod.splits if_splits)

lemma battery_not_ok:
  assumes "\<not> battery_ok bs"
  shows "battery_sample env cfg bs = (- ENOENT, bs)" "battery_measure_enable env cfg enable bs = - ENOENT"
  using assms by (simp_all add: battery_sample_def battery_measure_enable_def)

lemma battery_sample_calibrated:
  "battery_ok bs \<Longrightarrow> \<not> asq_calibrate (dd_seq (bs_data (snd (battery_sample env cfg bs))))"
  by (simp add: battery_sample_def Let_def split: prod.splits)

text \<open>
  after a set-up that failed, whichever step failed, the measurement can be neither enabled
  nor sampled: both report \<open>-ENOENT\<close> and the drivers are not asked; after one that
  succeeded, the ADC is bound and the sequence asks for a calibration exactly once.
\<close>

theorem battery_setup_outcome:
  assumes "battery_setup env cfg bs = (rc, bs')"
  shows "if rc = 0
     then battery_ok bs' \<and> dd_adc (bs_data bs') \<noteq> None \<and> asq_calibrate (dd_seq (bs_data bs')) \<and>
       \<not> asq_calibrate (dd_seq (bs_data (snd (battery_sample env' cfg bs'))))
     else battery_sample env' cfg bs' = (- ENOENT, bs') \<and>
       battery_measure_enable env' cfg enable bs' = - ENOENT"
proof -
  obtain ddp where d: "divider_setup env cfg (bs_data bs) = (rc, ddp)"
    and b: "bs' = bs\<lparr>bs_data := ddp, battery_ok := (rc = 0)\<rparr>"
    using assms by (auto simp: battery_setup_def split: prod.splits)
  show ?thesis
  proof (cases "rc = 0")
    case True
    with d divider_setup_bound [of env cfg "bs_data bs" ddp]
    have "dd_adc ddp \<noteq> None" "dd_seq ddp = adc_seq_init" by auto
    with True b battery_sample_calibrated [of bs' env' cfg] show ?thesis
      by (simp add: adc_seq_init_def)
  next
    case False
    with b have "\<not> battery_ok bs'" by simp
    with False show ?thesis by (simp add: battery_not_ok)
  qed
qed

definition demo_cfg_noadc :: divider_config where
  "demo_cfg_noadc = demo_cfg\<lparr>dc_io := \<lparr>io_label = None, io_channel = 4\<rparr>\<rparr>"

lemma demo_setup_fails:
  "battery_setup (demo_env 0) demo_cfg_noadc demo_state = (- ENOTSUP, demo_state\<lparr>battery_ok := False\<rparr>)"
  by (simp add: battery_setup_def divider_setup_def demo_state_def demo_cfg_noadc_def errno_defs)

theorem battery_setup_outcome_witness:
  "battery_sample (demo_env 0) demo_cfg_noadc (demo_state\<lparr>battery_ok := False\<rparr>) =
     (- ENOENT, demo_state\<lparr>battery_ok := False\<rparr>)"
  using battery_setup_outcome [OF demo_setup_fails, of "demo_env 0" True] by (simp add: errno_defs)

end
