(* ===== verification/SensorQueue.thy ===== *)
theory SensorQueue
  imports Prelude
begin

text \<open>
  The contract between the sensor-data aggregator of the LTE/BLE gateway and its clients (the
  BLE callbacks and the GPS handler, which put records, and the alarm, which drains them): a
  bounded queue that keeps the most recent records.
\<close>

text \<open>The puts of several records in a row, and whether all of them were accepted.\<close>

fun put_all :: "('d \<Rightarrow> 's \<Rightarrow> int \<times> 's) \<Rightarrow> 'd list \<Rightarrow> 's \<Rightarrow> bool \<times> 's" where
  "put_all put [] s = (True, s)"
| "put_all put (d # ds) s =
     (case put d s of (err, s') \<Rightarrow>
        case put_all put ds s' of (ok, s'') \<Rightarrow> (err = 0 \<and> ok, s''))"

locale sensor_queue =
  fixes put :: "'d \<Rightarrow> 's \<Rightarrow> int \<times> 's"
    and get :: "'s \<Rightarrow> int \<times> 'd option \<times> 's"
    and inv :: "'s \<Rightarrow> bool"
    and contents :: "'s \<Rightarrow> 'd list"
    and cap :: nat
  assumes cap_pos: "0 < cap"
    and within_cap: "inv s \<Longrightarrow> length (contents s) \<le> cap"
    and put_inv: "inv s \<Longrightarrow> put d s = (err, s') \<Longrightarrow> inv s'"
    and put_ok: "inv s \<Longrightarrow> put d s = (0, s') \<Longrightarrow> contents s' = last_n cap (contents s @ [d])"
    and put_fails: "inv s \<Longrightarrow> put d s = (err, s') \<Longrightarrow> err \<noteq> 0 \<Longrightarrow> contents s' = contents s"
    and get_empty: "inv s \<Longrightarrow> contents s = [] \<Longrightarrow>
          \<exists>s'. get s = (- ENODATA, None, s') \<and> inv s' \<and> contents s' = []"
    and get_first: "inv s \<Longrightarrow> contents s = d # ds \<Longrightarrow>
          \<exists>s'. get s = (0, Some d, s') \<and> inv s' \<and> contents s' = ds"
begin

text \<open>After any number of accepted puts the queue holds the most recent records, in order.\<close>

lemma put_all_contents:
  "inv s \<Longrightarrow> put_all put ds s = (True, s') \<Longrightarrow> inv s' \<and> contents s' = last_n cap (contents s @ ds)"
proof (induction ds arbitrary: s)
  case Nil
  then show ?case using within_cap by simp
next
  case (Cons d ds)
  obtain err t where p: "put d s = (err, t)" by (cases "put d s")
  with Cons.prems have "err = 0" and rest: "put_all put ds t = (True, s')"
    by (auto split: prod.splits)
  with p Cons.prems(1) have t: "inv t" "contents t = last_n cap (contents s @ [d])"
    by (auto intro: put_inv put_ok)
  from Cons.IH [OF t(1) rest] t(2)
  have "inv s'" and c: "contents s' = last_n cap (last_n cap (contents s @ [d]) @ ds)" by auto
  moreover have "last_n cap (last_n cap (contents s @ [d]) @ ds) = last_n cap (contents s @ d # ds)"
    using last_n_append_last_n [of cap "contents s @ [d]" ds] by simp
  ultimately show ?case by simp
qed

end

end
