(* ===== verification/Aggregator.thy ===== *)
theory Aggregator
  imports SensorQueue
begin

text \<open>
  The sensor-data aggregator of the gateway (\<open>aggregator.c\<close>, \<open>aggregator.h\<close>): a queue of at
  most twelve heap-allocated records on a kernel FIFO. The kernel's FIFO and allocator are
  arguments (\<open>kfifo_api\<close>, \<open>malloc\<close>); \<open>kfifo_ok\<close> and \<open>malloc_ok\<close> state what their
  documentation promises. Each operation runs under \<open>irq_lock\<close>, so it is one step of the model.
\<close>

section \<open>Records\<close>

text \<open>
  \<open>GPS_NMEA_SENTENCE_MAX_LENGTH\<close> is 83 according to the comment in \<open>aggregator.h\<close>. The
  constructor \<open>OTHER_TYPE\<close> stands for a value of the enumeration variable that is none of its
  enumerators, for which the alarm has a branch.
\<close>

definition GPS_NMEA_SENTENCE_MAX_LENGTH :: nat where
  "GPS_NMEA_SENTENCE_MAX_LENGTH = 83"

definition ENTRY_MAX_SIZE :: nat where
  "ENTRY_MAX_SIZE = GPS_NMEA_SENTENCE_MAX_LENGTH + 4"

definition FIFO_MAX_ELEMENT_COUNT :: nat where
  "FIFO_MAX_ELEMENT_COUNT = 12"

datatype sensor_data_type = THINGY_ORIENTATION | GPS_POSITION | THINGY_BUTTON | OTHER_TYPE int

record sensor_data =
  sd_length :: u8
  sd_type :: sensor_data_type
  sd_data :: "u8 list"

section \<open>State and operations\<close>

text \<open>The kernel's FIFO: \<open>k_fifo_get\<close> without waiting, and \<open>k_fifo_put\<close>.\<close>

record 'q kfifo_api =
  kf_get :: "'q \<Rightarrow> ptr option \<times> 'q"
  kf_put :: "ptr \<Rightarrow> 'q \<Rightarrow> 'q"

definition kfifo_ok :: "'q kfifo_api \<Rightarrow> ('q \<Rightarrow> ptr list) \<Rightarrow> bool" where
  "kfifo_ok api elems \<longleftrightarrow>
     (\<forall>q. elems q = [] \<longrightarrow> fst (kf_get api q) = None \<and> elems (snd (kf_get api q)) = []) \<and>
     (\<forall>q p ps. elems q = p # ps \<longrightarrow> fst (kf_get api q) = Some p \<and> elems (snd (kf_get api q)) = ps) \<and>
     (\<forall>q p. elems (kf_put api p q) = elems q @ [p])"

text \<open>The live blocks that the aggregator allocated, and \<open>k_malloc\<close>: a fresh block or failure.\<close>

type_synonym agg_heap = "ptr \<rightharpoonup> sensor_data"

definition malloc_ok :: "(agg_heap \<Rightarrow> ptr option) \<Rightarrow> bool" where
  "malloc_ok malloc \<longleftrightarrow> (\<forall>h p. malloc h = Some p \<longrightarrow> h p = None)"

record 'q aggregator =
  ag_fifo :: 'q
  entry_count :: u32
  ag_heap :: agg_heap

definition agg_pop_oldest :: "'q kfifo_api \<Rightarrow> 'q aggregator \<Rightarrow> ptr option \<times> 'q aggregator" where
  "agg_pop_oldest api s =
     (case kf_get api (ag_fifo s) of (p, q) \<Rightarrow>
        (p, s\<lparr>ag_fifo := q, entry_count := entry_count s - 1\<rparr>))"

definition aggregator_put ::
    "'q kfifo_api \<Rightarrow> (agg_heap \<Rightarrow> ptr option) \<Rightarrow> sensor_data \<Rightarrow> 'q aggregator \<Rightarrow>
     int \<times> 'q aggregator" where
  "aggregator_put api malloc in_data s =
     (let (fifo_data, s) =
        (if entry_count s = of_nat FIFO_MAX_ELEMENT_COUNT then agg_pop_oldest api s else (None, s));
        fifo_data = (case fifo_data of None \<Rightarrow> malloc (ag_heap s) | Some p \<Rightarrow> Some p)
      in case fifo_data of
           None \<Rightarrow> (- ENOMEM, s)
         | Some p \<Rightarrow>
             (0, s\<lparr>ag_heap := (ag_heap s)(p \<mapsto> in_data),
                  ag_fifo := kf_put api p (ag_fifo s),
                  entry_count := entry_count s + 1\<rparr>))"

text \<open>
  The record that \<open>aggregator_get\<close> copies out is the second component; it stays \<open>None\<close> where
  nothing is written, and is \<open>None\<close> as well if the block were not live.
\<close>

definition aggregator_get ::
    "'q kfifo_api \<Rightarrow> bool \<Rightarrow> 'q aggregator \<Rightarrow> int \<times> sensor_data option \<times> 'q aggregator" where
  "aggregator_get api out_null s =
     (if out_null then (- EINVAL, None, s)
      else case kf_get api (ag_fifo s) of
             (None, q) \<Rightarrow> (- ENODATA, None, s\<lparr>ag_fifo := q\<rparr>)
           | (Some p, q) \<Rightarrow>
               (0, ag_heap s p,
                s\<lparr>ag_fifo := q, ag_heap := (ag_heap s)(p := None),
                  entry_count := entry_count s - 1\<rparr>))"

partial_function (option) agg_clear_loop ::
    "'q kfifo_api \<Rightarrow> 'q \<Rightarrow> agg_heap \<Rightarrow> ('q \<times> agg_heap) option" where
  "agg_clear_loop api q h =
     (case kf_get api q of (fifo_data, q') \<Rightarrow>
        (case fifo_data of
           None \<Rightarrow> Some (q', h)
         | Some p \<Rightarrow> agg_clear_loop api q' (h(p := None))))"

definition aggregator_clear :: "'q kfifo_api \<Rightarrow> 'q aggregator \<Rightarrow> 'q aggregator option" where
  "aggregator_clear api s =
     (case agg_clear_loop api (ag_fifo s) (ag_heap s) of
        None \<Rightarrow> None
      | Some (q, h) \<Rightarrow> Some (s\<lparr>ag_fifo := q, ag_heap := h, entry_count := 0\<rparr>))"

definition aggregator_element_count_get :: "'q aggregator \<Rightarrow> int" where
  "aggregator_element_count_get s = sint (entry_count s)"

section \<open>The invariant\<close>

text \<open>
  The blocks on the FIFO are pairwise different and are exactly the live ones (nothing leaks,
  nothing dangles), the counter is their number, and there are at most twelve.
\<close>

definition agg_inv :: "('q \<Rightarrow> ptr list) \<Rightarrow> 'q aggregator \<Rightarrow> bool" where
  "agg_inv elems s \<longleftrightarrow>
     distinct (elems (ag_fifo s)) \<and> dom (ag_heap s) = set (elems (ag_fifo s)) \<and>
     unat (entry_count s) = length (elems (ag_fifo s)) \<and>
     length (elems (ag_fifo s)) \<le> FIFO_MAX_ELEMENT_COUNT"

definition agg_contents :: "('q \<Rightarrow> ptr list) \<Rightarrow> 'q aggregator \<Rightarrow> sensor_data list" where
  "agg_contents elems s = map (\<lambda>p. the (ag_heap s p)) (elems (ag_fifo s))"

lemma kfifo_okD:
  assumes "kfifo_ok api elems"
  shows "elems q = [] \<Longrightarrow> \<exists>q'. kf_get api q = (None, q') \<and> elems q' = []"
    and "elems q = p # ps \<Longrightarrow> \<exists>q'. kf_get api q = (Some p, q') \<and> elems q' = ps"
    and "elems (kf_put api p q) = elems q @ [p]"
  using assms unfolding kfifo_ok_def by (metis prod.collapse)+

lemma unat_count_minus_1: "unat (c :: u32) = Suc n \<Longrightarrow> unat (c - 1) = n"
  by (metis One_nat_def diff_Suc_1 le_add1 plus_1_eq_Suc unat_1 unat_minus_le word_le_nat_alt)

lemma unat_count_plus_1: "unat (c :: u32) = n \<Longrightarrow> n < 100 \<Longrightarrow> unat (c + 1) = Suc n"
  by (subst unat_plus_nowrap) simp_all

section \<open>Each operation keeps the invariant and has its abstract effect\<close>

text \<open>The records already queued do not change when a block outside the FIFO is written.\<close>

lemma contents_upd:
  "p \<notin> set ps \<Longrightarrow> map (\<lambda>x. the ((h(p := v)) x)) ps = map (\<lambda>x. the (h x)) ps"
  by simp

lemma get_first_block:
  assumes k: "kfifo_ok api elems" and i: "agg_inv elems s" and e: "elems (ag_fifo s) = p # ps"
  shows "\<exists>s'. aggregator_get api False s = (0, Some (the (ag_heap s p)), s') \<and>
     agg_inv elems s' \<and> agg_contents elems s' = map (\<lambda>p. the (ag_heap s p)) ps"
proof -
  obtain q where q: "kf_get api (ag_fifo s) = (Some p, q)" "elems q = ps"
    using kfifo_okD(2) [OF k e] by blast
  have d: "p \<notin> set ps" "distinct ps" "dom (ag_heap s) = insert p (set ps)"
    "unat (entry_count s) = Suc (length ps)" "length ps < FIFO_MAX_ELEMENT_COUNT"
    using i e by (auto simp: agg_inv_def)
  then obtain v where v: "ag_heap s p = Some v" by blast
  have "set ps = insert p (set ps) - {p}" using d(1) by auto
  with d q v show ?thesis
    by (auto simp: aggregator_get_def agg_inv_def agg_contents_def unat_count_minus_1)
qed

lemma get_no_block:
  assumes k: "kfifo_ok api elems" and i: "agg_inv elems s" and e: "elems (ag_fifo s) = []"
  shows "\<exists>s'. aggregator_get api False s = (- ENODATA, None, s') \<and>
     agg_inv elems s' \<and> agg_contents elems s' = []"
  using kfifo_okD(1) [OF k e] i e
  by (auto simp: aggregator_get_def agg_inv_def agg_contents_def)

text \<open>Putting where there is room: a block is allocated, or nothing changes.\<close>

lemma put_room:
  assumes k: "kfifo_ok api elems" and m: "malloc_ok malloc" and i: "agg_inv elems s"
    and c: "length (elems (ag_fifo s)) < FIFO_MAX_ELEMENT_COUNT"
  shows "case malloc (ag_heap s) of
      None \<Rightarrow> aggregator_put api malloc d s = (- ENOMEM, s)
    | Some p \<Rightarrow> \<exists>s'. aggregator_put api malloc d s = (0, s') \<and> agg_inv elems s' \<and>
        agg_contents elems s' = agg_contents elems s @ [d]"
proof -
  have ne: "entry_count s \<noteq> of_nat FIFO_MAX_ELEMENT_COUNT"
    using i c by (auto simp: agg_inv_def FIFO_MAX_ELEMENT_COUNT_def)
  show ?thesis
  proof (cases "malloc (ag_heap s)")
    case (Some p)
    then have "p \<notin> set (elems (ag_fifo s))" using m i by (auto simp: malloc_ok_def agg_inv_def)
    with Some ne i c show ?thesis
      by (auto simp: aggregator_put_def agg_inv_def agg_contents_def kfifo_okD(3) [OF k]
          unat_count_plus_1 FIFO_MAX_ELEMENT_COUNT_def)
  qed (use ne in \<open>simp add: aggregator_put_def\<close>)
qed

text \<open>Putting on a full queue: the oldest block is reused, without an allocation.\<close>

lemma put_full:
  assumes k: "kfifo_ok api elems" and i: "agg_inv elems s"
    and c: "length (elems (ag_fifo s)) = FIFO_MAX_ELEMENT_COUNT"
  shows "\<exists>s'. aggregator_put api malloc d s = (0, s') \<and> agg_inv elems s' \<and>
     agg_contents elems s' = tl (agg_contents elems s) @ [d] \<and> dom (ag_heap s') = dom (ag_heap s)"
proof -
  obtain p ps where e: "elems (ag_fifo s) = p # ps"
    using c by (cases "elems (ag_fifo s)") (auto simp: FIFO_MAX_ELEMENT_COUNT_def)
  obtain q where q: "kf_get api (ag_fifo s) = (Some p, q)" "elems q = ps"
    using kfifo_okD(2) [OF k e] by blast
  have full: "entry_count s = of_nat FIFO_MAX_ELEMENT_COUNT"
    using i c by (simp add: agg_inv_def word_unat_eq_iff FIFO_MAX_ELEMENT_COUNT_def)
  have d: "p \<notin> set ps" "distinct ps" "dom (ag_heap s) = insert p (set ps)"
    "Suc (length ps) = FIFO_MAX_ELEMENT_COUNT"
    using i e c by (auto simp: agg_inv_def)
  with q full show ?thesis
    by (auto simp: aggregator_put_def agg_pop_oldest_def agg_inv_def agg_contents_def e
        kfifo_okD(3) [OF k] FIFO_MAX_ELEMENT_COUNT_def)
qed

lemma put_cases:
  assumes k: "kfifo_ok api elems" and m: "malloc_ok malloc" and i: "agg_inv elems s"
    and p: "aggregator_put api malloc d s = (err, s')"
  shows "(err = 0 \<and> agg_inv elems s' \<and>
      agg_contents elems s' = last_n FIFO_MAX_ELEMENT_COUNT (agg_contents elems s @ [d])) \<or>
    (err = - ENOMEM \<and> s' = s \<and> length (agg_contents elems s) < FIFO_MAX_ELEMENT_COUNT)"
proof (cases "length (elems (ag_fifo s)) = FIFO_MAX_ELEMENT_COUNT")
  case True
  then have "last_n FIFO_MAX_ELEMENT_COUNT (agg_contents elems s @ [d]) = tl (agg_contents elems s) @ [d]"
    by (cases "elems (ag_fifo s)") (auto simp: last_n_def agg_contents_def FIFO_MAX_ELEMENT_COUNT_def)
  then show ?thesis using put_full [where d = d and malloc = malloc, OF k i True] p by fastforce
next
  case False
  with i have room: "length (elems (ag_fifo s)) < FIFO_MAX_ELEMENT_COUNT" by (simp add: agg_inv_def)
  then have "last_n FIFO_MAX_ELEMENT_COUNT (agg_contents elems s @ [d]) = agg_contents elems s @ [d]"
    by (simp add: agg_contents_def)
  with put_room [OF k m i room, of d] p room show ?thesis
    by (auto simp: agg_contents_def split: option.splits)
qed

interpretation agg: sensor_queue
  "aggregator_put api malloc" "aggregator_get api False"
  "\<lambda>s. kfifo_ok api elems \<and> malloc_ok malloc \<and> agg_inv elems s"
  "agg_contents elems" FIFO_MAX_ELEMENT_COUNT
  for api malloc elems
proof (unfold_locales, goal_cases)
  case 1
  show ?case by (simp add: FIFO_MAX_ELEMENT_COUNT_def)
next
  case (2 s)
  then show ?case by (simp add: agg_inv_def agg_contents_def)
next
  case (3 s d err s')
  then show ?case using put_cases by blast
next
  case (4 s d s')
  then show ?case using put_cases [of api elems malloc s d 0 s'] by (auto simp: errno_defs)
next
  case (5 s d err s')
  then show ?case using put_cases [of api elems malloc s d err s'] by auto
next
  case (6 s)
  then show ?case using get_no_block [of api elems s] by (auto simp: agg_contents_def)
next
  case (7 s d ds)
  then obtain p ps where "elems (ag_fifo s) = p # ps" "d = the (ag_heap s p)"
    "ds = map (\<lambda>p. the (ag_heap s p)) ps" by (auto simp: agg_contents_def)
  with 7 get_first_block [of api elems s p ps] show ?case by auto
qed

section \<open>Clearing\<close>

lemma agg_clear_loop_empties:
  "kfifo_ok api elems \<Longrightarrow>
     \<exists>q'. agg_clear_loop api q h = Some (q', h |` (- set (elems q))) \<and> elems q' = []"
proof (induction "elems q" arbitrary: q h)
  case Nil
  then obtain q' where "kf_get api q = (None, q')" "elems q' = []"
    using kfifo_okD(1) [of api elems q] by auto
  with Nil show ?case by (simp add: agg_clear_loop.simps [of api q h])
next
  case (Cons p ps)
  then obtain q' where q': "kf_get api q = (Some p, q')" "elems q' = ps"
    using kfifo_okD(2) [of api elems q p ps] by auto
  have "(h(p := None)) |` (- set ps) = h |` (- set (p # ps))"
    by (auto simp: restrict_map_def fun_eq_iff)
  with Cons.hyps(1) [of q' "h(p := None)"] Cons.hyps(2) Cons.prems q' show ?case
    by (simp add: agg_clear_loop.simps [of api q h])
qed

lemma aggregator_clear_empties:
  assumes "kfifo_ok api elems" "agg_inv elems s"
  shows "\<exists>s'. aggregator_clear api s = Some s' \<and> agg_inv elems s' \<and> agg_contents elems s' = [] \<and>
     ag_heap s' = Map.empty"
proof -
  have "ag_heap s |` (- set (elems (ag_fifo s))) = Map.empty"
    using assms(2) by (fastforce simp: agg_inv_def restrict_map_def fun_eq_iff dom_def)
  with agg_clear_loop_empties [OF assms(1), of "ag_fifo s" "ag_heap s"] show ?thesis
    by (auto simp: aggregator_clear_def agg_inv_def agg_contents_def)
qed

section \<open>The whole module refines a bounded queue\<close>

datatype agg_op = Put sensor_data | Get | Clear

datatype agg_out = Rc int | Got int "sensor_data option" | Cleared

text \<open>The specification: what each operation may do to the list of queued records.\<close>

inductive queue_step ::
    "agg_op \<Rightarrow> agg_out \<Rightarrow> sensor_data list \<Rightarrow> sensor_data list \<Rightarrow> bool" where
  stored: "queue_step (Put d) (Rc 0) xs (last_n FIFO_MAX_ELEMENT_COUNT (xs @ [d]))"
| no_memory: "length xs < FIFO_MAX_ELEMENT_COUNT \<Longrightarrow> queue_step (Put d) (Rc (- ENOMEM)) xs xs"
| empty: "queue_step Get (Got (- ENODATA) None) [] []"
| oldest: "queue_step Get (Got 0 (Some d)) (d # xs) xs"
| cleared: "queue_step Clear Cleared xs []"

inductive_cases queue_step_PutE: "queue_step (Put d) out xs ys"
inductive_simps queue_step_Get: "queue_step Get out xs ys"

text \<open>The operations of the module on its state, for a sequence of calls.\<close>

fun agg_exec ::
    "'q kfifo_api \<Rightarrow> (agg_heap \<Rightarrow> ptr option) \<Rightarrow> agg_op \<Rightarrow> 'q aggregator \<Rightarrow>
     (agg_out \<times> 'q aggregator) option" where
  "agg_exec api malloc (Put d) s =
     (case aggregator_put api malloc d s of (rc, s') \<Rightarrow> Some (Rc rc, s'))"
| "agg_exec api malloc Get s =
     (case aggregator_get api False s of (rc, d, s') \<Rightarrow> Some (Got rc d, s'))"
| "agg_exec api malloc Clear s = map_option (Pair Cleared) (aggregator_clear api s)"

lemma agg_exec_refines:
  assumes k: "kfifo_ok api elems" and m: "malloc_ok malloc" and i: "agg_inv elems s"
  shows "\<exists>out s'. agg_exec api malloc c s = Some (out, s') \<and> agg_inv elems s' \<and>
     queue_step c out (agg_contents elems s) (agg_contents elems s')"
proof (cases c)
  case (Put d)
  obtain rc s' where "aggregator_put api malloc d s = (rc, s')"
    by (cases "aggregator_put api malloc d s")
  with put_cases [OF k m i this] i Put show ?thesis by (auto intro: queue_step.intros)
next
  case Get
  show ?thesis
  proof (cases "agg_contents elems s")
    case Nil
    with agg.get_empty [of api elems malloc s] k m i Get show ?thesis
      by (auto intro!: queue_step.intros)
  next
    case (Cons d ds)
    with agg.get_first [of api elems malloc s d ds] k m i Get show ?thesis
      by (auto intro!: queue_step.intros)
  qed
next
  case Clear
  with aggregator_clear_empties [OF k i] show ?thesis by (auto intro: queue_step.intros)
qed

fun agg_run ::
    "'q kfifo_api \<Rightarrow> (agg_heap \<Rightarrow> ptr option) \<Rightarrow> agg_op list \<Rightarrow> 'q aggregator \<Rightarrow>
     (agg_out list \<times> 'q aggregator) option" where
  "agg_run api malloc [] s = Some ([], s)"
| "agg_run api malloc (c # cs) s =
     (case agg_exec api malloc c s of
        None \<Rightarrow> None
      | Some (out, s') \<Rightarrow>
          (case agg_run api malloc cs s' of
             None \<Rightarrow> None
           | Some (outs, s'') \<Rightarrow> Some (out # outs, s'')))"

inductive queue_run ::
    "agg_op list \<Rightarrow> agg_out list \<Rightarrow> sensor_data list \<Rightarrow> sensor_data list \<Rightarrow> bool" where
  finished: "queue_run [] [] xs xs"
| more: "queue_step c out xs ys \<Longrightarrow> queue_run cs outs ys zs \<Longrightarrow> queue_run (c # cs) (out # outs) xs zs"

lemma agg_run_refines_from:
  assumes k: "kfifo_ok api elems" and m: "malloc_ok malloc"
  shows "agg_inv elems s \<Longrightarrow> \<exists>outs s'. agg_run api malloc cs s = Some (outs, s') \<and> agg_inv elems s' \<and>
     queue_run cs outs (agg_contents elems s) (agg_contents elems s')"
proof (induction cs arbitrary: s)
  case Nil
  then show ?case by (auto intro: queue_run.finished)
next
  case (Cons c cs)
  obtain out t where step: "agg_exec api malloc c s = Some (out, t)" "agg_inv elems t"
    "queue_step c out (agg_contents elems s) (agg_contents elems t)"
    using agg_exec_refines [OF k m Cons.prems] by blast
  with Cons.IH [OF step(2)] show ?case by (fastforce intro: queue_run.more)
qed

section \<open>Properties\<close>

text \<open>A FIFO on lists and a first-fit allocator, for the witnesses.\<close>

definition list_fifo :: "ptr list kfifo_api" where
  "list_fifo =
     \<lparr>kf_get = (\<lambda>q. case q of [] \<Rightarrow> (None, []) | p # ps \<Rightarrow> (Some p, ps)), kf_put = (\<lambda>p q. q @ [p])\<rparr>"

definition first_fit :: "agg_heap \<Rightarrow> ptr option" where
  "first_fit h = find (\<lambda>p. h p = None) [100, 200, 300, 400]"

definition agg_empty :: "ptr list aggregator" where
  "agg_empty = \<lparr>ag_fifo = [], entry_count = 0, ag_heap = Map.empty\<rparr>"

lemma list_fifo_ok: "kfifo_ok list_fifo id"
  by (simp add: kfifo_ok_def list_fifo_def)

lemma first_fit_ok: "malloc_ok first_fit"
  by (auto simp: malloc_ok_def first_fit_def find_Some_iff)

lemma agg_empty_inv: "agg_inv id agg_empty" and agg_empty_contents: "agg_contents id agg_empty = []"
  by (simp_all add: agg_inv_def agg_contents_def agg_empty_def)

definition button_record :: "u8 \<Rightarrow> sensor_data" where
  "button_record b = \<lparr>sd_length = 1, sd_type = THINGY_BUTTON, sd_data = [b]\<rparr>"

text \<open>
  C1: any sequence of puts, gets and clears returns, keeps the invariant (the live heap blocks
  are exactly the queued ones, so nothing leaks and nothing is used after it is freed), and is a
  run of a queue that holds at most twelve records and drops the oldest one when it is full.
\<close>

theorem aggregator_refines_queue:
  assumes "kfifo_ok api elems" and "malloc_ok malloc" and "agg_inv elems s"
  shows "\<exists>outs s'. agg_run api malloc cs s = Some (outs, s') \<and> agg_inv elems s' \<and>
     queue_run cs outs (agg_contents elems s) (agg_contents elems s')"
  using assms by (rule agg_run_refines_from)

theorem aggregator_refines_queue_witness:
  "\<exists>outs s'. agg_run list_fifo first_fit [Put (button_record 1), Get, Get] agg_empty = Some (outs, s') \<and>
     agg_inv id s' \<and> queue_run [Put (button_record 1), Get, Get] outs [] (agg_contents id s')"
  using aggregator_refines_queue
      [OF list_fifo_ok first_fit_ok agg_empty_inv, of "[Put (button_record 1), Get, Get]"]
  by (simp only: agg_empty_contents)

text \<open>
  C38: after any number of accepted puts the queue holds the twelve most recent records, in the
  order in which they were put.
\<close>

theorem aggregator_keeps_most_recent:
  assumes "kfifo_ok api elems" and "malloc_ok malloc" and "agg_inv elems s"
    and "put_all (aggregator_put api malloc) ds s = (True, s')"
  shows "agg_contents elems s' = last_n FIFO_MAX_ELEMENT_COUNT (agg_contents elems s @ ds)"
  using agg.put_all_contents [of api elems malloc s ds s'] assms by simp

lemma put_two:
  "put_all (aggregator_put list_fifo first_fit) [button_record 0, button_record 1] agg_empty =
     (True, \<lparr>ag_fifo = [100, 200], entry_count = 2,
        ag_heap = [100 \<mapsto> button_record 0, 200 \<mapsto> button_record 1]\<rparr>)"
  by (simp add: aggregator_put_def list_fifo_def first_fit_def agg_empty_def
      FIFO_MAX_ELEMENT_COUNT_def)

theorem aggregator_keeps_most_recent_witness:
  "agg_contents id \<lparr>ag_fifo = [100, 200], entry_count = 2,
       ag_heap = [100 \<mapsto> button_record 0, 200 \<mapsto> button_record 1]\<rparr> =
     last_n FIFO_MAX_ELEMENT_COUNT [button_record 0, button_record 1]"
  using aggregator_keeps_most_recent [OF list_fifo_ok first_fit_ok agg_empty_inv put_two]
  by (simp add: agg_empty_contents)

text \<open>
  a put on a full queue succeeds whatever the allocator says, for it reuses the block of
  the record it drops: the set of live blocks does not change.
\<close>

theorem aggregator_put_full_reuses:
  assumes "kfifo_ok api elems" and "agg_inv elems s"
    and "length (agg_contents elems s) = FIFO_MAX_ELEMENT_COUNT"
  shows "\<exists>s'. aggregator_put api malloc d s = (0, s') \<and> dom (ag_heap s') = dom (ag_heap s) \<and>
     agg_contents elems s' = tl (agg_contents elems s) @ [d]"
proof -
  from assms(3) have "length (elems (ag_fifo s)) = FIFO_MAX_ELEMENT_COUNT" by (simp add: agg_contents_def)
  from put_full [OF assms(1,2) this] show ?thesis by blast
qed

definition agg_full :: "ptr list aggregator" where
  "agg_full = \<lparr>ag_fifo = [0..<12], entry_count = 12,
     ag_heap = (\<lambda>p. if p < 12 then Some (button_record 0) else None)\<rparr>"

lemma agg_full_inv: "agg_inv id agg_full" and agg_full_contents: "length (agg_contents id agg_full) = FIFO_MAX_ELEMENT_COUNT"
  by (auto simp: agg_inv_def agg_contents_def agg_full_def FIFO_MAX_ELEMENT_COUNT_def dom_def)

theorem aggregator_put_full_reuses_witness:
  "\<exists>s'. aggregator_put list_fifo (\<lambda>_. None) (button_record 1) agg_full = (0, s') \<and>
     dom (ag_heap s') = {..<12}"
proof -
  have "dom (ag_heap agg_full) = {..<12}" by (auto simp: agg_full_def dom_def)
  then show ?thesis
    using aggregator_put_full_reuses [OF list_fifo_ok agg_full_inv agg_full_contents, of "\<lambda>_. None" "button_record 1"]
    by auto
qed

end
