(* ===== verification/Gateway.thy ===== *)
theory Gateway
  imports Aggregator
begin

unbundle bit_operations_syntax

text \<open>
  The state and the cloud side of the LTE/BLE gateway (\<open>lte_ble_gateway/src/main.c\<close>): error
  handling, the GPS callback, the status LEDs, sending to nRF Cloud, the cloud event handler and
  the connection work. \<open>gw_env\<close> holds what the external calls of one step return;
  \<open>gw_trace\<close> is the list of the calls made so far. A routine that does not return
  (a reboot, the endless blinking of a debug build) sets \<open>gw_stop\<close>, and \<open>gw_then\<close> runs what
  follows only while that is not set. An access outside an array is \<open>None\<close>.
\<close>

section \<open>State\<close>

datatype display =
    LEDS_INITIALIZING
  | LEDS_LTE_CONNECTING
  | LEDS_LTE_CONNECTED
  | LEDS_CLOUD_CONNECTING
  | LEDS_CLOUD_PAIRING_WAIT
  | LEDS_CLOUD_CONNECTED
  | LEDS_ERROR

datatype cloud_sensor = NRF_CLOUD_SENSOR_GPS | NRF_CLOUD_SENSOR_FLIP | NRF_CLOUD_SENSOR_BUTTON

record cloud_msg =
  cm_type :: cloud_sensor
  cm_tag :: u32
  cm_data :: "u8 list"

datatype error_type = ERROR_NRF_CLOUD | ERROR_MODEM_RECOVERABLE

datatype dm_uuid = BT_UUID_TMS | BT_UUID_TUS

datatype gw_call =
    Sched_lock
  | Lte_power_off
  | Modem_shutdown
  | Sys_reboot
  | Set_leds u8
  | Schedule_leds
  | Schedule_connect nat
  | Cancel_connect
  | Data_stream cloud_msg
  | Data_send cloud_msg
  | Cloud_disconnect
  | Cloud_connect "cloud_sensor list"
  | Sensor_attach cloud_sensor
  | Gps_init
  | Gps_start
  | Lte_connect
  | Dm_start ptr dm_uuid
  | Gatt_subscribe u16 u16
  | Dm_release

datatype stop_reason = Rebooted | Blinking u8 u8

text \<open>
  Where the main loop stands: before the test of \<open>alarm_pending\<close>, between the test and the
  reset, in the draining loop before \<open>aggregator_get\<close>, or with the record that was got.
\<close>

datatype main_pc = Main_waits | Main_clears | Main_drains | Main_holds sensor_data

record 'q gateway =
  gw_agg :: "'q aggregator"
  alarm_pending :: bool
  display_state :: display
  association_requested :: int
  gps_tag :: u32
  send_data_enable :: int
  cloud_connected :: bool
  led_on :: bool
  current_led_on_mask :: u8
  gBTconnPtr :: ptr
  orient_param :: "u16 \<times> u16"
  button_param :: "u16 \<times> u16"
  gw_main :: main_pc
  gw_trace :: "gw_call list"
  gw_stop :: "stop_reason option"

text \<open>
  The LED masks are constants of the board library (\<open>DK_LEDn_MSK\<close>, \<open>DK_ALL_LEDS_MSK\<close>);
  \<open>ge_debug\<close> is \<open>CONFIG_DEBUG\<close> and \<open>ge_auto_connect\<close> is
  \<open>CONFIG_LTE_AUTO_INIT_AND_CONNECT\<close>.
\<close>

record dk_masks =
  dk1 :: u8
  dk2 :: u8
  dk3 :: u8
  dk4 :: u8
  dk_all :: u8

record 'q gw_env =
  ge_kfifo :: "'q kfifo_api"
  ge_malloc :: "agg_heap \<Rightarrow> ptr option"
  ge_dk :: dk_masks
  ge_debug :: bool
  ge_auto_connect :: bool
  ge_buttons :: u32
  ge_stream :: "cloud_msg \<Rightarrow> int"
  ge_send :: "cloud_msg \<Rightarrow> int"
  ge_disconnect :: int
  ge_connect :: int
  ge_attach :: "cloud_sensor \<Rightarrow> int"
  ge_gps_dev :: bool
  ge_gps_init :: int
  ge_gps_start :: int

definition gw_emit :: "gw_call \<Rightarrow> 'q gateway \<Rightarrow> 'q gateway" where
  "gw_emit c s = s\<lparr>gw_trace := gw_trace s @ [c]\<rparr>"

definition gw_then :: "('q gateway \<Rightarrow> 'q gateway) \<Rightarrow> ('q gateway \<Rightarrow> 'q gateway) \<Rightarrow> 'q gateway \<Rightarrow> 'q gateway" where
  "gw_then f g s = (let s' = f s in if gw_stop s' = None then g s' else s')"

section \<open>Errors\<close>

definition led_pattern :: "dk_masks \<Rightarrow> error_type \<Rightarrow> u8" where
  "led_pattern dk t =
     (case t of ERROR_NRF_CLOUD \<Rightarrow> dk1 dk OR dk4 dk | ERROR_MODEM_RECOVERABLE \<Rightarrow> dk1 dk OR dk3 dk)"

definition error_handler :: "'q gw_env \<Rightarrow> error_type \<Rightarrow> 'q gateway \<Rightarrow> 'q gateway" where
  "error_handler env err_type s =
     (let s = (if err_type = ERROR_NRF_CLOUD
               then gw_emit Modem_shutdown (gw_emit Lte_power_off (gw_emit Sched_lock s)) else s)
      in if \<not> ge_debug env then (gw_emit Sys_reboot s)\<lparr>gw_stop := Some Rebooted\<rparr>
         else let p = led_pattern (ge_dk env) err_type
              in s\<lparr>gw_stop := Some (Blinking (p AND 15) (NOT p AND 15))\<rparr>)"

definition nrf_cloud_error_handler :: "'q gw_env \<Rightarrow> int \<Rightarrow> 'q gateway \<Rightarrow> 'q gateway" where
  "nrf_cloud_error_handler env err = error_handler env ERROR_NRF_CLOUD"

definition nrf_modem_recoverable_error_handler :: "'q gw_env \<Rightarrow> u32 \<Rightarrow> 'q gateway \<Rightarrow> 'q gateway" where
  "nrf_modem_recoverable_error_handler env err = error_handler env ERROR_MODEM_RECOVERABLE"

section \<open>GPS\<close>

datatype gps_event =
    GPS_EVT_SEARCH_STARTED
  | GPS_EVT_SEARCH_STOPPED
  | GPS_EVT_SEARCH_TIMEOUT
  | GPS_EVT_PVT_FIX
  | GPS_EVT_NMEA_FIX "u8 list"
  | GPS_EVT_OTHER

definition SWITCH_2 :: u32 where
  "SWITCH_2 = push_bit 3 1"

definition next_tag :: "u32 \<Rightarrow> u32" where
  "next_tag tag = (let tag = tag + 1 in if tag = 0 then 1 else tag)"

text \<open>
  The record of a GPS sentence: the tag's four bytes, the sentence, and the zeros that the
  initialiser of \<open>in_data\<close> leaves behind them.
\<close>

definition gps_record :: "u32 \<Rightarrow> u8 list \<Rightarrow> sensor_data" where
  "gps_record tag nmea =
     \<lparr>sd_length = of_nat (length nmea), sd_type = GPS_POSITION,
      sd_data = le32 tag @ nmea @ replicate (ENTRY_MAX_SIZE - 4 - length nmea) 0\<rparr>"

definition agg_put :: "'q gw_env \<Rightarrow> sensor_data \<Rightarrow> 'q gateway \<Rightarrow> 'q gateway" where
  "agg_put env d s = s\<lparr>gw_agg := snd (aggregator_put (ge_kfifo env) (ge_malloc env) d (gw_agg s))\<rparr>"

text \<open>The copy of a sentence that does not fit into the record runs past its end.\<close>

definition gps_handler :: "'q gw_env \<Rightarrow> gps_event \<Rightarrow> 'q gateway \<Rightarrow> 'q gateway option" where
  "gps_handler env evt s =
     (case evt of
        GPS_EVT_NMEA_FIX nmea \<Rightarrow>
          if ge_buttons env AND SWITCH_2 \<noteq> 0 \<or> send_data_enable s = 0 then Some s
          else let tag = next_tag (gps_tag s); s = s\<lparr>gps_tag := tag\<rparr> in
            if 4 + length nmea \<le> ENTRY_MAX_SIZE then Some (agg_put env (gps_record tag nmea) s)
            else None
      | _ \<Rightarrow> Some s)"

section \<open>Status LEDs\<close>

text \<open>\<open>LED_ON(x)\<close> is \<open>x\<close> and \<open>LED_BLINK(x)\<close> is \<open>x << 8\<close>; the getters undo them.\<close>

definition LED_ON :: "u8 \<Rightarrow> u32" where "LED_ON x = ucast x"
definition LED_BLINK :: "u8 \<Rightarrow> u32" where "LED_BLINK x = push_bit 8 (ucast x)"
definition LED_GET_ON :: "u32 \<Rightarrow> u8" where "LED_GET_ON x = ucast (x AND 255)"
definition LED_GET_BLINK :: "u32 \<Rightarrow> u8" where "LED_GET_BLINK x = ucast (drop_bit 8 x AND 255)"

fun display_value :: "dk_masks \<Rightarrow> display \<Rightarrow> u32" where
  "display_value dk LEDS_INITIALIZING = LED_ON 0"
| "display_value dk LEDS_LTE_CONNECTING = LED_BLINK (dk3 dk)"
| "display_value dk LEDS_LTE_CONNECTED = LED_ON (dk3 dk)"
| "display_value dk LEDS_CLOUD_CONNECTING = LED_BLINK (dk4 dk)"
| "display_value dk LEDS_CLOUD_PAIRING_WAIT = LED_BLINK (dk3 dk OR dk4 dk)"
| "display_value dk LEDS_CLOUD_CONNECTED = LED_ON (dk4 dk)"
| "display_value dk LEDS_ERROR = LED_ON (dk_all dk)"

definition leds_mask :: "dk_masks \<Rightarrow> display \<Rightarrow> bool \<Rightarrow> u8 \<Rightarrow> u8" where
  "leds_mask dk st on cur =
     (let m = cur AND NOT (dk3 dk OR dk4 dk);
          m = m OR LED_GET_ON (display_value dk st)
      in if on then m OR LED_GET_BLINK (display_value dk st)
         else m AND NOT (LED_GET_BLINK (display_value dk st)))"

definition leds_update :: "'q gw_env \<Rightarrow> 'q gateway \<Rightarrow> 'q gateway" where
  "leds_update env s =
     (let on = \<not> led_on s; m = leds_mask (ge_dk env) (display_state s) on (current_led_on_mask s);
          s = s\<lparr>led_on := on\<rparr>;
          s = (if m \<noteq> current_led_on_mask s
               then (gw_emit (Set_leds m) s)\<lparr>current_led_on_mask := m\<rparr> else s)
      in gw_emit Schedule_leds s)"

section \<open>Sending to the cloud\<close>

definition sensor_data_send :: "'q gw_env \<Rightarrow> cloud_msg \<Rightarrow> 'q gateway \<Rightarrow> 'q gateway" where
  "sensor_data_send env data s =
     (if send_data_enable s = 0 then s
      else let (err, s) =
             (if cm_type data = NRF_CLOUD_SENSOR_FLIP
              then (ge_stream env data, gw_emit (Data_stream data) s)
              else (ge_send env data, gw_emit (Data_send data) s))
           in if err \<noteq> 0 then nrf_cloud_error_handler env err s else s)"

section \<open>Cloud events\<close>

datatype cloud_evt =
    TRANSPORT_CONNECTED
  | USER_ASSOCIATION_REQUEST
  | USER_ASSOCIATED
  | READY
  | SENSOR_ATTACHED
  | SENSOR_DATA_ACK
  | TRANSPORT_DISCONNECTED
  | CLOUD_ERROR int
  | UNKNOWN_EVT

definition on_cloud_evt_user_association_request :: "'q gateway \<Rightarrow> 'q gateway" where
  "on_cloud_evt_user_association_request s =
     (if association_requested s = 0 then s\<lparr>association_requested := 1\<rparr> else s)"

definition on_cloud_evt_user_associated :: "'q gw_env \<Rightarrow> 'q gateway \<Rightarrow> 'q gateway" where
  "on_cloud_evt_user_associated env s =
     (if association_requested s \<noteq> 0
      then let s = gw_emit Cloud_disconnect (s\<lparr>association_requested := 0\<rparr>)
           in if ge_disconnect env = 0 then s else nrf_cloud_error_handler env (ge_disconnect env) s
      else s)"

definition sensors_init :: "'q gw_env \<Rightarrow> 'q gateway \<Rightarrow> 'q gateway" where
  "sensors_init env s =
     (if \<not> ge_gps_dev env then s
      else let s = gw_emit Gps_init s in
        if ge_gps_init env \<noteq> 0 then s else gw_emit Gps_start s)"

definition sensor_attach :: "'q gw_env \<Rightarrow> cloud_sensor \<Rightarrow> 'q gateway \<Rightarrow> 'q gateway" where
  "sensor_attach env t s =
     (let s = gw_emit (Sensor_attach t) s
      in if ge_attach env t \<noteq> 0 then nrf_cloud_error_handler env (ge_attach env t) s else s)"

definition cloud_event_handler :: "'q gw_env \<Rightarrow> cloud_evt \<Rightarrow> 'q gateway \<Rightarrow> 'q gateway" where
  "cloud_event_handler env evt s =
     (case evt of
        TRANSPORT_CONNECTED \<Rightarrow> gw_emit Cancel_connect (s\<lparr>cloud_connected := True\<rparr>)
      | USER_ASSOCIATION_REQUEST \<Rightarrow>
          on_cloud_evt_user_association_request (s\<lparr>display_state := LEDS_CLOUD_PAIRING_WAIT\<rparr>)
      | USER_ASSOCIATED \<Rightarrow> on_cloud_evt_user_associated env s
      | READY \<Rightarrow>
          gw_then (sensor_attach env NRF_CLOUD_SENSOR_FLIP)
            (gw_then (sensor_attach env NRF_CLOUD_SENSOR_GPS)
              (\<lambda>s. (sensors_init env s)\<lparr>send_data_enable := 1\<rparr>))
            (s\<lparr>display_state := LEDS_CLOUD_CONNECTED\<rparr>)
      | SENSOR_ATTACHED \<Rightarrow> s
      | SENSOR_DATA_ACK \<Rightarrow> s
      | TRANSPORT_DISCONNECTED \<Rightarrow>
          gw_emit (Schedule_connect 0)
            (s\<lparr>send_data_enable := 0, display_state := LEDS_INITIALIZING, cloud_connected := False\<rparr>)
      | CLOUD_ERROR status \<Rightarrow>
          nrf_cloud_error_handler env status (s\<lparr>send_data_enable := 0, display_state := LEDS_ERROR\<rparr>)
      | UNKNOWN_EVT \<Rightarrow> s)"

section \<open>Connecting\<close>

definition RETRY_CONNECT_WAIT :: nat where
  "RETRY_CONNECT_WAIT = 90000"

definition cloud_connect :: "'q gw_env \<Rightarrow> 'q gateway \<Rightarrow> 'q gateway" where
  "cloud_connect env s =
     (if cloud_connected s then s
      else let s = gw_emit (Cloud_connect [NRF_CLOUD_SENSOR_GPS, NRF_CLOUD_SENSOR_FLIP]) s in
        if ge_connect env \<noteq> 0 then nrf_cloud_error_handler env (ge_connect env) s
        else gw_emit (Schedule_connect RETRY_CONNECT_WAIT) (s\<lparr>display_state := LEDS_CLOUD_CONNECTING\<rparr>))"

definition work_init :: "'q gateway \<Rightarrow> 'q gateway" where
  "work_init s = gw_emit Schedule_leds s"

definition modem_configure :: "'q gw_env \<Rightarrow> 'q gateway \<Rightarrow> 'q gateway" where
  "modem_configure env s =
     (let s = s\<lparr>display_state := LEDS_LTE_CONNECTING\<rparr>
      in if ge_auto_connect env then s
         else (gw_emit Lte_connect s)\<lparr>display_state := LEDS_LTE_CONNECTED\<rparr>)"

section \<open>Frame lemmas\<close>

text \<open>
  What the routines of this theory leave alone. \<open>gw_simps\<close> collects the definitions that
  the step proofs unfold.
\<close>

lemmas gw_simps =
  gw_emit_def gw_then_def error_handler_def nrf_cloud_error_handler_def
  nrf_modem_recoverable_error_handler_def sensor_data_send_def sensors_init_def sensor_attach_def
  on_cloud_evt_user_association_request_def on_cloud_evt_user_associated_def
  leds_update_def cloud_connect_def work_init_def modem_configure_def Let_def

lemma sensor_data_send_frame [simp]:
  "gw_agg (sensor_data_send env m s) = gw_agg s"
  "send_data_enable (sensor_data_send env m s) = send_data_enable s"
  "gps_tag (sensor_data_send env m s) = gps_tag s"
  "alarm_pending (sensor_data_send env m s) = alarm_pending s"
  "gw_main (sensor_data_send env m s) = gw_main s"
  by (simp_all add: gw_simps)

lemma sensor_data_send_off: "send_data_enable s = 0 \<Longrightarrow> sensor_data_send env m s = s"
  by (simp add: sensor_data_send_def)

lemma cloud_event_frame [simp]:
  "gw_agg (cloud_event_handler env evt s) = gw_agg s"
  "gw_main (cloud_event_handler env evt s) = gw_main s"
  by (cases evt; simp add: cloud_event_handler_def gw_simps)+

end
