(* ===== verification/Alarm.thy ===== *)
theory Alarm
  imports Gateway
begin

text \<open>
  The alarm of the gateway (\<open>alarm.c\<close>): once it is raised, the next call of
  \<open>send_aggregated_data\<close> drains the aggregator and sends every well-formed record to the cloud.
  The callbacks of the two sides run between any two statements of it that touch what they share,
  so it is a step function over \<open>main_pc\<close>: the test of the flag, its reset, one
  \<open>aggregator_get\<close> (which runs with interrupts locked), and the switch on the record got.
\<close>

definition orientation_strings :: "string list" where
  "orientation_strings = [''LEFT'', ''NORMAL'', ''RIGHT'', ''UPSIDE_DOWN'']"

definition button_strings :: "string list" where
  "button_strings = [''Release'', ''Press'']"

definition alarm :: "'q gateway \<Rightarrow> 'q gateway" where
  "alarm s = s\<lparr>alarm_pending := True\<rparr>"

text \<open>
  The message for a label: the cloud gets the label's bytes with the length that the code sets,
  \<open>strlen(label) - 1\<close>.
\<close>

definition label_msg :: "cloud_sensor \<Rightarrow> string \<Rightarrow> cloud_msg" where
  "label_msg t label =
     \<lparr>cm_type = t, cm_tag = 0, cm_data = bytes_of (take (length label - 1) label)\<rparr>"

text \<open>
  What the alarm makes of a record: \<open>Drop\<close> for one it does not send, and \<open>Overread\<close> where
  the code would read outside the record's buffer or outside its table of labels.
\<close>

datatype item = Send cloud_msg | Drop | Overread

definition label_item :: "cloud_sensor \<Rightarrow> string list \<Rightarrow> sensor_data \<Rightarrow> item" where
  "label_item t labels d =
     (if sd_length d \<noteq> 1 then Drop
      else case sd_data d of
             [] \<Rightarrow> Overread
           | b # _ \<Rightarrow>
               if of_nat (length labels) \<le> (ucast b :: u32) then Drop
               else if unat b < length labels then Send (label_msg t (labels ! unat b))
               else Overread)"

definition item_of :: "sensor_data \<Rightarrow> item" where
  "item_of d =
     (case sd_type d of
        THINGY_ORIENTATION \<Rightarrow> label_item NRF_CLOUD_SENSOR_FLIP orientation_strings d
      | GPS_POSITION \<Rightarrow>
          if length (sd_data d) < 4 + unat (sd_length d) then Overread
          else Send \<lparr>cm_type = NRF_CLOUD_SENSOR_GPS, cm_tag = rd32 (sd_data d),
                 cm_data = take (unat (sd_length d)) (drop 4 (sd_data d))\<rparr>
      | THINGY_BUTTON \<Rightarrow> label_item NRF_CLOUD_SENSOR_BUTTON button_strings d
      | OTHER_TYPE _ \<Rightarrow> Drop)"

definition send_item :: "'q gw_env \<Rightarrow> sensor_data \<Rightarrow> 'q gateway \<Rightarrow> 'q gateway option" where
  "send_item env d s =
     (case item_of d of
        Send m \<Rightarrow> Some (sensor_data_send env m s)
      | Drop \<Rightarrow> Some s
      | Overread \<Rightarrow> None)"

text \<open>
  One step of the main loop. A record that \<open>aggregator_get\<close> did not write (its block was not
  live) would be read uninitialised: \<open>None\<close>.
\<close>

definition send_aggregated_data :: "'q gw_env \<Rightarrow> 'q gateway \<Rightarrow> 'q gateway option" where
  "send_aggregated_data env s =
     (case gw_main s of
        Main_waits \<Rightarrow> Some (if alarm_pending s then s\<lparr>gw_main := Main_clears\<rparr> else s)
      | Main_clears \<Rightarrow> Some (s\<lparr>alarm_pending := False, gw_main := Main_drains\<rparr>)
      | Main_drains \<Rightarrow>
          (case aggregator_get (ge_kfifo env) False (gw_agg s) of
             (err, data, q) \<Rightarrow>
               if err = - ENODATA then Some (s\<lparr>gw_agg := q, gw_main := Main_waits\<rparr>)
               else (case data of
                       None \<Rightarrow> None
                     | Some d \<Rightarrow> Some (s\<lparr>gw_agg := q, gw_main := Main_holds d\<rparr>)))
      | Main_holds d \<Rightarrow> send_item env d (s\<lparr>gw_main := Main_drains\<rparr>))"

section \<open>What one drain sends\<close>

definition msgs_of :: "sensor_data list \<Rightarrow> cloud_msg list" where
  "msgs_of ds = List.map_filter (\<lambda>d. case item_of d of Send m \<Rightarrow> Some m | _ \<Rightarrow> None) ds"

definition call_of :: "cloud_msg \<Rightarrow> gw_call" where
  "call_of m = (if cm_type m = NRF_CLOUD_SENSOR_FLIP then Data_stream m else Data_send m)"

definition cloud_accepts :: "'q gw_env \<Rightarrow> bool" where
  "cloud_accepts env \<longleftrightarrow> (\<forall>m. ge_stream env m = 0 \<and> ge_send env m = 0)"

lemma sensor_data_send_accepted:
  "cloud_accepts env \<Longrightarrow> sensor_data_send env m s =
     (if send_data_enable s = 0 then s else gw_emit (call_of m) s)"
  by (simp add: sensor_data_send_def call_of_def cloud_accepts_def)

lemma map_filter_simps [simp]:
  "List.map_filter f [] = []"
  "List.map_filter f (x # xs) = (case f x of None \<Rightarrow> List.map_filter f xs | Some y \<Rightarrow> y # List.map_filter f xs)"
  by (simp_all add: List.map_filter_def split: option.splits)

text \<open>The cloud takes what it is sent, or sending is off and nothing is.\<close>

lemma send_item_calls:
  assumes "cloud_accepts env \<or> send_data_enable s = 0" and "item_of d \<noteq> Overread"
  shows "send_item env d s = Some (s\<lparr>gw_trace := gw_trace s
           @ (if send_data_enable s = 0 then [] else map call_of (msgs_of [d]))\<rparr>)"
  using assms
  by (cases "item_of d")
    (auto simp: send_item_def sensor_data_send_accepted msgs_of_def gw_emit_def sensor_data_send_off)

lemma msgs_of_cons: "msgs_of (d # ds) = msgs_of [d] @ msgs_of ds"
  by (simp add: msgs_of_def split: item.split)

end
