(* ===== verification/BleSensors.thy ===== *)
theory BleSensors
  imports Alarm
begin

text \<open>
  The Bluetooth side of the gateway (\<open>ble.c\<close>): the notification callbacks of the Thingy's
  orientation and button characteristics, the discovery of the two services and the connection
  callback. The result of a service discovery is the record \<open>discovery\<close>; the handles that the
  callbacks keep in their static subscription parameters are fields of the gateway state.
\<close>

section \<open>Notifications\<close>

text \<open>
  The record of a notification: only the first data byte is written, the others are what the
  stack holds (the argument \<open>stack\<close>).
\<close>

definition ble_record :: "sensor_data_type \<Rightarrow> u8 \<Rightarrow> u8 list \<Rightarrow> sensor_data" where
  "ble_record t b stack = \<lparr>sd_length = 1, sd_type = t, sd_data = b # stack\<rparr>"

definition on_received :: "'q gw_env \<Rightarrow> u8 list \<Rightarrow> u8 list \<Rightarrow> 'q gateway \<Rightarrow> 'q gateway" where
  "on_received env stack data s =
     (case data of
        [] \<Rightarrow> s
      | b # _ \<Rightarrow>
          let s = agg_put env (ble_record THINGY_ORIENTATION b stack) s
          in if b = 3 then alarm s else s)"

definition on_received_button :: "'q gw_env \<Rightarrow> u8 list \<Rightarrow> u8 list \<Rightarrow> 'q gateway \<Rightarrow> 'q gateway" where
  "on_received_button env stack data s =
     (case data of
        [] \<Rightarrow> s
      | b # _ \<Rightarrow>
          let s = agg_put env (ble_record THINGY_BUTTON b stack) s
          in if b = 1 then alarm s else s)"

section \<open>Discovery and connection\<close>

text \<open>
  What a discovery holds: whether the characteristic is there, and the handles of its value and
  CCC descriptors.
\<close>

record discovery =
  disc_chrc :: bool
  disc_value :: "u16 option"
  disc_ccc :: "u16 option"

text \<open>
  The subscription of a discovered characteristic: the parameters are updated as far as the
  descriptors are found, and the subscription is requested when both are.
\<close>

definition subscribe_found ::
    "discovery \<Rightarrow> u16 \<times> u16 \<Rightarrow> (u16 \<times> u16) \<times> bool" where
  "subscribe_found disc param =
     (if \<not> disc_chrc disc then (param, False)
      else case disc_value disc of
             None \<Rightarrow> (param, False)
           | Some v \<Rightarrow>
               (case disc_ccc disc of
                  None \<Rightarrow> ((v, snd param), False)
                | Some c \<Rightarrow> ((v, c), True)))"

definition discovery_completed_button :: "'q gw_env \<Rightarrow> discovery \<Rightarrow> 'q gateway \<Rightarrow> 'q gateway" where
  "discovery_completed_button env disc s =
     (let (param, found) = subscribe_found disc (button_param s);
          s = s\<lparr>button_param := param\<rparr>;
          s = (if found then gw_emit (Gatt_subscribe (fst param) (snd param)) s else s)
      in gw_emit Dm_release s)"

definition discovery_completed :: "'q gw_env \<Rightarrow> discovery \<Rightarrow> 'q gateway \<Rightarrow> 'q gateway" where
  "discovery_completed env disc s =
     (let (param, found) = subscribe_found disc (orient_param s);
          s = s\<lparr>orient_param := param\<rparr>;
          s = (if found then gw_emit (Gatt_subscribe (fst param) (snd param)) s else s);
          s = gw_emit Dm_release s
      in if gBTconnPtr s \<noteq> 0 then gw_emit (Dm_start (gBTconnPtr s) BT_UUID_TUS) s else s)"

definition connected :: "ptr \<Rightarrow> u8 \<Rightarrow> 'q gateway \<Rightarrow> 'q gateway" where
  "connected conn conn_err s =
     (if conn_err \<noteq> 0 then s
      else gw_emit (Dm_start conn BT_UUID_TMS) (s\<lparr>gBTconnPtr := conn\<rparr>))"

section \<open>Start of the Bluetooth side\<close>

text \<open>What \<open>ble_init\<close>, its ready callback and \<open>scan_start\<close> ask of the stack, in order.\<close>

datatype ble_call =
    Bt_enable
  | Conn_cb_register
  | Scan_init
  | Scan_cb_register
  | Scan_filter_add
  | Scan_filter_enable
  | Scan_start

text \<open>A filter that cannot be added ends the set-up; other failures are only reported.\<close>

definition scan_start :: "int \<Rightarrow> ble_call list" where
  "scan_start filter_add_err =
     [Scan_init, Scan_cb_register, Scan_filter_add]
     @ (if filter_add_err \<noteq> 0 then [] else [Scan_filter_enable, Scan_start])"

definition ble_ready :: "int \<Rightarrow> int \<Rightarrow> ble_call list" where
  "ble_ready err filter_add_err = Conn_cb_register # scan_start filter_add_err"

text \<open>The stack calls \<open>ble_ready\<close> when \<open>bt_enable\<close> succeeds.\<close>

definition ble_init :: "int \<Rightarrow> int \<Rightarrow> int \<Rightarrow> ble_call list" where
  "ble_init enable_err ready_err filter_add_err =
     Bt_enable # (if enable_err \<noteq> 0 then [] else ble_ready ready_err filter_add_err)"

end
