(* ===== verification/GatewayMain.thy ===== *)
theory GatewayMain
  imports BleSensors
begin

text \<open>
  The gateway as a whole: the main loop and the callbacks of the two sides as one state machine
  over events, the invariant of the aggregator in it, and the properties that span its modules.
\<close>

section \<open>Events and runs\<close>

datatype gw_event =
    Main_moves
  | Gps gps_event
  | Cloud cloud_evt
  | Leds_work
  | Connect_work
  | Modem_error u32
  | Orientation "u8 list" "u8 list"
  | Button "u8 list" "u8 list"
  | Bt_connected ptr u8
  | Orientation_discovered discovery
  | Button_discovered discovery

text \<open>
  One event: a step of the main loop or a callback. A stopped program does nothing more;
  undefined behaviour is \<open>None\<close>.
\<close>

fun gw_step :: "'q gw_env \<Rightarrow> gw_event \<Rightarrow> 'q gateway \<Rightarrow> 'q gateway option" where
  "gw_step env ev s =
     (if gw_stop s \<noteq> None then Some s
      else case ev of
        Main_moves \<Rightarrow> send_aggregated_data env s
      | Gps e \<Rightarrow> gps_handler env e s
      | Cloud e \<Rightarrow> Some (cloud_event_handler env e s)
      | Leds_work \<Rightarrow> Some (leds_update env s)
      | Connect_work \<Rightarrow> Some (cloud_connect env s)
      | Modem_error err \<Rightarrow> Some (nrf_modem_recoverable_error_handler env err s)
      | Orientation stack data \<Rightarrow> Some (on_received env stack data s)
      | Button stack data \<Rightarrow> Some (on_received_button env stack data s)
      | Bt_connected conn err \<Rightarrow> Some (connected conn err s)
      | Orientation_discovered disc \<Rightarrow> Some (discovery_completed env disc s)
      | Button_discovered disc \<Rightarrow> Some (discovery_completed_button env disc s))"

declare gw_step.simps [simp del]

text \<open>A run: the environment may answer differently at every event.\<close>

fun gw_run :: "('q gw_env \<times> gw_event) list \<Rightarrow> 'q gateway \<Rightarrow> 'q gateway option" where
  "gw_run [] s = Some s"
| "gw_run ((env, ev) # evs) s =
     (case gw_step env ev s of None \<Rightarrow> None | Some s' \<Rightarrow> gw_run evs s')"

text \<open>The start of \<open>main\<close>, up to its loop.\<close>

definition gw_start :: "'q gw_env \<Rightarrow> 'q gateway \<Rightarrow> 'q gateway" where
  "gw_start env s = cloud_connect env (modem_configure env (work_init s))"

text \<open>The environment answers with a FIFO and an allocator that keep their contracts.\<close>

definition env_ok :: "('q \<Rightarrow> ptr list) \<Rightarrow> 'q gw_env \<Rightarrow> bool" where
  "env_ok elems env \<longleftrightarrow> kfifo_ok (ge_kfifo env) elems \<and> malloc_ok (ge_malloc env)"

section \<open>The aggregator inside the gateway\<close>

text \<open>
  The invariant of the gateway: the aggregator's, and the alarm can read every queued record and
  the one it holds within its buffer.
\<close>

definition record_ok :: "sensor_data \<Rightarrow> bool" where
  "record_ok d \<longleftrightarrow> item_of d \<noteq> Overread"

definition held :: "main_pc \<Rightarrow> sensor_data list" where
  "held pc = (case pc of Main_holds d \<Rightarrow> [d] | _ \<Rightarrow> [])"

definition gw_inv :: "('q \<Rightarrow> ptr list) \<Rightarrow> 'q gateway \<Rightarrow> bool" where
  "gw_inv elems s \<longleftrightarrow> agg_inv elems (gw_agg s) \<and>
     list_all record_ok (held (gw_main s) @ agg_contents elems (gw_agg s))"

lemma held_simps [simp]:
  "held Main_waits = []" "held Main_clears = []" "held Main_drains = []" "held (Main_holds d) = [d]"
  by (simp_all add: held_def)

text \<open>The GPS driver's sentences fit into its own buffer.\<close>

fun gw_event_ok :: "gw_event \<Rightarrow> bool" where
  "gw_event_ok (Gps (GPS_EVT_NMEA_FIX nmea)) = (length nmea \<le> GPS_NMEA_SENTENCE_MAX_LENGTH)"
| "gw_event_ok ev = True"

lemma gps_record_ok:
  assumes "length nmea \<le> GPS_NMEA_SENTENCE_MAX_LENGTH"
  shows "record_ok (gps_record tag nmea)"
proof -
  have "length nmea < 256" using assms by (simp add: GPS_NMEA_SENTENCE_MAX_LENGTH_def)
  then have "unat (of_nat (length nmea) :: u8) = length nmea"
    by (simp add: unsigned_of_nat take_bit_nat_eq_self)
  then show ?thesis by (simp add: record_ok_def item_of_def gps_record_def)
qed

lemma label_item_ok: "sd_data d \<noteq> [] \<Longrightarrow> length labels < 256 \<Longrightarrow> label_item t labels d \<noteq> Overread"
  by (cases "sd_data d")
    (auto simp: label_item_def word_le_nat_alt unsigned_of_nat take_bit_nat_eq_self)

lemma labels_short: "length orientation_strings < 256" "length button_strings < 256"
  by (simp_all add: orientation_strings_def button_strings_def)

lemma ble_record_ok: "t = THINGY_ORIENTATION \<or> t = THINGY_BUTTON \<Longrightarrow> record_ok (ble_record t b stack)"
  by (auto simp: record_ok_def item_of_def ble_record_def labels_short label_item_ok)

lemma agg_put_frame [simp]:
  "send_data_enable (agg_put env d s) = send_data_enable s"
  "gw_stop (agg_put env d s) = gw_stop s"
  "gw_trace (agg_put env d s) = gw_trace s"
  "gw_main (agg_put env d s) = gw_main s"
  "alarm_pending (agg_put env d s) = alarm_pending s"
  by (simp_all add: agg_put_def)

lemma set_last_n: "set (last_n n xs) \<subseteq> set xs"
  by (simp add: last_n_def set_drop_subset)

lemma agg_put_inv:
  assumes "env_ok elems env" "gw_inv elems s" "record_ok d"
  shows "gw_inv elems (agg_put env d s)"
proof -
  obtain err a where p: "aggregator_put (ge_kfifo env) (ge_malloc env) d (gw_agg s) = (err, a)"
    by (cases "aggregator_put (ge_kfifo env) (ge_malloc env) d (gw_agg s)")
  have i: "kfifo_ok (ge_kfifo env) elems \<and> malloc_ok (ge_malloc env) \<and> agg_inv elems (gw_agg s)"
    using assms by (simp add: env_ok_def gw_inv_def)
  from agg.put_ok [OF i, of d a] agg.put_fails [OF i p] p
  have "set (agg_contents elems a) \<subseteq> insert d (set (agg_contents elems (gw_agg s)))"
    using set_last_n [of FIFO_MAX_ELEMENT_COUNT "agg_contents elems (gw_agg s) @ [d]"] by (cases "err = 0") auto
  moreover have "agg_inv elems a" using agg.put_inv [OF i p] by simp
  ultimately show ?thesis using assms p by (auto simp: gw_inv_def agg_put_def list_all_iff)
qed

lemma alarm_inv [simp]: "gw_inv elems (alarm s) = gw_inv elems s"
  by (simp add: alarm_def gw_inv_def)

text \<open>\<open>aggregator_get\<close> in the draining loop, by the contract of the queue.\<close>

lemma drain_empty:
  assumes "env_ok elems env" "agg_inv elems (gw_agg s)" "agg_contents elems (gw_agg s) = []"
    "gw_main s = Main_drains"
  shows "\<exists>q. send_aggregated_data env s = Some (s\<lparr>gw_agg := q, gw_main := Main_waits\<rparr>) \<and>
     agg_inv elems q \<and> agg_contents elems q = []"
  using agg.get_empty [of "ge_kfifo env" elems "ge_malloc env" "gw_agg s"] assms
  by (auto simp: env_ok_def send_aggregated_data_def)

lemma drain_first:
  assumes "env_ok elems env" "agg_inv elems (gw_agg s)" "agg_contents elems (gw_agg s) = d # ds"
    "gw_main s = Main_drains"
  shows "\<exists>q. send_aggregated_data env s = Some (s\<lparr>gw_agg := q, gw_main := Main_holds d\<rparr>) \<and>
     agg_inv elems q \<and> agg_contents elems q = ds"
  using agg.get_first [of "ge_kfifo env" elems "ge_malloc env" "gw_agg s" d ds] assms
  by (auto simp: env_ok_def send_aggregated_data_def errno_defs)

lemma send_aggregated_data_inv:
  assumes "env_ok elems env" "gw_inv elems s"
  shows "\<exists>s'. send_aggregated_data env s = Some s' \<and> gw_inv elems s'"
proof (cases "gw_main s")
  case Main_drains
  show ?thesis
  proof (cases "agg_contents elems (gw_agg s)")
    case Nil
    with drain_empty [OF assms(1) _ Nil Main_drains] assms(2) show ?thesis by (auto simp: gw_inv_def)
  next
    case (Cons d ds)
    with drain_first [OF assms(1) _ Cons Main_drains] assms(2) show ?thesis by (auto simp: gw_inv_def)
  qed
next
  case (Main_holds d)
  with assms(2) show ?thesis
    by (auto simp: send_aggregated_data_def send_item_def gw_inv_def record_ok_def split: item.splits)
qed (use assms(2) in \<open>auto simp: send_aggregated_data_def gw_inv_def\<close>)

lemma gw_step_inv:
  assumes "env_ok elems env" "gw_inv elems s" "gw_event_ok ev"
  shows "\<exists>s'. gw_step env ev s = Some s' \<and> gw_inv elems s'"
proof (cases "gw_stop s = None")
  case True
  note put = agg_put_inv [OF assms(1)]
  show ?thesis
  proof (cases ev)
    case Main_moves
    with True send_aggregated_data_inv [OF assms(1,2)] show ?thesis by (simp add: gw_step.simps)
  next
    case (Gps e)
    show ?thesis
    proof (cases "\<exists>nmea. e = GPS_EVT_NMEA_FIX nmea")
      case True
      then obtain nmea where e: "e = GPS_EVT_NMEA_FIX nmea" ..
      with Gps assms(3) have l: "length nmea \<le> GPS_NMEA_SENTENCE_MAX_LENGTH" by simp
      from assms(2) have "gw_inv elems (s\<lparr>gps_tag := next_tag (gps_tag s)\<rparr>)" by (simp add: gw_inv_def)
      from put [OF this gps_record_ok [OF l]] l \<open>gw_stop s = None\<close> Gps e assms(2) show ?thesis
        by (simp add: gw_step.simps gps_handler_def Let_def ENTRY_MAX_SIZE_def)
    next
      case False
      with Gps \<open>gw_stop s = None\<close> assms(2) show ?thesis
        by (cases e) (simp_all add: gw_step.simps gps_handler_def)
    qed
  next
    case (Orientation stack data)
    with True assms show ?thesis
      by (auto simp: gw_step.simps on_received_def Let_def intro!: put ble_record_ok split: list.splits)
  next
    case (Button stack data)
    with True assms show ?thesis
      by (auto simp: gw_step.simps on_received_button_def Let_def intro!: put ble_record_ok split: list.splits)
  qed (use True assms in \<open>simp_all add: gw_step.simps gw_inv_def\<close>,
       use assms in \<open>simp_all add: gw_simps connected_def gw_inv_def
         discovery_completed_def discovery_completed_button_def split: prod.splits\<close>)
qed (use assms in \<open>simp add: gw_step.simps\<close>)

definition envs_ok :: "('q \<Rightarrow> ptr list) \<Rightarrow> ('q gw_env \<times> gw_event) list \<Rightarrow> bool" where
  "envs_ok elems evs \<longleftrightarrow> list_all (\<lambda>(env, ev). env_ok elems env \<and> gw_event_ok ev) evs"

lemma envs_ok_simps [simp]:
  "envs_ok elems []"
  "envs_ok elems ((env, ev) # evs) \<longleftrightarrow> env_ok elems env \<and> gw_event_ok ev \<and> envs_ok elems evs"
  by (simp_all add: envs_ok_def)

lemma gw_run_inv:
  "gw_inv elems s \<Longrightarrow> envs_ok elems evs \<Longrightarrow> \<exists>s'. gw_run evs s = Some s' \<and> gw_inv elems s'"
proof (induction evs arbitrary: s)
  case (Cons x evs)
  obtain env ev where x: "x = (env, ev)" by (cases x)
  with Cons.prems(2) have "env_ok elems env" "gw_event_ok ev" "envs_ok elems evs" by simp_all
  from gw_step_inv [OF this(1) Cons.prems(1) this(2)] Cons.IH [OF _ this(3)] x show ?case
    by fastforce
qed simp

section \<open>When data is sent\<close>

text \<open>
  Whether the last of the events that switch sending on or off was the one that switches it on.
\<close>

fun ready_after :: "bool \<Rightarrow> gw_event list \<Rightarrow> bool" where
  "ready_after r [] = r"
| "ready_after r (Cloud READY # evs) = ready_after True evs"
| "ready_after r (Cloud TRANSPORT_DISCONNECTED # evs) = ready_after False evs"
| "ready_after r (Cloud (CLOUD_ERROR st) # evs) = ready_after False evs"
| "ready_after r (ev # evs) = ready_after r evs"

fun is_data :: "gw_call \<Rightarrow> bool" where
  "is_data (Data_stream m) = True"
| "is_data (Data_send m) = True"
| "is_data c = False"

definition data_calls :: "'q gateway \<Rightarrow> gw_call list" where
  "data_calls s = filter is_data (gw_trace s)"

lemma ready_after_cons: "ready_after r (ev # evs) = ready_after (ready_after r [ev]) evs"
proof (cases ev)
  case (Cloud e)
  then show ?thesis by (cases e) auto
qed auto

lemma send_item_frame:
  assumes "send_item env d s = Some s'"
  shows "send_data_enable s' = send_data_enable s"
    and "send_data_enable s = 0 \<Longrightarrow> gw_trace s' = gw_trace s"
  using assms by (auto simp: send_item_def sensor_data_send_off split: item.splits)

lemma main_moves_enable:
  assumes "send_aggregated_data env s = Some s'"
  shows "send_data_enable s' = send_data_enable s"
    and "send_data_enable s = 0 \<Longrightarrow> gw_trace s' = gw_trace s"
  using assms
  by (auto simp: send_aggregated_data_def send_item_frame split: main_pc.splits if_splits prod.splits
      option.splits dest: send_item_frame)

lemma cloud_event_enable:
  "gw_stop (cloud_event_handler env e s) = None \<Longrightarrow>
     send_data_enable (cloud_event_handler env e s) \<noteq> 0 \<longleftrightarrow>
       ready_after (send_data_enable s \<noteq> 0) [Cloud e]"
  by (cases e) (auto simp: cloud_event_handler_def gw_simps split: if_splits)

lemma gw_step_enable:
  assumes "gw_step env ev s = Some s'" "gw_stop s' = None"
  shows "send_data_enable s' \<noteq> 0 \<longleftrightarrow> ready_after (send_data_enable s \<noteq> 0) [ev]"
proof (cases "gw_stop s = None")
  case True
  show ?thesis
  proof (cases ev)
    case Main_moves
    with True assms(1) main_moves_enable(1) [of env s s'] show ?thesis
      by (simp add: gw_step.simps)
  next
    case (Cloud e)
    with True assms cloud_event_enable [of env e s] show ?thesis by (simp add: gw_step.simps)
  qed (use True assms(1) in \<open>auto simp: gw_step.simps gw_simps connected_def gps_handler_def
         on_received_def on_received_button_def alarm_def discovery_completed_def
         discovery_completed_button_def split: prod.splits list.splits gps_event.splits if_splits\<close>)
qed (use assms in \<open>simp add: gw_step.simps\<close>)

lemma gw_step_stopped: "gw_stop s \<noteq> None \<Longrightarrow> gw_step env ev s = Some s"
  by (simp add: gw_step.simps)

lemma gw_run_stopped: "gw_stop s \<noteq> None \<Longrightarrow> gw_run evs s = Some s"
  by (induction evs) (auto simp: gw_step_stopped)

lemma gw_run_enable:
  "gw_run evs s = Some s' \<Longrightarrow> gw_stop s' = None \<Longrightarrow>
     send_data_enable s' \<noteq> 0 \<longleftrightarrow> ready_after (send_data_enable s \<noteq> 0) (map snd evs)"
proof (induction evs arbitrary: s)
  case (Cons x evs)
  obtain env ev where x: "x = (env, ev)" by (cases x)
  with Cons.prems(1) obtain t where t: "gw_step env ev s = Some t" and run: "gw_run evs t = Some s'"
    by (auto split: option.splits)
  then have "gw_stop t = None" using gw_run_stopped [of t evs] Cons.prems(2)
    by (cases "gw_stop t") auto
  then have "send_data_enable t \<noteq> 0 \<longleftrightarrow> ready_after (send_data_enable s \<noteq> 0) [ev]"
    using gw_step_enable [OF t] by simp
  with Cons.IH [OF run Cons.prems(2)] x
    ready_after_cons [of "send_data_enable s \<noteq> 0" ev "map snd evs"] show ?case by simp
qed simp

lemma handlers_data_calls:
  "data_calls (leds_update env s) = data_calls s"
  "data_calls (cloud_connect env s) = data_calls s"
  "data_calls (nrf_modem_recoverable_error_handler env err s) = data_calls s"
  "data_calls (connected conn cerr s) = data_calls s"
  "data_calls (discovery_completed env disc s) = data_calls s"
  "data_calls (discovery_completed_button env disc s) = data_calls s"
  "data_calls (agg_put env d s) = data_calls s"
  "data_calls (alarm s) = data_calls s"
  by (simp_all add: data_calls_def gw_simps connected_def discovery_completed_def
      discovery_completed_button_def alarm_def split: prod.splits)

lemma data_calls_emit: "data_calls (gw_emit c s) = data_calls s @ filter is_data [c]"
  by (simp add: data_calls_def gw_emit_def)

lemma data_calls_update [simp]:
  "data_calls (s\<lparr>display_state := d\<rparr>) = data_calls s"
  "data_calls (s\<lparr>send_data_enable := n\<rparr>) = data_calls s"
  "data_calls (s\<lparr>cloud_connected := b\<rparr>) = data_calls s"
  "data_calls (s\<lparr>association_requested := n\<rparr>) = data_calls s"
  "data_calls (s\<lparr>gw_stop := r\<rparr>) = data_calls s"
  by (simp_all add: data_calls_def)

lemma cloud_error_data_calls: "data_calls (nrf_cloud_error_handler env err s) = data_calls s"
  by (simp add: nrf_cloud_error_handler_def error_handler_def Let_def data_calls_emit)

lemma cloud_event_data_calls: "data_calls (cloud_event_handler env e s) = data_calls s"
  by (cases e)
    (simp_all add: cloud_event_handler_def gw_then_def sensor_attach_def sensors_init_def Let_def
      on_cloud_evt_user_association_request_def on_cloud_evt_user_associated_def
      data_calls_emit cloud_error_data_calls)

lemma gps_data_calls: "gps_handler env e s = Some s' \<Longrightarrow> data_calls s' = data_calls s"
  by (cases e) (auto simp: data_calls_def gps_handler_def Let_def split: if_splits)

lemma notification_data_calls:
  "data_calls (on_received env stack data s) = data_calls s"
  "data_calls (on_received_button env stack data s) = data_calls s"
  by (simp_all add: on_received_def on_received_button_def Let_def handlers_data_calls split: list.splits)

lemma gw_step_disabled:
  assumes "gw_step env ev s = Some s'" "send_data_enable s = 0"
  shows "data_calls s' = data_calls s"
proof (cases "gw_stop s = None")
  case True
  show ?thesis
  proof (cases ev)
    case Main_moves
    with True assms main_moves_enable(2) [of env s s'] show ?thesis
      by (simp add: gw_step.simps data_calls_def)
  qed (use True assms(1) in \<open>auto simp: gw_step.simps handlers_data_calls cloud_event_data_calls
         gps_data_calls notification_data_calls\<close>)
qed (use assms(1) in \<open>simp add: gw_step.simps\<close>)

section \<open>Properties\<close>

definition demo_dk :: dk_masks where
  "demo_dk = \<lparr>dk1 = 1, dk2 = 2, dk3 = 4, dk4 = 8, dk_all = 15\<rparr>"

definition demo_gw_env :: "ptr list gw_env" where
  "demo_gw_env =
     \<lparr>ge_kfifo = list_fifo, ge_malloc = first_fit, ge_dk = demo_dk, ge_debug = False,
      ge_auto_connect = True, ge_buttons = 0, ge_stream = (\<lambda>_. 0), ge_send = (\<lambda>_. 0),
      ge_disconnect = 0, ge_connect = 0, ge_attach = (\<lambda>_. 0), ge_gps_dev = True,
      ge_gps_init = 0, ge_gps_start = 0\<rparr>"

definition demo_gw :: "ptr list gateway" where
  "demo_gw =
     \<lparr>gw_agg = agg_empty, alarm_pending = False, display_state = LEDS_INITIALIZING,
      association_requested = 0, gps_tag = 1, send_data_enable = 0, cloud_connected = False,
      led_on = False, current_led_on_mask = 0, gBTconnPtr = 0, orient_param = (0, 0),
      button_param = (0, 0), gw_main = Main_waits, gw_trace = [], gw_stop = None\<rparr>"

lemma demo_env_ok: "env_ok id demo_gw_env"
  by (simp add: env_ok_def demo_gw_env_def list_fifo_ok first_fit_ok)

lemma demo_gw_inv: "gw_inv id demo_gw"
  by (simp add: gw_inv_def demo_gw_def agg_empty_inv agg_empty_contents)

text \<open>
  C16: the gateway's memory accesses stay within their objects. From a state in which the
  aggregator keeps its invariant and the records queued or held are readable, whatever the order
  of the callbacks between the steps of the main loop and whatever the external calls answer, no
  step copies past a record, reads past one or outside a table of labels, or uses an aggregator
  block that is not live, and the final state satisfies the same invariant. The GPS driver's
  sentences are at most as long as its buffer, the FIFO and the allocator keep their contracts.
\<close>

theorem gateway_run_memory_safe:
  assumes "gw_inv elems s" and "envs_ok elems evs"
  shows "\<exists>s'. gw_run evs s = Some s' \<and> gw_inv elems s'"
  using assms by (rule gw_run_inv)

theorem gateway_run_memory_safe_witness:
  "\<exists>s'. gw_run [(demo_gw_env, Cloud READY), (demo_gw_env, Gps (GPS_EVT_NMEA_FIX [36, 71])),
       (demo_gw_env, Orientation [] [3]), (demo_gw_env, Main_moves), (demo_gw_env, Main_moves),
       (demo_gw_env, Main_moves), (demo_gw_env, Button [] [1]), (demo_gw_env, Main_moves)]
     demo_gw = Some s' \<and> gw_inv id s'"
  by (rule gateway_run_memory_safe [OF demo_gw_inv])
    (simp add: demo_env_ok GPS_NMEA_SENTENCE_MAX_LENGTH_def)

text \<open>
  sensor data leaves for the cloud only while the gateway is ready: if a step sends data,
  then the last of the events that switch sending on or off was \<open>READY\<close>, not a disconnection
  or an error.
\<close>

theorem gateway_sends_only_when_ready:
  assumes "send_data_enable s = 0" and "gw_run evs s = Some t"
    and "gw_step env ev t = Some t'" and "data_calls t' \<noteq> data_calls t"
  shows "ready_after False (map snd evs)"
proof -
  have "gw_stop t = None" using assms(3,4) gw_step_stopped [of t env ev] by (cases "gw_stop t") auto
  with gw_run_enable [OF assms(2)] assms(1)
  have "send_data_enable t \<noteq> 0 \<longleftrightarrow> ready_after False (map snd evs)" by simp
  moreover have "send_data_enable t \<noteq> 0" using gw_step_disabled [OF assms(3)] assms(4) by auto
  ultimately show ?thesis by blast
qed

definition flip_msg :: "string \<Rightarrow> cloud_msg" where
  "flip_msg l = \<lparr>cm_type = NRF_CLOUD_SENSOR_FLIP, cm_tag = 0, cm_data = bytes_of l\<rparr>"

text \<open>The whole of a drain, undisturbed: two steps per record and a last \<open>aggregator_get\<close>.\<close>

definition moves :: "'q gw_env \<Rightarrow> nat \<Rightarrow> ('q gw_env \<times> gw_event) list" where
  "moves env n = replicate n (env, Main_moves)"

lemma moves_Suc: "gw_run (moves env (Suc n)) s = Option.bind (gw_step env Main_moves s) (gw_run (moves env n))"
  by (simp add: moves_def split: option.split)

lemma moves_0: "gw_run (moves env 0) s = Some s"
  by (simp add: moves_def)

definition sent_calls :: "'q gateway \<Rightarrow> sensor_data list \<Rightarrow> gw_call list" where
  "sent_calls s ds = (if send_data_enable s = 0 then [] else map call_of (msgs_of ds))"

lemma drain_moves:
  assumes "env_ok elems env" and "gw_inv elems s" and "cloud_accepts env \<or> send_data_enable s = 0"
    and "gw_stop s = None" and "gw_main s = Main_drains"
  shows "\<exists>s'. gw_run (moves env (2 * length (agg_contents elems (gw_agg s)) + 1)) s = Some s' \<and>
     agg_contents elems (gw_agg s') = [] \<and> gw_main s' = Main_waits \<and>
     alarm_pending s' = alarm_pending s \<and>
     gw_trace s' = gw_trace s @ sent_calls s (agg_contents elems (gw_agg s))"
  using assms(2-5)
proof (induction "agg_contents elems (gw_agg s)" arbitrary: s)
  case Nil
  obtain q where "send_aggregated_data env s = Some (s\<lparr>gw_agg := q, gw_main := Main_waits\<rparr>)"
    "agg_contents elems q = []"
    using drain_empty [OF assms(1) _ Nil.hyps [symmetric] Nil.prems(4)] Nil.prems(1)
    by (auto simp: gw_inv_def)
  with Nil show ?case
    by (simp add: moves_Suc moves_0 gw_step.simps sent_calls_def msgs_of_def flip: Nil.hyps)
next
  case (Cons d ds)
  note c = Cons.hyps(2) [symmetric]
  obtain q where q: "send_aggregated_data env s = Some (s\<lparr>gw_agg := q, gw_main := Main_holds d\<rparr>)"
    "agg_inv elems q" "agg_contents elems q = ds"
    using drain_first [OF assms(1) _ c Cons.prems(4)] Cons.prems(1) by (auto simp: gw_inv_def)
  have ok: "item_of d \<noteq> Overread" using Cons.prems(1) c by (simp add: gw_inv_def record_ok_def)
  let ?t = "s\<lparr>gw_agg := q, gw_main := Main_drains, gw_trace := gw_trace s @ sent_calls s [d]\<rparr>"
  have "send_aggregated_data env (s\<lparr>gw_agg := q, gw_main := Main_holds d\<rparr>) = Some ?t"
    using send_item_calls [of env "s\<lparr>gw_agg := q, gw_main := Main_drains\<rparr>" d] Cons.prems(2) ok
    by (simp add: send_aggregated_data_def sent_calls_def)
  with q(1) Cons.prems(3)
  have run: "gw_run (moves env (2 * length (d # ds) + 1)) s = gw_run (moves env (2 * length ds + 1)) ?t"
    by (simp add: moves_Suc gw_step.simps)
  have "gw_inv elems ?t" using Cons.prems(1) c q(2,3) by (simp add: gw_inv_def)
  with Cons.hyps(1) [of ?t] Cons.prems(2,3) q(3) obtain s' where s': "gw_run (moves env (2 * length ds + 1)) ?t = Some s'"
    "agg_contents elems (gw_agg s') = []" "gw_main s' = Main_waits" "alarm_pending s' = alarm_pending s"
    "gw_trace s' = gw_trace s @ sent_calls s [d] @ sent_calls s ds"
    by (auto simp: sent_calls_def)
  with run c msgs_of_cons [of d ds] show ?case by (auto simp: sent_calls_def)
qed

lemma alarm_moves:
  assumes "env_ok elems env" and "gw_inv elems s" and "cloud_accepts env \<or> send_data_enable s = 0"
    and "gw_stop s = None" and "gw_main s = Main_waits" and "alarm_pending s"
  shows "\<exists>s'. gw_run (moves env (2 * length (agg_contents elems (gw_agg s)) + 3)) s = Some s' \<and>
     agg_contents elems (gw_agg s') = [] \<and> gw_main s' = Main_waits \<and> \<not> alarm_pending s' \<and>
     gw_trace s' = gw_trace s @ sent_calls s (agg_contents elems (gw_agg s))"
proof -
  let ?t = "s\<lparr>alarm_pending := False, gw_main := Main_drains\<rparr>"
  have "gw_inv elems ?t" using assms(2,5) by (simp add: gw_inv_def)
  from drain_moves [OF assms(1) this] assms(3,4) obtain s' where
    "gw_run (moves env (2 * length (agg_contents elems (gw_agg s)) + 1)) ?t = Some s'"
    "agg_contents elems (gw_agg s') = []" "gw_main s' = Main_waits" "\<not> alarm_pending s'"
    "gw_trace s' = gw_trace s @ sent_calls s (agg_contents elems (gw_agg s))"
    by (auto simp: sent_calls_def)
  moreover have "gw_run (moves env (2 * length (agg_contents elems (gw_agg s)) + 3)) s =
      gw_run (moves env (2 * length (agg_contents elems (gw_agg s)) + 1)) ?t"
    using assms(4-6) by (simp add: moves_Suc gw_step.simps send_aggregated_data_def numeral_3_eq_3)
  ultimately show ?thesis by auto
qed

definition demo_ready :: "ptr list gateway" where
  "demo_ready =
     demo_gw\<lparr>display_state := LEDS_CLOUD_CONNECTED, send_data_enable := 1, alarm_pending := True,
       gw_agg := \<lparr>ag_fifo = [100], entry_count = 1,
          ag_heap = [100 \<mapsto> ble_record THINGY_ORIENTATION 3 []]\<rparr>,
       gw_trace := [Sensor_attach NRF_CLOUD_SENSOR_FLIP, Sensor_attach NRF_CLOUD_SENSOR_GPS, Gps_init, Gps_start]\<rparr>"

lemma demo_ready_contents: "agg_contents id (gw_agg demo_ready) = [ble_record THINGY_ORIENTATION 3 []]"
  by (simp add: demo_ready_def agg_contents_def)

lemma demo_ready_inv: "gw_inv id demo_ready"
proof -
  have "agg_inv id (gw_agg demo_ready)"
    by (auto simp: demo_ready_def agg_inv_def FIFO_MAX_ELEMENT_COUNT_def)
  then show ?thesis
    using demo_ready_contents
    by (simp add: gw_inv_def ble_record_ok) (simp add: demo_ready_def demo_gw_def)
qed

lemma demo_accepts: "cloud_accepts demo_gw_env"
  by (simp add: cloud_accepts_def demo_gw_env_def)

lemma demo_ready_starts:
  "send_data_enable demo_ready \<noteq> 0" "gw_stop demo_ready = None" "gw_main demo_ready = Main_waits"
  "alarm_pending demo_ready"
  by (simp_all add: demo_ready_def demo_gw_def)

lemma item_upside_down:
  "item_of (ble_record THINGY_ORIENTATION 3 stack) = Send (label_msg NRF_CLOUD_SENSOR_FLIP ''UPSIDE_DOWN'')"
  by (simp add: item_of_def label_item_def ble_record_def orientation_strings_def)

text \<open>The run up to the step that sends the record, for the witness.\<close>

definition demo_holding :: "ptr list gateway" where
  "demo_holding = demo_ready\<lparr>alarm_pending := False, gw_main := Main_holds (ble_record THINGY_ORIENTATION 3 []),
     gw_agg := \<lparr>ag_fifo = [], entry_count = 0, ag_heap = Map.empty\<rparr>\<rparr>"

definition demo_events :: "(ptr list gw_env \<times> gw_event) list" where
  "demo_events = [(demo_gw_env, Cloud READY), (demo_gw_env, Orientation [] [3]),
     (demo_gw_env, Main_moves), (demo_gw_env, Main_moves), (demo_gw_env, Main_moves)]"

lemma demo_holding_run: "gw_run demo_events demo_gw = Some demo_holding"
  by (simp add: gw_step.simps cloud_event_handler_def gw_simps on_received_def agg_put_def alarm_def
      aggregator_put_def demo_gw_def demo_gw_env_def demo_ready_def demo_holding_def demo_events_def
      agg_empty_def list_fifo_def send_aggregated_data_def aggregator_get_def errno_defs
      first_fit_def FIFO_MAX_ELEMENT_COUNT_def)

lemma demo_holding_sends:
  "\<exists>t'. gw_step demo_gw_env Main_moves demo_holding = Some t' \<and> data_calls t' \<noteq> data_calls demo_holding"
  by (simp add: gw_step.simps send_aggregated_data_def send_item_def item_upside_down demo_holding_def
      demo_ready_def demo_gw_def demo_gw_env_def sensor_data_send_def label_msg_def data_calls_def gw_emit_def)

theorem gateway_sends_only_when_ready_witness:
  "ready_after False (map snd demo_events)"
proof -
  obtain t' where t': "gw_step demo_gw_env Main_moves demo_holding = Some t'"
    "data_calls t' \<noteq> data_calls demo_holding" using demo_holding_sends by blast
  have "send_data_enable demo_gw = 0" by (simp add: demo_gw_def)
  from gateway_sends_only_when_ready [OF this demo_holding_run t'] show ?thesis .
qed

text \<open>
  with an alarm pending and sending on, \<open>2 n + 3\<close> undisturbed steps of the main loop empty an
  aggregator of \<open>n\<close> records, send the messages of exactly its well-formed records, oldest first,
  and clear the alarm (the cloud accepts them).
\<close>

theorem alarm_sends_all:
  assumes "env_ok elems env" and "gw_inv elems s" and "cloud_accepts env"
    and "send_data_enable s \<noteq> 0" and "gw_stop s = None" and "gw_main s = Main_waits" and "alarm_pending s"
  shows "\<exists>s'. gw_run (moves env (2 * length (agg_contents elems (gw_agg s)) + 3)) s = Some s' \<and>
     agg_contents elems (gw_agg s') = [] \<and> \<not> alarm_pending s' \<and>
     gw_trace s' = gw_trace s @ map call_of (msgs_of (agg_contents elems (gw_agg s)))"
  using alarm_moves [OF assms(1,2)] assms(3-7) by (fastforce simp: sent_calls_def)

theorem alarm_sends_all_witness:
  "\<exists>s'. gw_run (moves demo_gw_env 5) demo_ready = Some s' \<and>
     gw_trace s' = gw_trace demo_ready @ [Data_stream (flip_msg ''UPSIDE_DOW'')]"
  using alarm_sends_all [OF demo_env_ok demo_ready_inv demo_accepts demo_ready_starts]
  by (auto simp: demo_ready_contents item_upside_down msgs_of_def call_of_def label_msg_def flip_msg_def)

text \<open>
  An alarm that fires while sending is off (the gateway is not connected yet, or no longer)
  discards every queued record without sending any.
\<close>

theorem alarm_while_off_discards:
  assumes "env_ok elems env" and "gw_inv elems s"
    and "send_data_enable s = 0" and "gw_stop s = None" and "gw_main s = Main_waits" and "alarm_pending s"
  shows "\<exists>s'. gw_run (moves env (2 * length (agg_contents elems (gw_agg s)) + 3)) s = Some s' \<and>
     agg_contents elems (gw_agg s') = [] \<and> gw_trace s' = gw_trace s"
  using alarm_moves [OF assms(1,2)] assms(3-6) by (fastforce simp: sent_calls_def)

theorem alarm_while_off_discards_witness:
  "\<exists>s'. gw_run (moves demo_gw_env 5) (demo_ready\<lparr>send_data_enable := 0\<rparr>) = Some s' \<and>
     agg_contents id (gw_agg s') = []"
proof -
  let ?s = "demo_ready\<lparr>send_data_enable := 0\<rparr>"
  have "gw_inv id ?s" using demo_ready_inv by (simp add: gw_inv_def)
  moreover have "send_data_enable ?s = 0" "gw_stop ?s = None" "gw_main ?s = Main_waits" "alarm_pending ?s"
    using demo_ready_starts by simp_all
  ultimately show ?thesis using alarm_while_off_discards [OF demo_env_ok, of ?s]
    by (auto simp: demo_ready_contents)
qed

text \<open>
  the orientation or button label that reaches the cloud is the table's entry without its
  last character, for the length sent is \<open>strlen - 1\<close>.
\<close>

theorem labels_are_truncated:
  assumes "sd_length d = 1" and "sd_data d = b # rest"
  shows "(sd_type d = THINGY_ORIENTATION \<longrightarrow> unat b < 4 \<longrightarrow>
       item_of d = Send (flip_msg (butlast (orientation_strings ! unat b)))) \<and>
     (sd_type d = THINGY_BUTTON \<longrightarrow> unat b < 2 \<longrightarrow>
       item_of d = Send \<lparr>cm_type = NRF_CLOUD_SENSOR_BUTTON, cm_tag = 0,
         cm_data = bytes_of (butlast (button_strings ! unat b))\<rparr>)"
  using assms
  by (auto simp: item_of_def label_item_def label_msg_def flip_msg_def orientation_strings_def
      button_strings_def word_le_nat_alt butlast_conv_take)

theorem labels_are_truncated_witness:
  "item_of (ble_record THINGY_ORIENTATION 0 []) = Send (flip_msg ''LEF'')"
  using labels_are_truncated [of "ble_record THINGY_ORIENTATION 0 []" 0 "[]"]
  by (simp add: ble_record_def orientation_strings_def)

text \<open>
  C40: a GPS sentence travels unchanged: the record that the GPS callback builds is well formed,
  and the message that the alarm makes of it carries the callback's tag, which is never zero, and
  the sentence, byte for byte.
\<close>

theorem gps_record_roundtrip:
  assumes "length nmea \<le> GPS_NMEA_SENTENCE_MAX_LENGTH"
  shows "item_of (gps_record (next_tag tag) nmea) =
       Send \<lparr>cm_type = NRF_CLOUD_SENSOR_GPS, cm_tag = next_tag tag, cm_data = nmea\<rparr> \<and>
     next_tag tag \<noteq> 0 \<and> length (sd_data (gps_record (next_tag tag) nmea)) = ENTRY_MAX_SIZE"
proof -
  have "length nmea < 256" using assms by (simp add: GPS_NMEA_SENTENCE_MAX_LENGTH_def)
  then have "unat (of_nat (length nmea) :: u8) = length nmea"
    by (simp add: unsigned_of_nat take_bit_nat_eq_self)
  with assms show ?thesis
    by (simp add: item_of_def gps_record_def ENTRY_MAX_SIZE_def next_tag_def Let_def)
qed

theorem gps_record_roundtrip_witness:
  "item_of (gps_record 8 [36, 71, 80]) =
     Send \<lparr>cm_type = NRF_CLOUD_SENSOR_GPS, cm_tag = 8, cm_data = [36, 71, 80]\<rparr>"
  using gps_record_roundtrip [of "[36, 71, 80]" 7]
  by (simp add: GPS_NMEA_SENTENCE_MAX_LENGTH_def next_tag_def)

text \<open>
  every LED refresh shows the current state on LEDs 3 and 4: a steady LED is lit, a
  blinking one is lit in every second refresh, and neither keeps a bit of an earlier state.
\<close>

lemma LED_GET_simps [simp]:
  "LED_GET_ON (LED_ON x) = x" "LED_GET_BLINK (LED_ON x) = 0"
  "LED_GET_ON (LED_BLINK x) = 0" "LED_GET_BLINK (LED_BLINK x) = x"
  unfolding LED_GET_ON_def LED_GET_BLINK_def LED_ON_def LED_BLINK_def and_255
  by (auto simp: bit_simps bit_u8_high intro!: bit_word_eqI)

definition shown :: "dk_masks \<Rightarrow> display \<Rightarrow> bool \<Rightarrow> u8" where
  "shown dk st on =
     (case st of
        LEDS_INITIALIZING \<Rightarrow> 0
      | LEDS_LTE_CONNECTING \<Rightarrow> if on then dk3 dk else 0
      | LEDS_LTE_CONNECTED \<Rightarrow> dk3 dk
      | LEDS_CLOUD_CONNECTING \<Rightarrow> if on then dk4 dk else 0
      | LEDS_CLOUD_PAIRING_WAIT \<Rightarrow> if on then dk3 dk OR dk4 dk else 0
      | LEDS_CLOUD_CONNECTED \<Rightarrow> dk4 dk
      | LEDS_ERROR \<Rightarrow> dk_all dk)"

lemma leds_mask_shown:
  "leds_mask dk st on cur AND (dk3 dk OR dk4 dk) = shown dk st on AND (dk3 dk OR dk4 dk)"
  by (cases st; cases on; rule bit_word_eqI)
    (auto simp: leds_mask_def shown_def Let_def bit_simps)

theorem leds_update_shows_state:
  "led_on (leds_update env s) = (\<not> led_on s) \<and>
   current_led_on_mask (leds_update env s) AND (dk3 (ge_dk env) OR dk4 (ge_dk env)) =
     shown (ge_dk env) (display_state s) (\<not> led_on s) AND (dk3 (ge_dk env) OR dk4 (ge_dk env))"
proof -
  have "current_led_on_mask (leds_update env s) =
      leds_mask (ge_dk env) (display_state s) (\<not> led_on s) (current_led_on_mask s)"
    by (simp add: leds_update_def gw_emit_def Let_def)
  then show ?thesis by (simp add: leds_mask_shown) (simp add: leds_update_def gw_emit_def Let_def)
qed

end
