(* ===== verification/Machine.thy ===== *)
theory Machine
  imports Main
begin

text \<open>
  Components as machines: a step takes an event and a state to the next state, or to \<open>None\<close>
  when the code would run into undefined behaviour or not return. The locale is the contract of
  a component whose steps keep an invariant; its lemmas carry the invariant over any run.
\<close>

primrec run :: "('e \<Rightarrow> 's \<Rightarrow> 's option) \<Rightarrow> 'e list \<Rightarrow> 's \<Rightarrow> 's option" where
  "run step [] s = Some s"
| "run step (e # es) s = Option.bind (step e s) (run step es)"

primrec run_ok :: "('e \<Rightarrow> 's \<Rightarrow> 's option) \<Rightarrow> ('e \<Rightarrow> 's \<Rightarrow> bool) \<Rightarrow> 'e list \<Rightarrow> 's \<Rightarrow> bool" where
  "run_ok step ok [] s = True"
| "run_ok step ok (e # es) s = (ok e s \<and> (case step e s of None \<Rightarrow> True | Some s' \<Rightarrow> run_ok step ok es s'))"

lemma run_append: "run step (xs @ ys) s = Option.bind (run step xs s) (run step ys)"
  by (induction xs arbitrary: s) (simp_all add: bind_assoc split: Option.bind_split)

lemma run_ok_all: "list_all P es \<Longrightarrow> run_ok step (\<lambda>e s. P e) es s"
  by (induction es arbitrary: s) (simp_all split: option.split)

locale machine =
  fixes step :: "'e \<Rightarrow> 's \<Rightarrow> 's option"
    and ok :: "'e \<Rightarrow> 's \<Rightarrow> bool"
    and inv :: "'s \<Rightarrow> bool"
  assumes step_inv: "inv s \<Longrightarrow> ok e s \<Longrightarrow> \<exists>s'. step e s = Some s' \<and> inv s'"
begin

lemma run_inv:
  "inv s \<Longrightarrow> run_ok step ok es s \<Longrightarrow> \<exists>s'. run step es s = Some s' \<and> inv s'"
proof (induction es arbitrary: s)
  case (Cons e es)
  then obtain s' where "step e s = Some s'" "inv s'" using step_inv by fastforce
  with Cons show ?case by simp
qed simp

lemma run_inv_always:
  assumes "\<And>e s. ok e s"
  shows "inv s \<Longrightarrow> \<exists>s'. run step es s = Some s' \<and> inv s'"
proof (induction es arbitrary: s)
  case (Cons e es)
  then obtain s' where "step e s = Some s'" "inv s'" using step_inv assms by blast
  with Cons show ?case by simp
qed simp

end

end
