(* ===== verification/UartAdapter.thy ===== *)
theory UartAdapter
  imports Prelude Machine
begin

text \<open>
  The UART asynchronous-API adapter of the UART bridge
  (\<open>app/mcuboot_prv_key/peripheral_uart/src/uart_async_adapter.c\<close> and \<open>.h\<close>): it offers
  Zephyr's asynchronous UART interface (buffers handed over, events handed back) on top of a
  driver that has the interrupt-driven one.

  Pointers and \<open>size_t\<close> are 32-bit words. The state is \<open>struct uart_async_adapter_data\<close>
  with, beside it, what the code works on: the memory the receive buffers lie in, the bytes
  waiting in the receive FIFO of the device and the trace of calls. Three history fields record what
  the client of the interface sees: the bytes the \<open>UART_RX_RDY\<close> events showed it, the buffers
  it handed over and the buffers it got back.

  The driver is a parameter: \<open>rd q n\<close> is what \<open>uart_fifo_read\<close> returns for a request of
  \<open>n\<close> bytes when \<open>q\<close> is waiting, and the results of the other driver calls are arguments. The
  callback the client installs is the parameter \<open>cb\<close>, which may change the state (it calls the
  interface again). The spin lock and the timers only show in the trace.
\<close>

section \<open>Data\<close>

type_synonym addr = u32

datatype uart_event =
    UART_TX_DONE addr u32
  | UART_TX_ABORTED addr u32
  | UART_RX_RDY addr u32 u32
  | UART_RX_BUF_REQUEST
  | UART_RX_BUF_RELEASED addr
  | UART_RX_DISABLED
  | UART_RX_STOPPED int

datatype uart_call =
    IrqTxEnable device | IrqTxDisable device
  | IrqRxEnable device | IrqRxDisable device
  | IrqErrEnable device | IrqErrDisable device
  | TxTimerStart int | TxTimerStop | RxTimerStart int
  | FifoFill device addr u32
  | Callback uart_event
  | IrqCallbackSet device device
  | UartPollIn device addr | UartPollOut device u8 | UartErrCheck device
  | UartConfigure device addr | UartConfigGet device addr
  | UartLineCtrlSet device u32 u32 | UartLineCtrlGet device u32 addr
  | UartDrvCmd device u32 u32

record uart_tx_data =
  tx_buf :: addr
  tx_curr_buf :: addr
  tx_size_left :: u32
  tx_enabled :: bool

record uart_rx_data =
  rx_buf :: addr
  rx_curr_buf :: addr
  rx_last_notify_buf :: addr
  rx_size_left :: u32
  rx_next_buf :: addr
  rx_next_buf_len :: u32
  rx_timeout :: int
  rx_enabled :: bool

record adapter =
  a_self :: device
  a_target :: device
  a_callback :: bool
  a_tx :: uart_tx_data
  a_rx :: uart_rx_data
  a_initialized :: bool
  a_mem :: "addr \<Rightarrow> u8"
  a_fifo :: "u8 list"
  a_calls :: "uart_call list"
  a_delivered :: "u8 list"
  a_given :: "addr list"
  a_released :: "addr list"

definition SYS_FOREVER_MS :: int where "SYS_FOREVER_MS = -1"

definition call :: "uart_call \<Rightarrow> adapter \<Rightarrow> adapter" where
  "call c a = a\<lparr>a_calls := a_calls a @ [c]\<rparr>"

definition bytes_at :: "(addr \<Rightarrow> u8) \<Rightarrow> addr \<Rightarrow> nat \<Rightarrow> u8 list" where
  "bytes_at mem p n = map (\<lambda>i. mem (p + of_nat i)) [0..<n]"

fun write_bytes :: "addr \<Rightarrow> u8 list \<Rightarrow> (addr \<Rightarrow> u8) \<Rightarrow> addr \<Rightarrow> u8" where
  "write_bytes p [] mem = mem"
| "write_bytes p (b # bs) mem = write_bytes (p + 1) bs (mem(p := b))"

section \<open>Callbacks\<close>

fun event_bytes :: "(addr \<Rightarrow> u8) \<Rightarrow> uart_event \<Rightarrow> u8 list" where
  "event_bytes mem (UART_RX_RDY b off l) = bytes_at mem (b + off) (unat l)"
| "event_bytes mem _ = []"

fun event_released :: "uart_event \<Rightarrow> addr list" where
  "event_released (UART_RX_BUF_RELEASED b) = [b]"
| "event_released _ = []"

type_synonym client = "uart_event \<Rightarrow> adapter \<Rightarrow> adapter"

definition user_callback :: "client \<Rightarrow> uart_event \<Rightarrow> adapter \<Rightarrow> adapter" where
  "user_callback cb ev a =
     (if a_callback a
      then cb ev (a\<lparr>a_calls := a_calls a @ [Callback ev],
                    a_delivered := a_delivered a @ event_bytes (a_mem a) ev,
                    a_released := a_released a @ event_released ev\<rparr>)
      else a)"

definition callback_set :: "adapter \<Rightarrow> int \<times> adapter" where
  "callback_set a = (0, a\<lparr>a_callback := True\<rparr>)"

definition notify_rx_buffer :: "client \<Rightarrow> adapter \<Rightarrow> adapter" where
  "notify_rx_buffer cb a =
     (let r = a_rx a in
      if rx_buf r \<noteq> 0 \<and> rx_last_notify_buf r < rx_curr_buf r
      then user_callback cb
             (UART_RX_RDY (rx_buf r) (rx_last_notify_buf r - rx_buf r)
                (rx_curr_buf r - rx_last_notify_buf r))
             (a\<lparr>a_rx := r\<lparr>rx_last_notify_buf := rx_curr_buf r\<rparr>\<rparr>)
      else a)"

definition notify_rx_buffer_release :: "client \<Rightarrow> addr \<Rightarrow> adapter \<Rightarrow> adapter" where
  "notify_rx_buffer_release cb b a = user_callback cb (UART_RX_BUF_RELEASED b) a"

definition notify_rx_buffer_req :: "client \<Rightarrow> adapter \<Rightarrow> adapter" where
  "notify_rx_buffer_req cb a = user_callback cb UART_RX_BUF_REQUEST a"

definition switch_rx_buffer :: "client \<Rightarrow> bool \<Rightarrow> adapter \<Rightarrow> adapter" where
  "switch_rx_buffer cb request_new a =
     (let r = a_rx a;
          old_buf = rx_buf r;
          a1 = a\<lparr>a_rx := r\<lparr>rx_buf := rx_next_buf r,
                           rx_curr_buf := rx_next_buf r,
                           rx_last_notify_buf := rx_next_buf r,
                           rx_size_left := rx_next_buf_len r,
                           rx_next_buf := 0,
                           rx_next_buf_len := 0\<rparr>\<rparr>;
          a2 = (if old_buf \<noteq> 0 then notify_rx_buffer_release cb old_buf a1 else a1)
      in if request_new then notify_rx_buffer_req cb a2 else a2)"

section \<open>Transmission\<close>

definition tx :: "addr \<Rightarrow> u32 \<Rightarrow> int \<Rightarrow> adapter \<Rightarrow> int \<times> adapter" where
  "tx buf len timeout a =
     (if len = 0 then (0, a)
      else if tx_buf (a_tx a) \<noteq> 0 then (- EBUSY, a)
      else
        (let a1 = a\<lparr>a_tx := (a_tx a)\<lparr>tx_buf := buf, tx_curr_buf := buf,
                                      tx_size_left := len, tx_enabled := True\<rparr>\<rparr>;
             a2 = call (IrqTxEnable (a_target a1)) a1;
             a3 = (if timeout \<noteq> SYS_FOREVER_MS then call (TxTimerStart timeout) a2 else a2)
         in (0, a3)))"

definition tx_abort :: "client \<Rightarrow> adapter \<Rightarrow> int \<times> adapter" where
  "tx_abort cb a =
     (let a1 = a\<lparr>a_tx := (a_tx a)\<lparr>tx_enabled := False\<rparr>\<rparr>;
          a2 = call (IrqTxDisable (a_target a1)) (call TxTimerStop a1);
          t = a_tx a2
      in if tx_buf t = 0 then (- EFAULT, a2)
         else (0, user_callback cb (UART_TX_ABORTED (tx_buf t) (tx_curr_buf t - tx_buf t))
                    (a2\<lparr>a_tx := t\<lparr>tx_buf := 0, tx_curr_buf := 0, tx_size_left := 0\<rparr>\<rparr>)))"

definition on_tx_ready :: "int \<Rightarrow> adapter \<Rightarrow> adapter" where
  "on_tx_ready ret a =
     (let t = a_tx a in
      if tx_size_left t \<noteq> 0
      then (let a1 = call (FifoFill (a_target a) (tx_curr_buf t) (tx_size_left t)) a in
            if ret \<le> 0 then a1
            else a1\<lparr>a_tx := t\<lparr>tx_curr_buf := tx_curr_buf t + of_int ret,
                             tx_size_left := tx_size_left t - of_int ret\<rparr>\<rparr>)
      else a)"

definition on_tx_complete :: "client \<Rightarrow> adapter \<Rightarrow> adapter" where
  "on_tx_complete cb a =
     (if tx_size_left (a_tx a) = 0
      then (let a1 = a\<lparr>a_tx := (a_tx a)\<lparr>tx_enabled := False\<rparr>\<rparr>;
                a2 = call (IrqTxDisable (a_target a1)) a1;
                t = a_tx a2
            in if tx_buf t \<noteq> 0
               then user_callback cb (UART_TX_DONE (tx_buf t) (tx_curr_buf t - tx_buf t))
                      (a2\<lparr>a_tx := t\<lparr>tx_buf := 0, tx_curr_buf := 0, tx_size_left := 0\<rparr>\<rparr>)
               else a2)
      else a)"

section \<open>Reception\<close>

definition rx_enable :: "addr \<Rightarrow> u32 \<Rightarrow> int \<Rightarrow> adapter \<Rightarrow> int \<times> adapter" where
  "rx_enable buf len timeout a =
     (let r = a_rx a;
          ret = (if rx_next_buf r \<noteq> 0 \<or> rx_buf r \<noteq> 0 then - EBUSY else 0);
          a1 = a\<lparr>a_rx := r\<lparr>rx_buf := 0, rx_curr_buf := 0, rx_size_left := 0,
                           rx_next_buf := buf, rx_next_buf_len := len,
                           rx_timeout := timeout, rx_enabled := True\<rparr>,
                 a_given := a_given a @ [buf]\<rparr>
      in (ret, call (IrqErrEnable (a_target a)) (call (IrqRxEnable (a_target a)) a1)))"

definition rx_buf_rsp :: "addr \<Rightarrow> u32 \<Rightarrow> adapter \<Rightarrow> int \<times> adapter" where
  "rx_buf_rsp buf len a =
     (if rx_next_buf (a_rx a) \<noteq> 0 then (- EBUSY, a)
      else (0, a\<lparr>a_rx := (a_rx a)\<lparr>rx_next_buf := buf, rx_next_buf_len := len\<rparr>,
                 a_given := a_given a @ [buf]\<rparr>))"

text \<open>The loop of \<open>rx_disable\<close>: it ends only when the client stops handing over buffers.\<close>

partial_function (option) rx_release_loop :: "client \<Rightarrow> adapter \<Rightarrow> adapter option" where
  "rx_release_loop cb a =
     (if rx_buf (a_rx a) \<noteq> 0 then rx_release_loop cb (switch_rx_buffer cb False a) else Some a)"

text \<open>
  \<open>rx_disable\<close> reads the adapter's data out of the device it is given. Of all devices only the
  adapter itself has data of that type; with any other the C code would reinterpret foreign
  memory, so the result is \<open>None\<close>.
\<close>

definition rx_disable :: "client \<Rightarrow> device \<Rightarrow> adapter \<Rightarrow> (int \<times> adapter) option" where
  "rx_disable cb dev a =
     (if dev \<noteq> a_self a then None
      else Option.bind
        (rx_release_loop cb
          (call (IrqErrDisable (a_target a)) (call (IrqRxDisable (a_target a))
             (a\<lparr>a_rx := (a_rx a)\<lparr>rx_enabled := False\<rparr>\<rparr>))))
        (\<lambda>a1. Some (0, user_callback cb UART_RX_DISABLED a1)))"

text \<open>What the driver returns for a read, and the effect of the read.\<close>

type_synonym fifo_driver = "u8 list \<Rightarrow> nat \<Rightarrow> int"

definition fifo_read_into_buf :: "fifo_driver \<Rightarrow> adapter \<Rightarrow> int \<times> adapter" where
  "fifo_read_into_buf rd a =
     (let r = a_rx a; ret = rd (a_fifo a) (unat (rx_size_left r)); got = take (nat ret) (a_fifo a) in
      (ret, a\<lparr>a_fifo := drop (nat ret) (a_fifo a), a_mem := write_bytes (rx_curr_buf r) got (a_mem a)\<rparr>))"

partial_function (option) rx_drop_loop :: "fifo_driver \<Rightarrow> adapter \<Rightarrow> adapter option" where
  "rx_drop_loop rd a =
     (let ret = rd (a_fifo a) 1;
          a1 = a\<lparr>a_fifo := drop (nat ret) (a_fifo a)\<rparr>
      in if max ret 0 \<noteq> 0 then rx_drop_loop rd a1 else Some a1)"

text \<open>One pass of the loop of \<open>on_rx_ready\<close>: the final \<open>ret\<close>, the flag and the state.\<close>

definition rx_pass :: "client \<Rightarrow> fifo_driver \<Rightarrow> bool \<Rightarrow> adapter \<Rightarrow> (int \<times> bool \<times> adapter) option" where
  "rx_pass cb rd notify_now a =
     (let (now1, a1) =
        (if rx_size_left (a_rx a) = 0
         then (False, switch_rx_buffer cb True (notify_rx_buffer cb a)) else (notify_now, a))
      in if rx_size_left (a_rx a1) = 0
         then map_option (\<lambda>a2. (0, now1, a2)) (rx_drop_loop rd a1)
         else (let (ret0, a2) = fifo_read_into_buf rd a1;
                   ret = max ret0 0;
                   r = a_rx a2;
                   a3 = a2\<lparr>a_rx := r\<lparr>rx_curr_buf := rx_curr_buf r + of_int ret,
                                    rx_size_left := rx_size_left r - of_int ret\<rparr>\<rparr>
               in Some (ret, now1 \<or> rx_timeout r = 0, a3)))"

partial_function (option) rx_loop ::
    "client \<Rightarrow> fifo_driver \<Rightarrow> bool \<Rightarrow> adapter \<Rightarrow> (bool \<times> adapter) option" where
  "rx_loop cb rd notify_now a =
     Option.bind (rx_pass cb rd notify_now a) (\<lambda>(ret, now1, a1).
       if ret \<noteq> 0 then rx_loop cb rd now1 a1 else Some (now1, a1))"

definition on_rx_ready :: "client \<Rightarrow> fifo_driver \<Rightarrow> adapter \<Rightarrow> adapter option" where
  "on_rx_ready cb rd a =
     (let a1 = (if rx_timeout (a_rx a) \<noteq> SYS_FOREVER_MS
                then call (RxTimerStart (rx_timeout (a_rx a))) a else a)
      in map_option (\<lambda>(now1, a2). if now1 then notify_rx_buffer cb a2 else a2) (rx_loop cb rd False a1))"

definition on_error :: "client \<Rightarrow> int \<Rightarrow> adapter \<Rightarrow> adapter option" where
  "on_error cb rx_err a =
     Option.bind (rx_disable cb (a_target a) a) (\<lambda>(_, a1).
       Some (user_callback cb (UART_RX_STOPPED rx_err) a1))"

section \<open>The basic interface\<close>

text \<open>These go straight to the target device; \<open>ret\<close> is what its driver returns.\<close>

definition poll_in :: "int \<Rightarrow> addr \<Rightarrow> adapter \<Rightarrow> int \<times> adapter" where
  "poll_in ret p_char a = (ret, call (UartPollIn (a_target a) p_char) a)"

definition poll_out :: "u8 \<Rightarrow> adapter \<Rightarrow> adapter" where
  "poll_out out_char a = call (UartPollOut (a_target a) out_char) a"

definition err_check :: "int \<Rightarrow> adapter \<Rightarrow> int \<times> adapter" where
  "err_check ret a = (ret, call (UartErrCheck (a_target a)) a)"

definition configure :: "int \<Rightarrow> addr \<Rightarrow> adapter \<Rightarrow> int \<times> adapter" where
  "configure ret cfg a = (ret, call (UartConfigure (a_target a) cfg) a)"

definition config_get :: "int \<Rightarrow> addr \<Rightarrow> adapter \<Rightarrow> int \<times> adapter" where
  "config_get ret cfg a = (ret, call (UartConfigGet (a_target a) cfg) a)"

definition line_ctrl_set :: "int \<Rightarrow> u32 \<Rightarrow> u32 \<Rightarrow> adapter \<Rightarrow> int \<times> adapter" where
  "line_ctrl_set ret ctrl val a = (ret, call (UartLineCtrlSet (a_target a) ctrl val) a)"

definition line_ctrl_get :: "int \<Rightarrow> u32 \<Rightarrow> addr \<Rightarrow> adapter \<Rightarrow> int \<times> adapter" where
  "line_ctrl_get ret ctrl val a = (ret, call (UartLineCtrlGet (a_target a) ctrl val) a)"

definition drv_cmd :: "int \<Rightarrow> u32 \<Rightarrow> u32 \<Rightarrow> adapter \<Rightarrow> int \<times> adapter" where
  "drv_cmd ret cmd p a = (ret, call (UartDrvCmd (a_target a) cmd p) a)"

lemmas basic_defs = poll_in_def poll_out_def err_check_def configure_def config_get_def
  line_ctrl_set_def line_ctrl_get_def drv_cmd_def

section \<open>Interrupts, timers and set-up\<close>

text \<open>What the driver answers during one interrupt.\<close>

record irq_env =
  irq_update :: bool
  irq_is_pending :: bool
  irq_tx_ready :: bool
  irq_tx_complete :: bool
  irq_rx_ready :: bool
  fifo_fill_ret :: int
  err_check_ret :: int

definition uart_irq_handler :: "client \<Rightarrow> fifo_driver \<Rightarrow> irq_env \<Rightarrow> adapter \<Rightarrow> adapter option" where
  "uart_irq_handler cb rd e a =
     (if irq_update e \<and> irq_is_pending e
      then (let a1 = (if tx_enabled (a_tx a) \<and> irq_tx_ready e then on_tx_ready (fifo_fill_ret e) a else a);
                a2 = (if tx_enabled (a_tx a1) \<and> irq_tx_complete e then on_tx_complete cb a1 else a1)
            in Option.bind
                 (if rx_enabled (a_rx a2) \<and> irq_rx_ready e then on_rx_ready cb rd a2 else Some a2)
                 (\<lambda>a3. let rx_err = max (err_check_ret e) 0 in
                    if rx_enabled (a_rx a3) \<and> rx_err \<noteq> 0 then on_error cb rx_err a3 else Some a3))
      else Some a)"

definition tx_timeout_handler :: "client \<Rightarrow> adapter \<Rightarrow> adapter" where
  "tx_timeout_handler cb a = snd (tx_abort cb a)"

definition rx_timeout_handler :: "client \<Rightarrow> adapter \<Rightarrow> adapter" where
  "rx_timeout_handler cb a = notify_rx_buffer cb a"

definition uart_async_adapter_init :: "device \<Rightarrow> adapter \<Rightarrow> adapter" where
  "uart_async_adapter_init target_dev a =
     call (IrqCallbackSet target_dev (a_self a)) (a\<lparr>a_target := target_dev\<rparr>)\<lparr>a_initialized := True\<rparr>"

section \<open>Invariants and contracts\<close>

definition rx_ok :: "uart_rx_data \<Rightarrow> bool" where
  "rx_ok r \<longleftrightarrow>
     (if rx_buf r = 0 then rx_size_left r = 0
      else unat (rx_buf r) \<le> unat (rx_last_notify_buf r)
         \<and> unat (rx_last_notify_buf r) \<le> unat (rx_curr_buf r)
         \<and> unat (rx_curr_buf r) + unat (rx_size_left r) < 2 ^ 32)
     \<and> (if rx_next_buf r = 0 then rx_next_buf_len r = 0
        else unat (rx_next_buf r) + unat (rx_next_buf_len r) < 2 ^ 32 \<and> rx_next_buf_len r \<noteq> 0)"

definition pending :: "adapter \<Rightarrow> u8 list" where
  "pending a = (let r = a_rx a in
     if rx_buf r = 0 then []
     else bytes_at (a_mem a) (rx_last_notify_buf r) (unat (rx_curr_buf r - rx_last_notify_buf r)))"

definition held :: "adapter \<Rightarrow> addr list" where
  "held a = filter (\<lambda>b. b \<noteq> 0) [rx_buf (a_rx a), rx_next_buf (a_rx a)]"

definition good_buffer :: "addr \<Rightarrow> u32 \<Rightarrow> bool" where
  "good_buffer b l \<longleftrightarrow> b \<noteq> 0 \<and> l \<noteq> 0 \<and> unat b + unat l < 2 ^ 32"

definition answers_rx :: "adapter \<Rightarrow> adapter \<Rightarrow> bool" where
  "answers_rx a a' \<longleftrightarrow> (\<exists>b l. good_buffer b l \<and> a_rx a' = a_rx (snd (rx_buf_rsp b l a))
     \<and> a_given a' = a_given (snd (rx_buf_rsp b l a)))"

text \<open>
  Besides answering a request, a callback may start reception when no buffer is held, and may stop a reception
  that runs and start it again with a new buffer, as \<open>uart_cb\<close> of the Bluetooth bridge does at the end of a
  line; these are the effects of \<open>rx_enable\<close> and \<open>rx_disable\<close> on the receiving side.
\<close>

definition starts_rx :: "adapter \<Rightarrow> adapter \<Rightarrow> bool" where
  "starts_rx a a' \<longleftrightarrow> rx_buf (a_rx a') = 0 \<and> rx_size_left (a_rx a') = 0
     \<and> good_buffer (rx_next_buf (a_rx a')) (rx_next_buf_len (a_rx a'))
     \<and> a_given a' = a_given a @ [rx_next_buf (a_rx a')]"

definition stopped_rx :: "adapter \<Rightarrow> adapter \<Rightarrow> bool" where
  "stopped_rx a a' \<longleftrightarrow> rx_buf (a_rx a') = 0 \<and> rx_size_left (a_rx a') = 0
     \<and> rx_next_buf (a_rx a') = 0 \<and> rx_next_buf_len (a_rx a') = 0 \<and> a_given a' = a_given a"

definition client_step :: "adapter \<Rightarrow> adapter \<Rightarrow> bool" where
  "client_step a a' \<longleftrightarrow>
     a_self a' = a_self a \<and> a_target a' = a_target a \<and> a_callback a' \<and> a_fifo a' = a_fifo a
     \<and> a_delivered a' = a_delivered a \<and> pending a' = pending a
     \<and> (a_released a' = a_released a
          \<and> (a_rx a' = a_rx a \<and> a_given a' = a_given a \<or> answers_rx a a' \<or> held a = [] \<and> starts_rx a a')
        \<or> a_released a' = a_released a @ held a \<and> rx_buf (a_rx a) \<noteq> 0 \<and> (stopped_rx a a' \<or> starts_rx a a'))"

fun tx_event :: "uart_event \<Rightarrow> bool" where
  "tx_event (UART_TX_DONE p n) = True"
| "tx_event (UART_TX_ABORTED p n) = True"
| "tx_event _ = False"

text \<open>
  The adapter reports the events of reception when every byte stored has been shown, so a client may
  stop reception then without losing one.
\<close>

definition client_ok :: "client \<Rightarrow> bool" where
  "client_ok cb \<longleftrightarrow> (\<forall>ev a. a_callback a \<longrightarrow> rx_ok (a_rx a) \<longrightarrow> (tx_event ev \<or> pending a = []) \<longrightarrow> client_step a (cb ev a))"

definition driver_ok :: "fifo_driver \<Rightarrow> bool" where
  "driver_ok rd \<longleftrightarrow> (\<forall>q n. rd q n \<le> int (min n (length q)))"

definition owned :: "adapter \<Rightarrow> bool" where
  "owned a \<longleftrightarrow> a_given a = a_released a @ held a"

text \<open>What a callback leaves of the receiving side; a buffer is fresh when it is not used up.\<close>

definition fresh_rx :: "uart_rx_data \<Rightarrow> bool" where
  "fresh_rx r \<longleftrightarrow> (rx_size_left r = 0 \<longrightarrow> rx_buf r = 0)"

definition cb_frame :: "adapter \<Rightarrow> adapter \<Rightarrow> bool" where
  "cb_frame a a' \<longleftrightarrow> a_self a' = a_self a \<and> a_target a' = a_target a \<and> a_callback a'
     \<and> a_fifo a' = a_fifo a \<and> rx_ok (a_rx a') \<and> (fresh_rx (a_rx a) \<longrightarrow> fresh_rx (a_rx a'))"

lemma client_step_frame:
  assumes "client_step a a'" "rx_ok (a_rx a)"
  shows "cb_frame a a'" and "owned a \<Longrightarrow> owned a'"
proof -
  consider (same) "a_released a' = a_released a" "a_rx a' = a_rx a" "a_given a' = a_given a"
    | (answer) b l where "a_released a' = a_released a" "good_buffer b l"
        "a_rx a' = a_rx (snd (rx_buf_rsp b l a))" "a_given a' = a_given (snd (rx_buf_rsp b l a))"
    | (start) "a_released a' = a_released a" "held a = []" "starts_rx a a'"
    | (stop) "a_released a' = a_released a @ held a" "stopped_rx a a'"
    | (restart) "a_released a' = a_released a @ held a" "starts_rx a a'"
    using assms(1) by (auto simp: client_step_def answers_rx_def)
  note cs = this
  have "rx_ok (a_rx a') \<and> (fresh_rx (a_rx a) \<longrightarrow> fresh_rx (a_rx a'))"
    using cs assms(2)
    by cases (auto simp: rx_buf_rsp_def rx_ok_def fresh_rx_def good_buffer_def starts_rx_def stopped_rx_def)
  then show "cb_frame a a'" using assms(1) by (simp add: client_step_def cb_frame_def)
  show "owned a'" if "owned a"
    using cs that
    by cases (auto simp: owned_def held_def rx_buf_rsp_def good_buffer_def starts_rx_def stopped_rx_def)
qed

lemma user_callback_frame:
  assumes "client_ok cb" "a_callback a" "rx_ok (a_rx a)" "tx_event ev \<or> pending a = []"
  shows "cb_frame a (user_callback cb ev a)"
    and "a_delivered (user_callback cb ev a) = a_delivered a @ event_bytes (a_mem a) ev"
    and "owned (a\<lparr>a_released := a_released a @ event_released ev\<rparr>) \<Longrightarrow> owned (user_callback cb ev a)"
    and "pending (user_callback cb ev a) = pending a"
proof -
  let ?b = "a\<lparr>a_calls := a_calls a @ [Callback ev],
              a_delivered := a_delivered a @ event_bytes (a_mem a) ev,
              a_released := a_released a @ event_released ev\<rparr>"
  have e: "user_callback cb ev a = cb ev ?b" using assms(2) by (simp add: user_callback_def)
  have p: "pending ?b = pending a" by (simp add: pending_def Let_def)
  have "a_callback ?b" "rx_ok (a_rx ?b)" "tx_event ev \<or> pending ?b = []" using assms(2-4) p by simp_all
  with assms(1) have s: "client_step ?b (cb ev ?b)" unfolding client_ok_def by blast
  have ok: "rx_ok (a_rx ?b)" using assms(3) by simp
  from client_step_frame(1) [OF s ok] show "cb_frame a (user_callback cb ev a)"
    by (simp add: e cb_frame_def)
  from s p show "a_delivered (user_callback cb ev a) = a_delivered a @ event_bytes (a_mem a) ev"
    "pending (user_callback cb ev a) = pending a"
    by (simp_all add: e client_step_def)
  show "owned (user_callback cb ev a)" if "owned (a\<lparr>a_released := a_released a @ event_released ev\<rparr>)"
    using client_step_frame(2) [OF s ok] that by (simp add: e owned_def held_def)
qed

lemma cb_frame_trans: "cb_frame a b \<Longrightarrow> cb_frame b c \<Longrightarrow> cb_frame a c"
  by (auto simp: cb_frame_def)

text \<open>A client that never changes a part of the receiving side.\<close>

definition keeps :: "client \<Rightarrow> (uart_rx_data \<Rightarrow> 'b) \<Rightarrow> bool" where
  "keeps cb f \<longleftrightarrow> (\<forall>ev a. f (a_rx (cb ev a)) = f (a_rx a))"

lemma keeps_user_callback: "keeps cb f \<Longrightarrow> f (a_rx (user_callback cb ev a)) = f (a_rx a)"
  by (simp add: keeps_def user_callback_def)

lemma keeps_notify:
  "keeps cb rx_timeout \<Longrightarrow> rx_timeout (a_rx (notify_rx_buffer cb a)) = rx_timeout (a_rx a)"
  "keeps cb rx_enabled \<Longrightarrow> rx_enabled (a_rx (notify_rx_buffer cb a)) = rx_enabled (a_rx a)"
  by (simp_all add: notify_rx_buffer_def keeps_user_callback Let_def)

lemma keeps_switch:
  "keeps cb rx_timeout \<Longrightarrow> rx_timeout (a_rx (switch_rx_buffer cb req a)) = rx_timeout (a_rx a)"
  "keeps cb rx_enabled \<Longrightarrow> rx_enabled (a_rx (switch_rx_buffer cb req a)) = rx_enabled (a_rx a)"
  by (simp_all add: switch_rx_buffer_def notify_rx_buffer_release_def notify_rx_buffer_req_def keeps_user_callback Let_def)

section \<open>Bytes\<close>

lemma length_bytes_at [simp]: "length (bytes_at mem p n) = n"
  by (simp add: bytes_at_def)

lemma bytes_at_0 [simp]: "bytes_at mem p 0 = []"
  by (simp add: bytes_at_def)

lemma bytes_at_Suc: "bytes_at mem p (Suc n) = bytes_at mem p n @ [mem (p + of_nat n)]"
  by (simp add: bytes_at_def)

lemma bytes_at_add: "bytes_at mem p (m + n) = bytes_at mem p m @ bytes_at mem (p + of_nat m) n"
  by (induction n) (simp_all add: bytes_at_Suc algebra_simps)

lemma bytes_at_cong:
  "(\<And>i. i < n \<Longrightarrow> mem (p + of_nat i) = mem' (p + of_nat i)) \<Longrightarrow> bytes_at mem p n = bytes_at mem' p n"
  by (simp add: bytes_at_def)

lemma write_bytes_other:
  "(\<And>i. i < length bs \<Longrightarrow> x \<noteq> p + of_nat i) \<Longrightarrow> write_bytes p bs mem x = mem x"
proof (induction bs arbitrary: p mem)
  case (Cons b bs)
  have "write_bytes (p + 1) bs (mem(p := b)) x = (mem(p := b)) x"
  proof (rule Cons.IH)
    fix i assume "i < length bs"
    then show "x \<noteq> p + 1 + of_nat i" using Cons.prems [of "Suc i"] by (simp add: algebra_simps)
  qed
  then show ?case using Cons.prems [of 0] by simp
qed simp

lemma write_bytes_read:
  "length bs \<le> 2 ^ 32 \<Longrightarrow> bytes_at (write_bytes p bs mem) p (length bs) = bs"
proof (induction bs arbitrary: p mem)
  case (Cons b bs)
  have ne: "i < length bs \<Longrightarrow> p \<noteq> p + 1 + of_nat i" for i
  proof
    assume i: "i < length bs" and "p = p + 1 + of_nat i"
    then have "(of_nat (Suc i) :: u32) = 0" by (simp add: algebra_simps)
    then have "2 ^ LENGTH(32) dvd Suc i" by (simp only: word_of_nat_eq_0_iff)
    then have "2 ^ 32 dvd Suc i" by simp
    with i Cons.prems show False using dvd_imp_le [of "2 ^ 32" "Suc i"] by simp
  qed
  have "write_bytes (p + 1) bs (mem(p := b)) p = b"
    using write_bytes_other [of bs p "p + 1" "mem(p := b)"] ne by simp
  then show ?case using Cons bytes_at_add [of _ p 1 "length bs"]
    by (simp add: bytes_at_def)
qed simp


section \<open>Notifying and switching\<close>

lemma notify_rx_buffer_props:
  assumes c: "client_ok cb" "a_callback a" and ok: "rx_ok (a_rx a)"
  defines "a' \<equiv> notify_rx_buffer cb a"
  shows "a_callback a'" "a_fifo a' = a_fifo a" "rx_ok (a_rx a')"
    "a_delivered a' = a_delivered a @ pending a" "pending a' = []"
    "a_self a' = a_self a" "a_target a' = a_target a"
    "owned a \<Longrightarrow> owned a'" "rx_buf (a_rx a) = 0 \<Longrightarrow> a' = a"
proof -
  let ?r = "a_rx a"
  let ?b = "a\<lparr>a_rx := ?r\<lparr>rx_last_notify_buf := rx_curr_buf ?r\<rparr>\<rparr>"
  let ?ev = "UART_RX_RDY (rx_buf ?r) (rx_last_notify_buf ?r - rx_buf ?r) (rx_curr_buf ?r - rx_last_notify_buf ?r)"
  have "(a_callback a' \<and> a_fifo a' = a_fifo a \<and> rx_ok (a_rx a')
    \<and> a_delivered a' = a_delivered a @ pending a \<and> pending a' = []
    \<and> a_self a' = a_self a \<and> a_target a' = a_target a \<and> (owned a \<longrightarrow> owned a'))"
  proof (cases "rx_buf ?r \<noteq> 0 \<and> rx_last_notify_buf ?r < rx_curr_buf ?r")
    case True
    then have e: "a' = user_callback cb ?ev ?b" by (simp add: a'_def notify_rx_buffer_def Let_def)
    have okb: "rx_ok (a_rx ?b)" using ok True by (auto simp: rx_ok_def)
    have pb: "pending ?b = []" by (simp add: pending_def Let_def)
    have cb: "a_callback ?b" using c(2) by simp
    note u = user_callback_frame [OF c(1) cb okb disjI2 [OF pb], of ?ev, folded e]
    have "owned a'" if "owned a" using u(3) that by (simp add: owned_def held_def)
    then show ?thesis using u(1,2,4) pb True by (auto simp: cb_frame_def pending_def Let_def)
  next
    case False
    then have "a' = a" by (auto simp: a'_def notify_rx_buffer_def Let_def)
    moreover have "rx_last_notify_buf ?r = rx_curr_buf ?r" if "rx_buf ?r \<noteq> 0"
      using that False ok by (auto simp: rx_ok_def word_less_nat_alt intro: word_unat_eq_iff [THEN iffD2])
    ultimately show ?thesis using c ok by (auto simp: pending_def Let_def)
  qed
  then show "a_callback a'" "a_fifo a' = a_fifo a" "rx_ok (a_rx a')"
    "a_delivered a' = a_delivered a @ pending a" "pending a' = []"
    "a_self a' = a_self a" "a_target a' = a_target a" "owned a \<Longrightarrow> owned a'"
    by simp_all
  show "rx_buf (a_rx a) = 0 \<Longrightarrow> a' = a" by (simp add: a'_def notify_rx_buffer_def Let_def)
qed

definition switched :: "uart_rx_data \<Rightarrow> uart_rx_data" where
  "switched r = r\<lparr>rx_buf := rx_next_buf r, rx_curr_buf := rx_next_buf r,
     rx_last_notify_buf := rx_next_buf r, rx_size_left := rx_next_buf_len r,
     rx_next_buf := 0, rx_next_buf_len := 0\<rparr>"

lemma rx_ok_switched: "rx_ok r \<Longrightarrow> rx_ok (switched r)" "rx_ok r \<Longrightarrow> fresh_rx (switched r)"
  by (auto simp: rx_ok_def switched_def fresh_rx_def split: if_splits)

lemma switch_rx_buffer_props:
  fixes req :: bool
  assumes c: "client_ok cb" "a_callback a" and ok: "rx_ok (a_rx a)"
  defines "a' \<equiv> switch_rx_buffer cb req a"
  shows "a_callback a'" "a_fifo a' = a_fifo a" "rx_ok (a_rx a')" "a_delivered a' = a_delivered a"
    "pending a' = []" "a_self a' = a_self a" "a_target a' = a_target a"
    "fresh_rx (a_rx a')" "owned a \<Longrightarrow> owned a'"
proof -
  define a1 where "a1 = a\<lparr>a_rx := switched (a_rx a)\<rparr>"
  define a2 where "a2 = (if rx_buf (a_rx a) \<noteq> 0 then notify_rx_buffer_release cb (rx_buf (a_rx a)) a1 else a1)"
  have a': "a' = (if req then notify_rx_buffer_req cb a2 else a2)"
    by (simp add: a'_def switch_rx_buffer_def Let_def a1_def a2_def switched_def)
  have c1: "a_callback a1" using c by (simp add: a1_def)
  have p1: "pending a1 = []" by (simp add: a1_def pending_def switched_def Let_def)
  have ok1: "rx_ok (a_rx a1)" "fresh_rx (a_rx a1)" using rx_ok_switched [OF ok] by (simp_all add: a1_def)
  have f2: "cb_frame a1 a2 \<and> a_delivered a2 = a_delivered a1 \<and> pending a2 = [] \<and> (owned a \<longrightarrow> owned a2)"
  proof (cases "rx_buf (a_rx a) \<noteq> 0")
    case True
    let ?ev = "UART_RX_BUF_RELEASED (rx_buf (a_rx a))"
    have e: "a2 = user_callback cb ?ev a1" using True by (simp add: a2_def notify_rx_buffer_release_def)
    note u = user_callback_frame [OF c(1) c1 ok1(1) disjI2 [OF p1], of ?ev, folded e]
    have "owned (a1\<lparr>a_released := a_released a1 @ event_released ?ev\<rparr>)" if "owned a"
      using that True by (simp add: a1_def owned_def held_def switched_def)
    with u p1 show ?thesis by simp
  next
    case False
    then have e: "a2 = a1" by (simp add: a2_def)
    have "owned a1" if "owned a" using that False by (simp add: a1_def owned_def held_def switched_def)
    then show ?thesis using e p1 c1 ok1 by (simp add: cb_frame_def)
  qed
  then have c2: "a_callback a2" "rx_ok (a_rx a2)" "pending a2 = []" by (simp_all add: cb_frame_def)
  have f3: "cb_frame a2 a' \<and> a_delivered a' = a_delivered a2 \<and> pending a' = [] \<and> (owned a2 \<longrightarrow> owned a')"
  proof (cases req)
    case True
    then have e: "a' = user_callback cb UART_RX_BUF_REQUEST a2" by (simp add: a' notify_rx_buffer_req_def)
    show ?thesis
      using user_callback_frame [OF c(1) c2(1,2) disjI2 [OF c2(3)], of UART_RX_BUF_REQUEST, folded e] c2(3) by simp
  next
    case False
    then show ?thesis using a' c2 by (simp add: cb_frame_def)
  qed
  have f: "cb_frame a1 a'" using f2 f3 cb_frame_trans by blast
  show "a_callback a'" "a_fifo a' = a_fifo a" "rx_ok (a_rx a')" "a_delivered a' = a_delivered a"
    "pending a' = []" "a_self a' = a_self a" "a_target a' = a_target a" "fresh_rx (a_rx a')"
    using f f2 f3 ok1 by (simp_all add: cb_frame_def a1_def)
  show "owned a \<Longrightarrow> owned a'" using f2 f3 by blast
qed

lemma drop_loop_returns:
  assumes "driver_ok rd"
  shows "\<exists>lost. rx_drop_loop rd a = Some (a\<lparr>a_fifo := drop (length lost) (a_fifo a)\<rparr>)
    \<and> lost @ drop (length lost) (a_fifo a) = a_fifo a
    \<and> (rd (drop (length lost) (a_fifo a)) 1 \<le> 0)"
proof (induction "length (a_fifo a)" arbitrary: a rule: less_induct)
  case less
  show ?case
  proof (cases "rd (a_fifo a) 1 \<le> 0")
    case True
    then show ?thesis by (intro exI [of _ "[]"]) (simp add: rx_drop_loop.simps)
  next
    case False
    moreover have "rd (a_fifo a) 1 \<le> int (min 1 (length (a_fifo a)))"
      using assms by (simp only: driver_ok_def)
    ultimately have one: "rd (a_fifo a) 1 = 1" "a_fifo a \<noteq> []" by (auto simp: min_def split: if_splits)
    let ?b = "a\<lparr>a_fifo := drop 1 (a_fifo a)\<rparr>"
    have "length (a_fifo ?b) < length (a_fifo a)" using one by simp
    from less [OF this] obtain lost where l:
      "rx_drop_loop rd ?b = Some (?b\<lparr>a_fifo := drop (length lost) (a_fifo ?b)\<rparr>)"
      "lost @ drop (length lost) (a_fifo ?b) = a_fifo ?b"
      "rd (drop (length lost) (a_fifo ?b)) 1 \<le> 0" by blast
    show ?thesis
      by (intro exI [of _ "hd (a_fifo a) # lost"])
        (use l one in \<open>simp add: rx_drop_loop.simps [of rd a] drop_Suc; cases "a_fifo a"; simp\<close>)
  qed
qed


text \<open>
  A client that keeps a next buffer ready: it answers a request, never takes the next buffer away (when it stops
  reception it starts it again), and does so only when it is shown data.
\<close>

definition supplies :: "client \<Rightarrow> bool" where
  "supplies cb \<longleftrightarrow> (\<forall>a. rx_next_buf (a_rx (cb UART_RX_BUF_REQUEST a)) \<noteq> 0)
     \<and> (\<forall>ev a. rx_next_buf (a_rx a) \<noteq> 0 \<longrightarrow> rx_next_buf (a_rx (cb ev a)) \<noteq> 0)
     \<and> (\<forall>a. rx_size_left (a_rx (cb UART_RX_BUF_REQUEST a)) = rx_size_left (a_rx a))
     \<and> (\<forall>b a. rx_size_left (a_rx (cb (UART_RX_BUF_RELEASED b) a)) = rx_size_left (a_rx a))"

definition driver_prompt :: "fifo_driver \<Rightarrow> bool" where
  "driver_prompt rd \<longleftrightarrow> (\<forall>q n. q \<noteq> [] \<longrightarrow> 0 < n \<longrightarrow> 0 < rd q n)"

lemma supplies_notify:
  "supplies cb \<Longrightarrow> rx_next_buf (a_rx a) \<noteq> 0 \<Longrightarrow> rx_next_buf (a_rx (notify_rx_buffer cb a)) \<noteq> 0"
  by (simp add: notify_rx_buffer_def supplies_def user_callback_def Let_def)

lemma supplies_switch:
  assumes "supplies cb" "client_ok cb" "a_callback a" "rx_ok (a_rx a)"
  shows "rx_next_buf (a_rx (switch_rx_buffer cb True a)) \<noteq> 0"
    and "rx_size_left (a_rx (switch_rx_buffer cb True a)) = rx_next_buf_len (a_rx a)"
proof -
  define a1 where "a1 = a\<lparr>a_rx := switched (a_rx a)\<rparr>"
  define a2 where "a2 = (if rx_buf (a_rx a) \<noteq> 0 then notify_rx_buffer_release cb (rx_buf (a_rx a)) a1 else a1)"
  have e: "switch_rx_buffer cb True a = notify_rx_buffer_req cb a2"
    by (simp add: switch_rx_buffer_def Let_def a1_def a2_def switched_def)
  have c1: "a_callback a1" "rx_ok (a_rx a1)" "pending a1 = []"
    using assms(3,4) rx_ok_switched by (simp_all add: a1_def pending_def switched_def Let_def)
  have c2: "a_callback a2"
    using user_callback_frame(1) [OF assms(2) c1(1,2) disjI2 [OF c1(3)]] c1(1)
    by (simp add: a2_def notify_rx_buffer_release_def cb_frame_def)
  have s2: "rx_size_left (a_rx a2) = rx_next_buf_len (a_rx a)"
    using assms(1) by (simp add: a2_def a1_def notify_rx_buffer_release_def user_callback_def supplies_def switched_def)
  show "rx_next_buf (a_rx (switch_rx_buffer cb True a)) \<noteq> 0"
    "rx_size_left (a_rx (switch_rx_buffer cb True a)) = rx_next_buf_len (a_rx a)"
    using assms(1) c2 s2 unfolding e by (simp_all add: notify_rx_buffer_req_def user_callback_def supplies_def)
qed

definition rx_progress :: "client \<Rightarrow> fifo_driver \<Rightarrow> adapter \<Rightarrow> u8 list \<Rightarrow> u8 list \<Rightarrow> adapter \<Rightarrow> bool" where
  "rx_progress cb rd a got lost a' \<longleftrightarrow>
     a_callback a' \<and> rx_ok (a_rx a') \<and> a_self a' = a_self a \<and> a_target a' = a_target a
     \<and> (keeps cb rx_timeout \<longrightarrow> rx_timeout (a_rx a') = rx_timeout (a_rx a))
     \<and> (keeps cb rx_enabled \<longrightarrow> rx_enabled (a_rx a') = rx_enabled (a_rx a))
     \<and> a_fifo a = got @ lost @ a_fifo a'
     \<and> a_delivered a' @ pending a' = a_delivered a @ pending a @ got
     \<and> (lost \<noteq> [] \<longrightarrow> rx_buf (a_rx a') = 0)
     \<and> (owned a \<longrightarrow> owned a')
     \<and> (supplies cb \<longrightarrow> rx_next_buf (a_rx a) \<noteq> 0 \<longrightarrow> lost = [] \<and> rx_next_buf (a_rx a') \<noteq> 0)"

lemma rx_progress_trans:
  "rx_progress cb rd a got [] b \<Longrightarrow> rx_progress cb rd b got' lost c \<Longrightarrow> rx_progress cb rd a (got @ got') lost c"
  by (auto simp: rx_progress_def)

lemma rx_refill:
  assumes c: "client_ok cb" "a_callback a" and ok: "rx_ok (a_rx a)"
  defines "b \<equiv> switch_rx_buffer cb True (notify_rx_buffer cb a)"
  shows "rx_progress cb rd a [] [] b" and "pending b = []"
    "supplies cb \<Longrightarrow> rx_next_buf (a_rx a) \<noteq> 0 \<Longrightarrow> rx_size_left (a_rx b) \<noteq> 0"
    "fresh_rx (a_rx b)"
proof -
  let ?n = "notify_rx_buffer cb a"
  note n = notify_rx_buffer_props [OF c ok]
  note s = switch_rx_buffer_props [OF c(1) n(1) n(3), of True, folded b_def]
  note w = supplies_switch [OF _ c(1) n(1) n(3), folded b_def]
  have t: "keeps cb rx_timeout \<longrightarrow> rx_timeout (a_rx b) = rx_timeout (a_rx a)"
    "keeps cb rx_enabled \<longrightarrow> rx_enabled (a_rx b) = rx_enabled (a_rx a)"
    by (simp_all add: b_def keeps_switch keeps_notify)
  show "pending b = []" "fresh_rx (a_rx b)" by (rule s(5), rule s(8))
  show "rx_progress cb rd a [] [] b"
    using s n w(1) t by (simp add: rx_progress_def)
  show "rx_size_left (a_rx b) \<noteq> 0" if "supplies cb" "rx_next_buf (a_rx a) \<noteq> 0"
    using w(2) [OF that(1)] supplies_notify [OF that] n(3) by (simp add: rx_ok_def)
qed

lemma rx_dropped:
  assumes p: "rx_progress cb rd a0 [] [] a" and d: "driver_ok rd" and b0: "rx_buf (a_rx a) = 0"
    and sup: "\<not> (supplies cb \<and> rx_next_buf (a_rx a0) \<noteq> 0)"
  shows "\<exists>lost a'. rx_drop_loop rd a = Some a' \<and> rx_progress cb rd a0 [] lost a' \<and> pending a' = []
     \<and> (driver_prompt rd \<longrightarrow> a_fifo a' = [])"
proof -
  from drop_loop_returns [OF d, of a] obtain lost where
    l: "rx_drop_loop rd a = Some (a\<lparr>a_fifo := drop (length lost) (a_fifo a)\<rparr>)"
      "lost @ drop (length lost) (a_fifo a) = a_fifo a" "rd (drop (length lost) (a_fifo a)) 1 \<le> 0" by blast
  let ?a' = "a\<lparr>a_fifo := drop (length lost) (a_fifo a)\<rparr>"
  have "rx_progress cb rd a0 [] lost ?a'"
    using p b0 l sup by (auto simp: rx_progress_def pending_def owned_def held_def)
  moreover have "a_fifo ?a' = []" if pr: "driver_prompt rd"
  proof (rule ccontr)
    assume "a_fifo ?a' \<noteq> []"
    with pr have "0 < rd (drop (length lost) (a_fifo a)) 1" by (simp add: driver_prompt_def)
    with l(3) show False by simp
  qed
  moreover have "pending ?a' = []" using b0 by (simp add: pending_def)
  ultimately show ?thesis using l(1) by blast
qed

lemma rx_stored:
  assumes c: "a_callback a" and ok: "rx_ok (a_rx a)" and d: "driver_ok rd"
    and nz: "rx_size_left (a_rx a) \<noteq> 0"
  defines "ret \<equiv> max (rd (a_fifo a) (unat (rx_size_left (a_rx a)))) 0"
  defines "a1 \<equiv> snd (fifo_read_into_buf rd a)"
  defines "a' \<equiv> a1\<lparr>a_rx := (a_rx a1)\<lparr>rx_curr_buf := rx_curr_buf (a_rx a1) + of_int ret,
                                  rx_size_left := rx_size_left (a_rx a1) - of_int ret\<rparr>\<rparr>"
  shows "rx_progress cb rd a (take (nat ret) (a_fifo a)) [] a'"
    "ret \<le> int (length (a_fifo a))" "driver_prompt rd \<Longrightarrow> ret = 0 \<Longrightarrow> a_fifo a' = []"
proof -
  let ?r = "a_rx a" and ?n = "nat ret" and ?got = "take (nat ret) (a_fifo a)"
  have b: "ret \<le> int (min (unat (rx_size_left ?r)) (length (a_fifo a)))" "0 \<le> ret"
    using d by (auto simp: ret_def driver_ok_def max_def)
  then show "ret \<le> int (length (a_fifo a))" by simp
  have len: "length ?got = ?n" using b by auto
  have nl: "?n \<le> unat (rx_size_left ?r)" using b by auto
  have bufnz: "rx_buf ?r \<noteq> 0" using ok nz by (auto simp: rx_ok_def split: if_splits)
  with ok have bnd: "unat (rx_buf ?r) \<le> unat (rx_last_notify_buf ?r)"
      "unat (rx_last_notify_buf ?r) \<le> unat (rx_curr_buf ?r)"
      "unat (rx_curr_buf ?r) + unat (rx_size_left ?r) < 2 ^ 32" by (simp_all add: rx_ok_def)
  have of: "(of_int ret :: u32) = of_nat ?n" using b(2) by simp
  have tk: "take (nat (rd (a_fifo a) (unat (rx_size_left ?r)))) (a_fifo a) = ?got"
    "drop (nat (rd (a_fifo a) (unat (rx_size_left ?r)))) (a_fifo a) = drop ?n (a_fifo a)"
    by (auto simp: ret_def max_def)
  have a': "a' = a\<lparr>a_fifo := drop ?n (a_fifo a), a_mem := write_bytes (rx_curr_buf ?r) ?got (a_mem a),
     a_rx := ?r\<lparr>rx_curr_buf := rx_curr_buf ?r + of_nat ?n, rx_size_left := rx_size_left ?r - of_nat ?n\<rparr>\<rparr>"
    using tk of by (simp add: a'_def a1_def fifo_read_into_buf_def Let_def)
  have un: "unat (of_nat ?n :: u32) = ?n"
    using nl bnd(3) by (simp add: unat_of_nat_u32)
  have ucur: "unat (rx_curr_buf ?r + of_nat ?n) = unat (rx_curr_buf ?r) + ?n"
    using nl bnd(3) un by (simp add: unat_plus_nowrap)
  have uleft: "unat (rx_size_left ?r - of_nat ?n) = unat (rx_size_left ?r) - ?n"
    using nl un by (simp add: unat_minus_le word_le_nat_alt)
  have ok': "rx_ok (a_rx a')" using ok bufnz bnd nl ucur uleft by (auto simp: a' rx_ok_def split: if_splits)
  define k where "k = unat (rx_curr_buf ?r - rx_last_notify_buf ?r)"
  have k: "k = unat (rx_curr_buf ?r) - unat (rx_last_notify_buf ?r)"
    using bnd by (simp add: k_def unat_minus_le word_le_nat_alt)
  have k': "unat (rx_curr_buf ?r + of_nat ?n - rx_last_notify_buf ?r) = k + ?n"
    using bnd ucur k by (simp add: unat_minus_le word_le_nat_alt)
  have kw: "rx_last_notify_buf ?r + of_nat k = rx_curr_buf ?r" by (simp add: k_def)
  have "bytes_at (write_bytes (rx_curr_buf ?r) ?got (a_mem a)) (rx_last_notify_buf ?r) k
      = bytes_at (a_mem a) (rx_last_notify_buf ?r) k"
  proof (rule bytes_at_cong, rule write_bytes_other)
    fix i j assume i: "i < k" and j: "j < length ?got"
    have "unat (rx_last_notify_buf ?r + of_nat i) = unat (rx_last_notify_buf ?r) + i"
      using i k bnd by (simp add: unat_plus_nowrap unat_of_nat_u32)
    moreover have "unat (rx_curr_buf ?r + of_nat j) = unat (rx_curr_buf ?r) + j"
      using j len nl bnd by (simp add: unat_plus_nowrap unat_of_nat_u32)
    ultimately show "rx_last_notify_buf ?r + of_nat i \<noteq> rx_curr_buf ?r + of_nat j"
      using i k by (metis less_diff_conv add.commute not_add_less1)
  qed
  then have "pending a' = pending a @ ?got"
    using bufnz k' kw bytes_at_add [of "write_bytes (rx_curr_buf ?r) ?got (a_mem a)" "rx_last_notify_buf ?r" k ?n]
      write_bytes_read [of ?got "rx_curr_buf ?r" "a_mem a"] len nl unat_u32_less [of "rx_size_left ?r"]
    by (simp add: a' pending_def Let_def k_def)
  then show "rx_progress cb rd a ?got [] a'"
    using c ok' by (simp add: rx_progress_def a' owned_def held_def)
  show "a_fifo a' = []" if "driver_prompt rd" "ret = 0"
  proof (rule ccontr)
    assume "a_fifo a' \<noteq> []"
    then have "a_fifo a \<noteq> []" by (auto simp: a')
    moreover have "0 < unat (rx_size_left ?r)" using nz unat_gt_0 by blast
    ultimately have "0 < rd (a_fifo a) (unat (rx_size_left ?r))" using that by (simp add: driver_prompt_def)
    with that show False by (simp add: ret_def)
  qed
qed


lemma rx_pass_props:
  assumes c: "client_ok cb" "a_callback a" and ok: "rx_ok (a_rx a)" and d: "driver_ok rd"
  shows "\<exists>ret now1 a' got lost. rx_pass cb rd now a = Some (ret, now1, a') \<and> rx_progress cb rd a got lost a'
     \<and> 0 \<le> ret \<and> (ret \<noteq> 0 \<longrightarrow> lost = [] \<and> length (a_fifo a') < length (a_fifo a))
     \<and> (keeps cb rx_timeout \<longrightarrow> rx_timeout (a_rx a) = 0 \<longrightarrow> pending a' = [] \<or> now1)
     \<and> (driver_prompt rd \<longrightarrow> ret = 0 \<longrightarrow> a_fifo a' = [])"
proof -
  define b where "b = (if rx_size_left (a_rx a) = 0 then switch_rx_buffer cb True (notify_rx_buffer cb a) else a)"
  define now1 where "now1 = (rx_size_left (a_rx a) \<noteq> 0 \<and> now)"
  have e: "rx_pass cb rd now a = (if rx_size_left (a_rx b) = 0
     then map_option (\<lambda>a2. (0, now1, a2)) (rx_drop_loop rd b)
     else (let (ret0, a2) = fifo_read_into_buf rd b; ret = max ret0 0; r = a_rx a2;
               a3 = a2\<lparr>a_rx := r\<lparr>rx_curr_buf := rx_curr_buf r + of_int ret,
                                rx_size_left := rx_size_left r - of_int ret\<rparr>\<rparr>
           in Some (ret, now1 \<or> rx_timeout r = 0, a3)))"
    by (simp add: rx_pass_def b_def now1_def Let_def)
  have id: "rx_progress cb rd a [] [] a" using c ok by (simp add: rx_progress_def)
  have pb: "rx_progress cb rd a [] [] b" using rx_refill(1) [OF c ok] id by (simp add: b_def)
  then have cb: "a_callback b" and okb: "rx_ok (a_rx b)"
    and tb: "keeps cb rx_timeout \<longrightarrow> rx_timeout (a_rx b) = rx_timeout (a_rx a)" and fb: "a_fifo b = a_fifo a"
    by (simp_all add: rx_progress_def)
  show ?thesis
  proof (cases "rx_size_left (a_rx b) = 0")
    case True
    then have z: "rx_size_left (a_rx a) = 0" by (auto simp: b_def split: if_splits)
    then have b': "b = switch_rx_buffer cb True (notify_rx_buffer cb a)" by (simp add: b_def)
    have sup: "\<not> (supplies cb \<and> rx_next_buf (a_rx a) \<noteq> 0)"
      using rx_refill(3) [OF c ok] True b' by auto
    have b0: "rx_buf (a_rx b) = 0" using rx_refill(4) [OF c ok] True b' by (simp add: fresh_rx_def)
    from rx_dropped [OF pb d b0 sup] obtain lost a' where
      "rx_drop_loop rd b = Some a'" "rx_progress cb rd a [] lost a'" "pending a' = []"
      "driver_prompt rd \<longrightarrow> a_fifo a' = []" by blast
    with True show ?thesis unfolding e by auto
  next
    case nz: False
    define ret where "ret = max (rd (a_fifo b) (unat (rx_size_left (a_rx b)))) 0"
    note st = rx_stored [OF cb okb d nz, folded ret_def]
    let ?a1 = "snd (fifo_read_into_buf rd b)"
    let ?a' = "?a1\<lparr>a_rx := (a_rx ?a1)\<lparr>rx_curr_buf := rx_curr_buf (a_rx ?a1) + of_int ret,
                                  rx_size_left := rx_size_left (a_rx ?a1) - of_int ret\<rparr>\<rparr>"
    let ?got = "take (nat ret) (a_fifo b)"
    have pass: "rx_pass cb rd now a = Some (ret, now1 \<or> rx_timeout (a_rx b) = 0, ?a')"
      unfolding e using nz by (simp add: fifo_read_into_buf_def Let_def ret_def)
    have pr: "rx_progress cb rd a ?got [] ?a'" using rx_progress_trans [OF pb st(1)] by simp
    have len: "length ?got = nat ret" using st(2) by simp
    have "length (a_fifo a) = length ?got + length (a_fifo ?a')"
      using pr by (simp add: rx_progress_def)
    then have short: "ret \<noteq> 0 \<longrightarrow> length (a_fifo ?a') < length (a_fifo a)"
      using len by (auto simp: ret_def)
    show ?thesis
      by (rule exI [of _ ret], rule exI [of _ "now1 \<or> rx_timeout (a_rx b) = 0"], rule exI [of _ ?a'],
          rule exI [of _ ?got], rule exI [of _ "[]"])
        (use pass pr short st(3) tb in \<open>simp add: ret_def\<close>)
  qed
qed

lemma rx_loop_props:
  assumes c: "client_ok cb" and d: "driver_ok rd"
  shows "a_callback a \<Longrightarrow> rx_ok (a_rx a) \<Longrightarrow> \<exists>now1 a' got lost. rx_loop cb rd now a = Some (now1, a')
     \<and> rx_progress cb rd a got lost a'
     \<and> (keeps cb rx_timeout \<longrightarrow> rx_timeout (a_rx a) = 0 \<longrightarrow> pending a' = [] \<or> now1) \<and> (driver_prompt rd \<longrightarrow> a_fifo a' = [])"
proof (induction "length (a_fifo a)" arbitrary: a now rule: less_induct)
  case less
  from rx_pass_props [OF c less.prems d] obtain ret now1 b got lost where
    p: "rx_pass cb rd now a = Some (ret, now1, b)" "rx_progress cb rd a got lost b"
      "ret \<noteq> 0 \<longrightarrow> lost = [] \<and> length (a_fifo b) < length (a_fifo a)"
      "keeps cb rx_timeout \<longrightarrow> rx_timeout (a_rx a) = 0 \<longrightarrow> pending b = [] \<or> now1"
      "driver_prompt rd \<longrightarrow> ret = 0 \<longrightarrow> a_fifo b = []" by blast
  show ?case
  proof (cases "ret = 0")
    case True
    then show ?thesis using p by (auto simp: rx_loop.simps [of cb rd now a])
  next
    case False
    with p have l: "lost = []" "length (a_fifo b) < length (a_fifo a)" by simp_all
    from p(2) have "a_callback b" "rx_ok (a_rx b)" by (simp_all add: rx_progress_def)
    from less.hyps [OF l(2) this] obtain now2 a' got' lost' where
      q: "rx_loop cb rd now1 b = Some (now2, a')" "rx_progress cb rd b got' lost' a'"
        "keeps cb rx_timeout \<longrightarrow> rx_timeout (a_rx b) = 0 \<longrightarrow> pending a' = [] \<or> now2" "driver_prompt rd \<longrightarrow> a_fifo a' = []" by blast
    have "keeps cb rx_timeout \<longrightarrow> rx_timeout (a_rx b) = rx_timeout (a_rx a)" using p(2) by (simp add: rx_progress_def)
    moreover have "rx_progress cb rd a (got @ got') lost' a'"
      using p(2) q(2) l(1) rx_progress_trans by blast
    ultimately show ?thesis using p(1) q False by (auto simp: rx_loop.simps [of cb rd now a])
  qed
qed

text \<open>
  C9: from a state with a callback set and consistent receive pointers, one receive interrupt, with a driver that returns at most what it was asked for and a client whose callback
  hands over a buffer, or stops reception and perhaps starts it again with a new buffer, or does nothing of the
  kind: the interrupt returns, and no byte is lost or reordered on the way: the bytes taken from the
  FIFO split into those stored and those dropped, and the bytes shown to the client followed by the bytes not
  shown yet grow by exactly the stored ones. Bytes are dropped only while there is no buffer, and never when a
  next buffer is there and the client keeps one ready; with a timeout of 0 which the client keeps, everything stored
  has been shown on return; and the order in which buffers are handed back is kept.
\<close>

theorem adapter_rx_stream:
  assumes "client_ok cb" "driver_ok rd" "a_callback a" "rx_ok (a_rx a)"
  shows "\<exists>a' got lost. on_rx_ready cb rd a = Some a' \<and> rx_ok (a_rx a')
     \<and> a_fifo a = got @ lost @ a_fifo a'
     \<and> a_delivered a' @ pending a' = a_delivered a @ pending a @ got
     \<and> (lost \<noteq> [] \<longrightarrow> rx_buf (a_rx a') = 0)
     \<and> (supplies cb \<longrightarrow> rx_next_buf (a_rx a) \<noteq> 0 \<longrightarrow> lost = [])
     \<and> (keeps cb rx_timeout \<longrightarrow> rx_timeout (a_rx a) = 0 \<longrightarrow> pending a' = [])
     \<and> (driver_prompt rd \<longrightarrow> a_fifo a' = [])
     \<and> (owned a \<longrightarrow> owned a')"
proof -
  define a1 where "a1 = (if rx_timeout (a_rx a) \<noteq> SYS_FOREVER_MS
                then call (RxTimerStart (rx_timeout (a_rx a))) a else a)"
  have a1: "a_callback a1" "a_rx a1 = a_rx a" "a_fifo a1 = a_fifo a" "a_delivered a1 = a_delivered a"
    "pending a1 = pending a" "owned a1 = owned a"
    using assms(3) by (simp_all add: a1_def call_def pending_def owned_def held_def Let_def)
  from rx_loop_props [OF assms(1,2), of a1 False] a1 assms(4) obtain now1 b got lost where
    l: "rx_loop cb rd False a1 = Some (now1, b)" "rx_progress cb rd a1 got lost b"
      "keeps cb rx_timeout \<longrightarrow> rx_timeout (a_rx a) = 0 \<longrightarrow> pending b = [] \<or> now1" "driver_prompt rd \<longrightarrow> a_fifo b = []" by auto
  have b: "a_callback b" "rx_ok (a_rx b)" using l(2) by (simp_all add: rx_progress_def)
  note n = notify_rx_buffer_props [OF assms(1) b]
  define a' where "a' = (if now1 then notify_rx_buffer cb b else b)"
  have e: "on_rx_ready cb rd a = Some a'" using l(1) by (simp add: on_rx_ready_def a1_def a'_def Let_def)
  have ok: "rx_ok (a_rx a')" and fifo: "a_fifo a' = a_fifo b" using n(2,3) b by (simp_all add: a'_def)
  have all: "a_delivered a' @ pending a' = a_delivered b @ pending b" using n(4,5) by (simp add: a'_def)
  have buf: "rx_buf (a_rx b) = 0 \<Longrightarrow> a' = b" using n(9) by (simp add: a'_def)
  have own: "owned a \<Longrightarrow> owned a'"
    using n(8) l(2) a1(6) by (simp add: a'_def rx_progress_def)
  have now: "keeps cb rx_timeout \<longrightarrow> rx_timeout (a_rx a) = 0 \<longrightarrow> pending a' = []" using l(3) n(5) by (auto simp: a'_def)
  have p: "a_fifo a = got @ lost @ a_fifo b" "a_delivered b @ pending b = a_delivered a @ pending a @ got"
    "lost \<noteq> [] \<longrightarrow> rx_buf (a_rx b) = 0" "supplies cb \<longrightarrow> rx_next_buf (a_rx a) \<noteq> 0 \<longrightarrow> lost = []"
    using l(2) unfolding rx_progress_def a1(2-5) by simp_all
  show ?thesis
    by (rule exI [of _ a'], rule exI [of _ got], rule exI [of _ lost])
      (use e ok now own l(4) p(3,4) buf in \<open>simp add: fifo all p(1,2) [symmetric]; blast\<close>)
qed

section \<open>Disabling the receiver\<close>

definition quiet :: "client \<Rightarrow> uart_event \<Rightarrow> bool" where
  "quiet cb ev \<longleftrightarrow> (\<forall>a. a_rx (cb ev a) = a_rx a \<and> a_given (cb ev a) = a_given a)"

definition answers_requests_only :: "client \<Rightarrow> bool" where
  "answers_requests_only cb \<longleftrightarrow> (\<forall>ev. ev \<noteq> UART_RX_BUF_REQUEST \<longrightarrow> quiet cb ev)"

definition releases_quietly :: "client \<Rightarrow> bool" where
  "releases_quietly cb \<longleftrightarrow> (\<forall>b. quiet cb (UART_RX_BUF_RELEASED b))"

lemma answers_releases [simp]: "answers_requests_only cb \<Longrightarrow> releases_quietly cb"
  by (simp add: answers_requests_only_def releases_quietly_def)

lemma quiet_callback:
  assumes c: "client_ok cb" "quiet cb ev" "a_callback a" and ok: "rx_ok (a_rx a)" "tx_event ev \<or> pending a = []"
  defines "a' \<equiv> user_callback cb ev a"
  shows "a_callback a'" "a_rx a' = a_rx a" "a_given a' = a_given a" "a_fifo a' = a_fifo a" "a_self a' = a_self a"
    "a_target a' = a_target a"
    "a_delivered a' = a_delivered a @ event_bytes (a_mem a) ev" "a_released a' = a_released a @ event_released ev"
proof -
  let ?b = "a\<lparr>a_calls := a_calls a @ [Callback ev],
              a_delivered := a_delivered a @ event_bytes (a_mem a) ev,
              a_released := a_released a @ event_released ev\<rparr>"
  have e: "a' = cb ev ?b" using c(3) by (simp add: a'_def user_callback_def)
  have q: "a_rx a' = a_rx ?b" "a_given a' = a_given ?b" using c(2) by (simp_all add: e quiet_def)
  have p: "pending ?b = pending a" by (simp add: pending_def Let_def)
  have "a_callback ?b" "rx_ok (a_rx ?b)" "tx_event ev \<or> pending ?b = []" using c(3) ok p by simp_all
  with c(1) have "client_step ?b a'" unfolding client_ok_def e by blast
  then show "a_callback a'" "a_rx a' = a_rx a" "a_given a' = a_given a" "a_fifo a' = a_fifo a" "a_self a' = a_self a"
    "a_target a' = a_target a"
    "a_delivered a' = a_delivered a @ event_bytes (a_mem a) ev" "a_released a' = a_released a @ event_released ev"
    using q by (auto simp: client_step_def starts_rx_def stopped_rx_def)
qed

lemma switch_quiet:
  assumes c: "client_ok cb" "releases_quietly cb" "a_callback a" and ok: "rx_ok (a_rx a)" and nz: "rx_buf (a_rx a) \<noteq> 0"
  defines "a' \<equiv> switch_rx_buffer cb False a"
  shows "a_callback a'" "a_rx a' = switched (a_rx a)" "a_given a' = a_given a" "a_fifo a' = a_fifo a"
    "a_self a' = a_self a" "a_target a' = a_target a"
    "a_delivered a' = a_delivered a" "a_released a' = a_released a @ [rx_buf (a_rx a)]"
proof -
  let ?b = "a\<lparr>a_rx := switched (a_rx a)\<rparr>" and ?ev = "UART_RX_BUF_RELEASED (rx_buf (a_rx a))"
  have e: "a' = user_callback cb ?ev ?b"
    using nz by (simp add: a'_def switch_rx_buffer_def switched_def notify_rx_buffer_release_def Let_def)
  have b: "a_callback ?b" "rx_ok (a_rx ?b)" "pending ?b = []"
    using c(3) rx_ok_switched [OF ok] by (simp_all add: pending_def switched_def Let_def)
  have "quiet cb ?ev" using c(2) by (simp add: releases_quietly_def)
  note q = quiet_callback [OF c(1) this b(1,2) disjI2 [OF b(3)], folded e]
  show "a_callback a'" "a_rx a' = switched (a_rx a)" "a_given a' = a_given a" "a_fifo a' = a_fifo a"
    "a_self a' = a_self a" "a_target a' = a_target a"
    "a_delivered a' = a_delivered a" "a_released a' = a_released a @ [rx_buf (a_rx a)]"
    using q by simp_all
qed

lemma release_loop_quiet:
  assumes c: "client_ok cb" "releases_quietly cb" "a_callback a" and ok: "rx_ok (a_rx a)"
  shows "\<exists>a'. rx_release_loop cb a = Some a' \<and> a_callback a' \<and> a_given a' = a_given a \<and> a_fifo a' = a_fifo a
     \<and> a_self a' = a_self a \<and> a_target a' = a_target a \<and> a_delivered a' = a_delivered a \<and> rx_buf (a_rx a') = 0
     \<and> rx_ok (a_rx a') \<and> rx_enabled (a_rx a') = rx_enabled (a_rx a)
     \<and> (if rx_buf (a_rx a) = 0 then a' = a else held a' = [] \<and> a_released a' = a_released a @ held a)"
proof (cases "rx_buf (a_rx a) = 0")
  case True
  then show ?thesis using c ok by (simp add: rx_release_loop.simps)
next
  case nz: False
  let ?b = "switch_rx_buffer cb False a"
  note s = switch_quiet [OF c ok nz]
  have okb: "rx_ok (a_rx ?b)" using s(2) rx_ok_switched [OF ok] by simp
  show ?thesis
  proof (cases "rx_next_buf (a_rx a) = 0")
    case True
    then have "rx_buf (a_rx ?b) = 0" using s(2) by (simp add: switched_def)
    with s nz True okb show ?thesis
      by (simp add: rx_release_loop.simps [of cb a] rx_release_loop.simps [of cb ?b] held_def switched_def)
  next
    case False
    then have nz2: "rx_buf (a_rx ?b) \<noteq> 0" using s(2) by (simp add: switched_def)
    let ?c = "switch_rx_buffer cb False ?b"
    note t = switch_quiet [OF c(1,2) s(1) okb nz2]
    have okc: "rx_ok (a_rx ?c)" using t(2) rx_ok_switched [OF okb] by simp
    have "rx_buf (a_rx ?c) = 0" using s(2) t(2) by (simp add: switched_def)
    with s t nz nz2 False okc show ?thesis
      by (simp add: rx_release_loop.simps [of cb a] rx_release_loop.simps [of cb ?b]
          rx_release_loop.simps [of cb ?c] held_def switched_def)
  qed
qed

text \<open>
  Disabling the receiver returns, hands the current and the next buffer back in order and
  reports the disabling, but shows the client none of the bytes that were stored and not notified
  yet. When no byte had arrived, the next buffer is not handed back at all, and the adapter
  stays so that enabling it again is refused as busy.
\<close>

theorem adapter_disable_outcome:
  assumes "client_ok cb" "answers_requests_only cb" "a_callback a" "rx_ok (a_rx a)"
  shows "\<exists>a'. rx_disable cb (a_self a) a = Some (0, a') \<and> \<not> rx_enabled (a_rx a')
     \<and> rx_buf (a_rx a') = 0 \<and> a_given a' = a_given a \<and> rx_ok (a_rx a') \<and> a_callback a'
     \<and> a_self a' = a_self a \<and> a_target a' = a_target a \<and> a_fifo a' = a_fifo a
     \<and> a_delivered a' = a_delivered a
     \<and> a_released a' = a_released a @ (if rx_buf (a_rx a) = 0 then [] else held a)
     \<and> held a' = (if rx_buf (a_rx a) = 0 then held a else [])
     \<and> (\<forall>buf len timeout. fst (rx_enable buf len timeout a') =
           (if rx_buf (a_rx a) = 0 \<and> rx_next_buf (a_rx a) \<noteq> 0 then - EBUSY else 0))"
proof -
  define a1 where "a1 = call (IrqErrDisable (a_target a)) (call (IrqRxDisable (a_target a))
             (a\<lparr>a_rx := (a_rx a)\<lparr>rx_enabled := False\<rparr>\<rparr>))"
  have a1: "a_callback a1" "a_given a1 = a_given a" "a_released a1 = a_released a" "a_self a1 = a_self a"
    "a_target a1 = a_target a" "a_fifo a1 = a_fifo a"
    "a_delivered a1 = a_delivered a" "a_rx a1 = (a_rx a)\<lparr>rx_enabled := False\<rparr>" "held a1 = held a"
    "rx_ok (a_rx a1) = rx_ok (a_rx a)"
    using assms(3) by (simp_all add: a1_def call_def held_def rx_ok_def)
  then have ok1: "rx_ok (a_rx a1)" using assms(4) by simp
  have rq: "releases_quietly cb" using assms(2) by simp
  from release_loop_quiet [OF assms(1) rq a1(1) ok1] obtain b where
    b: "rx_release_loop cb a1 = Some b" "a_callback b" "a_given b = a_given a1" "a_delivered b = a_delivered a1"
      "a_self b = a_self a1" "a_target b = a_target a1" "a_fifo b = a_fifo a1"
      "rx_buf (a_rx b) = 0" "rx_ok (a_rx b)" "rx_enabled (a_rx b) = rx_enabled (a_rx a1)"
      "if rx_buf (a_rx a1) = 0 then b = a1 else held b = [] \<and> a_released b = a_released a1 @ held a1" by blast
  let ?a' = "user_callback cb UART_RX_DISABLED b"
  have pb: "pending b = []" using b(8) by (simp add: pending_def)
  have qd: "quiet cb UART_RX_DISABLED" using assms(2) by (simp add: answers_requests_only_def)
  note q = quiet_callback [OF assms(1) qd b(2,9) disjI2 [OF pb]]
  have "rx_disable cb (a_self a) a = Some (0, ?a')" using b(1) by (simp add: rx_disable_def a1_def)
  moreover have "held ?a' = held b" using q(2) by (simp add: held_def)
  ultimately show ?thesis using q b(3-) b(2) a1
    by (intro exI [of _ ?a'])
      (auto simp: rx_enable_def Let_def held_def split: if_splits)
qed

text \<open>
  Stopping a reception that runs, and starting it again, are steps a client may make: the buffers are handed back in
  order, and nothing is lost when every byte stored has been shown.
\<close>

lemma restart_step:
  assumes "client_ok cb" "answers_requests_only cb" "a_callback a" "rx_ok (a_rx a)" "rx_buf (a_rx a) \<noteq> 0"
    and "pending a = []" and d: "rx_disable cb (a_self a) a = Some (r, a1)"
  shows "client_step a a1" and "good_buffer b l \<Longrightarrow> client_step a (snd (rx_enable b l timeout a1))"
proof -
  from adapter_disable_outcome [OF assms(1-4)] d assms(5) have
    o: "rx_buf (a_rx a1) = 0" "a_given a1 = a_given a" "rx_ok (a_rx a1)" "a_callback a1" "a_self a1 = a_self a"
      "a_target a1 = a_target a" "a_fifo a1 = a_fifo a" "a_delivered a1 = a_delivered a"
      "a_released a1 = a_released a @ held a" "held a1 = []" by auto
  have n: "rx_next_buf (a_rx a1) = 0" "rx_next_buf_len (a_rx a1) = 0" "rx_size_left (a_rx a1) = 0"
    using o(1,3,10) by (auto simp: held_def rx_ok_def split: if_splits)
  show "client_step a a1" using o n assms(5,6) by (simp add: client_step_def stopped_rx_def pending_def)
  show "client_step a (snd (rx_enable b l timeout a1))" if "good_buffer b l"
    using o n assms(5,6) that
    by (simp add: client_step_def starts_rx_def pending_def rx_enable_def call_def good_buffer_def Let_def)
qed

lemma on_rx_ready_frame:
  assumes c: "client_ok cb" "driver_ok rd" "a_callback a" "rx_ok (a_rx a)"
  shows "\<exists>a'. on_rx_ready cb rd a = Some a' \<and> a_callback a' \<and> rx_ok (a_rx a') \<and> (owned a \<longrightarrow> owned a')
     \<and> a_self a' = a_self a \<and> a_target a' = a_target a
     \<and> (keeps cb rx_enabled \<longrightarrow> rx_enabled (a_rx a') = rx_enabled (a_rx a))"
proof -
  define a1 where "a1 = (if rx_timeout (a_rx a) \<noteq> SYS_FOREVER_MS
                then call (RxTimerStart (rx_timeout (a_rx a))) a else a)"
  have a1: "a_callback a1" "a_rx a1 = a_rx a" "owned a1 = owned a" "a_self a1 = a_self a" "a_target a1 = a_target a"
    using c(3) by (simp_all add: a1_def call_def owned_def held_def)
  from rx_loop_props [OF c(1,2), of a1 False] a1 c(4) obtain now1 b got lost where
    l: "rx_loop cb rd False a1 = Some (now1, b)" "rx_progress cb rd a1 got lost b" by auto
  have b: "a_callback b" "rx_ok (a_rx b)" "owned a \<longrightarrow> owned b" "a_self b = a_self a" "a_target b = a_target a"
      "keeps cb rx_enabled \<longrightarrow> rx_enabled (a_rx b) = rx_enabled (a_rx a)" using l(2) a1 by (simp_all add: rx_progress_def)
  note n = notify_rx_buffer_props [OF c(1) b(1,2)]
  show ?thesis
    by (rule exI [of _ "if now1 then notify_rx_buffer cb b else b"])
      (use l(1) b n(1,3,6-8) in \<open>simp add: on_rx_ready_def a1_def [symmetric] keeps_notify Let_def\<close>)
qed

section \<open>Operations\<close>

datatype adapter_op =
    OpTx addr u32 int
  | OpTxAbort
  | OpRxEnable addr u32 int
  | OpRxBufRsp addr u32
  | OpRxDisable
  | OpIrq irq_env
  | OpTxTimeout
  | OpRxTimeout
  | OpPollIn int addr | OpPollOut u8 | OpErrCheck int | OpConfigure int addr | OpConfigGet int addr
  | OpLineCtrlSet int u32 u32 | OpLineCtrlGet int u32 addr | OpDrvCmd int u32 u32

fun adapter_step :: "client \<Rightarrow> fifo_driver \<Rightarrow> adapter_op \<Rightarrow> adapter \<Rightarrow> adapter option" where
  "adapter_step cb rd (OpTx b l t) a = Some (snd (tx b l t a))"
| "adapter_step cb rd OpTxAbort a = Some (snd (tx_abort cb a))"
| "adapter_step cb rd (OpRxEnable b l t) a = Some (snd (rx_enable b l t a))"
| "adapter_step cb rd (OpRxBufRsp b l) a = Some (snd (rx_buf_rsp b l a))"
| "adapter_step cb rd OpRxDisable a = map_option snd (rx_disable cb (a_self a) a)"
| "adapter_step cb rd (OpIrq e) a = uart_irq_handler cb rd e a"
| "adapter_step cb rd OpTxTimeout a = Some (tx_timeout_handler cb a)"
| "adapter_step cb rd OpRxTimeout a = Some (rx_timeout_handler cb a)"
| "adapter_step cb rd (OpPollIn k p) a = Some (snd (poll_in k p a))"
| "adapter_step cb rd (OpPollOut c) a = Some (poll_out c a)"
| "adapter_step cb rd (OpErrCheck k) a = Some (snd (err_check k a))"
| "adapter_step cb rd (OpConfigure k p) a = Some (snd (configure k p a))"
| "adapter_step cb rd (OpConfigGet k p) a = Some (snd (config_get k p a))"
| "adapter_step cb rd (OpLineCtrlSet k x v) a = Some (snd (line_ctrl_set k x v a))"
| "adapter_step cb rd (OpLineCtrlGet k x p) a = Some (snd (line_ctrl_get k x p a))"
| "adapter_step cb rd (OpDrvCmd k x p) a = Some (snd (drv_cmd k x p a))"

fun adapter_op_ok :: "adapter_op \<Rightarrow> adapter \<Rightarrow> bool" where
  "adapter_op_ok (OpRxEnable b l t) a = (held a = [] \<and> good_buffer b l)"
| "adapter_op_ok (OpRxBufRsp b l) a = good_buffer b l"
| "adapter_op_ok (OpIrq e) a = (err_check_ret e \<le> 0)"
| "adapter_op_ok _ a = True"

definition adapter_inv :: "client \<Rightarrow> fifo_driver \<Rightarrow> adapter \<Rightarrow> bool" where
  "adapter_inv cb rd a \<longleftrightarrow> client_ok cb \<and> releases_quietly cb \<and> driver_ok rd
     \<and> a_callback a \<and> rx_ok (a_rx a) \<and> owned a"

lemma inv_rx_same:
  "adapter_inv cb rd a \<Longrightarrow> a_rx a' = a_rx a \<Longrightarrow> a_callback a' = a_callback a \<Longrightarrow> a_given a' = a_given a
    \<Longrightarrow> a_released a' = a_released a \<Longrightarrow> adapter_inv cb rd a'"
  by (simp add: adapter_inv_def owned_def held_def)

lemma inv_user_callback:
  assumes "adapter_inv cb rd a" "event_released ev = []" "tx_event ev \<or> pending a = []"
  shows "adapter_inv cb rd (user_callback cb ev a)"
proof -
  have c: "client_ok cb" "a_callback a" "rx_ok (a_rx a)" using assms by (simp_all add: adapter_inv_def)
  note u = user_callback_frame [OF c assms(3)]
  show ?thesis using assms u(1,3) by (simp add: adapter_inv_def cb_frame_def)
qed

lemma inv_tx_abort: "adapter_inv cb rd a \<Longrightarrow> adapter_inv cb rd (snd (tx_abort cb a))"
  by (auto simp: tx_abort_def call_def Let_def intro!: inv_user_callback intro: inv_rx_same)

lemma inv_on_tx_ready: "adapter_inv cb rd a \<Longrightarrow> adapter_inv cb rd (on_tx_ready ret a)"
  by (auto simp: on_tx_ready_def call_def Let_def intro: inv_rx_same)

lemma inv_on_tx_complete: "adapter_inv cb rd a \<Longrightarrow> adapter_inv cb rd (on_tx_complete cb a)"
  by (auto simp: on_tx_complete_def call_def Let_def intro!: inv_user_callback intro: inv_rx_same)

lemma inv_notify: "adapter_inv cb rd a \<Longrightarrow> adapter_inv cb rd (notify_rx_buffer cb a)"
  using notify_rx_buffer_props [of cb a] by (simp add: adapter_inv_def)

lemma inv_irq:
  assumes i: "adapter_inv cb rd a" and "err_check_ret e \<le> 0"
  shows "\<exists>a'. uart_irq_handler cb rd e a = Some a' \<and> adapter_inv cb rd a'"
proof (cases "irq_update e \<and> irq_is_pending e")
  case True
  define a1 where "a1 = (if tx_enabled (a_tx a) \<and> irq_tx_ready e then on_tx_ready (fifo_fill_ret e) a else a)"
  define a2 where "a2 = (if tx_enabled (a_tx a1) \<and> irq_tx_complete e then on_tx_complete cb a1 else a1)"
  have "adapter_inv cb rd a1" using i inv_on_tx_ready by (simp add: a1_def)
  then have i2: "adapter_inv cb rd a2" using inv_on_tx_complete by (simp add: a2_def)
  have "\<exists>a3. (if rx_enabled (a_rx a2) \<and> irq_rx_ready e then on_rx_ready cb rd a2 else Some a2) = Some a3
      \<and> adapter_inv cb rd a3"
    using i2 on_rx_ready_frame [of cb rd a2] by (auto simp: adapter_inv_def)
  with assms(2) True show ?thesis
    by (auto simp: uart_irq_handler_def a1_def [symmetric] a2_def [symmetric] Let_def)
next
  case False
  with i show ?thesis by (auto simp: uart_irq_handler_def)
qed

lemma inv_disable:
  assumes "adapter_inv cb rd a"
  shows "\<exists>a'. rx_disable cb (a_self a) a = Some (0, a') \<and> adapter_inv cb rd a'"
proof -
  have c: "client_ok cb" "releases_quietly cb" using assms by (simp_all add: adapter_inv_def)
  define a1 where "a1 = call (IrqErrDisable (a_target a)) (call (IrqRxDisable (a_target a))
             (a\<lparr>a_rx := (a_rx a)\<lparr>rx_enabled := False\<rparr>\<rparr>))"
  have "rx_ok (a_rx a1) = rx_ok (a_rx a)" by (simp add: a1_def call_def rx_ok_def)
  then have i1: "adapter_inv cb rd a1" using assms
    by (simp add: adapter_inv_def a1_def call_def owned_def held_def)
  then have "a_callback a1" "rx_ok (a_rx a1)" by (simp_all add: adapter_inv_def)
  from release_loop_quiet [OF c(1,2) this] obtain b where
    b: "rx_release_loop cb a1 = Some b" "a_callback b" "a_given b = a_given a1"
      "rx_ok (a_rx b)" "rx_buf (a_rx b) = 0"
      "if rx_buf (a_rx a1) = 0 then b = a1 else held b = [] \<and> a_released b = a_released a1 @ held a1" by blast
  then have "adapter_inv cb rd b" using i1 by (auto simp: adapter_inv_def owned_def split: if_splits)
  then have "adapter_inv cb rd (user_callback cb UART_RX_DISABLED b)"
    by (rule inv_user_callback) (simp_all add: pending_def b(5))
  moreover have "rx_disable cb (a_self a) a = Some (0, user_callback cb UART_RX_DISABLED b)"
    using b(1) by (simp add: rx_disable_def a1_def)
  ultimately show ?thesis by blast
qed

lemma inv_call: "adapter_inv cb rd a \<Longrightarrow> adapter_inv cb rd (call c a)"
  by (erule inv_rx_same) (simp_all add: call_def)

lemma adapter_step_inv:
  assumes "adapter_inv cb rd a" "adapter_op_ok op a"
  shows "\<exists>a'. adapter_step cb rd op a = Some a' \<and> adapter_inv cb rd a'"
proof (cases op)
  case (OpTx b l t)
  then show ?thesis using assms by (auto simp: tx_def call_def Let_def intro: inv_rx_same)
next
  case (OpRxEnable b l t)
  then show ?thesis using assms
    by (auto simp: rx_enable_def call_def Let_def adapter_inv_def owned_def held_def good_buffer_def rx_ok_def
        split: if_splits)
next
  case (OpRxBufRsp b l)
  then show ?thesis using assms
    by (auto simp: rx_buf_rsp_def adapter_inv_def owned_def held_def good_buffer_def rx_ok_def)
next
  case OpRxDisable
  then show ?thesis using inv_disable [OF assms(1)] by force
qed (use assms inv_tx_abort inv_irq inv_notify in
    \<open>auto simp: tx_timeout_handler_def rx_timeout_handler_def basic_defs inv_call\<close>)

interpretation adapter: machine "adapter_step cb rd" adapter_op_ok "adapter_inv cb rd"
  for cb rd
  by unfold_locales (rule adapter_step_inv)

text \<open>
  C21: from a state with a callback set and consistent receive pointers, over any sequence of calls, interrupts without line errors and timeouts in which reception is enabled only
  while no buffer is held, with a driver that returns at most what it was asked for and a client whose callback hands
  over a buffer, or stops a running reception and perhaps starts it again, but does not touch reception when a
  buffer is handed back: every operation returns, and each buffer the client handed over is handed back exactly
  once, in order: the buffers given are those released followed by the at most two still held.
\<close>

theorem adapter_returns_buffers:
  assumes "client_ok cb" "releases_quietly cb" "driver_ok rd"
    and "a_callback a" "rx_ok (a_rx a)" "owned a" "run_ok (adapter_step cb rd) adapter_op_ok ops a"
  shows "\<exists>a'. run (adapter_step cb rd) ops a = Some a' \<and> a_given a' = a_released a' @ held a'
     \<and> rx_ok (a_rx a')"
  using adapter.run_inv [of cb rd a ops] assms by (auto simp: adapter_inv_def owned_def)

lemma on_tx_complete_frame:
  assumes c: "client_ok cb" "a_callback a" "rx_ok (a_rx a)" "keeps cb rx_enabled"
  shows "a_callback (on_tx_complete cb a) \<and> rx_ok (a_rx (on_tx_complete cb a))
    \<and> a_self (on_tx_complete cb a) = a_self a \<and> a_target (on_tx_complete cb a) = a_target a
    \<and> rx_enabled (a_rx (on_tx_complete cb a)) = rx_enabled (a_rx a)"
proof (cases "tx_size_left (a_tx a) = 0 \<and> tx_buf (a_tx a) \<noteq> 0")
  case True
  let ?t = "(a_tx a)\<lparr>tx_enabled := False\<rparr>"
  define b where "b = call (IrqTxDisable (a_target a)) (a\<lparr>a_tx := ?t\<rparr>)
      \<lparr>a_tx := ?t\<lparr>tx_buf := 0, tx_curr_buf := 0, tx_size_left := 0\<rparr>\<rparr>"
  let ?ev = "UART_TX_DONE (tx_buf (a_tx a)) (tx_curr_buf (a_tx a) - tx_buf (a_tx a))"
  have b: "a_callback b" "a_rx b = a_rx a" "a_self b = a_self a" "a_target b = a_target a"
    using c by (simp_all add: b_def call_def)
  have e: "on_tx_complete cb a = user_callback cb ?ev b"
    using True by (simp add: on_tx_complete_def b_def call_def Let_def)
  have f: "cb_frame b (user_callback cb ?ev b)" using c b by (intro user_callback_frame(1)) simp_all
  have "rx_enabled (a_rx (user_callback cb ?ev b)) = rx_enabled (a_rx b)"
    using c(4) by (rule keeps_user_callback)
  with f show ?thesis unfolding e by (simp add: cb_frame_def b)
next
  case False
  then show ?thesis using c by (auto simp: on_tx_complete_def call_def Let_def)
qed

text \<open>
  Whenever the driver reports a line error while the receiver is on, the interrupt handler
  disables the target device in place of the adapter, and so reads the target driver's data as
  the adapter's own: undefined behaviour.
\<close>

theorem adapter_error_corrupts:
  assumes "client_ok cb" "keeps cb rx_enabled" "driver_ok rd" "a_callback a" "rx_ok (a_rx a)" "a_target a \<noteq> a_self a"
    and "irq_update e" "irq_is_pending e" "rx_enabled (a_rx a)" "0 < err_check_ret e"
  shows "uart_irq_handler cb rd e a = None"
proof -
  have tx1: "a_callback (on_tx_ready k a) \<and> a_rx (on_tx_ready k a) = a_rx a
      \<and> a_self (on_tx_ready k a) = a_self a \<and> a_target (on_tx_ready k a) = a_target a" for k
    using assms(4) by (simp add: on_tx_ready_def call_def Let_def)
  define a1 where "a1 = (if tx_enabled (a_tx a) \<and> irq_tx_ready e then on_tx_ready (fifo_fill_ret e) a else a)"
  define a2 where "a2 = (if tx_enabled (a_tx a1) \<and> irq_tx_complete e then on_tx_complete cb a1 else a1)"
  have a1: "a_callback a1" "a_rx a1 = a_rx a" "a_self a1 = a_self a" "a_target a1 = a_target a"
    using tx1 assms(4) by (simp_all add: a1_def)
  have a2: "a_callback a2 \<and> rx_ok (a_rx a2) \<and> a_self a2 = a_self a \<and> a_target a2 = a_target a \<and> rx_enabled (a_rx a2)"
    using on_tx_complete_frame [OF assms(1) a1(1) _ assms(2)] a1 assms(5,9) by (simp add: a2_def)
  obtain a3 where a3: "(if irq_rx_ready e then on_rx_ready cb rd a2 else Some a2) = Some a3"
      "a_self a3 = a_self a" "a_target a3 = a_target a" "rx_enabled (a_rx a3)"
    using on_rx_ready_frame [OF assms(1,3), of a2] a2 assms(2) by (cases "irq_rx_ready e") auto
  show ?thesis using assms(6-8,10) a2 a3
    by (cases "irq_rx_ready e")
      (simp_all add: uart_irq_handler_def a1_def [symmetric] a2_def [symmetric] Let_def on_error_def rx_disable_def)
qed

text \<open>
  Enabling a receiver that already holds a buffer is answered with \<open>-EBUSY\<close>, but the refused
  buffer is installed and the buffers held before are dropped without being handed back.
\<close>

theorem adapter_busy_enable_overwrites:
  assumes "owned a" "held a \<noteq> []" "buf \<noteq> 0"
  shows "fst (rx_enable buf len timeout a) = - EBUSY
     \<and> held (snd (rx_enable buf len timeout a)) = [buf]
     \<and> rx_enabled (a_rx (snd (rx_enable buf len timeout a)))
     \<and> \<not> owned (snd (rx_enable buf len timeout a))"
proof -
  have "rx_next_buf (a_rx a) \<noteq> 0 \<or> rx_buf (a_rx a) \<noteq> 0" using assms(2) by (auto simp: held_def split: if_splits)
  then show ?thesis using assms by (auto simp: rx_enable_def call_def Let_def owned_def held_def)
qed

section \<open>Transmission\<close>

primrec fills_ok :: "nat \<Rightarrow> int list \<Rightarrow> bool" where
  "fills_ok left [] = True"
| "fills_ok left (k # ks) = (k \<le> int left \<and> fills_ok (left - nat k) ks)"

definition filled :: "int list \<Rightarrow> nat" where
  "filled ks = sum_list (map nat ks)"

primrec fill_calls :: "device \<Rightarrow> addr \<Rightarrow> nat \<Rightarrow> int list \<Rightarrow> uart_call list" where
  "fill_calls d p left [] = []"
| "fill_calls d p left (k # ks) =
     (if left = 0 then [] else FifoFill d p (of_nat left) # fill_calls d (p + of_nat (nat k)) (left - nat k) ks)"

lemma fills_ok_filled: "fills_ok left ks \<Longrightarrow> filled ks \<le> left"
proof (induction ks arbitrary: left)
  case (Cons k ks)
  have "nat k \<le> left" using Cons.prems by (simp add: nat_le_iff)
  with Cons.IH [of "left - nat k"] Cons.prems show ?case by (simp add: filled_def)
qed (simp add: filled_def)

lemma fills_run:
  assumes "fills_ok (unat (tx_size_left (a_tx a))) ks"
  shows "fold on_tx_ready ks a =
    a\<lparr>a_tx := (a_tx a)\<lparr>tx_curr_buf := tx_curr_buf (a_tx a) + of_nat (filled ks),
                     tx_size_left := tx_size_left (a_tx a) - of_nat (filled ks)\<rparr>,
      a_calls := a_calls a @ fill_calls (a_target a) (tx_curr_buf (a_tx a)) (unat (tx_size_left (a_tx a))) ks\<rparr>"
  using assms
proof (induction ks arbitrary: a)
  case Nil
  then show ?case by (simp add: filled_def)
next
  case (Cons k ks)
  let ?t = "a_tx a"
  let ?b = "on_tx_ready k a"
  have kn: "nat k \<le> unat (tx_size_left ?t)" using Cons.prems by (simp add: nat_le_iff)
  show ?case
  proof (cases "tx_size_left ?t = 0")
    case True
    then have b: "?b = a" by (simp add: on_tx_ready_def)
    have f: "filled (k # ks) = 0" using fills_ok_filled [OF Cons.prems] True by simp
    then have "nat k = 0" "filled ks = 0" by (simp_all add: filled_def)
    with True Cons b show ?thesis by (cases ks) (simp_all add: filled_def)
  next
    case False
    have nw: "of_nat (nat k) \<le> tx_size_left ?t"
      using kn unat_u32_less [of "tx_size_left ?t"] by (simp add: word_le_nat_alt unat_of_nat_u32)
    have ul: "unat (tx_size_left ?t - of_nat (nat k)) = unat (tx_size_left ?t) - nat k"
      using nw kn unat_u32_less [of "tx_size_left ?t"] by (simp add: unat_minus_le unat_of_nat_u32)
    have b: "?b = a\<lparr>a_tx := ?t\<lparr>tx_curr_buf := tx_curr_buf ?t + of_nat (nat k),
                              tx_size_left := tx_size_left ?t - of_nat (nat k)\<rparr>,
                   a_calls := a_calls a @ [FifoFill (a_target a) (tx_curr_buf ?t) (tx_size_left ?t)]\<rparr>"
      using False by (simp add: on_tx_ready_def call_def Let_def)
    have "fills_ok (unat (tx_size_left (a_tx ?b))) ks" using Cons.prems by (simp add: b ul)
    note ih = Cons.IH [OF this]
    have "unat (tx_size_left ?t) \<noteq> 0" using False by (simp add: unat_eq_0)
    then show ?thesis using ih [unfolded b] by (simp add: b ul filled_def algebra_simps)
  qed
qed

text \<open>
  One transmission, whatever portions the driver accepts: the FIFO is filled from consecutive
  positions of the buffer; completion is reported exactly when all bytes were accepted, with the
  full length; an abort reports the number accepted so far; and until then any other transmission
  is refused as busy.
\<close>

theorem adapter_tx_transfer:
  assumes "tx_buf (a_tx a) = 0" "buf \<noteq> 0" "0 < len" "fills_ok (unat len) ks"
  shows "fst (tx buf len timeout a) = 0
     \<and> (let b = fold on_tx_ready ks (snd (tx buf len timeout a));
            idle = (\<lambda>c. c\<lparr>a_tx := (a_tx b)\<lparr>tx_enabled := False, tx_buf := 0, tx_curr_buf := 0, tx_size_left := 0\<rparr>\<rparr>)
        in a_calls b = a_calls a @ [IrqTxEnable (a_target a)]
               @ (if timeout \<noteq> SYS_FOREVER_MS then [TxTimerStart timeout] else [])
               @ fill_calls (a_target a) buf (unat len) ks
           \<and> on_tx_complete cb b =
              (if filled ks = unat len
               then user_callback cb (UART_TX_DONE buf len) (idle (call (IrqTxDisable (a_target a)) b)) else b)
           \<and> tx_abort cb b = (0, user_callback cb (UART_TX_ABORTED buf (of_nat (filled ks)))
                 (idle (call (IrqTxDisable (a_target a)) (call TxTimerStop b))))
           \<and> fst (tx buf' len' timeout' b) = (if len' = 0 then 0 else - EBUSY))"
proof -
  let ?a1 = "snd (tx buf len timeout a)"
  define b where "b = fold on_tx_ready ks ?a1"
  have len: "unat len \<noteq> 0" "len \<noteq> 0" using assms(3) by (auto simp: unat_eq_0)
  have a1: "a_tx ?a1 = (a_tx a)\<lparr>tx_buf := buf, tx_curr_buf := buf, tx_size_left := len, tx_enabled := True\<rparr>"
    "a_target ?a1 = a_target a"
    "a_calls ?a1 = a_calls a @ [IrqTxEnable (a_target a)] @ (if timeout \<noteq> SYS_FOREVER_MS then [TxTimerStart timeout] else [])"
    and r: "fst (tx buf len timeout a) = 0"
    using assms(1) len by (auto simp: tx_def call_def Let_def)
  have b: "b = ?a1\<lparr>a_tx := (a_tx ?a1)\<lparr>tx_curr_buf := buf + of_nat (filled ks), tx_size_left := len - of_nat (filled ks)\<rparr>,
      a_calls := a_calls ?a1 @ fill_calls (a_target a) buf (unat len) ks\<rparr>"
    using fills_run [of ?a1 ks] assms(4) a1 by (simp add: b_def)
  have z: "len - of_nat (filled ks) = 0 \<longleftrightarrow> filled ks = unat len"
    using fills_ok_filled [OF assms(4)] unat_u32_less [of len] by (auto simp: unat_of_nat_u32)
  have bt: "a_tx b = (a_tx a)\<lparr>tx_buf := buf, tx_curr_buf := buf + of_nat (filled ks),
      tx_size_left := len - of_nat (filled ks), tx_enabled := True\<rparr>" "a_target b = a_target a"
    using a1 by (simp_all add: b)
  show ?thesis unfolding b_def [symmetric]
    using r a1(3) z bt assms(2)
    by (auto simp: Let_def on_tx_complete_def tx_abort_def tx_def call_def b)
qed


section \<open>A concrete client, driver and state\<close>

fun demo_client :: client where
  "demo_client UART_RX_BUF_REQUEST a = snd (rx_buf_rsp 8192 64 a)"
| "demo_client ev a = a"

definition demo_driver :: fifo_driver where
  "demo_driver q n = int (min n (length q))"

definition demo_adapter :: "addr \<Rightarrow> u32 \<Rightarrow> addr \<Rightarrow> u32 \<Rightarrow> adapter" where
  "demo_adapter b l nb nl =
     \<lparr>a_self = 7, a_target = 3, a_callback = True,
      a_tx = \<lparr>tx_buf = 0, tx_curr_buf = 0, tx_size_left = 0, tx_enabled = False\<rparr>,
      a_rx = \<lparr>rx_buf = b, rx_curr_buf = b, rx_last_notify_buf = b, rx_size_left = l,
              rx_next_buf = nb, rx_next_buf_len = nl, rx_timeout = 50, rx_enabled = True\<rparr>,
      a_initialized = True, a_mem = (\<lambda>_. 0), a_fifo = [1, 2, 3], a_calls = [], a_delivered = [],
      a_given = filter (\<lambda>x. x \<noteq> 0) [b, nb], a_released = []\<rparr>"

lemma demo_client_ok: "client_ok demo_client"
proof -
  have "client_step a (demo_client ev a)" if "a_callback a" for ev a
  proof (cases "ev = UART_RX_BUF_REQUEST")
    case True
    have "good_buffer 8192 64" by (simp add: good_buffer_def)
    moreover have "pending (snd (rx_buf_rsp 8192 64 a)) = pending a"
      by (simp add: rx_buf_rsp_def pending_def Let_def)
    ultimately show ?thesis using that True
      by (auto simp: client_step_def answers_rx_def rx_buf_rsp_def)
  next
    case False
    with that show ?thesis by (cases ev) (simp_all add: client_step_def)
  qed
  then show ?thesis by (simp add: client_ok_def)
qed

lemma demo_client_answers: "answers_requests_only demo_client" "keeps demo_client rx_enabled"
proof -
  have "demo_client ev a = a" if "ev \<noteq> UART_RX_BUF_REQUEST" for ev a using that by (cases ev) simp_all
  then show "answers_requests_only demo_client" by (simp add: answers_requests_only_def quiet_def)
  have "rx_enabled (a_rx (demo_client ev a)) = rx_enabled (a_rx a)" for ev a
    by (cases ev) (simp_all add: rx_buf_rsp_def)
  then show "keeps demo_client rx_enabled" by (simp add: keeps_def)
qed

text \<open>
  A client in the manner of the Bluetooth bridge: when it is shown data it stops reception and starts it again with
  a new buffer.
\<close>

fun bridge_client :: client where
  "bridge_client UART_RX_BUF_REQUEST a = snd (rx_buf_rsp 8192 64 a)"
| "bridge_client (UART_RX_RDY b off l) a =
     (if rx_buf (a_rx a) = 0 then a
      else case rx_disable demo_client (a_self a) a of
             None \<Rightarrow> a | Some (r, a1) \<Rightarrow> snd (rx_enable 12288 64 50 a1))"
| "bridge_client ev a = a"

lemma bridge_client_ok: "client_ok bridge_client"
proof -
  have "client_step a (bridge_client ev a)"
    if "a_callback a" "rx_ok (a_rx a)" "tx_event ev \<or> pending a = []" for ev a
  proof -
    have id: "client_step a a" using that(1) by (simp add: client_step_def)
    show ?thesis
    proof (cases ev)
      case (UART_RX_RDY b off l)
      then have p: "pending a = []" using that(3) by simp
      show ?thesis
      proof (cases "rx_buf (a_rx a) = 0 \<or> rx_disable demo_client (a_self a) a = None")
        case True
        then show ?thesis using id UART_RX_RDY by auto
      next
        case False
        then obtain r a1 where d: "rx_disable demo_client (a_self a) a = Some (r, a1)" by auto
        have "good_buffer 12288 64" by (simp add: good_buffer_def)
        from restart_step(2) [OF demo_client_ok demo_client_answers(1) that(1,2) _ p d this] False d
        show ?thesis using UART_RX_RDY by simp
      qed
    next
      case UART_RX_BUF_REQUEST
      have "client_step a (demo_client UART_RX_BUF_REQUEST a)"
        using demo_client_ok that(1,2) that(3) UART_RX_BUF_REQUEST unfolding client_ok_def by blast
      then show ?thesis using UART_RX_BUF_REQUEST by simp
    qed (use id in simp_all)
  qed
  then show ?thesis unfolding client_ok_def by blast
qed

lemma bridge_client_supplies: "releases_quietly bridge_client" "supplies bridge_client"
proof -
  show "releases_quietly bridge_client" by (simp add: releases_quietly_def quiet_def)
  have "rx_next_buf (a_rx (bridge_client ev a)) \<noteq> 0" if "rx_next_buf (a_rx a) \<noteq> 0" for ev a
    using that by (cases ev) (auto simp: rx_buf_rsp_def rx_enable_def call_def Let_def split: option.split)
  then show "supplies bridge_client" by (simp add: supplies_def rx_buf_rsp_def)
qed

lemma demo_driver_ok: "driver_ok demo_driver" "driver_prompt demo_driver"
  by (auto simp: driver_ok_def driver_prompt_def demo_driver_def)

lemma demo_adapter_ok:
  "rx_ok (a_rx (demo_adapter 0 0 4096 2))" "rx_ok (a_rx (demo_adapter 4096 2 6144 64))"
  "a_callback (demo_adapter b l nb nl)" "owned (demo_adapter b l nb nl)"
  by (simp_all add: demo_adapter_def rx_ok_def owned_def held_def)

lemmas demo_ok = demo_client_ok demo_client_answers demo_driver_ok demo_adapter_ok

lemmas bridge_demo_ok = bridge_client_ok bridge_client_supplies

theorem adapter_rx_stream_witness:
  "\<exists>a'. on_rx_ready bridge_client demo_driver (demo_adapter 0 0 4096 2) = Some a'
     \<and> a_delivered a' @ pending a' = [1, 2, 3] \<and> a_fifo a' = [] \<and> owned a'"
proof -
  have s: "a_delivered (demo_adapter 0 0 4096 2) = []" "pending (demo_adapter 0 0 4096 2) = []"
    "a_fifo (demo_adapter 0 0 4096 2) = [1, 2, 3]" "rx_next_buf (a_rx (demo_adapter 0 0 4096 2)) \<noteq> 0"
    by (simp_all add: demo_adapter_def pending_def)
  show ?thesis
    using adapter_rx_stream [OF bridge_demo_ok(1) demo_ok(4) demo_ok(8) demo_ok(6)] bridge_demo_ok(3) demo_ok(5,9) s by fastforce
qed

theorem adapter_disable_outcome_witness:
  "\<exists>a'. rx_disable demo_client 7 (demo_adapter 4096 2 6144 64) = Some (0, a')
     \<and> a_released a' = [4096, 6144] \<and> held a' = []"
proof -
  have s: "a_self (demo_adapter 4096 2 6144 64) = 7" "a_released (demo_adapter 4096 2 6144 64) = []"
    "held (demo_adapter 4096 2 6144 64) = [4096, 6144]" "rx_buf (a_rx (demo_adapter 4096 2 6144 64)) = 4096"
    by (simp_all add: demo_adapter_def held_def)
  show ?thesis
    using adapter_disable_outcome [OF demo_ok(1,2) demo_ok(8) demo_ok(7)] s by auto
qed

theorem adapter_returns_buffers_witness:
  "\<exists>a'. run (adapter_step bridge_client demo_driver)
          [OpRxEnable 4096 2 50, OpIrq \<lparr>irq_update = True, irq_is_pending = True, irq_tx_ready = False,
             irq_tx_complete = False, irq_rx_ready = True, fifo_fill_ret = 0, err_check_ret = 0\<rparr>,
           OpRxTimeout, OpRxBufRsp 6144 64] (demo_adapter 0 0 0 0) = Some a'
     \<and> a_given a' = a_released a' @ held a'"
proof -
  let ?ops = "[OpRxEnable 4096 2 50, OpIrq \<lparr>irq_update = True, irq_is_pending = True, irq_tx_ready = False,
             irq_tx_complete = False, irq_rx_ready = True, fifo_fill_ret = 0, err_check_ret = 0\<rparr>,
           OpRxTimeout, OpRxBufRsp 6144 64]"
  have ok: "rx_ok (a_rx (demo_adapter 0 0 0 0))" by (simp add: demo_adapter_def rx_ok_def)
  have "run_ok (adapter_step bridge_client demo_driver) adapter_op_ok ?ops (demo_adapter 0 0 0 0)"
    by (simp add: demo_adapter_def held_def good_buffer_def split: option.split)
  then show ?thesis
    using adapter_returns_buffers [OF bridge_demo_ok(1,2) demo_ok(4) demo_ok(8) ok demo_ok(9)] by blast
qed

theorem adapter_error_corrupts_witness:
  "uart_irq_handler demo_client demo_driver
     \<lparr>irq_update = True, irq_is_pending = True, irq_tx_ready = False, irq_tx_complete = False,
      irq_rx_ready = False, fifo_fill_ret = 0, err_check_ret = 1\<rparr> (demo_adapter 4096 2 6144 64) = None"
  by (rule adapter_error_corrupts [OF demo_ok(1,3,4) demo_ok(8) demo_ok(7)]) (simp_all add: demo_adapter_def)

theorem adapter_busy_enable_overwrites_witness:
  "fst (rx_enable 8192 64 50 (demo_adapter 4096 2 6144 64)) = - 16
     \<and> \<not> owned (snd (rx_enable 8192 64 50 (demo_adapter 4096 2 6144 64)))"
proof -
  have "held (demo_adapter 4096 2 6144 64) \<noteq> []" by (simp add: demo_adapter_def held_def)
  from adapter_busy_enable_overwrites [OF demo_ok(9) this, of 8192 64 50] show ?thesis
    by (simp add: EBUSY_def)
qed

theorem adapter_tx_transfer_witness:
  "fst (tx 512 10 100 (demo_adapter 0 0 0 0)) = 0
     \<and> fst (tx 600 1 0 (fold on_tx_ready [4, -1, 6] (snd (tx 512 10 100 (demo_adapter 0 0 0 0))))) = - EBUSY"
proof -
  have "tx_buf (a_tx (demo_adapter 0 0 0 0)) = 0" "fills_ok (unat (10 :: u32)) [4, -1, 6]"
    by (simp_all add: demo_adapter_def)
  from adapter_tx_transfer [OF this(1) _ _ this(2), of 512 100 demo_client 600 1 0] show ?thesis
    by (simp add: Let_def)
qed

end
