(* ===== verification/BleUart.thy ===== *)
theory BleUart
  imports UartAdapter "HOL-Library.Sublist" "HOL-Library.Multiset"
begin

text \<open>
  The Bluetooth-UART bridge (\<open>app/mcuboot_prv_key/peripheral_uart/src/main.c\<close>): what the peer
  writes over the Nordic UART service is cut into heap buffers and sent over the UART, one
  after the other; what arrives over the UART is sent to the peer line by line.

  The buffers (\<open>struct uart_data_t\<close>) live in a heap of blocks by address; \<open>data\<close> starts 4
  bytes into a block, so \<open>CONTAINER_OF\<close> subtracts 4. Freeing or using a block that is not
  allocated gives \<open>None\<close>. The two kernel FIFOs are lists. The UART's \<open>uart_tx\<close> is a parameter
  (the driver, or the adapter of theory UartAdapter) on a state of its own; the other UART and
  Bluetooth calls are elements of the trace. \<open>b_sent\<close> and \<open>b_nomem\<close> are history: the contents
  the UART accepted, and whether an allocation for received data has failed.
\<close>

section \<open>Data\<close>

record ubuf =
  ub_data :: "u8 list"
  ub_len :: u16

type_synonym uheap = "addr \<Rightarrow> ubuf option"

datatype bridge_call =
    UartRxDisable | UartRxEnable addr u32 int | UartRxBufRsp addr u32
  | WorkReschedule int
  | UartAdapterInit | UartCallbackSet | UsbEnable | LineCtrlGetDtr | Sleep nat | LineCtrlSet string
  | NusSend "u8 list"
  | LedOn nat | LedOff nat | LedSet nat bool | AllLeds
  | AuthPasskeyConfirm ptr | AuthCancel ptr | AuthPairingConfirm ptr
  | ButtonsInit | LedsInit | ConnCbRegister | AuthCbRegister | BtEnable | SemGive
  | SettingsLoad | NusInit | AdvStart

record 'd bridge =
  b_dev :: 'd
  b_heap :: uheap
  b_fifo_tx :: "addr list"
  b_fifo_rx :: "addr list"
  current_conn :: ptr
  auth_conn :: ptr
  conn_refs :: "ptr \<Rightarrow> int"
  cb_current_buf :: addr
  cb_aborted_len :: u32
  cb_buf_release :: bool
  cb_aborted_buf :: addr
  b_sent :: "u8 list list"
  b_nomem :: bool
  b_calls :: "bridge_call list"

text \<open>
  The build's configuration and the code outside the repository: the buffer size
  \<open>CONFIG_BT_NUS_UART_BUFFER_SIZE\<close>, the receive timeout, the allocator and \<open>uart_tx\<close>.
\<close>

record 'd bridge_env =
  UART_BUF_SIZE :: nat
  UART_WAIT_FOR_RX :: int
  k_malloc :: "uheap \<Rightarrow> addr"
  uart_tx :: "addr \<Rightarrow> u32 \<Rightarrow> 'd \<Rightarrow> int \<times> 'd"

definition UART_WAIT_FOR_BUF_DELAY :: int where "UART_WAIT_FOR_BUF_DELAY = 50"

definition data_of :: "addr \<Rightarrow> addr" where "data_of b = b + 4"
definition CONTAINER_OF :: "addr \<Rightarrow> addr" where "CONTAINER_OF p = p - 4"

lemma container_data [simp]: "CONTAINER_OF (data_of b) = b"
  by (simp add: CONTAINER_OF_def data_of_def)

definition contents :: "ubuf \<Rightarrow> u8 list" where
  "contents u = take (unat (ub_len u)) (ub_data u)"

definition bcall :: "bridge_call \<Rightarrow> 'd bridge \<Rightarrow> 'd bridge" where
  "bcall c s = s\<lparr>b_calls := b_calls s @ [c]\<rparr>"

definition k_free :: "addr \<Rightarrow> 'd bridge \<Rightarrow> 'd bridge option" where
  "k_free b s = (if b_heap s b = None then None else Some (s\<lparr>b_heap := (b_heap s)(b := None)\<rparr>))"

definition new_buf :: "nat \<Rightarrow> ubuf" where
  "new_buf n = \<lparr>ub_data = replicate n 0, ub_len = 0\<rparr>"

text \<open>\<open>uart_tx\<close> of \<open>n\<close> bytes from offset \<open>off\<close> of block \<open>b\<close>; a zero result is recorded.\<close>

definition do_uart_tx :: "'d bridge_env \<Rightarrow> addr \<Rightarrow> ubuf \<Rightarrow> u32 \<Rightarrow> u32 \<Rightarrow> 'd bridge \<Rightarrow> int \<times> 'd bridge" where
  "do_uart_tx e b u off n s =
     (let (err, d) = uart_tx e (data_of b + off) n (b_dev s);
          s1 = s\<lparr>b_dev := d\<rparr>
      in (err, if err = 0
               then s1\<lparr>b_sent := b_sent s1 @ [take (unat n) (drop (unat off) (ub_data u))]\<rparr> else s1))"

section \<open>The UART callback\<close>

definition on_tx_done :: "'d bridge_env \<Rightarrow> addr \<Rightarrow> u32 \<Rightarrow> 'd bridge \<Rightarrow> 'd bridge option" where
  "on_tx_done e p n s =
     (if n = 0 \<or> p = 0 then Some s
      else
        (let (b, s1) = (if cb_aborted_buf s \<noteq> 0
                        then (CONTAINER_OF (cb_aborted_buf s), s\<lparr>cb_aborted_buf := 0, cb_aborted_len := 0\<rparr>)
                        else (CONTAINER_OF p, s))
         in Option.bind (k_free b s1) (\<lambda>s2.
              case b_fifo_tx s2 of
                [] \<Rightarrow> Some s2
              | b' # q \<Rightarrow>
                  (let s3 = s2\<lparr>b_fifo_tx := q\<rparr> in
                   case b_heap s3 b' of
                     None \<Rightarrow> None
                   | Some u \<Rightarrow> Some (snd (do_uart_tx e b' u 0 (ucast (ub_len u)) s3))))))"

definition on_rx_rdy :: "'d bridge_env \<Rightarrow> addr \<Rightarrow> u32 \<Rightarrow> 'd bridge \<Rightarrow> 'd bridge option" where
  "on_rx_rdy e p n s =
     (let b = CONTAINER_OF p in
      case b_heap s b of
        None \<Rightarrow> None
      | Some u \<Rightarrow>
          (let len = ub_len u + ucast n;
               s1 = s\<lparr>b_heap := (b_heap s)(b \<mapsto> u\<lparr>ub_len := len\<rparr>), cb_buf_release := False\<rparr>
           in if unat len = UART_BUF_SIZE e then Some (s1\<lparr>b_fifo_rx := b_fifo_rx s1 @ [b]\<rparr>)
              else if len = 0 \<or> length (ub_data u) < unat len then None
              else if ub_data u ! (unat len - 1) = 10 \<or> ub_data u ! (unat len - 1) = 13
              then Some (bcall UartRxDisable
                     (s1\<lparr>b_fifo_rx := b_fifo_rx s1 @ [b], cb_current_buf := p, cb_buf_release := True\<rparr>))
              else Some s1))"

definition on_rx_disabled :: "'d bridge_env \<Rightarrow> 'd bridge \<Rightarrow> 'd bridge" where
  "on_rx_disabled e s =
     (let b = k_malloc e (b_heap s) in
      if b \<noteq> 0
      then bcall (UartRxEnable (data_of b) (of_nat (UART_BUF_SIZE e)) (UART_WAIT_FOR_RX e))
             (s\<lparr>b_heap := (b_heap s)(b \<mapsto> new_buf (UART_BUF_SIZE e))\<rparr>)
      else bcall (WorkReschedule UART_WAIT_FOR_BUF_DELAY) s)"

definition on_rx_buf_request :: "'d bridge_env \<Rightarrow> 'd bridge \<Rightarrow> 'd bridge" where
  "on_rx_buf_request e s =
     (let b = k_malloc e (b_heap s) in
      if b \<noteq> 0
      then bcall (UartRxBufRsp (data_of b) (of_nat (UART_BUF_SIZE e)))
             (s\<lparr>b_heap := (b_heap s)(b \<mapsto> new_buf (UART_BUF_SIZE e))\<rparr>)
      else s)"

definition on_rx_buf_released :: "addr \<Rightarrow> 'd bridge \<Rightarrow> 'd bridge option" where
  "on_rx_buf_released p s =
     (if cb_buf_release s \<and> cb_current_buf s \<noteq> p
      then map_option (\<lambda>s1. s1\<lparr>cb_buf_release := False, cb_current_buf := 0\<rparr>) (k_free (CONTAINER_OF p) s)
      else Some s)"

definition on_tx_aborted :: "'d bridge_env \<Rightarrow> addr \<Rightarrow> u32 \<Rightarrow> 'd bridge \<Rightarrow> 'd bridge option" where
  "on_tx_aborted e p n s =
     (let s1 = (if cb_aborted_buf s = 0 then s\<lparr>cb_aborted_buf := p\<rparr> else s);
          s2 = s1\<lparr>cb_aborted_len := cb_aborted_len s1 + n\<rparr>;
          b = CONTAINER_OF (cb_aborted_buf s2)
      in case b_heap s2 b of
           None \<Rightarrow> None
         | Some u \<Rightarrow> Some (snd (do_uart_tx e b u (cb_aborted_len s2) (ucast (ub_len u) - cb_aborted_len s2) s2)))"

fun uart_cb :: "'d bridge_env \<Rightarrow> uart_event \<Rightarrow> 'd bridge \<Rightarrow> 'd bridge option" where
  "uart_cb e (UART_TX_DONE p n) s = on_tx_done e p n s"
| "uart_cb e (UART_RX_RDY p off n) s = on_rx_rdy e p n s"
| "uart_cb e UART_RX_DISABLED s = Some (on_rx_disabled e s)"
| "uart_cb e UART_RX_BUF_REQUEST s = Some (on_rx_buf_request e s)"
| "uart_cb e (UART_RX_BUF_RELEASED p) s = on_rx_buf_released p s"
| "uart_cb e (UART_TX_ABORTED p n) s = on_tx_aborted e p n s"
| "uart_cb e (UART_RX_STOPPED r) s = Some s"

definition uart_work_handler :: "'d bridge_env \<Rightarrow> 'd bridge \<Rightarrow> 'd bridge" where
  "uart_work_handler e s =
     (let b = k_malloc e (b_heap s) in
      if b \<noteq> 0
      then bcall (UartRxEnable (data_of b) (of_nat (UART_BUF_SIZE e)) (UART_WAIT_FOR_RX e))
             (s\<lparr>b_heap := (b_heap s)(b \<mapsto> new_buf (UART_BUF_SIZE e))\<rparr>)
      else bcall (WorkReschedule UART_WAIT_FOR_BUF_DELAY) s)"

section \<open>From the peer to the UART\<close>

text \<open>One buffer of \<open>bt_receive_cb\<close>: its length and contents, from position \<open>pos\<close>.\<close>

definition chunk_len :: "nat \<Rightarrow> u16 \<Rightarrow> u16 \<Rightarrow> u16" where
  "chunk_len bufsz len pos =
     (let tx_data_size = bufsz - 1 in
      if unat (len - pos) > tx_data_size then of_nat tx_data_size else len - pos)"

definition chunk_at :: "nat \<Rightarrow> u8 list \<Rightarrow> u16 \<Rightarrow> u16 \<Rightarrow> u8 list" where
  "chunk_at bufsz data len pos =
     (let n = chunk_len bufsz len pos; c = take (unat n) (drop (unat pos) data) in
      if pos + n = len \<and> data ! (unat len - 1) = 13 then c @ [10] else c)"

definition filled_buf :: "nat \<Rightarrow> u8 list \<Rightarrow> ubuf" where
  "filled_buf bufsz c = \<lparr>ub_data = c @ replicate (bufsz - length c) 0, ub_len = of_nat (length c)\<rparr>"

text \<open>
  \<open>bt_receive_cb\<close> runs in a thread of the Bluetooth stack and the completions of the UART in an interrupt,
  so the callback is a sequence of steps between which completions can fall: the head of the loop with the
  allocation, the call of \<open>uart_tx\<close>, and the \<open>k_fifo_put\<close> of a buffer that was refused. The position
  is the one after \<open>pos += tx->len\<close>.
\<close>

datatype rx_pc =
    CbIdle
  | CbNext "u8 list" u16
  | CbTx "u8 list" u16 addr
  | CbPut "u8 list" u16 addr

fun bt_receive_cb :: "'d bridge_env \<Rightarrow> rx_pc \<Rightarrow> 'd bridge \<Rightarrow> (rx_pc \<times> 'd bridge) option" where
  "bt_receive_cb e CbIdle s = Some (CbIdle, s)"
| "bt_receive_cb e (CbNext data pos) s =
     (let len = of_nat (length data) in
      if pos = len then Some (CbIdle, s)
      else
        (let b = k_malloc e (b_heap s) in
         if b = 0 then Some (CbIdle, s\<lparr>b_nomem := True\<rparr>)
         else Some (CbTx data (pos + chunk_len (UART_BUF_SIZE e) len pos) b,
                s\<lparr>b_heap := (b_heap s)(b \<mapsto> filled_buf (UART_BUF_SIZE e) (chunk_at (UART_BUF_SIZE e) data len pos))\<rparr>)))"
| "bt_receive_cb e (CbTx data pos b) s =
     (case b_heap s b of
        None \<Rightarrow> None
      | Some u \<Rightarrow>
          (let (err, s1) = do_uart_tx e b u 0 (ucast (ub_len u)) s in
           Some (if err \<noteq> 0 then CbPut data pos b else CbNext data pos, s1)))"
| "bt_receive_cb e (CbPut data pos b) s = Some (CbNext data pos, s\<lparr>b_fifo_tx := b_fifo_tx s @ [b]\<rparr>)"

section \<open>From the UART to the peer\<close>

text \<open>One turn of \<open>ble_write_thread\<close>; with an empty FIFO the thread waits.\<close>

definition ble_write_step :: "'d bridge \<Rightarrow> 'd bridge option" where
  "ble_write_step s =
     (case b_fifo_rx s of
        [] \<Rightarrow> Some s
      | b # q \<Rightarrow>
          (case b_heap s b of
             None \<Rightarrow> None
           | Some u \<Rightarrow> k_free b (bcall (NusSend (contents u)) (s\<lparr>b_fifo_rx := q\<rparr>))))"

section \<open>Connections and pairing\<close>

definition bt_conn_ref :: "ptr \<Rightarrow> 'd bridge \<Rightarrow> 'd bridge" where
  "bt_conn_ref c s = s\<lparr>conn_refs := (conn_refs s)(c := conn_refs s c + 1)\<rparr>"

definition bt_conn_unref :: "ptr \<Rightarrow> 'd bridge \<Rightarrow> 'd bridge option" where
  "bt_conn_unref c s = (if c = 0 then None else Some (s\<lparr>conn_refs := (conn_refs s)(c := conn_refs s c - 1)\<rparr>))"

definition DK_LED1 :: nat where "DK_LED1 = 0"
definition CON_STATUS_LED :: nat where "CON_STATUS_LED = 1"
definition KEY_PASSKEY_ACCEPT :: u32 where "KEY_PASSKEY_ACCEPT = 1"
definition KEY_PASSKEY_REJECT :: u32 where "KEY_PASSKEY_REJECT = 2"

definition nus_connected :: "ptr \<Rightarrow> u8 \<Rightarrow> 'd bridge \<Rightarrow> 'd bridge" where
  "nus_connected conn err s =
     (if err \<noteq> 0 then s
      else bcall (LedOn CON_STATUS_LED) (bt_conn_ref conn (s\<lparr>current_conn := conn\<rparr>)))"

definition nus_disconnected :: "'d bridge \<Rightarrow> 'd bridge option" where
  "nus_disconnected s =
     Option.bind
       (if auth_conn s \<noteq> 0
        then map_option (\<lambda>s1. s1\<lparr>auth_conn := 0\<rparr>) (bt_conn_unref (auth_conn s) s) else Some s)
       (\<lambda>s1. if current_conn s1 \<noteq> 0
             then map_option (\<lambda>s2. bcall (LedOff CON_STATUS_LED) (s2\<lparr>current_conn := 0\<rparr>))
                    (bt_conn_unref (current_conn s1) s1)
             else Some s1)"

definition auth_passkey_confirm :: "ptr \<Rightarrow> 'd bridge \<Rightarrow> 'd bridge" where
  "auth_passkey_confirm conn s = bt_conn_ref conn (s\<lparr>auth_conn := conn\<rparr>)"

definition pairing_confirm :: "ptr \<Rightarrow> 'd bridge \<Rightarrow> 'd bridge" where
  "pairing_confirm conn s = bcall (AuthPairingConfirm conn) s"

text \<open>
  The stack dereferences the connection it is told to confirm, cancel or release, so a null one
  is undefined behaviour.
\<close>

definition num_comp_reply :: "bool \<Rightarrow> 'd bridge \<Rightarrow> 'd bridge option" where
  "num_comp_reply accept s =
     (if auth_conn s = 0 then None
      else map_option (\<lambda>s1. s1\<lparr>auth_conn := 0\<rparr>)
             (bt_conn_unref (auth_conn s)
                (bcall (if accept then AuthPasskeyConfirm (auth_conn s) else AuthCancel (auth_conn s)) s)))"

definition button_changed :: "u32 \<Rightarrow> u32 \<Rightarrow> 'd bridge \<Rightarrow> 'd bridge option" where
  "button_changed button_state has_changed s =
     (let buttons = and button_state has_changed in
      if auth_conn s \<noteq> 0
      then Option.bind
             (if and buttons KEY_PASSKEY_ACCEPT \<noteq> 0 then num_comp_reply True s else Some s)
             (\<lambda>s1. if and buttons KEY_PASSKEY_REJECT \<noteq> 0 then num_comp_reply False s1 else Some s1)
      else Some s)"

section \<open>Start-up\<close>

text \<open>The build options and what the calls of the start-up return.\<close>

record init_env =
  cfg_usb :: bool
  cfg_adapter :: bool
  cfg_line_ctrl :: bool
  cfg_security :: bool
  cfg_settings :: bool
  uart_bound :: bool
  has_async_api :: bool
  usb_enable_ret :: int
  callback_set_ret :: int
  dtr_reads :: "nat \<Rightarrow> bool"
  rx_enable_ret :: int
  bt_enable_ret :: int
  nus_init_ret :: int
  adv_start_ret :: int

text \<open>The wait for DTR: how often the line is read is the argument of \<open>dtr_reads\<close>.\<close>

partial_function (option) wait_for_dtr :: "(nat \<Rightarrow> bool) \<Rightarrow> nat \<Rightarrow> 'd bridge \<Rightarrow> 'd bridge option" where
  "wait_for_dtr dtr n s =
     (let s1 = bcall LineCtrlGetDtr s in
      if dtr n then Some s1 else wait_for_dtr dtr (n + 1) (bcall (Sleep 100) s1))"

definition welcome_msg :: string where
  "welcome_msg = ''Starting Nordic UART service example'' @ [CHR 0x0D, CHR 0x0A]"

definition uart_init :: "'d bridge_env \<Rightarrow> init_env \<Rightarrow> 'd bridge \<Rightarrow> (int \<times> 'd bridge) option" where
  "uart_init e i s =
     (if \<not> uart_bound i then Some (- ENXIO, s)
      else
        (let s1 = (if cfg_usb i then bcall UsbEnable s else s) in
         if cfg_usb i \<and> usb_enable_ret i \<noteq> 0 then Some (usb_enable_ret i, s1)
         else
           (let rx = k_malloc e (b_heap s1) in
            if rx = 0 then Some (- ENOMEM, s1)
            else
              (let s2 = s1\<lparr>b_heap := (b_heap s1)(rx \<mapsto> new_buf (UART_BUF_SIZE e))\<rparr>;
                   s3 = (if cfg_adapter i \<and> \<not> has_async_api i then bcall UartAdapterInit s2 else s2);
                   s4 = bcall UartCallbackSet s3
               in if callback_set_ret i \<noteq> 0 then Some (callback_set_ret i, s4)
                  else Option.bind
                    (if cfg_line_ctrl i
                     then map_option (\<lambda>s5. bcall (LineCtrlSet ''DSR'') (bcall (LineCtrlSet ''DCD'') s5))
                            (wait_for_dtr (dtr_reads i) 0 s4)
                     else Some s4)
                    (\<lambda>s5. let tx = k_malloc e (b_heap s5) in
                       if tx = 0 then Some (- ENOMEM, s5)
                       else if UART_BUF_SIZE e \<le> length welcome_msg
                       then Some (- ENOMEM, s5)
                       else
                         (let u = filled_buf (UART_BUF_SIZE e) (bytes_of welcome_msg);
                              (err, s6) = do_uart_tx e tx u 0 (ucast (ub_len u))
                                            (s5\<lparr>b_heap := (b_heap s5)(tx \<mapsto> u)\<rparr>)
                          in if err \<noteq> 0 then Some (err, s6)
                             else Some (rx_enable_ret i,
                                    bcall (UartRxEnable (data_of rx) (of_nat (UART_BUF_SIZE e)) 50) s6)))))))"

definition configure_gpio :: "init_env \<Rightarrow> 'd bridge \<Rightarrow> 'd bridge" where
  "configure_gpio i s = bcall LedsInit (if cfg_security i then bcall ButtonsInit s else s)"

text \<open>How \<open>main\<close> ends up: blinking for ever, spinning in \<open>error()\<close>, or returned.\<close>

datatype main_end = Blinking | Spinning | Returned

definition nus_main :: "'d bridge_env \<Rightarrow> init_env \<Rightarrow> 'd bridge \<Rightarrow> (main_end \<times> 'd bridge) option" where
  "nus_main e i s =
     Option.bind (uart_init e i (configure_gpio i s)) (\<lambda>(err, s1).
       if err \<noteq> 0 then Some (Spinning, bcall AllLeds s1)
       else
         (let s2 = bcall ConnCbRegister s1;
              s3 = bcall BtEnable (if cfg_security i then bcall AuthCbRegister s2 else s2)
          in if bt_enable_ret i \<noteq> 0 then Some (Spinning, bcall AllLeds s3)
             else
               (let s4 = bcall SemGive s3;
                    s5 = bcall NusInit (if cfg_settings i then bcall SettingsLoad s4 else s4)
                in if nus_init_ret i \<noteq> 0 then Some (Returned, s5)
                   else if adv_start_ret i \<noteq> 0 then Some (Returned, bcall AdvStart s5)
                   else Some (Blinking, bcall AdvStart s5))))"

definition nus_blink :: "u32 \<Rightarrow> 'd bridge \<Rightarrow> u32 \<times> 'd bridge" where
  "nus_blink blink_status s =
     (let b = blink_status + 1 in (b, bcall (Sleep 1000) (bcall (LedSet DK_LED1 (odd (unat b))) s)))"

section \<open>The chunks of a message\<close>

function nus_chunks :: "nat \<Rightarrow> u8 list \<Rightarrow> u8 list list" where
  "nus_chunks n data =
     (if data = [] \<or> n < 2 then []
      else if length data \<le> n - 1 then [data @ (if last data = 13 then [10] else [])]
      else take (n - 1) data # nus_chunks n (drop (n - 1) data))"
  by auto
termination by (relation "measure (\<lambda>(n, data). length data)") auto

declare nus_chunks.simps [simp del]

lemma nus_chunks_Nil [simp]: "nus_chunks n [] = []"
  by (simp add: nus_chunks.simps)

lemma nus_chunks_last:
  "data \<noteq> [] \<Longrightarrow> 2 \<le> n \<Longrightarrow> length data \<le> n - 1 \<Longrightarrow>
     nus_chunks n data = [data @ (if last data = 13 then [10] else [])]"
  by (subst nus_chunks.simps) simp

lemma nus_chunks_more:
  "2 \<le> n \<Longrightarrow> n - 1 < length data \<Longrightarrow> nus_chunks n data = take (n - 1) data # nus_chunks n (drop (n - 1) data)"
  by (subst nus_chunks.simps) auto

lemma concat_nus_chunks:
  assumes "2 \<le> n"
  shows "data \<noteq> [] \<Longrightarrow> concat (nus_chunks n data) = data @ (if last data = 13 then [10] else [])"
proof (induction "length data" arbitrary: data rule: less_induct)
  case less
  show ?case
  proof (cases "length data \<le> n - 1")
    case True
    then show ?thesis using nus_chunks_last [OF less.prems assms] by simp
  next
    case False
    let ?d = "drop (n - 1) data"
    have "length ?d < length data" "?d \<noteq> []" using False assms less.prems by auto
    from less.hyps [OF this] have ih: "concat (nus_chunks n ?d) = ?d @ (if last ?d = 13 then [10] else [])" .
    have "last ?d = last data" using False by simp
    moreover have "nus_chunks n data = take (n - 1) data # nus_chunks n ?d"
      using False assms by (intro nus_chunks_more) auto
    ultimately show ?thesis using ih append_take_drop_id [of "n - 1" data] by (simp del: append_take_drop_id)
  qed
qed

lemma nus_chunks_bound:
  assumes "2 \<le> n"
  shows "c \<in> set (nus_chunks n data) \<Longrightarrow> c \<noteq> [] \<and> length c \<le> n"
proof (induction "length data" arbitrary: data rule: less_induct)
  case less
  show ?case
  proof (cases "data = [] \<or> length data \<le> n - 1")
    case True
    then show ?thesis using nus_chunks_last [of data n] less.prems assms
      by (cases "data = []") (auto split: if_splits)
  next
    case False
    have e: "nus_chunks n data = take (n - 1) data # nus_chunks n (drop (n - 1) data)"
      using False assms by (intro nus_chunks_more) auto
    have "length (drop (n - 1) data) < length data" using False assms by auto
    note ih = less.hyps [OF this]
    have "c = take (n - 1) data \<or> c \<in> set (nus_chunks n (drop (n - 1) data))"
      using less.prems unfolding e by simp
    moreover have "take (n - 1) data \<noteq> [] \<and> length (take (n - 1) data) \<le> n" using False assms by simp
    ultimately show ?thesis using ih by metis
  qed
qed

definition bridge_env_ok :: "'d bridge_env \<Rightarrow> bool" where
  "bridge_env_ok e \<longleftrightarrow> 2 \<le> UART_BUF_SIZE e \<and> UART_BUF_SIZE e < 65536
     \<and> (\<forall>h. k_malloc e h \<noteq> 0 \<longrightarrow> h (k_malloc e h) = None \<and> data_of (k_malloc e h) \<noteq> 0)"

text \<open>
  What always holds of the buffers on the way to the UART. With an idle UART the FIFO may still hold buffers:
  that is the race below.
\<close>

definition tx_ok :: "('d \<Rightarrow> (addr \<times> u32) option) \<Rightarrow> 'd bridge \<Rightarrow> bool" where
  "tx_ok outstanding s \<longleftrightarrow> cb_aborted_buf s = 0 \<and> distinct (b_fifo_tx s)
     \<and> (\<forall>b\<in>set (b_fifo_tx s). data_of b \<noteq> 0 \<and> (\<exists>u. b_heap s b = Some u \<and> ub_len u \<noteq> 0))
     \<and> (case outstanding (b_dev s) of None \<Rightarrow> True
        | Some (p, n) \<Rightarrow> p \<noteq> 0 \<and> n \<noteq> 0 \<and> b_heap s (CONTAINER_OF p) \<noteq> None \<and> CONTAINER_OF p \<notin> set (b_fifo_tx s))"

definition tx_inv :: "('d \<Rightarrow> (addr \<times> u32) option) \<Rightarrow> 'd bridge \<Rightarrow> bool" where
  "tx_inv outstanding s \<longleftrightarrow> tx_ok outstanding s \<and> (outstanding (b_dev s) = None \<longrightarrow> b_fifo_tx s = [])"

text \<open>A buffer the callback holds: allocated, neither queued nor with the UART.\<close>

definition held :: "('d \<Rightarrow> (addr \<times> u32) option) \<Rightarrow> addr \<Rightarrow> u8 list \<Rightarrow> 'd bridge \<Rightarrow> bool" where
  "held outstanding b c s \<longleftrightarrow> data_of b \<noteq> 0 \<and> b \<notin> set (b_fifo_tx s)
     \<and> (\<exists>u. b_heap s b = Some u \<and> ub_len u \<noteq> 0 \<and> contents u = c)
     \<and> (\<forall>p n. outstanding (b_dev s) = Some (p, n) \<longrightarrow> CONTAINER_OF p \<noteq> b)"

definition tx_stream :: "'d bridge \<Rightarrow> u8 list list" where
  "tx_stream s = b_sent s @ map (\<lambda>b. contents (the (b_heap s b))) (b_fifo_tx s)"

text \<open>
  The run: messages arrive and wait for the stack's thread, which calls the callback for one after the other;
  a completion can fall between any two steps of the callback. \<open>bb_taken\<close> holds the messages the callback was
  called for, and \<open>bb_raced\<close> records that a completion fell between a refused \<open>uart_tx\<close> and its
  \<open>k_fifo_put\<close>.
\<close>

record 'd bridge_run =
  bb_pc :: rx_pc
  bb_pending :: "u8 list list"
  bb_taken :: "u8 list list"
  bb_raced :: bool
  bb_bridge :: "'d bridge"

fun before_put :: "rx_pc \<Rightarrow> bool" where
  "before_put (CbPut _ _ _) = True"
| "before_put _ = False"

datatype tx_event = Received "u8 list" | CallbackMoves | UartFinished

definition tx_step :: "'d bridge_env \<Rightarrow> ('d \<Rightarrow> (addr \<times> u32) option) \<Rightarrow> ('d \<Rightarrow> 'd) \<Rightarrow> tx_event
    \<Rightarrow> 'd bridge_run \<Rightarrow> 'd bridge_run option" where
  "tx_step e outstanding finish ev x = (case ev of
     Received data \<Rightarrow> Some (x\<lparr>bb_pending := bb_pending x @ [data]\<rparr>)
   | CallbackMoves \<Rightarrow>
       (case (bb_pc x, bb_pending x) of
          (CbIdle, []) \<Rightarrow> Some x
        | (CbIdle, m # ms) \<Rightarrow> Some (x\<lparr>bb_pc := CbNext m 0, bb_pending := ms, bb_taken := bb_taken x @ [m]\<rparr>)
        | (pc, _) \<Rightarrow> map_option (\<lambda>(pc', s'). x\<lparr>bb_pc := pc', bb_bridge := s'\<rparr>) (bt_receive_cb e pc (bb_bridge x)))
   | UartFinished \<Rightarrow>
       (case outstanding (b_dev (bb_bridge x)) of
          None \<Rightarrow> Some x
        | Some (p, n) \<Rightarrow>
            map_option (\<lambda>s'. x\<lparr>bb_bridge := s', bb_raced := bb_raced x \<or> before_put (bb_pc x)\<rparr>)
              (uart_cb e (UART_TX_DONE p n) ((bb_bridge x)\<lparr>b_dev := finish (b_dev (bb_bridge x))\<rparr>))))"

definition bridge_idle :: "'d bridge \<Rightarrow> 'd bridge_run" where
  "bridge_idle s = \<lparr>bb_pc = CbIdle, bb_pending = [], bb_taken = [], bb_raced = False, bb_bridge = s\<rparr>"

fun received :: "tx_event \<Rightarrow> u8 list list" where
  "received (Received data) = [data]"
| "received CallbackMoves = []"
| "received UartFinished = []"

lemma chunk_len_bound:
  assumes "pos \<le> len" "2 \<le> n" "n < 65536"
  shows "unat (chunk_len n len pos) = min (n - 1) (unat len - unat pos)"
    and "unat pos + unat (chunk_len n len pos) \<le> unat len"
    and "unat (pos + chunk_len n len pos) = unat pos + unat (chunk_len n len pos)"
    and "pos \<noteq> len \<Longrightarrow> 0 < unat (chunk_len n len pos)"
proof -
  have le: "unat pos \<le> unat len" using assms(1) by (simp add: word_le_nat_alt)
  have d: "unat (len - pos) = unat len - unat pos" using assms(1) by (simp add: unat_minus_le)
  show c: "unat (chunk_len n len pos) = min (n - 1) (unat len - unat pos)"
    using assms(2,3) unat_of_nat_u16 [of "n - 1"] by (simp add: chunk_len_def Let_def d del: of_nat_diff)
  then show le2: "unat pos + unat (chunk_len n len pos) \<le> unat len" using le by simp
  show "unat (pos + chunk_len n len pos) = unat pos + unat (chunk_len n len pos)"
    using le2 unat_u16_less [of len] by (intro unat_plus_nowrap) simp
  show "0 < unat (chunk_len n len pos)" if "pos \<noteq> len"
    using that le c assms(2) word_unat_eq_iff [of pos len] by simp
qed

lemma chunk_at_chunks:
  assumes "pos \<le> len" "2 \<le> n" "n < 65536" "unat len = length data" "pos \<noteq> len"
  shows "nus_chunks n (drop (unat pos) data)
    = chunk_at n data len pos # nus_chunks n (drop (unat (pos + chunk_len n len pos)) data)"
proof -
  note c = chunk_len_bound [OF assms(1-3)]
  let ?d = "drop (unat pos) data" and ?k = "unat (chunk_len n len pos)"
  have lt: "unat pos < length data" using c(2) c(4) [OF assms(5)] assms(4) by simp
  have eq: "pos + chunk_len n len pos = len \<longleftrightarrow> unat pos + ?k = length data"
    using c(3) assms(4) by (simp add: word_unat_eq_iff)
  have dd: "drop (unat (pos + chunk_len n len pos)) data = drop ?k ?d" by (simp add: c(3) add.commute)
  have la: "last ?d = data ! (unat len - 1)" using lt assms(4) by (simp add: last_conv_nth)
  show ?thesis
  proof (cases "length ?d \<le> n - 1")
    case True
    then have k: "?k = length ?d" using c(1) assms(4) by simp
    have "nus_chunks n ?d = [?d @ (if last ?d = 13 then [10] else [])]"
      using True lt assms(2) by (intro nus_chunks_last) auto
    moreover have "chunk_at n data len pos = ?d @ (if last ?d = 13 then [10] else [])"
      using k lt by (simp add: chunk_at_def Let_def eq la)
    ultimately show ?thesis using k by (simp add: dd)
  next
    case False
    then have k: "?k = n - 1" using c(1) assms(4) by simp
    have "nus_chunks n ?d = take (n - 1) ?d # nus_chunks n (drop (n - 1) ?d)"
      using False assms(2) by (intro nus_chunks_more) auto
    moreover have "chunk_at n data len pos = take (n - 1) ?d"
    proof -
      have "unat pos + ?k \<noteq> length data" using False k by auto
      then show ?thesis using k by (simp add: chunk_at_def Let_def eq)
    qed
    ultimately show ?thesis using k by (simp add: dd)
  qed
qed

lemma filled_buf_contents:
  "length c \<le> n \<Longrightarrow> n < 65536 \<Longrightarrow> contents (filled_buf n c) = c \<and> unat (ub_len (filled_buf n c)) = length c"
  by (simp add: filled_buf_def contents_def unat_of_nat_u16)

section \<open>The interface of a UART that sends one buffer at a time\<close>

locale uart_sender =
  fixes send :: "addr \<Rightarrow> u32 \<Rightarrow> 'd \<Rightarrow> int \<times> 'd"
    and outstanding :: "'d \<Rightarrow> (addr \<times> u32) option"
    and finish :: "'d \<Rightarrow> 'd"
  assumes send_idle: "outstanding d = None \<Longrightarrow> p \<noteq> 0 \<Longrightarrow> n \<noteq> 0 \<Longrightarrow>
      fst (send p n d) = 0 \<and> outstanding (snd (send p n d)) = Some (p, n)"
    and send_busy: "outstanding d = Some x \<Longrightarrow> n \<noteq> 0 \<Longrightarrow> fst (send p n d) \<noteq> 0 \<and> snd (send p n d) = d"
    and finish_idle: "outstanding (finish d) = None"
begin

lemma do_tx_idle:
  assumes "uart_tx e = send" "outstanding (b_dev s) = None" "data_of b \<noteq> 0" "ub_len u \<noteq> 0"
  shows "fst (do_uart_tx e b u 0 (ucast (ub_len u)) s) = 0"
    and "\<exists>d. outstanding d = Some (data_of b, ucast (ub_len u)) \<and>
       snd (do_uart_tx e b u 0 (ucast (ub_len u)) s) = s\<lparr>b_dev := d, b_sent := b_sent s @ [contents u]\<rparr>"
  using send_idle [of "b_dev s" "data_of b" "ucast (ub_len u)"] assms
  by (auto simp: do_uart_tx_def Let_def contents_def ucast_u16_0 split: prod.splits)

lemma do_tx_busy:
  assumes "uart_tx e = send" "outstanding (b_dev s) = Some x" "ub_len u \<noteq> 0"
  shows "fst (do_uart_tx e b u 0 (ucast (ub_len u)) s) \<noteq> 0 \<and> snd (do_uart_tx e b u 0 (ucast (ub_len u)) s) = s"
  using send_busy [of "b_dev s" x "ucast (ub_len u)" "data_of b"] assms
  by (auto simp: do_uart_tx_def Let_def ucast_u16_0 split: prod.splits)

lemma tx_done_step:
  assumes e: "uart_tx e = send" and i: "tx_ok outstanding s" and o: "outstanding (b_dev s) = Some (p, n)"
  shows "\<exists>s'. on_tx_done e p n (s\<lparr>b_dev := finish (b_dev s)\<rparr>) = Some s' \<and> tx_inv outstanding s'
     \<and> tx_stream s' = tx_stream s \<and> b_nomem s' = b_nomem s \<and> (\<forall>b c. held outstanding b c s \<longrightarrow> held outstanding b c s')"
proof -
  let ?b = "CONTAINER_OF p"
  define s2 where "s2 = s\<lparr>b_dev := finish (b_dev s), b_heap := (b_heap s)(?b := None)\<rparr>"
  have pb: "p \<noteq> 0" "n \<noteq> 0" "b_heap s ?b \<noteq> None" "?b \<notin> set (b_fifo_tx s)" and a0: "cb_aborted_buf s = 0"
    using i o by (simp_all add: tx_ok_def)
  have st: "tx_stream s2 = tx_stream s" using pb(4) by (auto simp: tx_stream_def s2_def)
  show ?thesis
  proof (cases "b_fifo_tx s")
    case Nil
    then have "on_tx_done e p n (s\<lparr>b_dev := finish (b_dev s)\<rparr>) = Some s2"
      using pb a0 by (auto simp: on_tx_done_def k_free_def s2_def)
    moreover have "tx_inv outstanding s2" using Nil i finish_idle by (simp add: tx_inv_def tx_ok_def s2_def)
    moreover have "\<forall>b c. held outstanding b c s \<longrightarrow> held outstanding b c s2"
      using o by (auto simp: held_def s2_def finish_idle)
    ultimately show ?thesis using st by (simp add: s2_def)
  next
    case (Cons b' q)
    have b': "data_of b' \<noteq> 0" "b' \<noteq> ?b" using i Cons pb by (auto simp: tx_ok_def)
    obtain u where u: "b_heap s b' = Some u" "ub_len u \<noteq> 0" using i Cons by (auto simp: tx_ok_def)
    let ?s3 = "s2\<lparr>b_fifo_tx := q\<rparr>"
    have "outstanding (b_dev ?s3) = None" by (simp add: s2_def finish_idle)
    from do_tx_idle(2) [OF e this b'(1) u(2)] obtain d where
      d: "outstanding d = Some (data_of b', ucast (ub_len u))"
        "snd (do_uart_tx e b' u 0 (ucast (ub_len u)) ?s3) = ?s3\<lparr>b_dev := d, b_sent := b_sent ?s3 @ [contents u]\<rparr>"
      by blast
    define s4 where "s4 = ?s3\<lparr>b_dev := d, b_sent := b_sent ?s3 @ [contents u]\<rparr>"
    have "on_tx_done e p n (s\<lparr>b_dev := finish (b_dev s)\<rparr>) = Some s4"
      using pb a0 Cons u b' d(2)
      by (auto simp: on_tx_done_def k_free_def s4_def s2_def)
    moreover have "tx_inv outstanding s4"
      using i Cons u b' d(1) pb by (auto simp: tx_inv_def tx_ok_def s4_def s2_def ucast_u16_0)
    moreover have "tx_stream s4 = tx_stream s"
      using Cons u b' i pb by (auto simp: tx_stream_def s4_def s2_def tx_ok_def)
    moreover have "\<forall>b c. held outstanding b c s \<longrightarrow> held outstanding b c s4"
      using o Cons d(1) by (auto simp: held_def s4_def s2_def)
    ultimately show ?thesis by (auto simp add: s4_def s2_def)
  qed
qed

end

lemma chunk_at_len:
  assumes "pos \<le> len" "pos \<noteq> len" "2 \<le> n" "n < 65536" "unat len = length data"
  shows "chunk_at n data len pos \<noteq> [] \<and> length (chunk_at n data len pos) \<le> n"
proof -
  have "chunk_at n data len pos \<in> set (nus_chunks n (drop (unat pos) data))"
    using chunk_at_chunks [OF assms(1,3,4,5,2)] by simp
  then show ?thesis by (rule nus_chunks_bound [OF assms(3)])
qed

context uart_sender
begin

lemma tx_alloc:
  assumes "bridge_env_ok e" "tx_ok outstanding s" "c \<noteq> []" "length c \<le> UART_BUF_SIZE e"
    and b: "k_malloc e (b_heap s) = b" "b \<noteq> 0"
  defines "s1 \<equiv> s\<lparr>b_heap := (b_heap s)(b \<mapsto> filled_buf (UART_BUF_SIZE e) c)\<rparr>"
  shows "tx_ok outstanding s1 \<and> tx_stream s1 = tx_stream s \<and> held outstanding b c s1
    \<and> (tx_inv outstanding s \<longrightarrow> tx_inv outstanding s1)"
proof -
  have fresh: "b_heap s b = None" "data_of b \<noteq> 0" using assms(1) b by (auto simp: bridge_env_ok_def)
  have u: "contents (filled_buf (UART_BUF_SIZE e) c) = c" "ub_len (filled_buf (UART_BUF_SIZE e) c) \<noteq> 0"
    using filled_buf_contents [OF assms(4)] assms(1,3) by (auto simp: bridge_env_ok_def)
  have nb: "b \<notin> set (b_fifo_tx s)" using assms(2) fresh(1) by (auto simp: tx_ok_def)
  have "tx_stream s1 = tx_stream s" using nb by (auto simp: tx_stream_def s1_def)
  moreover have ok: "tx_ok outstanding s1"
    using assms(2) nb fresh u(2) by (auto simp: tx_ok_def s1_def split: option.splits)
  moreover have "held outstanding b c s1"
    using assms(2) nb fresh u by (auto simp: held_def tx_ok_def s1_def split: option.splits)
  moreover have "tx_inv outstanding s1" if "tx_inv outstanding s"
    using that ok by (simp add: tx_inv_def s1_def)
  ultimately show ?thesis by blast
qed

lemma tx_try:
  assumes e: "uart_tx e = send" and i: "tx_ok outstanding s" and h: "held outstanding b c s"
  obtains u where "b_heap s b = Some u" "contents u = c" "ub_len u \<noteq> 0"
    and "outstanding (b_dev s) = None \<Longrightarrow>
      \<exists>s'. do_uart_tx e b u 0 (ucast (ub_len u)) s = (0, s') \<and> tx_ok outstanding s' \<and> tx_inv outstanding s'
        \<and> mset (tx_stream s') = mset (tx_stream s @ [c]) \<and> b_nomem s' = b_nomem s
        \<and> (tx_inv outstanding s \<longrightarrow> tx_stream s' = tx_stream s @ [c])"
    and "outstanding (b_dev s) \<noteq> None \<Longrightarrow>
      \<exists>err. do_uart_tx e b u 0 (ucast (ub_len u)) s = (err, s) \<and> err \<noteq> 0"
proof -
  obtain u where u: "b_heap s b = Some u" "ub_len u \<noteq> 0" "contents u = c" and b: "data_of b \<noteq> 0" "b \<notin> set (b_fifo_tx s)"
    using h by (auto simp: held_def)
  show thesis
  proof (rule that [of u])
    assume o: "outstanding (b_dev s) = None"
    note t = do_tx_idle [OF e o b(1) u(2)]
    from t(2) obtain d where d: "outstanding d = Some (data_of b, ucast (ub_len u))"
      "snd (do_uart_tx e b u 0 (ucast (ub_len u)) s) = s\<lparr>b_dev := d, b_sent := b_sent s @ [contents u]\<rparr>" by blast
    let ?s = "s\<lparr>b_dev := d, b_sent := b_sent s @ [contents u]\<rparr>"
    have ok: "tx_ok outstanding ?s" using i d(1) u b by (auto simp: tx_ok_def ucast_u16_0)
    moreover have "tx_inv outstanding ?s" using ok d(1) by (simp add: tx_inv_def)
    moreover have "mset (tx_stream ?s) = mset (tx_stream s @ [c])" using u(3) by (simp add: tx_stream_def)
    moreover have "tx_stream ?s = tx_stream s @ [c]" if "tx_inv outstanding s"
      using that o u(3) by (simp add: tx_inv_def tx_stream_def)
    ultimately show "\<exists>s'. do_uart_tx e b u 0 (ucast (ub_len u)) s = (0, s') \<and> tx_ok outstanding s' \<and> tx_inv outstanding s'
        \<and> mset (tx_stream s') = mset (tx_stream s @ [c]) \<and> b_nomem s' = b_nomem s
        \<and> (tx_inv outstanding s \<longrightarrow> tx_stream s' = tx_stream s @ [c])"
      using t(1) d(2) by (intro exI [of _ ?s]) (auto simp: prod_eq_iff)
  next
    assume "outstanding (b_dev s) \<noteq> None"
    then obtain x where "outstanding (b_dev s) = Some x" by blast
    from do_tx_busy [OF e this u(2), of b] show "\<exists>err. do_uart_tx e b u 0 (ucast (ub_len u)) s = (err, s) \<and> err \<noteq> 0"
      by (metis prod.collapse)
  qed (use u in auto)
qed

lemma tx_put:
  assumes "tx_ok outstanding s" "held outstanding b c s"
  defines "s1 \<equiv> s\<lparr>b_fifo_tx := b_fifo_tx s @ [b]\<rparr>"
  shows "tx_ok outstanding s1 \<and> tx_stream s1 = tx_stream s @ [c] \<and> b_nomem s1 = b_nomem s
    \<and> (outstanding (b_dev s) \<noteq> None \<longrightarrow> tx_inv outstanding s1)"
  using assms by (auto simp: tx_ok_def tx_inv_def held_def tx_stream_def split: option.splits)

end

section \<open>What a run keeps\<close>

text \<open>
  \<open>cb_message\<close> is the message the callback works on, \<open>cb_rest\<close> the chunks of it that neither the UART nor the
  FIFO has, and \<open>chunked\<close> says that every message has been cut into its chunks, up to the first allocation
  that failed.
\<close>

fun cb_message :: "rx_pc \<Rightarrow> u8 list" where
  "cb_message CbIdle = []"
| "cb_message (CbNext m pos) = m"
| "cb_message (CbTx m pos b) = m"
| "cb_message (CbPut m pos b) = m"

fun cb_rest :: "nat \<Rightarrow> rx_pc \<Rightarrow> 'd bridge \<Rightarrow> u8 list list" where
  "cb_rest n CbIdle s = []"
| "cb_rest n (CbNext m pos) s = nus_chunks n (drop (unat pos) m)"
| "cb_rest n (CbTx m pos b) s = contents (the (b_heap s b)) # nus_chunks n (drop (unat pos) m)"
| "cb_rest n (CbPut m pos b) s = contents (the (b_heap s b)) # nus_chunks n (drop (unat pos) m)"

fun cb_ok :: "('d \<Rightarrow> (addr \<times> u32) option) \<Rightarrow> rx_pc \<Rightarrow> 'd bridge \<Rightarrow> bool" where
  "cb_ok outstanding CbIdle s = True"
| "cb_ok outstanding (CbNext m pos) s = (pos \<le> of_nat (length m))"
| "cb_ok outstanding (CbTx m pos b) s = (pos \<le> of_nat (length m) \<and> held outstanding b (contents (the (b_heap s b))) s)"
| "cb_ok outstanding (CbPut m pos b) s = (pos \<le> of_nat (length m) \<and> held outstanding b (contents (the (b_heap s b))) s)"

definition chunked :: "nat \<Rightarrow> bool \<Rightarrow> u8 list list list \<Rightarrow> u8 list list \<Rightarrow> bool" where
  "chunked n nomem ks ms \<longleftrightarrow> list_all2 (\<lambda>k m. prefix k (nus_chunks n m)) ks ms \<and> (\<not> nomem \<longrightarrow> ks = map (nus_chunks n) ms)"

definition sent_as :: "bool \<Rightarrow> 'd bridge \<Rightarrow> u8 list list \<Rightarrow> 'd bridge \<Rightarrow> bool" where
  "sent_as raced s0 cs s \<longleftrightarrow> mset (tx_stream s) = mset (tx_stream s0 @ cs) \<and> (\<not> raced \<longrightarrow> tx_stream s = tx_stream s0 @ cs)"

definition progress :: "nat \<Rightarrow> bool \<Rightarrow> 'd bridge \<Rightarrow> u8 list list \<Rightarrow> rx_pc \<Rightarrow> 'd bridge \<Rightarrow> bool" where
  "progress n raced s0 taken pc s \<longleftrightarrow>
     (\<exists>ks t k. chunked n (b_nomem s) ks t
        \<and> taken = t @ (if pc = CbIdle then [] else [cb_message pc])
        \<and> (pc = CbIdle \<longrightarrow> k = [])
        \<and> k @ cb_rest n pc s = nus_chunks n (cb_message pc)
        \<and> sent_as raced s0 (concat ks @ k) s)"

definition bridge_run_ok :: "'d bridge_env \<Rightarrow> ('d \<Rightarrow> (addr \<times> u32) option) \<Rightarrow> 'd bridge \<Rightarrow> 'd bridge_run \<Rightarrow> bool" where
  "bridge_run_ok e outstanding s0 x \<longleftrightarrow>
     tx_ok outstanding (bb_bridge x)
     \<and> (\<not> bb_raced x \<longrightarrow> tx_inv outstanding (bb_bridge x)
          \<and> (before_put (bb_pc x) \<longrightarrow> outstanding (b_dev (bb_bridge x)) \<noteq> None))
     \<and> cb_ok outstanding (bb_pc x) (bb_bridge x)
     \<and> (\<forall>m\<in>set (bb_taken x @ bb_pending x). length m < 65536)
     \<and> progress (UART_BUF_SIZE e) (bb_raced x) s0 (bb_taken x) (bb_pc x) (bb_bridge x)"

lemma chunked_snoc:
  "chunked n nomem ks t \<Longrightarrow> prefix k (nus_chunks n m) \<Longrightarrow> (\<not> nomem' \<longrightarrow> \<not> nomem \<and> k = nus_chunks n m) \<Longrightarrow>
     chunked n nomem' (ks @ [k]) (t @ [m])"
  by (auto simp: chunked_def intro: list_all2_appendI)

lemma sent_as_snoc:
  "sent_as raced s0 cs s \<Longrightarrow> mset (tx_stream s') = mset (tx_stream s @ [c]) \<Longrightarrow>
     (\<not> raced \<longrightarrow> tx_stream s' = tx_stream s @ [c]) \<Longrightarrow> sent_as raced s0 (cs @ [c]) s'"
  by (auto simp: sent_as_def)

context uart_sender
begin

lemma run_inv_callback:
  assumes e: "uart_tx e = send" and ok: "bridge_env_ok e" and i: "bridge_run_ok e outstanding s0 x" and pc: "bb_pc x \<noteq> CbIdle"
  shows "\<exists>pc' s'. bt_receive_cb e (bb_pc x) (bb_bridge x) = Some (pc', s')
    \<and> bridge_run_ok e outstanding s0 (x\<lparr>bb_pc := pc', bb_bridge := s'\<rparr>)"
proof -
  let ?n = "UART_BUF_SIZE e" and ?s = "bb_bridge x"
  have n: "2 \<le> ?n" "?n < 65536" using ok by (simp_all add: bridge_env_ok_def)
  from i pc obtain ks t k where
    tok: "tx_ok outstanding ?s" and nr: "\<not> bb_raced x \<Longrightarrow> tx_inv outstanding ?s"
      "\<not> bb_raced x \<Longrightarrow> before_put (bb_pc x) \<Longrightarrow> outstanding (b_dev ?s) \<noteq> None"
    and cb: "cb_ok outstanding (bb_pc x) ?s"
    and len: "\<forall>m\<in>set (bb_taken x @ bb_pending x). length m < 65536"
    and ch: "chunked ?n (b_nomem ?s) ks t" and tk: "bb_taken x = t @ [cb_message (bb_pc x)]"
    and k: "k @ cb_rest ?n (bb_pc x) ?s = nus_chunks ?n (cb_message (bb_pc x))"
    and sa: "sent_as (bb_raced x) s0 (concat ks @ k) ?s"
    unfolding bridge_run_ok_def progress_def by auto
  show ?thesis
  proof (cases "bb_pc x")
    case CbIdle
    with pc show ?thesis by simp
  next
    case (CbNext m pos)
    have ml: "unat (of_nat (length m) :: u16) = length m" using len tk CbNext by (intro unat_of_nat_u16) simp
    show ?thesis
    proof (cases "pos = of_nat (length m)")
      case True
      then have "k = nus_chunks ?n m" using k CbNext ml by simp
      moreover from this have "chunked ?n (b_nomem ?s) (ks @ [k]) (t @ [m])" using ch by (intro chunked_snoc) auto
      ultimately have "bridge_run_ok e outstanding s0 (x\<lparr>bb_pc := CbIdle, bb_bridge := ?s\<rparr>)"
        using tok nr len tk sa CbNext unfolding bridge_run_ok_def progress_def
        by (auto intro!: exI [of _ "ks @ [k]"] exI [of _ "t @ [m]"])
      then show ?thesis using True CbNext by simp
    next
      case ne: False
      define b where "b = k_malloc e (b_heap ?s)"
      show ?thesis
      proof (cases "b = 0")
        case True
        let ?s' = "?s\<lparr>b_nomem := True\<rparr>"
        have "prefix k (nus_chunks ?n m)" using k CbNext by (metis cb_message.simps(2) prefixI)
        then have "chunked ?n True (ks @ [k]) (t @ [m])"
          using ch by (intro chunked_snoc [of _ "b_nomem ?s"]) auto
        moreover have "tx_ok outstanding ?s'" "tx_inv outstanding ?s \<Longrightarrow> tx_inv outstanding ?s'"
          "sent_as (bb_raced x) s0 (concat ks @ k) ?s'"
          using tok sa by (auto simp: tx_ok_def tx_inv_def sent_as_def tx_stream_def split: option.splits)
        ultimately have "bridge_run_ok e outstanding s0 (x\<lparr>bb_pc := CbIdle, bb_bridge := ?s'\<rparr>)"
          using nr len tk CbNext unfolding bridge_run_ok_def progress_def
          by (auto intro!: exI [of _ "ks @ [k]"] exI [of _ "t @ [m]"])
        then show ?thesis using True ne CbNext by (simp add: b_def Let_def)
      next
        case False
        let ?c = "chunk_at ?n m (of_nat (length m)) pos" and ?p = "pos + chunk_len ?n (of_nat (length m)) pos"
        let ?s' = "?s\<lparr>b_heap := (b_heap ?s)(b \<mapsto> filled_buf ?n ?c)\<rparr>"
        have le: "pos \<le> of_nat (length m)" using cb CbNext by simp
        have c: "?c \<noteq> []" "length ?c \<le> ?n" using chunk_at_len [OF le ne n ml] by simp_all
        note a = tx_alloc [OF ok tok c b_def [symmetric] False]
        have ple: "?p \<le> of_nat (length m)" using chunk_len_bound(2,3) [OF le n] by (simp add: word_le_nat_alt)
        have hc: "contents (the (b_heap ?s' b)) = ?c" using a by (auto simp: held_def)
        have "k @ ?c # nus_chunks ?n (drop (unat ?p) m) = nus_chunks ?n m"
          using k CbNext chunk_at_chunks [OF le n ml ne] by simp
        moreover have "sent_as (bb_raced x) s0 (concat ks @ k) ?s'" using sa a by (simp add: sent_as_def)
        ultimately have "bridge_run_ok e outstanding s0 (x\<lparr>bb_pc := CbTx m ?p b, bb_bridge := ?s'\<rparr>)"
          using nr len tk CbNext a ple hc ch unfolding bridge_run_ok_def progress_def by auto
        then show ?thesis using False ne CbNext by (simp add: b_def Let_def)
      qed
    qed
  next
    case (CbTx m pos b)
    define c where "c = contents (the (b_heap ?s b))"
    have h: "held outstanding b c ?s" and le: "pos \<le> of_nat (length m)" using cb CbTx by (simp_all add: c_def)
    from k CbTx have k': "(k @ [c]) @ nus_chunks ?n (drop (unat pos) m) = nus_chunks ?n m" by (simp add: c_def)
    obtain u where u: "b_heap ?s b = Some u" "contents u = c" "ub_len u \<noteq> 0"
      and idle: "outstanding (b_dev ?s) = None \<Longrightarrow>
      \<exists>s'. do_uart_tx e b u 0 (ucast (ub_len u)) ?s = (0, s') \<and> tx_ok outstanding s' \<and> tx_inv outstanding s'
        \<and> mset (tx_stream s') = mset (tx_stream ?s @ [c]) \<and> b_nomem s' = b_nomem ?s
        \<and> (tx_inv outstanding ?s \<longrightarrow> tx_stream s' = tx_stream ?s @ [c])"
      and busy: "outstanding (b_dev ?s) \<noteq> None \<Longrightarrow>
      \<exists>err. do_uart_tx e b u 0 (ucast (ub_len u)) ?s = (err, ?s) \<and> err \<noteq> 0"
      using tx_try [OF e tok h] by blast
    show ?thesis
    proof (cases "outstanding (b_dev ?s) = None")
      case True
      from idle [OF this] obtain s' where s': "do_uart_tx e b u 0 (ucast (ub_len u)) ?s = (0, s')"
        "tx_ok outstanding s'" "tx_inv outstanding s'" "mset (tx_stream s') = mset (tx_stream ?s @ [c])"
        "b_nomem s' = b_nomem ?s" "tx_inv outstanding ?s \<longrightarrow> tx_stream s' = tx_stream ?s @ [c]" by blast
      have "sent_as (bb_raced x) s0 ((concat ks @ k) @ [c]) s'"
        using s' nr(1) by (intro sent_as_snoc [OF sa]) auto
      then have "bridge_run_ok e outstanding s0 (x\<lparr>bb_pc := CbNext m pos, bb_bridge := s'\<rparr>)"
        using s' k' CbTx len tk le ch unfolding bridge_run_ok_def progress_def
        by (auto intro!: exI [of _ ks] exI [of _ t] exI [of _ "k @ [c]"])
      then show ?thesis using s' u CbTx by simp
    next
      case False
      from busy [OF this] obtain err where err: "do_uart_tx e b u 0 (ucast (ub_len u)) ?s = (err, ?s)" "err \<noteq> 0" by blast
      have "bridge_run_ok e outstanding s0 (x\<lparr>bb_pc := CbPut m pos b, bb_bridge := ?s\<rparr>)"
        using i CbTx False unfolding bridge_run_ok_def progress_def by simp
      then show ?thesis using err u CbTx by simp
    qed
  next
    case (CbPut m pos b)
    define c where "c = contents (the (b_heap ?s b))"
    let ?s' = "?s\<lparr>b_fifo_tx := b_fifo_tx ?s @ [b]\<rparr>"
    have h: "held outstanding b c ?s" and le: "pos \<le> of_nat (length m)" using cb CbPut by (simp_all add: c_def)
    from k CbPut have k': "(k @ [c]) @ nus_chunks ?n (drop (unat pos) m) = nus_chunks ?n m" by (simp add: c_def)
    note p = tx_put [OF tok h]
    have "sent_as (bb_raced x) s0 ((concat ks @ k) @ [c]) ?s'" using p by (intro sent_as_snoc [OF sa]) auto
    then have "bridge_run_ok e outstanding s0 (x\<lparr>bb_pc := CbNext m pos, bb_bridge := ?s'\<rparr>)"
      using p nr k' CbPut len tk le ch unfolding bridge_run_ok_def progress_def
      by (auto intro!: exI [of _ ks] exI [of _ t] exI [of _ "k @ [c]"])
    then show ?thesis using CbPut by simp
  qed
qed

lemma run_inv_finished:
  assumes e: "uart_tx e = send" and i: "bridge_run_ok e outstanding s0 x"
  shows "\<exists>x'. tx_step e outstanding finish UartFinished x = Some x' \<and> bridge_run_ok e outstanding s0 x'"
proof (cases "outstanding (b_dev (bb_bridge x))")
  case None
  then show ?thesis using i by (simp add: tx_step_def)
next
  case (Some y)
  let ?s = "bb_bridge x"
  obtain p n where o: "outstanding (b_dev ?s) = Some (p, n)" using Some by (cases y) auto
  have tok: "tx_ok outstanding ?s" using i by (simp add: bridge_run_ok_def)
  from tx_done_step [OF e tok o] obtain s' where
    s': "on_tx_done e p n (?s\<lparr>b_dev := finish (b_dev ?s)\<rparr>) = Some s'" "tx_inv outstanding s'"
      "tx_stream s' = tx_stream ?s" "b_nomem s' = b_nomem ?s" "\<And>b c. held outstanding b c ?s \<Longrightarrow> held outstanding b c s'"
    by blast
  have tok': "tx_ok outstanding s'" using s'(2) by (simp add: tx_inv_def)
  have sa: "sent_as r s0 cs ?s \<Longrightarrow> sent_as (r \<or> q) s0 cs s'" for r q cs using s'(3) by (auto simp: sent_as_def)
  have same: "contents (the (b_heap s' b)) = contents (the (b_heap ?s b))"
    if "held outstanding b (contents (the (b_heap ?s b))) ?s" for b
    using s'(5) [OF that] that by (auto simp: held_def)
  have cb: "cb_ok outstanding (bb_pc x) ?s" using i by (simp add: bridge_run_ok_def)
  then have cb': "cb_ok outstanding (bb_pc x) s' \<and> (\<forall>n. cb_rest n (bb_pc x) s' = cb_rest n (bb_pc x) ?s)"
    using s'(5) same by (cases "bb_pc x") auto
  have pg: "progress (UART_BUF_SIZE e) (bb_raced x \<or> before_put (bb_pc x)) s0 (bb_taken x) (bb_pc x) s'"
  proof -
    from i obtain ks t k where "chunked (UART_BUF_SIZE e) (b_nomem ?s) ks t"
      "bb_taken x = t @ (if bb_pc x = CbIdle then [] else [cb_message (bb_pc x)])" "bb_pc x = CbIdle \<longrightarrow> k = []"
      "k @ cb_rest (UART_BUF_SIZE e) (bb_pc x) ?s = nus_chunks (UART_BUF_SIZE e) (cb_message (bb_pc x))"
      "sent_as (bb_raced x) s0 (concat ks @ k) ?s" unfolding bridge_run_ok_def progress_def by blast
    then show ?thesis unfolding progress_def
      by (intro exI [of _ ks] exI [of _ t] exI [of _ k]) (simp add: cb' sa s'(4))
  qed
  have "bridge_run_ok e outstanding s0 (x\<lparr>bb_bridge := s', bb_raced := bb_raced x \<or> before_put (bb_pc x)\<rparr>)"
    using i s'(2) tok' cb' pg unfolding bridge_run_ok_def by simp
  then show ?thesis using s'(1) o by (simp add: tx_step_def)
qed

lemma run_inv_step:
  assumes e: "uart_tx e = send" and ok: "bridge_env_ok e" and i: "bridge_run_ok e outstanding s0 x"
    and l: "\<forall>m\<in>set (received ev). length m < 65536"
  shows "\<exists>x'. tx_step e outstanding finish ev x = Some x' \<and> bridge_run_ok e outstanding s0 x'
    \<and> bb_taken x' @ bb_pending x' = bb_taken x @ bb_pending x @ received ev"
proof (cases ev)
  case (Received m)
  then show ?thesis using i l by (simp add: tx_step_def bridge_run_ok_def)
next
  case UartFinished
  then show ?thesis using run_inv_finished [OF e i]
    by (fastforce simp: tx_step_def split: option.splits)
next
  case CallbackMoves
  show ?thesis
  proof (cases "bb_pc x = CbIdle")
    case True
    show ?thesis
    proof (cases "bb_pending x")
      case Nil
      then show ?thesis using True CallbackMoves i by (simp add: tx_step_def)
    next
      case (Cons m ms)
      let ?x = "x\<lparr>bb_pc := CbNext m 0, bb_pending := ms, bb_taken := bb_taken x @ [m]\<rparr>"
      have "bridge_run_ok e outstanding s0 ?x" using i True Cons unfolding bridge_run_ok_def progress_def by auto
      then show ?thesis using True Cons CallbackMoves by (simp add: tx_step_def)
    qed
  next
    case False
    from run_inv_callback [OF e ok i False] obtain pc' s' where
      "bt_receive_cb e (bb_pc x) (bb_bridge x) = Some (pc', s')"
      "bridge_run_ok e outstanding s0 (x\<lparr>bb_pc := pc', bb_bridge := s'\<rparr>)" by blast
    then show ?thesis using False CallbackMoves
      by (cases "bb_pc x") (auto simp: tx_step_def split: list.split)
  qed
qed

lemma tx_run_inv:
  assumes e: "uart_tx e = send" and ok: "bridge_env_ok e"
  shows "bridge_run_ok e outstanding s0 x \<Longrightarrow> \<forall>m\<in>set (concat (map received evs)). length m < 65536 \<Longrightarrow>
    \<exists>x'. run (tx_step e outstanding finish) evs x = Some x' \<and> bridge_run_ok e outstanding s0 x'
      \<and> bb_taken x' @ bb_pending x' = bb_taken x @ bb_pending x @ concat (map received evs)"
proof (induction evs arbitrary: x)
  case (Cons ev evs)
  from Cons.prems(2) have "\<forall>m\<in>set (received ev). length m < 65536" by simp
  from run_inv_step [OF e ok Cons.prems(1) this] obtain x1 where
    x1: "tx_step e outstanding finish ev x = Some x1" "bridge_run_ok e outstanding s0 x1"
      "bb_taken x1 @ bb_pending x1 = bb_taken x @ bb_pending x @ received ev" by blast
  from Cons.prems(2) have "\<forall>m\<in>set (concat (map received evs)). length m < 65536" by simp
  from Cons.IH [OF x1(2) this] x1 show ?case by auto
qed simp

text \<open>A callback that is not interrupted returns: every step brings it nearer to its end.\<close>

fun cb_left :: "rx_pc \<Rightarrow> nat" where
  "cb_left CbIdle = 0"
| "cb_left (CbNext m pos) = 3 * (length m - unat pos) + 1"
| "cb_left (CbTx m pos b) = 3 * (length m - unat pos) + 3"
| "cb_left (CbPut m pos b) = 3 * (length m - unat pos) + 2"

lemma callback_nearer:
  assumes "uart_tx e = send" "bridge_env_ok e" "bridge_run_ok e outstanding s0 x" "bb_pc x \<noteq> CbIdle"
    and s: "bt_receive_cb e (bb_pc x) (bb_bridge x) = Some (pc', s')"
  shows "cb_left pc' < cb_left (bb_pc x)"
proof (cases "bb_pc x")
  case (CbNext m pos)
  have n: "2 \<le> UART_BUF_SIZE e" "UART_BUF_SIZE e < 65536" using assms(2) by (simp_all add: bridge_env_ok_def)
  have "length m < 65536" "pos \<le> of_nat (length m)"
    using assms(3) CbNext by (auto simp: bridge_run_ok_def progress_def)
  then have ml: "unat (of_nat (length m) :: u16) = length m" by (intro unat_of_nat_u16)
  from chunk_len_bound [OF \<open>pos \<le> _\<close> n] have
    "unat pos + unat (chunk_len (UART_BUF_SIZE e) (of_nat (length m)) pos) \<le> length m"
    "unat (pos + chunk_len (UART_BUF_SIZE e) (of_nat (length m)) pos)
       = unat pos + unat (chunk_len (UART_BUF_SIZE e) (of_nat (length m)) pos)"
    "pos \<noteq> of_nat (length m) \<Longrightarrow> 0 < unat (chunk_len (UART_BUF_SIZE e) (of_nat (length m)) pos)"
    by (simp_all add: ml)
  then show ?thesis using s CbNext by (auto simp: Let_def split: if_splits)
qed (use assms(4) s in \<open>auto split: option.splits prod.splits if_splits\<close>)

end

section \<open>The adapter as that UART\<close>

definition adapter_send :: "addr \<Rightarrow> u32 \<Rightarrow> adapter \<Rightarrow> int \<times> adapter" where
  "adapter_send p n a = tx p n SYS_FOREVER_MS a"

definition adapter_outstanding :: "adapter \<Rightarrow> (addr \<times> u32) option" where
  "adapter_outstanding a = (let t = a_tx a in
     if tx_buf t = 0 then None else Some (tx_buf t, tx_curr_buf t - tx_buf t + tx_size_left t))"

text \<open>The driver accepts what is left, and the completion interrupt follows.\<close>

definition adapter_finish :: "client \<Rightarrow> adapter \<Rightarrow> adapter" where
  "adapter_finish cb a = on_tx_complete cb (on_tx_ready (uint (tx_size_left (a_tx a))) a)"

lemma adapter_drain_tx:
  "a_tx (on_tx_ready (uint (tx_size_left (a_tx a))) a)
     = (a_tx a)\<lparr>tx_curr_buf := tx_curr_buf (a_tx a) + tx_size_left (a_tx a), tx_size_left := 0\<rparr>"
proof (cases "tx_size_left (a_tx a) = 0")
  case True
  then show ?thesis by (simp add: on_tx_ready_def Let_def)
next
  case False
  then have "\<not> uint (tx_size_left (a_tx a)) \<le> 0" by (simp add: uint_0_iff order_antisym_conv)
  with False show ?thesis by (simp add: on_tx_ready_def call_def Let_def)
qed

lemma adapter_drained: "tx_size_left (a_tx (on_tx_ready (uint (tx_size_left (a_tx a))) a)) = 0"
  by (simp add: adapter_drain_tx)

lemma complete_idle:
  "tx_size_left (a_tx b) = 0 \<Longrightarrow> adapter_outstanding (on_tx_complete (\<lambda>ev a. a) b) = None"
  by (simp add: on_tx_complete_def adapter_outstanding_def user_callback_def call_def Let_def)

interpretation adapter_uart: uart_sender adapter_send adapter_outstanding "adapter_finish (\<lambda>ev a. a)"
proof unfold_locales
  fix d :: adapter and p :: addr and n :: u32
  assume "adapter_outstanding d = None" "p \<noteq> 0" "n \<noteq> 0"
  then show "fst (adapter_send p n d) = 0 \<and> adapter_outstanding (snd (adapter_send p n d)) = Some (p, n)"
    by (auto simp: adapter_outstanding_def adapter_send_def tx_def call_def Let_def split: if_splits)
next
  fix d :: adapter and x and p :: addr and n :: u32
  assume "adapter_outstanding d = Some x" "n \<noteq> 0"
  then show "fst (adapter_send p n d) \<noteq> 0 \<and> snd (adapter_send p n d) = d"
    by (auto simp: adapter_outstanding_def adapter_send_def tx_def Let_def EBUSY_def split: if_splits)
next
  fix d :: adapter
  show "adapter_outstanding (adapter_finish (\<lambda>ev a. a) d) = None"
    unfolding adapter_finish_def by (rule complete_idle) (rule adapter_drained)
qed

text \<open>The callback the client installed then runs on the idle adapter.\<close>

lemma adapter_finish_notifies:
  assumes "a_callback a" "adapter_outstanding a = Some (p, n)"
  shows "\<exists>a'. adapter_outstanding a' = None \<and> adapter_finish cb a = cb (UART_TX_DONE p n) a'
     \<and> adapter_finish (\<lambda>ev a. a) a = a'"
proof -
  let ?b = "on_tx_ready (uint (tx_size_left (a_tx a))) a"
  have t: "a_callback ?b" "tx_buf (a_tx ?b) = p" "tx_buf (a_tx ?b) \<noteq> 0" "tx_size_left (a_tx ?b) = 0"
    "tx_curr_buf (a_tx ?b) - tx_buf (a_tx ?b) = n"
    using assms unfolding adapter_drain_tx
    by (auto simp: adapter_outstanding_def on_tx_ready_def call_def Let_def split: if_splits)
  have i: "adapter_outstanding (adapter_finish (\<lambda>ev a. a) a) = None"
    unfolding adapter_finish_def by (rule complete_idle) (rule adapter_drained)
  have "adapter_finish cb a = cb (UART_TX_DONE p n) (adapter_finish (\<lambda>ev a. a) a)"
    using t by (simp add: adapter_finish_def on_tx_complete_def user_callback_def call_def Let_def)
  with i show ?thesis by blast
qed

lemma progress_stream:
  assumes "progress n raced s0 taken pc s"
  shows "\<exists>ks. list_all2 (\<lambda>k m. prefix k (nus_chunks n m)) ks taken \<and> sent_as raced s0 (concat ks) s
     \<and> (pc = CbIdle \<and> \<not> b_nomem s \<longrightarrow> ks = map (nus_chunks n) taken)"
proof -
  from assms obtain ks t k where p: "chunked n (b_nomem s) ks t"
    "taken = t @ (if pc = CbIdle then [] else [cb_message pc])" "pc = CbIdle \<longrightarrow> k = []"
    "k @ cb_rest n pc s = nus_chunks n (cb_message pc)" "sent_as raced s0 (concat ks @ k) s"
    unfolding progress_def by blast
  show ?thesis
  proof (cases "pc = CbIdle")
    case True
    then show ?thesis using p by (intro exI [of _ ks]) (simp add: chunked_def)
  next
    case False
    have "prefix k (nus_chunks n (cb_message pc))" using p(4) by (metis prefixI)
    then show ?thesis using p False by (intro exI [of _ "ks @ [k]"]) (auto simp: chunked_def intro: list_all2_appendI)
  qed
qed

lemma chunked_bytes:
  assumes "2 \<le> n"
  shows "concat (concat (map (nus_chunks n) ms)) = concat (map (\<lambda>m. m @ (if m \<noteq> [] \<and> last m = 13 then [10] else [])) ms)"
proof (induction ms)
  case (Cons m ms)
  then show ?case by (cases "m = []") (simp_all add: concat_nus_chunks [OF assms])
qed simp


section \<open>Connections\<close>

datatype conn_event = EvConnected ptr u8 | EvDisconnected | EvPasskeyConfirm ptr | EvPairingConfirm ptr | EvButtons u32 u32

fun conn_step :: "conn_event \<Rightarrow> 'd bridge \<Rightarrow> 'd bridge option" where
  "conn_step (EvConnected c err) s = Some (nus_connected c err s)"
| "conn_step EvDisconnected s = nus_disconnected s"
| "conn_step (EvPasskeyConfirm c) s = Some (auth_passkey_confirm c s)"
| "conn_step (EvPairingConfirm c) s = Some (pairing_confirm c s)"
| "conn_step (EvButtons st ch) s = button_changed st ch s"

text \<open>
  The stack allows one connection (\<open>CONFIG_BT_MAX_CONN\<close> is 1) and one pairing at a time, and
  never passes a null connection; both buttons are not pressed in the same report.
\<close>

fun conn_ok :: "conn_event \<Rightarrow> 'd bridge \<Rightarrow> bool" where
  "conn_ok (EvConnected c err) s = (c \<noteq> 0 \<and> current_conn s = 0)"
| "conn_ok (EvPasskeyConfirm c) s = (c \<noteq> 0 \<and> auth_conn s = 0)"
| "conn_ok (EvButtons st ch) s =
     (and (and st ch) KEY_PASSKEY_ACCEPT = 0 \<or> and (and st ch) KEY_PASSKEY_REJECT = 0)"
| "conn_ok _ s = True"

definition conn_inv :: "'d bridge \<Rightarrow> bool" where
  "conn_inv s \<longleftrightarrow> (\<forall>c. conn_refs s c =
     (if c \<noteq> 0 \<and> current_conn s = c then 1 else 0) + (if c \<noteq> 0 \<and> auth_conn s = c then 1 else 0))"

lemma num_comp_reply_refs:
  "conn_inv s \<Longrightarrow> auth_conn s \<noteq> 0 \<Longrightarrow> \<exists>s'. num_comp_reply x s = Some s' \<and> conn_inv s' \<and> auth_conn s' = 0"
  by (auto simp: num_comp_reply_def bt_conn_unref_def bcall_def conn_inv_def)

lemma conn_step_inv:
  assumes "conn_inv s" "conn_ok ev s" shows "\<exists>s'. conn_step ev s = Some s' \<and> conn_inv s'"
proof (cases ev)
  case (EvButtons st ch)
  then show ?thesis using assms num_comp_reply_refs
    by (fastforce simp: button_changed_def Let_def)
next
  case (EvConnected c err)
  then show ?thesis using assms
    by (auto simp: nus_connected_def bt_conn_ref_def bcall_def conn_inv_def)
next
  case (EvPasskeyConfirm c)
  then show ?thesis using assms
    by (auto simp: auth_passkey_confirm_def bt_conn_ref_def conn_inv_def)
next
  case EvDisconnected
  then show ?thesis using assms
    by (auto simp: nus_disconnected_def bt_conn_unref_def bcall_def conn_inv_def)
next
  case (EvPairingConfirm c)
  then show ?thesis using assms by (simp add: pairing_confirm_def bcall_def conn_inv_def)
qed

interpretation conns: machine conn_step conn_ok conn_inv
  by unfold_locales (rule conn_step_inv)

text \<open>
  The bridge holds exactly one reference per connection pointer it stores, for any order
  of connections, pairings, button reports and disconnections, and a disconnection gives all of
  them back.
\<close>

theorem bridge_conn_refs:
  assumes "run_ok conn_step conn_ok evs s" "current_conn s = 0" "auth_conn s = 0" "\<forall>c. conn_refs s c = 0"
  shows "\<exists>s'. run conn_step evs s = Some s' \<and> (\<forall>c. conn_refs s' c =
       (if c \<noteq> 0 \<and> current_conn s' = c then 1 else 0) + (if c \<noteq> 0 \<and> auth_conn s' = c then 1 else 0))
     \<and> (\<exists>s''. nus_disconnected s' = Some s'' \<and> (\<forall>c. conn_refs s'' c = 0))"
proof -
  have "conn_inv s" using assms by (auto simp: conn_inv_def)
  then obtain s' where s': "run conn_step evs s = Some s'" "conn_inv s'"
    using conns.run_inv [OF _ assms(1)] by blast
  then have "\<exists>s''. nus_disconnected s' = Some s'' \<and> (\<forall>c. conn_refs s'' c = 0)"
    by (auto simp: nus_disconnected_def bt_conn_unref_def bcall_def conn_inv_def)
  with s' show ?thesis by (auto simp: conn_inv_def)
qed

text \<open>
  A button report is undefined behaviour exactly when a pairing waits for an answer and both
  buttons are newly pressed: the first answer clears the connection and the second uses it.
\<close>

theorem bridge_both_buttons:
  "button_changed st ch s = None \<longleftrightarrow>
     auth_conn s \<noteq> 0 \<and> and (and st ch) KEY_PASSKEY_ACCEPT \<noteq> 0 \<and> and (and st ch) KEY_PASSKEY_REJECT \<noteq> 0"
  by (auto simp: button_changed_def num_comp_reply_def bt_conn_unref_def bcall_def Let_def)

section \<open>Lines from the UART\<close>

text \<open>The driver stores \<open>bs\<close> behind what the block \<open>b\<close> holds and raises \<open>UART_RX_RDY\<close>.\<close>

definition deliver :: "'d bridge_env \<Rightarrow> addr \<Rightarrow> u8 list \<Rightarrow> 'd bridge \<Rightarrow> 'd bridge option" where
  "deliver e b bs s = (case b_heap s b of
     None \<Rightarrow> None
   | Some u \<Rightarrow>
       (let k = unat (ub_len u);
            u' = u\<lparr>ub_data := take k (ub_data u) @ bs @ drop (k + length bs) (ub_data u)\<rparr>
        in uart_cb e (UART_RX_RDY (data_of b) (ucast (ub_len u)) (of_nat (length bs)))
             (s\<lparr>b_heap := (b_heap s)(b \<mapsto> u')\<rparr>)))"

definition ends_line :: "u8 list \<Rightarrow> bool" where
  "ends_line bs \<longleftrightarrow> bs \<noteq> [] \<and> (last bs = 10 \<or> last bs = 13)"

text \<open>The block \<open>b\<close> is a receive buffer that holds \<open>c\<close>.\<close>

definition rx_block :: "'d bridge_env \<Rightarrow> 'd bridge \<Rightarrow> addr \<Rightarrow> u8 list \<Rightarrow> bool" where
  "rx_block e s b c \<longleftrightarrow> (case b_heap s b of None \<Rightarrow> False
     | Some u \<Rightarrow> length (ub_data u) = UART_BUF_SIZE e \<and> contents u = c \<and> unat (ub_len u) = length c)"

lemma deliver_step:
  assumes N: "UART_BUF_SIZE e < 65536" and blk: "rx_block e s b c" and bs: "bs \<noteq> []"
    and room: "length c + length bs \<le> UART_BUF_SIZE e"
  defines "full \<equiv> length c + length bs = UART_BUF_SIZE e"
  shows "\<exists>s'. deliver e b bs s = Some s' \<and> rx_block e s' b (c @ bs)
     \<and> b_fifo_rx s' = b_fifo_rx s @ (if full \<or> ends_line bs then [b] else [])
     \<and> b_calls s' = b_calls s @ (if \<not> full \<and> ends_line bs then [UartRxDisable] else [])"
proof -
  from blk obtain u where u: "b_heap s b = Some u" "length (ub_data u) = UART_BUF_SIZE e"
    "contents u = c" "unat (ub_len u) = length c" by (auto simp: rx_block_def split: option.splits)
  let ?d = "take (length c) (ub_data u) @ bs @ drop (length c + length bs) (ub_data u)"
  let ?len = "ub_len u + of_nat (length bs)"
  have c: "take (length c) (ub_data u) = c" using u(3,4) by (simp add: contents_def)
  have len: "unat ?len = length c + length bs"
    using N room u(4) unat_of_nat_u16 [of "length bs"] by (subst unat_plus_nowrap) simp_all
  have uc: "ucast (of_nat (length bs) :: u32) = (of_nat (length bs) :: u16)"
    by (simp add: word_unat_eq_iff unsigned_ucast_eq unsigned_of_nat)
  have dl: "length ?d = UART_BUF_SIZE e" using u(2) room by simp
  have cont: "take (unat ?len) ?d = c @ bs" using c room u(2) by (simp add: len)
  have nth: "?d ! (unat ?len - 1) = last bs"
  proof -
    have "?d ! (unat ?len - 1) = take (unat ?len) ?d ! (unat ?len - 1)"
      using len bs by (intro nth_take [symmetric]) (cases bs; simp)
    also have "\<dots> = (c @ bs) ! (unat ?len - 1)" unfolding cont ..
    also have "\<dots> = (c @ bs) ! (length (c @ bs) - 1)" by (simp add: len)
    also have "\<dots> = last bs" using bs last_conv_nth [of "c @ bs"] by simp
    finally show ?thesis .
  qed
  have pos: "?len \<noteq> 0" using len bs by auto
  define s1 where "s1 = s\<lparr>b_heap := (b_heap s)(b \<mapsto> u\<lparr>ub_data := ?d, ub_len := ?len\<rparr>), cb_buf_release := False\<rparr>"
  have blk1: "rx_block e s1 b (c @ bs)"
    using dl cont len by (simp add: rx_block_def s1_def contents_def)
  have step: "deliver e b bs s =
     (if unat ?len = UART_BUF_SIZE e then Some (s1\<lparr>b_fifo_rx := b_fifo_rx s1 @ [b]\<rparr>)
      else if ?len = 0 \<or> length ?d < unat ?len then None
      else if ?d ! (unat ?len - 1) = 10 \<or> ?d ! (unat ?len - 1) = 13
      then Some (bcall UartRxDisable
             (s1\<lparr>b_fifo_rx := b_fifo_rx s1 @ [b], cb_current_buf := data_of b, cb_buf_release := True\<rparr>))
      else Some s1)"
    by (simp add: deliver_def u on_rx_rdy_def s1_def uc Let_def)
  have s1: "b_fifo_rx s1 = b_fifo_rx s" "b_calls s1 = b_calls s" by (simp_all add: s1_def)
  show ?thesis
    unfolding step nth using len dl room pos blk1 s1 bs
    by (auto simp: full_def ends_line_def bcall_def rx_block_def)
qed

lemma deliver_pieces:
  assumes N: "UART_BUF_SIZE e < 65536"
  shows "rx_block e s b c \<Longrightarrow> \<forall>bs\<in>set bss. bs \<noteq> [] \<and> \<not> ends_line bs \<Longrightarrow>
     length c + length (concat bss) < UART_BUF_SIZE e \<Longrightarrow>
     \<exists>s'. run (deliver e b) bss s = Some s' \<and> rx_block e s' b (c @ concat bss)
       \<and> b_fifo_rx s' = b_fifo_rx s \<and> b_calls s' = b_calls s"
proof (induction bss arbitrary: s c)
  case (Cons bs bss)
  have "length c + length bs \<le> UART_BUF_SIZE e" "length c + length bs \<noteq> UART_BUF_SIZE e" "bs \<noteq> []" "\<not> ends_line bs"
    using Cons.prems by auto
  with deliver_step [OF N Cons.prems(1), of bs] obtain s1 where
    s1: "deliver e b bs s = Some s1" "rx_block e s1 b (c @ bs)" "b_fifo_rx s1 = b_fifo_rx s"
      "b_calls s1 = b_calls s" by auto
  from Cons.IH [OF s1(2)] Cons.prems(2,3) obtain s' where
    "run (deliver e b) bss s1 = Some s'" "rx_block e s' b ((c @ bs) @ concat bss)"
    "b_fifo_rx s' = b_fifo_rx s1" "b_calls s' = b_calls s1" by auto
  with s1 show ?case by simp
qed simp

text \<open>
  C39: The pieces of a line that arrive in a receive buffer are collected; the buffer is queued
  for the peer exactly when it is full or the last piece ends a line, in which case the receiver is
  also restarted, and the write thread sends exactly the bytes of the line and frees the buffer.
\<close>

theorem bridge_rx_line:
  assumes "UART_BUF_SIZE e < 65536" "rx_block e s b []"
    and "\<forall>bs\<in>set pieces. bs \<noteq> [] \<and> \<not> ends_line bs" "final \<noteq> []"
    and "length (concat pieces) + length final \<le> UART_BUF_SIZE e"
  defines "line \<equiv> concat pieces @ final"
  defines "full \<equiv> length line = UART_BUF_SIZE e"
  shows "\<exists>s'. run (deliver e b) (pieces @ [final]) s = Some s'
     \<and> b_fifo_rx s' = b_fifo_rx s @ (if full \<or> ends_line final then [b] else [])
     \<and> b_calls s' = b_calls s @ (if \<not> full \<and> ends_line final then [UartRxDisable] else [])
     \<and> (b_fifo_rx s = [] \<and> (full \<or> ends_line final) \<longrightarrow>
          (\<exists>s''. ble_write_step s' = Some s'' \<and> b_calls s'' = b_calls s' @ [NusSend line]
             \<and> b_heap s'' b = None \<and> b_fifo_rx s'' = []))"
proof -
  have "length ([] :: u8 list) + length (concat pieces) < UART_BUF_SIZE e"
    using assms(4,5) by (cases final) auto
  from deliver_pieces [OF assms(1,2,3) this] obtain s1 where
    s1: "run (deliver e b) pieces s = Some s1" "rx_block e s1 b (concat pieces)" "b_fifo_rx s1 = b_fifo_rx s"
      "b_calls s1 = b_calls s" by auto
  from deliver_step [OF assms(1) s1(2) assms(4,5)] obtain s' where
    s': "deliver e b final s1 = Some s'" "rx_block e s' b line"
      "b_fifo_rx s' = b_fifo_rx s1 @ (if full \<or> ends_line final then [b] else [])"
      "b_calls s' = b_calls s1 @ (if \<not> full \<and> ends_line final then [UartRxDisable] else [])"
    by (auto simp: full_def line_def)
  have "run (deliver e b) (pieces @ [final]) s = Some s'" using s1(1) s'(1) by (simp add: run_append)
  moreover from s'(2) obtain u where "b_heap s' b = Some u" "contents u = line"
    by (auto simp: rx_block_def split: option.splits)
  ultimately show ?thesis using s1 s' by (auto simp: ble_write_step_def k_free_def bcall_def)
qed

section \<open>A concrete bridge\<close>

definition demo_env :: "adapter bridge_env" where
  "demo_env = \<lparr>UART_BUF_SIZE = 4, UART_WAIT_FOR_RX = 50,
     k_malloc = (\<lambda>h. if h 64 = None then 64 else if h 128 = None then 128 else if h 192 = None then 192 else 0),
     uart_tx = adapter_send\<rparr>"

definition demo_bridge :: "uheap \<Rightarrow> adapter bridge" where
  "demo_bridge h = \<lparr>b_dev = demo_adapter 0 0 0 0, b_heap = h, b_fifo_tx = [], b_fifo_rx = [],
     current_conn = 0, auth_conn = 0, conn_refs = (\<lambda>_. 0), cb_current_buf = 0, cb_aborted_len = 0,
     cb_buf_release = False, cb_aborted_buf = 0, b_sent = [], b_nomem = False, b_calls = []\<rparr>"

lemma demo_bridge_env_ok: "uart_tx demo_env = adapter_send" "bridge_env_ok demo_env"
  by (auto simp: demo_env_def bridge_env_ok_def data_of_def)

lemma demo_bridge_ok: "tx_inv adapter_outstanding (demo_bridge h)"
  by (simp add: demo_bridge_def tx_inv_def tx_ok_def adapter_outstanding_def demo_adapter_def)

definition bridge_demo_events :: "tx_event list" where
  "bridge_demo_events = [Received [1, 2, 3, 4, 13], CallbackMoves, CallbackMoves, UartFinished, CallbackMoves,
     UartFinished, Received [5], CallbackMoves, CallbackMoves]"


text \<open>
  The race of the exception above: three messages arrive; the UART finishes the first one between the refused
  \<open>uart_tx\<close> of the second and its \<open>k_fifo_put\<close>. The second is then queued behind an idle UART, and
  the third overtakes it.
\<close>

definition bridge_race :: "tx_event list" where
  "bridge_race = [Received [1], Received [2], Received [3]] @ replicate 4 CallbackMoves
     @ replicate 3 CallbackMoves @ [UartFinished] @ replicate 2 CallbackMoves @ replicate 4 CallbackMoves"

theorem bridge_overtakes:
  "map_option (\<lambda>x. (bb_raced x, bb_pc x = CbIdle, b_sent (bb_bridge x), tx_stream (bb_bridge x)))
     (run (tx_step demo_env adapter_outstanding (adapter_finish (\<lambda>ev a. a))) bridge_race
        (bridge_idle (demo_bridge Map.empty))) = Some (True, True, [[1], [3]], [[1], [3], [2]])"
  by code_simp

theorem bridge_conn_refs_witness:
  "\<exists>s'. run conn_step [EvConnected 5 0, EvPasskeyConfirm 5, EvButtons 1 1] (demo_bridge Map.empty) = Some s'
     \<and> (\<exists>s''. nus_disconnected s' = Some s'' \<and> (\<forall>c. conn_refs s'' c = 0))"
proof -
  have "run_ok conn_step conn_ok [EvConnected 5 0, EvPasskeyConfirm 5, EvButtons 1 1] (demo_bridge Map.empty)"
    by (simp add: demo_bridge_def nus_connected_def auth_passkey_confirm_def button_changed_def num_comp_reply_def
        bt_conn_ref_def bt_conn_unref_def bcall_def KEY_PASSKEY_ACCEPT_def KEY_PASSKEY_REJECT_def)
  then show ?thesis
    using bridge_conn_refs [of _ "demo_bridge Map.empty"] by (fastforce simp: demo_bridge_def)
qed

theorem bridge_rx_line_witness:
  "\<exists>s' s''. run (deliver demo_env 64) [[7], [8, 10]] (demo_bridge [64 \<mapsto> new_buf 4]) = Some s'
     \<and> ble_write_step s' = Some s'' \<and> b_calls s'' = [UartRxDisable, NusSend [7, 8, 10]]"
proof -
  have "UART_BUF_SIZE demo_env < 65536" "rx_block demo_env (demo_bridge [64 \<mapsto> new_buf 4]) 64 []"
    "\<forall>bs\<in>set [[7 :: u8]]. bs \<noteq> [] \<and> \<not> ends_line bs" "[8, 10 :: u8] \<noteq> []"
    "length (concat [[7 :: u8]]) + length [8, 10 :: u8] \<le> UART_BUF_SIZE demo_env"
    "b_fifo_rx (demo_bridge [64 \<mapsto> new_buf 4]) = []" "b_calls (demo_bridge [64 \<mapsto> new_buf 4]) = []"
    by (simp_all add: demo_env_def demo_bridge_def rx_block_def new_buf_def contents_def ends_line_def)
  with bridge_rx_line [OF this(1-5)] show ?thesis
    by (fastforce simp: ends_line_def demo_env_def)
qed

end
