(* ===== verification/Float32.thy ===== *)
theory Float32
  imports Prelude "HOL-Library.Code_Target_Numeral"
begin

text \<open>
  C's \<open>float\<close> as the sources use it: IEEE 754 single precision on 32-bit patterns, with the
  comparisons and the arithmetic of the distance measurement (sum, product, halving, conversion
  to an integer), rounding to nearest, ties to even.
\<close>

type_synonym f32 = u32

definition f32_exp :: "f32 \<Rightarrow> nat" where "f32_exp x = unat (and (drop_bit 23 x) 255)"
definition f32_frac :: "f32 \<Rightarrow> nat" where "f32_frac x = unat (and x 0x7FFFFF)"
definition f32_neg :: "f32 \<Rightarrow> bool" where "f32_neg x = bit x 31"

definition f32_nan :: "f32 \<Rightarrow> bool" where "f32_nan x \<longleftrightarrow> f32_exp x = 255 \<and> f32_frac x \<noteq> 0"
definition f32_inf :: "f32 \<Rightarrow> bool" where "f32_inf x \<longleftrightarrow> f32_exp x = 255 \<and> f32_frac x = 0"

text \<open>The numbers are ordered as their patterns read as sign and magnitude.\<close>

definition f32_key :: "f32 \<Rightarrow> int" where
  "f32_key x = (if bit x 31 then - int (unat (and x 0x7FFFFFFF)) else int (unat (and x 0x7FFFFFFF)))"

definition f32_lt :: "f32 \<Rightarrow> f32 \<Rightarrow> bool" where
  "f32_lt x y \<longleftrightarrow> \<not> f32_nan x \<and> \<not> f32_nan y \<and> f32_key x < f32_key y"

definition f32_le :: "f32 \<Rightarrow> f32 \<Rightarrow> bool" where
  "f32_le x y \<longleftrightarrow> \<not> f32_nan x \<and> \<not> f32_nan y \<and> f32_key x \<le> f32_key y"

text \<open>A finite pattern is \<open>\<plusminus> mant * 2 ^ (exp - 150)\<close>.\<close>

definition f32_mant :: "f32 \<Rightarrow> nat" where
  "f32_mant x = (if f32_exp x = 0 then f32_frac x else 2 ^ 23 + f32_frac x)"

definition f32_pow :: "f32 \<Rightarrow> int" where
  "f32_pow x = int (max 1 (f32_exp x)) - 150"

fun bit_length :: "nat \<Rightarrow> nat" where
  "bit_length n = (if n = 0 then 0 else Suc (bit_length (n div 2)))"

declare bit_length.simps [simp del]

definition round_half_even :: "nat \<Rightarrow> nat \<Rightarrow> nat" where
  "round_half_even m k =
     (let q = m div 2 ^ k; r = m mod 2 ^ k in
      if 2 * r > 2 ^ k \<or> (2 * r = 2 ^ k \<and> odd q) then q + 1 else q)"

text \<open>The pattern nearest to \<open>m * 2 ^ e\<close>, with its sign.\<close>

definition f32_round :: "bool \<Rightarrow> nat \<Rightarrow> int \<Rightarrow> f32" where
  "f32_round neg m e =
     (let sh = max (int (bit_length m) - 24) (- 149 - e);
          m1 = (if sh \<le> 0 then m * 2 ^ nat (- sh) else round_half_even m (nat sh));
          e1 = e + sh;
          (m2, e2) = (if m1 = 2 ^ 24 then (2 ^ 23, e1 + 1) else (m1, e1));
          mag = (if m = 0 then 0
                 else if 104 < e2 then 255 * 2 ^ 23
                 else if m2 < 2 ^ 23 then m2
                 else nat (e2 + 150) * 2 ^ 23 + (m2 - 2 ^ 23))
      in or (if neg then 0x80000000 else 0) (of_nat mag))"

definition f32_quiet_nan :: f32 where "f32_quiet_nan = 0x7FC00000"
definition f32_infinity :: "bool \<Rightarrow> f32" where
  "f32_infinity neg = (if neg then 0xFF800000 else 0x7F800000)"

definition f32_add :: "f32 \<Rightarrow> f32 \<Rightarrow> f32" where
  "f32_add x y =
     (if f32_nan x \<or> f32_nan y then f32_quiet_nan
      else if f32_inf x \<and> f32_inf y then (if f32_neg x = f32_neg y then x else f32_quiet_nan)
      else if f32_inf x then x
      else if f32_inf y then y
      else
        (let e = min (f32_pow x) (f32_pow y);
             v = (\<lambda>z. (if f32_neg z then - 1 else 1) * int (f32_mant z) * 2 ^ nat (f32_pow z - e));
             s = v x + v y
         in if s = 0 then f32_round (f32_neg x \<and> f32_neg y) 0 e
            else f32_round (s < 0) (nat \<bar>s\<bar>) e))"

definition f32_mul :: "f32 \<Rightarrow> f32 \<Rightarrow> f32" where
  "f32_mul x y =
     (let neg = (f32_neg x \<noteq> f32_neg y) in
      if f32_nan x \<or> f32_nan y then f32_quiet_nan
      else if f32_inf x \<or> f32_inf y
      then (if \<not> f32_inf x \<and> f32_mant x = 0 \<or> \<not> f32_inf y \<and> f32_mant y = 0
            then f32_quiet_nan else f32_infinity neg)
      else f32_round neg (f32_mant x * f32_mant y) (f32_pow x + f32_pow y))"

text \<open>Division by two.\<close>

definition f32_half :: "f32 \<Rightarrow> f32" where
  "f32_half x =
     (if f32_nan x then f32_quiet_nan else if f32_inf x then x
      else f32_round (f32_neg x) (f32_mant x) (f32_pow x - 1))"

definition f32_of_nat :: "nat \<Rightarrow> f32" where "f32_of_nat n = f32_round False n 0"

text \<open>The integer part of a finite number, which C defines when it fits the target type.\<close>

definition f32_trunc :: "f32 \<Rightarrow> int" where
  "f32_trunc x = (if f32_neg x then - 1 else 1) *
     (if 0 \<le> f32_pow x then int (f32_mant x) * 2 ^ nat (f32_pow x)
      else int (f32_mant x) div 2 ^ nat (- f32_pow x))"

definition f32_to_u16 :: "f32 \<Rightarrow> u16 option" where
  "f32_to_u16 x =
     (if f32_nan x \<or> f32_inf x \<or> f32_trunc x < 0 \<or> 65535 < f32_trunc x then None
      else Some (of_int (f32_trunc x)))"

section \<open>Order\<close>

lemma f32_lt_irrefl: "\<not> f32_lt x x"
  by (simp add: f32_lt_def)

lemma f32_not_lt_trans:
  "\<not> f32_nan y \<Longrightarrow> \<not> f32_lt x y \<Longrightarrow> \<not> f32_lt y z \<Longrightarrow> \<not> f32_lt x z"
  by (auto simp: f32_lt_def)

lemma f32_lt_asym: "f32_lt x y \<Longrightarrow> \<not> f32_lt y x"
  by (auto simp: f32_lt_def)

lemma f32_lt_trans: "f32_lt x y \<Longrightarrow> f32_lt y z \<Longrightarrow> f32_lt x z"
  by (auto simp: f32_lt_def)

section \<open>Sign and range of a rounded number\<close>

lemma less_bit_length: "m < 2 ^ bit_length m"
proof (induction m rule: bit_length.induct)
  case (1 n)
  show ?case
  proof (cases "n = 0")
    case True
    then show ?thesis by (simp add: bit_length.simps)
  next
    case False
    with 1 have "n div 2 < 2 ^ bit_length (n div 2)" by simp
    then have "n < 2 * 2 ^ bit_length (n div 2)" by linarith
    then show ?thesis using False by (simp add: bit_length.simps [of n])
  qed
qed

lemma round_half_even_le:
  assumes "m < 2 ^ b" "int b - int k \<le> 24" shows "round_half_even m k \<le> 2 ^ 24"
proof -
  have "m div 2 ^ k < 2 ^ 24"
  proof (cases "b \<le> k")
    case True
    then have "(2::nat) ^ b \<le> 2 ^ k" by (intro power_increasing) auto
    then have "m < 2 ^ k" using assms(1) by linarith
    then show ?thesis by simp
  next
    case False
    then have "(2::nat) ^ b = 2 ^ (b - k) * 2 ^ k" by (simp flip: power_add)
    then have "m div 2 ^ k < 2 ^ (b - k)" using assms(1) by (simp add: less_mult_imp_div_less)
    also have "(2::nat) ^ (b - k) \<le> 2 ^ 24" using assms(2) by (intro power_increasing) auto
    finally show ?thesis .
  qed
  then show ?thesis by (simp add: round_half_even_def Let_def)
qed

lemma f32_round_mag:
  "\<exists>mag. f32_round neg m e = or (if neg then 0x80000000 else 0) (of_nat mag) \<and> mag < 2 ^ 31 \<and> (m = 0 \<longrightarrow> mag = 0)"
proof -
  define sh where "sh = max (int (bit_length m) - 24) (- 149 - e)"
  define m1 where "m1 = (if sh \<le> 0 then m * 2 ^ nat (- sh) else round_half_even m (nat sh))"
  have m1: "m1 \<le> 2 ^ 24"
  proof (cases "sh \<le> 0")
    case True
    have "bit_length m + nat (- sh) \<le> 24" using True by (auto simp: sh_def)
    then have "(2::nat) ^ (bit_length m + nat (- sh)) \<le> 2 ^ 24" by (intro power_increasing) auto
    moreover have "m * 2 ^ nat (- sh) \<le> 2 ^ (bit_length m + nat (- sh))"
      using less_bit_length [of m] by (simp add: power_add)
    ultimately have "m * 2 ^ nat (- sh) \<le> 2 ^ 24" by (rule order_trans [rotated])
    then show ?thesis using True by (simp add: m1_def)
  next
    case False
    have "round_half_even m (nat sh) \<le> 2 ^ 24"
      by (rule round_half_even_le [OF less_bit_length]) (use False in \<open>auto simp: sh_def\<close>)
    then show ?thesis using False by (simp add: m1_def)
  qed
  define me where "me = (if m1 = 2 ^ 24 then (2 ^ 23, e + sh + 1) else (m1, e + sh))"
  define mag where "mag = (if m = 0 then 0
                 else if 104 < snd me then 255 * 2 ^ 23
                 else if fst me < 2 ^ 23 then fst me
                 else nat (snd me + 150) * 2 ^ 23 + (fst me - 2 ^ 23))"
  have m2: "fst me < 2 ^ 24" using m1 by (auto simp: me_def)
  have "mag < 2 ^ 31"
  proof (cases "m = 0 \<or> 104 < snd me \<or> fst me < 2 ^ 23")
    case True
    then show ?thesis by (auto simp: mag_def)
  next
    case False
    then have "nat (snd me + 150) \<le> 254" by (simp add: nat_le_iff)
    then have "nat (snd me + 150) * 2 ^ 23 \<le> 254 * 2 ^ 23" by (rule mult_le_mono1)
    with False m2 show ?thesis by (simp add: mag_def)
  qed
  moreover have "f32_round neg m e = or (if neg then 0x80000000 else 0) (of_nat mag)"
    by (simp only: f32_round_def Let_def sh_def m1_def me_def mag_def split_beta)
  moreover have "m = 0 \<longrightarrow> mag = 0" by (simp add: mag_def)
  ultimately show ?thesis by blast
qed

lemma bit31_mag: "mag < 2 ^ 31 \<Longrightarrow> \<not> bit (of_nat mag :: u32) 31"
proof -
  assume m: "mag < 2 ^ 31"
  then have "unat (of_nat mag :: u32) = mag" by (intro unat_of_nat_u32) simp
  moreover have "bit (of_nat mag :: u32) 31 = bit (unat (of_nat mag :: u32)) 31" by (simp add: bit_unsigned_iff)
  moreover have "\<not> bit mag 31" using m by (simp add: bit_iff_odd)
  ultimately show ?thesis by simp
qed

lemma f32_round_neg: "f32_neg (f32_round neg m e) = neg"
proof -
  obtain mag where "f32_round neg m e = or (if neg then 0x80000000 else 0) (of_nat mag)" "mag < 2 ^ 31"
    using f32_round_mag by blast
  moreover have "bit (0x80000000 :: u32) 31" by (simp add: bit_simps)
  ultimately show ?thesis using bit31_mag by (simp add: f32_neg_def bit_or_iff)
qed

lemma f32_round_0: "f32_round neg 0 e = (if neg then 0x80000000 else 0)"
proof -
  obtain mag where "f32_round neg 0 e = or (if neg then 0x80000000 else 0) (of_nat mag)" "mag = 0"
    using f32_round_mag [of neg 0 e] by blast
  then show ?thesis by simp
qed

lemma f32_frac_less: "f32_frac x < 2 ^ 23"
proof -
  have "(0x7FFFFF :: u32) = mask 23" by (simp add: mask_eq_exp_minus_1)
  then have "f32_frac x = unat (take_bit 23 x)" by (simp add: f32_frac_def take_bit_eq_mask)
  then have "f32_frac x = take_bit 23 (unat x)" by (simp only: unsigned_take_bit_eq)
  then show ?thesis using take_bit_nat_less_exp [of 23 "unat x"] by simp
qed

lemma f32_small_trunc:
  assumes "\<not> f32_neg x" "f32_lt x (f32_of_nat 65535)"
  shows "\<not> f32_nan x \<and> \<not> f32_inf x \<and> 0 \<le> f32_trunc x \<and> f32_trunc x \<le> 65535"
proof -
  have c: "f32_of_nat 65535 = 0x477FFF00" by code_simp
  have k: "f32_key (0x477FFF00) = 0x477FFF00" by code_simp
  have nn: "\<not> bit x 31" using assms(1) by (simp add: f32_neg_def)
  have and31: "unat (and x 0x7FFFFFFF) = unat x mod 2 ^ 31"
  proof -
    have "(0x7FFFFFFF :: u32) = mask 31" by (simp add: mask_eq_exp_minus_1)
    then have "and x 0x7FFFFFFF = take_bit 31 x" by (simp add: take_bit_eq_mask)
    then show ?thesis by (simp only: unsigned_take_bit_eq) (simp add: take_bit_eq_mod)
  qed
  have "f32_key x = int (unat x mod 2 ^ 31)" using nn and31 by (simp add: f32_key_def)
  moreover have "f32_key x < 0x477FFF00" "\<not> f32_nan x" using assms(2) c k by (simp_all add: f32_lt_def)
  ultimately have lt: "unat x mod 2 ^ 31 < 0x477FFF00" by simp
  have ex: "f32_exp x = unat x div 2 ^ 23 mod 256"
  proof -
    have "f32_exp x = unat (take_bit 8 (drop_bit 23 x))" by (simp add: f32_exp_def and_255)
    then show ?thesis
      by (simp only: unsigned_take_bit_eq unsigned_drop_bit_eq) (simp add: take_bit_eq_mod drop_bit_eq_div unat_u32_less)
  qed
  have eq: "unat x div 2 ^ 23 mod 256 = (unat x mod 2 ^ 31) div 2 ^ 23"
    using drop_bit_take_bit [of 23 31 "unat x"] by (simp add: take_bit_eq_mod drop_bit_eq_div)
  have e142: "f32_exp x \<le> 142"
  proof -
    have "(unat x mod 2 ^ 31) div 2 ^ 23 \<le> 0x477FFF00 div 2 ^ 23" using lt by (intro div_le_mono) simp
    with ex eq show ?thesis by simp
  qed
  have mant: "f32_mant x < 2 ^ 24" using f32_frac_less [of x] by (simp add: f32_mant_def)
  have pw: "f32_pow x \<le> - 8" using e142 by (simp add: f32_pow_def)
  define k where "k = nat (- f32_pow x)"
  have k8: "8 \<le> k" using pw by (simp add: k_def)
  have "f32_mant x div 2 ^ k \<le> f32_mant x div 2 ^ 8"
  proof (rule div_le_mono2)
    show "(2::nat) ^ 8 \<le> 2 ^ k" using k8 by (intro power_increasing) auto
  qed simp
  also have "\<dots> \<le> (2 ^ 24 - 1) div 2 ^ 8" using mant by (intro div_le_mono) simp
  finally have "f32_mant x div 2 ^ k \<le> 65535" by simp
  moreover have "int (f32_mant x) div 2 ^ k = int (f32_mant x div 2 ^ k)" by (simp add: zdiv_int)
  ultimately have "0 \<le> f32_trunc x \<and> f32_trunc x \<le> 65535"
    using assms(1) pw by (simp add: f32_trunc_def k_def)
  moreover have "\<not> f32_inf x" using e142 by (simp add: f32_inf_def)
  moreover have "\<not> f32_nan x" using e142 by (simp add: f32_nan_def)
  ultimately show ?thesis by simp
qed

lemma f32_mul_sign: "\<not> f32_nan (f32_mul x y) \<Longrightarrow> f32_neg (f32_mul x y) = (f32_neg x \<noteq> f32_neg y)"
proof -
  assume n: "\<not> f32_nan (f32_mul x y)"
  have q: "f32_nan f32_quiet_nan" by code_simp
  have "f32_neg (f32_infinity True)" "\<not> f32_neg (f32_infinity False)" by (code_simp; fail)+
  then have i: "f32_neg (f32_infinity b) = b" for b by (cases b) simp_all
  let ?neg = "f32_neg x \<noteq> f32_neg y"
  have "f32_mul x y = f32_quiet_nan \<or> f32_mul x y = f32_infinity ?neg
      \<or> f32_mul x y = f32_round ?neg (f32_mant x * f32_mant y) (f32_pow x + f32_pow y)"
    unfolding f32_mul_def Let_def by presburger
  then show ?thesis
  proof (elim disjE)
    assume e: "f32_mul x y = f32_infinity ?neg"
    show ?thesis unfolding e by (rule i)
  next
    assume e: "f32_mul x y = f32_round ?neg (f32_mant x * f32_mant y) (f32_pow x + f32_pow y)"
    show ?thesis unfolding e by (rule f32_round_neg)
  qed (use n q in simp)
qed

lemma f32_neg_zero:
  assumes "f32_neg x" "\<not> f32_lt x 0" "\<not> f32_nan x" shows "x = 0x80000000"
proof -
  have "\<not> f32_nan 0" "f32_key 0 = 0" by (code_simp; fail)+
  with assms have "\<not> f32_key x < 0" by (simp add: f32_lt_def)
  moreover have "f32_key x = - int (unat (and x 0x7FFFFFFF))"
    using assms(1) unfolding f32_key_def f32_neg_def by (simp only: if_True)
  ultimately have "unat (and x 0x7FFFFFFF) = 0" by linarith
  then have z: "and x 0x7FFFFFFF = 0" by (simp add: unat_eq_0)
  have "(0x7FFFFFFF :: u32) = mask 31" by (simp add: mask_eq_exp_minus_1)
  then have t: "take_bit 31 x = 0" using z by (simp add: take_bit_eq_mask)
  have "list_all (\<lambda>n. bit (0x80000000 :: u32) n = (n = 31)) [0..<32]" by code_simp
  then have top: "bit (0x80000000 :: u32) n \<longleftrightarrow> n = 31" if "n < 32" for n
    using that by (simp add: list_all_iff)
  show ?thesis
  proof (rule bit_word_eqI)
    fix n assume n: "n < LENGTH(32)"
    show "bit x n = bit (0x80000000 :: u32) n"
    proof (cases "n = 31")
      case True
      then show ?thesis using assms(1) top by (simp add: f32_neg_def)
    next
      case False
      then have lt: "n < 31" using n by simp
      have "\<not> bit (take_bit 31 x) n" using t by simp
      with lt have "\<not> bit x n" by (simp only: bit_take_bit_iff) simp
      then show ?thesis using top [of n] False lt by simp
    qed
  qed
qed

end
