(* ===== verification/Peer.thy ===== *)
theory Peer
  imports Float32 Machine "HOL-Library.Multiset"
begin

text \<open>
  The peers of the distance measurement (\<open>app/ble/nrf_dm_nrf52840_dongle_v191/src/peer.c\<close>,
  \<open>service.c\<close>): the list of known devices with their last results and timeouts, the choice of the
  peer the LEDs show, the filter in front of the LEDs and the reports to the connected client.

  An entry is a block of the kernel heap by its address (0 is NULL); a block that was allocated and not
  yet given a result has no result (\<open>None\<close>), since its bytes are indeterminate, and reading it gives
  \<open>None\<close>, as does a block that was freed. The heap is a parameter (what \<open>k_heap_alloc\<close> returns
  for the blocks in use). The timer's handler runs in an interrupt and shares the list, the
  blocks and the filter with the thread; the runs below have its ticks between the turns of the thread,
  and section ``The timer against the thread'' shows what happens otherwise. Numbers are
  the single-precision floats of theory Float32.
\<close>

section \<open>Data\<close>

type_synonym bt_addr = nat

datatype dm_ranging_mode = DM_RANGING_MODE_RTT | DM_RANGING_MODE_MCPD

datatype dm_quality =
  DM_QUALITY_OK | DM_QUALITY_POOR | DM_QUALITY_DO_NOT_USE | DM_QUALITY_CRC_FAIL | DM_QUALITY_NONE

record dm_result =
  r_addr :: bt_addr
  r_quality :: dm_quality
  r_mode :: dm_ranging_mode
  r_rtt :: f32
  r_ifft :: f32
  r_phase_slope :: f32
  r_rssi_openspace :: f32
  r_best :: f32

record peer_entry =
  pe_addr :: bt_addr
  pe_result :: "dm_result option"
  pe_timeout_ms :: u16

datatype ddfs_quality =
  BT_DDFS_QUALITY_OK | BT_DDFS_QUALITY_POOR | BT_DDFS_QUALITY_DO_NOT_USE | BT_DDFS_QUALITY_NONE

datatype dist_estimates = EstRtt u16 | EstMcpd u16 u16 u16 u16

record ddfs_measurement =
  dd_addr :: bt_addr
  dd_quality :: ddfs_quality
  dd_estimates :: dist_estimates

record peers =
  peer_list :: "ptr list"
  peer_store :: "ptr \<Rightarrow> peer_entry option"
  closest_peer :: ptr
  access_address :: u32
  ranging_mode :: dm_ranging_mode
  result_msgq :: "dm_result list"
  filt_buf :: "f32 list"
  collect_cnt :: u8
  rgb_leds :: "bool \<times> bool \<times> bool"
  notified :: "ddfs_measurement list"

definition PEER_TIMEOUT_STEP_MS :: u16 where "PEER_TIMEOUT_STEP_MS = 500"
definition PEER_TIMEOUT_INIT_MS :: u16 where "PEER_TIMEOUT_INIT_MS = 10000"
definition TOTAL_NUM_FILTER :: nat where "TOTAL_NUM_FILTER = 6"
definition EX_NUM_FILTER :: nat where "EX_NUM_FILTER = 2"
definition RESULT_MSGQ_MAX :: nat where "RESULT_MSGQ_MAX = 16"

section \<open>The closest peer\<close>

definition result_of :: "peers \<Rightarrow> ptr \<Rightarrow> dm_result option" where
  "result_of s p = Option.bind (peer_store s p) pe_result"

definition mcpd_min_peer_result :: "peers \<Rightarrow> ptr \<Rightarrow> ptr \<Rightarrow> ptr option" where
  "mcpd_min_peer_result s a b =
     (if a = 0 \<and> b = 0 then Some 0
      else if a = 0
      then map_option (\<lambda>r. if r_mode r = DM_RANGING_MODE_MCPD then b else 0) (result_of s b)
      else if b = 0
      then map_option (\<lambda>r. if r_mode r = DM_RANGING_MODE_MCPD then a else 0) (result_of s a)
      else Option.bind (result_of s a) (\<lambda>ra. Option.bind (result_of s b) (\<lambda>rb.
        Some (case (r_mode ra, r_mode rb) of
            (DM_RANGING_MODE_RTT, DM_RANGING_MODE_RTT) \<Rightarrow> 0
          | (DM_RANGING_MODE_RTT, DM_RANGING_MODE_MCPD) \<Rightarrow> b
          | (DM_RANGING_MODE_MCPD, DM_RANGING_MODE_RTT) \<Rightarrow> a
          | (DM_RANGING_MODE_MCPD, DM_RANGING_MODE_MCPD) \<Rightarrow>
              if f32_lt (r_best rb) (r_best ra) then a else b))))"

fun closest_loop :: "peers \<Rightarrow> ptr list \<Rightarrow> ptr \<Rightarrow> ptr option" where
  "closest_loop s [] c = Some c"
| "closest_loop s (p # ps) c = Option.bind (mcpd_min_peer_result s c p) (closest_loop s ps)"

definition peer_find_closest :: "peers \<Rightarrow> ptr option" where
  "peer_find_closest s =
     (case peer_list s of [] \<Rightarrow> Some 0 | h # _ \<Rightarrow> closest_loop s (peer_list s) h)"

section \<open>The filter\<close>

definition swap :: "f32 list \<Rightarrow> nat \<Rightarrow> nat \<Rightarrow> f32 list" where
  "swap arr x y = arr[x := arr ! y, y := arr ! x]"

function find_min :: "f32 list \<Rightarrow> nat \<Rightarrow> nat \<Rightarrow> nat \<Rightarrow> nat" where
  "find_min arr n j min_idx =
     (if j < n then find_min arr n (j + 1) (if f32_lt (arr ! j) (arr ! min_idx) then j else min_idx)
      else min_idx)"
  by auto
termination by (relation "measure (\<lambda>(arr, n, j, m). n - j)") auto

function sort_from :: "f32 list \<Rightarrow> nat \<Rightarrow> nat \<Rightarrow> f32 list" where
  "sort_from arr n i =
     (if i < n - 1 then sort_from (swap arr (find_min arr n (i + 1) i) i) n (i + 1) else arr)"
  by auto
termination by (relation "measure (\<lambda>(arr, n, i). n - i)") auto

declare find_min.simps [simp del] sort_from.simps [simp del]

definition selectionSort :: "f32 list \<Rightarrow> nat \<Rightarrow> f32 list" where
  "selectionSort arr n = sort_from arr n 0"

function average_loop :: "f32 list \<Rightarrow> nat \<Rightarrow> f32 \<Rightarrow> f32" where
  "average_loop buf i tot =
     (if i < TOTAL_NUM_FILTER - EX_NUM_FILTER
      then average_loop buf (i + 1) (f32_add tot (buf ! i)) else tot)"
  by auto
termination by (relation "measure (\<lambda>(buf, i, t). TOTAL_NUM_FILTER - i)") (auto simp: TOTAL_NUM_FILTER_def)

declare average_loop.simps [simp del]

text \<open>The divisor \<open>TOTAL_NUM_FILTER - EX_NUM_FILTER * 2\<close> is 2.\<close>

definition average_cacu :: "f32 list \<Rightarrow> f32" where
  "average_cacu buf = f32_half (average_loop buf EX_NUM_FILTER 0)"

definition data_collect :: "f32 \<Rightarrow> peers \<Rightarrow> (u8 \<times> peers) option" where
  "data_collect x s =
     (if length (filt_buf s) \<le> unat (collect_cnt s) then None
      else (let s1 = s\<lparr>filt_buf := (filt_buf s)[unat (collect_cnt s) := x], collect_cnt := collect_cnt s + 1\<rparr>
            in Some (collect_cnt s1, s1)))"

definition filter_result :: "f32 \<Rightarrow> peers \<Rightarrow> (f32 option \<times> peers) option" where
  "filter_result x s = Option.bind (data_collect x s) (\<lambda>(n, s1).
     if unat n = TOTAL_NUM_FILTER
     then (let sorted_buf = selectionSort (filt_buf s1) TOTAL_NUM_FILTER
           in Some (Some (average_cacu sorted_buf), s1\<lparr>filt_buf := sorted_buf, collect_cnt := 0\<rparr>))
     else Some (None, s1))"

section \<open>Notifications\<close>

definition leds_off :: "bool \<times> bool \<times> bool" where "leds_off = (False, False, False)"

text \<open>The LEDs for a filtered distance in metres: off above 7 m, green up to 1 m, else red.\<close>

definition leds_for :: "f32 \<Rightarrow> bool \<times> bool \<times> bool" where
  "leds_for avg =
     (let res = f32_mul avg (f32_of_nat 10) in
      if f32_lt (f32_of_nat 70) res then leds_off
      else if f32_le res (f32_of_nat 10) then (False, True, False)
      else (True, False, False))"

definition led_notification :: "ptr \<Rightarrow> peers \<Rightarrow> peers option" where
  "led_notification p s =
     (if p = 0 then Some (s\<lparr>rgb_leds := leds_off\<rparr>)
      else Option.bind (result_of s p) (\<lambda>r.
        let res0 = (if r_mode r = DM_RANGING_MODE_RTT then r_rtt r else r_best r);
            res = (if f32_lt res0 0 then 0 else res0)
        in map_option (\<lambda>(out, s1). case out of None \<Rightarrow> s1 | Some avg \<Rightarrow> s1\<lparr>rgb_leds := leds_for avg\<rparr>)
             (filter_result res s)))"

definition print_result :: "dm_result \<Rightarrow> peers \<Rightarrow> peers option" where
  "print_result r s =
     map_option snd (filter_result (if r_mode r = DM_RANGING_MODE_RTT then r_rtt r else r_best r) s)"

definition meter_to_decimeter :: "f32 \<Rightarrow> u16 option" where
  "meter_to_decimeter value =
     (let val = f32_mul (if f32_lt value 0 then 0 else value) (f32_of_nat 10) in
      if f32_lt val (f32_of_nat 65535) then f32_to_u16 val else Some 65535)"

fun quality_code :: "dm_quality \<Rightarrow> ddfs_quality" where
  "quality_code DM_QUALITY_OK = BT_DDFS_QUALITY_OK"
| "quality_code DM_QUALITY_POOR = BT_DDFS_QUALITY_POOR"
| "quality_code DM_QUALITY_DO_NOT_USE = BT_DDFS_QUALITY_DO_NOT_USE"
| "quality_code DM_QUALITY_CRC_FAIL = BT_DDFS_QUALITY_DO_NOT_USE"
| "quality_code DM_QUALITY_NONE = BT_DDFS_QUALITY_NONE"

definition service_distance_measurement_update :: "bt_addr \<Rightarrow> dm_result \<Rightarrow> peers \<Rightarrow> peers option" where
  "service_distance_measurement_update a r s =
     map_option (\<lambda>est. s\<lparr>notified := notified s @ [\<lparr>dd_addr = a, dd_quality = quality_code (r_quality r),
                                               dd_estimates = est\<rparr>]\<rparr>)
       (if r_mode r = DM_RANGING_MODE_RTT then map_option EstRtt (meter_to_decimeter (r_rtt r))
        else Option.bind (meter_to_decimeter (r_ifft r)) (\<lambda>i.
             Option.bind (meter_to_decimeter (r_phase_slope r)) (\<lambda>p.
             Option.bind (meter_to_decimeter (r_rssi_openspace r)) (\<lambda>o'.
             Option.bind (meter_to_decimeter (r_best r)) (\<lambda>b. Some (EstMcpd i p o' b))))))"

definition ble_notification :: "ptr \<Rightarrow> peers \<Rightarrow> peers option" where
  "ble_notification p s = Option.bind (peer_store s p) (\<lambda>e.
     Option.bind (pe_result e) (\<lambda>r. service_distance_measurement_update (pe_addr e) r s))"

section \<open>The list of peers\<close>

definition peer_find :: "bt_addr \<Rightarrow> peers \<Rightarrow> ptr" where
  "peer_find a s =
     (case filter (\<lambda>p. map_option pe_addr (peer_store s p) = Some a) (peer_list s) of
        [] \<Rightarrow> 0 | p # _ \<Rightarrow> p)"

definition peer_supported_test :: "bt_addr \<Rightarrow> peers \<Rightarrow> bool" where
  "peer_supported_test a s \<longleftrightarrow> (\<exists>p\<in>set (peer_list s). map_option pe_addr (peer_store s p) = Some a)"

type_synonym heap_alloc = "(ptr \<Rightarrow> peer_entry option) \<Rightarrow> ptr"

definition peer_supported_add :: "heap_alloc \<Rightarrow> bt_addr \<Rightarrow> peers \<Rightarrow> int \<times> peers" where
  "peer_supported_add alloc a s =
     (if peer_supported_test a s then (0, s)
      else
        (let item = alloc (peer_store s) in
         if item = 0 then (- ENOMEM, s)
         else (0, s\<lparr>peer_store := (peer_store s)(item \<mapsto>
                      \<lparr>pe_addr = a, pe_result = None, pe_timeout_ms = PEER_TIMEOUT_INIT_MS\<rparr>),
                    peer_list := peer_list s @ [item]\<rparr>)))"

text \<open>
  \<open>sys_slist_remove\<close> with no previous node makes the node's successor the head: the node leaves the list,
  and so do all the nodes before it.
\<close>

definition slist_remove_from_head :: "ptr \<Rightarrow> ptr list \<Rightarrow> ptr list" where
  "slist_remove_from_head p ps = tl (dropWhile (\<lambda>q. q \<noteq> p) ps)"

text \<open>One node of the timeout handler's walk over the list.\<close>

definition timeout_node :: "ptr \<Rightarrow> peers \<Rightarrow> peers option" where
  "timeout_node p s =
     (case peer_store s p of
        None \<Rightarrow> None
      | Some e \<Rightarrow>
          if PEER_TIMEOUT_STEP_MS < pe_timeout_ms e
          then Some (s\<lparr>peer_store := (peer_store s)(p \<mapsto>
                        e\<lparr>pe_timeout_ms := pe_timeout_ms e - PEER_TIMEOUT_STEP_MS\<rparr>)\<rparr>)
          else
            (let s1 = s\<lparr>peer_list := slist_remove_from_head p (peer_list s), peer_store := (peer_store s)(p := None)\<rparr>
             in Option.bind (peer_find_closest s1) (\<lambda>c. led_notification c (s1\<lparr>closest_peer := c\<rparr>))))"

definition timeout_handler :: "peers \<Rightarrow> peers option" where
  "timeout_handler s = run timeout_node (peer_list s) s"

definition peer_update :: "dm_result \<Rightarrow> peers \<Rightarrow> peers" where
  "peer_update r s =
     (if length (result_msgq s) < RESULT_MSGQ_MAX then s\<lparr>result_msgq := result_msgq s @ [r]\<rparr> else s)"

text \<open>The thread writes a result into the entry it found.\<close>

definition thread_store :: "dm_result \<Rightarrow> ptr \<Rightarrow> peers \<Rightarrow> peers option" where
  "thread_store r p s =
     map_option (\<lambda>e. s\<lparr>peer_store := (peer_store s)(p \<mapsto>
         e\<lparr>pe_result := Some r, pe_timeout_ms := PEER_TIMEOUT_INIT_MS\<rparr>)\<rparr>) (peer_store s p)"

text \<open>One undisturbed turn of \<open>peer_thread\<close>; with an empty queue the thread waits.\<close>

definition peer_thread_step :: "peers \<Rightarrow> peers option" where
  "peer_thread_step s =
     (case result_msgq s of
        [] \<Rightarrow> Some s
      | r # q \<Rightarrow>
          (let s1 = s\<lparr>result_msgq := q\<rparr>; p = peer_find (r_addr r) s1 in
           if p = 0 then Some s1
           else
             Option.bind (thread_store r p s1) (\<lambda>s1'.
             Option.bind (print_result r s1') (\<lambda>s2.
             Option.bind (mcpd_min_peer_result s2 (closest_peer s2) p) (\<lambda>c.
             Option.bind (led_notification c (s2\<lparr>closest_peer := c\<rparr>)) (ble_notification p))))))"

section \<open>Mode and access address\<close>

definition peer_ranging_mode_set :: "dm_ranging_mode \<Rightarrow> peers \<Rightarrow> peers" where
  "peer_ranging_mode_set m s = s\<lparr>ranging_mode := m\<rparr>"

definition peer_ranging_mode_get :: "peers \<Rightarrow> dm_ranging_mode" where
  "peer_ranging_mode_get s = ranging_mode s"

text \<open>\<open>ident\<close> are the bytes of the identity address that \<open>bt_id_get\<close> stores.\<close>

definition peer_access_address_prepare :: "u8 list \<Rightarrow> peers \<Rightarrow> int \<times> peers" where
  "peer_access_address_prepare ident s =
     (let a0 = ucast (ident ! 0) :: u32;
          a1 = or a0 (push_bit 8 (ucast (ident ! 1)));
          a2 = or a1 (push_bit 16 (ucast (ident ! 2)));
          a3 = or a2 (push_bit 24 (ucast (ident ! 3)));
          s1 = s\<lparr>access_address := a3\<rparr>
      in (if a3 = 0 then - EFAULT else 0, s1))"

definition peer_access_address_get :: "peers \<Rightarrow> u32" where
  "peer_access_address_get s = access_address s"

text \<open>\<open>rtt\<close> and \<open>mcpd\<close> are the service's codes of the two modes.\<close>

definition dm_ranging_mode_set :: "u8 \<Rightarrow> u8 \<Rightarrow> u8 \<Rightarrow> peers \<Rightarrow> int \<times> peers" where
  "dm_ranging_mode_set rtt mcpd mode s =
     (if mode = rtt then (0, peer_ranging_mode_set DM_RANGING_MODE_RTT s)
      else if mode = mcpd then (0, peer_ranging_mode_set DM_RANGING_MODE_MCPD s)
      else (- 1, s))"

definition dm_config_read :: "u8 \<Rightarrow> u8 \<Rightarrow> peers \<Rightarrow> u8" where
  "dm_config_read rtt mcpd s =
     (case peer_ranging_mode_get s of DM_RANGING_MODE_RTT \<Rightarrow> rtt | DM_RANGING_MODE_MCPD \<Rightarrow> mcpd)"

text \<open>
  The simulated azimuth and elevation for a random number: quality, elevation in degrees as
  the 8-bit field holds it, azimuth. \<open>worst\<close> is the service's code of \<open>DO_NOT_USE\<close>.
\<close>

definition azimuth_elevation :: "u32 \<Rightarrow> u32 \<Rightarrow> u32 \<times> 8 word \<times> u16" where
  "azimuth_elevation worst rand =
     (rand mod (worst + 1), ucast (- 90 + rand mod 91), ucast (rand mod 360))"

section \<open>Sorting\<close>

lemma find_min_bounds:
  "min_idx < n \<Longrightarrow> i \<le> min_idx \<Longrightarrow> i \<le> j \<Longrightarrow> i \<le> find_min arr n j min_idx \<and> find_min arr n j min_idx < n"
proof (induction arr n j min_idx rule: find_min.induct)
  case (1 arr n j m)
  show ?case
  proof (cases "j < n")
    case True
    let ?m = "if f32_lt (arr ! j) (arr ! m) then j else m"
    have "?m < n" "i \<le> ?m" "i \<le> j + 1" using 1 True by auto
    from 1(1) [OF True this] show ?thesis using True by (simp add: find_min.simps [of arr n j m])
  next
    case False
    then show ?thesis using 1 by (simp add: find_min.simps [of arr n j m])
  qed
qed

lemma f32_not_lt_key: "\<not> f32_nan x \<Longrightarrow> \<not> f32_nan y \<Longrightarrow> \<not> f32_lt x y \<longleftrightarrow> f32_key y \<le> f32_key x"
  by (auto simp: f32_lt_def)

lemma find_min_least:
  assumes nan: "\<forall>k<n. \<not> f32_nan (arr ! k)"
  shows "min_idx < n \<Longrightarrow> i \<le> j \<Longrightarrow> \<forall>k. i \<le> k \<and> k < j \<longrightarrow> f32_key (arr ! min_idx) \<le> f32_key (arr ! k) \<Longrightarrow>
    i \<le> k \<Longrightarrow> k < n \<Longrightarrow> f32_key (arr ! find_min arr n j min_idx) \<le> f32_key (arr ! k)"
  using nan
proof (induction arr n j min_idx rule: find_min.induct)
  case (1 arr n j m)
  show ?case
  proof (cases "j < n")
    case True
    let ?m = "if f32_lt (arr ! j) (arr ! m) then j else m"
    have nn: "\<not> f32_nan (arr ! j)" "\<not> f32_nan (arr ! m)" using 1(2,7) True by auto
    have "?m < n" using 1(2) True by simp
    moreover have "i \<le> j + 1" using 1(3) by simp
    moreover have "\<forall>k. i \<le> k \<and> k < j + 1 \<longrightarrow> f32_key (arr ! ?m) \<le> f32_key (arr ! k)"
    proof (intro allI impI)
      fix k assume k: "i \<le> k \<and> k < j + 1"
      show "f32_key (arr ! ?m) \<le> f32_key (arr ! k)"
      proof (cases "k = j")
        case True
        then show ?thesis using nn by (auto simp: f32_lt_def)
      next
        case False
        then have "f32_key (arr ! m) \<le> f32_key (arr ! k)" using 1(4) k by simp
        then show ?thesis using nn by (auto simp: f32_lt_def)
      qed
    qed
    ultimately show ?thesis using 1(1) [OF True _ _ _ 1(5,6,7)] True
      by (simp add: find_min.simps [of arr n j m])
  next
    case False
    then show ?thesis using 1(3-6) by (simp add: find_min.simps [of arr n j m])
  qed
qed

lemma length_swap [simp]: "length (swap arr x y) = length arr"
  by (simp add: swap_def)

lemma mset_swap_arr: "x < length arr \<Longrightarrow> y < length arr \<Longrightarrow> mset (swap arr x y) = mset arr"
  unfolding swap_def by (rule mset_swap)

lemma sort_from_perm:
  "length arr = n \<Longrightarrow> length (sort_from arr n i) = n \<and> mset (sort_from arr n i) = mset arr"
proof (induction arr n i rule: sort_from.induct)
  case (1 arr n i)
  show ?case
  proof (cases "i < n - 1")
    case True
    let ?m = "find_min arr n (i + 1) i"
    have "?m < n" using find_min_bounds [of i n i "i + 1" arr] True by simp
    then have "mset (swap arr ?m i) = mset arr" using 1(2) True by (intro mset_swap_arr) auto
    with 1(1) [OF True] 1(2) True show ?thesis by (simp add: sort_from.simps [of arr n i])
  next
    case False
    then show ?thesis using 1(2) by (simp add: sort_from.simps [of arr n i])
  qed
qed

definition sorted_upto :: "f32 list \<Rightarrow> nat \<Rightarrow> bool" where
  "sorted_upto arr i \<longleftrightarrow>
     (\<forall>k l. k < i \<longrightarrow> k \<le> l \<longrightarrow> l < length arr \<longrightarrow> f32_key (arr ! k) \<le> f32_key (arr ! l))"

lemma sort_from_sorted:
  "length arr = n \<Longrightarrow> \<forall>x\<in>set arr. \<not> f32_nan x \<Longrightarrow> sorted_upto arr i \<Longrightarrow>
     sorted_upto (sort_from arr n i) (max i (n - 1))"
proof (induction arr n i rule: sort_from.induct)
  case (1 arr n i)
  show ?case
  proof (cases "i < n - 1")
    case True
    let ?m = "find_min arr n (i + 1) i"
    let ?b = "swap arr ?m i"
    have m: "i \<le> ?m" "?m < n" using find_min_bounds [of i n i "i + 1" arr] True by simp_all
    have least: "f32_key (arr ! ?m) \<le> f32_key (arr ! k)" if "i \<le> k" "k < n" for k
    proof -
      have "\<forall>k<n. \<not> f32_nan (arr ! k)" using 1(2,3) by simp
      moreover have "\<forall>k. i \<le> k \<and> k < i + 1 \<longrightarrow> f32_key (arr ! i) \<le> f32_key (arr ! k)"
        by (auto simp: less_Suc_eq)
      ultimately show ?thesis using find_min_least [of n arr i i "i + 1" k] that True by simp
    qed
    have len: "length ?b = n" using 1(2) by simp
    have set: "set ?b = set arr"
      using mset_swap_arr [of ?m arr i] m 1(2) True by (metis mset_eq_setD less_diff_conv add_lessD1)
    have nth: "?b ! k = (if k = i then arr ! ?m else if k = ?m then arr ! i else arr ! k)" if "k < n" for k
      using that 1(2) True m by (simp add: swap_def nth_list_update)
    have "sorted_upto ?b (i + 1)"
      unfolding sorted_upto_def len
    proof (intro allI impI)
      fix k l assume k: "k < i + 1" and kl: "k \<le> l" and l: "l < n"
      show "f32_key (?b ! k) \<le> f32_key (?b ! l)"
      proof (cases "k = i")
        case True
        then show ?thesis using kl l m least nth [of k] nth [of l] by auto
      next
        case False
        then have "k < i" using k by simp
        then have "f32_key (arr ! k) \<le> f32_key (arr ! x)" if "i \<le> x \<or> x = l" "x < n" for x
          using 1(4) kl that 1(2) by (auto simp: sorted_upto_def)
        then show ?thesis using False \<open>k < i\<close> kl l m nth [of k] nth [of l] by auto
      qed
    qed
    from 1(1) [OF True len _ this] 1(3) set True show ?thesis
      by (simp add: sort_from.simps [of arr n i])
  next
    case False
    then show ?thesis using 1(4) by (simp add: sort_from.simps [of arr n i] max_absorb1)
  qed
qed

text \<open>
  The selection sort returns a permutation of the array, and when no element is a NaN the
  result is in ascending order of the floats.
\<close>

theorem selection_sort_correct:
  assumes "length arr = n"
  shows "length (selectionSort arr n) = n \<and> mset (selectionSort arr n) = mset arr
     \<and> ((\<forall>x\<in>set arr. \<not> f32_nan x) \<longrightarrow> sorted_wrt (\<lambda>x y. f32_le x y) (selectionSort arr n))"
proof -
  note p = sort_from_perm [OF assms, of 0]
  have "sorted_wrt (\<lambda>x y. f32_le x y) (sort_from arr n 0)" if nan: "\<forall>x\<in>set arr. \<not> f32_nan x"
  proof -
    have "sorted_upto arr 0" by (simp add: sorted_upto_def)
    from sort_from_sorted [OF assms nan this] have s: "sorted_upto (sort_from arr n 0) (n - 1)" by simp
    have "set (sort_from arr n 0) = set arr" using p by (metis mset_eq_setD)
    then have nn: "\<not> f32_nan (sort_from arr n 0 ! k)" if "k < n" for k using that nan p by (metis nth_mem)
    show ?thesis
      using s p nn by (auto simp: sorted_wrt_iff_nth_less sorted_upto_def f32_le_def)
  qed
  with p show ?thesis by (simp add: selectionSort_def)
qed

section \<open>The filter\<close>

primrec feed :: "f32 list \<Rightarrow> peers \<Rightarrow> (f32 option list \<times> peers) option" where
  "feed [] s = Some ([], s)"
| "feed (x # xs) s = Option.bind (filter_result x s) (\<lambda>(out, s1).
     map_option (\<lambda>(outs, s2). (out # outs, s2)) (feed xs s1))"

lemma average_middle: "average_cacu buf = f32_half (f32_add (f32_add 0 (buf ! 2)) (buf ! 3))"
  unfolding average_cacu_def
  by (subst average_loop.simps, subst average_loop.simps, subst average_loop.simps)
    (simp add: TOTAL_NUM_FILTER_def EX_NUM_FILTER_def)

lemma collect_step:
  assumes "length (filt_buf s) = 6" "unat (collect_cnt s) < 6"
  shows "filter_result x s =
    (let buf = (filt_buf s)[unat (collect_cnt s) := x] in
     if unat (collect_cnt s) = 5
     then Some (Some (average_cacu (selectionSort buf 6)), s\<lparr>filt_buf := selectionSort buf 6, collect_cnt := 0\<rparr>)
     else Some (None, s\<lparr>filt_buf := buf, collect_cnt := collect_cnt s + 1\<rparr>))"
proof -
  have "unat (collect_cnt s + 1) = unat (collect_cnt s) + 1"
    using assms(2) by (subst unat_plus_nowrap) simp_all
  then show ?thesis using assms
    by (simp add: filter_result_def data_collect_def TOTAL_NUM_FILTER_def Let_def)
qed

lemma feed_partial:
  "length (filt_buf s) = 6 \<Longrightarrow> unat (collect_cnt s) + length xs \<le> 5 \<Longrightarrow>
    feed xs s = Some (replicate (length xs) None,
      s\<lparr>filt_buf := take (unat (collect_cnt s)) (filt_buf s) @ xs
          @ drop (unat (collect_cnt s) + length xs) (filt_buf s),
        collect_cnt := collect_cnt s + of_nat (length xs)\<rparr>)"
proof (induction xs arbitrary: s)
  case Nil
  then show ?case by simp
next
  case (Cons x xs)
  let ?c = "unat (collect_cnt s)"
  let ?s1 = "s\<lparr>filt_buf := (filt_buf s)[?c := x], collect_cnt := collect_cnt s + 1\<rparr>"
  have c1: "unat (collect_cnt s + 1) = ?c + 1" using Cons.prems(2) by (subst unat_plus_nowrap) simp_all
  have f: "filter_result x s = Some (None, ?s1)"
    using Cons.prems by (simp add: collect_step Let_def)
  have "length (filt_buf ?s1) = 6" "unat (collect_cnt ?s1) + length xs \<le> 5" using Cons.prems c1 by simp_all
  from Cons.IH [OF this] f c1 Cons.prems show ?case
    by (simp add: take_Suc_conv_app_nth upd_conv_take_nth_drop algebra_simps)
qed

lemma feed_append:
  "feed (xs @ ys) s = Option.bind (feed xs s) (\<lambda>(o1, s1).
     map_option (\<lambda>(o2, s2). (o1 @ o2, s2)) (feed ys s1))"
  by (induction xs arbitrary: s)
    (auto simp: map_option_case split: Option.bind_split option.splits prod.splits)

lemma filter_six:
  assumes "length (filt_buf s) = 6" "collect_cnt s = 0" "length xs = 6"
  shows "\<exists>s'. feed xs s = Some (replicate 5 None
         @ [Some (f32_half (f32_add (f32_add 0 (selectionSort xs 6 ! 2)) (selectionSort xs 6 ! 3)))], s')
     \<and> collect_cnt s' = 0 \<and> filt_buf s' = selectionSort xs 6 \<and> rgb_leds s' = rgb_leds s"
proof -
  define ys where "ys = butlast xs"
  have ne: "xs \<noteq> []" using assms(3) by auto
  have xs: "xs = ys @ [last xs]" using ne by (simp add: ys_def)
  have len: "length ys = 5" using assms(3) by (simp add: ys_def)
  define s1 where "s1 = s\<lparr>filt_buf := ys @ drop 5 (filt_buf s), collect_cnt := 5\<rparr>"
  have f1: "feed ys s = Some (replicate 5 None, s1)"
    using feed_partial [of s ys] assms(1,2) len by (simp add: s1_def)
  have "length (drop 5 (filt_buf s)) = 1" using assms(1) by simp
  then obtain b where b: "drop 5 (filt_buf s) = [b]" by (auto simp: length_Suc_conv simp del: length_drop)
  have "(ys @ [b])[5 := last xs] = xs" using len xs by (simp add: list_update_append)
  then have "filter_result (last xs) s1 = Some (Some (average_cacu (selectionSort xs 6)),
      s1\<lparr>filt_buf := selectionSort xs 6, collect_cnt := 0\<rparr>)"
    using collect_step [of s1 "last xs"] len by (simp add: s1_def b Let_def)
  then have "feed (ys @ [last xs]) s = Some (replicate 5 None @ [Some (average_cacu (selectionSort xs 6))],
      s1\<lparr>filt_buf := selectionSort xs 6, collect_cnt := 0\<rparr>)"
    by (simp add: feed_append f1)
  then show ?thesis using xs by (auto simp: s1_def average_middle)
qed

text \<open>
  C28: started empty, six calls of the filter, none interrupting another, give nothing five times and then the
  mean of the third and the fourth of the six values in order: the sum of the middle two, rounded,
  halved. The order is ascending when no value is a NaN. The filter then holds the six values and
  starts over, and the LEDs are as before.
\<close>

theorem filter_every_sixth:
  assumes "length (filt_buf s) = 6" "collect_cnt s = 0" "length xs = 6"
  shows "\<exists>ys s'. feed xs s = Some (replicate 5 None @ [Some (f32_half (f32_add (f32_add 0 (ys ! 2)) (ys ! 3)))], s')
     \<and> mset ys = mset xs \<and> ((\<forall>x\<in>set xs. \<not> f32_nan x) \<longrightarrow> sorted_wrt f32_le ys)
     \<and> collect_cnt s' = 0 \<and> filt_buf s' = ys \<and> rgb_leds s' = rgb_leds s"
  using filter_six [OF assms] selection_sort_correct [OF assms(3)] by fastforce

section \<open>Distances in decimetres\<close>

lemma decimeter_cases:
  "(\<exists>d. meter_to_decimeter value = Some d) \<and> (f32_lt value 0 \<longrightarrow> meter_to_decimeter value = Some 0)
     \<and> (f32_nan value \<or> f32_inf value \<and> \<not> f32_neg value \<longrightarrow> meter_to_decimeter value = Some 65535)"
proof -
  define x where "x = (if f32_lt value 0 then 0 else value)"
  define val where "val = f32_mul x (f32_of_nat 10)"
  have ten: "\<not> f32_neg (f32_of_nat 10)" "\<not> f32_nan (f32_of_nat 10)" "\<not> f32_inf (f32_of_nat 10)"
    "f32_mant (f32_of_nat 10) \<noteq> 0" by (code_simp; fail)+
  have z: "f32_lt (f32_mul 0 (f32_of_nat 10)) (f32_of_nat 65535)"
    "f32_to_u16 (f32_mul 0 (f32_of_nat 10)) = Some 0"
    "f32_to_u16 (f32_mul 0x80000000 (f32_of_nat 10)) = Some 0" by (code_simp; fail)+
  have big: "\<not> f32_lt f32_quiet_nan (f32_of_nat 65535)" "\<not> f32_lt (f32_infinity False) (f32_of_nat 65535)"
    "f32_key 0 = 0" by (code_simp; fail)+
  have m: "meter_to_decimeter value = (if f32_lt val (f32_of_nat 65535) then f32_to_u16 val else Some 65535)"
    by (simp add: meter_to_decimeter_def val_def x_def Let_def)
  have nan: "val = f32_quiet_nan" if "f32_nan x" using that by (simp add: val_def f32_mul_def Let_def)
  have safe: "\<exists>d. f32_to_u16 val = Some d" if lt: "f32_lt val (f32_of_nat 65535)"
  proof (cases "f32_neg x")
    case False
    have "\<not> f32_nan val" using lt by (simp add: f32_lt_def)
    then have "\<not> f32_neg val" using False ten(1) f32_mul_sign by (simp add: val_def)
    from f32_small_trunc [OF this lt] show ?thesis by (simp add: f32_to_u16_def)
  next
    case True
    have "\<not> f32_lt x 0" by (simp add: x_def f32_lt_irrefl)
    moreover have "\<not> f32_nan x" using nan lt big(1) by auto
    ultimately have "x = 0x80000000" using True by (intro f32_neg_zero)
    then show ?thesis using z(3) by (simp add: val_def)
  qed
  have neg: "meter_to_decimeter value = Some 0" if "f32_lt value 0"
    using that z(1,2) m by (simp add: val_def x_def)
  have odd: "meter_to_decimeter value = Some 65535" if o: "f32_nan value \<or> f32_inf value \<and> \<not> f32_neg value"
  proof -
    have nl: "\<not> f32_lt value 0" using o big(3) by (auto simp: f32_lt_def f32_key_def f32_neg_def)
    then have "val = f32_quiet_nan \<or> val = f32_infinity False"
      using o ten by (auto simp: val_def x_def f32_mul_def Let_def f32_inf_def f32_nan_def)
    then show ?thesis using m big by auto
  qed
  from safe m have "\<exists>d. meter_to_decimeter value = Some d" by auto
  with neg odd show ?thesis by blast
qed

lemma decimeter_total: "\<exists>d. meter_to_decimeter value = Some d"
  using decimeter_cases by blast

text \<open>
  Every measured distance is converted to decimetres without undefined behaviour: the product is
  converted to 16 bits only when it fits, negative distances give 0, and an infinite or
  undefined one gives 65535.
\<close>

theorem decimeter_defined:
  "\<exists>d. meter_to_decimeter value = Some d \<and> (f32_lt value 0 \<longrightarrow> d = 0)
     \<and> (f32_nan value \<or> f32_inf value \<and> \<not> f32_neg value \<longrightarrow> d = 65535)"
  using decimeter_cases [of "value"] by auto

theorem decimeter_defined_witness:
  "meter_to_decimeter 0xBF800000 = Some 0 \<and> meter_to_decimeter 0x7F800000 = Some 65535"
proof -
  have "f32_lt 0xBF800000 0" "f32_inf 0x7F800000 \<and> \<not> f32_neg 0x7F800000" by (code_simp; fail)+
  then show ?thesis using decimeter_defined [of "0xBF800000"] decimeter_defined [of "0x7F800000"] by auto
qed

section \<open>The invariant of the peers\<close>

definition measured :: "peers \<Rightarrow> bool" where
  "measured s \<longleftrightarrow> (\<forall>p\<in>set (peer_list s). result_of s p \<noteq> None)"

definition filter_ok :: "peers \<Rightarrow> bool" where
  "filter_ok s \<longleftrightarrow> length (filt_buf s) = 6 \<and> unat (collect_cnt s) < 6"

definition peers_ok :: "peers \<Rightarrow> bool" where
  "peers_ok s \<longleftrightarrow> distinct (peer_list s) \<and> 0 \<notin> set (peer_list s)
     \<and> (\<forall>p\<in>set (peer_list s). peer_store s p \<noteq> None)
     \<and> distinct (map (\<lambda>p. map_option pe_addr (peer_store s p)) (peer_list s))
     \<and> (closest_peer s = 0 \<or> closest_peer s \<in> set (peer_list s) \<and> result_of s (closest_peer s) \<noteq> None)
     \<and> length (result_msgq s) \<le> RESULT_MSGQ_MAX \<and> filter_ok s"

definition alloc_ok :: "heap_alloc \<Rightarrow> bool" where
  "alloc_ok alloc \<longleftrightarrow> (\<forall>h. alloc h = 0 \<or> h (alloc h) = None)"

text \<open>What the filter and the LEDs leave alone.\<close>

definition led_frame :: "peers \<Rightarrow> peers \<Rightarrow> bool" where
  "led_frame s s' \<longleftrightarrow> peer_list s' = peer_list s \<and> peer_store s' = peer_store s
     \<and> closest_peer s' = closest_peer s \<and> result_msgq s' = result_msgq s
     \<and> notified s' = notified s \<and> filter_ok s'"

lemma led_frame_trans: "led_frame s t \<Longrightarrow> led_frame t u \<Longrightarrow> led_frame s u"
  by (simp add: led_frame_def)

lemma led_frame_result: "led_frame s s' \<Longrightarrow> result_of s' p = result_of s p"
  by (simp add: led_frame_def result_of_def)

lemma led_frame_ok: "led_frame s s' \<Longrightarrow> peers_ok s \<Longrightarrow> peers_ok s'"
  by (simp add: led_frame_def peers_ok_def result_of_def)

lemma filter_frame:
  assumes "filter_ok s" shows "\<exists>out s'. filter_result x s = Some (out, s') \<and> led_frame s s'
    \<and> rgb_leds s' = rgb_leds s"
proof -
  have len: "length (selectionSort buf 6) = 6" if "length buf = 6" for buf
    using sort_from_perm [OF that, of 0] by (simp add: selectionSort_def)
  have "unat (collect_cnt s + 1) = unat (collect_cnt s) + 1" 
    using assms by (subst unat_plus_nowrap) (simp_all add: filter_ok_def)
  then show ?thesis using assms len collect_step [of s x]
    by (auto simp: filter_ok_def led_frame_def Let_def)
qed

lemma led_notification_total:
  assumes "filter_ok s" "p = 0 \<or> result_of s p \<noteq> None"
  shows "\<exists>s'. led_notification p s = Some s' \<and> led_frame s s'"
proof (cases "p = 0")
  case True
  then show ?thesis using assms by (simp add: led_notification_def led_frame_def filter_ok_def)
next
  case False
  then obtain r where r: "result_of s p = Some r" using assms(2) by auto
  define res where "res = (let x = (if r_mode r = DM_RANGING_MODE_RTT then r_rtt r else r_best r) in if f32_lt x 0 then 0 else x)"
  from filter_frame [OF assms(1), of res] obtain out s1 where f: "filter_result res s = Some (out, s1)" "led_frame s s1" by blast
  have "led_notification p s = Some (case out of None \<Rightarrow> s1 | Some avg \<Rightarrow> s1\<lparr>rgb_leds := leds_for avg\<rparr>)"
    using False r f(1) by (simp add: led_notification_def res_def Let_def)
  moreover have "led_frame s (case out of None \<Rightarrow> s1 | Some avg \<Rightarrow> s1\<lparr>rgb_leds := leds_for avg\<rparr>)"
    using f(2) by (auto simp: led_frame_def filter_ok_def split: option.splits)
  ultimately show ?thesis by blast
qed

lemma print_result_total:
  assumes "filter_ok s" shows "\<exists>s'. print_result r s = Some s' \<and> led_frame s s' \<and> rgb_leds s' = rgb_leds s"
proof -
  obtain out s' where
    "filter_result (if r_mode r = DM_RANGING_MODE_RTT then r_rtt r else r_best r) s = Some (out, s')"
    "led_frame s s'" "rgb_leds s' = rgb_leds s" using filter_frame [OF assms] by blast
  then show ?thesis by (simp add: print_result_def)
qed

lemma min_peer_total:
  assumes "x = 0 \<or> result_of s x \<noteq> None" "y = 0 \<or> result_of s y \<noteq> None"
  shows "\<exists>c. mcpd_min_peer_result s x y = Some c \<and> (c = 0 \<or> c = x \<or> c = y)"
  using assms by (auto simp: mcpd_min_peer_result_def split: dm_ranging_mode.splits)

lemma closest_loop_total:
  "\<forall>p\<in>set ps. result_of s p \<noteq> None \<Longrightarrow> c = 0 \<or> result_of s c \<noteq> None \<Longrightarrow>
    \<exists>d. closest_loop s ps c = Some d \<and> (d = 0 \<or> d = c \<or> d \<in> set ps)"
proof (induction ps arbitrary: c)
  case (Cons p ps)
  obtain c' where c': "mcpd_min_peer_result s c p = Some c'" "c' = 0 \<or> c' = c \<or> c' = p"
    using min_peer_total [of c s p] Cons.prems by auto
  then have "c' = 0 \<or> result_of s c' \<noteq> None" using Cons.prems by auto
  with Cons.IH [of c'] Cons.prems c' show ?case by fastforce
qed simp

lemma find_closest_total:
  assumes "measured s"
  shows "\<exists>c. peer_find_closest s = Some c \<and> (c = 0 \<or> c \<in> set (peer_list s) \<and> result_of s c \<noteq> None)"
proof (cases "peer_list s")
  case Nil
  then show ?thesis by (simp add: peer_find_closest_def)
next
  case (Cons h t)
  have "\<forall>p\<in>set (peer_list s). result_of s p \<noteq> None" "result_of s h \<noteq> None"
    using assms Cons by (auto simp: measured_def)
  then obtain d where "closest_loop s (peer_list s) h = Some d" "d = 0 \<or> d = h \<or> d \<in> set (peer_list s)"
    using closest_loop_total by blast
  then show ?thesis using assms Cons by (auto simp: peer_find_closest_def measured_def)
qed

section \<open>The operations keep it\<close>

lemma peer_add_ok:
  assumes "peers_ok s" "alloc_ok alloc"
  shows "peers_ok (snd (peer_supported_add alloc a s))"
proof (cases "peer_supported_test a s \<or> alloc (peer_store s) = 0")
  case True
  then show ?thesis using assms by (auto simp: peer_supported_add_def Let_def)
next
  case False
  define item where "item = alloc (peer_store s)"
  have it: "peer_store s item = None" "item \<noteq> 0"
    using assms(2) [unfolded alloc_ok_def, THEN spec, of "peer_store s"] False by (simp_all add: item_def)
  then have ni: "item \<notin> set (peer_list s)" using assms(1) by (auto simp: peers_ok_def)
  have na: "\<forall>p\<in>set (peer_list s). map_option pe_addr (peer_store s p) \<noteq> Some a"
    using False by (simp add: peer_supported_test_def)
  have same: "map (\<lambda>p. map_option pe_addr (if p = item then Some e else peer_store s p)) (peer_list s)
      = map (\<lambda>p. map_option pe_addr (peer_store s p)) (peer_list s)" for e
    using ni by auto
  show ?thesis using assms(1) it ni na False
    by (auto simp: peer_supported_add_def item_def [symmetric] Let_def peers_ok_def filter_ok_def result_of_def
        same fun_upd_def cong: map_cong) (metis na)+
qed

lemma slist_remove_split: "p \<notin> set as \<Longrightarrow> slist_remove_from_head p (as @ p # bs) = bs"
  by (induction as) (auto simp: slist_remove_from_head_def)

lemma timeout_node_ok:
  assumes ok: "peers_ok s" and m: "measured s" and l: "peer_list s = as @ p # bs"
  shows "\<exists>s'. timeout_node p s = Some s' \<and> peers_ok s' \<and> measured s'
     \<and> (peer_list s' = peer_list s \<or> peer_list s' = bs)"
proof -
  have p: "p \<in> set (peer_list s)" and rm: "slist_remove_from_head p (peer_list s) = bs"
    using ok l slist_remove_split [of p as bs] by (simp_all add: peers_ok_def)
  obtain e where e: "peer_store s p = Some e" using ok p by (auto simp: peers_ok_def)
  show ?thesis
  proof (cases "PEER_TIMEOUT_STEP_MS < pe_timeout_ms e")
    case True
    let ?s = "s\<lparr>peer_store := (peer_store s)(p \<mapsto> e\<lparr>pe_timeout_ms := pe_timeout_ms e - PEER_TIMEOUT_STEP_MS\<rparr>)\<rparr>"
    have r: "result_of ?s q = result_of s q" for q using e by (simp add: result_of_def)
    have a: "map_option pe_addr (peer_store ?s q) = map_option pe_addr (peer_store s q)" for q
      using e by simp
    have "peers_ok ?s" using ok r a by (auto simp: peers_ok_def filter_ok_def)
    moreover have "measured ?s" using m r by (simp add: measured_def)
    ultimately show ?thesis using True e by (simp add: timeout_node_def)
  next
    case False
    let ?s1 = "s\<lparr>peer_list := slist_remove_from_head p (peer_list s), peer_store := (peer_store s)(p := None)\<rparr>"
    have d: "distinct (peer_list s)" using ok by (simp add: peers_ok_def)
    have set1: "set (peer_list ?s1) \<subseteq> set (peer_list s) - {p}" using d l rm by auto
    have d1: "distinct (peer_list ?s1)" using d l rm by simp
    have r: "result_of ?s1 q = result_of s q" if "q \<noteq> p" for q using that by (simp add: result_of_def)
    have "result_of ?s1 q \<noteq> None" if "q \<in> set (peer_list ?s1)" for q
    proof -
      have "q \<in> set (peer_list s)" "q \<noteq> p" using that set1 by blast+
      with r [of q] m show ?thesis unfolding measured_def by metis
    qed
    then have m1: "measured ?s1" unfolding measured_def by blast
    from find_closest_total [OF this] obtain c where c: "peer_find_closest ?s1 = Some c"
      "c = 0 \<or> c \<in> set (peer_list ?s1) \<and> result_of ?s1 c \<noteq> None" by blast
    let ?s2 = "?s1\<lparr>closest_peer := c\<rparr>"
    have r2: "result_of ?s2 q = result_of ?s1 q" for q by (simp add: result_of_def)
    have "distinct (map (\<lambda>q. map_option pe_addr (peer_store ?s2 q)) (peer_list ?s2))"
    proof -
      have "map (\<lambda>q. map_option pe_addr (peer_store ?s2 q)) (peer_list ?s2)
          = map (\<lambda>q. map_option pe_addr (peer_store s q)) bs"
        using set1 rm by auto
      moreover have "distinct (map (\<lambda>q. map_option pe_addr (peer_store s q)) bs)"
        using ok l by (simp add: peers_ok_def)
      ultimately show ?thesis by metis
    qed
    then have ok2: "peers_ok ?s2"
      using ok c set1 r2 d1 by (auto simp: peers_ok_def filter_ok_def)
    have "filter_ok ?s2" using ok2 by (simp add: peers_ok_def)
    moreover have "c = 0 \<or> result_of ?s2 c \<noteq> None" using c(2) r2 by auto
    ultimately obtain s' where s': "led_notification c ?s2 = Some s'" "led_frame ?s2 s'"
      using led_notification_total by blast
    have "peers_ok s'" by (rule led_frame_ok [OF s'(2) ok2])
    moreover have "measured s'"
      using m1 s'(2) led_frame_result [OF s'(2)] r2 by (simp add: measured_def led_frame_def)
    moreover have "peer_list s' = peer_list ?s1" using s'(2) by (simp add: led_frame_def)
    ultimately show ?thesis using False e c(1) s'(1) rm by (simp add: timeout_node_def Let_def)
  qed
qed

lemma timeout_nodes_ok:
  "peers_ok s \<Longrightarrow> measured s \<Longrightarrow> peer_list s = as @ ps \<Longrightarrow>
    \<exists>s'. run timeout_node ps s = Some s' \<and> peers_ok s' \<and> measured s'"
proof (induction ps arbitrary: s as)
  case (Cons p ps)
  from timeout_node_ok [OF Cons.prems] obtain s1 where
    s1: "timeout_node p s = Some s1" "peers_ok s1" "measured s1" "peer_list s1 = peer_list s \<or> peer_list s1 = ps" by blast
  then have "\<exists>as'. peer_list s1 = as' @ ps"
    using Cons.prems(3) by (metis append_Cons append_Nil append_assoc)
  with Cons.IH [OF s1(2,3)] s1(1) show ?case by auto
qed simp

lemma timeout_handler_ok:
  assumes "peers_ok s" "measured s"
  shows "\<exists>s'. timeout_handler s = Some s' \<and> peers_ok s' \<and> measured s'"
  using timeout_nodes_ok [of s "[]" "peer_list s"] assms by (simp add: timeout_handler_def)

lemma ble_notification_total:
  assumes "peer_store s p = Some e" "pe_result e = Some r"
  shows "\<exists>est. ble_notification p s = Some (s\<lparr>notified := notified s @ [\<lparr>dd_addr = pe_addr e,
     dd_quality = quality_code (r_quality r), dd_estimates = est\<rparr>]\<rparr>)"
proof -
  have t: "\<exists>d. meter_to_decimeter v = Some d" for v using decimeter_total by blast
  show ?thesis
    using t [of "r_rtt r"] t [of "r_ifft r"] t [of "r_phase_slope r"] t [of "r_rssi_openspace r"] t [of "r_best r"] assms
    by (auto simp: ble_notification_def service_distance_measurement_update_def)
qed

lemma peer_find_props:
  "peer_find a s = 0 \<or> peer_find a s \<in> set (peer_list s)
     \<and> map_option pe_addr (peer_store s (peer_find a s)) = Some a"
proof (cases "filter (\<lambda>p. map_option pe_addr (peer_store s p) = Some a) (peer_list s)")
  case Nil
  then show ?thesis by (simp add: peer_find_def)
next
  case (Cons p q)
  then have "p \<in> set (filter (\<lambda>p. map_option pe_addr (peer_store s p) = Some a) (peer_list s))" by simp
  then show ?thesis using Cons by (simp add: peer_find_def)
qed

text \<open>One processed result: what the thread does with a result of a listed peer.\<close>

lemma thread_step:
  assumes ok: "peers_ok s" and q: "result_msgq s = r # q" and p: "peer_find (r_addr r) s = p" "p \<noteq> 0"
  shows "\<exists>s' s2 c m. peer_thread_step s = Some s' \<and> peers_ok s'
     \<and> peer_list s' = peer_list s \<and> result_of s' p = Some r \<and> (\<forall>x. x \<noteq> p \<longrightarrow> result_of s' x = result_of s x)
     \<and> notified s' = notified s @ [m] \<and> dd_addr m = r_addr r \<and> result_msgq s' = q
     \<and> print_result r (s\<lparr>result_msgq := q, peer_store := peer_store s'\<rparr>) = Some s2
     \<and> mcpd_min_peer_result s2 (closest_peer s2) p = Some c \<and> closest_peer s' = c
     \<and> led_frame (s\<lparr>result_msgq := q, peer_store := peer_store s'\<rparr>) s2 \<and> rgb_leds s2 = rgb_leds s
     \<and> (\<exists>s3. led_notification c (s2\<lparr>closest_peer := c\<rparr>) = Some s3 \<and> rgb_leds s' = rgb_leds s3
           \<and> collect_cnt s' = collect_cnt s3)"
proof -
  let ?s1 = "s\<lparr>result_msgq := q\<rparr>"
  have find1: "peer_find (r_addr r) ?s1 = p" using p(1) by (simp add: peer_find_def)
  have pl: "p \<in> set (peer_list s)" using peer_find_props [of "r_addr r" s] p by auto
  then obtain e where e: "peer_store s p = Some e" using ok by (auto simp: peers_ok_def)
  have ea: "pe_addr e = r_addr r" using peer_find_props [of "r_addr r" s] p e by auto
  let ?e = "e\<lparr>pe_result := Some r, pe_timeout_ms := PEER_TIMEOUT_INIT_MS\<rparr>"
  define st where "st = (peer_store s)(p \<mapsto> ?e)"
  let ?s1' = "?s1\<lparr>peer_store := st\<rparr>"
  have r: "result_of ?s1' p = Some r" "x \<noteq> p \<Longrightarrow> result_of ?s1' x = result_of s x" for x
    by (simp_all add: result_of_def st_def)
  have ad: "map_option pe_addr (st x) = map_option pe_addr (peer_store s x)" for x
    using e by (simp add: st_def)
  have ok1: "peers_ok ?s1'" using ok q ad r e
    by (auto simp: peers_ok_def filter_ok_def result_of_def st_def)
  then have "filter_ok ?s1'" by (simp add: peers_ok_def)
  then obtain s2 where s2: "print_result r ?s1' = Some s2" "led_frame ?s1' s2" "rgb_leds s2 = rgb_leds ?s1'"
    using print_result_total by blast
  have ok2: "peers_ok s2" by (rule led_frame_ok [OF s2(2) ok1])
  have r2: "result_of s2 x = result_of ?s1' x" for x by (rule led_frame_result [OF s2(2)])
  have "closest_peer s2 = 0 \<or> result_of s2 (closest_peer s2) \<noteq> None" using ok2 by (auto simp: peers_ok_def)
  moreover have "p = 0 \<or> result_of s2 p \<noteq> None" using r2 r(1) by simp
  ultimately obtain c where c: "mcpd_min_peer_result s2 (closest_peer s2) p = Some c"
    "c = 0 \<or> c = closest_peer s2 \<or> c = p" using min_peer_total by blast
  let ?s2' = "s2\<lparr>closest_peer := c\<rparr>"
  have r2': "result_of ?s2' x = result_of s2 x" for x by (simp add: result_of_def)
  have pl2: "p \<in> set (peer_list s2)" using s2(2) pl by (simp add: led_frame_def)
  have cm: "c = 0 \<or> c \<in> set (peer_list s2) \<and> result_of s2 c \<noteq> None"
    using c(2) ok2 pl2 r2 r(1) by (auto simp: peers_ok_def)
  have ok2': "peers_ok ?s2'" using ok2 cm r2' by (auto simp: peers_ok_def filter_ok_def)
  have "filter_ok ?s2'" using ok2' by (simp add: peers_ok_def)
  moreover have "c = 0 \<or> result_of ?s2' c \<noteq> None" using cm r2' by auto
  ultimately obtain s3 where s3: "led_notification c ?s2' = Some s3" "led_frame ?s2' s3"
    using led_notification_total by blast
  have st3: "peer_store s3 = st" using s3(2) s2(2) by (simp add: led_frame_def)
  then have "peer_store s3 p = Some ?e" by (simp add: st_def)
  from ble_notification_total [OF this, of r] obtain est where
    b: "ble_notification p s3 = Some (s3\<lparr>notified := notified s3 @ [\<lparr>dd_addr = r_addr r,
      dd_quality = quality_code (r_quality r), dd_estimates = est\<rparr>]\<rparr>)" by (auto simp: ea)
  define s' where "s' = s3\<lparr>notified := notified s3 @ [\<lparr>dd_addr = r_addr r,
      dd_quality = quality_code (r_quality r), dd_estimates = est\<rparr>]\<rparr>"
  have step: "peer_thread_step s = Some s'"
    using q find1 p(2) e s2(1) c(1) s3(1) b
    by (simp add: peer_thread_step_def thread_store_def st_def s'_def Let_def)
  have ok3: "peers_ok s3" by (rule led_frame_ok [OF s3(2) ok2'])
  then have ok': "peers_ok s'" by (auto simp: s'_def peers_ok_def result_of_def filter_ok_def)
  have res: "result_of s' x = result_of ?s1' x" for x
    using st3 by (simp add: s'_def result_of_def)
  have st': "peer_store s' = st" using st3 by (simp add: s'_def)
  show ?thesis
    by (rule exI [of _ s'], rule exI [of _ s2], rule exI [of _ c],
        rule exI [of _ "\<lparr>dd_addr = r_addr r, dd_quality = quality_code (r_quality r), dd_estimates = est\<rparr>"])
      (use step ok' res r s2 s3 c(1) st' in \<open>simp add: s'_def led_frame_def\<close>)
qed

lemma thread_ok:
  assumes "peers_ok s" shows "\<exists>s'. peer_thread_step s = Some s' \<and> peers_ok s'"
proof (cases "result_msgq s")
  case Nil
  then show ?thesis using assms by (simp add: peer_thread_step_def)
next
  case (Cons r q)
  show ?thesis
  proof (cases "peer_find (r_addr r) s = 0")
    case True
    then have "peer_find (r_addr r) (s\<lparr>result_msgq := q\<rparr>) = 0" by (simp add: peer_find_def)
    then show ?thesis using Cons assms
      by (auto simp: peer_thread_step_def peers_ok_def filter_ok_def result_of_def)
  next
    case False
    then show ?thesis using thread_step [OF assms Cons refl] by blast
  qed
qed

section \<open>Runs\<close>

datatype peer_event = PeerSeen bt_addr | PeerMeasured dm_result | PeerThread | PeerTick

fun peer_step :: "heap_alloc \<Rightarrow> peer_event \<Rightarrow> peers \<Rightarrow> peers option" where
  "peer_step alloc (PeerSeen a) s = Some (snd (peer_supported_add alloc a s))"
| "peer_step alloc (PeerMeasured r) s = Some (peer_update r s)"
| "peer_step alloc PeerThread s = peer_thread_step s"
| "peer_step alloc PeerTick s = timeout_handler s"

fun peer_event_ok :: "peer_event \<Rightarrow> peers \<Rightarrow> bool" where
  "peer_event_ok PeerTick s = list_all (\<lambda>p. result_of s p \<noteq> None) (peer_list s)"
| "peer_event_ok _ s = True"

interpretation peer: machine "peer_step alloc" peer_event_ok "\<lambda>s. alloc_ok alloc \<and> peers_ok s"
  for alloc
proof
  fix s e
  assume i: "alloc_ok alloc \<and> peers_ok s" and ok: "peer_event_ok e s"
  show "\<exists>s'. peer_step alloc e s = Some s' \<and> alloc_ok alloc \<and> peers_ok s'"
  proof (cases e)
    case (PeerSeen a)
    then show ?thesis using i peer_add_ok by simp
  next
    case (PeerMeasured r)
    then show ?thesis using i
      by (auto simp: peer_update_def peers_ok_def filter_ok_def result_of_def RESULT_MSGQ_MAX_def)
  next
    case PeerThread
    then show ?thesis using i thread_ok by simp
  next
    case PeerTick
    have "measured s" using ok PeerTick by (simp add: measured_def list_all_iff)
    then show ?thesis using i timeout_handler_ok PeerTick by fastforce
  qed
qed

text \<open>
  For any order of sightings, measurements, thread turns and timer ticks, the ticks between the turns and while
  every listed peer has a result, every step is defined (no freed block is used, no slot beyond the
  filter's buffer is written), no address is listed twice, and the peer shown is a listed one. (A peer
  that has left the list before its time, see below, keeps its block.)
\<close>

theorem peer_runs_defined:
  assumes "alloc_ok alloc" "peers_ok s" "run_ok (peer_step alloc) peer_event_ok evs s"
  shows "\<exists>s'. run (peer_step alloc) evs s = Some s'
     \<and> distinct (map (\<lambda>p. map_option pe_addr (peer_store s' p)) (peer_list s'))
     \<and> (closest_peer s' = 0 \<or> closest_peer s' \<in> set (peer_list s'))
     \<and> length (filt_buf s') = 6 \<and> unat (collect_cnt s') < 6 \<and> length (result_msgq s') \<le> 16"
  using peer.run_inv [of alloc s evs] assms
  by (auto simp: peers_ok_def filter_ok_def RESULT_MSGQ_MAX_def)

section \<open>The timer against the thread\<close>

text \<open>
  An expiry drops every peer before the expired one from the list, although their time is not over; their
  blocks stay allocated.
\<close>

theorem expiry_drops_earlier_peers:
  assumes "peers_ok s" "measured s" "peer_list s = as @ p # bs" "peer_store s p = Some e" "pe_timeout_ms e \<le> 500"
  shows "\<exists>s'. timeout_node p s = Some s' \<and> peer_list s' = bs \<and> (\<forall>q\<in>set as. peer_store s' q = peer_store s q \<and> peer_store s q \<noteq> None)"
proof -
  have n: "p \<notin> set as" using assms(1,3) by (simp add: peers_ok_def)
  obtain s' where s': "timeout_node p s = Some s'" using timeout_node_ok [OF assms(1-3)] by blast
  let ?s1 = "s\<lparr>peer_list := bs, peer_store := (peer_store s)(p := None)\<rparr>"
  obtain c where c: "led_notification c (?s1\<lparr>closest_peer := c\<rparr>) = Some s'" "peer_find_closest ?s1 = Some c"
    using s' assms(3-5) slist_remove_split [OF n, of bs]
    by (auto simp: timeout_node_def PEER_TIMEOUT_STEP_MS_def Let_def word_less_nat_alt word_le_nat_alt split: Option.bind_splits)
  have m: "measured ?s1" using assms(1-3) by (auto simp: measured_def result_of_def peers_ok_def)
  have "led_frame (?s1\<lparr>closest_peer := c\<rparr>) s'"
    using led_notification_total [of "?s1\<lparr>closest_peer := c\<rparr>" c] find_closest_total [OF m] c assms(1)
    by (auto simp: peers_ok_def filter_ok_def result_of_def)
  then show ?thesis using s' n assms(1,3) by (auto simp: led_frame_def peers_ok_def)
qed

text \<open>
  A tick between the thread's search and its write frees the entry that the thread is about to
  write.
\<close>

theorem expiry_frees_found_peer:
  assumes "peer_list s = [p]" "p \<noteq> 0" "peer_store s p = Some e" "pe_timeout_ms e \<le> 500"
  shows "peer_find (pe_addr e) s = p
     \<and> (\<exists>s'. timeout_handler s = Some s' \<and> thread_store r p s' = None)"
  using assms
  by (auto simp: peer_find_def timeout_handler_def timeout_node_def PEER_TIMEOUT_STEP_MS_def slist_remove_from_head_def
      peer_find_closest_def led_notification_def thread_store_def Let_def)

text \<open>
  A tick between the sixth value and the reset of the counter puts a seventh value behind the end of the
  filter's buffer.
\<close>

theorem filter_overrun:
  assumes "length (filt_buf s) = 6" "collect_cnt s = 5"
  shows "\<exists>s'. data_collect x s = Some (6, s') \<and> data_collect y s' = None"
  using assms by (simp add: data_collect_def Let_def)

text \<open>
  A tick that expires a peer while the next one has not been measured yet reads that
  peer's result before it was ever written.
\<close>

theorem tick_reads_unmeasured:
  assumes "peer_list s = [p, q]" "p \<noteq> q" "q \<noteq> 0" "peer_store s p = Some e" "pe_timeout_ms e \<le> 500"
    and "peer_store s q = Some e'" "pe_result e' = None"
  shows "timeout_handler s = None"
proof -
  have "timeout_node p s = None"
    using assms
    by (auto simp: timeout_node_def PEER_TIMEOUT_STEP_MS_def peer_find_closest_def mcpd_min_peer_result_def
        slist_remove_from_head_def result_of_def Let_def)
  then show ?thesis using assms(1) by (simp add: timeout_handler_def)
qed

section \<open>The peer the LEDs show\<close>

definition all_mcpd :: "peers \<Rightarrow> ptr list \<Rightarrow> bool" where
  "all_mcpd s ps \<longleftrightarrow> (\<forall>p\<in>set ps. p \<noteq> 0 \<and> (\<exists>r. result_of s p = Some r \<and> r_mode r = DM_RANGING_MODE_MCPD
     \<and> \<not> f32_nan (r_best r)))"

definition best_of :: "peers \<Rightarrow> ptr \<Rightarrow> f32" where
  "best_of s p = (case result_of s p of Some r \<Rightarrow> r_best r | None \<Rightarrow> 0)"

lemma min_peer_mcpd:
  assumes "all_mcpd s [x, y]"
  shows "\<exists>c. mcpd_min_peer_result s x y = Some c \<and> (c = x \<or> c = y)
    \<and> f32_le (best_of s x) (best_of s c) \<and> f32_le (best_of s y) (best_of s c)"
  using assms by (auto simp: all_mcpd_def mcpd_min_peer_result_def best_of_def f32_lt_def f32_le_def)

lemma f32_le_trans: "f32_le x y \<Longrightarrow> f32_le y z \<Longrightarrow> f32_le x z"
  by (auto simp: f32_le_def)

lemma closest_loop_mcpd:
  "all_mcpd s (c # ps) \<Longrightarrow> \<exists>d. closest_loop s ps c = Some d \<and> d \<in> set (c # ps)
    \<and> (\<forall>p\<in>set (c # ps). f32_le (best_of s p) (best_of s d))"
proof (induction ps arbitrary: c)
  case Nil
  then show ?case by (auto simp: all_mcpd_def best_of_def f32_le_def)
next
  case (Cons p ps)
  have "all_mcpd s [c, p]" using Cons.prems by (simp add: all_mcpd_def)
  from min_peer_mcpd [OF this] obtain c' where c': "mcpd_min_peer_result s c p = Some c'" "c' = c \<or> c' = p"
    "f32_le (best_of s c) (best_of s c')" "f32_le (best_of s p) (best_of s c')" by blast
  have "all_mcpd s (c' # ps)" using Cons.prems c'(2) by (auto simp: all_mcpd_def)
  from Cons.IH [OF this] obtain d where d: "closest_loop s ps c' = Some d" "d \<in> set (c' # ps)"
    "\<forall>p\<in>set (c' # ps). f32_le (best_of s p) (best_of s d)" by blast
  have "f32_le (best_of s c) (best_of s d)" "f32_le (best_of s p) (best_of s d)"
    using d(3) c'(3,4) f32_le_trans by auto
  with c' d show ?case by auto
qed

text \<open>
  With phase measurements for every peer, the peer chosen as closest is the one whose best
  distance estimate is the largest of all.
\<close>

theorem closest_is_farthest:
  assumes "all_mcpd s (peer_list s)" "peer_list s \<noteq> []"
  shows "\<exists>c\<in>set (peer_list s). peer_find_closest s = Some c
     \<and> (\<forall>p\<in>set (peer_list s). f32_le (best_of s p) (best_of s c))"
proof -
  obtain h t where ht: "peer_list s = h # t" using assms(2) by (cases "peer_list s") auto
  have "all_mcpd s (h # h # t)" using assms(1) ht by (simp add: all_mcpd_def)
  from closest_loop_mcpd [OF this] show ?thesis by (auto simp: peer_find_closest_def ht)
qed

section \<open>The LEDs and the shared filter\<close>

definition mcpd_result :: "dm_result \<Rightarrow> bool" where
  "mcpd_result r \<longleftrightarrow> r_mode r = DM_RANGING_MODE_MCPD"

text \<open>All results stored are phase measurements.\<close>

definition mcpd_only :: "peers \<Rightarrow> bool" where
  "mcpd_only s \<longleftrightarrow> (\<forall>p r. result_of s p = Some r \<longrightarrow> mcpd_result r)"

lemma filter_result_odd:
  assumes "filter_ok s"
  shows "\<exists>out s'. filter_result x s = Some (out, s') \<and> led_frame s s' \<and> rgb_leds s' = rgb_leds s
     \<and> (odd (unat (collect_cnt s)) \<longrightarrow> even (unat (collect_cnt s')))
     \<and> (even (unat (collect_cnt s)) \<longrightarrow> out = None \<and> odd (unat (collect_cnt s')))"
proof -
  obtain out s' where f: "filter_result x s = Some (out, s')" "led_frame s s'" "rgb_leds s' = rgb_leds s"
    using filter_frame [OF assms] by blast
  have c: "unat (collect_cnt s + 1) = unat (collect_cnt s) + 1"
    using assms by (subst unat_plus_nowrap) (simp_all add: filter_ok_def)
  have "(odd (unat (collect_cnt s)) \<longrightarrow> even (unat (collect_cnt s')))
     \<and> (even (unat (collect_cnt s)) \<longrightarrow> out = None \<and> odd (unat (collect_cnt s')))"
    using f(1) collect_step [of s x] assms c
    by (auto simp: filter_ok_def Let_def split: if_splits)
  with f show ?thesis by blast
qed

lemma starve_step:
  assumes ok: "peers_ok s" and m: "mcpd_only s" and o: "odd (unat (collect_cnt s))" and r: "mcpd_result r"
    and q: "result_msgq s = []"
  shows "\<exists>s'. peer_thread_step (peer_update r s) = Some s' \<and> peers_ok s' \<and> mcpd_only s'
     \<and> odd (unat (collect_cnt s')) \<and> rgb_leds s' = rgb_leds s \<and> result_msgq s' = []"
proof -
  let ?u = "peer_update r s"
  have u: "result_msgq ?u = [r]" "peer_store ?u = peer_store s" "peer_list ?u = peer_list s"
    "closest_peer ?u = closest_peer s" "collect_cnt ?u = collect_cnt s" "rgb_leds ?u = rgb_leds s" "filt_buf ?u = filt_buf s"
    using q by (simp_all add: peer_update_def RESULT_MSGQ_MAX_def)
  have oku: "peers_ok ?u" using ok u by (auto simp: peers_ok_def filter_ok_def result_of_def RESULT_MSGQ_MAX_def)
  show ?thesis
  proof (cases "peer_find (r_addr r) ?u = 0")
    case True
    then have "peer_find (r_addr r) (?u\<lparr>result_msgq := []\<rparr>) = 0" by (simp add: peer_find_def)
    then have "peer_thread_step ?u = Some (?u\<lparr>result_msgq := []\<rparr>)"
      by (simp add: peer_thread_step_def u(1))
    then show ?thesis using oku m o u
      by (auto simp: peers_ok_def filter_ok_def result_of_def mcpd_only_def RESULT_MSGQ_MAX_def)
  next
    case False
    define p where "p = peer_find (r_addr r) ?u"
    from thread_step [OF oku u(1) p_def [symmetric]] False obtain s' s2 c s3 where
      t: "peer_thread_step ?u = Some s'" "peers_ok s'" "result_of s' p = Some r"
        "\<forall>x. x \<noteq> p \<longrightarrow> result_of s' x = result_of ?u x" "result_msgq s' = []"
        "print_result r (?u\<lparr>result_msgq := [], peer_store := peer_store s'\<rparr>) = Some s2"
        "mcpd_min_peer_result s2 (closest_peer s2) p = Some c"
        "led_frame (?u\<lparr>result_msgq := [], peer_store := peer_store s'\<rparr>) s2" "rgb_leds s2 = rgb_leds ?u"
        "led_notification c (s2\<lparr>closest_peer := c\<rparr>) = Some s3" "rgb_leds s' = rgb_leds s3" "collect_cnt s' = collect_cnt s3"
      unfolding p_def by blast
    have ru: "result_of ?u x = result_of s x" for x by (simp add: result_of_def u(2))
    have m': "mcpd_only s'"
      unfolding mcpd_only_def
    proof (intro allI impI)
      fix x r' assume "result_of s' x = Some r'"
      then show "mcpd_result r'" using m t(3,4) r ru by (cases "x = p") (auto simp: mcpd_only_def)
    qed
    let ?w = "?u\<lparr>result_msgq := [], peer_store := peer_store s'\<rparr>"
    have fw: "filter_ok ?w" using oku by (simp add: peers_ok_def filter_ok_def)
    have e2: "even (unat (collect_cnt s2))"
      using filter_result_odd [OF fw, of "if r_mode r = DM_RANGING_MODE_RTT then r_rtt r else r_best r"] t(6) o u(5)
      by (auto simp: print_result_def)
    have r2: "result_of s2 x = result_of s' x" for x
      using led_frame_result [OF t(8), of x] by (simp add: result_of_def)
    have pr: "p \<noteq> 0" using False by (simp add: p_def)
    have m2: "mcpd_only s2" using m' r2 by (simp add: mcpd_only_def)
    have c0: "c \<noteq> 0"
      using t(7) pr m2 r2 t(3)
      by (auto simp: mcpd_min_peer_result_def mcpd_only_def mcpd_result_def split: option.splits if_splits
          Option.bind_splits dm_ranging_mode.splits)
    let ?v = "s2\<lparr>closest_peer := c\<rparr>"
    have fv: "filter_ok ?v" using t(8) by (simp add: led_frame_def filter_ok_def)
    obtain rc where rc: "result_of ?v c = Some rc"
      using t(10) c0 by (auto simp: led_notification_def split: Option.bind_splits)
    define res where "res = (let x = (if r_mode rc = DM_RANGING_MODE_RTT then r_rtt rc else r_best rc) in if f32_lt x 0 then 0 else x)"
    from filter_result_odd [OF fv, of res] e2 obtain s4 where
      s4: "filter_result res ?v = Some (None, s4)" "rgb_leds s4 = rgb_leds s2" "odd (unat (collect_cnt s4))" by auto
    have "s3 = s4" using t(10) c0 rc s4(1) by (simp add: led_notification_def res_def Let_def)
    then show ?thesis using t m' s4 u(6) by auto
  qed
qed

definition measure_all :: "dm_result list \<Rightarrow> peers \<Rightarrow> peers option" where
  "measure_all rs s = run (\<lambda>r t. peer_thread_step (peer_update r t)) rs s"

lemma starve_run:
  "peers_ok s \<Longrightarrow> mcpd_only s \<Longrightarrow> odd (unat (collect_cnt s)) \<Longrightarrow> result_msgq s = [] \<Longrightarrow>
    \<forall>r\<in>set rs. mcpd_result r \<Longrightarrow>
    \<exists>s'. measure_all rs s = Some s' \<and> rgb_leds s' = rgb_leds s \<and> odd (unat (collect_cnt s'))"
  unfolding measure_all_def
proof (induction rs arbitrary: s)
  case (Cons r rs)
  then obtain s1 where "peer_thread_step (peer_update r s) = Some s1" "peers_ok s1" "mcpd_only s1"
     "odd (unat (collect_cnt s1))" "rgb_leds s1 = rgb_leds s" "result_msgq s1 = []"
    using starve_step [of s r] by auto
  with Cons.IH [of s1] Cons.prems show ?case by auto
qed simp

text \<open>
  While only phase measurements arrive, once a measurement starts with an odd number of
  values in the filter, no measurement ever changes the LEDs again: the console output takes every
  result the filter completes, since both feed the same buffer.
\<close>

theorem leds_starve:
  assumes "peers_ok s" "mcpd_only s" "odd (unat (collect_cnt s))" "result_msgq s = []"
    and "\<forall>r\<in>set rs. mcpd_result r"
  shows "\<exists>s'. measure_all rs s = Some s' \<and> rgb_leds s' = rgb_leds s \<and> odd (unat (collect_cnt s'))"
  using starve_run [OF assms] .

text \<open>A timeout that leaves a peer to show puts one more distance into the shared filter.\<close>

lemma timeout_flips_parity:
  assumes "filter_ok s" "timeout_node p s = Some s'" "peer_store s p = Some e"
    and "\<not> PEER_TIMEOUT_STEP_MS < pe_timeout_ms e" "closest_peer s' \<noteq> 0"
  shows "odd (unat (collect_cnt s')) \<longleftrightarrow> even (unat (collect_cnt s))"
proof -
  let ?s1 = "s\<lparr>peer_list := slist_remove_from_head p (peer_list s), peer_store := (peer_store s)(p := None)\<rparr>"
  obtain c where c: "led_notification c (?s1\<lparr>closest_peer := c\<rparr>) = Some s'"
    using assms(2-4) by (auto simp: timeout_node_def Let_def split: Option.bind_splits)
  have fo: "filter_ok (?s1\<lparr>closest_peer := c\<rparr>)" using assms(1) by (simp add: filter_ok_def)
  show ?thesis
  proof (cases "c = 0")
    case True
    then show ?thesis using c assms(5) by (auto simp: led_notification_def)
  next
    case False
    then obtain r where r: "result_of (?s1\<lparr>closest_peer := c\<rparr>) c = Some r"
      using c by (auto simp: led_notification_def split: Option.bind_splits)
    define res where "res = (let x = (if r_mode r = DM_RANGING_MODE_RTT then r_rtt r else r_best r) in if f32_lt x 0 then 0 else x)"
    from filter_result_odd [OF fo, of res] obtain out s4 where
      s4: "filter_result res (?s1\<lparr>closest_peer := c\<rparr>) = Some (out, s4)"
        "odd (unat (collect_cnt s)) \<longrightarrow> even (unat (collect_cnt s4))"
        "even (unat (collect_cnt s)) \<longrightarrow> odd (unat (collect_cnt s4))" by auto
    then have "collect_cnt s' = collect_cnt s4"
      using c False r by (auto simp: led_notification_def res_def Let_def split: option.splits)
    with s4(2,3) show ?thesis by auto
  qed
qed

section \<open>Concrete peers\<close>

definition demo_result :: "bt_addr \<Rightarrow> f32 \<Rightarrow> dm_result" where
  "demo_result a d = \<lparr>r_addr = a, r_quality = DM_QUALITY_OK, r_mode = DM_RANGING_MODE_MCPD, r_rtt = 0,
     r_ifft = d, r_phase_slope = d, r_rssi_openspace = d, r_best = d\<rparr>"

definition demo_entry :: "bt_addr \<Rightarrow> dm_result option \<Rightarrow> u16 \<Rightarrow> peer_entry" where
  "demo_entry a r t = \<lparr>pe_addr = a, pe_result = r, pe_timeout_ms = t\<rparr>"

definition demo_peers :: "ptr list \<Rightarrow> (ptr \<Rightarrow> peer_entry option) \<Rightarrow> u8 \<Rightarrow> peers" where
  "demo_peers ps st n = \<lparr>peer_list = ps, peer_store = st, closest_peer = 0, access_address = 0,
     ranging_mode = DM_RANGING_MODE_MCPD, result_msgq = [], filt_buf = replicate 6 0, collect_cnt = n,
     rgb_leds = leds_off, notified = []\<rparr>"

definition demo_alloc :: heap_alloc where
  "demo_alloc h = (if h 1 = None then 1 else if h 2 = None then 2 else 0)"

lemma demo_alloc_ok: "alloc_ok demo_alloc"
  by (auto simp: alloc_ok_def demo_alloc_def)

lemma demo_peers_ok: "peers_ok (demo_peers [] Map.empty 0)"
  by (simp add: demo_peers_def peers_ok_def filter_ok_def)

definition two_peers :: "ptr \<Rightarrow> peer_entry option" where
  "two_peers = [1 \<mapsto> demo_entry 10 (Some (demo_result 10 0x3F800000)) 500,
                2 \<mapsto> demo_entry 20 (Some (demo_result 20 0x40000000)) 10000]"

theorem peer_runs_defined_witness:
  "\<exists>s'. run (peer_step demo_alloc) [PeerSeen 10, PeerSeen 20, PeerSeen 30, PeerMeasured (demo_result 10 0), PeerThread]
          (demo_peers [] Map.empty 0) = Some s'
     \<and> (closest_peer s' = 0 \<or> closest_peer s' \<in> set (peer_list s'))"
proof -
  have "run_ok (peer_step demo_alloc) peer_event_ok
     [PeerSeen 10, PeerSeen 20, PeerSeen 30, PeerMeasured (demo_result 10 0), PeerThread] (demo_peers [] Map.empty 0)"
  proof -
    obtain s where s: "run (peer_step demo_alloc) [PeerSeen 10, PeerSeen 20, PeerSeen 30, PeerMeasured (demo_result 10 0)]
        (demo_peers [] Map.empty 0) = Some s" by simp
    have "alloc_ok demo_alloc \<and> peers_ok (demo_peers [] Map.empty 0)" using demo_alloc_ok demo_peers_ok by simp
    from peer.run_inv [OF this, of "[PeerSeen 10, PeerSeen 20, PeerSeen 30, PeerMeasured (demo_result 10 0)]"] s
    have "peers_ok s" by auto
    from thread_ok [OF this] s show ?thesis by auto
  qed
  from peer_runs_defined [OF demo_alloc_ok demo_peers_ok this] show ?thesis by blast
qed

theorem tick_reads_unmeasured_witness:
  "timeout_handler (demo_peers [1, 2] [1 \<mapsto> demo_entry 10 None 500, 2 \<mapsto> demo_entry 20 None 10000] 0) = None"
  by (rule tick_reads_unmeasured [of _ 1 2 "demo_entry 10 None 500" "demo_entry 20 None 10000"])
    (simp_all add: demo_peers_def demo_entry_def)

theorem expiry_drops_earlier_peers_witness:
  "\<exists>s'. timeout_node 1 (demo_peers [2, 1] two_peers 0) = Some s' \<and> peer_list s' = []"
proof -
  let ?s = "demo_peers [2, 1] two_peers 0"
  have "peers_ok ?s" "measured ?s"
    by (simp_all add: demo_peers_def two_peers_def demo_entry_def demo_result_def peers_ok_def filter_ok_def
        measured_def result_of_def)
  moreover have "peer_list ?s = [2] @ 1 # []" "peer_store ?s 1 = Some (demo_entry 10 (Some (demo_result 10 0x3F800000)) 500)"
    "pe_timeout_ms (demo_entry 10 (Some (demo_result 10 0x3F800000)) 500) \<le> 500"
    by (simp_all add: demo_peers_def two_peers_def demo_entry_def)
  ultimately show ?thesis using expiry_drops_earlier_peers by blast
qed

theorem expiry_frees_found_peer_witness:
  "\<exists>s'. timeout_handler (demo_peers [1] two_peers 0) = Some s' \<and> thread_store (demo_result 10 0) 1 s' = None"
proof -
  have "peer_list (demo_peers [1] two_peers 0) = [1]" "(1 :: ptr) \<noteq> 0"
    "peer_store (demo_peers [1] two_peers 0) 1 = Some (demo_entry 10 (Some (demo_result 10 0x3F800000)) 500)"
    "pe_timeout_ms (demo_entry 10 (Some (demo_result 10 0x3F800000)) 500) \<le> 500"
    by (simp_all add: demo_peers_def two_peers_def demo_entry_def)
  from expiry_frees_found_peer [OF this] show ?thesis by blast
qed

theorem filter_overrun_witness:
  "\<exists>s'. data_collect 0 (demo_peers [] Map.empty 5) = Some (6, s') \<and> data_collect 0 s' = None"
  by (rule filter_overrun) (simp_all add: demo_peers_def)

theorem closest_is_farthest_witness:
  "peer_find_closest (demo_peers [1, 2] two_peers 0) = Some 2"
proof -
  have n: "\<not> f32_nan 0x3F800000" "\<not> f32_nan 0x40000000" "\<not> f32_le 0x40000000 0x3F800000" by (code_simp; fail)+
  have "all_mcpd (demo_peers [1, 2] two_peers 0) (peer_list (demo_peers [1, 2] two_peers 0))"
    "peer_list (demo_peers [1, 2] two_peers 0) \<noteq> []"
    using n by (simp_all add: demo_peers_def two_peers_def demo_entry_def demo_result_def all_mcpd_def result_of_def)
  from closest_is_farthest [OF this] n(3) show ?thesis
    by (auto simp: demo_peers_def two_peers_def demo_entry_def demo_result_def best_of_def result_of_def)
qed

theorem selection_sort_correct_witness:
  "mset (selectionSort [0x40000000, 0xBF800000, 0x3F800000] 3) = mset [0x40000000, 0xBF800000, 0x3F800000]
     \<and> sorted_wrt f32_le (selectionSort [0x40000000, 0xBF800000, 0x3F800000] 3)"
proof -
  have n: "\<forall>x\<in>set [0x40000000, 0xBF800000, 0x3F800000]. \<not> f32_nan x"
  proof -
    have "list_all (\<lambda>x. \<not> f32_nan x) [0x40000000, 0xBF800000, 0x3F800000]" by code_simp
    then show ?thesis by (simp only: list_all_iff)
  qed
  have "length [0x40000000, 0xBF800000, 0x3F800000 :: f32] = 3" by simp
  from selection_sort_correct [OF this] n show ?thesis by blast
qed

theorem filter_every_sixth_witness:
  "\<exists>out s'. feed [0, 0, 0, 0, 0, 0x3F800000] (demo_peers [] Map.empty 0) = Some (replicate 5 None @ [Some out], s')
     \<and> collect_cnt s' = 0"
proof -
  have "length (filt_buf (demo_peers [] Map.empty 0)) = 6" "collect_cnt (demo_peers [] Map.empty 0) = 0"
    "length [0, 0, 0, 0, 0, 0x3F800000 :: f32] = 6" by (simp_all add: demo_peers_def)
  from filter_every_sixth [OF this] show ?thesis by blast
qed

theorem leds_starve_witness:
  "\<exists>s'. measure_all [demo_result 20 0x40000000, demo_result 10 0] (demo_peers [1, 2] two_peers 1) = Some s'
     \<and> rgb_leds s' = leds_off"
proof -
  have "peers_ok (demo_peers [1, 2] two_peers 1)" "odd (unat (collect_cnt (demo_peers [1, 2] two_peers 1)))"
    "result_msgq (demo_peers [1, 2] two_peers 1) = []"
    "\<forall>r\<in>set [demo_result 20 0x40000000, demo_result 10 0]. mcpd_result r"
    by (simp_all add: demo_peers_def two_peers_def demo_entry_def demo_result_def peers_ok_def filter_ok_def mcpd_result_def)
  moreover have "mcpd_only (demo_peers [1, 2] two_peers 1)"
    by (auto simp: demo_peers_def two_peers_def demo_entry_def demo_result_def mcpd_only_def mcpd_result_def result_of_def
        split: if_splits)
  ultimately show ?thesis using leds_starve by (fastforce simp: demo_peers_def)
qed

end
