(* ===== verification/DmMain.thy ===== *)
theory DmMain
  imports Peer
begin

text \<open>
  The distance measurement application (\<open>app/ble/nrf_dm_nrf52840_dongle_v191/src/main.c\<close>):
  advertising its access address, scanning for other devices, and the measurement requests both
  sides make when one of them sees the other.

  The Bluetooth stack is elements of the trace, in the order of the calls; what a call returns
  is an argument, as a function of the call. Advertising data is a list of elements, each a type
  and its bytes, as \<open>bt_data_parse\<close> hands them to its callback.
\<close>

section \<open>Data\<close>

datatype dm_role = DM_ROLE_INITIATOR | DM_ROLE_REFLECTOR

record dm_request =
  q_addr :: bt_addr
  q_role :: dm_role
  q_mode :: dm_ranging_mode
  q_access_address :: u32
  q_start_delay_us :: u32

datatype adv_param = ADV_PARAM_CONN | ADV_PARAM_NOCONN

datatype dm_call =
    ExtAdvStop | ExtAdvDelete | ExtAdvCreate adv_param | ExtAdvSetData | ExtAdvStart
  | ScanInit | ScanCbRegister | ScanFilterAdd "u8 list" | ScanFilterEnable | ScanStart
  | WorkSubmit | ConLed bool | RunLed bool
  | LedsInit | PeerInit | DmInit | ServiceInit | BtEnable

record dm_app =
  app_peers :: peers
  app_adv :: bool
  app_adv_param :: adv_param
  app_mfg_data :: "u8 list"
  app_connect_status :: u8
  app_requests :: "dm_request list"
  app_calls :: "dm_call list"

text \<open>\<open>struct adv_mfg_data\<close> is packed and little-endian.\<close>

definition COMPANY_CODE :: u16 where "COMPANY_CODE = 0x0059"
definition SUPPORT_DM_CODE :: u32 where "SUPPORT_DM_CODE = 0xFF55AA5A"

definition mfg_bytes :: "u16 \<Rightarrow> u32 \<Rightarrow> u32 \<Rightarrow> u8 list" where
  "mfg_bytes company code access = [ucast company, ucast (drop_bit 8 company)] @ le32 code @ le32 access"

definition BT_DATA_MANUFACTURER_DATA :: u8 where "BT_DATA_MANUFACTURER_DATA = 0xFF"

definition acall :: "dm_call \<Rightarrow> dm_app \<Rightarrow> dm_app" where
  "acall c s = s\<lparr>app_calls := app_calls s @ [c]\<rparr>"

definition dm_request_add :: "dm_request \<Rightarrow> dm_app \<Rightarrow> dm_app" where
  "dm_request_add q s = s\<lparr>app_requests := app_requests s @ [q]\<rparr>"

section \<open>Requests\<close>

text \<open>The callback's result tells whether parsing goes on.\<close>

definition data_cb :: "bt_addr \<Rightarrow> u8 \<times> u8 list \<Rightarrow> dm_app \<Rightarrow> bool \<times> dm_app" where
  "data_cb addr d s =
     (if fst d = BT_DATA_MANUFACTURER_DATA
      then (False,
            if length (snd d) = 10
            then dm_request_add
                   \<lparr>q_addr = addr, q_role = DM_ROLE_INITIATOR, q_mode = peer_ranging_mode_get (app_peers s),
                    q_access_address = rd32 (drop 6 (snd d)), q_start_delay_us = 0\<rparr> s
            else s)
      else (True, s))"

definition scan_filter_match :: "dm_app adv_parser \<Rightarrow> heap_alloc \<Rightarrow> bt_addr \<Rightarrow> adv_element list \<Rightarrow> dm_app \<Rightarrow> dm_app" where
  "scan_filter_match parse alloc addr adv_data s =
     parse (data_cb addr) adv_data (s\<lparr>app_peers := snd (peer_supported_add alloc addr (app_peers s))\<rparr>)"

definition adv_scanned_cb :: "bt_addr \<Rightarrow> dm_app \<Rightarrow> dm_app" where
  "adv_scanned_cb addr s =
     (if peer_supported_test addr (app_peers s)
      then dm_request_add
             \<lparr>q_addr = addr, q_role = DM_ROLE_REFLECTOR, q_mode = peer_ranging_mode_get (app_peers s),
              q_access_address = peer_access_address_get (app_peers s), q_start_delay_us = 0\<rparr> s
      else s)"

section \<open>Advertising and scanning\<close>

text \<open>A sequence of calls that stops at the first error, as the start routines are written.\<close>

fun call_seq :: "(dm_call \<Rightarrow> int) \<Rightarrow> dm_call list \<Rightarrow> dm_app \<Rightarrow> int \<times> dm_app" where
  "call_seq ret [] s = (0, s)"
| "call_seq ret (c # cs) s =
     (if ret c \<noteq> 0 then (ret c, acall c s) else call_seq ret cs (acall c s))"

definition adv_start :: "(dm_call \<Rightarrow> int) \<Rightarrow> dm_app \<Rightarrow> int \<times> dm_app" where
  "adv_start ret s =
     (let (err, s1) = (if app_adv s then call_seq ret [ExtAdvStop, ExtAdvDelete] s else (0, s)) in
      if err \<noteq> 0 then (err, s1)
      else
        (let c = ExtAdvCreate (app_adv_param s1); s2 = acall c s1 in
         if ret c \<noteq> 0 then (ret c, s2)
         else call_seq ret [ExtAdvSetData, ExtAdvStart] (s2\<lparr>app_adv := True\<rparr>)))"

text \<open>The filter matches the company and the support code, the first 6 bytes.\<close>

definition dm_scan_start :: "(dm_call \<Rightarrow> int) \<Rightarrow> dm_app \<Rightarrow> int \<times> dm_app" where
  "dm_scan_start ret s =
     call_seq ret [ScanFilterAdd (take 6 (app_mfg_data s)), ScanFilterEnable, ScanStart]
       (acall ScanCbRegister (acall ScanInit s))"

definition adv_work_handle :: "(dm_call \<Rightarrow> int) \<Rightarrow> dm_app \<Rightarrow> dm_app" where
  "adv_work_handle ret s = snd (adv_start ret s)"

definition dm_connected :: "dm_app \<Rightarrow> dm_app" where
  "dm_connected s = acall (ConLed True)
     ((acall WorkSubmit (s\<lparr>app_adv_param := ADV_PARAM_NOCONN\<rparr>))\<lparr>app_connect_status := 1\<rparr>)"

definition dm_disconnected :: "dm_app \<Rightarrow> dm_app" where
  "dm_disconnected s = acall (ConLed False)
     ((acall WorkSubmit (s\<lparr>app_adv_param := ADV_PARAM_CONN\<rparr>))\<lparr>app_connect_status := 0\<rparr>)"

definition bt_sync_init :: "(dm_call \<Rightarrow> int) \<Rightarrow> u8 list \<Rightarrow> dm_app \<Rightarrow> int \<times> dm_app" where
  "bt_sync_init ret ident s =
     (let p = snd (peer_access_address_prepare ident (app_peers s));
          s1 = s\<lparr>app_peers := p,
                 app_mfg_data := mfg_bytes COMPANY_CODE SUPPORT_DM_CODE (peer_access_address_get p)\<rparr>;
          (err, s2) = adv_start ret s1
      in if err \<noteq> 0 then (err, s2) else dm_scan_start ret s2)"

text \<open>\<open>status\<close> is whether the measurement succeeded.\<close>

definition data_ready :: "bool \<Rightarrow> dm_result \<Rightarrow> dm_app \<Rightarrow> dm_app" where
  "data_ready status r s = (if status then s\<lparr>app_peers := peer_update r (app_peers s)\<rparr> else s)"

text \<open>\<open>main\<close> up to its loop: whether the loop is reached.\<close>

definition dm_main :: "(dm_call \<Rightarrow> int) \<Rightarrow> u8 list \<Rightarrow> dm_app \<Rightarrow> bool \<times> dm_app" where
  "dm_main ret ident s =
     (let (err, s1) = call_seq ret [LedsInit, PeerInit, DmInit, ServiceInit, BtEnable] s in
      if err \<noteq> 0 then (False, s1)
      else (let (err2, s2) = bt_sync_init ret ident s1 in (err2 = 0, s2)))"

definition dm_main_turn :: "u32 \<Rightarrow> dm_app \<Rightarrow> u32 \<times> dm_app" where
  "dm_main_turn blink_status s =
     (if app_connect_status s = 1 then (blink_status, acall (RunLed True) s)
      else (blink_status + 1, acall (RunLed (odd (unat (blink_status + 1)))) s))"

section \<open>Both sides agree\<close>

lemma length_mfg_bytes [simp]: "length (mfg_bytes c k w) = 10"
  by (simp add: mfg_bytes_def)

lemma mfg_bytes_access: "rd32 (drop 6 (mfg_bytes c k w)) = w"
proof -
  have "drop 6 (mfg_bytes c k w) = le32 w @ []" by (simp add: mfg_bytes_def le32_def)
  then show ?thesis by (simp only: rd32_le32)
qed

lemma call_seq_frame:
  "app_peers (snd (call_seq ret cs s)) = app_peers s \<and> app_mfg_data (snd (call_seq ret cs s)) = app_mfg_data s
    \<and> app_requests (snd (call_seq ret cs s)) = app_requests s"
  by (induction cs arbitrary: s) (simp_all add: acall_def)

lemma adv_start_frame:
  "app_peers (snd (adv_start ret s)) = app_peers s \<and> app_mfg_data (snd (adv_start ret s)) = app_mfg_data s
    \<and> app_requests (snd (adv_start ret s)) = app_requests s"
proof -
  obtain err s1 where e: "(if app_adv s then call_seq ret [ExtAdvStop, ExtAdvDelete] s else (0, s)) = (err, s1)"
    by fastforce
  then have "app_peers s1 = app_peers s \<and> app_mfg_data s1 = app_mfg_data s \<and> app_requests s1 = app_requests s"
    using call_seq_frame [of ret "[ExtAdvStop, ExtAdvDelete]" s] by (cases "app_adv s") (auto split: if_splits)
  then show ?thesis
    using call_seq_frame unfolding adv_start_def e Let_def by (simp add: acall_def)
qed

lemma sync_init_state:
  "peer_access_address_get (app_peers (snd (bt_sync_init ret ident s)))
     = access_address (snd (peer_access_address_prepare ident (app_peers s)))"
  "app_mfg_data (snd (bt_sync_init ret ident s)) = mfg_bytes COMPANY_CODE SUPPORT_DM_CODE
     (access_address (snd (peer_access_address_prepare ident (app_peers s))))"
  using adv_start_frame call_seq_frame
  by (simp_all add: bt_sync_init_def dm_scan_start_def Let_def split_beta peer_access_address_get_def acall_def)

lemma parse_mfg:
  "\<forall>d\<in>set pre. fst d \<noteq> BT_DATA_MANUFACTURER_DATA \<Longrightarrow>
    in_order (data_cb addr) (pre @ (BT_DATA_MANUFACTURER_DATA, mfg_bytes c k w) # post) s
      = dm_request_add \<lparr>q_addr = addr, q_role = DM_ROLE_INITIATOR, q_mode = peer_ranging_mode_get (app_peers s),
          q_access_address = w, q_start_delay_us = 0\<rparr> s"
  by (induction pre) (simp_all add: data_cb_def mfg_bytes_access)

text \<open>
  Two devices measure on the same access address: when a scanner parses what a device put into its
  advertising data at start-up, the initiator's request it makes carries exactly the access address
  of the reflector's request that device makes when it is scanned, whatever its identity address and
  whatever the stack's calls return, and wherever in the advertising data the element stands.
\<close>

theorem dm_access_address_agrees:
  assumes "\<forall>d\<in>set pre. fst d \<noteq> BT_DATA_MANUFACTURER_DATA" "parse_ok parse"
    and "peer_supported_test scanner_addr (app_peers (snd (bt_sync_init ret ident dev)))"
  shows "\<exists>qi qr. app_requests (scan_filter_match parse alloc dev_addr
             (pre @ (BT_DATA_MANUFACTURER_DATA, app_mfg_data (snd (bt_sync_init ret ident dev))) # post) scanner)
           = app_requests scanner @ [qi]
     \<and> app_requests (adv_scanned_cb scanner_addr (snd (bt_sync_init ret ident dev)))
           = app_requests (snd (bt_sync_init ret ident dev)) @ [qr]
     \<and> q_role qi = DM_ROLE_INITIATOR \<and> q_role qr = DM_ROLE_REFLECTOR
     \<and> q_addr qi = dev_addr \<and> q_addr qr = scanner_addr
     \<and> q_access_address qi = q_access_address qr"
proof -
  have p: "parse f ds s = in_order f ds s" for f ds s using assms(2) by (simp add: parse_ok_def)
  show ?thesis
    using assms(3) unfolding scan_filter_match_def p sync_init_state(2) parse_mfg [OF assms(1)] adv_scanned_cb_def
    by (simp add: dm_request_add_def sync_init_state(1))
qed

theorem dm_access_address_agrees_witness:
  "\<exists>qi. app_requests (scan_filter_match in_order demo_alloc 7
       [(1, [6]), (BT_DATA_MANUFACTURER_DATA, app_mfg_data (snd (bt_sync_init (\<lambda>_. 0) [1, 2, 3, 4, 5, 6]
          \<lparr>app_peers = demo_peers [1] two_peers 0, app_adv = False, app_adv_param = ADV_PARAM_CONN,
           app_mfg_data = [], app_connect_status = 0, app_requests = [], app_calls = []\<rparr>)))]
       \<lparr>app_peers = demo_peers [] Map.empty 0, app_adv = False, app_adv_param = ADV_PARAM_CONN,
        app_mfg_data = [], app_connect_status = 0, app_requests = [], app_calls = []\<rparr>) = [qi]
     \<and> q_access_address qi = 0x04030201"
proof -
  let ?d = "\<lparr>app_peers = demo_peers [1] two_peers 0, app_adv = False, app_adv_param = ADV_PARAM_CONN,
           app_mfg_data = [], app_connect_status = 0, app_requests = [], app_calls = []\<rparr>"
  have pre: "\<forall>d\<in>set [(1, [6])]. fst d \<noteq> BT_DATA_MANUFACTURER_DATA" by (simp add: BT_DATA_MANUFACTURER_DATA_def)
  have io: "parse_ok in_order" by (simp add: parse_ok_def)
  have "app_peers (snd (bt_sync_init (\<lambda>_. 0) [1, 2, 3, 4, 5, 6] ?d))
      = snd (peer_access_address_prepare [1, 2, 3, 4, 5, 6] (app_peers ?d))"
    using adv_start_frame call_seq_frame
    by (simp add: bt_sync_init_def dm_scan_start_def Let_def split_beta acall_def)
  then have t: "peer_supported_test 10 (app_peers (snd (bt_sync_init (\<lambda>_. 0) [1, 2, 3, 4, 5, 6] ?d)))"
    by (simp add: peer_access_address_prepare_def Let_def peer_supported_test_def demo_peers_def two_peers_def demo_entry_def)
  have a: "access_address (snd (peer_access_address_prepare [1, 2, 3, 4, 5, 6] (app_peers ?d))) = 0x04030201"
    by (simp add: peer_access_address_prepare_def Let_def push_bit_eq_mult)
  have "peer_access_address_get (app_peers (snd (bt_sync_init (\<lambda>_. 0) [1, 2, 3, 4, 5, 6] ?d))) = 0x04030201"
    using sync_init_state(1) a by simp
  then show ?thesis
    using dm_access_address_agrees [OF pre io t, of demo_alloc 7 "[]"
        "\<lparr>app_peers = demo_peers [] Map.empty 0, app_adv = False, app_adv_param = ADV_PARAM_CONN,
        app_mfg_data = [], app_connect_status = 0, app_requests = [], app_calls = []\<rparr>"] t
    by (auto simp: adv_scanned_cb_def dm_request_add_def)
qed

end
