(* ===== verification/Throughput.thy ===== *)
theory Throughput
  imports Prelude Machine
begin

text \<open>
  The throughput test of the nRF5340's network core
  (\<open>nrf53_ble/throughput_with_flash_write/throughput_service/throughput.c\<close>,
  \<open>netcore/src/main.c\<close> and \<open>netcore/src/cmds.c\<close>): the characteristic that counts what a peer writes, the
  shell commands that set the test's parameters, the connection it runs on and the test itself.

  The Bluetooth stack and the semaphore waits are elements of the trace; what they return is an
  argument, as are the cycle counter and the conversion of cycles to nanoseconds.
\<close>

section \<open>The throughput characteristic\<close>

record metrics =
  write_count :: u32
  write_len :: u32
  write_rate :: u32

record tp_service =
  svc_met :: metrics
  svc_clock_cycles :: u32
  svc_kb :: u32

text \<open>
  One write of \<open>len\<close> bytes; \<open>now\<close> is the cycle counter, \<open>now2\<close> its second reading. The
  division by an elapsed time of 0 is undefined.
\<close>

definition write_callback :: "(u64 \<Rightarrow> u64) \<Rightarrow> u32 \<Rightarrow> u32 \<Rightarrow> u16 \<Rightarrow> tp_service \<Rightarrow> tp_service option" where
  "write_callback cyc_to_ns now now2 len s =
     (let delta = cyc_to_ns (ucast (now - svc_clock_cycles s)) in
      if len = 1
      then Some (s\<lparr>svc_kb := 0, svc_met := \<lparr>write_count = 0, write_len = 0, write_rate = 0\<rparr>,
                   svc_clock_cycles := now2\<rparr>)
      else if delta = 0 then None
      else
        (let n = write_len (svc_met s) + ucast len in
         Some (s\<lparr>svc_met := \<lparr>write_count = write_count (svc_met s) + 1, write_len = n,
                              write_rate = ucast (push_bit 3 (ucast n :: u64) * 1000000000 div delta)\<rparr>\<rparr>)))"

text \<open>The read callback copies at most the 12 bytes of the metrics.\<close>

definition metrics_bytes :: "metrics \<Rightarrow> u8 list" where
  "metrics_bytes x = le32 (write_count x) @ le32 (write_len x) @ le32 (write_rate x)"

definition read_callback :: "u16 \<Rightarrow> tp_service \<Rightarrow> u8 list" where
  "read_callback len s = take (min 12 (unat len)) (metrics_bytes (svc_met s))"

text \<open>The reader fills what it got into zeroed metrics.\<close>

definition read_fn :: "u8 list \<Rightarrow> metrics" where
  "read_fn data =
     (let b = take 12 data @ replicate (12 - length data) 0 in
      \<lparr>write_count = rd32 (take 4 b), write_len = rd32 (take 4 (drop 4 b)), write_rate = rd32 (take 4 (drop 8 b))\<rparr>)"

section \<open>Configuration\<close>

record phy_param =
  phy_options :: u16
  pref_tx_phy :: u8
  pref_rx_phy :: u8

record data_len_param =
  tx_max_len :: u16
  tx_max_time :: u16

record le_conn_param =
  interval_min :: u16
  interval_max :: u16
  cp_latency :: u16
  cp_timeout :: u16

record test_params =
  tp_conn_param :: le_conn_param
  tp_phy :: phy_param
  tp_data_len :: data_len_param

text \<open>Codes of the Bluetooth specification as Zephyr names them.\<close>

definition BT_GAP_LE_PHY_1M :: u8 where "BT_GAP_LE_PHY_1M = 1"
definition BT_GAP_LE_PHY_2M :: u8 where "BT_GAP_LE_PHY_2M = 2"
definition BT_GAP_LE_PHY_CODED :: u8 where "BT_GAP_LE_PHY_CODED = 4"
definition BT_CONN_LE_PHY_OPT_CODED_S2 :: u16 where "BT_CONN_LE_PHY_OPT_CODED_S2 = 1"
definition BT_CONN_LE_PHY_OPT_CODED_S8 :: u16 where "BT_CONN_LE_PHY_OPT_CODED_S8 = 2"
definition BT_GAP_DATA_LEN_DEFAULT :: u16 where "BT_GAP_DATA_LEN_DEFAULT = 27"
definition BT_GAP_DATA_LEN_MAX :: u16 where "BT_GAP_DATA_LEN_MAX = 251"
definition BT_GAP_DATA_TIME_MAX :: u16 where "BT_GAP_DATA_TIME_MAX = 17040"
definition SHELL_CMD_HELP_PRINTED :: int where "SHELL_CMD_HELP_PRINTED = 1"

definition MIN_CONN_INTERVAL :: u16 where "MIN_CONN_INTERVAL = 6"
definition MAX_CONN_INTERVAL :: u16 where "MAX_CONN_INTERVAL = 3200"
definition SUPERVISION_TIMEOUT :: u16 where "SUPERVISION_TIMEOUT = 1000"

definition init_params :: test_params where
  "init_params = \<lparr>tp_conn_param = \<lparr>interval_min = 20, interval_max = 25, cp_latency = 0, cp_timeout = 1000\<rparr>,
     tp_phy = \<lparr>phy_options = 0, pref_tx_phy = BT_GAP_LE_PHY_2M, pref_rx_phy = BT_GAP_LE_PHY_2M\<rparr>,
     tp_data_len = \<lparr>tx_max_len = BT_GAP_DATA_LEN_MAX, tx_max_time = BT_GAP_DATA_TIME_MAX\<rparr>\<rparr>"

text \<open>C's \<open>strtol\<close> in base 10, with a 32-bit \<open>long\<close>: leading space, a sign, digits, saturating.\<close>

definition is_space :: "char \<Rightarrow> bool" where
  "is_space c \<longleftrightarrow> c = CHR '' '' \<or> (9 \<le> (of_char c :: nat) \<and> (of_char c :: nat) \<le> 13)"

definition digit_val :: "char \<Rightarrow> int option" where
  "digit_val c = (let n = (of_char c :: nat) in if 48 \<le> n \<and> n \<le> 57 then Some (int n - 48) else None)"

fun digits_val :: "int \<Rightarrow> string \<Rightarrow> int" where
  "digits_val acc [] = acc"
| "digits_val acc (c # cs) = (case digit_val c of None \<Rightarrow> acc | Some d \<Rightarrow> digits_val (10 * acc + d) cs)"

definition strtol10 :: "string \<Rightarrow> int" where
  "strtol10 str =
     (let t = dropWhile is_space str;
          v = (case t of
                 [] \<Rightarrow> 0
               | c # cs \<Rightarrow> if c = CHR ''-'' then - digits_val 0 cs
                           else if c = CHR ''+'' then digits_val 0 cs else digits_val 0 t)
      in max (- 2147483648) (min 2147483647 v))"

definition phy_str :: "phy_param \<Rightarrow> string" where
  "phy_str p =
     (if pref_tx_phy p = BT_GAP_LE_PHY_1M then ''1 Mbps''
      else if pref_tx_phy p = BT_GAP_LE_PHY_2M then ''2 Mbps''
      else if pref_tx_phy p = BT_GAP_LE_PHY_CODED \<and> phy_options p = BT_CONN_LE_PHY_OPT_CODED_S2 then ''Coded S2''
      else if pref_tx_phy p = BT_GAP_LE_PHY_CODED \<and> phy_options p = BT_CONN_LE_PHY_OPT_CODED_S8 then ''Coded S8''
      else ''Unknown'')"

definition default_cmd :: "string list \<Rightarrow> int" where
  "default_cmd argv =
     (if length argv = 1 then SHELL_CMD_HELP_PRINTED
      else if 2 < length argv then - EINVAL
      else if length argv = 2 then - EINVAL else 0)"

definition set_phy :: "u16 \<Rightarrow> u8 \<Rightarrow> test_params \<Rightarrow> test_params" where
  "set_phy opt phy p = p\<lparr>tp_phy := \<lparr>phy_options = opt, pref_tx_phy = phy, pref_rx_phy = phy\<rparr>\<rparr>"

definition cmd_phy_1m :: "test_params \<Rightarrow> int \<times> test_params" where
  "cmd_phy_1m p = (0, set_phy 0 BT_GAP_LE_PHY_1M p)"
definition cmd_phy_2m :: "test_params \<Rightarrow> int \<times> test_params" where
  "cmd_phy_2m p = (0, set_phy 0 BT_GAP_LE_PHY_2M p)"
definition cmd_phy_coded_s2 :: "test_params \<Rightarrow> int \<times> test_params" where
  "cmd_phy_coded_s2 p = (0, set_phy BT_CONN_LE_PHY_OPT_CODED_S2 BT_GAP_LE_PHY_CODED p)"
definition cmd_phy_coded_s8 :: "test_params \<Rightarrow> int \<times> test_params" where
  "cmd_phy_coded_s8 p = (0, set_phy BT_CONN_LE_PHY_OPT_CODED_S8 BT_GAP_LE_PHY_CODED p)"

definition data_len_cmd :: "string list \<Rightarrow> test_params \<Rightarrow> int \<times> test_params" where
  "data_len_cmd argv p =
     (if length argv = 1 then (SHELL_CMD_HELP_PRINTED, p)
      else if 2 < length argv then (- EINVAL, p)
      else
        (let data_len = (of_int (strtol10 (argv ! 1)) :: u16) in
         if data_len < BT_GAP_DATA_LEN_DEFAULT \<or> BT_GAP_DATA_LEN_MAX < data_len then (- EINVAL, p)
         else (0, p\<lparr>tp_data_len := \<lparr>tx_max_len = data_len, tx_max_time = BT_GAP_DATA_TIME_MAX\<rparr>\<rparr>)))"

definition conn_interval_cmd :: "string list \<Rightarrow> test_params \<Rightarrow> int \<times> test_params" where
  "conn_interval_cmd argv p =
     (if length argv = 1 then (SHELL_CMD_HELP_PRINTED, p)
      else if 2 < length argv then (- EINVAL, p)
      else
        (let interval = (of_int (strtol10 (argv ! 1)) :: u16) in
         if interval < MIN_CONN_INTERVAL \<or> MAX_CONN_INTERVAL < interval then (- EINVAL, p)
         else (0, p\<lparr>tp_conn_param := \<lparr>interval_min = interval, interval_max = interval,
                                      cp_latency = 0, cp_timeout = SUPERVISION_TIMEOUT\<rparr>\<rparr>)))"

section \<open>The network core\<close>

datatype tp_wait = WaitPhy | WaitDataLen | WaitParam | WaitRead

datatype tp_call =
    ConnDisconnect ptr | GattDmStart ptr | DmDataRelease | ExchangeMtu ptr
  | TpScanInit | TpScanFilterAdd | TpScanFilterEnable | TpScanStart | TpAdvStart
  | ButtonsHandlerRemove | ButtonsHandlerAdd
  | PhyUpdate phy_param | DataLenUpdate data_len_param | ConnParamUpdate le_conn_param
  | Waited tp_wait | GattWrite nat | GattRead | TpSleep nat
  | SendToApp "u8 list" | TakeAck

record conn_info =
  info_master :: bool
  info_interval :: u16
  info_tx_max_len :: u16

record netcore =
  data_length_req :: bool
  test_ready :: bool
  default_conn :: ptr
  tp_refs :: "ptr \<Rightarrow> int"
  throughput_sem :: bool
  tp_char_handle :: u16
  tp_conn :: ptr
  tp_calls :: "tp_call list"

text \<open>What the stack answers: the information of a connection and the results of calls and waits.\<close>

record tp_env =
  conn_get_info :: "ptr \<Rightarrow> conn_info option"
  info_err :: int
  call_ret :: "tp_call \<Rightarrow> int"
  wait_ret :: "tp_wait \<Rightarrow> int"
  write_ret :: "nat \<Rightarrow> int"

definition tcall :: "tp_call \<Rightarrow> netcore \<Rightarrow> netcore" where
  "tcall c s = s\<lparr>tp_calls := tp_calls s @ [c]\<rparr>"

definition exchange_func :: "tp_env \<Rightarrow> ptr \<Rightarrow> netcore \<Rightarrow> netcore" where
  "exchange_func e conn s =
     (case conn_get_info e conn of
        None \<Rightarrow> s
      | Some i \<Rightarrow> if info_master i then s\<lparr>test_ready := True\<rparr> else s)"

text \<open>\<open>desc\<close> is the handle of the value descriptor when the discovery found one.\<close>

definition bt_throughput_handles_assign :: "bool \<Rightarrow> u16 option \<Rightarrow> ptr \<Rightarrow> netcore \<Rightarrow> int \<times> netcore" where
  "bt_throughput_handles_assign uuid_ok desc conn s =
     (if \<not> uuid_ok then (- ENOTSUP, s)
      else (case desc of None \<Rightarrow> (- EINVAL, s)
            | Some h \<Rightarrow> (0, s\<lparr>tp_char_handle := h, tp_conn := conn\<rparr>)))"

definition discovery_complete :: "bool \<Rightarrow> u16 option \<Rightarrow> ptr \<Rightarrow> netcore \<Rightarrow> netcore" where
  "discovery_complete uuid_ok desc conn s =
     (let s1 = snd (bt_throughput_handles_assign uuid_ok desc conn s) in
      tcall (ExchangeMtu (default_conn s1)) (tcall DmDataRelease s1))"

definition tp_scan_start :: "netcore \<Rightarrow> netcore" where "tp_scan_start s = tcall TpScanStart s"
definition tp_adv_start :: "netcore \<Rightarrow> netcore" where "tp_adv_start s = tcall TpAdvStart s"

definition tp_scan_init :: "tp_env \<Rightarrow> netcore \<Rightarrow> netcore" where
  "tp_scan_init e s =
     (let s1 = tcall TpScanFilterAdd (tcall TpScanInit s) in
      if call_ret e TpScanFilterAdd \<noteq> 0 then s1 else tcall TpScanFilterEnable s1)"

definition tp_connected :: "tp_env \<Rightarrow> ptr \<Rightarrow> u8 \<Rightarrow> netcore \<Rightarrow> netcore" where
  "tp_connected e conn hci_err s =
     (if hci_err \<noteq> 0 then s
      else if default_conn s \<noteq> 0 then tcall (ConnDisconnect conn) s
      else
        (let s1 = s\<lparr>default_conn := conn, tp_refs := (tp_refs s)(conn := tp_refs s conn + 1)\<rparr> in
         case conn_get_info e conn of
           None \<Rightarrow> s1
         | Some i \<Rightarrow> if info_master i then tcall (GattDmStart conn) s1 else s1))"

definition tp_disconnected :: "tp_env \<Rightarrow> ptr \<Rightarrow> netcore \<Rightarrow> netcore" where
  "tp_disconnected e conn s =
     (let d = default_conn s;
          s1 = s\<lparr>test_ready := False\<rparr>;
          s2 = (if d \<noteq> 0 then s1\<lparr>default_conn := 0, tp_refs := (tp_refs s)(d := tp_refs s d - 1)\<rparr> else s1)
      in case conn_get_info e conn of
           None \<Rightarrow> s2
         | Some i \<Rightarrow> if info_master i then tp_scan_start s2 else tp_adv_start s2)"

definition le_param_updated :: "netcore \<Rightarrow> netcore" where
  "le_param_updated s = s\<lparr>throughput_sem := True\<rparr>"

definition le_phy_updated :: "netcore \<Rightarrow> netcore" where
  "le_phy_updated s = s\<lparr>throughput_sem := True\<rparr>"

definition le_data_length_updated :: "netcore \<Rightarrow> netcore" where
  "le_data_length_updated s =
     (if \<not> data_length_req s then s else s\<lparr>data_length_req := False, throughput_sem := True\<rparr>)"

definition throughput_read :: "netcore \<Rightarrow> netcore" where
  "throughput_read s = s\<lparr>throughput_sem := True\<rparr>"

definition throughput_received :: "u8 list \<Rightarrow> netcore \<Rightarrow> netcore" where
  "throughput_received buf s = tcall TakeAck (tcall (SendToApp buf) s)"

definition button_handler_cb :: "u32 \<Rightarrow> u32 \<Rightarrow> netcore \<Rightarrow> netcore" where
  "button_handler_cb button_state has_changed s =
     (let buttons = and button_state has_changed in
      if and buttons 1 \<noteq> 0 then tcall ButtonsHandlerRemove (tp_scan_start s)
      else if and buttons 2 \<noteq> 0 then tcall ButtonsHandlerRemove (tp_adv_start s)
      else s)"

text \<open>A call that fails, or whose wait fails, ends the configuration with its error.\<close>

definition call_and_wait :: "tp_env \<Rightarrow> tp_call \<Rightarrow> tp_wait \<Rightarrow> netcore \<Rightarrow> int \<times> netcore" where
  "call_and_wait e c w s =
     (let s1 = tcall c s in
      if call_ret e c \<noteq> 0 then (call_ret e c, s1) else (wait_ret e w, tcall (Waited w) s1))"

definition connection_configuration_set :: "tp_env \<Rightarrow> test_params \<Rightarrow> netcore \<Rightarrow> int \<times> netcore" where
  "connection_configuration_set e p s =
     (case conn_get_info e (default_conn s) of
        None \<Rightarrow> (info_err e, s)
      | Some i \<Rightarrow>
          (let (err, s1) = call_and_wait e (PhyUpdate (tp_phy p)) WaitPhy s in
           if err \<noteq> 0 then (err, s1)
           else
             (let (err2, s2) =
                (if info_tx_max_len i \<noteq> tx_max_len (tp_data_len p)
                 then call_and_wait e (DataLenUpdate (tp_data_len p)) WaitDataLen (s1\<lparr>data_length_req := True\<rparr>)
                 else (0, s1))
              in if err2 \<noteq> 0 then (err2, s2)
                 else if info_interval i \<noteq> interval_max (tp_conn_param p)
                 then call_and_wait e (ConnParamUpdate (tp_conn_param p)) WaitParam s2
                 else (0, s2))))"

definition IMG_X :: nat where "IMG_X = 81"
definition IMG_Y :: nat where "IMG_Y = 31"
definition IMG_SIZE :: nat where "IMG_SIZE = IMG_X * IMG_Y"

text \<open>The loop of writes from \<open>prog\<close>: the number of bytes counted so far and the state.\<close>

function write_loop :: "tp_env \<Rightarrow> nat \<Rightarrow> u32 \<Rightarrow> netcore \<Rightarrow> u32 \<times> netcore" where
  "write_loop e prog data s =
     (if prog < IMG_SIZE
      then (let s1 = tcall (GattWrite 244) s in
            if write_ret e prog \<noteq> 0 then (data, s1) else write_loop e (prog + 1) (data + 244) s1)
      else (data, s))"
  by auto
termination by (relation "measure (\<lambda>(e, prog, data, s). IMG_SIZE - prog)") auto

declare write_loop.simps [simp del]

text \<open>
  \<open>delta\<close> is the elapsed time in milliseconds. The result is the error code, the byte count and rate the
  test prints, and the state; the division by an elapsed time of 0 is undefined.
\<close>

definition test_run :: "tp_env \<Rightarrow> u64 \<Rightarrow> test_params \<Rightarrow> netcore \<Rightarrow> (int \<times> (u32 \<times> u64) option \<times> netcore) option" where
  "test_run e delta p s =
     (if default_conn s = 0 then Some (- EFAULT, None, s)
      else if \<not> test_ready s then Some (0, None, s)
      else
        (let (err, s1) = connection_configuration_set e p s in
         if err \<noteq> 0 then Some (err, None, s1)
         else
           (let s2 = tcall (GattWrite 1) s1 in
            if call_ret e (GattWrite 1) \<noteq> 0 then Some (call_ret e (GattWrite 1), None, s2)
            else
              (let (n, s3) = write_loop e 0 0 (tcall (TpSleep 500) s2);
                   s4 = tcall (GattWrite 200) s3;
                   data = n + 200
               in if delta = 0 then None
                  else
                    (let out = (data, (ucast data :: u64) * 8 div delta);
                         s5 = tcall GattRead (tcall (TpSleep 500) s4)
                     in if call_ret e GattRead \<noteq> 0 then Some (call_ret e GattRead, Some out, s5)
                        else Some (0, Some out, tcall (Waited WaitRead) s5))))))"

definition tp_main :: "tp_env \<Rightarrow> int \<Rightarrow> int \<Rightarrow> netcore \<Rightarrow> netcore" where
  "tp_main e bt_enable_ret buttons_ret s =
     (if bt_enable_ret \<noteq> 0 then s
      else (let s1 = tp_scan_init e s in if buttons_ret \<noteq> 0 then s1 else tcall ButtonsHandlerAdd s1))"

section \<open>Metrics\<close>

definition write_event :: "(u64 \<Rightarrow> u64) \<Rightarrow> u32 \<times> u16 \<Rightarrow> tp_service \<Rightarrow> tp_service option" where
  "write_event cyc_to_ns ev s = write_callback cyc_to_ns (fst ev) (fst ev) (snd ev) s"

definition total_len :: "(u32 \<times> u16) list \<Rightarrow> nat" where
  "total_len evs = sum_list (map (\<lambda>ev. unat (snd ev)) evs)"

lemma unat_of_u32_64 [simp]: "unat (ucast (w :: u32) :: u64) = unat w"
  using unat_u32_less [of w] by (simp add: unsigned_ucast_eq take_bit_nat_eq_self)

lemma rate_exact:
  fixes n :: u32
  assumes "8 * unat n * 1000000000 < 2 ^ 64"
  shows "unat (push_bit 3 (ucast n :: u64) * 1000000000 div delta) = 8 * unat n * 1000000000 div unat delta"
proof -
  have e: "push_bit 3 (ucast n :: u64) = 8 * ucast n" by (simp add: push_bit_eq_mult)
  have "unat (8 * ucast n :: u64) = 8 * unat n"
    using assms by (subst unat_mult_nowrap) simp_all
  moreover have "unat ((8 * ucast n) * 1000000000 :: u64) = 8 * unat n * 1000000000"
    using assms calculation by (subst unat_mult_nowrap) simp_all
  ultimately show ?thesis unfolding e by (simp add: unat_div_distrib)
qed

lemma write_run:
  "\<forall>ev\<in>set evs. snd ev \<noteq> 1 \<and> cyc_to_ns (ucast (fst ev - t0)) \<noteq> 0 \<Longrightarrow> svc_clock_cycles s = t0 \<Longrightarrow>
    unat (write_count (svc_met s)) + length evs < 2 ^ 32 \<Longrightarrow>
    8 * (unat (write_len (svc_met s)) + total_len evs) * 1000000000 < 2 ^ 64 \<Longrightarrow>
    \<exists>s'. run (write_event cyc_to_ns) evs s = Some s'
      \<and> unat (write_count (svc_met s')) = unat (write_count (svc_met s)) + length evs
      \<and> unat (write_len (svc_met s')) = unat (write_len (svc_met s)) + total_len evs
      \<and> (evs \<noteq> [] \<longrightarrow> write_rate (svc_met s') = of_nat (8 * (unat (write_len (svc_met s)) + total_len evs)
            * 1000000000 div unat (cyc_to_ns (ucast (fst (last evs) - t0)))))"
proof (induction evs arbitrary: s)
  case (Cons ev evs)
  let ?d = "cyc_to_ns (ucast (fst ev - t0))"
  let ?n = "write_len (svc_met s) + ucast (snd ev)"
  define s1 where "s1 = s\<lparr>svc_met := \<lparr>write_count = write_count (svc_met s) + 1, write_len = ?n,
     write_rate = ucast (push_bit 3 (ucast ?n :: u64) * 1000000000 div ?d)\<rparr>\<rparr>"
  have step: "write_event cyc_to_ns ev s = Some s1"
    using Cons.prems(1,2) by (simp add: write_event_def write_callback_def s1_def Let_def)
  have tot: "total_len (ev # evs) = unat (snd ev) + total_len evs" by (simp add: total_len_def)
  have n: "unat ?n = unat (write_len (svc_met s)) + unat (snd ev)"
    using Cons.prems(4) tot by (subst unat_plus_nowrap) simp_all
  have c: "unat (write_count (svc_met s) + 1) = unat (write_count (svc_met s)) + 1"
    using Cons.prems(3) by (subst unat_plus_nowrap) simp_all
  have r: "write_rate (svc_met s1) = of_nat (8 * unat ?n * 1000000000 div unat ?d)"
  proof -
    have "8 * unat ?n * 1000000000 < 2 ^ 64" using Cons.prems(4) n tot by simp
    from rate_exact [OF this, of ?d]
    have "of_nat (unat (push_bit 3 (ucast ?n :: u64) * 1000000000 div ?d)) = (of_nat (8 * unat ?n * 1000000000 div unat ?d) :: u32)"
      by (simp only:)
    then show ?thesis by (simp add: s1_def unsigned_ucast_eq)
  qed
  have "\<forall>ev\<in>set evs. snd ev \<noteq> 1 \<and> cyc_to_ns (ucast (fst ev - t0)) \<noteq> 0" "svc_clock_cycles s1 = t0"
    "unat (write_count (svc_met s1)) + length evs < 2 ^ 32"
    "8 * (unat (write_len (svc_met s1)) + total_len evs) * 1000000000 < 2 ^ 64"
    using Cons.prems c n tot by (simp_all add: s1_def)
  from Cons.IH [OF this] step r show ?case
    using c n tot by (cases evs) (auto simp: s1_def total_len_def add.assoc)
qed (simp add: total_len_def)

text \<open>
  After a reset write (one byte), any run of writes that are not resets and at which some time has elapsed is defined; the
  characteristic then reports exactly the number of writes and bytes, and the rate 8 bits per byte over the time since
  the reset, as long as the counters do not wrap. A write in the same clock tick as the reset divides by zero.
\<close>

theorem throughput_rate:
  assumes "\<forall>ev\<in>set evs. snd ev \<noteq> 1 \<and> cyc_to_ns (ucast (fst ev - t0)) \<noteq> 0" "evs \<noteq> []"
    and "length evs < 2 ^ 32" "8 * total_len evs * 1000000000 < 2 ^ 64"
  shows "\<exists>s0 s'. write_callback cyc_to_ns t t0 1 s = Some s0
     \<and> run (write_event cyc_to_ns) evs s0 = Some s'
     \<and> unat (write_count (svc_met s')) = length evs \<and> unat (write_len (svc_met s')) = total_len evs
     \<and> write_rate (svc_met s')
         = of_nat (8 * total_len evs * 1000000000 div unat (cyc_to_ns (ucast (fst (last evs) - t0))))
     \<and> (cyc_to_ns 0 = 0 \<longrightarrow> write_event cyc_to_ns (t0, 244) s0 = None)"
proof -
  define s0 where "s0 = s\<lparr>svc_kb := 0, svc_met := \<lparr>write_count = 0, write_len = 0, write_rate = 0\<rparr>,
                   svc_clock_cycles := t0\<rparr>"
  have r: "write_callback cyc_to_ns t t0 1 s = Some s0" by (simp add: write_callback_def s0_def Let_def)
  have p: "svc_clock_cycles s0 = t0" "unat (write_count (svc_met s0)) + length evs < 2 ^ 32"
    "8 * (unat (write_len (svc_met s0)) + total_len evs) * 1000000000 < 2 ^ 64"
    using assms by (simp_all add: s0_def)
  have z: "cyc_to_ns 0 = 0 \<longrightarrow> write_event cyc_to_ns (t0, 244) s0 = None"
    by (simp add: write_event_def write_callback_def s0_def Let_def)
  from write_run [OF assms(1) p] assms(2) r z show ?thesis by (auto simp: s0_def)
qed

theorem throughput_rate_witness:
  "\<exists>s0 s'. write_callback (\<lambda>c. c * 30517) 7 100 1
       \<lparr>svc_met = \<lparr>write_count = 5, write_len = 6, write_rate = 7\<rparr>, svc_clock_cycles = 0, svc_kb = 0\<rparr> = Some s0
     \<and> run (write_event (\<lambda>c. c * 30517)) [(200, 244), (300, 244)] s0 = Some s'
     \<and> unat (write_len (svc_met s')) = 488"
proof -
  have "\<forall>ev\<in>set [(200, 244), (300, 244)]. snd ev \<noteq> (1 :: u16) \<and> ucast (fst ev - 100 :: u32) * 30517 \<noteq> (0 :: u64)"
    "[(200 :: u32, 244 :: u16), (300, 244)] \<noteq> []" "length [(200 :: u32, 244 :: u16), (300, 244)] < 2 ^ 32"
    "8 * total_len [(200, 244), (300, 244)] * 1000000000 < 2 ^ 64"
    by (simp_all add: total_len_def)
  from throughput_rate [OF this] show ?thesis by (fastforce simp: total_len_def)
qed

section \<open>Commands\<close>

definition params_ok :: "test_params \<Rightarrow> bool" where
  "params_ok p \<longleftrightarrow> BT_GAP_DATA_LEN_DEFAULT \<le> tx_max_len (tp_data_len p) \<and> tx_max_len (tp_data_len p) \<le> BT_GAP_DATA_LEN_MAX
     \<and> MIN_CONN_INTERVAL \<le> interval_min (tp_conn_param p)
     \<and> interval_min (tp_conn_param p) \<le> interval_max (tp_conn_param p)
     \<and> interval_max (tp_conn_param p) \<le> MAX_CONN_INTERVAL"

lemma uint_u16_of_int: "uint (of_int v :: u16) = v mod 65536"
  by (simp add: unsigned_of_int take_bit_eq_mod)

text \<open>
  The shell commands keep the parameters within the limits of the specification; with one argument they succeed exactly
  when its value modulo 65536 is in range, and store that value: the range check comes after the truncation to 16 bits.
\<close>

theorem config_cmds_outcome:
  assumes "params_ok p"
  shows "params_ok (snd (data_len_cmd argv p)) \<and> params_ok (snd (conn_interval_cmd argv p))
     \<and> fst (data_len_cmd [cmd, arg] p) =
         (if 27 \<le> strtol10 arg mod 65536 \<and> strtol10 arg mod 65536 \<le> 251 then 0 else - EINVAL)
     \<and> fst (conn_interval_cmd [cmd, arg] p) =
         (if 6 \<le> strtol10 arg mod 65536 \<and> strtol10 arg mod 65536 \<le> 3200 then 0 else - EINVAL)
     \<and> (fst (data_len_cmd [cmd, arg] p) = 0 \<longrightarrow>
          uint (tx_max_len (tp_data_len (snd (data_len_cmd [cmd, arg] p)))) = strtol10 arg mod 65536)
     \<and> (fst (conn_interval_cmd [cmd, arg] p) = 0 \<longrightarrow>
          uint (interval_max (tp_conn_param (snd (conn_interval_cmd [cmd, arg] p)))) = strtol10 arg mod 65536)"
proof -
  have d: "(of_int v :: u16) < BT_GAP_DATA_LEN_DEFAULT \<longleftrightarrow> v mod 65536 < 27"
    "BT_GAP_DATA_LEN_MAX < (of_int v :: u16) \<longleftrightarrow> 251 < v mod 65536"
    "(of_int v :: u16) < MIN_CONN_INTERVAL \<longleftrightarrow> v mod 65536 < 6"
    "MAX_CONN_INTERVAL < (of_int v :: u16) \<longleftrightarrow> 3200 < v mod 65536" for v
    by (simp_all add: word_less_def uint_u16_of_int BT_GAP_DATA_LEN_DEFAULT_def BT_GAP_DATA_LEN_MAX_def
        MIN_CONN_INTERVAL_def MAX_CONN_INTERVAL_def)
  have k1: "params_ok (snd (data_len_cmd argv p))"
    using assms by (auto simp: data_len_cmd_def Let_def params_ok_def not_less)
  have k2: "params_ok (snd (conn_interval_cmd argv p))"
    using assms by (auto simp: conn_interval_cmd_def Let_def params_ok_def not_less)
  have k3: "fst (data_len_cmd [cmd, arg] p) =
      (if 27 \<le> strtol10 arg mod 65536 \<and> strtol10 arg mod 65536 \<le> 251 then 0 else - EINVAL)"
    by (auto simp: data_len_cmd_def Let_def d)
  have k4: "fst (conn_interval_cmd [cmd, arg] p) =
      (if 6 \<le> strtol10 arg mod 65536 \<and> strtol10 arg mod 65536 \<le> 3200 then 0 else - EINVAL)"
    by (auto simp: conn_interval_cmd_def Let_def d)
  have k5: "fst (data_len_cmd [cmd, arg] p) = 0 \<longrightarrow>
      uint (tx_max_len (tp_data_len (snd (data_len_cmd [cmd, arg] p)))) = strtol10 arg mod 65536"
    by (auto simp: data_len_cmd_def Let_def uint_u16_of_int EINVAL_def)
  have k6: "fst (conn_interval_cmd [cmd, arg] p) = 0 \<longrightarrow>
      uint (interval_max (tp_conn_param (snd (conn_interval_cmd [cmd, arg] p)))) = strtol10 arg mod 65536"
    by (auto simp: conn_interval_cmd_def Let_def uint_u16_of_int EINVAL_def)
  from k1 k2 k3 k4 k5 k6 show ?thesis by simp
qed

lemma strtol_65563: "strtol10 ''65563'' = 65563" by code_simp

theorem config_cmds_outcome_witness:
  "fst (data_len_cmd [''data_length'', ''65563''] init_params) = 0
     \<and> params_ok (snd (data_len_cmd [''data_length'', ''65563''] init_params))"
proof -
  have "params_ok init_params"
    by (simp add: params_ok_def init_params_def BT_GAP_DATA_LEN_DEFAULT_def BT_GAP_DATA_LEN_MAX_def
        MIN_CONN_INTERVAL_def MAX_CONN_INTERVAL_def)
  from config_cmds_outcome [OF this, of "[''data_length'', ''65563'']" "''data_length''" "''65563''"]
  show ?thesis by (simp add: strtol_65563)
qed

section \<open>The refused second connection\<close>

text \<open>
  When a second connection arrives it is disconnected, and its disconnection event releases the reference to the first
  connection and forgets it, without disconnecting it; the next test then fails with -EFAULT.
\<close>

theorem refused_connection_drops_first:
  fixes e :: tp_env
  assumes "default_conn s = c1" "c1 \<noteq> 0" "c2 \<noteq> c1"
  defines "s' \<equiv> tp_disconnected e c2 (tp_connected e c2 0 s)"
  shows "default_conn s' = 0 \<and> tp_refs s' c1 = tp_refs s c1 - 1
     \<and> ConnDisconnect c2 \<in> set (drop (length (tp_calls s)) (tp_calls s'))
     \<and> ConnDisconnect c1 \<notin> set (drop (length (tp_calls s)) (tp_calls s'))
     \<and> test_run e delta p s' = Some (- EFAULT, None, s')"
  using assms(1-3)
  by (auto simp: s'_def tp_connected_def tp_disconnected_def tcall_def tp_scan_start_def tp_adv_start_def
      test_run_def Let_def split: option.splits)

definition demo_tp_env :: tp_env where
  "demo_tp_env = \<lparr>conn_get_info = (\<lambda>c. Some \<lparr>info_master = True, info_interval = 24, info_tx_max_len = 27\<rparr>),
     info_err = 0, call_ret = (\<lambda>_. 0), wait_ret = (\<lambda>_. 0), write_ret = (\<lambda>_. 0)\<rparr>"

definition demo_netcore :: netcore where
  "demo_netcore = \<lparr>data_length_req = False, test_ready = True, default_conn = 1, tp_refs = (\<lambda>_. 1),
     throughput_sem = False, tp_char_handle = 18, tp_conn = 1, tp_calls = []\<rparr>"

theorem refused_connection_drops_first_witness:
  "default_conn (tp_disconnected demo_tp_env 2 (tp_connected demo_tp_env 2 0 demo_netcore)) = 0
     \<and> tp_refs (tp_disconnected demo_tp_env 2 (tp_connected demo_tp_env 2 0 demo_netcore)) 1 = 0"
proof -
  have "default_conn demo_netcore = 1" "(1 :: ptr) \<noteq> 0" "(2 :: ptr) \<noteq> 1" by (simp_all add: demo_netcore_def)
  from refused_connection_drops_first [OF this, of demo_tp_env] show ?thesis by (simp add: demo_netcore_def)
qed

section \<open>The test\<close>

text \<open>The flash area the application core erases for the data (\<open>appcore/src/main.c\<close>).\<close>

definition FLASH_PAGE_SIZE :: nat where "FLASH_PAGE_SIZE = 4096"
definition PAGES :: nat where "PAGES = 150"

fun call_bytes :: "tp_call \<Rightarrow> nat" where
  "call_bytes (GattWrite n) = n"
| "call_bytes _ = 0"

definition bytes_written :: "netcore \<Rightarrow> nat" where
  "bytes_written s = sum_list (map call_bytes (tp_calls s))"

lemma bytes_tcall [simp]: "bytes_written (tcall c s) = bytes_written s + call_bytes c"
  by (simp add: bytes_written_def tcall_def)

lemma write_loop_bound:
  "bytes_written (snd (write_loop e prog data s)) \<le> bytes_written s + 244 * (IMG_SIZE - prog)"
proof (induction "IMG_SIZE - prog" arbitrary: prog data s)
  case 0
  then show ?case by (simp add: write_loop.simps [of e prog])
next
  case (Suc k)
  then have lt: "prog < IMG_SIZE" by simp
  have "k = IMG_SIZE - (prog + 1)" using Suc by simp
  note ih = Suc(1) [OF this, of "data + 244" "tcall (GattWrite 244) s"]
  have n: "IMG_SIZE - prog = Suc (IMG_SIZE - Suc prog)" using lt by simp
  show ?case using ih lt
    by (subst write_loop.simps) (simp add: Let_def n)
qed

lemma write_loop_all:
  "\<forall>j. prog \<le> j \<and> j < IMG_SIZE \<longrightarrow> write_ret e j = 0 \<Longrightarrow>
    fst (write_loop e prog data s) = data + of_nat (244 * (IMG_SIZE - prog))
    \<and> bytes_written (snd (write_loop e prog data s)) = bytes_written s + 244 * (IMG_SIZE - prog)"
proof (induction "IMG_SIZE - prog" arbitrary: prog data s)
  case 0
  then show ?case by (simp add: write_loop.simps [of e prog])
next
  case (Suc k)
  then have lt: "prog < IMG_SIZE" by simp
  have k: "k = IMG_SIZE - (prog + 1)" using Suc(2) by simp
  have "\<forall>j. prog + 1 \<le> j \<and> j < IMG_SIZE \<longrightarrow> write_ret e j = 0" using Suc(3) by simp
  from Suc(1) [OF k this, of "data + 244" "tcall (GattWrite 244) s"] have
    ih: "fst (write_loop e (prog + 1) (data + 244) (tcall (GattWrite 244) s)) = data + 244 + of_nat (244 * k)"
      "bytes_written (snd (write_loop e (prog + 1) (data + 244) (tcall (GattWrite 244) s))) = bytes_written s + 244 + 244 * k"
    by (simp_all add: k)
  have w: "write_loop e prog data s = write_loop e (prog + 1) (data + 244) (tcall (GattWrite 244) s)"
    using lt Suc(3) by (simp add: write_loop.simps [of e prog] Let_def)
  have n: "IMG_SIZE - prog = Suc k" using Suc(2) by simp
  show ?case unfolding w n using ih by (simp add: algebra_simps)
qed

lemma call_and_wait_bytes: "call_bytes c = 0 \<Longrightarrow> bytes_written (snd (call_and_wait e c w s)) = bytes_written s"
  by (simp add: call_and_wait_def Let_def)

lemma config_bytes: "bytes_written (snd (connection_configuration_set e p s)) = bytes_written s"
proof -
  have r: "bytes_written (s\<lparr>data_length_req := b\<rparr>) = bytes_written s" for b s by (simp add: bytes_written_def)
  show ?thesis
    by (simp add: connection_configuration_set_def Let_def split_beta call_and_wait_bytes r split: option.splits)
qed

text \<open>
  A test writes at most 612885 bytes to the peer, and exactly that many when all writes succeed, with the printed count
  612884 (all but the reset byte); this fits the flash pages the peer's application core erases. A test that takes 0 ms
  divides by zero.
\<close>

theorem test_fits_flash:
  assumes "test_run e delta p s = Some (r, out, s')"
  shows "bytes_written s' \<le> bytes_written s + 612885 \<and> (612885 :: nat) \<le> PAGES * FLASH_PAGE_SIZE
     \<and> (r = 0 \<and> default_conn s \<noteq> 0 \<and> test_ready s \<and> (\<forall>j<IMG_SIZE. write_ret e j = 0) \<longrightarrow>
          bytes_written s' = bytes_written s + 612885 \<and> out = Some (612884, 612884 * 8 div delta) \<and> delta \<noteq> 0)"
proof -
  have pg: "(612885 :: nat) \<le> PAGES * FLASH_PAGE_SIZE" by (simp add: PAGES_def FLASH_PAGE_SIZE_def)
  have img: "IMG_SIZE = 2511" by (simp add: IMG_SIZE_def IMG_X_def IMG_Y_def)
  define c where "c = connection_configuration_set e p s"
  define s2 where "s2 = tcall (GattWrite 1) (snd c)"
  define w where "w = write_loop e 0 0 (tcall (TpSleep 500) s2)"
  have b2: "bytes_written s2 = bytes_written s + 1" using config_bytes by (simp add: s2_def c_def)
  have wb: "bytes_written (snd w) \<le> bytes_written s + 1 + 612684"
    using write_loop_bound [of e 0 0 "tcall (TpSleep 500) s2"] by (simp add: w_def b2 img)
  have run: "test_run e delta p s =
     (if default_conn s = 0 then Some (- EFAULT, None, s)
      else if \<not> test_ready s then Some (0, None, s)
      else if fst c \<noteq> 0 then Some (fst c, None, snd c)
      else if call_ret e (GattWrite 1) \<noteq> 0 then Some (call_ret e (GattWrite 1), None, s2)
      else if delta = 0 then None
      else (let s5 = tcall GattRead (tcall (TpSleep 500) (tcall (GattWrite 200) (snd w)));
                o' = Some (fst w + 200, ucast (fst w + 200) * 8 div delta)
            in if call_ret e GattRead \<noteq> 0 then Some (call_ret e GattRead, o', s5)
               else Some (0, o', tcall (Waited WaitRead) s5)))"
    by (simp add: test_run_def c_def s2_def w_def Let_def split_beta)
  have bound: "bytes_written s' \<le> bytes_written s + 612885"
    using assms wb b2 config_bytes [of e p s] unfolding run by (auto simp: Let_def c_def split: if_splits)
  have all: "bytes_written s' = bytes_written s + 612885 \<and> out = Some (612884, 612884 * 8 div delta) \<and> delta \<noteq> 0"
    if ok: "r = 0" "default_conn s \<noteq> 0" "test_ready s" "\<forall>j<IMG_SIZE. write_ret e j = 0"
  proof -
    have "fst w = 612684 \<and> bytes_written (snd w) = bytes_written s + 1 + 612684"
      using write_loop_all [of 0 e 0 "tcall (TpSleep 500) s2"] ok(4) by (simp add: w_def b2 img)
    then show ?thesis using assms ok(1-3) unfolding run by (auto simp: Let_def split: if_splits)
  qed
  from pg bound all show ?thesis by blast
qed

theorem test_fits_flash_witness:
  "\<exists>r out s'. test_run demo_tp_env 1000 init_params demo_netcore = Some (r, out, s')
     \<and> bytes_written s' = 612885 \<and> out = Some (612884, 4903)"
proof -
  have "\<exists>out s'. test_run demo_tp_env 1000 init_params demo_netcore = Some (0, out, s')"
    by (simp add: test_run_def demo_netcore_def demo_tp_env_def connection_configuration_set_def call_and_wait_def
        tcall_def Let_def split_beta)
  then obtain out s' where t: "test_run demo_tp_env 1000 init_params demo_netcore = Some (0, out, s')" by blast
  have "default_conn demo_netcore \<noteq> 0" "test_ready demo_netcore" "\<forall>j<IMG_SIZE. write_ret demo_tp_env j = 0"
    "bytes_written demo_netcore = 0"
    by (simp_all add: demo_netcore_def demo_tp_env_def bytes_written_def)
  with test_fits_flash [OF t] t show ?thesis by auto
qed

end
