(* ===== verification/FlashCore.thy ===== *)
theory FlashCore
  imports Throughput "HOL-Library.Sublist"
begin

text \<open>
  The two cores of the throughput test together: the network core hands each received packet to the
  application core and waits for an acknowledgement
  (\<open>netcore/src/main.c\<close>: \<open>throughput_received\<close>, \<open>send_message\<close>, \<open>receive_message\<close>,
  \<open>endpoint_cb\<close>), and the application core writes it to flash and acknowledges
  (\<open>appcore/src/main.c\<close>: \<open>endpoint_cb\<close>, \<open>data_handler\<close>, \<open>app_task\<close>). Both semaphores count to
  one. The transport delivers a message as a call of the other core's \<open>endpoint_cb\<close>; the flash stream
  is the list of buffers written. What was handed over and what was written is history.
\<close>

record cores =
  net_waiting :: bool
  net_sem :: bool
  received_data :: "u8 list"
  received_data_len :: u16
  app_sem :: bool
  app_started :: bool
  app_ended :: bool
  flash_stream :: "u8 list list"
  handed :: "u8 list list"

definition cores_init :: cores where
  "cores_init = \<lparr>net_waiting = False, net_sem = False, received_data = replicate 250 0, received_data_len = 0,
     app_sem = False, app_started = False, app_ended = False, flash_stream = [], handed = []\<rparr>"

text \<open>\<open>memcpy\<close> into the 250 bytes of \<open>received_data\<close>; more is undefined.\<close>

definition data_handler :: "u8 list \<Rightarrow> cores \<Rightarrow> cores option" where
  "data_handler data c =
     (if 250 < length data then None
      else Some (c\<lparr>received_data := data @ drop (length data) (received_data c),
                   received_data_len := of_nat (length data)\<rparr>))"

definition app_endpoint_cb :: "u8 list \<Rightarrow> cores \<Rightarrow> cores option" where
  "app_endpoint_cb data c = map_option (\<lambda>c1. c1\<lparr>app_sem := True\<rparr>) (data_handler data c)"

definition net_endpoint_cb :: "cores \<Rightarrow> cores" where
  "net_endpoint_cb c = c\<lparr>net_sem := True\<rparr>"

text \<open>The network core hands a packet over (\<open>send_message\<close>) and waits for the semaphore.\<close>

definition net_hand_over :: "u8 list \<Rightarrow> cores \<Rightarrow> cores option" where
  "net_hand_over data c =
     map_option (\<lambda>c1. c1\<lparr>net_waiting := True, handed := handed c1 @ [data]\<rparr>) (app_endpoint_cb data c)"

definition net_take_ack :: "cores \<Rightarrow> cores" where
  "net_take_ack c = c\<lparr>net_sem := False, net_waiting := False\<rparr>"

text \<open>The application task: its first message once the endpoint is bound, then a turn per packet.\<close>

definition app_start :: "cores \<Rightarrow> cores" where
  "app_start c = net_endpoint_cb (c\<lparr>app_started := True\<rparr>)"

definition app_turn :: "cores \<Rightarrow> cores" where
  "app_turn c =
     (let n = unat (received_data_len c);
          c1 = c\<lparr>app_sem := False, flash_stream := flash_stream c @ [take n (received_data c)]\<rparr>
      in if received_data_len c = 200 then c1\<lparr>app_ended := True\<rparr> else net_endpoint_cb c1)"

section \<open>Steps\<close>

text \<open>A task moves only when it is not waiting for its semaphore.\<close>

inductive core_step :: "cores \<Rightarrow> cores \<Rightarrow> bool" where
  hand_over: "\<not> net_waiting c \<Longrightarrow> net_hand_over data c = Some c' \<Longrightarrow> core_step c c'"
| take_ack: "net_waiting c \<Longrightarrow> net_sem c \<Longrightarrow> core_step c (net_take_ack c)"
| start: "\<not> app_started c \<Longrightarrow> core_step c (app_start c)"
| turn: "app_started c \<Longrightarrow> \<not> app_ended c \<Longrightarrow> app_sem c \<Longrightarrow> core_step c (app_turn c)"

inductive core_reach :: "cores \<Rightarrow> bool" where
  reach_init: "core_reach cores_init"
| reach_step: "core_reach c \<Longrightarrow> core_step c c' \<Longrightarrow> core_reach c'"

inductive_cases core_stepE: "core_step c c'"

text \<open>
  What every reachable state satisfies: the packets in flash are packets handed over, in order and none
  twice, and the packet waiting in the buffer is the last one handed over.
\<close>

definition core_inv :: "cores \<Rightarrow> bool" where
  "core_inv c \<longleftrightarrow> length (received_data c) = 250 \<and>
     (if app_sem c
      then handed c \<noteq> [] \<and> subseq (flash_stream c) (butlast (handed c))
         \<and> take (unat (received_data_len c)) (received_data c) = last (handed c)
      else subseq (flash_stream c) (handed c))"

lemma hand_over_inv:
  assumes "net_hand_over data c = Some c'" "core_inv c" shows "core_inv c'"
proof -
  have len: "length data \<le> 250" using assms(1)
    by (auto simp: net_hand_over_def app_endpoint_cb_def data_handler_def split: if_splits)
  then have u: "unat (of_nat (length data) :: u16) = length data" by (intro unat_of_nat_u16) simp
  have "subseq (flash_stream c) (handed c)"
  proof (cases "app_sem c")
    case True
    then have "subseq (flash_stream c) (butlast (handed c))" using assms(2) by (simp add: core_inv_def)
    moreover have "subseq (butlast (handed c)) (handed c)" by (metis prefixeq_butlast prefix_imp_subseq)
    ultimately show ?thesis by (rule subseq_order.trans)
  next
    case False
    then show ?thesis using assms(2) by (simp add: core_inv_def)
  qed
  then show ?thesis using assms len u
    by (auto simp: net_hand_over_def app_endpoint_cb_def data_handler_def core_inv_def split: if_splits)
qed

lemma turn_inv:
  assumes "app_sem c" "core_inv c" shows "core_inv (app_turn c)"
proof -
  have i: "handed c \<noteq> []" "subseq (flash_stream c) (butlast (handed c))"
    "take (unat (received_data_len c)) (received_data c) = last (handed c)" "length (received_data c) = 250"
    using assms by (simp_all add: core_inv_def)
  have "subseq (flash_stream c @ [last (handed c)]) (butlast (handed c) @ [last (handed c)])"
    by (rule list_emb_append_mono [OF i(2)]) simp
  then have "subseq (flash_stream c @ [last (handed c)]) (handed c)" using i(1) by simp
  moreover have "flash_stream (app_turn c) = flash_stream c @ [take (unat (received_data_len c)) (received_data c)]"
    "handed (app_turn c) = handed c" "\<not> app_sem (app_turn c)" "received_data (app_turn c) = received_data c"
    by (simp_all add: app_turn_def net_endpoint_cb_def Let_def)
  ultimately show ?thesis using i(4) by (simp only: core_inv_def i(3)) simp
qed

lemma core_reach_inv: "core_reach c \<Longrightarrow> core_inv c"
proof (induction rule: core_reach.induct)
  case reach_init
  then show ?case by (simp add: core_inv_def cores_init_def)
next
  case (reach_step c c')
  from reach_step(2) show ?case
  proof (cases rule: core_step.cases)
    case (hand_over data)
    then show ?thesis using hand_over_inv reach_step by blast
  next
    case take_ack
    then show ?thesis using reach_step by (simp add: net_take_ack_def core_inv_def)
  next
    case start
    then show ?thesis using reach_step by (simp add: app_start_def net_endpoint_cb_def core_inv_def)
  next
    case turn
    then show ?thesis using turn_inv reach_step by simp
  qed
qed

text \<open>
  C30: In every reachable state of the two cores, the packets in flash are packets handed over, in their order and none
  twice, and a packet waiting in the buffer is the last one handed over, complete.
\<close>

theorem flash_in_order:
  assumes "core_reach c"
  shows "subseq (flash_stream c) (handed c)
     \<and> (app_sem c \<longrightarrow> take (unat (received_data_len c)) (received_data c) = last (handed c))"
proof -
  have i: "core_inv c" by (rule core_reach_inv [OF assms])
  show ?thesis
  proof (cases "app_sem c")
    case True
    then have "subseq (flash_stream c) (butlast (handed c))" using i by (simp add: core_inv_def)
    moreover have "subseq (butlast (handed c)) (handed c)" by (metis prefixeq_butlast prefix_imp_subseq)
    ultimately have "subseq (flash_stream c) (handed c)" by (rule subseq_order.trans)
    then show ?thesis using True i by (simp add: core_inv_def)
  next
    case False
    then show ?thesis using i by (simp add: core_inv_def)
  qed
qed

text \<open>
  The first message of the application task is an acknowledgement of nothing: it lets the network core
  run one packet ahead.
\<close>

lemma overwritten_reachable:
  assumes "length p \<le> 250" "length q \<le> 250"
  shows "\<exists>c. core_reach c \<and> handed c = [p, q] \<and> flash_stream c = [q] \<and> \<not> app_sem c"
proof -
  define c1 where "c1 = app_start cores_init"
  define c2 where "c2 = c1\<lparr>received_data := p @ drop (length p) (received_data c1),
     received_data_len := of_nat (length p), app_sem := True, net_waiting := True, handed := handed c1 @ [p]\<rparr>"
  define c3 where "c3 = net_take_ack c2"
  define c4 where "c4 = c3\<lparr>received_data := q @ drop (length q) (received_data c3),
     received_data_len := of_nat (length q), app_sem := True, net_waiting := True, handed := handed c3 @ [q]\<rparr>"
  have q: "unat (of_nat (length q) :: u16) = length q" using assms(2) by (intro unat_of_nat_u16) simp
  have f: "net_waiting c1 = False" "net_sem c1" "app_started c1" "\<not> app_ended c1" "handed c1 = []" "flash_stream c1 = []"
    by (simp_all add: c1_def app_start_def net_endpoint_cb_def cores_init_def)
  have "core_reach c1" unfolding c1_def
    by (rule reach_step [OF reach_init], rule start) (simp add: cores_init_def)
  then have "core_reach c2"
    by (rule reach_step, intro hand_over [where data = p])
      (use f assms in \<open>auto simp: c2_def net_hand_over_def app_endpoint_cb_def data_handler_def\<close>)
  then have "core_reach c3" unfolding c3_def
    by (rule reach_step, intro take_ack) (use f in \<open>simp_all add: c2_def\<close>)
  then have "core_reach c4"
    by (rule reach_step, intro hand_over [where data = q])
      (use assms in \<open>auto simp: c4_def c3_def net_take_ack_def net_hand_over_def app_endpoint_cb_def data_handler_def\<close>)
  then have "core_reach (app_turn c4)"
    by (rule reach_step, intro turn) (use f in \<open>simp_all add: c4_def c3_def c2_def net_take_ack_def\<close>)
  moreover have "handed (app_turn c4) = [p, q]" "flash_stream (app_turn c4) = [q]" "\<not> app_sem (app_turn c4)"
    using f q by (simp_all add: app_turn_def c4_def c3_def c2_def net_take_ack_def net_endpoint_cb_def Let_def)
  ultimately show ?thesis by blast
qed

text \<open>
  Handing over p and then q can end with only q in flash and no packet waiting: the application task's first message
  counts as an acknowledgement, so the network core does not wait for p to be written.
\<close>

theorem packet_overwritten:
  assumes "length p \<le> 250" "length q \<le> 250"
  shows "\<exists>c. core_reach c \<and> handed c = [p, q] \<and> flash_stream c = [q] \<and> \<not> app_sem c"
  by (rule overwritten_reachable [OF assms])

theorem flash_in_order_witness:
  "\<exists>c :: cores. handed c = [[1], [2, 3]] \<and> flash_stream c = [[2, 3]] \<and> subseq (flash_stream c) (handed c)"
proof -
  obtain c where c: "core_reach c" "handed c = [[1], [2, 3]]" "flash_stream c = [[2, 3]]"
    using overwritten_reachable [of "[1]" "[2, 3]"] by auto
  from flash_in_order [OF c(1)] have "subseq (flash_stream c) (handed c)" by (rule conjunct1)
  with c(2,3) show ?thesis by blast
qed

theorem packet_overwritten_witness:
  "\<exists>c. core_reach c \<and> handed c = [[1], [2, 3]] \<and> flash_stream c = [[2, 3]]"
  using packet_overwritten [of "[1]" "[2, 3]"] by auto

end
