(* ===== verification/IsoReceiver.thy ===== *)
theory IsoReceiver
  imports Prelude Machine "HOL-Library.Multiset"
begin

text \<open>
  The receiver of the isochronous broadcast benchmark
  (\<open>app/ble/iso_broadcast_benchmark_pa_lna/src/receiver.c\<close>): it finds a broadcaster by name, follows
  its periodic advertising, synchronises to its isochronous group and keeps the packet statistics.

  The Bluetooth stack runs the callbacks in a thread of its own, of a higher priority than the test's.
  While the test waits for a semaphore the model takes the callbacks to come from the script
  \<open>rx_script\<close>: bursts of callbacks that run before the test gets the processor again, and time-outs.
  Any order is a script. A call of the
  stack is an element of the trace, and its result is the environment's answer for its position.
\<close>

section \<open>State\<close>

type_synonym adv_addr = nat

record iso_stats =
  iso_recv_count :: u32
  iso_lost_count :: u32

datatype rx_sem = SemPerAdv | SemPerSync | SemPerSyncLost | SemPerBigInfo | SemBigSync | SemBigSyncLost

datatype rx_call =
    RxCbRegister | LeScanStart | LeScanStop
  | PerAdvSyncCreate adv_addr u8 u16 | PerAdvSyncDelete ptr
  | IsoBigSync ptr u8 u32 u16 | IsoBigTerminate ptr

datatype rx_event =
    ScanRecv adv_addr u8 u16 "adv_element list"
  | PerSynced | PerTerm | BigInfo u16 u8
  | IsoConnected int | IsoDisconnected int | IsoRecv bool

datatype rx_item = Burst "rx_event list" | TimeOut

record iso_report =
  rep_overall :: iso_stats
  rep_current :: iso_stats
  rep_latest :: iso_stats

record iso_rx =
  broadcaster_found :: bool
  per_adv_lost :: bool
  big_sync_lost :: bool
  biginfo_received :: bool
  per_addr :: adv_addr
  per_sid :: u8
  per_interval_ms :: u16
  iso_interval_ms :: u16
  rx_bis_count :: u8
  last_received_counter :: u32
  big_sync_start_time :: int
  big_sync_count :: u32
  average_duration :: int
  stats_current_sync :: iso_stats
  stats_overall :: iso_stats
  stats_latest_arr :: "bool list"
  stats_latest_arr_pos :: nat
  rx_given :: "rx_sem \<Rightarrow> bool"
  callbacks_registered :: bool
  rx_script :: "rx_item list"
  rx_reports :: "iso_report list"
  rx_calls :: "rx_call list"

text \<open>
  The name of the device and the size of the channel array are Kconfig values; \<open>rx_ret\<close> answers the
  n-th call, and \<open>new_sync\<close> and \<open>new_big\<close> are the objects the stack hands out.
\<close>

record rx_env =
  device_name :: "u8 list"
  rx_max_chan :: u8
  rx_parse :: "(u8 list) adv_parser"
  rx_ret :: "nat \<Rightarrow> int"
  new_sync :: ptr
  new_big :: ptr

definition zero_stats :: iso_stats where
  "zero_stats = \<lparr>iso_recv_count = 0, iso_lost_count = 0\<rparr>"

definition iso_rx_init :: iso_rx where
  "iso_rx_init = \<lparr>broadcaster_found = False, per_adv_lost = False, big_sync_lost = False, biginfo_received = False,
     per_addr = 0, per_sid = 0, per_interval_ms = 0, iso_interval_ms = 0, rx_bis_count = 0, last_received_counter = 0,
     big_sync_start_time = 0, big_sync_count = 0, average_duration = 0,
     stats_current_sync = zero_stats, stats_overall = zero_stats,
     stats_latest_arr = replicate 1000 False, stats_latest_arr_pos = 0, rx_given = (\<lambda>_. False),
     callbacks_registered = False, rx_script = [], rx_reports = [], rx_calls = []\<rparr>"

definition give :: "rx_sem \<Rightarrow> iso_rx \<Rightarrow> iso_rx" where
  "give m s = s\<lparr>rx_given := (rx_given s)(m := True)\<rparr>"

section \<open>Callbacks\<close>

text \<open>\<open>BT_INTERVAL_TO_MS\<close>, computed as an \<open>int\<close> and stored in 16 bits.\<close>

definition interval_to_ms :: "u16 \<Rightarrow> u16" where
  "interval_to_ms i = of_nat (unat i * 5 div 4)"

definition BT_DATA_NAME_SHORTENED :: u8 where "BT_DATA_NAME_SHORTENED = 0x08"
definition BT_DATA_NAME_COMPLETE :: u8 where "BT_DATA_NAME_COMPLETE = 0x09"

text \<open>The buffer \<open>name\<close> has room for the device name and its NUL.\<close>

definition name_data_cb :: "rx_env \<Rightarrow> adv_element \<Rightarrow> u8 list \<Rightarrow> bool \<times> u8 list" where
  "name_data_cb e d name =
     (if fst d = BT_DATA_NAME_SHORTENED \<or> fst d = BT_DATA_NAME_COMPLETE
      then (let len = min (length (snd d)) (length (device_name e))
            in (False, take len (snd d) @ [0] @ drop (len + 1) name))
      else (True, name))"

definition name_matches :: "rx_env \<Rightarrow> adv_element list \<Rightarrow> bool" where
  "name_matches e adv =
     (let name = rx_parse e (name_data_cb e) adv (replicate (length (device_name e) + 1) 0)
      in strn_eq (length (device_name e)) (device_name e) name)"

definition scan_recv :: "rx_env \<Rightarrow> adv_addr \<Rightarrow> u8 \<Rightarrow> u16 \<Rightarrow> adv_element list \<Rightarrow> iso_rx \<Rightarrow> iso_rx" where
  "scan_recv e addr sid interval adv s =
     (if broadcaster_found s then s
      else if \<not> name_matches e adv then s
      else give SemPerAdv (s\<lparr>broadcaster_found := True, per_sid := sid,
                              per_interval_ms := interval_to_ms interval, per_addr := addr\<rparr>))"

definition sync_cb :: "iso_rx \<Rightarrow> iso_rx" where
  "sync_cb s = give SemPerSync s"

definition term_cb :: "iso_rx \<Rightarrow> iso_rx" where
  "term_cb s = give SemPerSyncLost (s\<lparr>per_adv_lost := True\<rparr>)"

definition biginfo_cb :: "rx_env \<Rightarrow> u16 \<Rightarrow> u8 \<Rightarrow> iso_rx \<Rightarrow> iso_rx" where
  "biginfo_cb e interval num_bis s =
     (if biginfo_received s then s
      else give SemPerBigInfo (s\<lparr>iso_interval_ms := interval_to_ms interval, rx_bis_count := min num_bis (rx_max_chan e),
                                 biginfo_received := True\<rparr>))"

definition count_packet :: "bool \<Rightarrow> iso_stats \<Rightarrow> iso_stats" where
  "count_packet valid st =
     (if valid then st\<lparr>iso_recv_count := iso_recv_count st + 1\<rparr> else st\<lparr>iso_lost_count := iso_lost_count st + 1\<rparr>)"

text \<open>The loop over the latest packets: it ends early when fewer than 1000 have come.\<close>

fun latest_loop :: "bool list \<Rightarrow> u32 \<Rightarrow> u32 \<Rightarrow> iso_stats \<Rightarrow> iso_stats" where
  "latest_loop [] i total_packets st = st"
| "latest_loop (b # bs) i total_packets st =
     (if i = total_packets then st else latest_loop bs (i + 1) total_packets (count_packet b st))"

text \<open>One packet, received or lost. A write outside \<open>stats_latest_arr\<close> is undefined.\<close>

definition iso_recv :: "bool \<Rightarrow> iso_rx \<Rightarrow> iso_rx option" where
  "iso_recv valid s =
     (if length (stats_latest_arr s) \<le> stats_latest_arr_pos s then None
      else
        (let pos = stats_latest_arr_pos s + 1;
             s1 = s\<lparr>stats_current_sync := count_packet valid (stats_current_sync s),
                    stats_overall := count_packet valid (stats_overall s),
                    stats_latest_arr := (stats_latest_arr s)[stats_latest_arr_pos s := valid],
                    stats_latest_arr_pos := (if pos = 1000 then 0 else pos)\<rparr>;
             total_packets = iso_recv_count (stats_overall s1) + iso_lost_count (stats_overall s1)
         in Some (if total_packets mod 100 = 0
                  then s1\<lparr>rx_reports := rx_reports s1 @
                       [\<lparr>rep_overall = stats_overall s1, rep_current = stats_current_sync s1,
                         rep_latest = latest_loop (stats_latest_arr s1) 0 total_packets zero_stats\<rparr>]\<rparr>
                  else s1)))"

definition iso_connected :: "int \<Rightarrow> iso_rx \<Rightarrow> iso_rx" where
  "iso_connected now s = give SemBigSync (s\<lparr>big_sync_start_time := now\<rparr>)"

text \<open>
  The cumulative average. The times are 64-bit; a product outside them, and the division by a count of
  0, are undefined. The count less one is a 32-bit \<open>size_t\<close>.
\<close>

definition iso_disconnected :: "int \<Rightarrow> iso_rx \<Rightarrow> iso_rx option" where
  "iso_disconnected now s =
     (let big_sync_duration = (now - big_sync_start_time s) mod 2 ^ 64;
          earlier = uint (big_sync_count s - 1) * average_duration s
      in if big_sync_count s = 0 \<or> 2 ^ 63 \<le> earlier \<or> earlier < - (2 ^ 63) then None
         else
           (let total_duration = (big_sync_duration + earlier) mod 2 ^ 64;
                q = total_duration div uint (big_sync_count s)
            in Some (give SemBigSyncLost (s\<lparr>average_duration := (if 2 ^ 63 \<le> q then q - 2 ^ 64 else q),
                                            big_sync_lost := True\<rparr>))))"

fun rx_event_step :: "rx_env \<Rightarrow> rx_event \<Rightarrow> iso_rx \<Rightarrow> iso_rx option" where
  "rx_event_step e (ScanRecv addr sid interval adv) s = Some (scan_recv e addr sid interval adv s)"
| "rx_event_step e PerSynced s = Some (sync_cb s)"
| "rx_event_step e PerTerm s = Some (term_cb s)"
| "rx_event_step e (BigInfo interval num_bis) s = Some (biginfo_cb e interval num_bis s)"
| "rx_event_step e (IsoConnected now) s = Some (iso_connected now s)"
| "rx_event_step e (IsoDisconnected now) s = iso_disconnected now s"
| "rx_event_step e (IsoRecv valid) s = iso_recv valid s"

section \<open>The test\<close>

text \<open>A routine of the test returns, waits for a callback that is not in the script, or is undefined.\<close>

datatype 'a rx_res = RxDone 'a iso_rx | RxWaiting iso_rx | RxUndef

fun rx_bind :: "'a rx_res \<Rightarrow> ('a \<Rightarrow> iso_rx \<Rightarrow> 'b rx_res) \<Rightarrow> 'b rx_res" where
  "rx_bind (RxDone x s) f = f x s"
| "rx_bind (RxWaiting s) f = RxWaiting s"
| "rx_bind RxUndef f = RxUndef"

definition rx_do :: "rx_env \<Rightarrow> rx_call \<Rightarrow> iso_rx \<Rightarrow> int \<times> iso_rx" where
  "rx_do e c s = (rx_ret e (length (rx_calls s)), s\<lparr>rx_calls := rx_calls s @ [c]\<rparr>)"

text \<open>\<open>k_sem_take\<close>, for ever or with a time limit, while the callbacks of the script run.\<close>

fun sem_take :: "rx_env \<Rightarrow> bool \<Rightarrow> rx_sem \<Rightarrow> rx_item list \<Rightarrow> iso_rx \<Rightarrow> int rx_res" where
  "sem_take e forever m items s =
     (if rx_given s m then RxDone 0 (s\<lparr>rx_given := (rx_given s)(m := False), rx_script := items\<rparr>)
      else (case items of
              [] \<Rightarrow> RxWaiting (s\<lparr>rx_script := []\<rparr>)
            | TimeOut # items' \<Rightarrow>
                if forever then sem_take e forever m items' s
                else RxDone (- EAGAIN) (s\<lparr>rx_script := items'\<rparr>)
            | Burst evs # items' \<Rightarrow>
                (case run (rx_event_step e) evs s of
                   None \<Rightarrow> RxUndef
                 | Some s' \<Rightarrow> sem_take e forever m items' s')))"

declare sem_take.simps [simp del]

definition take_sem :: "rx_env \<Rightarrow> bool \<Rightarrow> rx_sem \<Rightarrow> iso_rx \<Rightarrow> int rx_res" where
  "take_sem e forever m s = sem_take e forever m (rx_script s) s"

definition start_scan :: "rx_env \<Rightarrow> iso_rx \<Rightarrow> int \<times> iso_rx" where
  "start_scan e s = rx_do e LeScanStart s"

definition stop_scan :: "rx_env \<Rightarrow> iso_rx \<Rightarrow> int \<times> iso_rx" where
  "stop_scan e s = rx_do e LeScanStop s"

definition PA_RETRY_COUNT :: nat where "PA_RETRY_COUNT = 6"
definition ISO_RETRY_COUNT :: nat where "ISO_RETRY_COUNT = 10"

text \<open>The result is the error code and the synchronisation object.\<close>

definition create_pa_sync :: "rx_env \<Rightarrow> iso_rx \<Rightarrow> (int \<times> ptr) rx_res" where
  "create_pa_sync e s =
     (let timeout = of_nat (unat (per_interval_ms s) * PA_RETRY_COUNT div 10);
          (err, s1) = rx_do e (PerAdvSyncCreate (per_addr s) (per_sid s) timeout) s
      in if err \<noteq> 0 then RxDone (err, 0) s1
         else rx_bind (take_sem e False SemPerSync s1) (\<lambda>err s2.
           if err \<noteq> 0
           then (let (err', s3) = rx_do e (PerAdvSyncDelete (new_sync e)) s2 in
                 if err' \<noteq> 0 then RxDone (err', new_sync e) s3 else RxDone (0, new_sync e) s3)
           else RxDone (0, new_sync e) s2))"

text \<open>\<open>bis_bitfield |= BIT(i)\<close> for \<open>i\<close> from 1 to \<open>num_bis\<close>.\<close>

fun bis_bits :: "nat \<Rightarrow> u32" where
  "bis_bits 0 = 0"
| "bis_bits (Suc n) = or (bis_bits n) (push_bit (Suc n) 1)"

definition big_sync_timeout :: "u16 \<Rightarrow> u16" where
  "big_sync_timeout interval = of_nat (max 0x000A (min 0x4000 (unat interval * ISO_RETRY_COUNT div 10)))"

definition create_big_sync :: "rx_env \<Rightarrow> ptr \<Rightarrow> iso_rx \<Rightarrow> (int \<times> ptr) rx_res" where
  "create_big_sync e sync s =
     rx_bind (take_sem e False SemPerBigInfo s) (\<lambda>err s1.
       if err \<noteq> 0 then RxDone (err, 0) s1
       else
         (let (err', s2) = rx_do e (IsoBigSync sync (rx_bis_count s1) (bis_bits (unat (rx_bis_count s1)))
                                      (big_sync_timeout (iso_interval_ms s1))) s1
          in if err' \<noteq> 0 then RxDone (err', 0) s2
             else rx_bind (take_sem e False SemBigSync s2) (\<lambda>err s3.
               if err \<noteq> 0 then RxDone (err, new_big e) s3
               else RxDone (0, new_big e) (s3\<lparr>big_sync_count := big_sync_count s3 + 1\<rparr>))))"

definition cleanup :: "rx_env \<Rightarrow> ptr \<Rightarrow> ptr \<Rightarrow> iso_rx \<Rightarrow> int \<times> iso_rx" where
  "cleanup e sync big s =
     (let (pa_err, s1) = (if \<not> per_adv_lost s \<and> sync \<noteq> 0 then rx_do e (PerAdvSyncDelete sync) s else (0, s));
          (big_err, s2) = (if \<not> big_sync_lost s1 \<and> big \<noteq> 0 then rx_do e (IsoBigTerminate big) s1 else (0, s1))
      in (if pa_err \<noteq> 0 then pa_err else big_err, s2))"

definition reset_sems :: "iso_rx \<Rightarrow> iso_rx" where
  "reset_sems s = s\<lparr>rx_given := (\<lambda>_. False)\<rparr>"

definition new_sync_stats :: "iso_rx \<Rightarrow> iso_rx" where
  "new_sync_stats s = s\<lparr>last_received_counter := 0, stats_current_sync := zero_stats, big_sync_start_time := 0\<rparr>"

definition test_run_receiver :: "rx_env \<Rightarrow> iso_rx \<Rightarrow> int rx_res" where
  "test_run_receiver e s =
     (let s0 = reset_sems (s\<lparr>broadcaster_found := False, per_adv_lost := False, big_sync_lost := False,
                              biginfo_received := False\<rparr>);
          s1 = (if callbacks_registered s0 then s0
                else (snd (rx_do e RxCbRegister s0))\<lparr>callbacks_registered := True\<rparr>);
          (err, s2) = start_scan e s1
      in if err \<noteq> 0 then RxDone err s2
         else rx_bind (take_sem e True SemPerAdv s2) (\<lambda>err s3.
           if err \<noteq> 0 then RxDone err s3
           else
             (let (err, s4) = stop_scan e s3 in
              if err \<noteq> 0 then RxDone err s4
              else rx_bind (create_pa_sync e s4) (\<lambda>(err, sync) s5.
                if err \<noteq> 0 then RxDone err s5
                else rx_bind (create_big_sync e sync (new_sync_stats s5)) (\<lambda>(err, big) s6.
                  if err \<noteq> 0 then RxDone err (snd (cleanup e sync big s6))
                  else rx_bind (take_sem e True SemBigSyncLost s6) (\<lambda>err s7.
                    if err \<noteq> 0 then RxDone err s7
                    else (let (r, s8) = cleanup e sync big s7 in RxDone r s8)))))))"

section \<open>Statistics\<close>

text \<open>
  The reference: what the statistics should be is read off the sequence of packets so far. Starting to
  follow another group (\<open>new_sync_stats\<close>) clears the current statistics only.
\<close>

datatype packet_event = Packet bool | NewSync

fun packet_step :: "packet_event \<Rightarrow> iso_rx \<Rightarrow> iso_rx option" where
  "packet_step (Packet valid) s = iso_recv valid s"
| "packet_step NewSync s = Some (new_sync_stats s)"

definition tally :: "bool list \<Rightarrow> iso_stats" where
  "tally h = \<lparr>iso_recv_count = of_nat (count_list h True), iso_lost_count = of_nat (count_list h False)\<rparr>"

fun packets :: "packet_event list \<Rightarrow> bool list" where
  "packets [] = []"
| "packets (Packet b # es) = b # packets es"
| "packets (NewSync # es) = packets es"

fun since_sync :: "packet_event list \<Rightarrow> bool list \<Rightarrow> bool list" where
  "since_sync [] cur = cur"
| "since_sync (Packet b # es) cur = since_sync es (cur @ [b])"
| "since_sync (NewSync # es) cur = since_sync es []"

definition report_of :: "packet_event list \<Rightarrow> iso_report" where
  "report_of es = \<lparr>rep_overall = tally (packets es), rep_current = tally (since_sync es []),
                   rep_latest = tally (last_n 1000 (packets es))\<rparr>"

definition is_packet :: "packet_event \<Rightarrow> bool" where
  "is_packet ev \<longleftrightarrow> ev \<noteq> NewSync"

definition report_at :: "packet_event list \<Rightarrow> nat \<Rightarrow> iso_report list" where
  "report_at es k = (let es' = take (Suc k) es in
     if is_packet (es ! k) \<and> 100 dvd length (packets es') then [report_of es'] else [])"

definition reports_spec :: "packet_event list \<Rightarrow> iso_report list" where
  "reports_spec es = concat (map (report_at es) [0..<length es])"

lemma packets_snoc: "packets (es @ [ev]) = packets es @ (case ev of Packet b \<Rightarrow> [b] | NewSync \<Rightarrow> [])"
  by (induction es rule: packets.induct) (auto split: packet_event.splits)

lemma since_sync_snoc:
  "since_sync (es @ [ev]) cur = (case ev of Packet b \<Rightarrow> since_sync es cur @ [b] | NewSync \<Rightarrow> [])"
  by (induction es cur rule: since_sync.induct) (auto split: packet_event.splits)

lemma tally_snoc: "tally (h @ [b]) = count_packet b (tally h)"
  by (simp add: tally_def count_packet_def)

lemma tally_nil: "tally [] = zero_stats"
  by (simp add: tally_def zero_stats_def)

lemma tally_total: "iso_recv_count (tally h) + iso_lost_count (tally h) = of_nat (length h)"
proof (induction h rule: rev_induct)
  case (snoc b h)
  then show ?case by (auto simp: tally_snoc count_packet_def algebra_simps)
qed (simp add: tally_def)

lemma tally_mset: "mset xs = mset ys \<Longrightarrow> tally xs = tally ys"
  by (simp add: tally_def count_mset [symmetric])

lemma reports_spec_snoc:
  "reports_spec (es @ [ev]) = reports_spec es @
     (if is_packet ev \<and> 100 dvd length (packets (es @ [ev])) then [report_of (es @ [ev])] else [])"
proof -
  have "map (report_at (es @ [ev])) [0..<length es] = map (report_at es) [0..<length es]"
    by (rule map_cong) (simp_all add: report_at_def nth_append)
  then have "concat (map (report_at (es @ [ev])) [0..<length es]) = reports_spec es"
    unfolding reports_spec_def by (rule arg_cong)
  then show ?thesis
    by (subst reports_spec_def) (simp add: report_at_def [of "es @ [ev]" "length es"] Let_def)
qed

text \<open>The ring buffer holds the last 1000 packets, the oldest at the position written next.\<close>

definition ring_ok :: "bool list \<Rightarrow> bool list \<Rightarrow> nat \<Rightarrow> bool" where
  "ring_ok h arr pos \<longleftrightarrow> length arr = 1000 \<and> pos < 1000 \<and>
     (if length h < 1000 then pos = length h \<and> take pos arr = h
      else drop pos arr @ take pos arr = last_n 1000 h)"

lemma ring_ok_step:
  assumes "ring_ok h arr pos"
  shows "ring_ok (h @ [b]) (arr[pos := b]) (if pos + 1 = 1000 then 0 else pos + 1)"
proof -
  have len: "length arr = 1000" "pos < 1000" using assms by (auto simp: ring_ok_def)
  have tk: "take (pos + 1) (arr[pos := b]) = take pos arr @ [b]"
    using len by (simp add: take_Suc_conv_app_nth)
  have dr: "drop (pos + 1) (arr[pos := b]) = drop (pos + 1) arr" by simp
  consider "length h < 999" | "length h = 999" | "1000 \<le> length h" by linarith
  then show ?thesis
  proof cases
    case 1
    moreover have "pos = length h" "take pos arr = h" using 1 assms by (auto simp: ring_ok_def)
    ultimately show ?thesis using tk len by (auto simp: ring_ok_def)
  next
    case 2
    then have "pos = 999" "take pos arr = h" using assms by (auto simp: ring_ok_def)
    moreover have "take 1000 (arr[pos := b]) = arr[pos := b]" using len by simp
    ultimately have "arr[pos := b] = h @ [b]" using tk by simp
    then show ?thesis using 2 len \<open>pos = 999\<close> by (simp add: ring_ok_def)
  next
    case 3
    then have w: "drop pos arr @ take pos arr = last_n 1000 h" using assms by (simp add: ring_ok_def)
    have "drop pos arr = arr ! pos # drop (pos + 1) arr" using len by (simp add: Cons_nth_drop_Suc)
    with w have "tl (last_n 1000 h) = drop (pos + 1) arr @ take pos arr" by (metis append_Cons list.sel(3))
    moreover have "last_n 1000 (h @ [b]) = tl (last_n 1000 h) @ [b]"
    proof -
      have "length h - 999 = Suc (length h - 1000)" using 3 by simp
      then show ?thesis using 3 by (simp add: last_n_def drop_Suc tl_drop)
    qed
    ultimately have "last_n 1000 (h @ [b]) = drop (pos + 1) (arr[pos := b]) @ take (pos + 1) (arr[pos := b])"
      using tk dr by simp
    then show ?thesis using 3 len by (auto simp: ring_ok_def)
  qed
qed

lemma latest_loop_counts:
  "unat i + length arr < 2 ^ 32 \<Longrightarrow> unat i \<le> unat t \<Longrightarrow>
    latest_loop arr i t (tally h) = tally (h @ take (unat t - unat i) arr)"
proof (induction arr arbitrary: i h)
  case (Cons b bs)
  show ?case
  proof (cases "i = t")
    case False
    then have lt: "unat i < unat t" using Cons.prems(2) by (metis le_neq_implies_less unsigned_word_eqI)
    have s: "unat (i + 1) = unat i + 1" using Cons.prems(1) by (subst unat_plus_nowrap) simp_all
    have "unat t - unat i = Suc (unat t - unat (i + 1))" using lt s by simp
    with Cons.IH [of "i + 1" "h @ [b]"] Cons.prems lt s False show ?thesis by (simp add: tally_snoc)
  qed simp
qed simp

lemma ring_latest:
  assumes "ring_ok h arr pos" "length h < 2 ^ 32"
  shows "latest_loop arr 0 (of_nat (length h)) zero_stats = tally (last_n 1000 h)"
proof -
  have len: "length arr = 1000" using assms(1) by (simp add: ring_ok_def)
  have "latest_loop arr 0 (of_nat (length h)) zero_stats = tally (take (length h) arr)"
    using latest_loop_counts [of 0 arr "of_nat (length h)" "[]"] len assms(2) by (simp add: tally_nil unat_of_nat_u32)
  also have "\<dots> = tally (last_n 1000 h)"
  proof (cases "length h < 1000")
    case True
    then have "take (length h) arr = h" using assms(1) by (auto simp: ring_ok_def)
    then show ?thesis using True by simp
  next
    case False
    then have "mset (last_n 1000 h) = mset (drop pos arr) + mset (take pos arr)"
      using assms(1) by (simp add: ring_ok_def flip: mset_append)
    also have "\<dots> = mset arr" by (metis append_take_drop_id mset_append union_commute)
    finally show ?thesis using False len by (intro tally_mset) simp
  qed
  finally show ?thesis .
qed

lemma packet_run:
  assumes "length (packets es) < 2 ^ 32"
  shows "\<exists>s. run packet_step es iso_rx_init = Some s
     \<and> stats_overall s = tally (packets es) \<and> stats_current_sync s = tally (since_sync es [])
     \<and> ring_ok (packets es) (stats_latest_arr s) (stats_latest_arr_pos s) \<and> rx_reports s = reports_spec es"
  using assms
proof (induction es rule: rev_induct)
  case Nil
  then show ?case by (simp add: iso_rx_init_def tally_nil ring_ok_def reports_spec_def)
next
  case (snoc ev es)
  have "length (packets es) < 2 ^ 32" using snoc.prems by (auto simp: packets_snoc split: packet_event.splits)
  with snoc.IH obtain s where s: "run packet_step es iso_rx_init = Some s"
    "stats_overall s = tally (packets es)" "stats_current_sync s = tally (since_sync es [])"
    "ring_ok (packets es) (stats_latest_arr s) (stats_latest_arr_pos s)" "rx_reports s = reports_spec es" by blast
  show ?case
  proof (cases ev)
    case NewSync
    then show ?thesis using s
      by (simp add: run_append new_sync_stats_def packets_snoc since_sync_snoc tally_nil
          reports_spec_snoc is_packet_def)
  next
    case (Packet b)
    let ?h = "packets es @ [b]"
    let ?arr = "(stats_latest_arr s)[stats_latest_arr_pos s := b]"
    have n: "length ?h < 2 ^ 32" using snoc.prems by (simp add: packets_snoc Packet)
    have r: "ring_ok ?h ?arr (if stats_latest_arr_pos s + 1 = 1000 then 0 else stats_latest_arr_pos s + 1)"
      by (rule ring_ok_step [OF s(4)])
    have t: "count_packet b (stats_overall s) = tally ?h" "count_packet b (stats_current_sync s) = tally (since_sync es [] @ [b])"
      using s by (simp_all add: tally_snoc)
    have "(of_nat (length ?h) :: u32) mod 100 = 0 \<longleftrightarrow> 100 dvd length ?h"
    proof -
      have "unat ((of_nat (length ?h) :: u32) mod 100) = length ?h mod 100"
        using n unat_of_nat_u32 [OF n] by (simp add: unat_mod_distrib)
      then show ?thesis by (metis unat_eq_0 dvd_eq_mod_eq_0)
    qed
    moreover have "\<not> length (stats_latest_arr s) \<le> stats_latest_arr_pos s" using s(4) by (auto simp: ring_ok_def)
    ultimately show ?thesis using s(1,5) r t ring_latest [OF r n]
      by (simp split: if_splits add: run_append Packet iso_recv_def Let_def tally_total packets_snoc since_sync_snoc
          reports_spec_snoc is_packet_def report_of_def)
  qed
qed

text \<open>
  C14: From start-up, for any sequence of fewer than 2^32 received and lost packets and new synchronisations, the code's
  counters and ring buffer agree with the reference that reads the whole history: a report is printed exactly at every
  hundredth packet, and gives the counts of all packets, of those since the last synchronisation, and of the last 1000.
\<close>

theorem receiver_stats_equivalent:
  assumes "length (packets es) < 2 ^ 32"
  shows "\<exists>s. run packet_step es iso_rx_init = Some s \<and> rx_reports s = reports_spec es
     \<and> stats_overall s = tally (packets es) \<and> stats_current_sync s = tally (since_sync es [])"
  using packet_run [OF assms] by blast

lemma packets_replicate: "packets (replicate n (Packet b)) = replicate n b"
  by (induction n) simp_all

theorem receiver_stats_equivalent_witness:
  "\<exists>s. run packet_step (replicate 1100 (Packet True) @ replicate 1000 (Packet False)) iso_rx_init = Some s
     \<and> stats_overall s = \<lparr>iso_recv_count = 1100, iso_lost_count = 1000\<rparr>"
proof -
  let ?es = "replicate 1100 (Packet True) @ replicate 1000 (Packet False)"
  have ap: "packets (xs @ ys) = packets xs @ packets ys" for xs ys
    by (induction xs rule: packets.induct) simp_all
  have p: "packets ?es = replicate 1100 True @ replicate 1000 False" by (simp add: ap packets_replicate)
  then have "length (packets ?es) < 2 ^ 32" by simp
  from receiver_stats_equivalent [OF this] obtain s where
    "run packet_step ?es iso_rx_init = Some s" "stats_overall s = tally (replicate 1100 True @ replicate 1000 False)"
    unfolding p by blast
  moreover have "tally (replicate 1100 True @ replicate 1000 False) = \<lparr>iso_recv_count = 1100, iso_lost_count = 1000\<rparr>"
  proof -
    have c: "count_list (replicate n a) b = (if a = b then n else 0)" for n and a b :: bool by (induction n) auto
    show ?thesis by (simp add: tally_def c)
  qed
  ultimately show ?thesis by (intro exI [of _ s]) simp
qed


section \<open>The average duration\<close>

text \<open>One synchronisation on a device with one channel: connected, counted, lost after \<open>d\<close> milliseconds.\<close>

definition sync_round :: "int \<times> nat \<Rightarrow> iso_rx \<Rightarrow> iso_rx option" where
  "sync_round td s =
     (let s1 = iso_connected (fst td) s in
      iso_disconnected (fst td + int (snd td)) (s1\<lparr>big_sync_count := big_sync_count s1 + 1\<rparr>))"

lemma uint_of_nat_u32: "k < 2 ^ 32 \<Longrightarrow> uint (of_nat k :: u32) = int k"
  by (simp add: unsigned_of_nat take_bit_nat_eq_self)

lemma sync_round_step:
  assumes "big_sync_count s = of_nat k" "k + 1 < 2 ^ 32" "0 \<le> average_duration s"
    and "int k * average_duration s + int d < 2 ^ 63"
  shows "\<exists>s'. sync_round (t, d) s = Some s' \<and> big_sync_count s' = of_nat (k + 1)
     \<and> average_duration s' = (int k * average_duration s + int d) div (int k + 1)"
proof -
  define a where "a = average_duration s"
  define c :: u32 where "c = of_nat (k + 1)"
  have uc: "uint c = int k + 1" "uint (c - 1) = int k" "c \<noteq> 0"
    using uint_of_nat_u32 [of "k + 1"] uint_of_nat_u32 [of k] assms(2) by (auto simp: c_def)
  have p: "0 \<le> int k * a" "int k * a < 2 ^ 63" "int k * a + int d < 2 ^ 63" "0 \<le> int k * a + int d"
    using assms(3,4) by (simp_all add: a_def)
  have m: "(int d + int k * a) mod 2 ^ 64 = int k * a + int d"
    using p by (simp add: add.commute)
  have q: "(int k * a + int d) div (int k + 1) < 2 ^ 63"
  proof -
    have "(int k * a + int d) div (int k + 1) \<le> int k * a + int d"
      using zdiv_mono2 [of "int k * a + int d" 1 "int k + 1"] p(4) by simp
    then show ?thesis using p(3) by linarith
  qed
  have c: "big_sync_count s + 1 = c" using assms(1) by (simp add: c_def)
  have u: "uint (big_sync_count s) = int k" using uint_of_nat_u32 [of k] assms(1,2) by simp
  have "t + int d - t = int d" "c = 1 + of_nat k" by (simp_all add: c_def)
  then show ?thesis using uc p(1,2) m q u
    by (simp add: sync_round_def iso_connected_def iso_disconnected_def give_def Let_def c flip: a_def c_def)
qed

text \<open>What the code's running average of \<open>n\<close> durations says of their sum.\<close>

definition mean_bounds :: "int \<Rightarrow> int \<Rightarrow> int \<Rightarrow> bool" where
  "mean_bounds n avg tot \<longleftrightarrow> n * avg \<le> tot \<and> 2 * tot \<le> 2 * n * avg + n * (n - 1)"

lemma mean_bounds_step:
  assumes "mean_bounds n a tot" "0 \<le> n"
  shows "mean_bounds (n + 1) ((n * a + d) div (n + 1)) (tot + d)"
proof -
  define b where "b = (n * a + d) div (n + 1)"
  have e: "n * a + d = (n + 1) * b + (n * a + d) mod (n + 1)" unfolding b_def by (metis mult_div_mod_eq)
  have "0 \<le> (n * a + d) mod (n + 1)" "(n * a + d) mod (n + 1) < n + 1"
    using assms(2) pos_mod_bound [of "n + 1"] by simp_all
  then have lo: "(n + 1) * b \<le> n * a + d" and hi: "n * a + d \<le> (n + 1) * b + n" using e by linarith+
  have "(n + 1) * b \<le> tot + d" using lo assms(1) by (simp add: mean_bounds_def)
  moreover have "2 * (tot + d) \<le> 2 * (n + 1) * b + (n + 1) * (n + 1 - 1)"
  proof -
    have "2 * (tot + d) \<le> 2 * (n * a + d) + n * (n - 1)" using assms(1) by (simp add: mean_bounds_def)
    also have "\<dots> \<le> 2 * ((n + 1) * b + n) + n * (n - 1)" using hi by simp
    also have "\<dots> = 2 * (n + 1) * b + (n + 1) * (n + 1 - 1)" by (simp add: algebra_simps)
    finally show ?thesis .
  qed
  ultimately show ?thesis by (simp add: mean_bounds_def b_def)
qed

lemma average_run:
  assumes "big_sync_count s = of_nat k" "k + length ds < 2 ^ 32" "0 \<le> average_duration s"
    and "mean_bounds (int k) (average_duration s) tot" "tot + int (sum_list (map snd ds)) < 2 ^ 63"
  shows "\<exists>s'. run sync_round ds s = Some s'
     \<and> mean_bounds (int (k + length ds)) (average_duration s') (tot + int (sum_list (map snd ds)))"
  using assms
proof (induction ds arbitrary: s k tot)
  case (Cons td ds)
  obtain t d where td: "td = (t, d)" by fastforce
  have le: "int k * average_duration s \<le> tot" using Cons.prems(4) by (simp add: mean_bounds_def)
  have "int k * average_duration s + int d < 2 ^ 63" using Cons.prems(5) le td by simp
  with sync_round_step [of s k d t] Cons.prems obtain s1 where
    s1: "sync_round (t, d) s = Some s1" "big_sync_count s1 = of_nat (k + 1)"
    "average_duration s1 = (int k * average_duration s + int d) div (int k + 1)" by auto
  have "mean_bounds (int (k + 1)) (average_duration s1) (tot + int d)"
    using mean_bounds_step [OF Cons.prems(4), of "int d"] s1(3) by (simp add: add.commute)
  moreover have "0 \<le> average_duration s1"
    unfolding s1(3) using Cons.prems(3) by (simp add: pos_imp_zdiv_nonneg_iff)
  moreover have "k + 1 + length ds < 2 ^ 32" "tot + int d + int (sum_list (map snd ds)) < 2 ^ 63"
    using Cons.prems(2,5) td by simp_all
  ultimately show ?case using Cons.IH [of s1 "k + 1" "tot + int d"] s1 td by (simp add: add.assoc)
qed simp

text \<open>
  After n synchronisations from start-up, the printed average never exceeds the true mean of the durations and is
  below it by at most (n - 1) / 2 milliseconds, the sum of what the integer divisions dropped. A loss reported before any
  synchronisation was counted divides by zero.
\<close>

theorem average_duration_bounds:
  assumes "length ds < 2 ^ 32" "sum_list (map snd ds) < 2 ^ 63"
  shows "\<exists>s'. run sync_round ds iso_rx_init = Some s'
     \<and> int (length ds) * average_duration s' \<le> int (sum_list (map snd ds))
     \<and> 2 * int (sum_list (map snd ds)) \<le> 2 * int (length ds) * average_duration s' + int (length ds) * (int (length ds) - 1)
     \<and> iso_disconnected now iso_rx_init = None"
proof -
  have "0 + int (sum_list (map snd ds)) < 2 ^ 63"
    using assms(2) by (metis add_0 of_nat_less_iff of_nat_numeral of_nat_power)
  then obtain s' where "run sync_round ds iso_rx_init = Some s'"
    "mean_bounds (int (length ds)) (average_duration s') (int (sum_list (map snd ds)))"
    using average_run [of iso_rx_init 0 ds 0] assms(1) by (auto simp: iso_rx_init_def mean_bounds_def)
  moreover have "iso_disconnected now iso_rx_init = None" by (simp add: iso_disconnected_def iso_rx_init_def Let_def)
  ultimately show ?thesis by (auto simp: mean_bounds_def)
qed

theorem average_duration_bounds_witness:
  "\<exists>s'. run sync_round [(0, 10), (20, 11), (40, 11)] iso_rx_init = Some s'
     \<and> 3 * average_duration s' \<le> 32 \<and> 64 \<le> 6 * average_duration s' + 6"
proof -
  have "length [(0 :: int, 10 :: nat), (20, 11), (40, 11)] < 2 ^ 32"
    "sum_list (map snd [(0 :: int, 10 :: nat), (20, 11), (40, 11)]) < 2 ^ 63" by simp_all
  from average_duration_bounds [OF this] show ?thesis by auto
qed

section \<open>Choosing the broadcaster\<close>

definition is_name :: "adv_element \<Rightarrow> bool" where
  "is_name d \<longleftrightarrow> fst d = BT_DATA_NAME_SHORTENED \<or> fst d = BT_DATA_NAME_COMPLETE"

definition adv_name :: "adv_element list \<Rightarrow> u8 list" where
  "adv_name adv = (case filter is_name adv of [] \<Rightarrow> [] | d # _ \<Rightarrow> snd d)"

lemma parsed_name:
  "in_order (name_data_cb e) adv buf =
     (case filter is_name adv of [] \<Rightarrow> buf
      | d # _ \<Rightarrow> (let len = min (length (snd d)) (length (device_name e)) in take len (snd d) @ [0] @ drop (len + 1) buf))"
  by (induction adv arbitrary: buf) (auto simp: name_data_cb_def is_name_def Let_def)

lemma name_matches_iff:
  assumes "parse_ok (rx_parse e)" "0 \<notin> set (device_name e)" "device_name e \<noteq> []"
  shows "name_matches e adv \<longleftrightarrow> take (length (device_name e)) (adv_name adv) = device_name e"
proof -
  let ?n = "length (device_name e)"
  have "strn_eq ?n (device_name e) (rx_parse e (name_data_cb e) adv (replicate (?n + 1) 0))
      \<longleftrightarrow> take ?n (adv_name adv) = device_name e"
  proof (cases "filter is_name adv")
    case Nil
    have "take ?n (replicate (?n + 1) (0 :: u8)) \<noteq> device_name e"
      using assms(2,3) by (metis in_set_replicate length_greater_0_conv nth_mem nth_take nth_replicate less_Suc_eq Suc_eq_plus1)
    then show ?thesis using Nil assms(1,2,3)
      by (simp add: strn_eq_prefix parse_ok_def parsed_name adv_name_def)
  next
    case (Cons d ds)
    let ?len = "min (length (snd d)) ?n"
    have "take ?n (take ?len (snd d) @ [0] @ drop (?len + 1) (replicate (?n + 1) 0)) = device_name e
       \<longleftrightarrow> take ?n (snd d) = device_name e"
    proof (cases "?n \<le> length (snd d)")
      case False
      then have "(take ?n (take ?len (snd d) @ [0] @ drop (?len + 1) (replicate (?n + 1) 0))) ! length (snd d) = 0"
        by (simp add: nth_append)
      moreover have "device_name e ! length (snd d) \<noteq> 0" using False assms(2) by (metis not_le nth_mem)
      moreover have "take ?n (snd d) \<noteq> device_name e" using False by (metis length_take min.absorb1 nat_le_linear not_le order_less_irrefl)
      ultimately show ?thesis by metis
    qed simp
    then show ?thesis using Cons assms(1,2)
      by (simp add: strn_eq_prefix parse_ok_def parsed_name adv_name_def Let_def)
  qed
  then show ?thesis by (simp add: name_matches_def)
qed

text \<open>
  While no broadcaster is found, the receiver takes an advertiser exactly when the first name in its advertising data
  begins with the device's own name, and remembers that advertiser's address and set; otherwise it does not change, and
  once it has found one no report changes anything.
\<close>

theorem broadcaster_chosen_by_prefix:
  fixes s :: iso_rx
  assumes "parse_ok (rx_parse e)" "0 \<notin> set (device_name e)" "device_name e \<noteq> []"
    and "s' = scan_recv e addr sid interval adv s"
  shows "(broadcaster_found s \<longrightarrow> s' = s)
     \<and> (\<not> broadcaster_found s \<longrightarrow>
          (if take (length (device_name e)) (adv_name adv) = device_name e
           then broadcaster_found s' \<and> per_addr s' = addr \<and> per_sid s' = sid \<and> rx_given s' SemPerAdv
           else s' = s))"
  using name_matches_iff [OF assms(1-3), of adv] by (simp add: assms(4) scan_recv_def give_def)


definition demo_rx_env :: rx_env where
  "demo_rx_env = \<lparr>device_name = [73, 83, 79], rx_max_chan = 1, rx_parse = in_order, rx_ret = (\<lambda>_. 0),
     new_sync = 1, new_big = 2\<rparr>"

theorem broadcaster_chosen_by_prefix_witness:
  "per_addr (scan_recv demo_rx_env 7 0 100 [(1, [6]), (9, [73, 83, 79, 50])] iso_rx_init) = 7
     \<and> scan_recv demo_rx_env 7 0 100 [(9, [73, 83])] iso_rx_init = iso_rx_init"
proof -
  have "parse_ok (rx_parse demo_rx_env)" "0 \<notin> set (device_name demo_rx_env)" "device_name demo_rx_env \<noteq> []"
    by (simp_all add: demo_rx_env_def parse_ok_def)
  note t = broadcaster_chosen_by_prefix [OF this refl, where s = iso_rx_init]
  have "\<not> broadcaster_found iso_rx_init" "adv_name [(1, [6]), (9, [73, 83, 79, 50])] = [73, 83, 79, 50]"
    "adv_name [(9, [73, 83])] = [73, 83]" "device_name demo_rx_env = [73, 83, 79]"
    by (simp_all add: iso_rx_init_def adv_name_def is_name_def BT_DATA_NAME_SHORTENED_def BT_DATA_NAME_COMPLETE_def demo_rx_env_def)
  then show ?thesis using t [of 7 0 100 "[(1, [6]), (9, [73, 83, 79, 50])]"] t [of 7 0 100 "[(9, [73, 83])]"] by simp
qed


section \<open>Runs of the test\<close>

text \<open>
  Once the advertiser is found and the stack accepts every call, a time-out of the periodic synchronisation deletes
  the object and still reports success: the test goes on to wait for the group with the deleted object, and when that
  times out too it deletes the object a second time.
\<close>

theorem timed_out_sync_deleted_twice:
  assumes "name_matches e adv" "rx_ret e = (\<lambda>_. 0)" "new_sync e \<noteq> 0" "callbacks_registered s"
    and "rx_script s = [Burst [ScanRecv addr sid interval adv], TimeOut, TimeOut]"
  shows "\<exists>s' t. test_run_receiver e s = RxDone (- EAGAIN) s'
     \<and> rx_calls s' = rx_calls s @ [LeScanStart, LeScanStop, PerAdvSyncCreate addr sid t,
                                    PerAdvSyncDelete (new_sync e), PerAdvSyncDelete (new_sync e)]"
  using assms
  by (simp add: test_run_receiver_def reset_sems_def start_scan_def stop_scan_def rx_do_def take_sem_def sem_take.simps
      scan_recv_def give_def create_pa_sync_def create_big_sync_def new_sync_stats_def cleanup_def EAGAIN_def Let_def)

text \<open>The script of a group that is found, followed and lost, the loss in the same burst or later.\<close>

definition sync_script :: "adv_addr \<Rightarrow> u8 \<Rightarrow> u16 \<Rightarrow> adv_element list \<Rightarrow> u16 \<Rightarrow> u8 \<Rightarrow> rx_item list \<Rightarrow> rx_item list" where
  "sync_script addr sid interval adv iso_interval num_bis rest =
     [Burst [ScanRecv addr sid interval adv], Burst [PerSynced], Burst [BigInfo iso_interval num_bis]] @ rest"

text \<open>
  On the first group the receiver follows, when the test runs between the channel's connection and its loss, the test
  ends and the average is the time between them; when the loss comes before the test runs again, the count of
  synchronisations is still 0 and the average divides by zero.
\<close>

theorem early_loss_divides_by_zero:
  assumes "name_matches e adv" "rx_ret e = (\<lambda>_. 0)" "callbacks_registered s" "big_sync_count s = 0"
    and "0 \<le> d" "d < 2 ^ 63"
  shows "(\<exists>s'. test_run_receiver e (s\<lparr>rx_script := sync_script addr sid interval adv i n
            [Burst [IsoConnected t], Burst [IsoDisconnected (t + d)]]\<rparr>) = RxDone 0 s'
          \<and> average_duration s' = d \<and> big_sync_count s' = 1)
     \<and> test_run_receiver e (s\<lparr>rx_script := sync_script addr sid interval adv i n
            [Burst [IsoConnected t, IsoDisconnected (t + d)]]\<rparr>) = RxUndef"
  using assms
  by (simp add: sync_script_def test_run_receiver_def reset_sems_def start_scan_def stop_scan_def rx_do_def
      take_sem_def sem_take.simps scan_recv_def sync_cb_def biginfo_cb_def iso_connected_def iso_disconnected_def give_def
      create_pa_sync_def create_big_sync_def new_sync_stats_def cleanup_def Let_def)

lemma bit_bis_bits: "n \<le> 31 \<Longrightarrow> bit (bis_bits n) k \<longleftrightarrow> 1 \<le> k \<and> k \<le> n"
  by (induction n) (auto simp: bit_simps)

text \<open>
  The receiver asks for exactly the channels 1 to n of the group; the time-out it asks for is always one the
  specification allows (10 to 16384, in units of 10 ms); intervals are converted to milliseconds exactly as long as the
  result fits its 16 bits, that is up to 52428 units.
\<close>

theorem big_sync_request:
  assumes "n \<le> 31"
  shows "(\<forall>k. bit (bis_bits n) k \<longleftrightarrow> 1 \<le> k \<and> k \<le> n)
     \<and> 10 \<le> unat (big_sync_timeout i) \<and> unat (big_sync_timeout i) \<le> 16384
     \<and> (unat (interval_to_ms j) = unat j * 5 div 4 \<longleftrightarrow> unat j \<le> 52428)"
proof -
  have t: "unat (big_sync_timeout i) = max 10 (min 16384 (unat i * ISO_RETRY_COUNT div 10))"
    unfolding big_sync_timeout_def by (subst unat_of_nat_u16) simp_all
  have u: "unat (interval_to_ms j) = unat j * 5 div 4 mod 65536"
    by (simp add: interval_to_ms_def unsigned_of_nat take_bit_eq_mod)
  have "unat j * 5 div 4 mod 65536 = unat j * 5 div 4 \<longleftrightarrow> unat j * 5 div 4 < 65536" by (metis mod_less mod_less_divisor zero_less_numeral)
  also have "\<dots> \<longleftrightarrow> unat j \<le> 52428" by linarith
  finally show ?thesis using bit_bis_bits [OF assms] t u by auto
qed

lemma demo_matches: "name_matches demo_rx_env [(9, [73, 83, 79])]"
  by (simp add: name_matches_def demo_rx_env_def name_data_cb_def BT_DATA_NAME_SHORTENED_def BT_DATA_NAME_COMPLETE_def
      Let_def numeral_eq_Suc)

definition demo_rx :: iso_rx where
  "demo_rx = iso_rx_init\<lparr>callbacks_registered := True\<rparr>"

theorem timed_out_sync_deleted_twice_witness:
  "\<exists>s' t. test_run_receiver demo_rx_env
       (demo_rx\<lparr>rx_script := [Burst [ScanRecv 7 0 100 [(9, [73, 83, 79])]], TimeOut, TimeOut]\<rparr>) = RxDone (- EAGAIN) s'
     \<and> rx_calls s' = [LeScanStart, LeScanStop, PerAdvSyncCreate 7 0 t, PerAdvSyncDelete 1, PerAdvSyncDelete 1]"
proof -
  have "rx_ret demo_rx_env = (\<lambda>_. 0)" "new_sync demo_rx_env \<noteq> 0" "new_sync demo_rx_env = 1"
    "callbacks_registered (demo_rx\<lparr>rx_script := [Burst [ScanRecv 7 0 100 [(9, [73, 83, 79])]], TimeOut, TimeOut]\<rparr>)"
    by (simp_all add: demo_rx_env_def demo_rx_def)
  with timed_out_sync_deleted_twice [OF demo_matches, of
      "demo_rx\<lparr>rx_script := [Burst [ScanRecv 7 0 100 [(9, [73, 83, 79])]], TimeOut, TimeOut]\<rparr>" 7 0 100]
  show ?thesis by (simp add: demo_rx_def iso_rx_init_def)
qed

theorem early_loss_divides_by_zero_witness:
  "test_run_receiver demo_rx_env (demo_rx\<lparr>rx_script := sync_script 7 0 100 [(9, [73, 83, 79])] 8 1
       [Burst [IsoConnected 50, IsoDisconnected (50 + 25)]]\<rparr>) = RxUndef"
proof -
  have "rx_ret demo_rx_env = (\<lambda>_. 0)" "callbacks_registered demo_rx" "big_sync_count demo_rx = 0"
    "0 \<le> (25 :: int)" "(25 :: int) < 2 ^ 63"
    by (simp_all add: demo_rx_env_def demo_rx_def iso_rx_init_def)
  from early_loss_divides_by_zero [OF demo_matches this] show ?thesis by blast
qed

theorem big_sync_request_witness:
  "bit (bis_bits 2) 1 \<and> \<not> bit (bis_bits 2) 0 \<and> unat (big_sync_timeout 3) \<ge> 10"
proof -
  have "(2 :: nat) \<le> 31" by simp
  from big_sync_request [OF this, of 3 0] show ?thesis by simp
qed

end
