(* ===== verification/IsoBroadcaster.thy ===== *)
theory IsoBroadcaster
  imports Throughput "HOL-Library.Code_Target_Numeral"
begin

text \<open>
  The broadcaster of the isochronous broadcast benchmark
  (\<open>app/ble/iso_broadcast_benchmark_pa_lna/src/broadcaster.c\<close>) and the program around it
  (\<open>src/main.c\<close>): the settings read from the console, the isochronous group and its advertising, the
  timer that sends, and the choice of the role.

  The console is the list of characters to come. Zephyr's limits and the Kconfig values are a record.
  A call of the stack is an element of the trace, and its result the environment's answer for its
  position.
\<close>

section \<open>Settings\<close>

record iso_limits =
  rtn_max :: nat
  iso_interval_min :: nat
  iso_interval_max :: nat
  iso_latency_min :: nat
  iso_latency_max :: nat
  iso_max_sdu :: nat
  group_iso_count :: nat
  iso_tx_mtu :: nat
  iso_max_chan :: nat

record bc_params =
  bc_rtn :: u8
  bc_phy :: u8
  bc_sdu :: u16
  bc_interval :: u32
  bc_latency :: u16
  bc_packing :: u8
  bc_framing :: u8
  bc_num_bis :: u8

definition DEFAULT_BIS_RTN :: nat where "DEFAULT_BIS_RTN = 2"
definition DEFAULT_BIS_INTERVAL_US :: nat where "DEFAULT_BIS_INTERVAL_US = 10000"
definition DEFAULT_BIS_LATENCY_MS :: nat where "DEFAULT_BIS_LATENCY_MS = 10"
definition DEFAULT_BIS_PHY :: nat where "DEFAULT_BIS_PHY = unat BT_GAP_LE_PHY_1M"
definition DEFAULT_BIS_PACKING :: nat where "DEFAULT_BIS_PACKING = 0"
definition DEFAULT_BIS_FRAMING :: nat where "DEFAULT_BIS_FRAMING = 0"

text \<open>\<open>DEFAULT_BIS_SDU\<close> and \<open>DEFAULT_BIS_COUNT\<close> are the Kconfig values.\<close>

definition default_params :: "iso_limits \<Rightarrow> bc_params" where
  "default_params lim = \<lparr>bc_rtn = of_nat DEFAULT_BIS_RTN, bc_phy = of_nat DEFAULT_BIS_PHY,
     bc_sdu = of_nat (iso_tx_mtu lim), bc_interval = of_nat DEFAULT_BIS_INTERVAL_US,
     bc_latency = of_nat DEFAULT_BIS_LATENCY_MS, bc_packing = of_nat DEFAULT_BIS_PACKING,
     bc_framing = of_nat DEFAULT_BIS_FRAMING, bc_num_bis = of_nat (iso_max_chan lim)\<rparr>"

text \<open>C's \<open>tolower\<close> and \<open>strtoul\<close> with base 0: prefixes 0x and 0, a sign, saturation at 32 bits.\<close>

definition to_lower :: "char \<Rightarrow> char" where
  "to_lower c = (let n = (of_char c :: nat) in if 65 \<le> n \<and> n \<le> 90 then char_of (n + 32) else c)"

definition digit_of :: "nat \<Rightarrow> char \<Rightarrow> nat option" where
  "digit_of b c =
     (let n = (of_char c :: nat);
          d = (if 48 \<le> n \<and> n \<le> 57 then Some (n - 48)
               else if 97 \<le> n \<and> n \<le> 122 then Some (n - 87)
               else if 65 \<le> n \<and> n \<le> 90 then Some (n - 55) else None)
      in case d of None \<Rightarrow> None | Some v \<Rightarrow> if v < b then Some v else None)"

fun read_digits :: "nat \<Rightarrow> nat \<Rightarrow> string \<Rightarrow> nat" where
  "read_digits b acc [] = acc"
| "read_digits b acc (c # cs) = (case digit_of b c of None \<Rightarrow> acc | Some d \<Rightarrow> read_digits b (acc * b + d) cs)"

definition read_number :: "string \<Rightarrow> nat" where
  "read_number t =
     (case t of
        CHR ''0'' # CHR ''x'' # cs \<Rightarrow> read_digits 16 0 cs
      | CHR ''0'' # CHR ''X'' # cs \<Rightarrow> read_digits 16 0 cs
      | CHR ''0'' # cs \<Rightarrow> read_digits 8 0 cs
      | _ \<Rightarrow> read_digits 10 0 t)"

definition strtoul0 :: "string \<Rightarrow> nat" where
  "strtoul0 str =
     (let t = dropWhile is_space str;
          neg = (case t of CHR ''-'' # _ \<Rightarrow> True | _ \<Rightarrow> False);
          u = (case t of CHR ''-'' # cs \<Rightarrow> cs | CHR ''+'' # cs \<Rightarrow> cs | _ \<Rightarrow> t);
          v = read_number u
      in if 2 ^ 32 \<le> v then 2 ^ 32 - 1 else if neg then (2 ^ 32 - v) mod 2 ^ 32 else v)"

text \<open>
  \<open>get_chars\<close> reads until a line end or until the buffer is full: the characters stored and the rest of
  the console. It waits when the console is empty (\<open>None\<close>).
\<close>

definition is_eol :: "char \<Rightarrow> bool" where
  "is_eol c \<longleftrightarrow> (of_char c :: nat) = 10 \<or> (of_char c :: nat) = 13"

fun get_chars :: "nat \<Rightarrow> string \<Rightarrow> (string \<times> string) option" where
  "get_chars max_size [] = (if max_size = 0 then Some ([], []) else None)"
| "get_chars max_size (ch # console) =
     (if max_size = 0 then Some ([], ch # console)
      else
        (let c = to_lower ch in
         if is_eol c then Some ([], console)
         else map_option (\<lambda>(buf, rest). (c # buf, rest)) (get_chars (max_size - 1) console)))"

text \<open>One prompt: the default for an empty line, \<open>-EINVAL\<close> for a value that does not pass the check.\<close>

definition read_arg :: "nat \<Rightarrow> nat \<Rightarrow> (nat \<Rightarrow> bool) \<Rightarrow> string \<Rightarrow> (int \<times> string) option" where
  "read_arg max_size dflt invalid console =
     (case get_chars max_size console of
        None \<Rightarrow> None
      | Some (buf, rest) \<Rightarrow>
          Some (if buf = [] then int dflt
                else if invalid (strtoul0 buf) then - EINVAL else int (strtoul0 buf), rest))"

definition parse_rtn_arg :: "iso_limits \<Rightarrow> string \<Rightarrow> (int \<times> string) option" where
  "parse_rtn_arg lim = read_arg 3 DEFAULT_BIS_RTN (\<lambda>rtn. rtn_max lim < rtn)"

definition parse_interval_arg :: "iso_limits \<Rightarrow> string \<Rightarrow> (int \<times> string) option" where
  "parse_interval_arg lim = read_arg 8 DEFAULT_BIS_INTERVAL_US (\<lambda>i. i < iso_interval_min lim \<or> iso_interval_max lim < i)"

definition parse_latency_arg :: "iso_limits \<Rightarrow> string \<Rightarrow> (int \<times> string) option" where
  "parse_latency_arg lim = read_arg 5 DEFAULT_BIS_LATENCY_MS (\<lambda>l. l < iso_latency_min lim \<or> iso_latency_max lim < l)"

definition parse_phy_arg :: "iso_limits \<Rightarrow> string \<Rightarrow> (int \<times> string) option" where
  "parse_phy_arg lim = read_arg 2 DEFAULT_BIS_PHY
     (\<lambda>phy. phy \<noteq> unat BT_GAP_LE_PHY_1M \<and> phy \<noteq> unat BT_GAP_LE_PHY_2M \<and> phy \<noteq> unat BT_GAP_LE_PHY_CODED)"

definition parse_sdu_arg :: "iso_limits \<Rightarrow> string \<Rightarrow> (int \<times> string) option" where
  "parse_sdu_arg lim = read_arg 5 (iso_tx_mtu lim) (\<lambda>sdu. min (iso_max_sdu lim) (iso_tx_mtu lim) < sdu)"

definition parse_packing_arg :: "iso_limits \<Rightarrow> string \<Rightarrow> (int \<times> string) option" where
  "parse_packing_arg lim = read_arg 2 DEFAULT_BIS_PACKING (\<lambda>p. p \<noteq> 0 \<and> p \<noteq> 1)"

definition parse_framing_arg :: "iso_limits \<Rightarrow> string \<Rightarrow> (int \<times> string) option" where
  "parse_framing_arg lim = read_arg 2 DEFAULT_BIS_FRAMING (\<lambda>f. f \<noteq> 0 \<and> f \<noteq> 1)"

definition parse_bis_count_arg :: "iso_limits \<Rightarrow> string \<Rightarrow> (int \<times> string) option" where
  "parse_bis_count_arg lim = read_arg 3 (iso_max_chan lim) (\<lambda>n. max (group_iso_count lim) (iso_max_chan lim) < n)"

text \<open>The eight prompts in their order; the first error ends them. The result is the values read.\<close>

fun parse_all :: "(string \<Rightarrow> (int \<times> string) option) list \<Rightarrow> string \<Rightarrow> (int list option \<times> string) option" where
  "parse_all [] console = Some (Some [], console)"
| "parse_all (p # ps) console =
     (case p console of
        None \<Rightarrow> None
      | Some (v, rest) \<Rightarrow>
          if v < 0 then Some (None, rest)
          else (case parse_all ps rest of
                  None \<Rightarrow> None
                | Some (None, rest') \<Rightarrow> Some (None, rest')
                | Some (Some vs, rest') \<Rightarrow> Some (Some (v # vs), rest')))"

definition set_params :: "int list \<Rightarrow> bc_params" where
  "set_params vs = \<lparr>bc_rtn = of_int (vs ! 0), bc_phy = of_int (vs ! 3), bc_sdu = of_int (vs ! 4),
     bc_interval = of_int (vs ! 1), bc_latency = of_int (vs ! 2), bc_packing = of_int (vs ! 5),
     bc_framing = of_int (vs ! 6), bc_num_bis = of_int (vs ! 7)\<rparr>"

definition arg_parsers :: "iso_limits \<Rightarrow> (string \<Rightarrow> (int \<times> string) option) list" where
  "arg_parsers lim = [parse_rtn_arg lim, parse_interval_arg lim, parse_latency_arg lim, parse_phy_arg lim,
     parse_sdu_arg lim, parse_packing_arg lim, parse_framing_arg lim, parse_bis_count_arg lim]"

definition parse_args :: "iso_limits \<Rightarrow> string \<Rightarrow> bc_params \<Rightarrow> (int \<times> bc_params \<times> string) option" where
  "parse_args lim console p =
     (case parse_all (arg_parsers lim) console of
        None \<Rightarrow> None
      | Some (None, rest) \<Rightarrow> Some (- EINVAL, p, rest)
      | Some (Some vs, rest) \<Rightarrow> Some (0, set_params vs, rest))"

section \<open>The group\<close>

datatype bc_call =
    BcAdvCreate | BcPerAdvParam | BcPerAdvStart | BcExtAdvStart | BcBigCreate bc_params
  | BcBigTerminate | BcPerAdvStop | BcExtAdvStop | BcExtAdvDelete
  | BcWorkInit | BcWorkSchedule | BcWorkCancel | BcReschedule u32
  | BcBufAlloc | BcChanSend nat "u8 list" | BcBufUnref

record bcast =
  bc_prm :: bc_params
  connected_bis :: u8
  sem_big_complete :: bool
  sem_big_term :: bool
  iso_send_count :: u32
  iso_data :: "u8 list"
  data_initialized :: bool
  bc_calls :: "bc_call list"

record bc_env =
  bc_lim :: iso_limits
  bc_ret :: "nat \<Rightarrow> int"

definition bc_do :: "bc_env \<Rightarrow> bc_call \<Rightarrow> bcast \<Rightarrow> int \<times> bcast" where
  "bc_do e c s = (bc_ret e (length (bc_calls s)), s\<lparr>bc_calls := bc_calls s @ [c]\<rparr>)"

definition bis_connected :: "bcast \<Rightarrow> bcast" where
  "bis_connected s =
     (let n = connected_bis s + 1; s1 = s\<lparr>connected_bis := n\<rparr> in
      if n = bc_num_bis (bc_prm s) then s1\<lparr>sem_big_complete := True\<rparr> else s1)"

definition bis_disconnected :: "bcast \<Rightarrow> bcast" where
  "bis_disconnected s =
     (let n = connected_bis s - 1; s1 = s\<lparr>connected_bis := n\<rparr> in
      if n = bc_num_bis (bc_prm s) then s1\<lparr>sem_big_term := True\<rparr> else s1)"

text \<open>
  The timer's loop from channel \<open>i\<close>: allocate, fill, send; an error ends it. A channel outside the array
  \<open>bis_iso_chans\<close>, or more data than \<open>iso_data\<close> holds, is undefined. An allocation that fails is a
  negative answer.
\<close>

function send_bis :: "bc_env \<Rightarrow> nat \<Rightarrow> bcast \<Rightarrow> bcast option" where
  "send_bis e i s =
     (if unat (bc_num_bis (bc_prm s)) \<le> i then Some s
      else
        (let (buf, s1) = bc_do e BcBufAlloc s in
         if buf < 0 then Some s1
         else if iso_max_chan (bc_lim e) \<le> i \<or> length (iso_data s) < unat (bc_sdu (bc_prm s)) then None
         else
           (let (ret, s2) = bc_do e (BcChanSend i (take (unat (bc_sdu (bc_prm s))) (iso_data s))) s1 in
            if ret < 0 then Some (snd (bc_do e BcBufUnref s2))
            else send_bis e (i + 1) (s2\<lparr>iso_send_count := iso_send_count s2 + 1\<rparr>))))"
  by auto
termination
  by (relation "measure (\<lambda>(e, i, s). unat (bc_num_bis (bc_prm s)) - i)") (auto simp: bc_do_def)

declare send_bis.simps [simp del]

definition iso_timer_timeout :: "bc_env \<Rightarrow> bcast \<Rightarrow> bcast option" where
  "iso_timer_timeout e s = send_bis e 0 (snd (bc_do e (BcReschedule (bc_interval (bc_prm s) - 100)) s))"

text \<open>Calls in a row, up to the first error.\<close>

fun bc_seq :: "bc_env \<Rightarrow> bc_call list \<Rightarrow> bcast \<Rightarrow> int \<times> bcast" where
  "bc_seq e [] s = (0, s)"
| "bc_seq e (c # cs) s = (let (err, s1) = bc_do e c s in if err \<noteq> 0 then (err, s1) else bc_seq e cs s1)"

text \<open>
  \<open>True\<close> in \<open>cbs\<close> is a channel that connects, \<open>False\<close> one that disconnects, while the code waits for the
  group to be complete; the result is \<open>None\<close> when it still waits after them.
\<close>

fun wait_complete :: "bool list \<Rightarrow> bcast \<Rightarrow> bcast option" where
  "wait_complete cbs s =
     (if sem_big_complete s then Some (s\<lparr>sem_big_complete := False\<rparr>)
      else (case cbs of [] \<Rightarrow> None
            | b # cbs' \<Rightarrow> wait_complete cbs' (if b then bis_connected s else bis_disconnected s)))"

declare wait_complete.simps [simp del]

definition create_big :: "bc_env \<Rightarrow> bool list \<Rightarrow> bcast \<Rightarrow> (int \<times> bcast) option" where
  "create_big e cbs s =
     (let (err, s1) = bc_seq e [BcAdvCreate, BcPerAdvParam, BcPerAdvStart, BcExtAdvStart, BcBigCreate (bc_prm s)] s in
      if err \<noteq> 0 then Some (err, s1) else map_option (\<lambda>s2. (0, s2)) (wait_complete cbs s1))"

definition delete_big :: "bc_env \<Rightarrow> bcast \<Rightarrow> int \<times> bcast" where
  "delete_big e s = bc_seq e [BcBigTerminate, BcPerAdvStop, BcExtAdvStop, BcExtAdvDelete] s"

definition bc_reset_sems :: "bcast \<Rightarrow> bcast" where
  "bc_reset_sems s = s\<lparr>sem_big_complete := False, sem_big_term := False\<rparr>"

definition init_data :: "bcast \<Rightarrow> bcast" where
  "init_data s =
     (if data_initialized s then s
      else s\<lparr>iso_data := map of_nat [0..<unat (bc_sdu (bc_prm s))] @ drop (unat (bc_sdu (bc_prm s))) (iso_data s),
             data_initialized := True\<rparr>)"

text \<open>The wait for \<open>q\<close>: the console after it.\<close>

fun wait_quit :: "string \<Rightarrow> string option" where
  "wait_quit [] = None"
| "wait_quit (c # cs) = (if to_lower c = CHR ''q'' then Some cs else wait_quit cs)"

text \<open>
  The test waits for the console or for a callback, returns an error code, or is undefined. \<open>rounds\<close> is
  how often the timer fires before the broadcast ends; \<open>pa_mode\<close> is \<open>CONFIG_ISO_TX_PA_MODE\<close>.
\<close>

datatype bc_res = BcDone int bcast string | BcWaiting | BcUndef

fun timer_rounds :: "bc_env \<Rightarrow> nat \<Rightarrow> bcast \<Rightarrow> bcast option" where
  "timer_rounds e 0 s = Some s"
| "timer_rounds e (Suc n) s = Option.bind (iso_timer_timeout e s) (timer_rounds e n)"

definition bc_settings :: "bc_env \<Rightarrow> bool \<Rightarrow> string \<Rightarrow> bcast \<Rightarrow> (int \<times> bcast \<times> string) option" where
  "bc_settings e pa_mode console s =
     (if pa_mode then Some (0, s, console)
      else (case console of
              [] \<Rightarrow> None
            | c # cs \<Rightarrow>
                if to_lower c = CHR ''y''
                then map_option (\<lambda>(err, p, rest). (err, s\<lparr>bc_prm := p\<rparr>, rest)) (parse_args (bc_lim e) cs (bc_prm s))
                else Some (0, s, cs)))"

definition test_run_broadcaster :: "bc_env \<Rightarrow> bool \<Rightarrow> bool list \<Rightarrow> nat \<Rightarrow> string \<Rightarrow> bcast \<Rightarrow> bc_res" where
  "test_run_broadcaster e pa_mode cbs rounds console s =
     (case bc_settings e pa_mode console (bc_reset_sems s) of
        None \<Rightarrow> BcWaiting
      | Some (err, s1, rest) \<Rightarrow>
          if err \<noteq> 0 then BcDone err s1 rest
          else
            (case create_big e cbs s1 of
               None \<Rightarrow> BcWaiting
             | Some (err, s2) \<Rightarrow>
                 if err \<noteq> 0 then BcDone err s2 rest
                 else
                   (let s3 = init_data (s2\<lparr>iso_send_count := 0\<rparr>);
                        s4 = snd (bc_do e BcWorkSchedule (snd (bc_do e BcWorkInit s3)))
                    in case timer_rounds e rounds s4 of
                         None \<Rightarrow> BcUndef
                       | Some s5 \<Rightarrow>
                           (case wait_quit rest of
                              None \<Rightarrow> BcWaiting
                            | Some rest' \<Rightarrow>
                                (let (err, s6) = delete_big e (snd (bc_do e BcWorkCancel s5)) in BcDone err s6 rest')))))"

section \<open>The program\<close>

datatype benchmark_role = ROLE_RECEIVER | ROLE_BROADCASTER | ROLE_QUIT

datatype pa_pin = ANT_SEL_PIN | TX_EN_PIN | RX_EN_PIN | PDN_EN_PIN | MODE_PIN | CS_PIN

text \<open>The pins configured so far, each active or not; \<open>ret\<close> is the driver's answer by pin.\<close>

fun pin_seq :: "(pa_pin \<Rightarrow> int) \<Rightarrow> (pa_pin \<times> bool) list \<Rightarrow> (pa_pin \<Rightarrow> bool option) \<Rightarrow> int \<times> (pa_pin \<Rightarrow> bool option)" where
  "pin_seq ret [] pins = (0, pins)"
| "pin_seq ret ((p, act) # ps) pins =
     (if ret p < 0 then (ret p, pins)
      else if ps = [] then (ret p, pins(p \<mapsto> act)) else pin_seq ret ps (pins(p \<mapsto> act)))"

definition init_pa_lna :: "(pa_pin \<Rightarrow> int) \<Rightarrow> int \<Rightarrow> (pa_pin \<Rightarrow> bool option) \<Rightarrow> int \<times> (pa_pin \<Rightarrow> bool option)" where
  "init_pa_lna ret mode pins =
     pin_seq ret ([(PDN_EN_PIN, True), (CS_PIN, True), (MODE_PIN, False), (ANT_SEL_PIN, False)] @
       (if mode = 1 then [(TX_EN_PIN, True), (RX_EN_PIN, False)] else [(TX_EN_PIN, False), (RX_EN_PIN, True)])) pins"

fun device_role_select :: "bool \<Rightarrow> bool \<Rightarrow> string \<Rightarrow> (benchmark_role \<times> string) option" where
  "device_role_select pa_mode lna_mode console =
     (if pa_mode then Some (ROLE_BROADCASTER, console)
      else if lna_mode then Some (ROLE_RECEIVER, console)
      else (case console of
              [] \<Rightarrow> None
            | c # cs \<Rightarrow>
                (let role = to_lower c in
                 if role = CHR ''r'' then Some (ROLE_RECEIVER, cs)
                 else if role = CHR ''b'' then Some (ROLE_BROADCASTER, cs)
                 else if role = CHR ''q'' then Some (ROLE_QUIT, cs)
                 else device_role_select pa_mode lna_mode cs)))"

declare device_role_select.simps [simp del]

section \<open>Settings from the console\<close>

lemma get_chars_none:
  "get_chars n console = None \<longleftrightarrow> length console < n \<and> (\<forall>c\<in>set console. \<not> is_eol (to_lower c))"
  by (induction n console rule: get_chars.induct) (auto simp: Let_def)

lemma get_chars_some:
  "get_chars n console = Some (buf, rest) \<Longrightarrow> length buf \<le> n \<and> buf = map to_lower (take (length buf) console)
     \<and> (\<forall>c\<in>set buf. \<not> is_eol c) \<and> rest = drop (if length buf = n then n else length buf + 1) console"
proof (induction n console arbitrary: buf rest rule: get_chars.induct)
  case (2 n ch console)
  show ?case
  proof (cases "n = 0 \<or> is_eol (to_lower ch)")
    case False
    then obtain b where b: "get_chars (n - 1) console = Some (b, rest)" "buf = to_lower ch # b"
      using 2(2) by (auto simp: Let_def)
    have "length b \<le> n - 1 \<and> b = map to_lower (take (length b) console)
     \<and> (\<forall>c\<in>set b. \<not> is_eol c) \<and> rest = drop (if length b = n - 1 then n - 1 else length b + 1) console"
      using 2(1) False b(1) by blast
    then show ?thesis using b(2) False by (cases n) auto
  qed (use 2(2) in \<open>auto simp: Let_def split: if_splits\<close>)
qed (auto split: if_splits)

text \<open>
  Reading a line of at most n characters returns exactly when the console holds n characters or a line end; it stores
  the characters before the line end in lower case, at most n of them, so that the final NUL fits the buffer of n + 1, and
  it takes nothing more from the console than these and the line end.
\<close>

theorem get_chars_returns:
  "((\<exists>buf rest. get_chars n console = Some (buf, rest)) = (n \<le> length console \<or> (\<exists>c\<in>set console. is_eol (to_lower c))))
   \<and> (get_chars n console = Some (buf, rest) \<longrightarrow> length buf \<le> n \<and> buf = map to_lower (take (length buf) console)
        \<and> (\<forall>c\<in>set buf. \<not> is_eol c) \<and> rest = drop (if length buf = n then n else length buf + 1) console)"
proof -
  have "(\<exists>buf rest. get_chars n console = Some (buf, rest)) \<longleftrightarrow> get_chars n console \<noteq> None" by auto
  then show ?thesis using get_chars_none [of n console] get_chars_some by (auto simp: not_less)
qed

text \<open>What Zephyr's limits guarantee the program: every value fits its field, and the defaults are allowed.\<close>

definition limits_ok :: "iso_limits \<Rightarrow> bool" where
  "limits_ok lim \<longleftrightarrow> 2 \<le> rtn_max lim \<and> rtn_max lim < 256
     \<and> 100 < iso_interval_min lim \<and> iso_interval_min lim \<le> 10000 \<and> 10000 \<le> iso_interval_max lim
     \<and> iso_interval_max lim < 2 ^ 32
     \<and> 0 < iso_latency_min lim \<and> iso_latency_min lim \<le> 10 \<and> 10 \<le> iso_latency_max lim \<and> iso_latency_max lim < 65536
     \<and> iso_tx_mtu lim \<le> iso_max_sdu lim \<and> iso_max_sdu lim < 65536
     \<and> group_iso_count lim < 256 \<and> iso_max_chan lim < 256"

definition params_wf :: "iso_limits \<Rightarrow> bc_params \<Rightarrow> bool" where
  "params_wf lim p \<longleftrightarrow> unat (bc_rtn p) \<le> rtn_max lim
     \<and> iso_interval_min lim \<le> unat (bc_interval p) \<and> unat (bc_interval p) \<le> iso_interval_max lim
     \<and> iso_latency_min lim \<le> unat (bc_latency p) \<and> unat (bc_latency p) \<le> iso_latency_max lim
     \<and> bc_phy p \<in> {BT_GAP_LE_PHY_1M, BT_GAP_LE_PHY_2M, BT_GAP_LE_PHY_CODED}
     \<and> unat (bc_sdu p) \<le> iso_tx_mtu lim \<and> bc_packing p \<in> {0, 1} \<and> bc_framing p \<in> {0, 1}
     \<and> unat (bc_num_bis p) \<le> max (group_iso_count lim) (iso_max_chan lim)"

lemma read_arg_value:
  assumes "read_arg n dflt invalid console = Some (v, rest)" "\<not> v < 0" "\<not> invalid dflt"
  shows "\<exists>k. v = int k \<and> \<not> invalid k"
  using assms by (auto simp: read_arg_def EINVAL_def split: option.splits if_splits)

lemma parse_all_values:
  "parse_all ps console = Some (Some vs, rest) \<Longrightarrow>
     length vs = length ps \<and> (\<forall>i<length ps. \<exists>c r. (ps ! i) c = Some (vs ! i, r) \<and> \<not> vs ! i < 0)"
proof (induction ps arbitrary: console vs)
  case (Cons p ps)
  then obtain v r vs' where v: "p console = Some (v, r)" "\<not> v < 0" "parse_all ps r = Some (Some vs', rest)" "vs = v # vs'"
    by (auto split: option.splits prod.splits if_splits)
  show ?case using Cons.IH [OF v(3)] v by (auto simp: less_Suc_eq_0_disj)
qed simp

lemma set_params_wf:
  assumes "limits_ok lim" "parse_all (arg_parsers lim) console = Some (Some vs, rest)"
  shows "params_wf lim (set_params vs)"
proof -
  have n: "length (arg_parsers lim) = 8" by (simp add: arg_parsers_def)
  have val: "\<exists>c r. (arg_parsers lim ! i) c = Some (vs ! i, r) \<and> \<not> vs ! i < 0" if "i < 8" for i
    using parse_all_values [OF assms(2)] that n by auto
  have g: "\<exists>k. vs ! i = int k \<and> \<not> invalid k"
    if "i < 8" "arg_parsers lim ! i = read_arg m dflt invalid" "\<not> invalid dflt" for i m dflt invalid
    using val [OF that(1)] read_arg_value that(2,3) by metis
  note d = arg_parsers_def parse_rtn_arg_def parse_interval_arg_def parse_latency_arg_def parse_phy_arg_def
    parse_sdu_arg_def parse_packing_arg_def parse_framing_arg_def parse_bis_count_arg_def
    DEFAULT_BIS_RTN_def DEFAULT_BIS_INTERVAL_US_def DEFAULT_BIS_LATENCY_MS_def DEFAULT_BIS_PHY_def
    DEFAULT_BIS_PACKING_def DEFAULT_BIS_FRAMING_def
  note l = assms(1) [unfolded limits_ok_def]
  obtain k0 where k0: "vs ! 0 = int k0" "k0 \<le> rtn_max lim" using g [of 0, unfolded d] l by fastforce
  obtain k1 where k1: "vs ! 1 = int k1" "iso_interval_min lim \<le> k1" "k1 \<le> iso_interval_max lim"
    using g [of 1, unfolded d] l by fastforce
  obtain k2 where k2: "vs ! 2 = int k2" "iso_latency_min lim \<le> k2" "k2 \<le> iso_latency_max lim"
    using g [of 2, unfolded d] l by fastforce
  obtain k3 where k3: "vs ! 3 = int k3" "k3 = unat BT_GAP_LE_PHY_1M \<or> k3 = unat BT_GAP_LE_PHY_2M \<or> k3 = unat BT_GAP_LE_PHY_CODED"
    using g [of 3, unfolded d] l by fastforce
  obtain k4 where k4: "vs ! 4 = int k4" "k4 \<le> iso_tx_mtu lim" using g [of 4, unfolded d] l by fastforce
  obtain k5 where k5: "vs ! 5 = int k5" "k5 = 0 \<or> k5 = 1" using g [of 5, unfolded d] l by fastforce
  obtain k6 where k6: "vs ! 6 = int k6" "k6 = 0 \<or> k6 = 1" using g [of 6, unfolded d] l by fastforce
  obtain k7 where k7: "vs ! 7 = int k7" "k7 \<le> max (group_iso_count lim) (iso_max_chan lim)"
    using g [of 7, unfolded d] l by fastforce
  have u8: "unat (of_int (int k) :: u8) = k" if "k < 256" for k using that by (simp add: unsigned_of_nat take_bit_nat_eq_self)
  have u16: "unat (of_int (int k) :: u16) = k" if "k < 65536" for k using that by (simp add: unat_of_nat_u16)
  have u32: "unat (of_int (int k) :: u32) = k" if "k < 2 ^ 32" for k using that by (simp add: unat_of_nat_u32)
  have p: "set_params vs = \<lparr>bc_rtn = of_nat k0, bc_phy = of_nat k3, bc_sdu = of_nat k4, bc_interval = of_nat k1,
     bc_latency = of_nat k2, bc_packing = of_nat k5, bc_framing = of_nat k6, bc_num_bis = of_nat k7\<rparr>"
    by (simp add: set_params_def k0(1) k1(1) [simplified] k2(1) k3(1) k4(1) k5(1) k6(1) k7(1))
  have "unat (of_nat k0 :: u8) = k0" using u8 [of k0] k0(2) l by simp
  moreover have "unat (of_nat k1 :: u32) = k1" using u32 [of k1] k1(3) l by simp
  moreover have "unat (of_nat k2 :: u16) = k2" using u16 [of k2] k2(3) l by simp
  moreover have "unat (of_nat k4 :: u16) = k4" using u16 [of k4] k4(2) l by simp
  moreover have "unat (of_nat k7 :: u8) = k7" using u8 [of k7] k7(2) l by (simp add: max_def split: if_splits)
  moreover have "(of_nat k3 :: u8) \<in> {BT_GAP_LE_PHY_1M, BT_GAP_LE_PHY_2M, BT_GAP_LE_PHY_CODED}" using k3(2) by auto
  moreover have "(of_nat k5 :: u8) \<in> {0, 1}" "(of_nat k6 :: u8) \<in> {0, 1}" using k5(2) k6(2) by auto
  ultimately show ?thesis
    unfolding params_wf_def p using k0(2) k1(2,3) k2(2,3) k4(2) k7(2) by simp
qed

text \<open>
  C27: The settings are well-formed at start-up and stay so whatever is typed: reading new settings either fails with
  -EINVAL and keeps the old ones, or sets all eight to values within the limits.
\<close>

theorem settings_well_formed:
  assumes "limits_ok lim"
  shows "params_wf lim (default_params lim)
     \<and> (params_wf lim p \<and> parse_args lim console p = Some (err, p', rest) \<longrightarrow>
          params_wf lim p' \<and> (err = 0 \<or> err = - EINVAL \<and> p' = p))"
proof -
  have "params_wf lim (default_params lim)" using assms
    by (simp add: params_wf_def default_params_def limits_ok_def DEFAULT_BIS_RTN_def DEFAULT_BIS_INTERVAL_US_def
        DEFAULT_BIS_LATENCY_MS_def DEFAULT_BIS_PHY_def DEFAULT_BIS_PACKING_def DEFAULT_BIS_FRAMING_def BT_GAP_LE_PHY_1M_def
        unat_of_nat_u16 unsigned_of_nat take_bit_nat_eq_self)
  then show ?thesis using set_params_wf [OF assms]
    by (auto simp: parse_args_def split: option.splits)
qed

definition demo_limits :: iso_limits where
  "demo_limits = \<lparr>rtn_max = 30, iso_interval_min = 256, iso_interval_max = 1048575, iso_latency_min = 5,
     iso_latency_max = 4000, iso_max_sdu = 4095, group_iso_count = 31, iso_tx_mtu = 60, iso_max_chan = 1\<rparr>"

lemma demo_limits_ok: "limits_ok demo_limits"
  by (simp add: limits_ok_def demo_limits_def)

definition nl :: string where "nl = [char_of (10 :: nat)]"

definition demo_console :: string where
  "demo_console = ''5'' @ nl @ ''0x4000'' @ nl @ nl @ ''2'' @ nl @ ''30'' @ nl @ nl @ nl @ ''31 '' @ ''q''"

lemma demo_parse:
  "parse_args demo_limits demo_console (default_params demo_limits) =
     Some (0, \<lparr>bc_rtn = 5, bc_phy = 2, bc_sdu = 30, bc_interval = 16384, bc_latency = 10, bc_packing = 0,
               bc_framing = 0, bc_num_bis = 31\<rparr>, ''q'')"
  by code_simp

theorem settings_well_formed_witness:
  "params_wf demo_limits \<lparr>bc_rtn = 5, bc_phy = 2, bc_sdu = 30, bc_interval = 16384, bc_latency = 10, bc_packing = 0,
               bc_framing = 0, bc_num_bis = 31\<rparr>"
  using settings_well_formed [OF demo_limits_ok, of "default_params demo_limits" demo_console] demo_parse by blast

theorem get_chars_returns_witness:
  "\<exists>buf rest. get_chars 3 (''4A'' @ nl @ ''x'') = Some (buf, rest) \<and> buf = ''4a''"
proof -
  have "get_chars 3 (''4A'' @ nl @ ''x'') = Some (''4a'', ''x'')" by code_simp
  moreover from this have "''4a'' = map to_lower (take (length ''4a'') (''4A'' @ nl @ ''x''))"
    using get_chars_returns [of 3 "''4A'' @ nl @ ''x''" "''4a''" "''x''"] by blast
  ultimately show ?thesis by blast
qed


section \<open>The timer\<close>

lemma bc_do_frame [simp]:
  "bc_prm (snd (bc_do e c s)) = bc_prm s" "iso_data (snd (bc_do e c s)) = iso_data s"
  "iso_send_count (snd (bc_do e c s)) = iso_send_count s" "bc_calls (snd (bc_do e c s)) = bc_calls s @ [c]"
  "connected_bis (snd (bc_do e c s)) = connected_bis s"
  by (simp_all add: bc_do_def)

definition sent :: "bcast \<Rightarrow> nat \<Rightarrow> bc_call list" where
  "sent s i = [BcBufAlloc, BcChanSend i (take (unat (bc_sdu (bc_prm s))) (iso_data s))]"

lemma sent_cong: "bc_prm s = bc_prm s' \<Longrightarrow> iso_data s = iso_data s' \<Longrightarrow> sent s = sent s'"
  by (simp add: sent_def fun_eq_iff)

text \<open>One turn of the loop: the state after a successful send, and what the turn does otherwise.\<close>

definition after_send :: "bc_env \<Rightarrow> nat \<Rightarrow> bcast \<Rightarrow> bcast" where
  "after_send e i s = s\<lparr>bc_calls := bc_calls s @ sent s i, iso_send_count := iso_send_count s + 1\<rparr>"

lemma after_send_frame [simp]:
  "bc_prm (after_send e i s) = bc_prm s" "iso_data (after_send e i s) = iso_data s"
  "iso_send_count (after_send e i s) = iso_send_count s + 1" "bc_calls (after_send e i s) = bc_calls s @ sent s i"
  "sent (after_send e i s) = sent s"
  by (simp_all add: after_send_def sent_def fun_eq_iff)

lemma send_bis_turn:
  assumes "i < unat (bc_num_bis (bc_prm s))" "i < iso_max_chan (bc_lim e)" "unat (bc_sdu (bc_prm s)) \<le> length (iso_data s)"
  shows "send_bis e i s =
     (if bc_ret e (length (bc_calls s)) < 0 then Some (s\<lparr>bc_calls := bc_calls s @ [BcBufAlloc]\<rparr>)
      else if bc_ret e (length (bc_calls s) + 1) < 0 then Some (s\<lparr>bc_calls := bc_calls s @ sent s i @ [BcBufUnref]\<rparr>)
      else send_bis e (i + 1) (after_send e i s))"
  using assms by (subst send_bis.simps) (simp add: bc_do_def sent_def after_send_def)

text \<open>What a round from channel \<open>i\<close> does: sends to the next \<open>k\<close> channels, and perhaps an attempt that fails.\<close>

definition round_from :: "bcast \<Rightarrow> nat \<Rightarrow> nat \<Rightarrow> bc_call list \<Rightarrow> bcast \<Rightarrow> bool" where
  "round_from s i k tail s' \<longleftrightarrow> i + k \<le> unat (bc_num_bis (bc_prm s))
     \<and> bc_calls s' = bc_calls s @ concat (map (sent s) [i..<i + k]) @ tail
     \<and> iso_send_count s' = iso_send_count s + of_nat k
     \<and> (if i + k = unat (bc_num_bis (bc_prm s)) then tail = []
        else tail = [BcBufAlloc] \<or> tail = sent s (i + k) @ [BcBufUnref])"

lemma round_from_step:
  assumes "round_from (after_send e i s) (i + 1) k tail s'"
  shows "round_from s i (Suc k) tail s'"
proof -
  have "[i..<i + Suc k] = i # [i + 1..<i + 1 + k]" by (simp add: upt_conv_Cons)
  with assms show ?thesis by (simp add: round_from_def algebra_simps del: upt_Suc split: if_splits)
qed

lemma send_bis_outcome:
  assumes "unat (bc_sdu (bc_prm s)) \<le> length (iso_data s)" "unat (bc_num_bis (bc_prm s)) \<le> iso_max_chan (bc_lim e)"
    and "i \<le> unat (bc_num_bis (bc_prm s))"
  shows "\<exists>s' k tail. send_bis e i s = Some s' \<and> round_from s i k tail s'"
  using assms
proof (induction "unat (bc_num_bis (bc_prm s)) - i" arbitrary: i s)
  case 0
  then have "send_bis e i s = Some s" by (subst send_bis.simps) simp
  moreover have "round_from s i 0 [] s" using 0 by (simp add: round_from_def)
  ultimately show ?case by blast
next
  case (Suc m)
  have lt: "i < unat (bc_num_bis (bc_prm s))" using Suc(2) by simp
  have turn: "send_bis e i s =
     (if bc_ret e (length (bc_calls s)) < 0 then Some (s\<lparr>bc_calls := bc_calls s @ [BcBufAlloc]\<rparr>)
      else if bc_ret e (length (bc_calls s) + 1) < 0 then Some (s\<lparr>bc_calls := bc_calls s @ sent s i @ [BcBufUnref]\<rparr>)
      else send_bis e (i + 1) (after_send e i s))"
    using lt Suc.prems by (intro send_bis_turn) simp_all
  have "round_from s i 0 [BcBufAlloc] (s\<lparr>bc_calls := bc_calls s @ [BcBufAlloc]\<rparr>)"
    "round_from s i 0 (sent s i @ [BcBufUnref]) (s\<lparr>bc_calls := bc_calls s @ sent s i @ [BcBufUnref]\<rparr>)"
    using lt by (simp_all add: round_from_def)
  moreover have "\<exists>s' k tail. send_bis e (i + 1) (after_send e i s) = Some s' \<and> round_from (after_send e i s) (i + 1) k tail s'"
    using Suc.prems Suc(2) lt by (intro Suc(1)) simp_all
  then obtain s' k tail where "send_bis e (i + 1) (after_send e i s) = Some s'" "round_from s i (Suc k) tail s'"
    using round_from_step by blast
  ultimately show ?case unfolding turn by (auto split: if_splits)
qed

lemma send_bis_overrun:
  assumes "\<forall>n. 0 \<le> bc_ret e n" "iso_max_chan (bc_lim e) < unat (bc_num_bis (bc_prm s))" "i \<le> iso_max_chan (bc_lim e)"
  shows "send_bis e i s = None"
  using assms
proof (induction "iso_max_chan (bc_lim e) - i" arbitrary: i s)
  case 0
  then have "\<not> bc_ret e n < 0" "\<not> unat (bc_num_bis (bc_prm s)) \<le> i" for n by (auto simp: not_less)
  then show ?case using 0 by (subst send_bis.simps) (simp add: bc_do_def)
next
  case (Suc m)
  have nn: "\<not> bc_ret e n < 0" for n using Suc.prems(1) by (simp add: not_less)
  have lt: "i < iso_max_chan (bc_lim e)" "i < unat (bc_num_bis (bc_prm s))" using Suc(2) Suc.prems by simp_all
  show ?case
  proof (cases "length (iso_data s) < unat (bc_sdu (bc_prm s))")
    case True
    then show ?thesis using lt nn by (subst send_bis.simps) (simp add: bc_do_def)
  next
    case False
    have "send_bis e (i + 1) (after_send e i s) = None" using Suc.prems Suc(2) lt by (intro Suc(1)) simp_all
    then show ?thesis using send_bis_turn [of i s e] lt False nn by simp
  qed
qed

text \<open>
  When the settings fit the channels and the data, a round of the timer is defined: it schedules the next, then sends
  the data once to each of the first k channels, in order, and counts them; it stops before the last channel only at an
  allocation that fails or a send that fails, and then gives the buffer of that send back. With more channels set than the
  program has, which the prompt accepts up to the limit of the specification, a round whose calls all succeed runs past
  the array.
\<close>

theorem timer_round_outcome:
  assumes "unat (bc_sdu (bc_prm s)) \<le> length (iso_data s)"
  shows "(unat (bc_num_bis (bc_prm s)) \<le> iso_max_chan (bc_lim e) \<longrightarrow>
     (\<exists>s' k tail. iso_timer_timeout e s = Some s' \<and> k \<le> unat (bc_num_bis (bc_prm s))
        \<and> bc_calls s' = bc_calls s @ BcReschedule (bc_interval (bc_prm s) - 100) # concat (map (sent s) [0..<k]) @ tail
        \<and> iso_send_count s' = iso_send_count s + of_nat k
        \<and> (if k = unat (bc_num_bis (bc_prm s)) then tail = []
           else tail = [BcBufAlloc] \<or> tail = sent s k @ [BcBufUnref])))
   \<and> (iso_max_chan (bc_lim e) < unat (bc_num_bis (bc_prm s)) \<and> (\<forall>n. 0 \<le> bc_ret e n) \<longrightarrow> iso_timer_timeout e s = None)"
proof -
  define t where "t = snd (bc_do e (BcReschedule (bc_interval (bc_prm s) - 100)) s)"
  have f: "bc_prm t = bc_prm s" "iso_data t = iso_data s" "iso_send_count t = iso_send_count s"
    "bc_calls t = bc_calls s @ [BcReschedule (bc_interval (bc_prm s) - 100)]" by (simp_all add: t_def)
  have se: "sent t = sent s" using f by (intro sent_cong)
  have A: "\<exists>s' k tail. iso_timer_timeout e s = Some s' \<and> round_from t 0 k tail s'"
    if "unat (bc_num_bis (bc_prm s)) \<le> iso_max_chan (bc_lim e)"
    using send_bis_outcome [of t e 0] assms that f by (simp add: iso_timer_timeout_def flip: t_def)
  have B: "iso_timer_timeout e s = None"
    if "iso_max_chan (bc_lim e) < unat (bc_num_bis (bc_prm s))" "\<forall>n. 0 \<le> bc_ret e n"
    using send_bis_overrun [of e t 0] that f by (simp add: iso_timer_timeout_def flip: t_def)
  have R: "round_from t 0 k tail s' \<longleftrightarrow> k \<le> unat (bc_num_bis (bc_prm s))
      \<and> bc_calls s' = bc_calls s @ BcReschedule (bc_interval (bc_prm s) - 100) # concat (map (sent s) [0..<k]) @ tail
      \<and> iso_send_count s' = iso_send_count s + of_nat k
      \<and> (if k = unat (bc_num_bis (bc_prm s)) then tail = []
         else tail = [BcBufAlloc] \<or> tail = sent s k @ [BcBufUnref])" for k tail s'
    unfolding round_from_def se f by simp
  show ?thesis
  proof (intro conjI impI)
    assume "unat (bc_num_bis (bc_prm s)) \<le> iso_max_chan (bc_lim e)"
    from A [OF this, unfolded R] show "\<exists>s' k tail. iso_timer_timeout e s = Some s' \<and> k \<le> unat (bc_num_bis (bc_prm s))
        \<and> bc_calls s' = bc_calls s @ BcReschedule (bc_interval (bc_prm s) - 100) # concat (map (sent s) [0..<k]) @ tail
        \<and> iso_send_count s' = iso_send_count s + of_nat k
        \<and> (if k = unat (bc_num_bis (bc_prm s)) then tail = []
           else tail = [BcBufAlloc] \<or> tail = sent s k @ [BcBufUnref])" .
  qed (use B in blast)
qed

section \<open>The channels\<close>

definition bis_event :: "bool \<Rightarrow> bcast \<Rightarrow> bcast" where
  "bis_event b s = (if b then bis_connected s else bis_disconnected s)"

fun up_count :: "bool list \<Rightarrow> nat \<Rightarrow> nat" where
  "up_count [] n = n"
| "up_count (b # bs) n = up_count bs (if b then n + 1 else n - 1)"

text \<open>Only a channel that is connected disconnects, and no more connect than the group has.\<close>

fun channels_ok :: "nat \<Rightarrow> bool list \<Rightarrow> nat \<Rightarrow> bool" where
  "channels_ok num [] n \<longleftrightarrow> n \<le> num"
| "channels_ok num (b # bs) n \<longleftrightarrow> n \<le> num \<and> (if b then channels_ok num bs (n + 1) else 0 < n \<and> channels_ok num bs (n - 1))"

lemma unat_of_nat_u8: "m < 256 \<Longrightarrow> unat (of_nat m :: u8) = m"
  by (simp add: unsigned_of_nat take_bit_nat_eq_self)

lemma of_nat_unat_u8: "of_nat (unat (w :: u8)) = w"
  by simp

lemma bis_events:
  assumes "channels_ok (unat (bc_num_bis (bc_prm s))) bs n" "connected_bis s = of_nat n"
  shows "bc_prm (fold bis_event bs s) = bc_prm s \<and> connected_bis (fold bis_event bs s) = of_nat (up_count bs n)
     \<and> sem_big_term (fold bis_event bs s) = sem_big_term s
     \<and> (sem_big_complete (fold bis_event bs s) \<longleftrightarrow> sem_big_complete s
          \<or> (\<exists>k<length bs. bs ! k \<and> up_count (take (Suc k) bs) n = unat (bc_num_bis (bc_prm s))))"
  using assms
proof (induction bs arbitrary: n s)
  case (Cons b bs)
  let ?num = "unat (bc_num_bis (bc_prm s))"
  have n: "n \<le> ?num" "?num < 256" using Cons.prems(1) unsigned_less [of "bc_num_bis (bc_prm s)"] by simp_all
  have eqn: "(of_nat m :: u8) = bc_num_bis (bc_prm s) \<longleftrightarrow> m = ?num" if "m < 256" for m
    using that by (metis unat_of_nat_u8 of_nat_unat_u8)
  have first: "m \<le> num" if "channels_ok num cs m" for num cs m using that by (cases cs) simp_all
  show ?case
  proof (cases b)
    case True
    have ok: "channels_ok ?num bs (n + 1)" using Cons.prems(1) True by simp
    have "n + 1 < 256" using first [OF ok] n(2) by simp
    then have s1: "bis_event True s = (s\<lparr>connected_bis := of_nat (n + 1)\<rparr>)
        \<lparr>sem_big_complete := sem_big_complete s \<or> n + 1 = ?num\<rparr>"
      using eqn [of "n + 1"] Cons.prems(2) True by (simp add: bis_event_def bis_connected_def Let_def add.commute)
    have "channels_ok (unat (bc_num_bis (bc_prm (bis_event True s)))) bs (n + 1)" "connected_bis (bis_event True s) = of_nat (n + 1)"
      using ok by (simp_all add: s1)
    from Cons.IH [OF this] show ?thesis by (simp add: Ex_less_Suc2 s1 True disj_assoc)
  next
    case False
    have ok: "channels_ok ?num bs (n - 1)" "0 < n" using Cons.prems(1) False by simp_all
    have "n - 1 < 256" "n - 1 \<noteq> ?num" using ok(2) n by simp_all
    moreover have "connected_bis s - 1 = of_nat (n - 1)" using ok(2) Cons.prems(2) by (cases n) simp_all
    ultimately have s1: "bis_event False s = s\<lparr>connected_bis := of_nat (n - 1)\<rparr>"
      using eqn [of "n - 1"] False by (simp add: bis_event_def bis_disconnected_def Let_def)
    have "channels_ok (unat (bc_num_bis (bc_prm (bis_event False s)))) bs (n - 1)" "connected_bis (bis_event False s) = of_nat (n - 1)"
      using ok by (simp_all add: s1)
    from Cons.IH [OF this] show ?thesis by (simp add: Ex_less_Suc2 s1 False)
  qed
qed simp

text \<open>
  From no connected channel, as long as only connected channels disconnect and no more connect than the group has, the
  test is told that the group is complete exactly when some connection brings the count to the group's size, and the
  semaphore for its end is never given: after a disconnection the count is below the size.
\<close>

theorem group_complete_exact:
  assumes "channels_ok (unat (bc_num_bis (bc_prm s))) bs 0" "connected_bis s = 0"
    and "\<not> sem_big_complete s" "\<not> sem_big_term s"
  shows "(sem_big_complete (fold bis_event bs s) \<longleftrightarrow>
      (\<exists>k<length bs. bs ! k \<and> up_count (take (Suc k) bs) 0 = unat (bc_num_bis (bc_prm s))))
     \<and> \<not> sem_big_term (fold bis_event bs s)"
  using bis_events [OF assms(1)] assms(2-4) by simp

section \<open>Starting and stopping\<close>

lemma bc_seq_calls:
  "\<exists>k\<le>length cs. bc_calls (snd (bc_seq e cs s)) = bc_calls s @ take k cs
     \<and> (fst (bc_seq e cs s) = 0 \<longrightarrow> k = length cs)
     \<and> (fst (bc_seq e cs s) \<noteq> 0 \<longrightarrow> 0 < k \<and> bc_ret e (length (bc_calls s) + k - 1) = fst (bc_seq e cs s))"
proof (induction cs arbitrary: s)
  case (Cons c cs)
  define err where "err = fst (bc_do e c s)"
  define s1 where "s1 = snd (bc_do e c s)"
  have b: "bc_do e c s = (err, s1)" "bc_calls s1 = bc_calls s @ [c]" "err = bc_ret e (length (bc_calls s))"
    by (simp_all add: err_def s1_def bc_do_def)
  show ?case
  proof (cases "err = 0")
    case False
    then show ?thesis using b by (intro exI [of _ 1]) simp
  next
    case True
    from Cons.IH [of s1] obtain k where "k \<le> length cs" "bc_calls (snd (bc_seq e cs s1)) = bc_calls s1 @ take k cs"
      "fst (bc_seq e cs s1) = 0 \<longrightarrow> k = length cs"
      "fst (bc_seq e cs s1) \<noteq> 0 \<longrightarrow> 0 < k \<and> bc_ret e (length (bc_calls s1) + k - 1) = fst (bc_seq e cs s1)" by blast
    then show ?thesis using b True by (intro exI [of _ "Suc k"]) auto
  qed
qed simp

text \<open>
  Creating the group makes its five calls in order, up to the first that fails, and returns that error; it does not
  undo the calls before it, so a group that cannot be created leaves the advertising set behind, running if it was started.
\<close>

theorem create_big_leaves_advertising:
  assumes "create_big e cbs s = Some (err, s')" "err \<noteq> 0"
  shows "\<exists>k. 0 < k \<and> k \<le> 5 \<and> bc_calls s' = bc_calls s @
       take k [BcAdvCreate, BcPerAdvParam, BcPerAdvStart, BcExtAdvStart, BcBigCreate (bc_prm s)]
     \<and> err = bc_ret e (length (bc_calls s) + k - 1)
     \<and> {BcPerAdvStop, BcExtAdvStop, BcExtAdvDelete} \<inter> set (drop (length (bc_calls s)) (bc_calls s')) = {}"
proof -
  let ?cs = "[BcAdvCreate, BcPerAdvParam, BcPerAdvStart, BcExtAdvStart, BcBigCreate (bc_prm s)]"
  have r: "bc_seq e ?cs s = (err, s')"
    using assms by (auto simp: create_big_def split_beta Let_def simp del: bc_seq.simps split: if_splits)
  from bc_seq_calls [of ?cs e s, unfolded r] obtain k where k: "k \<le> length ?cs" "bc_calls s' = bc_calls s @ take k ?cs"
    "0 < k" "err = bc_ret e (length (bc_calls s) + k - 1)"
    using assms(2) unfolding snd_conv fst_conv by metis
  have "k \<le> 5" using k(1) by simp
  have "set (take k ?cs) \<subseteq> set ?cs" by (rule set_take_subset)
  then have "{BcPerAdvStop, BcExtAdvStop, BcExtAdvDelete} \<inter> set (take k ?cs) = {}" by auto
  moreover have "drop (length (bc_calls s)) (bc_calls s') = take k ?cs" using k(2) by simp
  ultimately show ?thesis using k(2-4) \<open>k \<le> 5\<close> by metis
qed

section \<open>The amplifier pins\<close>

text \<open>
  After a successful set-up exactly one of the transmit amplifier and the receive amplifier is enabled, the one the
  mode asks for; and from reset, no driver error on the way leaves both of them enabled.
\<close>

theorem amplifiers_exclusive:
  assumes "init_pa_lna ret mode (\<lambda>_. None) = (r, pins)"
  shows "\<not> (pins TX_EN_PIN = Some True \<and> pins RX_EN_PIN = Some True)
     \<and> (0 \<le> r \<longrightarrow> pins TX_EN_PIN = Some (mode = 1) \<and> pins RX_EN_PIN = Some (mode \<noteq> 1) \<and> pins PDN_EN_PIN = Some True)"
  using assms by (auto simp: init_pa_lna_def split: if_splits)

definition demo_bcast :: bcast where
  "demo_bcast = \<lparr>bc_prm = (default_params demo_limits)\<lparr>bc_num_bis := 2\<rparr>, connected_bis = 0, sem_big_complete = False,
     sem_big_term = False, iso_send_count = 0, iso_data = replicate 60 0, data_initialized = False, bc_calls = []\<rparr>"

definition demo_bc_env :: bc_env where
  "demo_bc_env = \<lparr>bc_lim = demo_limits, bc_ret = (\<lambda>_. 0)\<rparr>"

theorem timer_round_outcome_witness:
  "iso_timer_timeout demo_bc_env demo_bcast = None"
proof -
  have "unat (bc_sdu (bc_prm demo_bcast)) \<le> length (iso_data demo_bcast)"
    "iso_max_chan (bc_lim demo_bc_env) < unat (bc_num_bis (bc_prm demo_bcast))" "\<forall>n. 0 \<le> bc_ret demo_bc_env n"
    by (simp_all add: demo_bcast_def demo_bc_env_def default_params_def demo_limits_def)
  with timer_round_outcome [of demo_bcast demo_bc_env] show ?thesis by blast
qed

theorem group_complete_exact_witness:
  "sem_big_complete (fold bis_event [True, False, True, True] demo_bcast)
     \<and> \<not> sem_big_term (fold bis_event [True, False, True, True] demo_bcast)"
proof -
  have "channels_ok (unat (bc_num_bis (bc_prm demo_bcast))) [True, False, True, True] 0" "connected_bis demo_bcast = 0"
    "\<not> sem_big_complete demo_bcast" "\<not> sem_big_term demo_bcast"
    by (simp_all add: demo_bcast_def default_params_def demo_limits_def)
  note t = group_complete_exact [OF this]
  have "\<exists>k<length [True, False, True, True]. [True, False, True, True] ! k
     \<and> up_count (take (Suc k) [True, False, True, True]) 0 = unat (bc_num_bis (bc_prm demo_bcast))"
    by (rule exI [of _ 3]) (simp add: demo_bcast_def default_params_def demo_limits_def)
  with t show ?thesis by blast
qed

theorem create_big_leaves_advertising_witness:
  "\<exists>s'. create_big (demo_bc_env\<lparr>bc_ret := (\<lambda>n. if n = 4 then -12 else 0)\<rparr>) [] demo_bcast = Some (-12, s')
     \<and> BcExtAdvDelete \<notin> set (bc_calls s')"
proof -
  let ?e = "demo_bc_env\<lparr>bc_ret := (\<lambda>n. if n = 4 then -12 else 0)\<rparr>"
  have "\<exists>s'. create_big ?e [] demo_bcast = Some (-12, s')"
    by (simp add: create_big_def bc_do_def demo_bcast_def)
  then obtain s' where c: "create_big ?e [] demo_bcast = Some (-12, s')" by blast
  have "(-12 :: int) \<noteq> 0" by simp
  from create_big_leaves_advertising [OF c this] have
    "{BcPerAdvStop, BcExtAdvStop, BcExtAdvDelete} \<inter> set (drop (length (bc_calls demo_bcast)) (bc_calls s')) = {}" by blast
  with c show ?thesis by (auto simp: demo_bcast_def)
qed

theorem amplifiers_exclusive_witness:
  "\<exists>r pins. init_pa_lna (\<lambda>_. 0) 1 (\<lambda>_. None) = (r, pins) \<and> pins TX_EN_PIN = Some True \<and> pins RX_EN_PIN = Some False"
proof -
  obtain r pins where p: "init_pa_lna (\<lambda>_. 0) 1 (\<lambda>_. None) = (r, pins)" by fastforce
  then have "r = 0" by (auto simp: init_pa_lna_def split: if_splits)
  with amplifiers_exclusive [OF p] p show ?thesis by auto
qed

end
