(* ===== verification/NusThroughput.thy ===== *)
theory NusThroughput
  imports BleUart Throughput
begin

text \<open>
  The throughput test over the Nordic UART service
  (\<open>app/ble/throughput_nus/central_uart_throughput/src/main.c\<close> and
  \<open>peripheral_uart_throughput/src/main.c\<close>): the meter of the received bytes, the sender of the central,
  which tries until enough packets were accepted, the sender of the peripheral, which also waits until
  they were sent, the central's connection, and the UART of both, which is the bridge's of theory
  BleUart without the thread that empties it.

  The stack's calls are elements of the trace, with the environment's answer for the n-th call.
\<close>

section \<open>The meter\<close>

definition THROUGHPUT_PACKETS_TO_SEND :: nat where "THROUGHPUT_PACKETS_TO_SEND = 1000"
definition NUMBER_THROUGHPUT_TESTS :: nat where "NUMBER_THROUGHPUT_TESTS = 10"
definition THROUGH_PACKET_SIZE :: nat where "THROUGH_PACKET_SIZE = 244"
definition RECV_THRESHOLD_CNT :: nat where "RECV_THRESHOLD_CNT = 100"
definition RECV_THRESHOLD :: nat where "RECV_THRESHOLD = THROUGH_PACKET_SIZE * RECV_THRESHOLD_CNT"
definition NUM_SPEED_CACULATIONS :: nat where
  "NUM_SPEED_CACULATIONS = THROUGHPUT_PACKETS_TO_SEND div RECV_THRESHOLD_CNT"

lemmas nus_consts = THROUGHPUT_PACKETS_TO_SEND_def NUMBER_THROUGHPUT_TESTS_def THROUGH_PACKET_SIZE_def
  RECV_THRESHOLD_CNT_def RECV_THRESHOLD_def NUM_SPEED_CACULATIONS_def

text \<open>An entry of the log: the time, the bytes so far, and the speed when it is printed.\<close>

record nus_meter =
  bytes_received :: u64
  pre_timestamp :: u32
  cur_timestamp :: u32
  calculation_cnt :: u32
  meter_log :: "(u32 \<times> u32 \<times> u32 option) list"

definition nus_meter_init :: nus_meter where
  "nus_meter_init = \<lparr>bytes_received = 0, pre_timestamp = 0, cur_timestamp = 0, calculation_cnt = 0, meter_log = []\<rparr>"

definition recv_data_process :: "u32 \<Rightarrow> u16 \<Rightarrow> nus_meter \<Rightarrow> nus_meter option" where
  "recv_data_process now len s =
     (let s1 = s\<lparr>bytes_received := bytes_received s + ucast len\<rparr> in
      if bytes_received s1 mod of_nat RECV_THRESHOLD = 0
      then
        (let cnt = calculation_cnt s1 + 1;
             time_diff = now - pre_timestamp s1;
             s2 = s1\<lparr>calculation_cnt := cnt, cur_timestamp := now, pre_timestamp := now\<rparr>
         in if cnt mod of_nat NUM_SPEED_CACULATIONS \<noteq> 1
            then (if time_diff = 0 then None
                  else Some (s2\<lparr>meter_log := meter_log s2 @
                         [(now, ucast (bytes_received s2), Some (of_nat (RECV_THRESHOLD * 8) div time_diff))]\<rparr>))
            else Some (s2\<lparr>meter_log := meter_log s2 @ [(now, ucast (bytes_received s2), None)]\<rparr>))
      else Some s1)"

section \<open>The central's sender\<close>

text \<open>
  \<open>ret i\<close> is the result of the i-th write. The loop has no bound of its own: the result is the number of
  writes it made, and \<open>None\<close> when it never ends.
\<close>

partial_function (option) send_until :: "(nat \<Rightarrow> int) \<Rightarrow> nat \<Rightarrow> u32 \<Rightarrow> nat option" where
  "send_until ret i send_count =
     (if send_count < of_nat THROUGHPUT_PACKETS_TO_SEND
      then send_until ret (i + 1) (if ret i \<noteq> 0 then send_count else send_count + 1)
      else Some i)"

datatype send_rate = Rate u32 | DivideByZero

text \<open>\<open>clock n\<close> is the time after n writes.\<close>

definition central_data_send :: "(nat \<Rightarrow> int) \<Rightarrow> (nat \<Rightarrow> u32) \<Rightarrow> (nat \<times> send_rate) option" where
  "central_data_send ret clock =
     map_option (\<lambda>n. let elapsed = clock n - clock 0 in
         (n, if elapsed = 0 then DivideByZero
             else Rate (of_nat (THROUGHPUT_PACKETS_TO_SEND * THROUGH_PACKET_SIZE * 8) div elapsed)))
       (send_until ret 0 0)"

text \<open>The averages the thread prints in one round of tests.\<close>

fun average_rates :: "nat \<Rightarrow> u64 \<Rightarrow> u32 list \<Rightarrow> u32 list" where
  "average_rates k acc [] = []"
| "average_rates k acc (r # rs) =
     (if k < NUMBER_THROUGHPUT_TESTS
      then (let acc' = acc + ucast r in ucast (acc' div of_nat (k + 1)) # average_rates (k + 1) acc' rs)
      else [])"

section \<open>The peripheral's sender\<close>

text \<open>
  The stack confirms a packet some time after it accepted it, also between any two statements of the
  sender; \<open>ps_queued\<close> is the number of packets it still has.
\<close>

datatype send_point = AtSend | AtCount bool | AtCheck | AtSleep | AtDrain | AtEnd

record psender =
  ps_point :: send_point
  ps_send_count :: u32
  ps_sent_cnt :: u32
  ps_queued :: nat

definition ps_start :: psender where
  "ps_start = \<lparr>ps_point = AtSend, ps_send_count = 0, ps_sent_cnt = 0, ps_queued = 0\<rparr>"

inductive ps_step :: "nat \<Rightarrow> psender \<Rightarrow> psender \<Rightarrow> bool" for tx_bufs :: nat where
  bt_sent_cb: "0 < ps_queued s \<Longrightarrow>
     ps_step tx_bufs s (s\<lparr>ps_queued := ps_queued s - 1, ps_sent_cnt := ps_sent_cnt s + 1\<rparr>)"
| send_ok: "ps_point s = AtSend \<Longrightarrow> ps_send_count s < of_nat THROUGHPUT_PACKETS_TO_SEND \<Longrightarrow>
     ps_step tx_bufs s (s\<lparr>ps_point := AtCount True, ps_queued := ps_queued s + 1\<rparr>)"
| send_err: "ps_point s = AtSend \<Longrightarrow> ps_send_count s < of_nat THROUGHPUT_PACKETS_TO_SEND \<Longrightarrow>
     ps_step tx_bufs s (s\<lparr>ps_point := AtCount False\<rparr>)"
| count: "ps_point s = AtCount ok \<Longrightarrow>
     ps_step tx_bufs s (s\<lparr>ps_point := AtCheck, ps_send_count := (if ok then ps_send_count s + 1 else ps_send_count s)\<rparr>)"
| check: "ps_point s = AtCheck \<Longrightarrow>
     ps_step tx_bufs s (s\<lparr>ps_point := (if of_nat tx_bufs < ps_send_count s - ps_sent_cnt s then AtSleep else AtSend)\<rparr>)"
| wake: "ps_point s = AtSleep \<Longrightarrow> ps_step tx_bufs s (s\<lparr>ps_point := AtSend\<rparr>)"
| all_sent: "ps_point s = AtSend \<Longrightarrow> \<not> ps_send_count s < of_nat THROUGHPUT_PACKETS_TO_SEND \<Longrightarrow>
     ps_step tx_bufs s (s\<lparr>ps_point := AtDrain\<rparr>)"
| drain: "ps_point s = AtDrain \<Longrightarrow> ps_sent_cnt s < of_nat THROUGHPUT_PACKETS_TO_SEND \<Longrightarrow> ps_step tx_bufs s s"
| finish: "ps_point s = AtDrain \<Longrightarrow> \<not> ps_sent_cnt s < of_nat THROUGHPUT_PACKETS_TO_SEND \<Longrightarrow>
     ps_step tx_bufs s (s\<lparr>ps_point := AtEnd\<rparr>)"

inductive ps_reach :: "nat \<Rightarrow> psender \<Rightarrow> bool" for tx_bufs :: nat where
  ps_init: "ps_reach tx_bufs ps_start"
| ps_next: "ps_reach tx_bufs s \<Longrightarrow> ps_step tx_bufs s s' \<Longrightarrow> ps_reach tx_bufs s'"

inductive_cases ps_stepE: "ps_step tx_bufs s s'"

section \<open>Connections and parameters\<close>

datatype nus_call =
    NcScanStart | NcScanStop | NcScanInit | NcScanFilterAdd | NcScanFilterEnable
  | NcExchangeMtu ptr | NcSetSecurity ptr | NcDmStart ptr | NcHandlesAssign | NcSubscribe | NcDmRelease
  | NcWorkInit | NcWorkReschedule nat | NcLogScanStopFailed | NcLed bool
  | NcPasskeyConfirm ptr | NcAuthCancel ptr | NcPairingConfirm ptr | NcSemGive | NcAdvStart
  | NcPhyUpdate ptr phy_param | NcDataLenUpdate ptr data_len_param | NcParamUpdate ptr le_conn_param
  | NcNusInit | NcAuthCbRegister | NcBtEnable | NcSettingsLoad | NcConnCbRegister | NcUartInit

record nusapp =
  na_conn :: ptr
  na_auth_conn :: ptr
  na_refs :: "ptr \<Rightarrow> int"
  na_data_length_req :: bool
  na_throughput_sem :: bool
  na_calls :: "nus_call list"

record nus_env =
  na_ret :: "nat \<Rightarrow> int"
  na_info :: "ptr \<Rightarrow> conn_info option"
  na_info_err :: int

definition ncall :: "nus_env \<Rightarrow> nus_call \<Rightarrow> nusapp \<Rightarrow> int \<times> nusapp" where
  "ncall e c s = (na_ret e (length (na_calls s)), s\<lparr>na_calls := na_calls s @ [c]\<rparr>)"

definition na_do :: "nus_call \<Rightarrow> nusapp \<Rightarrow> nusapp" where
  "na_do c s = s\<lparr>na_calls := na_calls s @ [c]\<rparr>"

definition KEY_THROUGHPUT_SEND :: u32 where "KEY_THROUGHPUT_SEND = 4"
definition KEY_UPDATE_BLE_PARAMS :: u32 where "KEY_UPDATE_BLE_PARAMS = 8"

definition central_button_changed :: "u32 \<Rightarrow> u32 \<Rightarrow> nusapp \<Rightarrow> nusapp" where
  "central_button_changed button_state has_changed s =
     (let buttons = and button_state has_changed;
          s1 = (if and buttons KEY_UPDATE_BLE_PARAMS \<noteq> 0 then na_do (NcWorkReschedule 10) s else s)
      in if and buttons KEY_THROUGHPUT_SEND \<noteq> 0 then s1\<lparr>na_throughput_sem := True\<rparr> else s1)"

definition gatt_discover :: "ptr \<Rightarrow> nusapp \<Rightarrow> nusapp" where
  "gatt_discover conn s = (if conn \<noteq> na_conn s then s else na_do (NcDmStart conn) s)"

definition central_discovery_complete :: "nusapp \<Rightarrow> nusapp" where
  "central_discovery_complete s = na_do NcDmRelease (na_do NcSubscribe (na_do NcHandlesAssign s))"

definition central_scan_connecting :: "ptr \<Rightarrow> nusapp \<Rightarrow> nusapp" where
  "central_scan_connecting conn s = s\<lparr>na_conn := conn, na_refs := (na_refs s)(conn := na_refs s conn + 1)\<rparr>"

definition drop_conn :: "nusapp \<Rightarrow> nusapp" where
  "drop_conn s = s\<lparr>na_refs := (na_refs s)(na_conn s := na_refs s (na_conn s) - 1), na_conn := 0\<rparr>"

text \<open>The log message after \<open>bt_scan_stop\<close> is a call: its condition is the code's.\<close>

definition central_connected :: "nus_env \<Rightarrow> ptr \<Rightarrow> u8 \<Rightarrow> nusapp \<Rightarrow> nusapp" where
  "central_connected e conn conn_err s =
     (if conn_err \<noteq> 0
      then (if na_conn s = conn then na_do NcScanStart (drop_conn s) else s)
      else
        (let s1 = na_do (NcExchangeMtu conn) s;
             (err, s2) = ncall e (NcSetSecurity conn) s1;
             s3 = (if err \<noteq> 0 then gatt_discover conn s2 else s2);
             s4 = na_do NcWorkInit (gatt_discover conn s3);
             (err', s5) = ncall e NcScanStop s4
         in if err' = 0 \<and> err' \<noteq> - EALREADY then na_do NcLogScanStopFailed s5 else s5))"

definition central_disconnected :: "ptr \<Rightarrow> nusapp \<Rightarrow> nusapp" where
  "central_disconnected conn s = (if na_conn s \<noteq> conn then s else na_do NcScanStart (drop_conn s))"

definition central_security_changed :: "ptr \<Rightarrow> nusapp \<Rightarrow> nusapp" where
  "central_security_changed conn s = gatt_discover conn s"

definition nus_data_length_updated :: "nusapp \<Rightarrow> nusapp" where
  "nus_data_length_updated s = s\<lparr>na_data_length_req := False\<rparr>"

text \<open>The parameters the work item asks for.\<close>

definition nus_phy_param :: phy_param where
  "nus_phy_param = \<lparr>phy_options = 0, pref_tx_phy = BT_GAP_LE_PHY_2M, pref_rx_phy = BT_GAP_LE_PHY_2M\<rparr>"
definition nus_conn_param :: le_conn_param where
  "nus_conn_param = \<lparr>interval_min = 60, interval_max = 60, cp_latency = 0, cp_timeout = 400\<rparr>"
definition nus_data_len :: data_len_param where
  "nus_data_len = \<lparr>tx_max_len = BT_GAP_DATA_LEN_MAX, tx_max_time = BT_GAP_DATA_TIME_MAX\<rparr>"

definition nus_configuration_set :: "nus_env \<Rightarrow> le_conn_param \<Rightarrow> phy_param \<Rightarrow> data_len_param \<Rightarrow> nusapp \<Rightarrow> int \<times> nusapp" where
  "nus_configuration_set e cp phy dl s =
     (case na_info e (na_conn s) of
        None \<Rightarrow> (na_info_err e, s)
      | Some i \<Rightarrow>
          (let (err, s1) = ncall e (NcPhyUpdate (na_conn s) phy) s in
           if err \<noteq> 0 then (err, s1)
           else
             (let (err2, s2) = (if info_tx_max_len i \<noteq> tx_max_len dl
                then ncall e (NcDataLenUpdate (na_conn s) dl) (s1\<lparr>na_data_length_req := True\<rparr>) else (0, s1))
              in if err2 \<noteq> 0 then (err2, s2)
                 else if info_interval i \<noteq> interval_max cp then ncall e (NcParamUpdate (na_conn s) cp) s2 else (0, s2))))"

definition ble_params_update_work :: "nus_env \<Rightarrow> nusapp \<Rightarrow> nusapp" where
  "ble_params_update_work e s = snd (nus_configuration_set e nus_conn_param nus_phy_param nus_data_len s)"

definition central_scan_init :: "nus_env \<Rightarrow> nusapp \<Rightarrow> int \<times> nusapp" where
  "central_scan_init e s =
     (let (err, s1) = ncall e NcScanFilterAdd (na_do NcScanInit s) in
      if err \<noteq> 0 then (err, s1) else ncall e NcScanFilterEnable s1)"

definition nus_client_init :: "nus_env \<Rightarrow> nusapp \<Rightarrow> int \<times> nusapp" where
  "nus_client_init e s = ncall e NcNusInit s"

text \<open>\<open>main\<close>: the modules in their order, up to the first error, then the first scan.\<close>

definition central_main :: "nus_env \<Rightarrow> bool \<Rightarrow> nusapp \<Rightarrow> nusapp" where
  "central_main e settings s =
     (let (err, s1) = ncall e NcAuthCbRegister s in
      if err \<noteq> 0 then s1
      else let (err, s2) = ncall e NcBtEnable s1 in
        if err \<noteq> 0 then s2
        else let s3 = na_do NcConnCbRegister (if settings then na_do NcSettingsLoad s2 else s2);
                 (err, s4) = ncall e NcUartInit s3
             in if err \<noteq> 0 then s4
                else let (err, s5) = central_scan_init e s4 in
                  if err \<noteq> 0 then s5
                  else let (err, s6) = nus_client_init e s5 in
                    if err \<noteq> 0 then s6 else na_do NcScanStart s6)"

section \<open>The peripheral's connections\<close>

definition peripheral_connected :: "ptr \<Rightarrow> u8 \<Rightarrow> nusapp \<Rightarrow> nusapp" where
  "peripheral_connected conn err s =
     (if err \<noteq> 0 then s
      else na_do NcWorkInit (na_do (NcLed True) (s\<lparr>na_conn := conn, na_refs := (na_refs s)(conn := na_refs s conn + 1)\<rparr>)))"

definition drop_auth :: "nusapp \<Rightarrow> nusapp" where
  "drop_auth s = s\<lparr>na_refs := (na_refs s)(na_auth_conn s := na_refs s (na_auth_conn s) - 1), na_auth_conn := 0\<rparr>"

definition peripheral_disconnected :: "nusapp \<Rightarrow> nusapp" where
  "peripheral_disconnected s =
     (let s1 = (if na_auth_conn s \<noteq> 0 then drop_auth s else s) in
      if na_conn s1 \<noteq> 0 then na_do (NcLed False) (drop_conn s1) else s1)"

definition peripheral_passkey_confirm :: "ptr \<Rightarrow> nusapp \<Rightarrow> nusapp" where
  "peripheral_passkey_confirm conn s = s\<lparr>na_auth_conn := conn, na_refs := (na_refs s)(conn := na_refs s conn + 1)\<rparr>"

definition peripheral_pairing_confirm :: "ptr \<Rightarrow> nusapp \<Rightarrow> nusapp" where
  "peripheral_pairing_confirm conn s = na_do (NcPairingConfirm conn) s"

text \<open>The stack uses the connection it is to confirm or cancel, so a null one is undefined.\<close>

definition peripheral_comp_reply :: "bool \<Rightarrow> nusapp \<Rightarrow> nusapp option" where
  "peripheral_comp_reply accept s =
     (if na_auth_conn s = 0 then None
      else Some (drop_auth (na_do (if accept then NcPasskeyConfirm (na_auth_conn s) else NcAuthCancel (na_auth_conn s)) s)))"

definition peripheral_button_changed :: "u32 \<Rightarrow> u32 \<Rightarrow> nusapp \<Rightarrow> nusapp option" where
  "peripheral_button_changed button_state has_changed s =
     (let buttons = and button_state has_changed in
      map_option
        (\<lambda>s1. let s2 = (if and buttons KEY_THROUGHPUT_SEND \<noteq> 0 then s1\<lparr>na_throughput_sem := True\<rparr> else s1) in
           if and buttons KEY_UPDATE_BLE_PARAMS \<noteq> 0 then na_do (NcWorkReschedule 10) s2 else s2)
        (if na_auth_conn s \<noteq> 0
         then Option.bind
                (if and buttons KEY_PASSKEY_ACCEPT \<noteq> 0 then peripheral_comp_reply True s else Some s)
                (\<lambda>s1. if and buttons KEY_PASSKEY_REJECT \<noteq> 0 then peripheral_comp_reply False s1 else Some s1)
         else Some s))"

text \<open>\<open>main\<close> up to its blinking loop; a failed start spins for ever (\<open>error\<close>).\<close>

datatype main_state = MainBlinking nusapp | MainSpinning nusapp | MainReturned nusapp

definition peripheral_main :: "nus_env \<Rightarrow> bool \<Rightarrow> bool \<Rightarrow> nusapp \<Rightarrow> main_state" where
  "peripheral_main e security settings s =
     (let (err, s1) = ncall e NcUartInit s in
      if err \<noteq> 0 then MainSpinning s1
      else
        (let s2 = na_do NcConnCbRegister s1;
             s3 = (if security then na_do NcAuthCbRegister s2 else s2);
             (err, s4) = ncall e NcBtEnable s3
         in if err \<noteq> 0 then MainSpinning s4
            else
              (let s5 = na_do NcSemGive s4;
                   s6 = (if settings then na_do NcSettingsLoad s5 else s5);
                   (err, s7) = ncall e NcNusInit s6
               in if err \<noteq> 0 then MainReturned s7 else MainBlinking (snd (ncall e NcAdvStart s7)))))"

section \<open>The UART of both programs\<close>

text \<open>
  The callback and the work handler are those of the bridge, with the central's buffer size and timeout
  and with the peripheral's from its configuration. Nothing takes what they queue for the peer.
\<close>

definition central_uart :: "'d bridge_env \<Rightarrow> 'd bridge_env" where
  "central_uart e = e\<lparr>UART_BUF_SIZE := 20, UART_WAIT_FOR_RX := 50\<rparr>"

definition central_uart_cb :: "'d bridge_env \<Rightarrow> uart_event \<Rightarrow> 'd bridge \<Rightarrow> 'd bridge option" where
  "central_uart_cb e = uart_cb (central_uart e)"

definition central_uart_work_handler :: "'d bridge_env \<Rightarrow> 'd bridge \<Rightarrow> 'd bridge" where
  "central_uart_work_handler e = uart_work_handler (central_uart e)"

definition peripheral_uart_cb :: "'d bridge_env \<Rightarrow> uart_event \<Rightarrow> 'd bridge \<Rightarrow> 'd bridge option" where
  "peripheral_uart_cb e = uart_cb e"

definition peripheral_uart_work_handler :: "'d bridge_env \<Rightarrow> 'd bridge \<Rightarrow> 'd bridge" where
  "peripheral_uart_work_handler e = uart_work_handler e"

section \<open>The central's sender ends with its thousandth success\<close>

definition successes :: "(nat \<Rightarrow> int) \<Rightarrow> nat \<Rightarrow> nat \<Rightarrow> nat" where
  "successes ret i n = length (filter (\<lambda>j. ret j = 0) [i..<n])"

lemma successes_empty [simp]: "n \<le> i \<Longrightarrow> successes ret i n = 0"
  by (simp add: successes_def)

lemma successes_step: "i < n \<Longrightarrow> successes ret i n = (if ret i = 0 then 1 else 0) + successes ret (i + 1) n"
  by (simp add: successes_def upt_conv_Cons)

lemma u32_1000: "(c :: u32) < of_nat THROUGHPUT_PACKETS_TO_SEND \<longleftrightarrow> unat c < 1000"
  by (simp add: THROUGHPUT_PACKETS_TO_SEND_def word_less_nat_alt)

lemma u32_suc: "unat (c :: u32) < 1000 \<Longrightarrow> unat (c + 1) = unat c + 1"
  by (subst unat_plus_nowrap) simp_all

definition ends_ok :: "(nat \<Rightarrow> int) \<Rightarrow> nat \<Rightarrow> u32 \<Rightarrow> nat \<Rightarrow> bool" where
  "ends_ok ret i c n \<longleftrightarrow> (unat c \<le> 1000 \<longrightarrow>
     i \<le> n \<and> unat c + successes ret i n = 1000 \<and> (i < n \<longrightarrow> ret (n - 1) = 0))"

lemma ends_ok_done: "\<not> unat c < 1000 \<Longrightarrow> ends_ok ret i c i"
  by (auto simp: ends_ok_def)

lemma ends_ok_step:
  assumes "ends_ok ret (i + 1) (if ret i \<noteq> 0 then c else c + 1) n" "unat c < 1000"
  shows "ends_ok ret i c n"
proof -
  let ?c = "if ret i \<noteq> 0 then c else c + 1"
  have c: "unat ?c = unat c + (if ret i = 0 then 1 else 0)" using assms(2) u32_suc by simp
  from assms(1) c assms(2) have
    h: "i + 1 \<le> n" "unat ?c + successes ret (i + 1) n = 1000" "i + 1 < n \<longrightarrow> ret (n - 1) = 0"
    unfolding ends_ok_def by auto
  have "ret (n - 1) = 0"
  proof (cases "i + 1 = n")
    case True
    then have "unat ?c = 1000" using h(2) by simp
    then have "ret i = 0" using c assms(2) by (auto split: if_splits)
    with True show ?thesis by auto
  qed (use h in auto)
  then show ?thesis using h c successes_step [of i n ret] by (auto simp: ends_ok_def)
qed

lemma send_until_ends_ok:
  assumes "send_until ret i c = Some n" shows "ends_ok ret i c n"
proof (rule send_until.raw_induct [where P = ends_ok, OF _ assms])
  fix send ret i c n
  assume IH: "\<And>ret i c n. send ret i c = Some n \<Longrightarrow> ends_ok ret i c n"
    and b: "(if c < of_nat THROUGHPUT_PACKETS_TO_SEND
       then send ret (i + 1) (if ret i \<noteq> 0 then c else c + 1) else Some i) = Some n"
  show "ends_ok ret i c n"
  proof (cases "unat c < 1000")
    case True
    then have "send ret (i + 1) (if ret i \<noteq> 0 then c else c + 1) = Some n" using b by (simp add: u32_1000)
    from ends_ok_step [OF IH [OF this] True] show ?thesis .
  next
    case False
    then show ?thesis using b ends_ok_done by (auto simp: u32_1000)
  qed
qed

lemma send_until_sound:
  "send_until ret i c = Some n \<Longrightarrow> unat c \<le> 1000 \<Longrightarrow>
     i \<le> n \<and> unat c + successes ret i n = 1000 \<and> (i < n \<longrightarrow> ret (n - 1) = 0)"
  using send_until_ends_ok unfolding ends_ok_def by blast

lemma send_until_complete:
  assumes "1000 \<le> unat c + successes ret i n" "unat c \<le> 1000" "i \<le> n"
  shows "\<exists>m\<le>n. send_until ret i c = Some m"
  using assms
proof (induction "n - i" arbitrary: i c)
  case 0
  then have "unat c = 1000" by simp
  then show ?case using 0 by (intro exI [of _ i]) (simp add: send_until.simps u32_1000)
next
  case (Suc k)
  let ?c = "if ret i \<noteq> 0 then c else c + 1"
  show ?case
  proof (cases "unat c < 1000")
    case False
    then show ?thesis using Suc.prems by (intro exI [of _ i]) (simp add: send_until.simps u32_1000)
  next
    case True
    have c: "unat ?c = unat c + (if ret i = 0 then 1 else 0)" using True u32_suc by simp
    have "1000 \<le> unat ?c + successes ret (i + 1) n" "unat ?c \<le> 1000"
      using Suc.prems(1) Suc(2) c True successes_step [of i n ret] by auto
    with Suc(1) [of "i + 1" ?c] Suc(2) Suc.prems(3) have "\<exists>m\<le>n. send_until ret (i + 1) ?c = Some m" by auto
    then show ?thesis using True by (subst send_until.simps) (simp add: u32_1000)
  qed
qed

text \<open>
  C24: The central's test returns exactly when 1000 of its writes succeed at some point: then it has made the writes up to
  the thousandth success and no more, and the rate is 1952000 over the elapsed milliseconds, which divides by zero when
  none have passed. When fewer succeed, because there is no connection or it is lost, the loop never ends.
\<close>

theorem central_send_ends:
  "(central_data_send ret clock \<noteq> None \<longleftrightarrow> (\<exists>n. successes ret 0 n = 1000))
   \<and> (central_data_send ret clock = Some (n, r) \<longrightarrow> successes ret 0 n = 1000 \<and> ret (n - 1) = 0
        \<and> r = (if clock n - clock 0 = 0 then DivideByZero else Rate (1952000 div (clock n - clock 0))))"
proof -
  have "(\<exists>m. send_until ret 0 0 = Some m) \<longleftrightarrow> (\<exists>n. successes ret 0 n = 1000)"
  proof
    assume "\<exists>m. send_until ret 0 0 = Some m"
    then obtain m where "send_until ret 0 0 = Some m" ..
    from send_until_sound [OF this] show "\<exists>n. successes ret 0 n = 1000" by auto
  next
    assume "\<exists>n. successes ret 0 n = 1000"
    then obtain n where "successes ret 0 n = 1000" ..
    with send_until_complete [of 0 ret 0 n] show "\<exists>m. send_until ret 0 0 = Some m" by auto
  qed
  moreover have pos: "0 < n" if "successes ret 0 n = 1000" for n using that by (cases n) auto
  moreover have "central_data_send ret clock \<noteq> None \<longleftrightarrow> (\<exists>m. send_until ret 0 0 = Some m)"
    by (auto simp: central_data_send_def)
  moreover have "successes ret 0 n = 1000 \<and> ret (n - 1) = 0
        \<and> r = (if clock n - clock 0 = 0 then DivideByZero else Rate (1952000 div (clock n - clock 0)))"
    if "central_data_send ret clock = Some (n, r)"
  proof -
    have s: "send_until ret 0 0 = Some n"
      "r = (if clock n - clock 0 = 0 then DivideByZero else Rate (1952000 div (clock n - clock 0)))"
      using that by (auto simp: central_data_send_def Let_def nus_consts)
    from send_until_sound [OF s(1)] have "successes ret 0 n = 1000" "0 < n \<longrightarrow> ret (n - 1) = 0" by auto
    with pos s(2) show ?thesis by blast
  qed
  ultimately show ?thesis by blast
qed

theorem central_send_ends_witness:
  "central_data_send (\<lambda>i. if i < 500 then 0 else -128) (\<lambda>_. 0) = None
   \<and> (\<exists>n r. central_data_send (\<lambda>i. 0) (\<lambda>i. of_nat i) = Some (n, r) \<and> successes (\<lambda>_. 0) 0 n = 1000)"
proof -
  have le: "successes (\<lambda>i. if i < 500 then 0 else -128) 0 n \<le> 500" for n
  proof -
    have "distinct (filter (\<lambda>j. (if j < 500 then 0 else - 128 :: int) = 0) [0..<n])" by simp
    then have "successes (\<lambda>i. if i < 500 then 0 else -128) 0 n
        = card (set (filter (\<lambda>j. (if j < 500 then 0 else - 128 :: int) = 0) [0..<n]))"
      unfolding successes_def by (rule distinct_card [symmetric])
    also have "\<dots> \<le> card {0..<500 :: nat}" by (rule card_mono) (auto split: if_splits)
    finally show ?thesis by simp
  qed
  have "\<not> (\<exists>n. successes (\<lambda>i. if i < 500 then 0 else -128) 0 n = 1000)"
  proof
    assume "\<exists>n. successes (\<lambda>i. if i < 500 then 0 else -128) 0 n = 1000"
    then obtain n where "successes (\<lambda>i. if i < 500 then 0 else -128) 0 n = 1000" ..
    with le [of n] show False by simp
  qed
  then have 1: "central_data_send (\<lambda>i. if i < 500 then 0 else -128) (\<lambda>_. 0) = None"
    using central_send_ends [of "\<lambda>i. if i < 500 then 0 else -128" "\<lambda>_. 0"] by blast
  have "successes (\<lambda>_. 0) 0 1000 = 1000" by (simp add: successes_def)
  then have "central_data_send (\<lambda>i. 0) (\<lambda>i. of_nat i) \<noteq> None"
    using central_send_ends [of "\<lambda>_. 0" "\<lambda>i. of_nat i"] by blast
  then obtain n r where "central_data_send (\<lambda>i. 0) (\<lambda>i. of_nat i) = Some (n, r)" by fastforce
  then show ?thesis using 1 central_send_ends [of "\<lambda>_. 0" "\<lambda>i. of_nat i" n r] by blast
qed

section \<open>The peripheral's sender counts what is outstanding\<close>

definition ps_inv :: "psender \<Rightarrow> bool" where
  "ps_inv s \<longleftrightarrow> unat (ps_send_count s) + (if ps_point s = AtCount True then 1 else 0) = unat (ps_sent_cnt s) + ps_queued s
     \<and> unat (ps_send_count s) \<le> 1000
     \<and> (\<forall>ok. ps_point s = AtCount ok \<longrightarrow> unat (ps_send_count s) < 1000)
     \<and> (ps_point s \<in> {AtDrain, AtEnd} \<longrightarrow> unat (ps_send_count s) = 1000)
     \<and> (ps_point s = AtEnd \<longrightarrow> unat (ps_sent_cnt s) = 1000)"

lemma ps_step_inv:
  assumes "ps_step n s s'" "ps_inv s" shows "ps_inv s'"
  using assms(1)
proof (cases rule: ps_step.cases)
  case bt_sent_cb
  have "unat (ps_sent_cnt s) + ps_queued s \<le> 1001" using assms(2) by (auto simp: ps_inv_def split: if_splits)
  then have "unat (ps_sent_cnt s + 1) = unat (ps_sent_cnt s) + 1"
    using bt_sent_cb by (subst unat_plus_nowrap) simp_all
  then show ?thesis using assms(2) bt_sent_cb by (auto simp: ps_inv_def)
next
  case (count ok)
  then show ?thesis using assms(2) u32_suc by (auto simp: ps_inv_def)
next
  case finish
  then show ?thesis using assms(2) by (auto simp: ps_inv_def u32_1000)
qed (use assms(2) in \<open>auto simp: ps_inv_def u32_1000\<close>)

lemma ps_reach_inv: "ps_reach n s \<Longrightarrow> ps_inv s"
proof (induction rule: ps_reach.induct)
  case ps_init
  show ?case by (simp add: ps_inv_def ps_start_def)
qed (rule ps_step_inv)

text \<open>
  However the confirmations interleave with the sender's statements, at its check the unsigned difference of the two
  counters is the number of packets the stack still has, so it never wraps; and when the test ends exactly 1000 packets
  were accepted, all of them were confirmed and none is left.
\<close>

theorem peripheral_sender_counts:
  assumes "ps_reach n s"
  shows "(ps_point s = AtCheck \<longrightarrow> unat (ps_send_count s - ps_sent_cnt s) = ps_queued s)
     \<and> (ps_point s = AtEnd \<longrightarrow> ps_send_count s = 1000 \<and> ps_sent_cnt s = 1000 \<and> ps_queued s = 0)"
proof -
  have i: "ps_inv s" by (rule ps_reach_inv [OF assms])
  have "unat (ps_send_count s - ps_sent_cnt s) = ps_queued s" if "ps_point s = AtCheck"
    using i that by (subst unat_minus_le) (auto simp: ps_inv_def word_le_nat_alt)
  moreover have "w = 1000" if "unat (w :: u32) = 1000" for w using that by (simp add: word_unat_eq_iff)
  ultimately show ?thesis using i by (auto simp: ps_inv_def)
qed

theorem peripheral_sender_counts_witness:
  "\<exists>s. ps_reach 10 s \<and> ps_point s = AtCheck \<and> unat (ps_send_count s - ps_sent_cnt s) = 0 \<and> ps_send_count s = 1"
proof -
  define s1 where "s1 = ps_start\<lparr>ps_point := AtCount True, ps_queued := 1\<rparr>"
  define s2 where "s2 = s1\<lparr>ps_queued := 0, ps_sent_cnt := 1\<rparr>"
  define s3 where "s3 = s2\<lparr>ps_point := AtCheck, ps_send_count := 1\<rparr>"
  have "ps_step 10 ps_start s1"
    using send_ok [of ps_start 10] by (simp add: s1_def ps_start_def u32_1000)
  moreover have "ps_step 10 s1 s2" using bt_sent_cb [of s1 10] by (simp add: s1_def s2_def ps_start_def)
  moreover have "ps_step 10 s2 s3" using count [of s2 True 10] by (simp add: s1_def s2_def s3_def ps_start_def)
  ultimately have r: "ps_reach 10 s3" by (meson ps_init ps_next)
  moreover have "ps_point s3 = AtCheck" "ps_queued s3 = 0" "ps_send_count s3 = 1" by (simp_all add: s3_def s2_def)
  ultimately show ?thesis using peripheral_sender_counts [OF r] by auto
qed

section \<open>The central's connection\<close>

datatype central_event = CScanConnecting ptr | CConnected ptr u8 | CDisconnected ptr | CSecurity ptr | CButtons u32 u32 | CParams

fun central_step :: "nus_env \<Rightarrow> central_event \<Rightarrow> nusapp \<Rightarrow> nusapp option" where
  "central_step e (CScanConnecting c) s = Some (central_scan_connecting c s)"
| "central_step e (CConnected c err) s = Some (central_connected e c err s)"
| "central_step e (CDisconnected c) s = Some (central_disconnected c s)"
| "central_step e (CSecurity c) s = Some (central_security_changed c s)"
| "central_step e (CButtons st ch) s = Some (central_button_changed st ch s)"
| "central_step e CParams s = Some (ble_params_update_work e s)"

text \<open>The scanner connects only while no connection is held, and tells of no null connection.\<close>

fun central_ok :: "central_event \<Rightarrow> nusapp \<Rightarrow> bool" where
  "central_ok (CScanConnecting c) s = (c \<noteq> 0 \<and> na_conn s = 0)"
| "central_ok (CConnected c err) s = (c \<noteq> 0 \<and> c = na_conn s)"
| "central_ok (CDisconnected c) s = (c \<noteq> 0)"
| "central_ok (CSecurity c) s = (c \<noteq> 0)"
| "central_ok _ s = True"

definition scan_cmds :: "nusapp \<Rightarrow> nus_call list" where
  "scan_cmds s = filter (\<lambda>c. c = NcScanStart \<or> c = NcScanStop) (na_calls s)"

definition central_inv :: "nusapp \<Rightarrow> bool" where
  "central_inv s \<longleftrightarrow> (\<forall>c. na_refs s c = (if c \<noteq> 0 \<and> na_conn s = c then 1 else 0))
     \<and> (na_conn s = 0 \<longrightarrow> scan_cmds s \<noteq> [] \<and> last (scan_cmds s) = NcScanStart)"

lemma na_do_frame [simp]: "na_conn (na_do c s) = na_conn s" "na_refs (na_do c s) = na_refs s"
  "na_calls (na_do c s) = na_calls s @ [c]"
  by (simp_all add: na_do_def)

lemma ncall_frame [simp]: "na_conn (snd (ncall e c s)) = na_conn s" "na_refs (snd (ncall e c s)) = na_refs s"
  "na_calls (snd (ncall e c s)) = na_calls s @ [c]"
  by (simp_all add: ncall_def)

lemma gatt_discover_frame [simp]: "na_conn (gatt_discover c s) = na_conn s" "na_refs (gatt_discover c s) = na_refs s"
  "scan_cmds (gatt_discover c s) = scan_cmds s"
  by (simp_all add: gatt_discover_def scan_cmds_def)

lemma configuration_frame:
  "na_conn (snd (nus_configuration_set e cp phy dl s)) = na_conn s
   \<and> na_refs (snd (nus_configuration_set e cp phy dl s)) = na_refs s
   \<and> scan_cmds (snd (nus_configuration_set e cp phy dl s)) = scan_cmds s"
  by (simp add: nus_configuration_set_def Let_def split_beta scan_cmds_def ncall_def split: option.splits)

lemma central_step_inv:
  assumes "central_inv s" "central_ok ev s" shows "\<exists>s'. central_step e ev s = Some s' \<and> central_inv s'"
proof (cases ev)
  case (CScanConnecting c)
  then show ?thesis using assms by (auto simp: central_inv_def central_scan_connecting_def)
next
  case (CConnected c err)
  then show ?thesis using assms
    by (auto simp: central_inv_def central_connected_def drop_conn_def Let_def split_beta scan_cmds_def)
next
  case (CDisconnected c)
  then show ?thesis using assms
    by (auto simp: central_inv_def central_disconnected_def drop_conn_def scan_cmds_def)
next
  case (CSecurity c)
  then show ?thesis using assms by (simp add: central_inv_def central_security_changed_def)
next
  case (CButtons st ch)
  then show ?thesis using assms by (simp add: central_inv_def central_button_changed_def Let_def scan_cmds_def)
next
  case CParams
  then show ?thesis using assms configuration_frame by (simp add: central_inv_def ble_params_update_work_def)
qed

interpretation central_conns: machine "central_step e" central_ok central_inv
  by unfold_locales (rule central_step_inv)

text \<open>
  From the first scan on, for any order of connections, failures, disconnections, security changes, button reports and
  parameter updates, the central holds exactly one reference to the connection it stores and none to any other, and
  whenever it stores none it is scanning: its last scan command was to start.
\<close>

theorem central_holds_or_scans:
  assumes "run_ok (central_step e) central_ok evs s" "na_conn s = 0" "\<forall>c. na_refs s c = 0" "na_calls s = calls @ [NcScanStart]"
  shows "\<exists>s'. run (central_step e) evs s = Some s' \<and> (\<forall>c. na_refs s' c = (if c \<noteq> 0 \<and> na_conn s' = c then 1 else 0))
     \<and> (na_conn s' = 0 \<longrightarrow> scan_cmds s' \<noteq> [] \<and> last (scan_cmds s') = NcScanStart)"
proof -
  have "central_inv s" using assms(2-4) by (auto simp: central_inv_def scan_cmds_def)
  from central_conns.run_inv [OF this assms(1)] show ?thesis by (auto simp: central_inv_def)
qed

definition demo_nusapp :: nusapp where
  "demo_nusapp = \<lparr>na_conn = 0, na_auth_conn = 0, na_refs = (\<lambda>_. 0), na_data_length_req = False, na_throughput_sem = False,
     na_calls = [NcScanStart]\<rparr>"

definition demo_nus_env :: nus_env where
  "demo_nus_env = \<lparr>na_ret = (\<lambda>_. 0), na_info = (\<lambda>_. None), na_info_err = -128\<rparr>"

theorem central_holds_or_scans_witness:
  "\<exists>s'. run (central_step demo_nus_env) [CScanConnecting 5, CConnected 5 0, CParams, CDisconnected 5] demo_nusapp = Some s'
     \<and> na_refs s' 5 = 0"
proof -
  let ?evs = "[CScanConnecting 5, CConnected 5 0, CParams, CDisconnected 5]"
  have "run_ok (central_step demo_nus_env) central_ok ?evs demo_nusapp"
    by (simp add: demo_nusapp_def demo_nus_env_def central_scan_connecting_def central_connected_def gatt_discover_def
        ncall_def na_do_def Let_def ble_params_update_work_def nus_configuration_set_def)
  moreover have "na_conn demo_nusapp = 0" "\<forall>c. na_refs demo_nusapp c = 0" "na_calls demo_nusapp = [] @ [NcScanStart]"
    by (simp_all add: demo_nusapp_def)
  ultimately obtain s' where s': "run (central_step demo_nus_env) ?evs demo_nusapp = Some s'"
    "\<forall>c. na_refs s' c = (if c \<noteq> 0 \<and> na_conn s' = c then 1 else 0)"
    using central_holds_or_scans [of demo_nus_env ?evs demo_nusapp "[]"] by blast
  have "na_conn s' = 0" using s'(1)
    by (auto simp: demo_nusapp_def demo_nus_env_def central_scan_connecting_def central_connected_def gatt_discover_def
        ncall_def na_do_def Let_def ble_params_update_work_def nus_configuration_set_def central_disconnected_def drop_conn_def)
  with s' show ?thesis by simp
qed


section \<open>The meter against its history\<close>

text \<open>The history: the time and the length of each packet. A packet is a mark when the bytes so far are a multiple of 24400.\<close>

definition bytes_of_hist :: "(u32 \<times> u16) list \<Rightarrow> nat" where
  "bytes_of_hist hist = sum_list (map (\<lambda>x. unat (snd x)) hist)"

definition marks :: "(u32 \<times> u16) list \<Rightarrow> nat list" where
  "marks hist = filter (\<lambda>k. 24400 dvd bytes_of_hist (take (k + 1) hist)) [0..<length hist]"

definition mark_time :: "(u32 \<times> u16) list \<Rightarrow> nat \<Rightarrow> u32" where
  "mark_time hist j = fst (hist ! (marks hist ! j))"

definition log_entry :: "(u32 \<times> u16) list \<Rightarrow> nat \<Rightarrow> u32 \<times> u32 \<times> u32 option" where
  "log_entry hist j =
     (mark_time hist j, of_nat (bytes_of_hist (take (marks hist ! j + 1) hist)),
      if j mod 10 = 0 then None else Some (195200 div (mark_time hist j - mark_time hist (j - 1))))"

definition times_differ :: "(u32 \<times> u16) list \<Rightarrow> bool" where
  "times_differ hist \<longleftrightarrow> (\<forall>j<length (marks hist). j mod 10 \<noteq> 0 \<longrightarrow> mark_time hist j \<noteq> mark_time hist (j - 1))"

definition meter_step :: "u32 \<times> u16 \<Rightarrow> nus_meter \<Rightarrow> nus_meter option" where
  "meter_step x s = recv_data_process (fst x) (snd x) s"

lemma marks_less: "k \<in> set (marks hist) \<Longrightarrow> k < length hist"
  by (simp add: marks_def)

lemma marks_snoc:
  "marks (hist @ [x]) = marks hist @ (if 24400 dvd bytes_of_hist (hist @ [x]) then [length hist] else [])"
proof -
  have "filter (\<lambda>k. 24400 dvd bytes_of_hist (take (k + 1) (hist @ [x]))) [0..<length hist] = marks hist"
    unfolding marks_def by (rule filter_cong) simp_all
  then show ?thesis by (simp add: marks_def)
qed

lemma mark_time_snoc: "j < length (marks hist) \<Longrightarrow> mark_time (hist @ [x]) j = mark_time hist j"
  using marks_less [of "marks hist ! j" hist] by (simp add: mark_time_def marks_snoc nth_append)

lemma log_entry_snoc: "j < length (marks hist) \<Longrightarrow> log_entry (hist @ [x]) j = log_entry hist j"
  using marks_less [of "marks hist ! j" hist] mark_time_snoc [of j hist x] mark_time_snoc [of "j - 1" hist x]
  by (auto simp: log_entry_def marks_snoc nth_append)

lemma times_differ_snoc: "times_differ (hist @ [x]) \<Longrightarrow> times_differ hist"
  unfolding times_differ_def
proof (intro allI impI)
  fix j
  assume a: "\<forall>j<length (marks (hist @ [x])). j mod 10 \<noteq> 0 \<longrightarrow> mark_time (hist @ [x]) j \<noteq> mark_time (hist @ [x]) (j - 1)"
    and j: "j < length (marks hist)" "j mod 10 \<noteq> 0"
  have "length (marks hist) \<le> length (marks (hist @ [x]))" by (simp add: marks_snoc)
  then have "mark_time (hist @ [x]) j \<noteq> mark_time (hist @ [x]) (j - 1)" using a j by (meson order_less_le_trans)
  moreover have "j - 1 < length (marks hist)" using j(1) by simp
  ultimately show "mark_time hist j \<noteq> mark_time hist (j - 1)" using j(1) mark_time_snoc by metis
qed

lemma length_marks: "length (marks hist) \<le> length hist"
  unfolding marks_def by (rule order_trans [OF length_filter_le]) simp

definition meter_inv :: "(u32 \<times> u16) list \<Rightarrow> nus_meter \<Rightarrow> bool" where
  "meter_inv hist s \<longleftrightarrow> bytes_received s = of_nat (bytes_of_hist hist) \<and> calculation_cnt s = of_nat (length (marks hist))
     \<and> (marks hist \<noteq> [] \<longrightarrow> pre_timestamp s = mark_time hist (length (marks hist) - 1))
     \<and> meter_log s = map (log_entry hist) [0..<length (marks hist)]"

lemma u64_mod: "n < 2 ^ 64 \<Longrightarrow> (of_nat n :: u64) mod 24400 = 0 \<longleftrightarrow> 24400 dvd n"
proof -
  assume "n < 2 ^ 64"
  then have "unat ((of_nat n :: u64) mod 24400) = n mod 24400"
    by (simp add: unat_mod_distrib unsigned_of_nat take_bit_nat_eq_self)
  then show ?thesis by (metis unat_eq_0 dvd_eq_mod_eq_0)
qed

lemma u32_mod_10: "n < 2 ^ 32 \<Longrightarrow> (of_nat n :: u32) mod 10 = 1 \<longleftrightarrow> n mod 10 = 1"
proof -
  assume "n < 2 ^ 32"
  then have "unat ((of_nat n :: u32) mod 10) = n mod 10" by (simp add: unat_mod_distrib unat_of_nat_u32)
  then show ?thesis by (metis unat_1 word_unat_eq_iff)
qed

lemma meter_step_inv:
  assumes "meter_inv hist s" "bytes_of_hist (hist @ [x]) < 2 ^ 64" "length (hist @ [x]) < 2 ^ 32" "times_differ (hist @ [x])"
  shows "\<exists>s'. meter_step x s = Some s' \<and> meter_inv (hist @ [x]) s'"
proof -
  let ?h = "hist @ [x]" and ?m = "length (marks hist)"
  have b: "bytes_received s + ucast (snd x) = of_nat (bytes_of_hist ?h)"
  proof -
    have "(ucast (snd x) :: u64) = of_nat (unat (snd x))" by simp
    then show ?thesis using assms(1) by (simp add: meter_inv_def bytes_of_hist_def)
  qed
  have logs: "map (log_entry ?h) [0..<?m] = meter_log s"
    using assms(1) log_entry_snoc by (auto simp: meter_inv_def)
  show ?thesis
  proof (cases "24400 dvd bytes_of_hist ?h")
    case False
    then show ?thesis using b logs assms(1,2) u64_mod [OF assms(2)] mark_time_snoc [of _ hist x]
      by (auto simp: meter_step_def recv_data_process_def nus_consts Let_def meter_inv_def marks_snoc)
  next
    case True
    have ms: "marks ?h = marks hist @ [length hist]" using True by (simp add: marks_snoc)
    have t: "mark_time ?h ?m = fst x" by (simp add: mark_time_def ms)
    have lt: "?m + 1 < 2 ^ 32" using length_marks [of hist] assms(3) by simp
    have c: "calculation_cnt s = of_nat ?m" using assms(1) by (simp add: meter_inv_def)
    have "(of_nat (?m + 1) :: u32) mod 10 = 1 \<longleftrightarrow> ?m mod 10 = 0"
      using u32_mod_10 [OF lt] by presburger
    then have m10: "(of_nat ?m + 1 :: u32) mod 10 = 1 \<longleftrightarrow> ?m mod 10 = 0" by (simp add: add.commute)
    have pre: "pre_timestamp s = mark_time ?h (?m - 1)" if "?m mod 10 \<noteq> 0"
      using assms(1) that mark_time_snoc [of "?m - 1" hist x] by (cases "marks hist") (auto simp: meter_inv_def)
    have ne: "fst x - mark_time ?h (?m - 1) \<noteq> 0" if "?m mod 10 \<noteq> 0"
      using assms(4) that t unfolding times_differ_def ms by auto
    have en: "log_entry ?h ?m = (fst x, ucast (of_nat (bytes_of_hist ?h) :: u64),
        if ?m mod 10 = 0 then None else Some (195200 div (fst x - mark_time ?h (?m - 1))))"
      by (simp add: log_entry_def t ms unsigned_ucast_eq) (simp add: word_unat_eq_iff unsigned_ucast_eq unsigned_of_nat take_bit_take_bit min_def)
    show ?thesis
    proof (cases "?m mod 10 = 0")
      case True
      then show ?thesis using b c m10 logs en t \<open>24400 dvd bytes_of_hist ?h\<close> u64_mod [OF assms(2)] ms
        by (simp add: meter_step_def recv_data_process_def nus_consts Let_def meter_inv_def add.commute [of 1])
    next
      case False
      then show ?thesis using b c m10 logs en t pre ne \<open>24400 dvd bytes_of_hist ?h\<close> u64_mod [OF assms(2)] ms
        by (simp add: meter_step_def recv_data_process_def nus_consts Let_def meter_inv_def)
    qed
  qed
qed

lemma meter_step_div0:
  assumes "meter_inv hist s" "bytes_of_hist (hist @ [x]) < 2 ^ 64" "length (hist @ [x]) < 2 ^ 32"
    "times_differ hist" "\<not> times_differ (hist @ [x])"
  shows "meter_step x s = None"
proof -
  let ?h = "hist @ [x]" and ?m = "length (marks hist)"
  obtain j where j: "j < length (marks ?h)" "j mod 10 \<noteq> 0" "mark_time ?h j = mark_time ?h (j - 1)"
    using assms(5) by (auto simp: times_differ_def)
  have nj: "\<not> j < ?m"
  proof
    assume l: "j < ?m"
    then have "j - 1 < ?m" by simp
    with l j assms(4) show False using mark_time_snoc [of j hist x] mark_time_snoc [of "j - 1" hist x] by (auto simp: times_differ_def)
  qed
  then have d: "24400 dvd bytes_of_hist ?h" using j(1) by (simp add: marks_snoc split: if_splits)
  then have ms: "marks ?h = marks hist @ [length hist]" by (simp add: marks_snoc)
  have jm: "j = ?m" using j(1) nj ms by simp
  have t: "mark_time ?h ?m = fst x" by (simp add: mark_time_def ms)
  have lt: "?m + 1 < 2 ^ 32" using length_marks [of hist] assms(3) by simp
  have "(of_nat (?m + 1) :: u32) mod 10 = 1 \<longleftrightarrow> ?m mod 10 = 0"
    using u32_mod_10 [OF lt] by presburger
  then have m10: "(of_nat ?m + 1 :: u32) mod 10 \<noteq> 1" using j(2) jm by (simp add: add.commute)
  have pre: "pre_timestamp s = fst x"
    using assms(1) j jm t mark_time_snoc [of "?m - 1" hist x] by (cases "marks hist") (auto simp: meter_inv_def)
  have "bytes_received s + ucast (snd x) = of_nat (bytes_of_hist ?h)"
  proof -
    have "(ucast (snd x) :: u64) = of_nat (unat (snd x))" by simp
    then show ?thesis using assms(1) by (simp add: meter_inv_def bytes_of_hist_def)
  qed
  moreover have "calculation_cnt s = of_nat ?m" using assms(1) by (simp add: meter_inv_def)
  ultimately show ?thesis using pre m10 d u64_mod [OF assms(2)]
    by (simp add: meter_step_def recv_data_process_def nus_consts Let_def)
qed

text \<open>
  C32: From start-up, as long as the counters of bytes and of measurements do not wrap, the meter's log is exactly the
  one read off the history, an entry for every packet at which the bytes so far are a multiple of 24400, with the time
  and the bytes, and a speed of 195200 bits over the time since the entry before, left out for the
  first of every ten; unless two such entries, the second of them with a speed, carry the same
  millisecond: exactly then the meter divides by zero.
\<close>

theorem meter_matches_history:
  assumes "bytes_of_hist hist < 2 ^ 64" "length hist < 2 ^ 32"
  shows "(times_differ hist \<longrightarrow> (\<exists>s. run meter_step hist nus_meter_init = Some s
        \<and> meter_log s = map (log_entry hist) [0..<length (marks hist)] \<and> bytes_received s = of_nat (bytes_of_hist hist)))
     \<and> (\<not> times_differ hist \<longrightarrow> run meter_step hist nus_meter_init = None)"
proof -
  have "if times_differ hist then \<exists>s. run meter_step hist nus_meter_init = Some s \<and> meter_inv hist s
      else run meter_step hist nus_meter_init = None"
    using assms
  proof (induction hist rule: rev_induct)
    case Nil
    then show ?case by (simp add: meter_inv_def nus_meter_init_def marks_def bytes_of_hist_def times_differ_def)
  next
    case (snoc x hist)
    have "bytes_of_hist hist \<le> bytes_of_hist (hist @ [x])" by (simp add: bytes_of_hist_def)
    then have IH: "if times_differ hist then \<exists>s. run meter_step hist nus_meter_init = Some s \<and> meter_inv hist s
        else run meter_step hist nus_meter_init = None" using snoc by simp
    show ?case
    proof (cases "times_differ hist")
      case True
      then obtain s where s: "run meter_step hist nus_meter_init = Some s" "meter_inv hist s" using IH by auto
      show ?thesis
        using meter_step_inv [OF s(2) snoc.prems] meter_step_div0 [OF s(2) snoc.prems True] s(1) by (auto simp: run_append)
    next
      case False
      then have "\<not> times_differ (hist @ [x])" using times_differ_snoc by blast
      with False IH show ?thesis by (simp add: run_append)
    qed
  qed
  then show ?thesis by (auto simp: meter_inv_def split: if_splits)
qed

theorem meter_matches_history_witness:
  "\<exists>s. run meter_step [(100, 24400), (150, 12200), (300, 12200)] nus_meter_init = Some s
     \<and> meter_log s = [(100, 24400, None), (300, 48800, Some 976)] \<and> run meter_step [(100, 24400), (100, 24400)] nus_meter_init = None"
proof -
  let ?g = "[(100, 24400), (100, 24400)] :: (u32 \<times> u16) list"
  have mg: "marks ?g = [0, 1]" by (simp add: marks_def bytes_of_hist_def upt_rec)
  have "mark_time ?g 1 = mark_time ?g (1 - 1)" by (simp add: mark_time_def mg)
  then have "\<not> times_differ ?g" by (auto simp: times_differ_def mg intro!: exI [of _ 1])
  moreover have "bytes_of_hist ?g < 2 ^ 64" "length ?g < 2 ^ 32" by (simp_all add: bytes_of_hist_def)
  ultimately have zero: "run meter_step ?g nus_meter_init = None" using meter_matches_history [of ?g] by blast
  let ?h = "[(100, 24400), (150, 12200), (300, 12200)] :: (u32 \<times> u16) list"
  have m: "marks ?h = [0, 2]" by (simp add: marks_def bytes_of_hist_def upt_rec)
  have "bytes_of_hist ?h < 2 ^ 64" "length ?h < 2 ^ 32" by (simp_all add: bytes_of_hist_def)
  moreover have "times_differ ?h"
    unfolding times_differ_def
  proof (intro allI impI)
    fix j
    assume "j < length (marks ?h)" "j mod 10 \<noteq> 0"
    then have "j = 1" by (auto simp: m less_2_cases_iff)
    then show "mark_time ?h j \<noteq> mark_time ?h (j - 1)" by (simp add: mark_time_def m)
  qed
  ultimately obtain s where "run meter_step ?h nus_meter_init = Some s"
    "meter_log s = map (log_entry ?h) [0..<length (marks ?h)]"
    using meter_matches_history by blast
  moreover have "map (log_entry ?h) [0..<length (marks ?h)] = [(100, 24400, None), (300, 48800, Some 976)]"
    by (simp add: m log_entry_def mark_time_def bytes_of_hist_def upt_rec)
  ultimately show ?thesis using zero by simp
qed

section \<open>Lines nobody takes\<close>

text \<open>
  One line that arrives in the receive buffer \<open>b\<close>: the driver delivers it, releases the buffer and reports
  that reception stopped. The result is the next receive buffer, 0 when there is none.
\<close>

definition line_cycle :: "'d bridge_env \<Rightarrow> u8 list \<Rightarrow> addr \<times> 'd bridge \<Rightarrow> (addr \<times> 'd bridge) option" where
  "line_cycle e line bs =
     Option.bind (deliver e (fst bs) line (snd bs)) (\<lambda>s1.
       Option.bind (peripheral_uart_cb e (UART_RX_BUF_RELEASED (data_of (fst bs))) s1) (\<lambda>s2.
         map_option (\<lambda>s3. (k_malloc e (b_heap s2), s3)) (peripheral_uart_cb e UART_RX_DISABLED s2)))"

text \<open>The heap has room for \<open>cap\<close> buffers.\<close>

definition heap_of_size :: "nat \<Rightarrow> 'd bridge_env \<Rightarrow> bool" where
  "heap_of_size cap e \<longleftrightarrow> (\<forall>h. finite (dom h) \<longrightarrow>
     (k_malloc e h \<noteq> 0 \<longleftrightarrow> card (dom h) < cap) \<and> (k_malloc e h \<noteq> 0 \<longrightarrow> h (k_malloc e h) = None))"

definition listening :: "'d bridge_env \<Rightarrow> addr \<Rightarrow> 'd bridge \<Rightarrow> bool" where
  "listening e b s \<longleftrightarrow> b \<noteq> 0 \<and> rx_block e s b [] \<and> finite (dom (b_heap s)) \<and> card (dom (b_heap s)) = length (b_fifo_rx s) + 1"

lemma deliver_frame:
  "deliver e b bs s = Some s' \<Longrightarrow> dom (b_heap s') = dom (b_heap s) \<and> (cb_buf_release s' \<longrightarrow> cb_current_buf s' = data_of b)"
  by (auto simp: deliver_def on_rx_rdy_def bcall_def Let_def split: option.splits if_splits)

lemma line_cycle_step:
  assumes N: "0 < UART_BUF_SIZE e" "UART_BUF_SIZE e < 65536" and cap: "heap_of_size cap e" and l: "listening e b s"
    and line: "ends_line line" "length line < UART_BUF_SIZE e"
  shows "\<exists>b' s'. line_cycle e line (b, s) = Some (b', s') \<and> length (b_fifo_rx s') = length (b_fifo_rx s) + 1
     \<and> (if length (b_fifo_rx s) + 1 < cap then listening e b' s'
        else b' = 0 \<and> last (b_calls s') = WorkReschedule UART_WAIT_FOR_BUF_DELAY
          \<and> uart_work_handler e s' = bcall (WorkReschedule UART_WAIT_FOR_BUF_DELAY) s')"
proof -
  have "line \<noteq> []" using line(1) by (simp add: ends_line_def)
  with deliver_step [OF N(2), of s b "[]" line] l line obtain s1 where
    s1: "deliver e b line s = Some s1" "b_fifo_rx s1 = b_fifo_rx s @ [b]" by (auto simp: listening_def)
  note f = deliver_frame [OF s1(1)]
  have s2: "peripheral_uart_cb e (UART_RX_BUF_RELEASED (data_of b)) s1 = Some s1"
    using f by (auto simp: peripheral_uart_cb_def on_rx_buf_released_def)
  define b' where "b' = k_malloc e (b_heap s1)"
  define s3 where "s3 = on_rx_disabled e s1"
  have cyc: "line_cycle e line (b, s) = Some (b', s3)"
    using s1 s2 by (simp add: line_cycle_def peripheral_uart_cb_def b'_def s3_def)
  have fin: "finite (dom (b_heap s1))" "card (dom (b_heap s1)) = length (b_fifo_rx s) + 1"
    using f l by (auto simp: listening_def)
  have room: "b' \<noteq> 0 \<longleftrightarrow> length (b_fifo_rx s) + 1 < cap" "b' \<noteq> 0 \<longrightarrow> b_heap s1 b' = None"
    using cap fin(1) unfolding heap_of_size_def b'_def fin(2) [symmetric] by blast+
  have fifo: "b_fifo_rx s3 = b_fifo_rx s1" by (simp add: s3_def on_rx_disabled_def Let_def bcall_def)
  show ?thesis
  proof (cases "length (b_fifo_rx s) + 1 < cap")
    case True
    then have b': "b' \<noteq> 0" "b_heap s1 b' = None" using room by simp_all
    have "b_heap s3 = (b_heap s1)(b' \<mapsto> new_buf (UART_BUF_SIZE e))"
      using b' by (simp add: s3_def on_rx_disabled_def Let_def bcall_def b'_def)
    moreover from this have "dom (b_heap s3) = insert b' (dom (b_heap s1))" by simp
    moreover have "card (insert b' (dom (b_heap s1))) = card (dom (b_heap s1)) + 1"
      using b'(2) fin(1) by (subst card_insert_disjoint) auto
    ultimately have "listening e b' s3"
      using b'(1) fin fifo s1(2) by (simp add: listening_def rx_block_def new_buf_def contents_def)
    then show ?thesis using cyc True fifo s1(2) by (intro exI [of _ b'] exI [of _ s3]) simp
  next
    case False
    then have b': "b' = 0" using room(1) by simp
    then have "s3 = bcall (WorkReschedule UART_WAIT_FOR_BUF_DELAY) s1"
      by (simp add: s3_def on_rx_disabled_def Let_def b'_def)
    moreover from this have "uart_work_handler e s3 = bcall (WorkReschedule UART_WAIT_FOR_BUF_DELAY) s3"
      using b' by (simp add: bcall_def uart_work_handler_def Let_def b'_def)
    ultimately show ?thesis using cyc False fifo s1(2) b'
      by (intro exI [of _ b'] exI [of _ s3]) (simp add: bcall_def)
  qed
qed

text \<open>
  In the peripheral of the throughput test nothing takes the received lines, so each keeps its buffer for ever: with
  room for cap buffers, the program accepts cap short lines, one buffer each, and then stops receiving; every later turn
  of its work item finds no memory and only schedules itself again.
\<close>

theorem lines_exhaust_heap:
  assumes "0 < UART_BUF_SIZE e" "UART_BUF_SIZE e < 65536" "heap_of_size cap e" "listening e b s" "b_fifo_rx s = []"
    and "\<forall>line\<in>set lines. ends_line line \<and> length line < UART_BUF_SIZE e" "length lines = cap" "0 < cap"
  shows "\<exists>s'. run (line_cycle e) lines (b, s) = Some (0, s') \<and> length (b_fifo_rx s') = cap
     \<and> peripheral_uart_work_handler e s' = bcall (WorkReschedule UART_WAIT_FOR_BUF_DELAY) s'"
proof -
  have "\<exists>b' s'. run (line_cycle e) ls (b, s) = Some (b', s') \<and> length (b_fifo_rx s') = length (b_fifo_rx s) + length ls
      \<and> (if length (b_fifo_rx s) + length ls < cap then listening e b' s'
         else b' = 0 \<and> uart_work_handler e s' = bcall (WorkReschedule UART_WAIT_FOR_BUF_DELAY) s')"
    if "listening e b s" "\<forall>line\<in>set ls. ends_line line \<and> length line < UART_BUF_SIZE e" "length (b_fifo_rx s) + length ls \<le> cap"
      "length (b_fifo_rx s) < cap" for ls and b :: addr and s :: "'a bridge"
    using that
  proof (induction ls arbitrary: b s)
    case (Cons line ls)
    then obtain b1 s1 where s1: "line_cycle e line (b, s) = Some (b1, s1)" "length (b_fifo_rx s1) = length (b_fifo_rx s) + 1"
      "if length (b_fifo_rx s) + 1 < cap then listening e b1 s1
       else b1 = 0 \<and> uart_work_handler e s1 = bcall (WorkReschedule UART_WAIT_FOR_BUF_DELAY) s1"
      using line_cycle_step [OF assms(1-3), of b s line] by (auto split: if_splits)
    show ?case
    proof (cases "ls = []")
      case True
      then show ?thesis using s1 Cons.prems by auto
    next
      case False
      then have "length (b_fifo_rx s) + 1 < cap" using Cons.prems(3) by (cases ls) auto
      then have "listening e b1 s1" "length (b_fifo_rx s1) < cap" using s1 by simp_all
      with Cons.IH [of b1 s1] Cons.prems s1 show ?thesis by auto
    qed
  qed auto
  from this [OF assms(4,6)] assms(5,7,8) show ?thesis by (auto simp: peripheral_uart_work_handler_def)
qed

definition demo_nus_uart :: "adapter bridge_env" where
  "demo_nus_uart = \<lparr>UART_BUF_SIZE = 20, UART_WAIT_FOR_RX = 50,
     k_malloc = (\<lambda>h. if card (dom h) < 2 then (if h 64 = None then 64 else if h 128 = None then 128 else 192) else 0),
     uart_tx = adapter_send\<rparr>"

lemma demo_nus_heap: "heap_of_size 2 demo_nus_uart"
proof -
  have "h 192 = None" if "finite (dom h)" "card (dom h) < 2" "h 64 \<noteq> None" "h 128 \<noteq> None" for h :: uheap
  proof (rule ccontr)
    assume "h 192 \<noteq> None"
    then have "{64, 128, 192} \<subseteq> dom h" using that by auto
    then have "card {64, 128, 192 :: addr} \<le> card (dom h)" using that(1) by (intro card_mono)
    moreover have "card {64, 128, 192 :: addr} = 3" by simp
    ultimately show False using that(2) by simp
  qed
  then show ?thesis by (auto simp: heap_of_size_def demo_nus_uart_def)
qed

theorem lines_exhaust_heap_witness:
  "\<exists>s'. run (line_cycle demo_nus_uart) [[65, 10], [66, 13]] (64, demo_bridge [64 \<mapsto> new_buf 20]) = Some (0, s')
     \<and> length (b_fifo_rx s') = 2"
proof -
  have "0 < UART_BUF_SIZE demo_nus_uart" "UART_BUF_SIZE demo_nus_uart < 65536"
    "listening demo_nus_uart 64 (demo_bridge [64 \<mapsto> new_buf 20])" "b_fifo_rx (demo_bridge [64 \<mapsto> new_buf 20]) = []"
    "\<forall>line\<in>set [[65, 10], [66, 13]]. ends_line line \<and> length line < UART_BUF_SIZE demo_nus_uart"
    by (simp_all add: demo_nus_uart_def demo_bridge_def listening_def rx_block_def new_buf_def contents_def ends_line_def)
  from lines_exhaust_heap [OF this(1,2) demo_nus_heap this(3-5)] show ?thesis by auto
qed

end
