(* ===== verification/PcdUpdate.thy ===== *)
theory PcdUpdate
  imports Prelude Machine
begin

text \<open>
  The update of the nRF5340's network core from external flash
  (\<open>nrf53_ble/otherExamples/resources/9pcd.c\<close>, the boot loader's side and the network core's side of
  the command in shared memory, and \<open>9main.c\<close>, the network core's boot loader).

  The two cores run concurrently: a schedule is a list of turns, and in a turn one core makes its
  next access to the command (one member read or written, one chunk copied or written to flash).
  Where each core is in its code is part of the state. \<open>pcd_stream\<close> holds what the network core
  has handed to \<open>stream_flash_buffered_write\<close> with success, one element per call; the result of a
  call is part of the turn. Flash contents (\<open>mem\<close>), the validation of the image and the results of the
  protection and set-up calls are parameters.
\<close>

section \<open>The command in shared memory\<close>

definition PCD_CMD_MAGIC_COPY :: u32 where "PCD_CMD_MAGIC_COPY = 0xb5b4b3b6"
definition PCD_CMD_MAGIC_FAIL :: u32 where "PCD_CMD_MAGIC_FAIL = 0x25bafc15"
definition PCD_CMD_MAGIC_DONE :: u32 where "PCD_CMD_MAGIC_DONE = 0xf103ce5d"
definition LAYOUT_PAGE_SIZE :: u32 where "LAYOUT_PAGE_SIZE = 4096"

lemmas pcd_magic = PCD_CMD_MAGIC_COPY_def PCD_CMD_MAGIC_FAIL_def PCD_CMD_MAGIC_DONE_def

text \<open>The member \<open>image_chunk\<close> points to the shared memory, whose contents are \<open>pcd_shm\<close> below.\<close>

record pcd_cmd =
  cmd_magic :: u32
  cmd_data :: u32
  cmd_len :: u32
  cmd_offset :: u32
  cmd_chunk_len :: u32
  cmd_bytes_moved :: u32
  cmd_chunk_available :: bool
  cmd_chunk_written :: bool

datatype pcd_status = PCD_STATUS_COPY | PCD_STATUS_COPY_DONE | PCD_STATUS_COPY_FAILED

definition pcd_fw_copy_status_get :: "pcd_cmd \<Rightarrow> pcd_status" where
  "pcd_fw_copy_status_get c =
     (if cmd_magic c = PCD_CMD_MAGIC_COPY then PCD_STATUS_COPY
      else if cmd_magic c = PCD_CMD_MAGIC_DONE then PCD_STATUS_COPY_DONE
      else PCD_STATUS_COPY_FAILED)"

definition pcd_fw_copy_invalidate :: "pcd_cmd \<Rightarrow> pcd_cmd" where
  "pcd_fw_copy_invalidate c = c\<lparr>cmd_magic := PCD_CMD_MAGIC_FAIL\<rparr>"

definition pcd_fw_copy_done :: "pcd_cmd \<Rightarrow> pcd_cmd" where
  "pcd_fw_copy_done c = c\<lparr>cmd_magic := PCD_CMD_MAGIC_DONE\<rparr>"

section \<open>Where the cores are\<close>

datatype update_result = UpdateDone | UpdateFailed pcd_status | CmdWriteError int

datatype app_point =
    PollStatus | CheckWritten | CopyChunk | AddMoved | ClearWritten | SetAvailable
  | AppReturned update_result

datatype fw_point =
    FcMagic | FcInternal | FcLoop | FcAvail | FcWrite | FcClearAvail | FcSetWritten | FcClear

datatype net_point = NetOff | NbStart | NbCopy fw_point | NbValidate | NbSpin | NbInvalidate | NbReturned | NbBoot

datatype pcd_call =
    SpuExtdomainSet bool bool | NetworkForceOff bool | BusyWait nat
  | FprotectB0n | FprotectApp | BlBoot | RamregionSet u32 bool bool

record pcd =
  pcd_c :: pcd_cmd
  pcd_shm :: "u8 list"
  pcd_app :: app_point
  pcd_net :: net_point
  pcd_stream :: "u8 list list"
  pcd_calls :: "pcd_call list"

text \<open>
  \<open>pe_valid_source\<close> is the validation of the image where the command says it is, \<open>pe_valid\<close> that
  of the flash after the stream's writes.
\<close>

record pcd_env =
  pe_mem :: "u32 \<Rightarrow> u8"
  pe_fprotect_b0n :: int
  pe_fprotect_app :: int
  pe_stream_init :: int
  pe_valid_source :: "u32 \<Rightarrow> bool"
  pe_valid :: "u8 list list \<Rightarrow> bool"

definition pcd_do :: "pcd_call \<Rightarrow> pcd \<Rightarrow> pcd" where
  "pcd_do x s = s\<lparr>pcd_calls := pcd_calls s @ [x]\<rparr>"

definition region :: "(u32 \<Rightarrow> u8) \<Rightarrow> u32 \<Rightarrow> nat \<Rightarrow> u8 list" where
  "region mem a n = map (\<lambda>i. mem (a + of_nat i)) [0..<n]"

section \<open>The application core\<close>

text \<open>
  The four accesses of \<open>pcd_cmd_update\<close> for an image in external flash: the chunk and its length,
  the count, and the two flags. Copying past the end of the shared memory is undefined.
\<close>

definition external :: "pcd_cmd \<Rightarrow> bool" where
  "external c \<longleftrightarrow> 0x10000000 \<le> cmd_data c"

definition copy_chunk :: "(u32 \<Rightarrow> u8) \<Rightarrow> pcd \<Rightarrow> pcd option" where
  "copy_chunk mem s =
     (let c = pcd_c s;
          bytes_left = cmd_len c - cmd_bytes_moved c;
          n = (if LAYOUT_PAGE_SIZE < bytes_left then LAYOUT_PAGE_SIZE else bytes_left)
      in if length (pcd_shm s) < unat n then None
         else Some (s\<lparr>pcd_c := c\<lparr>cmd_chunk_len := n\<rparr>,
                      pcd_shm := region mem (cmd_data c + cmd_bytes_moved c) (unat n) @ drop (unat n) (pcd_shm s)\<rparr>))"

definition add_moved :: "pcd_cmd \<Rightarrow> pcd_cmd" where
  "add_moved c = c\<lparr>cmd_bytes_moved := cmd_bytes_moved c + cmd_chunk_len c\<rparr>"

definition pcd_cmd_update :: "(u32 \<Rightarrow> u8) \<Rightarrow> pcd \<Rightarrow> pcd option" where
  "pcd_cmd_update mem s =
     (if external (pcd_c s)
      then map_option (\<lambda>s1. s1\<lparr>pcd_c := (add_moved (pcd_c s1))\<lparr>cmd_chunk_written := False, cmd_chunk_available := True\<rparr>\<rparr>)
             (copy_chunk mem s)
      else Some s)"

definition pcd_cmd_write :: "(u32 \<Rightarrow> u8) \<Rightarrow> u32 \<Rightarrow> u32 \<Rightarrow> u32 \<Rightarrow> pcd \<Rightarrow> (int \<times> pcd) option" where
  "pcd_cmd_write mem data len offset s =
     (if data = 0 \<or> len = 0 then Some (- EINVAL, s)
      else map_option (Pair 0) (pcd_cmd_update mem
             (s\<lparr>pcd_c := (pcd_c s)\<lparr>cmd_magic := PCD_CMD_MAGIC_COPY, cmd_data := data, cmd_len := len,
                                   cmd_offset := offset, cmd_bytes_moved := 0\<rparr>\<rparr>)))"

text \<open>
  \<open>pcd_network_core_update\<close> up to its loop. Forcing the network core off stops it wherever it is,
  and it starts at its \<open>main\<close> when it is turned on.
\<close>

definition force_off :: "bool \<Rightarrow> pcd \<Rightarrow> pcd" where
  "force_off off s = (pcd_do (NetworkForceOff off) s)\<lparr>pcd_net := (if off then NetOff else NbStart)\<rparr>"

definition network_core_update :: "(u32 \<Rightarrow> u8) \<Rightarrow> u32 \<Rightarrow> u32 \<Rightarrow> u32 \<Rightarrow> pcd \<Rightarrow> pcd option" where
  "network_core_update mem app_offset src len s =
     Option.bind (pcd_cmd_write mem src len app_offset (force_off True (pcd_do (SpuExtdomainSet True False) s)))
       (\<lambda>(err, s1). Some (
          if err \<noteq> 0 then s1\<lparr>pcd_app := AppReturned (CmdWriteError err)\<rparr>
          else (pcd_do (BusyWait 1000000) (force_off False s1))\<lparr>pcd_app := PollStatus\<rparr>))"

text \<open>One turn of the application core in that loop.\<close>

fun app_step :: "(u32 \<Rightarrow> u8) \<Rightarrow> app_point \<Rightarrow> pcd \<Rightarrow> pcd option" where
  "app_step mem PollStatus s =
     (let s1 = pcd_do (BusyWait 1000) s in
      case pcd_fw_copy_status_get (pcd_c s1) of
        PCD_STATUS_COPY \<Rightarrow> Some (s1\<lparr>pcd_app := CheckWritten\<rparr>)
      | PCD_STATUS_COPY_FAILED \<Rightarrow> Some (s1\<lparr>pcd_app := AppReturned (UpdateFailed PCD_STATUS_COPY_FAILED)\<rparr>)
      | PCD_STATUS_COPY_DONE \<Rightarrow> Some ((force_off True s1)\<lparr>pcd_app := AppReturned UpdateDone\<rparr>))"
| "app_step mem CheckWritten s =
     Some (s\<lparr>pcd_app := (if cmd_chunk_written (pcd_c s) \<and> external (pcd_c s) then CopyChunk else PollStatus)\<rparr>)"
| "app_step mem CopyChunk s = map_option (\<lambda>s1. s1\<lparr>pcd_app := AddMoved\<rparr>) (copy_chunk mem s)"
| "app_step mem AddMoved s = Some (s\<lparr>pcd_c := add_moved (pcd_c s), pcd_app := ClearWritten\<rparr>)"
| "app_step mem ClearWritten s = Some (s\<lparr>pcd_c := (pcd_c s)\<lparr>cmd_chunk_written := False\<rparr>, pcd_app := SetAvailable\<rparr>)"
| "app_step mem SetAvailable s = Some (s\<lparr>pcd_c := (pcd_c s)\<lparr>cmd_chunk_available := True\<rparr>, pcd_app := PollStatus\<rparr>)"
| "app_step mem (AppReturned r) s = Some s"

definition pcd_lock_ram :: "u32 \<Rightarrow> u32 \<Rightarrow> pcd \<Rightarrow> pcd option" where
  "pcd_lock_ram cmd_address region_size s =
     (if region_size = 0 then None else Some (pcd_do (RamregionSet (cmd_address div region_size) True True) s))"

section \<open>The network core\<close>

definition clear_shm :: "pcd \<Rightarrow> pcd option" where
  "clear_shm s =
     (if length (pcd_shm s) < 4096 then None
      else Some (s\<lparr>pcd_shm := replicate 4096 0 @ drop 4096 (pcd_shm s)\<rparr>))"

text \<open>One turn of \<open>pcd_fw_copy\<close>: \<open>Inl\<close> its next point or \<open>Inr\<close> what it returns.\<close>

fun fw_copy_step :: "pcd_env \<Rightarrow> int \<Rightarrow> fw_point \<Rightarrow> pcd \<Rightarrow> ((fw_point + int) \<times> pcd) option" where
  "fw_copy_step e rc FcMagic s =
     Some (if cmd_magic (pcd_c s) \<noteq> PCD_CMD_MAGIC_COPY then Inr (- EFAULT)
           else if pe_stream_init e \<noteq> 0 then Inr (pe_stream_init e)
           else if external (pcd_c s) then Inl FcLoop else Inl FcInternal, s)"
| "fw_copy_step e rc FcInternal s =
     Some (if rc \<noteq> 0 then (Inr rc, s)
           else (Inr 0, s\<lparr>pcd_stream := pcd_stream s @ [region (pe_mem e) (cmd_data (pcd_c s)) (unat (cmd_len (pcd_c s)))]\<rparr>))"
| "fw_copy_step e rc FcLoop s =
     Some (Inl (if cmd_bytes_moved (pcd_c s) < cmd_len (pcd_c s) then FcAvail else FcClear), s)"
| "fw_copy_step e rc FcAvail s = Some (Inl (if cmd_chunk_available (pcd_c s) then FcWrite else FcLoop), s)"
| "fw_copy_step e rc FcWrite s =
     (if length (pcd_shm s) < unat (cmd_chunk_len (pcd_c s)) then None
      else if rc \<noteq> 0 then map_option (Pair (Inr rc)) (clear_shm s)
      else Some (Inl FcClearAvail,
                 s\<lparr>pcd_stream := pcd_stream s @ [take (unat (cmd_chunk_len (pcd_c s))) (pcd_shm s)]\<rparr>))"
| "fw_copy_step e rc FcClearAvail s = Some (Inl FcSetWritten, s\<lparr>pcd_c := (pcd_c s)\<lparr>cmd_chunk_available := False\<rparr>\<rparr>)"
| "fw_copy_step e rc FcSetWritten s = Some (Inl FcLoop, s\<lparr>pcd_c := (pcd_c s)\<lparr>cmd_chunk_written := True\<rparr>\<rparr>)"
| "fw_copy_step e rc FcClear s = map_option (Pair (Inr 0)) (clear_shm s)"

text \<open>One turn of the network core's boot loader.\<close>

fun netboot_step :: "pcd_env \<Rightarrow> int \<Rightarrow> net_point \<Rightarrow> pcd \<Rightarrow> pcd option" where
  "netboot_step e rc NetOff s = Some s"
| "netboot_step e rc NbStart s =
     (let s1 = pcd_do FprotectB0n s in
      Some (if pe_fprotect_b0n e \<noteq> 0 then s1\<lparr>pcd_net := NbInvalidate\<rparr>
            else if pcd_fw_copy_status_get (pcd_c s1) = PCD_STATUS_COPY
            then (if \<not> external (pcd_c s1) \<and> \<not> pe_valid_source e (cmd_data (pcd_c s1))
                  then s1\<lparr>pcd_net := NbInvalidate\<rparr> else s1\<lparr>pcd_net := NbCopy FcMagic\<rparr>)
            else (let s2 = pcd_do FprotectApp s1 in
                  if pe_fprotect_app e \<noteq> 0 then s2\<lparr>pcd_net := NbInvalidate\<rparr>
                  else (pcd_do BlBoot s2)\<lparr>pcd_net := NbBoot\<rparr>)))"
| "netboot_step e rc (NbCopy p) s =
     map_option (\<lambda>(r, s1). case r of
         Inl p' \<Rightarrow> s1\<lparr>pcd_net := NbCopy p'\<rparr>
       | Inr err \<Rightarrow> s1\<lparr>pcd_net := (if err \<noteq> 0 then NbInvalidate else NbValidate)\<rparr>)
       (fw_copy_step e rc p s)"
| "netboot_step e rc NbValidate s =
     Some (if pe_valid e (pcd_stream s) then s\<lparr>pcd_c := pcd_fw_copy_done (pcd_c s), pcd_net := NbSpin\<rparr>
           else s\<lparr>pcd_net := NbInvalidate\<rparr>)"
| "netboot_step e rc NbSpin s = Some s"
| "netboot_step e rc NbInvalidate s = Some (s\<lparr>pcd_c := pcd_fw_copy_invalidate (pcd_c s), pcd_net := NbReturned\<rparr>)"
| "netboot_step e rc NbReturned s = Some s"
| "netboot_step e rc NbBoot s = Some s"

section \<open>The two cores together\<close>

datatype turn = App | Net int

definition pcd_turn :: "pcd_env \<Rightarrow> turn \<Rightarrow> pcd \<Rightarrow> pcd option" where
  "pcd_turn e t s = (case t of App \<Rightarrow> app_step (pe_mem e) (pcd_app s) s | Net rc \<Rightarrow> netboot_step e rc (pcd_net s) s)"

section \<open>The invariant\<close>

text \<open>What has reached the flash, the whole image, and the length of the part written.\<close>

definition pcd_image :: "pcd_env \<Rightarrow> pcd \<Rightarrow> u8 list" where
  "pcd_image e s = region (pe_mem e) (cmd_data (pcd_c s)) (unat (cmd_len (pcd_c s)))"

definition written :: "pcd \<Rightarrow> nat" where
  "written s = length (concat (pcd_stream s))"

lemma length_image [simp]: "length (pcd_image e s) = unat (cmd_len (pcd_c s))"
  by (simp add: pcd_image_def region_def)

lemma length_region [simp]: "length (region mem a n) = n"
  by (simp add: region_def)

lemma region_image:
  assumes "w + n \<le> unat (cmd_len (pcd_c s))"
  shows "region (pe_mem e) (cmd_data (pcd_c s) + of_nat w) n = take n (drop w (pcd_image e s))"
  using assms by (intro nth_equalityI) (simp_all add: pcd_image_def region_def add.assoc)

text \<open>The next chunk is in the shared memory and counted; \<open>loaded\<close> says so of the memory alone.\<close>

definition next_len :: "pcd \<Rightarrow> nat" where
  "next_len s = min 4096 (unat (cmd_len (pcd_c s)) - written s)"

definition loaded :: "pcd_env \<Rightarrow> pcd \<Rightarrow> bool" where
  "loaded e s \<longleftrightarrow> unat (cmd_chunk_len (pcd_c s)) = next_len s
     \<and> take (next_len s) (pcd_shm s) = take (next_len s) (drop (written s) (pcd_image e s))"

definition counted :: "pcd \<Rightarrow> bool" where
  "counted s \<longleftrightarrow> unat (cmd_bytes_moved (pcd_c s)) = written s + next_len s"

definition taken :: "pcd \<Rightarrow> bool" where
  "taken s \<longleftrightarrow> unat (cmd_bytes_moved (pcd_c s)) = written s"

definition all_moved :: "pcd \<Rightarrow> bool" where
  "all_moved s \<longleftrightarrow> cmd_bytes_moved (pcd_c s) = cmd_len (pcd_c s)"

abbreviation avail :: "pcd \<Rightarrow> bool" where "avail s \<equiv> cmd_chunk_available (pcd_c s)"
abbreviation done_flag :: "pcd \<Rightarrow> bool" where "done_flag s \<equiv> cmd_chunk_written (pcd_c s)"

abbreviation waiting :: "app_point \<Rightarrow> bool" where
  "waiting a \<equiv> a = PollStatus \<or> a = CheckWritten"

definition live :: "net_point \<Rightarrow> bool" where
  "live n \<longleftrightarrow> n = NbStart \<or> (\<exists>p. n = NbCopy p \<and> p \<noteq> FcClear)"

text \<open>How the application core's point goes with the flags while the network core looks for a chunk.\<close>

fun handshake :: "pcd_env \<Rightarrow> app_point \<Rightarrow> pcd \<Rightarrow> bool" where
  "handshake e CopyChunk s \<longleftrightarrow> \<not> avail s \<and> done_flag s \<and> taken s"
| "handshake e AddMoved s \<longleftrightarrow> \<not> avail s \<and> taken s \<and> loaded e s"
| "handshake e ClearWritten s \<longleftrightarrow> \<not> avail s \<and> counted s \<and> loaded e s"
| "handshake e SetAvailable s \<longleftrightarrow> \<not> avail s \<and> \<not> done_flag s \<and> counted s \<and> loaded e s"
| "handshake e (AppReturned r) s \<longleftrightarrow> False"
| "handshake e a s \<longleftrightarrow> (if avail s then \<not> done_flag s \<and> counted s \<and> loaded e s else done_flag s \<and> taken s)"

definition offered :: "pcd_env \<Rightarrow> app_point \<Rightarrow> pcd \<Rightarrow> bool" where
  "offered e a s \<longleftrightarrow> waiting a \<and> avail s \<and> \<not> done_flag s \<and> counted s \<and> loaded e s"

definition settled :: "app_point \<Rightarrow> pcd \<Rightarrow> bool" where
  "settled a s \<longleftrightarrow> (if all_moved s then a = AddMoved \<longrightarrow> cmd_chunk_len (pcd_c s) = 0
                  else \<not> done_flag s \<and> (waiting a \<or> (\<exists>r. a = AppReturned r)))"

fun net_ok :: "pcd_env \<Rightarrow> net_point \<Rightarrow> app_point \<Rightarrow> pcd \<Rightarrow> bool" where
  "net_ok e NbStart a s \<longleftrightarrow> offered e a s"
| "net_ok e (NbCopy FcMagic) a s \<longleftrightarrow> offered e a s"
| "net_ok e (NbCopy FcInternal) a s \<longleftrightarrow> False"
| "net_ok e (NbCopy FcLoop) a s \<longleftrightarrow> handshake e a s"
| "net_ok e (NbCopy FcAvail) a s \<longleftrightarrow> handshake e a s"
| "net_ok e (NbCopy FcWrite) a s \<longleftrightarrow> offered e a s"
| "net_ok e (NbCopy FcClearAvail) a s \<longleftrightarrow> waiting a \<and> avail s \<and> \<not> done_flag s \<and> taken s"
| "net_ok e (NbCopy FcSetWritten) a s \<longleftrightarrow> waiting a \<and> \<not> avail s \<and> \<not> done_flag s \<and> taken s"
| "net_ok e n a s \<longleftrightarrow> settled a s"

definition app_core_inv :: "pcd_env \<Rightarrow> pcd \<Rightarrow> bool" where
  "app_core_inv e s \<longleftrightarrow> external (pcd_c s) \<and> 4096 \<le> length (pcd_shm s)
     \<and> concat (pcd_stream s) = take (written s) (pcd_image e s)
     \<and> written s \<le> unat (cmd_bytes_moved (pcd_c s))
     \<and> unat (cmd_bytes_moved (pcd_c s)) \<le> min (written s + 4096) (unat (cmd_len (pcd_c s)))
     \<and> (4096 dvd written s \<or> written s = unat (cmd_len (pcd_c s)))"

definition magic_inv :: "pcd \<Rightarrow> bool" where
  "magic_inv s \<longleftrightarrow> pcd_net s \<noteq> NbBoot
     \<and> (live (pcd_net s) \<longrightarrow> cmd_magic (pcd_c s) = PCD_CMD_MAGIC_COPY)
     \<and> (pcd_net s \<in> {NbCopy FcClear, NbValidate, NbSpin} \<longrightarrow> all_moved s)
     \<and> (pcd_net s \<in> {NbCopy FcClear, NbValidate} \<longrightarrow> cmd_magic (pcd_c s) = PCD_CMD_MAGIC_COPY)
     \<and> (cmd_magic (pcd_c s) = PCD_CMD_MAGIC_DONE \<longrightarrow> all_moved s)"

definition pcd_inv :: "pcd_env \<Rightarrow> pcd \<Rightarrow> bool" where
  "pcd_inv e s \<longleftrightarrow> app_core_inv e s \<and> magic_inv s \<and> net_ok e (pcd_net s) (pcd_app s) s"

text \<open>What does not touch the command, the memory or the stream leaves these predicates alone.\<close>

lemmas pcd_frame = loaded_def counted_def taken_def next_len_def written_def pcd_image_def all_moved_def external_def

lemma pcd_frame_points [simp]:
  "written (s\<lparr>pcd_app := a\<rparr>) = written s" "written (s\<lparr>pcd_net := n\<rparr>) = written s" "written (pcd_do x s) = written s"
  "pcd_image e (s\<lparr>pcd_app := a\<rparr>) = pcd_image e s" "pcd_image e (s\<lparr>pcd_net := n\<rparr>) = pcd_image e s" "pcd_image e (pcd_do x s) = pcd_image e s"
  "loaded e (s\<lparr>pcd_app := a\<rparr>) = loaded e s" "loaded e (s\<lparr>pcd_net := n\<rparr>) = loaded e s" "loaded e (pcd_do x s) = loaded e s"
  "counted (s\<lparr>pcd_app := a\<rparr>) = counted s" "counted (s\<lparr>pcd_net := n\<rparr>) = counted s" "counted (pcd_do x s) = counted s"
  "taken (s\<lparr>pcd_app := a\<rparr>) = taken s" "taken (s\<lparr>pcd_net := n\<rparr>) = taken s" "taken (pcd_do x s) = taken s"
  "all_moved (s\<lparr>pcd_app := a\<rparr>) = all_moved s" "all_moved (s\<lparr>pcd_net := n\<rparr>) = all_moved s" "all_moved (pcd_do x s) = all_moved s"
  by (simp_all add: pcd_frame pcd_do_def)

lemma pcd_frame_cmd [simp]:
  fixes s :: pcd and b :: bool and x :: u32
  defines "w \<equiv> s\<lparr>pcd_c := (pcd_c s)\<lparr>cmd_chunk_written := b\<rparr>\<rparr>"
    and "a \<equiv> s\<lparr>pcd_c := (pcd_c s)\<lparr>cmd_chunk_available := b\<rparr>\<rparr>"
    and "m \<equiv> s\<lparr>pcd_c := (pcd_c s)\<lparr>cmd_magic := x\<rparr>\<rparr>"
  shows "written w = written s" "pcd_image e w = pcd_image e s" "loaded e w = loaded e s" "counted w = counted s"
    "taken w = taken s" "all_moved w = all_moved s"
    "written a = written s" "pcd_image e a = pcd_image e s" "loaded e a = loaded e s" "counted a = counted s"
    "taken a = taken s" "all_moved a = all_moved s"
    "written m = written s" "pcd_image e m = pcd_image e s" "loaded e m = loaded e s" "counted m = counted s"
    "taken m = taken s" "all_moved m = all_moved s"
  by (simp_all add: pcd_frame w_def a_def m_def)

lemma pcd_do_points [simp]:
  "pcd_c (pcd_do x s) = pcd_c s" "pcd_shm (pcd_do x s) = pcd_shm s" "pcd_app (pcd_do x s) = pcd_app s"
  "pcd_net (pcd_do x s) = pcd_net s" "pcd_stream (pcd_do x s) = pcd_stream s"
  by (simp_all add: pcd_do_def)

lemma live_points [simp]:
  "live NbStart" "live (NbCopy p) \<longleftrightarrow> p \<noteq> FcClear" "\<not> live NetOff" "\<not> live NbValidate" "\<not> live NbSpin"
  "\<not> live NbInvalidate" "\<not> live NbReturned" "\<not> live NbBoot"
  by (simp_all add: live_def)

lemma inv_frame_points [simp]:
  "app_core_inv e (s\<lparr>pcd_app := a\<rparr>) = app_core_inv e s" "app_core_inv e (s\<lparr>pcd_net := n\<rparr>) = app_core_inv e s"
  "app_core_inv e (pcd_do x s) = app_core_inv e s"
  "magic_inv (s\<lparr>pcd_app := a\<rparr>) = magic_inv s" "magic_inv (pcd_do x s) = magic_inv s"
  by (simp_all add: app_core_inv_def magic_inv_def)

lemma handshake_frame [simp]:
  "handshake e a (s\<lparr>pcd_app := a'\<rparr>) = handshake e a s" "handshake e a (s\<lparr>pcd_net := n\<rparr>) = handshake e a s"
  "handshake e a (pcd_do x s) = handshake e a s"
  by (cases a; simp)+

lemma offered_frame [simp]:
  "offered e a (s\<lparr>pcd_app := a'\<rparr>) = offered e a s" "offered e a (s\<lparr>pcd_net := n\<rparr>) = offered e a s"
  "offered e a (pcd_do x s) = offered e a s"
  by (simp_all add: offered_def)

lemma settled_frame [simp]:
  "settled a (s\<lparr>pcd_app := a'\<rparr>) = settled a s" "settled a (s\<lparr>pcd_net := n\<rparr>) = settled a s"
  "settled a (pcd_do x s) = settled a s"
  by (simp_all add: settled_def)

lemma net_ok_frame [simp]:
  "net_ok e n a (s\<lparr>pcd_app := a'\<rparr>) = net_ok e n a s" "net_ok e n a (s\<lparr>pcd_net := n'\<rparr>) = net_ok e n a s"
  "net_ok e n a (pcd_do x s) = net_ok e n a s"
  by (cases "(e, n, a, s)" rule: net_ok.cases; simp)+

text \<open>While the application core only polls, one polling point is as good as another.\<close>

lemma handshake_waiting: "waiting a \<Longrightarrow> waiting a' \<Longrightarrow> handshake e a s = handshake e a' s"
  by auto

lemma net_ok_waiting: "waiting a \<Longrightarrow> waiting a' \<Longrightarrow> net_ok e n a s \<Longrightarrow> net_ok e n a' s"
  by (cases "(e, n, a, s)" rule: net_ok.cases) (auto simp: offered_def settled_def split: if_splits)

lemma settled_of_offered: "offered e a s \<Longrightarrow> settled a s"
  by (auto simp: offered_def settled_def)

lemma copy_chunk_next:
  assumes "4096 \<le> length (pcd_shm s)" and "taken s" and "written s \<le> unat (cmd_len (pcd_c s))"
  obtains s' where "copy_chunk (pe_mem e) s = Some s'" and "loaded e s'" and "taken s'"
    and "4096 \<le> length (pcd_shm s')"
    and "\<exists>n sh. s' = s\<lparr>pcd_c := (pcd_c s)\<lparr>cmd_chunk_len := n\<rparr>, pcd_shm := sh\<rparr>"
proof -
  define c where "c = pcd_c s"
  define n where "n = (if LAYOUT_PAGE_SIZE < cmd_len c - cmd_bytes_moved c then LAYOUT_PAGE_SIZE
                       else cmd_len c - cmd_bytes_moved c)"
  have w: "unat (cmd_bytes_moved c) = written s" using assms(2) by (simp add: taken_def c_def)
  have left: "unat (cmd_len c - cmd_bytes_moved c) = unat (cmd_len c) - written s"
    using assms(3) w by (subst unat_sub) (simp_all add: word_le_nat_alt c_def)
  have n: "unat n = next_len s"
    by (simp add: n_def next_len_def left LAYOUT_PAGE_SIZE_def word_less_nat_alt c_def)
       (use left in \<open>simp add: c_def\<close>)
  have le: "next_len s \<le> 4096" "written s + next_len s \<le> unat (cmd_len (pcd_c s))"
    using assms(3) by (simp_all add: next_len_def)
  have bm: "cmd_bytes_moved c = of_nat (written s)" using w by (simp flip: w)
  let ?s = "s\<lparr>pcd_c := c\<lparr>cmd_chunk_len := n\<rparr>,
              pcd_shm := region (pe_mem e) (cmd_data c + cmd_bytes_moved c) (unat n) @ drop (unat n) (pcd_shm s)\<rparr>"
  have "copy_chunk (pe_mem e) s = Some ?s"
    using assms(1) le(1) n by (simp add: copy_chunk_def Let_def c_def [symmetric] n_def [symmetric])
  moreover have "loaded e ?s"
    using region_image [OF le(2), of e] n
    by (simp add: loaded_def next_len_def written_def pcd_image_def bm c_def [symmetric])
  moreover have "taken ?s" using w by (simp add: taken_def written_def c_def)
  moreover have "4096 \<le> length (pcd_shm ?s)" using assms(1) le(1) n by simp
  moreover have "?s = s\<lparr>pcd_c := (pcd_c s)\<lparr>cmd_chunk_len := n\<rparr>,
      pcd_shm := region (pe_mem e) (cmd_data c + cmd_bytes_moved c) (unat n) @ drop (unat n) (pcd_shm s)\<rparr>"
    by (simp add: c_def)
  ultimately show thesis using that by blast
qed

lemma add_moved_next:
  assumes "taken s" and "loaded e s" and "written s \<le> unat (cmd_len (pcd_c s))"
  shows "counted (s\<lparr>pcd_c := add_moved (pcd_c s)\<rparr>)"
proof -
  have "unat (cmd_bytes_moved (pcd_c s)) + unat (cmd_chunk_len (pcd_c s)) < 2 ^ LENGTH(32)"
    using assms unat_u32_less [of "cmd_len (pcd_c s)"] by (auto simp: taken_def loaded_def next_len_def)
  then show ?thesis
    using assms by (simp add: counted_def taken_def loaded_def add_moved_def next_len_def written_def unat_plus_nowrap)
qed

lemma app_poll_inv:
  assumes "pcd_inv e s" and "pcd_app s = PollStatus"
  shows "\<exists>s'. app_step (pe_mem e) PollStatus s = Some s' \<and> pcd_inv e s'"
proof (cases "pcd_fw_copy_status_get (pcd_c s)")
  case PCD_STATUS_COPY
  then show ?thesis using assms
    by (simp add: pcd_inv_def) (metis net_ok_waiting)
next
  case PCD_STATUS_COPY_DONE
  then have "all_moved s" using assms(1)
    by (auto simp: pcd_inv_def magic_inv_def pcd_fw_copy_status_get_def split: if_splits)
  then show ?thesis using assms PCD_STATUS_COPY_DONE
    by (simp add: pcd_inv_def force_off_def settled_def magic_inv_def)
next
  case PCD_STATUS_COPY_FAILED
  then have m: "cmd_magic (pcd_c s) \<noteq> PCD_CMD_MAGIC_COPY"
    by (auto simp: pcd_fw_copy_status_get_def split: if_splits)
  have "net_ok e (pcd_net s) (AppReturned r) s" for r
    using assms m by (cases "(e, pcd_net s, pcd_app s, s)" rule: net_ok.cases)
      (auto simp: pcd_inv_def magic_inv_def settled_def split: if_splits)
  then show ?thesis using assms PCD_STATUS_COPY_FAILED by (simp add: pcd_inv_def)
qed

lemma app_check_inv:
  assumes "pcd_inv e s" and "pcd_app s = CheckWritten"
  shows "\<exists>s'. app_step (pe_mem e) CheckWritten s = Some s' \<and> pcd_inv e s'"
proof (cases "done_flag s")
  case True
  then have "net_ok e (pcd_net s) CopyChunk s"
    using assms by (cases "(e, pcd_net s, pcd_app s, s)" rule: net_ok.cases)
      (auto simp: pcd_inv_def offered_def settled_def split: if_splits)
  then show ?thesis using assms True by (simp add: pcd_inv_def app_core_inv_def)
next
  case False
  then show ?thesis using assms by (simp add: pcd_inv_def) (metis net_ok_waiting)
qed

lemma app_copy_inv:
  assumes "pcd_inv e s" and "pcd_app s = CopyChunk"
  shows "\<exists>s'. app_step (pe_mem e) CopyChunk s = Some s' \<and> pcd_inv e s'"
proof -
  have inv: "app_core_inv e s" "magic_inv s" "net_ok e (pcd_net s) CopyChunk s" using assms by (auto simp: pcd_inv_def)
  have taken: "taken s" if "\<not> all_moved s"
    using inv(3) that by (cases "(e, pcd_net s, CopyChunk, s)" rule: net_ok.cases)
      (auto simp: offered_def settled_def split: if_splits)
  obtain s' where s': "copy_chunk (pe_mem e) s = Some s'" "4096 \<le> length (pcd_shm s')"
    "\<exists>n sh. s' = s\<lparr>pcd_c := (pcd_c s)\<lparr>cmd_chunk_len := n\<rparr>, pcd_shm := sh\<rparr>"
    "taken s \<longrightarrow> loaded e s' \<and> taken s'" "all_moved s \<longrightarrow> cmd_chunk_len (pcd_c s') = 0"
  proof (cases "all_moved s")
    case True
    let ?s = "s\<lparr>pcd_c := (pcd_c s)\<lparr>cmd_chunk_len := 0\<rparr>, pcd_shm := pcd_shm s\<rparr>"
    have c: "copy_chunk (pe_mem e) s = Some ?s"
      using True by (simp add: copy_chunk_def all_moved_def Let_def region_def LAYOUT_PAGE_SIZE_def)
    show thesis
    proof (rule that [OF c])
      show "taken s \<longrightarrow> loaded e ?s \<and> taken ?s"
        using True by (auto simp: taken_def all_moved_def loaded_def next_len_def written_def)
      show "\<exists>n sh. ?s = s\<lparr>pcd_c := (pcd_c s)\<lparr>cmd_chunk_len := n\<rparr>, pcd_shm := sh\<rparr>"
        by (rule exI, rule exI, rule refl)
    qed (use inv(1) in \<open>auto simp: app_core_inv_def\<close>)
  next
    case False
    with taken have t: "taken s" by simp
    have l: "4096 \<le> length (pcd_shm s)" "written s \<le> unat (cmd_len (pcd_c s))"
      using inv(1) by (auto simp: app_core_inv_def)
    show thesis
      by (rule copy_chunk_next [OF l(1) t l(2), of e]) (use that False in blast)
  qed
  obtain n sh where f: "s' = s\<lparr>pcd_c := (pcd_c s)\<lparr>cmd_chunk_len := n\<rparr>, pcd_shm := sh\<rparr>" using s'(3) by blast
  have fr: "written s' = written s" "pcd_image e s' = pcd_image e s" "all_moved s' = all_moved s" "taken s' = taken s"
    by (simp_all add: f pcd_frame)
  have "app_core_inv e s'" using inv(1) s'(2) fr by (simp add: app_core_inv_def) (simp add: f external_def)
  moreover have "magic_inv s'" using inv(2) fr by (simp add: magic_inv_def) (simp add: f)
  moreover have "net_ok e (pcd_net s) AddMoved s'"
    using inv(3) s'(4,5) fr by (cases "(e, pcd_net s, CopyChunk, s)" rule: net_ok.cases)
      (auto simp: offered_def settled_def f split: if_splits)
  ultimately show ?thesis using s'(1) by (simp add: pcd_inv_def) (simp add: f)
qed

lemma app_add_inv:
  assumes "pcd_inv e s" and "pcd_app s = AddMoved"
  shows "\<exists>s'. app_step (pe_mem e) AddMoved s = Some s' \<and> pcd_inv e s'"
proof -
  have inv: "app_core_inv e s" "magic_inv s" "net_ok e (pcd_net s) AddMoved s" using assms by (auto simp: pcd_inv_def)
  let ?s = "s\<lparr>pcd_c := add_moved (pcd_c s)\<rparr>"
  have fr: "written ?s = written s" "pcd_image e ?s = pcd_image e s" "loaded e ?s = loaded e s" "next_len ?s = next_len s"
    by (simp_all add: pcd_frame add_moved_def)
  have le: "written s \<le> unat (cmd_len (pcd_c s))" using inv(1) by (auto simp: app_core_inv_def)
  consider "cmd_chunk_len (pcd_c s) = 0" "all_moved s" "\<not> live (pcd_net s)"
    | "pcd_net s \<in> {NbCopy FcLoop, NbCopy FcAvail}" "taken s" "loaded e s" "\<not> avail s"
    using inv(3) by (cases "(e, pcd_net s, AddMoved, s)" rule: net_ok.cases)
      (auto simp: offered_def settled_def split: if_splits)
  then have "pcd_inv e (?s\<lparr>pcd_app := ClearWritten\<rparr>)"
  proof cases
    case 1
    then have "?s = s" by (simp add: add_moved_def)
    then show ?thesis
      using 1 inv by (cases "(e, pcd_net s, ClearWritten, s)" rule: net_ok.cases) (auto simp: pcd_inv_def settled_def)
  next
    case 2
    have c: "counted ?s" by (rule add_moved_next [OF 2(2,3) le])
    have "all_moved ?s" if "all_moved s"
      using that 2(2,3) by (auto simp: all_moved_def add_moved_def taken_def loaded_def next_len_def unat_eq_0)
    then have "magic_inv ?s" using inv(2) by (auto simp: magic_inv_def add_moved_def)
    moreover have "app_core_inv e ?s"
      using inv(1) c fr le by (auto simp: app_core_inv_def counted_def next_len_def) (auto simp: add_moved_def external_def)
    moreover have "net_ok e (pcd_net s) ClearWritten ?s"
      using 2 c fr by (auto simp: add_moved_def)
    ultimately show ?thesis by (simp add: pcd_inv_def)
  qed
  then show ?thesis by simp
qed

lemma app_flags_inv:
  assumes "pcd_inv e s" and "a \<in> {ClearWritten, SetAvailable}" and "pcd_app s = a"
  shows "\<exists>s'. app_step (pe_mem e) a s = Some s' \<and> pcd_inv e s'"
  using assms
  by (cases "(e, pcd_net s, a, s)" rule: net_ok.cases)
     (auto simp: pcd_inv_def app_core_inv_def magic_inv_def offered_def settled_def external_def split: if_splits)

lemma app_step_inv:
  assumes "pcd_inv e s"
  shows "\<exists>s'. app_step (pe_mem e) (pcd_app s) s = Some s' \<and> pcd_inv e s'"
proof (cases "pcd_app s")
  case (AppReturned r)
  then show ?thesis using assms by simp
qed (metis assms app_poll_inv app_check_inv app_copy_inv app_add_inv app_flags_inv insertI1 insertI2)+

lemma clear_shm_inv:
  assumes "app_core_inv e s"
  shows "\<exists>sh. clear_shm s = Some (s\<lparr>pcd_shm := sh\<rparr>) \<and> app_core_inv e (s\<lparr>pcd_shm := sh\<rparr>)"
  using assms by (auto simp: app_core_inv_def clear_shm_def written_def pcd_image_def)

lemma shm_settled [simp]:
  "settled a (s\<lparr>pcd_shm := sh\<rparr>) = settled a s" "magic_inv (s\<lparr>pcd_shm := sh\<rparr>) = magic_inv s"
  by (simp_all add: settled_def magic_inv_def all_moved_def)

text \<open>Writing an offered chunk puts the next part of the image into the stream.\<close>

lemma write_chunk_next:
  assumes "app_core_inv e s" and "loaded e s" and "counted s"
  defines "s' \<equiv> s\<lparr>pcd_stream := pcd_stream s @ [take (unat (cmd_chunk_len (pcd_c s))) (pcd_shm s)]\<rparr>"
  shows "app_core_inv e s'" "taken s'" "unat (cmd_chunk_len (pcd_c s)) \<le> length (pcd_shm s)"
proof -
  have le: "written s \<le> unat (cmd_len (pcd_c s))" "4096 \<le> length (pcd_shm s)"
    and st: "concat (pcd_stream s) = take (written s) (pcd_image e s)"
    using assms(1) by (auto simp: app_core_inv_def)
  have n: "unat (cmd_chunk_len (pcd_c s)) = next_len s" using assms(2) by (simp add: loaded_def)
  then show l: "unat (cmd_chunk_len (pcd_c s)) \<le> length (pcd_shm s)" using le(2) by (simp add: next_len_def)
  have w: "written s' = written s + next_len s" using l n by (simp add: written_def s'_def)
  have im: "pcd_image e s' = pcd_image e s" by (simp add: pcd_image_def s'_def)
  have "concat (pcd_stream s') = take (written s) (pcd_image e s) @ take (next_len s) (drop (written s) (pcd_image e s))"
    using assms(2) st n by (simp add: s'_def loaded_def)
  then have c: "concat (pcd_stream s') = take (written s') (pcd_image e s')" by (simp add: w im take_add)
  show t: "taken s'" using assms(3) by (simp add: taken_def counted_def w) (simp add: s'_def)
  have "4096 dvd written s' \<or> written s' = unat (cmd_len (pcd_c s'))"
    using assms(1) le by (auto simp: app_core_inv_def w next_len_def min_def) (auto simp: s'_def)
  then show "app_core_inv e s'"
    using assms(1,3) c t by (auto simp: app_core_inv_def taken_def counted_def next_len_def) (auto simp: s'_def)
qed

lemma magic_net:
  assumes "magic_inv s" and "cmd_magic (pcd_c s) = PCD_CMD_MAGIC_COPY" and "n \<noteq> NbBoot"
    and "n \<in> {NbCopy FcClear, NbValidate, NbSpin} \<Longrightarrow> all_moved s"
  shows "magic_inv (s\<lparr>pcd_net := n\<rparr>)"
  using assms by (auto simp: magic_inv_def)

lemma magic_frame_cmd [simp]:
  "magic_inv (s\<lparr>pcd_c := (pcd_c s)\<lparr>cmd_chunk_written := b\<rparr>\<rparr>) = magic_inv s"
  "magic_inv (s\<lparr>pcd_c := (pcd_c s)\<lparr>cmd_chunk_available := b\<rparr>\<rparr>) = magic_inv s"
  "magic_inv (s\<lparr>pcd_stream := st\<rparr>) = magic_inv s"
  by (simp_all add: magic_inv_def) (simp add: all_moved_def)

lemma core_frame_cmd [simp]:
  "app_core_inv e (s\<lparr>pcd_c := (pcd_c s)\<lparr>cmd_chunk_written := b\<rparr>\<rparr>) = app_core_inv e s"
  "app_core_inv e (s\<lparr>pcd_c := (pcd_c s)\<lparr>cmd_chunk_available := b\<rparr>\<rparr>) = app_core_inv e s"
  "app_core_inv e (s\<lparr>pcd_c := (pcd_c s)\<lparr>cmd_magic := x\<rparr>\<rparr>) = app_core_inv e s"
  by (simp_all add: app_core_inv_def external_def)

lemma handshake_settled: "handshake e a s \<Longrightarrow> all_moved s \<Longrightarrow> app_core_inv e s \<Longrightarrow> settled a s"
  by (cases a) (auto simp: settled_def loaded_def next_len_def taken_def all_moved_def app_core_inv_def unat_eq_0)

lemma netboot_copy_inv:
  assumes "pcd_inv e s" and "pcd_net s = NbCopy p"
  shows "\<exists>s'. netboot_step e rc (NbCopy p) s = Some s' \<and> pcd_inv e s'"
proof -
  have inv: "app_core_inv e s" "magic_inv s" "net_ok e (NbCopy p) (pcd_app s) s" "external (pcd_c s)"
    "cmd_magic (pcd_c s) = PCD_CMD_MAGIC_COPY"
    using assms by (auto simp: pcd_inv_def app_core_inv_def magic_inv_def)
  show ?thesis
  proof (cases p)
    case FcMagic
    then show ?thesis using inv assms(2)
      by (auto simp: pcd_inv_def offered_def settled_def intro!: magic_net)
  next
    case FcInternal
    then show ?thesis using inv(3) by simp
  next
    case FcLoop
    have "all_moved s" if "\<not> cmd_bytes_moved (pcd_c s) < cmd_len (pcd_c s)"
      using that inv(1) by (auto simp: all_moved_def app_core_inv_def word_le_nat_alt not_less intro: word_unat_eq_iff [THEN iffD2])
    then show ?thesis using inv FcLoop
      by (auto simp: pcd_inv_def intro!: magic_net handshake_settled)
  next
    case FcAvail
    then show ?thesis using inv
      by (cases "pcd_app s") (auto simp: pcd_inv_def offered_def intro!: magic_net)
  next
    case FcWrite
    then have o: "offered e (pcd_app s) s" using inv(3) by simp
    then have w: "loaded e s" "counted s" by (auto simp: offered_def)
    note next_chunk = write_chunk_next [OF inv(1) w]
    obtain sh where sh: "clear_shm s = Some (s\<lparr>pcd_shm := sh\<rparr>)" "app_core_inv e (s\<lparr>pcd_shm := sh\<rparr>)"
      using clear_shm_inv [OF inv(1)] by blast
    show ?thesis
    proof (cases "rc = 0")
      case True
      have "pcd_inv e (s\<lparr>pcd_stream := pcd_stream s @ [take (unat (cmd_chunk_len (pcd_c s))) (pcd_shm s)],
                         pcd_net := NbCopy FcClearAvail\<rparr>)"
        using next_chunk(1,2) o inv(2,5) by (auto simp: pcd_inv_def offered_def intro!: magic_net)
      then show ?thesis using True FcWrite next_chunk(3) by simp
    next
      case False
      then show ?thesis using FcWrite next_chunk(3) sh inv(2,5) settled_of_offered [OF o]
        by (auto simp: pcd_inv_def intro!: magic_net)
    qed
  next
    case FcClearAvail
    then show ?thesis using inv by (auto simp: pcd_inv_def intro!: magic_net)
  next
    case FcSetWritten
    then show ?thesis using inv by (auto simp: pcd_inv_def intro!: magic_net)
  next
    case FcClear
    obtain sh where sh: "clear_shm s = Some (s\<lparr>pcd_shm := sh\<rparr>)" "app_core_inv e (s\<lparr>pcd_shm := sh\<rparr>)"
      using clear_shm_inv [OF inv(1)] by blast
    have "all_moved (s\<lparr>pcd_shm := sh\<rparr>)" using inv(2) assms(2) FcClear by (auto simp: magic_inv_def all_moved_def)
    then show ?thesis using FcClear sh inv by (auto simp: pcd_inv_def intro!: magic_net)
  qed
qed

lemma net_step_inv:
  assumes "pcd_inv e s"
  shows "\<exists>s'. netboot_step e rc (pcd_net s) s = Some s' \<and> pcd_inv e s'"
proof (cases "pcd_net s")
  case NbStart
  then have "cmd_magic (pcd_c s) = PCD_CMD_MAGIC_COPY" "offered e (pcd_app s) s" "external (pcd_c s)"
    using assms by (auto simp: pcd_inv_def magic_inv_def app_core_inv_def)
  then show ?thesis using NbStart assms settled_of_offered [of e "pcd_app s" s]
    by (auto simp: pcd_inv_def Let_def pcd_fw_copy_status_get_def intro!: magic_net)
next
  case (NbCopy p)
  then show ?thesis using netboot_copy_inv [OF assms NbCopy] by metis
next
  case NbValidate
  then show ?thesis using assms
    by (auto simp: pcd_inv_def magic_inv_def settled_def pcd_fw_copy_done_def pcd_magic)
next
  case NbInvalidate
  then show ?thesis using assms
    by (auto simp: pcd_inv_def magic_inv_def settled_def pcd_fw_copy_invalidate_def pcd_magic)
next
  case NbBoot
  then show ?thesis using assms by (simp add: pcd_inv_def magic_inv_def)
qed (use assms in \<open>simp_all add: pcd_inv_def\<close>)

interpretation pm: machine "pcd_turn e" "\<lambda>t s. True" "pcd_inv e" for e
  by unfold_locales (auto simp: pcd_turn_def app_step_inv net_step_inv split: turn.splits)

section \<open>Runs of an update\<close>

text \<open>The command stays the one that was written.\<close>

definition same_cmd :: "pcd \<Rightarrow> pcd \<Rightarrow> bool" where
  "same_cmd s s' \<longleftrightarrow> cmd_data (pcd_c s') = cmd_data (pcd_c s) \<and> cmd_len (pcd_c s') = cmd_len (pcd_c s)"

lemma same_cmd_copy: "copy_chunk mem s = Some s' \<Longrightarrow> same_cmd s s'"
  by (auto simp: copy_chunk_def same_cmd_def Let_def split: if_splits)

lemma same_cmd_clear: "clear_shm s = Some s' \<Longrightarrow> same_cmd s s'"
  by (auto simp: clear_shm_def same_cmd_def split: if_splits)

lemma same_cmd_app: "app_step mem a s = Some s' \<Longrightarrow> same_cmd s s'"
  using same_cmd_copy [of mem s]
  by (cases a) (auto simp: same_cmd_def force_off_def add_moved_def Let_def split: pcd_status.splits)

lemma same_cmd_fw: "fw_copy_step e rc p s = Some (r, s') \<Longrightarrow> same_cmd s s'"
  using same_cmd_clear [of s]
  by (cases p) (auto simp: same_cmd_def split: if_splits)

lemma same_cmd_net: "netboot_step e rc n s = Some s' \<Longrightarrow> same_cmd s s'"
proof (cases n)
  case (NbCopy p)
  assume "netboot_step e rc n s = Some s'"
  then obtain r s1 where "fw_copy_step e rc p s = Some (r, s1)" "pcd_c s' = pcd_c s1"
    using NbCopy by (cases "fw_copy_step e rc p s") (force split: sum.splits)+
  then show ?thesis using same_cmd_fw [of e rc p s r s1] by (simp add: same_cmd_def)
qed (auto simp: same_cmd_def pcd_fw_copy_done_def pcd_fw_copy_invalidate_def Let_def split: if_splits)

lemma same_cmd_run: "run (pcd_turn e) ts s = Some s' \<Longrightarrow> same_cmd s s'"
proof (induction ts arbitrary: s)
  case (Cons t ts)
  then obtain s1 where s1: "pcd_turn e t s = Some s1" "run (pcd_turn e) ts s1 = Some s'"
    by (auto simp: bind_eq_Some_conv)
  have "same_cmd s s1" using s1(1) same_cmd_app same_cmd_net by (auto simp: pcd_turn_def split: turn.splits)
  with Cons.IH [OF s1(2)] show ?case by (simp add: same_cmd_def)
qed (simp add: same_cmd_def)

lemma same_cmd_image: "same_cmd s s' \<Longrightarrow> pcd_image e s' = pcd_image e s"
  by (simp add: same_cmd_def pcd_image_def)

lemma pcd_inv_prefix:
  assumes "pcd_inv e s"
  shows "concat (pcd_stream s) = take (written s) (pcd_image e s) \<and> written s \<le> unat (cmd_len (pcd_c s))
     \<and> (4096 dvd written s \<or> written s = unat (cmd_len (pcd_c s)))
     \<and> (pcd_net s \<in> {NbCopy FcClear, NbValidate, NbSpin} \<longrightarrow> unat (cmd_len (pcd_c s)) \<le> written s + 4096)"
proof -
  have "unat (cmd_bytes_moved (pcd_c s)) \<le> written s + 4096" "written s \<le> unat (cmd_len (pcd_c s))"
    and m: "pcd_net s \<in> {NbCopy FcClear, NbValidate, NbSpin} \<Longrightarrow> all_moved s"
    using assms by (auto simp: pcd_inv_def app_core_inv_def magic_inv_def)
  then show ?thesis using assms by (auto simp: pcd_inv_def app_core_inv_def all_moved_def)
qed

text \<open>Where an update starts.\<close>

lemma update_start:
  assumes "0x10000000 \<le> src" and "len \<noteq> 0" and "4096 \<le> length (pcd_shm s)" and "pcd_stream s = []"
  obtains s0 where "network_core_update (pe_mem e) off src len s = Some s0" and "pcd_inv e s0"
    and "pcd_image e s0 = region (pe_mem e) src (unat len)" and "cmd_len (pcd_c s0) = len"
    and "pcd_stream s0 = []" and "pcd_net s0 = NbStart" and "pcd_app s0 = PollStatus"
    and "unat (cmd_bytes_moved (pcd_c s0)) = min 4096 (unat len)"
proof -
  have src: "src \<noteq> 0" using assms(1) by auto
  define c where "c = (pcd_c s)\<lparr>cmd_magic := PCD_CMD_MAGIC_COPY, cmd_data := src, cmd_len := len,
                                cmd_offset := off, cmd_bytes_moved := 0\<rparr>"
  define s1 where "s1 = (force_off True (pcd_do (SpuExtdomainSet True False) s))\<lparr>pcd_c := c\<rparr>"
  have s1: "4096 \<le> length (pcd_shm s1)" "taken s1" "written s1 \<le> unat (cmd_len (pcd_c s1))" "written s1 = 0"
    using assms(3,4) by (simp_all add: s1_def force_off_def taken_def written_def c_def)
  obtain s2 where s2: "copy_chunk (pe_mem e) s1 = Some s2" "loaded e s2" "taken s2" "4096 \<le> length (pcd_shm s2)"
    and f: "\<exists>n sh. s2 = s1\<lparr>pcd_c := (pcd_c s1)\<lparr>cmd_chunk_len := n\<rparr>, pcd_shm := sh\<rparr>"
    using copy_chunk_next [OF s1(1,2,3)] by metis
  have w: "written s2 = 0" "pcd_stream s2 = []" "cmd_data (pcd_c s2) = src" "cmd_len (pcd_c s2) = len"
    "cmd_magic (pcd_c s2) = PCD_CMD_MAGIC_COPY"
    using f s1(4) assms(4) by (auto simp: written_def s1_def force_off_def c_def)
  define s3 where "s3 = s2\<lparr>pcd_c := add_moved (pcd_c s2)\<rparr>"
  have c3: "counted s3" unfolding s3_def by (rule add_moved_next [OF s2(3,2)]) (simp add: w)
  define s4 where "s4 = s3\<lparr>pcd_c := (pcd_c s3)\<lparr>cmd_chunk_written := False, cmd_chunk_available := True\<rparr>\<rparr>"
  define s5 where "s5 = (pcd_do (BusyWait 1000000) (force_off False s4))\<lparr>pcd_app := PollStatus\<rparr>"
  have run: "network_core_update (pe_mem e) off src len s = Some s5"
    using s2(1) src assms(1,2)
    by (simp add: network_core_update_def pcd_cmd_write_def pcd_cmd_update_def s1_def [symmetric]
        c_def [symmetric] s3_def s4_def s5_def external_def)
       (simp add: s1_def force_off_def c_def)
  have fr: "written s5 = 0" "pcd_image e s5 = region (pe_mem e) src (unat len)" "loaded e s5" "counted s5"
    "pcd_stream s5 = []" "pcd_net s5 = NbStart" "pcd_app s5 = PollStatus" "4096 \<le> length (pcd_shm s5)"
    using w s2(2,4) c3 by (simp_all add: s5_def s4_def s3_def force_off_def pcd_frame add_moved_def)
  have c5: "cmd_data (pcd_c s5) = src" "cmd_len (pcd_c s5) = len" "cmd_magic (pcd_c s5) = PCD_CMD_MAGIC_COPY"
    "avail s5" "\<not> done_flag s5"
    using w by (simp_all add: s5_def s4_def s3_def force_off_def add_moved_def)
  have m: "unat (cmd_bytes_moved (pcd_c s5)) = min 4096 (unat len)"
    using fr(1,4) c5(2) by (simp add: counted_def next_len_def)
  have "app_core_inv e s5" using fr c5 m assms(1) by (simp add: app_core_inv_def external_def)
  moreover have "magic_inv s5" using fr c5 by (simp add: magic_inv_def pcd_magic)
  ultimately have "pcd_inv e s5" using fr c5 by (simp add: pcd_inv_def offered_def)
  with run fr c5(2) m show thesis using that by blast
qed

lemma update_started:
  assumes "0x10000000 \<le> src" and "len \<noteq> 0" and "4096 \<le> length (pcd_shm s)" and "pcd_stream s = []"
    and "network_core_update (pe_mem e) off src len s = Some s0"
  shows "pcd_inv e s0" "pcd_image e s0 = region (pe_mem e) src (unat len)" "cmd_len (pcd_c s0) = len"
    "pcd_stream s0 = []" "pcd_net s0 = NbStart" "pcd_app s0 = PollStatus"
    "unat (cmd_bytes_moved (pcd_c s0)) = min 4096 (unat len)"
proof -
  obtain s1 where s1: "network_core_update (pe_mem e) off src len s = Some s1" "pcd_inv e s1"
    "pcd_image e s1 = region (pe_mem e) src (unat len)" "cmd_len (pcd_c s1) = len"
    "pcd_stream s1 = []" "pcd_net s1 = NbStart" "pcd_app s1 = PollStatus"
    "unat (cmd_bytes_moved (pcd_c s1)) = min 4096 (unat len)"
    using update_start [OF assms(1-4), of e off thesis] by simp
  moreover have "s0 = s1" by (rule option.inject [THEN iffD1, OF trans [OF assms(5) [symmetric] s1(1)]])
  ultimately show "pcd_inv e s0" "pcd_image e s0 = region (pe_mem e) src (unat len)" "cmd_len (pcd_c s0) = len"
    "pcd_stream s0 = []" "pcd_net s0 = NbStart" "pcd_app s0 = PollStatus"
    "unat (cmd_bytes_moved (pcd_c s0)) = min 4096 (unat len)"
    by simp_all
qed

text \<open>
  C3: in every schedule of the two cores the update runs without undefined behaviour, the bytes handed to
  the flash are a prefix of the image, cut at a page or whole, and once the network core
  validates the flash all but at most the last page of the image is there.
\<close>

theorem pcd_writes_prefix:
  assumes "0x10000000 \<le> src" and "len \<noteq> 0" and "4096 \<le> length (pcd_shm s)" and "pcd_stream s = []"
    and "network_core_update (pe_mem e) off src len s = Some s0"
  shows "\<exists>s' w. run (pcd_turn e) ts s0 = Some s'
     \<and> concat (pcd_stream s') = take w (region (pe_mem e) src (unat len)) \<and> w \<le> unat len
     \<and> (4096 dvd w \<or> w = unat len)
     \<and> (pcd_net s' \<in> {NbCopy FcClear, NbValidate, NbSpin} \<longrightarrow> unat len \<le> w + 4096)"
proof -
  note i = update_started [OF assms]
  obtain s' where s': "run (pcd_turn e) ts s0 = Some s'" "pcd_inv e s'" using pm.run_inv_always i(1) by blast
  have same: "pcd_image e s' = region (pe_mem e) src (unat len)" "cmd_len (pcd_c s') = len"
    using same_cmd_run [OF s'(1)] i same_cmd_image [OF same_cmd_run [OF s'(1)]] by (simp_all add: same_cmd_def)
  show ?thesis
    by (rule exI [of _ s'], rule exI [of _ "written s'"], rule conjI [OF s'(1)])
       (rule pcd_inv_prefix [OF s'(2), unfolded same])
qed

text \<open>
  Once everything is counted as moved while the network core is not looking at the flag, it never
  writes again.
\<close>

definition doomed :: "pcd_env \<Rightarrow> pcd \<Rightarrow> bool" where
  "doomed e s \<longleftrightarrow> pcd_inv e s \<and> all_moved s \<and> \<not> pe_valid e (pcd_stream s)
     \<and> cmd_magic (pcd_c s) \<noteq> PCD_CMD_MAGIC_DONE \<and> pcd_app s \<noteq> AppReturned UpdateDone
     \<and> pcd_net s \<in> {NbStart, NbCopy FcMagic, NbCopy FcLoop, NbCopy FcClear, NbValidate, NbInvalidate, NbReturned}"

lemma doomed_no_chunk:
  assumes "doomed e s" and "pcd_app s = AddMoved"
  shows "cmd_chunk_len (pcd_c s) = 0"
  using assms handshake_settled [of e AddMoved s]
  by (auto simp: doomed_def pcd_inv_def settled_def offered_def)

lemma doomed_step:
  assumes "doomed e s" and "pcd_turn e t s = Some s'"
  shows "doomed e s' \<and> pcd_stream s' = pcd_stream s"
proof -
  have "pcd_inv e s'"
    using app_step_inv [of e s] net_step_inv [of e s] assms by (auto simp: doomed_def pcd_turn_def split: turn.splits)
  moreover have "all_moved s' \<and> cmd_magic (pcd_c s') \<noteq> PCD_CMD_MAGIC_DONE \<and> pcd_app s' \<noteq> AppReturned UpdateDone
      \<and> pcd_net s' \<in> {NbStart, NbCopy FcMagic, NbCopy FcLoop, NbCopy FcClear, NbValidate, NbInvalidate, NbReturned}
      \<and> pcd_stream s' = pcd_stream s"
  proof (cases t)
    case App
    then have "app_step (pe_mem e) (pcd_app s) s = Some s'" using assms(2) by (simp add: pcd_turn_def)
    then show ?thesis using assms(1) doomed_no_chunk [OF assms(1)]
      by (cases "pcd_app s") (auto simp: doomed_def all_moved_def add_moved_def copy_chunk_def Let_def
          pcd_fw_copy_status_get_def split: if_splits)
  next
    case (Net rc)
    then have "netboot_step e rc (pcd_net s) s = Some s'" using assms(2) by (simp add: pcd_turn_def)
    moreover have "external (pcd_c s)" "live (pcd_net s) \<Longrightarrow> cmd_magic (pcd_c s) = PCD_CMD_MAGIC_COPY"
      and d: "all_moved s" "\<not> pe_valid e (pcd_stream s)" "cmd_magic (pcd_c s) \<noteq> PCD_CMD_MAGIC_DONE"
        "pcd_app s \<noteq> AppReturned UpdateDone"
      and n: "pcd_net s \<in> {NbStart, NbCopy FcMagic, NbCopy FcLoop, NbCopy FcClear, NbValidate, NbInvalidate, NbReturned}"
      using assms(1) by (auto simp: doomed_def pcd_inv_def app_core_inv_def magic_inv_def)
    ultimately have st: "netboot_step e rc (pcd_net s) s = Some s'" "external (pcd_c s)"
      "live (pcd_net s) \<Longrightarrow> cmd_magic (pcd_c s) = PCD_CMD_MAGIC_COPY" by blast+
    show ?thesis
    proof (cases "pcd_net s")
      case NbStart
      then show ?thesis using st d by (auto simp: all_moved_def Let_def pcd_fw_copy_status_get_def split: if_splits)
    next
      case (NbCopy p)
      then have "p = FcMagic \<or> p = FcLoop \<or> p = FcClear" using n by auto
      then show ?thesis
        using st d NbCopy by (elim disjE) (auto simp: all_moved_def clear_shm_def split: if_splits)
    next
      case NbInvalidate
      then show ?thesis using st d by (auto simp: all_moved_def pcd_fw_copy_invalidate_def pcd_magic)
    qed (use st d n in \<open>auto simp: all_moved_def\<close>)
  qed
  ultimately show ?thesis using assms(1) by (auto simp: doomed_def)
qed

lemma doomed_run:
  "doomed e s \<Longrightarrow> run (pcd_turn e) ts s = Some s' \<Longrightarrow>
     pcd_stream s' = pcd_stream s \<and> pcd_app s' \<noteq> AppReturned UpdateDone"
proof (induction ts arbitrary: s)
  case (Cons t ts)
  then obtain s1 where s1: "pcd_turn e t s = Some s1" "run (pcd_turn e) ts s1 = Some s'"
    by (auto simp: bind_eq_Some_conv)
  with Cons.IH [OF _ s1(2)] show ?case using doomed_step [OF Cons.prems(1) s1(1)] by simp
qed (simp add: doomed_def)

text \<open>
  an image of at most one page is counted as moved before the network core starts, so in no schedule
  is any of it written; the update can only succeed if the flash was valid without it.
\<close>

theorem single_page_never_written:
  assumes "0x10000000 \<le> src" and "len \<noteq> 0" and "4096 \<le> length (pcd_shm s)" and "pcd_stream s = []"
    and "network_core_update (pe_mem e) off src len s = Some s0"
    and "unat len \<le> 4096" and "\<not> pe_valid e []" and "run (pcd_turn e) ts s0 = Some s'"
  shows "pcd_stream s' = [] \<and> pcd_app s' \<noteq> AppReturned UpdateDone"
proof -
  note i = update_started [OF assms(1-5)]
  have "all_moved s0" using i(3,7) assms(6) by (simp add: all_moved_def word_unat_eq_iff)
  moreover have "cmd_magic (pcd_c s0) = PCD_CMD_MAGIC_COPY" using i(1,5) by (simp add: pcd_inv_def magic_inv_def)
  ultimately have "doomed e s0" using i assms(7) by (simp add: doomed_def pcd_magic)
  with doomed_run [OF _ assms(8)] i(4) show ?thesis by simp
qed

text \<open>
  C18: the last page is lost unless the network core is between its two tests: if the application core
  counts the last chunk while the network core is about to test the count, then nothing more is
  written in any schedule, and an update that needs the last page never succeeds.
\<close>

theorem last_page_needs_race:
  assumes "0x10000000 \<le> src" and "len \<noteq> 0" and "4096 \<le> length (pcd_shm s)" and "pcd_stream s = []"
    and "network_core_update (pe_mem e) off src len s = Some s0"
    and "run (pcd_turn e) ts s0 = Some s1" and "pcd_app s1 = AddMoved"
    and "cmd_bytes_moved (pcd_c s1) + cmd_chunk_len (pcd_c s1) = len"
    and "pcd_net s1 = NbCopy FcLoop" and "\<not> pe_valid e (pcd_stream s1)"
    and "run (pcd_turn e) (App # ts') s1 = Some s'"
  shows "pcd_stream s' = pcd_stream s1 \<and> pcd_app s' \<noteq> AppReturned UpdateDone"
proof -
  note i = update_started [OF assms(1-5)]
  have len: "cmd_len (pcd_c s1) = len" using same_cmd_run [OF assms(6)] i(3) by (simp add: same_cmd_def)
  have inv: "pcd_inv e s1" using pm.run_inv_always [of e s0 ts] i(1) assms(6) by auto
  obtain s2 where s2: "pcd_turn e App s1 = Some s2" "run (pcd_turn e) ts' s2 = Some s'"
    using assms(11) by (auto simp: bind_eq_Some_conv)
  then have e2: "s2 = s1\<lparr>pcd_c := add_moved (pcd_c s1), pcd_app := ClearWritten\<rparr>"
    using assms(7) by (simp add: pcd_turn_def)
  have "pcd_inv e s2" using app_add_inv [OF inv assms(7)] by (simp add: e2)
  moreover have "all_moved s2" using assms(8) len by (simp add: e2 all_moved_def add_moved_def)
  moreover have "cmd_magic (pcd_c s1) = PCD_CMD_MAGIC_COPY" using inv assms(9) by (simp add: pcd_inv_def magic_inv_def)
  ultimately have "doomed e s2" using assms(9,10) by (simp add: doomed_def e2 add_moved_def pcd_magic)
  with doomed_run [OF _ s2(2)] show ?thesis by (simp add: e2)
qed

text \<open>
  The schedule in which the application core copies, counts and offers the second page while the network
  core stands between its two tests.
\<close>

definition first_page :: "turn list" where 
  "first_page = [Net 0, Net 0, Net 0, Net 0, Net 0, Net 0, Net 0, Net 0]"
definition second_page :: "turn list" where 
  "second_page = [App, App, App, App, App, App, Net 0, Net 0, Net 0, Net 0, Net 0, Net 0]"

lemma first_page_run:
  assumes "pcd_inv e s" and "pcd_net s = NbStart" and "pcd_app s = PollStatus"
    and "pe_fprotect_b0n e = 0" and "pe_stream_init e = 0" and "4096 < unat (cmd_len (pcd_c s))"
    and "pcd_stream s = []"
  obtains s' where "run (pcd_turn e) first_page s = Some s'" and "pcd_inv e s'"
    and "pcd_net s' = NbCopy FcAvail" and "pcd_app s' = PollStatus" and "done_flag s'" and "\<not> avail s'"
    and "written s' = 4096"
proof -
  have o: "offered e PollStatus s" and m: "cmd_magic (pcd_c s) = PCD_CMD_MAGIC_COPY" and x: "external (pcd_c s)"
    and l: "4096 \<le> length (pcd_shm s)"
    using assms(1-3) by (auto simp: pcd_inv_def magic_inv_def app_core_inv_def)
  have w: "written s = 0" using assms(7) by (simp add: written_def)
  have n: "unat (cmd_chunk_len (pcd_c s)) = 4096" "unat (cmd_bytes_moved (pcd_c s)) = 4096" "avail s"
    using o w assms(6) by (auto simp: offered_def loaded_def counted_def next_len_def)
  then have lt: "cmd_bytes_moved (pcd_c s) < cmd_len (pcd_c s)" using assms(6) by (simp add: word_less_nat_alt)
  let ?r = "run (pcd_turn e) first_page s"
  obtain s' where s': "?r = Some s'" "pcd_inv e s'" using pm.run_inv_always assms(1) by blast
  have "pcd_net s' = NbCopy FcAvail" "pcd_app s' = PollStatus" "done_flag s'" "\<not> avail s'"
    "pcd_stream s' = [take 4096 (pcd_shm s)]"
    using s'(1) assms(2-5,7) m x l n lt
    by (auto simp: first_page_def pcd_turn_def pcd_fw_copy_status_get_def pcd_do_def)
  then show thesis using s' that l by (auto simp: written_def)
qed

lemma second_page_run:
  assumes "pcd_inv e s" and "pcd_net s = NbCopy FcAvail" and "pcd_app s = PollStatus" and "done_flag s"
    and "\<not> avail s" and "unat (cmd_len (pcd_c s)) \<le> written s + 4096"
  obtains s' where "run (pcd_turn e) second_page s = Some s'" and "pcd_inv e s'"
    and "pcd_net s' = NbValidate" and "pcd_app s' = PollStatus" and "written s' = unat (cmd_len (pcd_c s'))"
proof -
  have m: "cmd_magic (pcd_c s) = PCD_CMD_MAGIC_COPY" and x: "external (pcd_c s)" and t: "taken s"
    and l: "4096 \<le> length (pcd_shm s)" "written s \<le> unat (cmd_len (pcd_c s))"
    using assms by (auto simp: pcd_inv_def magic_inv_def app_core_inv_def)
  obtain s1 where s1: "copy_chunk (pe_mem e) (pcd_do (BusyWait 1000) s) = Some s1" "loaded e s1" "taken s1"
    "4096 \<le> length (pcd_shm s1)"
    and "\<exists>n sh. s1 = (pcd_do (BusyWait 1000) s)\<lparr>pcd_c := (pcd_c (pcd_do (BusyWait 1000) s))\<lparr>cmd_chunk_len := n\<rparr>, pcd_shm := sh\<rparr>"
    by (rule copy_chunk_next [of "pcd_do (BusyWait 1000) s" e]) (use l t that in auto)
  then obtain n sh where f: "s1 = (pcd_do (BusyWait 1000) s)\<lparr>pcd_c := (pcd_c s)\<lparr>cmd_chunk_len := n\<rparr>, pcd_shm := sh\<rparr>"
    by auto
  have n: "unat n = unat (cmd_len (pcd_c s)) - written s" "unat n \<le> length sh"
    using s1(2,4) assms(6) by (auto simp: loaded_def next_len_def written_def f)
  have "counted (s1\<lparr>pcd_c := add_moved (pcd_c s1)\<rparr>)"
    by (rule add_moved_next [OF s1(3,2)]) (use l(2) in \<open>simp add: f written_def\<close>)
  then have all: "cmd_bytes_moved (pcd_c s) + n = cmd_len (pcd_c s)"
    using n assms(6) l(2) by (simp add: counted_def next_len_def written_def add_moved_def f word_unat_eq_iff)
  obtain s' where s': "run (pcd_turn e) second_page s = Some s'" "pcd_inv e s'"
    using pm.run_inv_always assms(1) by blast
  have cp: "copy_chunk (pe_mem e) (pcd_do (BusyWait 1000) s\<lparr>pcd_app := CopyChunk\<rparr>) = Some (s1\<lparr>pcd_app := CopyChunk\<rparr>)"
    using s1(1) by (auto simp: copy_chunk_def Let_def split: if_splits)
  have "pcd_net s' = NbValidate" "pcd_app s' = PollStatus" "pcd_stream s' = pcd_stream s @ [take (unat n) sh]"
    "cmd_len (pcd_c s') = cmd_len (pcd_c s)"
    using s'(1) assms(2-5) m x cp n s1(4) all
    by (auto simp: second_page_def pcd_turn_def pcd_fw_copy_status_get_def f add_moved_def clear_shm_def)
  then show thesis using that s' n l(2) by (simp add: written_def)
qed

text \<open>
  an image of two pages can be updated: there is a schedule (the one above) in which the whole image
  is written, page by page, and the update succeeds.
\<close>

theorem two_page_update_succeeds:
  assumes "0x10000000 \<le> src" and "len \<noteq> 0" and "4096 \<le> length (pcd_shm s)" and "pcd_stream s = []"
    and "network_core_update (pe_mem e) off src len s = Some s0"
    and "4096 < unat len" and "unat len \<le> 8192"
    and "pe_fprotect_b0n e = 0" and "pe_stream_init e = 0"
    and "\<And>st. concat st = region (pe_mem e) src (unat len) \<Longrightarrow> pe_valid e st"
  shows "\<exists>s'. run (pcd_turn e) (first_page @ second_page @ [Net 0, App]) s0 = Some s'
     \<and> concat (pcd_stream s') = region (pe_mem e) src (unat len) \<and> pcd_app s' = AppReturned UpdateDone"
proof -
  note i = update_started [OF assms(1-5)]
  obtain s1 where s1: "run (pcd_turn e) first_page s0 = Some s1" "pcd_inv e s1" "pcd_net s1 = NbCopy FcAvail"
    "pcd_app s1 = PollStatus" "done_flag s1" "\<not> avail s1" "written s1 = 4096"
    by (rule first_page_run [OF i(1,5,6) assms(8,9) _ i(4)]) (use i(3) assms(6) that in auto)
  have l1: "cmd_len (pcd_c s1) = len" using same_cmd_run [OF s1(1)] i(3) by (simp add: same_cmd_def)
  obtain s2 where s2: "run (pcd_turn e) second_page s1 = Some s2" "pcd_inv e s2" "pcd_net s2 = NbValidate"
    "pcd_app s2 = PollStatus" "written s2 = unat (cmd_len (pcd_c s2))"
    by (rule second_page_run [OF s1(2-6)]) (use l1 s1(7) assms(7) that in auto)
  have r: "run (pcd_turn e) (first_page @ second_page) s0 = Some s2"
    by (simp add: run_append s1(1) s2(1))
  have l2: "cmd_len (pcd_c s2) = len" "pcd_image e s2 = region (pe_mem e) src (unat len)"
    using same_cmd_run [OF r] same_cmd_image [OF same_cmd_run [OF r]] i(2,3) by (simp_all add: same_cmd_def)
  have c: "concat (pcd_stream s2) = region (pe_mem e) src (unat len)"
    using conjunct1 [OF pcd_inv_prefix [OF s2(2)]] s2(5) l2 by simp
  have "run (pcd_turn e) [Net 0, App] s2 = Some (s2\<lparr>pcd_c := pcd_fw_copy_done (pcd_c s2), pcd_app := AppReturned UpdateDone,
      pcd_net := NetOff, pcd_calls := pcd_calls s2 @ [BusyWait 1000, NetworkForceOff True]\<rparr>)"
    using assms(10) [OF c] s2(3,4)
    by (simp add: pcd_turn_def pcd_fw_copy_done_def pcd_fw_copy_status_get_def pcd_magic force_off_def pcd_do_def)
  then have "run (pcd_turn e) (first_page @ second_page @ [Net 0, App]) s0 = Some (s2\<lparr>pcd_c := pcd_fw_copy_done (pcd_c s2),
      pcd_app := AppReturned UpdateDone,
      pcd_net := NetOff, pcd_calls := pcd_calls s2 @ [BusyWait 1000, NetworkForceOff True]\<rparr>)"
    using r by (simp only: run_append append_assoc [symmetric]) simp
  with c show ?thesis by simp
qed

section \<open>What success means\<close>

definition done_inv :: "pcd_env \<Rightarrow> pcd \<Rightarrow> bool" where
  "done_inv e s \<longleftrightarrow>
     (pcd_net s = NbSpin \<or> pcd_app s = AppReturned UpdateDone \<or> cmd_magic (pcd_c s) = PCD_CMD_MAGIC_DONE \<longrightarrow>
        pe_valid e (pcd_stream s) \<and> pcd_net s \<in> {NbSpin, NetOff})
     \<and> (pcd_app s = AppReturned UpdateDone \<longrightarrow> pcd_net s = NetOff)"

lemma fw_copy_frame:
  "fw_copy_step e rc p s = Some (r, s') \<Longrightarrow>
     cmd_magic (pcd_c s') = cmd_magic (pcd_c s) \<and> pcd_app s' = pcd_app s \<and> pcd_net s' = pcd_net s"
  by (cases p) (auto simp: clear_shm_def split: if_splits)

lemma done_inv_app:
  assumes "done_inv e s" and "app_step mem (pcd_app s) s = Some s'"
  shows "done_inv e s'"
  using assms
  by (cases "pcd_app s") (auto simp: done_inv_def pcd_fw_copy_status_get_def force_off_def copy_chunk_def
      add_moved_def Let_def split: if_splits)

lemma done_inv_net:
  assumes "done_inv e s" and "netboot_step e rc (pcd_net s) s = Some s'"
  shows "done_inv e s'"
proof (cases "pcd_net s")
  case (NbCopy p)
  then obtain r s1 where fw: "fw_copy_step e rc p s = Some (r, s1)"
    and s': "s' = s1\<lparr>pcd_net := (case r of Inl p' \<Rightarrow> NbCopy p' | Inr err \<Rightarrow> if err \<noteq> 0 then NbInvalidate else NbValidate)\<rparr>"
    using assms(2) by (cases "fw_copy_step e rc p s") (auto split: sum.splits)
  have "cmd_magic (pcd_c s) \<noteq> PCD_CMD_MAGIC_DONE" "pcd_app s \<noteq> AppReturned UpdateDone"
    using assms(1) NbCopy by (auto simp: done_inv_def)
  then show ?thesis using fw_copy_frame [OF fw] by (auto simp: s' done_inv_def split: sum.splits)
qed (use assms in \<open>auto simp: done_inv_def Let_def pcd_fw_copy_done_def pcd_fw_copy_invalidate_def pcd_magic split: if_splits\<close>)

lemma done_inv_run: "done_inv e s \<Longrightarrow> run (pcd_turn e) ts s = Some s' \<Longrightarrow> done_inv e s'"
proof (induction ts arbitrary: s)
  case (Cons t ts)
  then obtain s1 where s1: "pcd_turn e t s = Some s1" "run (pcd_turn e) ts s1 = Some s'"
    by (auto simp: bind_eq_Some_conv)
  have "done_inv e s1"
    using s1(1) done_inv_app [OF Cons.prems(1)] done_inv_net [OF Cons.prems(1)]
    by (cases t) (simp_all add: pcd_turn_def)
  with Cons.IH s1(2) show ?case by blast
qed simp

text \<open>An image in internal flash is written by the network core in one call.\<close>

definition internal_inv :: "pcd_env \<Rightarrow> pcd \<Rightarrow> bool" where
  "internal_inv e s \<longleftrightarrow> \<not> external (pcd_c s) \<and> (waiting (pcd_app s) \<or> (\<exists>r. pcd_app s = AppReturned r))
     \<and> (pcd_net s \<in> {NbStart, NbCopy FcMagic, NbCopy FcInternal} \<and> pcd_stream s = []
          \<and> cmd_magic (pcd_c s) = PCD_CMD_MAGIC_COPY
        \<or> pcd_net s \<in> {NbValidate, NbSpin, NetOff} \<and> pcd_stream s = [pcd_image e s]
        \<or> pcd_net s \<in> {NbInvalidate, NbReturned} \<and> cmd_magic (pcd_c s) \<noteq> PCD_CMD_MAGIC_DONE)"

lemma internal_inv_step:
  assumes "internal_inv e s" and "done_inv e s"
  shows "\<exists>s'. pcd_turn e t s = Some s' \<and> internal_inv e s'"
proof (cases t)
  case App
  then show ?thesis using assms
    by (cases "pcd_app s") (auto simp: pcd_turn_def internal_inv_def done_inv_def force_off_def Let_def
        pcd_fw_copy_status_get_def external_def pcd_image_def split: if_splits)
next
  case (Net rc)
  then show ?thesis using assms
    by (cases "pcd_net s") (auto simp: pcd_turn_def internal_inv_def done_inv_def Let_def external_def pcd_image_def
        pcd_fw_copy_status_get_def pcd_fw_copy_done_def pcd_fw_copy_invalidate_def pcd_magic split: if_splits)
qed

lemma internal_run:
  "internal_inv e s \<Longrightarrow> done_inv e s \<Longrightarrow> \<exists>s'. run (pcd_turn e) ts s = Some s' \<and> internal_inv e s'"
proof (induction ts arbitrary: s)
  case (Cons t ts)
  then obtain s1 where s1: "pcd_turn e t s = Some s1" "internal_inv e s1" using internal_inv_step by blast
  moreover have "done_inv e s1" using done_inv_run [of e s "[t]" s1] Cons.prems(2) s1(1) by simp
  ultimately show ?case using Cons.IH by simp
qed simp

lemma update_start_frame:
  assumes "network_core_update mem off src len s = Some s0" and "src \<noteq> 0" and "len \<noteq> 0"
  shows "cmd_magic (pcd_c s0) = PCD_CMD_MAGIC_COPY" "pcd_net s0 = NbStart" "pcd_app s0 = PollStatus"
    "cmd_data (pcd_c s0) = src" "cmd_len (pcd_c s0) = len" "pcd_stream s0 = pcd_stream s"
  using assms
  by (auto simp: network_core_update_def pcd_cmd_write_def pcd_cmd_update_def force_off_def copy_chunk_def
      add_moved_def Let_def split: if_splits)

text \<open>
  C35: when the update reports success the network core has validated what was written and is turned off;
  an image in internal flash has then been written whole, in one piece.
\<close>

theorem update_done_validated:
  assumes "network_core_update (pe_mem e) off src len s = Some s0" and "src \<noteq> 0" and "len \<noteq> 0"
    and "pcd_stream s = []" and "run (pcd_turn e) ts s0 = Some s'" and "pcd_app s' = AppReturned UpdateDone"
  shows "pe_valid e (pcd_stream s') \<and> pcd_net s' = NetOff
     \<and> (src < 0x10000000 \<longrightarrow> pcd_stream s' = [region (pe_mem e) src (unat len)])"
proof -
  note st = update_start_frame [OF assms(1-3)]
  have d0: "done_inv e s0" using st by (simp add: done_inv_def pcd_magic)
  have d: "done_inv e s'" by (rule done_inv_run [OF d0 assms(5)])
  have "pcd_stream s' = [region (pe_mem e) src (unat len)]" if "src < 0x10000000"
  proof -
    have "internal_inv e s0" using st assms(4) that by (simp add: internal_inv_def external_def)
    then have "internal_inv e s'" using internal_run [OF _ d0, of ts] assms(5) by auto
    moreover have "pcd_net s' = NetOff" using d assms(6) by (simp add: done_inv_def)
    ultimately have "pcd_stream s' = [pcd_image e s']" by (auto simp: internal_inv_def)
    then show ?thesis using same_cmd_run [OF assms(5)] st(4,5) by (simp add: pcd_image_def same_cmd_def)
  qed
  then show ?thesis using d assms(6) by (simp add: done_inv_def)
qed

section \<open>Witnesses\<close>

definition demo_pcd_env :: pcd_env where
  "demo_pcd_env = \<lparr>pe_mem = (\<lambda>a. ucast a), pe_fprotect_b0n = 0, pe_fprotect_app = 0, pe_stream_init = 0,
     pe_valid_source = (\<lambda>a. True), pe_valid = (\<lambda>st. st \<noteq> [])\<rparr>"

definition demo_pcd :: pcd where
  "demo_pcd = \<lparr>pcd_c = \<lparr>cmd_magic = 0, cmd_data = 0, cmd_len = 0, cmd_offset = 0, cmd_chunk_len = 0,
       cmd_bytes_moved = 0, cmd_chunk_available = False, cmd_chunk_written = False\<rparr>,
     pcd_shm = replicate 4096 0, pcd_app = PollStatus, pcd_net = NetOff, pcd_stream = [], pcd_calls = []\<rparr>"

lemma demo_pcd_shm: "4096 \<le> length (pcd_shm demo_pcd)" "pcd_stream demo_pcd = []"
  by (simp_all add: demo_pcd_def)

lemma demo_update:
  assumes "(len :: u32) \<noteq> 0"
  shows "\<exists>s0. network_core_update (pe_mem demo_pcd_env) 0 0x10000000 len demo_pcd = Some s0"
  by (rule update_start [where src = "0x10000000" and len = len and s = demo_pcd and e = demo_pcd_env and off = "0"]) (use assms demo_pcd_shm in auto)

theorem pcd_writes_prefix_witness:
  "\<exists>s0 s' w. network_core_update (pe_mem demo_pcd_env) 0 0x10000000 5000 demo_pcd = Some s0
     \<and> run (pcd_turn demo_pcd_env) [Net 0, App, Net 0, Net 0] s0 = Some s'
     \<and> concat (pcd_stream s') = take w (region (pe_mem demo_pcd_env) 0x10000000 (unat (5000 :: u32))) \<and> w \<le> unat (5000 :: u32)
     \<and> (4096 dvd w \<or> w = unat (5000 :: u32))"
proof -
  obtain s0 where s0: "network_core_update (pe_mem demo_pcd_env) 0 0x10000000 5000 demo_pcd = Some s0"
    using demo_update [of 5000] by auto
  have "(5000 :: u32) \<noteq> 0" "(0x10000000 :: u32) \<le> 0x10000000" by simp_all
  from pcd_writes_prefix [OF this(2,1) demo_pcd_shm s0, of "[Net 0, App, Net 0, Net 0]"] s0 show ?thesis by blast
qed

theorem single_page_never_written_witness:
  "\<exists>s0 s'. network_core_update (pe_mem demo_pcd_env) 0 0x10000000 100 demo_pcd = Some s0
     \<and> run (pcd_turn demo_pcd_env) [Net 0, Net 0, Net 0, App] s0 = Some s'
     \<and> pcd_stream s' = [] \<and> pcd_app s' \<noteq> AppReturned UpdateDone"
proof -
  obtain s0 where s0: "network_core_update (pe_mem demo_pcd_env) 0 0x10000000 100 demo_pcd = Some s0"
    using demo_update [of 100] by auto
  have c: "(100 :: u32) \<noteq> 0" "(0x10000000 :: u32) \<le> 0x10000000" "unat (100 :: u32) \<le> 4096"
    "\<not> pe_valid demo_pcd_env []" by (simp_all add: demo_pcd_env_def)
  obtain s' where s': "run (pcd_turn demo_pcd_env) [Net 0, Net 0, Net 0, App] s0 = Some s'"
    using pm.run_inv_always [of demo_pcd_env s0 "[Net 0, Net 0, Net 0, App]"] update_started(1) [OF c(2,1) demo_pcd_shm s0]
    by auto
  show ?thesis using single_page_never_written [OF c(2,1) demo_pcd_shm s0 c(3,4) s'] s0 s' by blast
qed

text \<open>The whole run of an image of 5000 bytes, and the one that ends with its last page lost.\<close>

theorem two_page_update_succeeds_witness:
  "\<exists>s0 s'. network_core_update (pe_mem demo_pcd_env) 0 0x10000000 5000 demo_pcd = Some s0
     \<and> run (pcd_turn demo_pcd_env) (first_page @ second_page @ [Net 0, App]) s0 = Some s'
     \<and> concat (pcd_stream s') = region (pe_mem demo_pcd_env) 0x10000000 (unat (5000 :: u32))
     \<and> pcd_app s' = AppReturned UpdateDone"
proof -
  obtain s0 where s0: "network_core_update (pe_mem demo_pcd_env) 0 0x10000000 5000 demo_pcd = Some s0"
    using demo_update [of 5000] by auto
  have c: "(5000 :: u32) \<noteq> 0" "(0x10000000 :: u32) \<le> 0x10000000" "4096 < unat (5000 :: u32)" "unat (5000 :: u32) \<le> 8192"
    "pe_fprotect_b0n demo_pcd_env = 0" "pe_stream_init demo_pcd_env = 0" by (simp_all add: demo_pcd_env_def)
  have v: "pe_valid demo_pcd_env st" if "concat st = region (pe_mem demo_pcd_env) 0x10000000 (unat (5000 :: u32))" for st
  proof -
    have "length (concat st) \<noteq> 0" using that by simp
    then show ?thesis by (auto simp: demo_pcd_env_def)
  qed
  show ?thesis using two_page_update_succeeds [OF c(2,1) demo_pcd_shm s0 c(3-6) v] s0 by blast
qed

definition all_but_race :: "turn list" where
  "all_but_race = [Net 0, Net 0, Net 0, Net 0, Net 0, Net 0, Net 0, App, App, App]"

lemma all_but_race_run:
  assumes "pcd_inv e s" and "pcd_net s = NbStart" and "pcd_app s = PollStatus"
    and "pe_fprotect_b0n e = 0" and "pe_stream_init e = 0" and "4096 < unat (cmd_len (pcd_c s))"
    and "unat (cmd_len (pcd_c s)) \<le> 8192" and "pcd_stream s = []"
  obtains s' where "run (pcd_turn e) all_but_race s = Some s'" and "pcd_net s' = NbCopy FcLoop"
    and "pcd_app s' = AddMoved" and "cmd_bytes_moved (pcd_c s') + cmd_chunk_len (pcd_c s') = cmd_len (pcd_c s)"
    and "length (pcd_stream s') = 1"
proof -
  have o: "offered e PollStatus s" and m: "cmd_magic (pcd_c s) = PCD_CMD_MAGIC_COPY" and x: "external (pcd_c s)"
    and l: "4096 \<le> length (pcd_shm s)"
    using assms(1-3) by (auto simp: pcd_inv_def magic_inv_def app_core_inv_def)
  have w: "written s = 0" using assms(8) by (simp add: written_def)
  have n: "unat (cmd_chunk_len (pcd_c s)) = 4096" "unat (cmd_bytes_moved (pcd_c s)) = 4096" "avail s"
    using o w assms(6) by (auto simp: offered_def loaded_def counted_def next_len_def)
  then have lt: "cmd_bytes_moved (pcd_c s) < cmd_len (pcd_c s)" using assms(6) by (simp add: word_less_nat_alt)
  have left: "unat (cmd_len (pcd_c s) - cmd_bytes_moved (pcd_c s)) = unat (cmd_len (pcd_c s)) - 4096"
    using lt n(2) by (simp add: unat_sub word_le_nat_alt word_less_nat_alt)
  then have left': "\<not> LAYOUT_PAGE_SIZE < cmd_len (pcd_c s) - cmd_bytes_moved (pcd_c s)"
    using assms(7) by (simp add: LAYOUT_PAGE_SIZE_def word_less_nat_alt)
  obtain s' where s': "run (pcd_turn e) all_but_race s = Some s'" using pm.run_inv_always assms(1) by blast
  have "unat (cmd_len (pcd_c s) - cmd_bytes_moved (pcd_c s)) \<le> length (pcd_shm s)" using left assms(7) l by simp
  then have "pcd_net s' = NbCopy FcLoop \<and> pcd_app s' = AddMoved \<and> length (pcd_stream s') = 1
      \<and> cmd_bytes_moved (pcd_c s') + cmd_chunk_len (pcd_c s') = cmd_len (pcd_c s)"
    using s' assms(2-5,8) m x l n lt left'
    by (auto simp: all_but_race_def pcd_turn_def pcd_fw_copy_status_get_def pcd_do_def copy_chunk_def Let_def external_def)
  with s' that show thesis by blast
qed

definition demo_strict_env :: pcd_env where
  "demo_strict_env = demo_pcd_env\<lparr>pe_valid := (\<lambda>st. 2 \<le> length st)\<rparr>"

theorem last_page_needs_race_witness:
  "\<exists>s0 s1 s'. network_core_update (pe_mem demo_strict_env) 0 0x10000000 5000 demo_pcd = Some s0
     \<and> run (pcd_turn demo_strict_env) all_but_race s0 = Some s1
     \<and> run (pcd_turn demo_strict_env) (App # [App, Net 0, Net 0, App, App]) s1 = Some s'
     \<and> pcd_stream s' = pcd_stream s1 \<and> pcd_app s' \<noteq> AppReturned UpdateDone"
proof -
  have mem: "pe_mem demo_strict_env = pe_mem demo_pcd_env" by (simp add: demo_strict_env_def)
  obtain s0 where s0: "network_core_update (pe_mem demo_strict_env) 0 0x10000000 5000 demo_pcd = Some s0"
    using demo_update [of 5000] mem by auto
  have c: "(5000 :: u32) \<noteq> 0" "(0x10000000 :: u32) \<le> 0x10000000"
    "pe_fprotect_b0n demo_strict_env = 0" "pe_stream_init demo_strict_env = 0"
    by (simp_all add: demo_strict_env_def demo_pcd_env_def)
  note i = update_started [OF c(2,1) demo_pcd_shm s0]
  obtain s1 where s1: "run (pcd_turn demo_strict_env) all_but_race s0 = Some s1" "pcd_net s1 = NbCopy FcLoop"
    "pcd_app s1 = AddMoved" "cmd_bytes_moved (pcd_c s1) + cmd_chunk_len (pcd_c s1) = cmd_len (pcd_c s0)"
    "length (pcd_stream s1) = 1"
    by (rule all_but_race_run [OF i(1,5,6) c(3,4) _ _ i(4)]) (use i(3) that in auto)
  have v: "\<not> pe_valid demo_strict_env (pcd_stream s1)" using s1(5) by (simp add: demo_strict_env_def)
  have "pcd_inv demo_strict_env s1" using pm.run_inv_always [of demo_strict_env s0 all_but_race] i(1) s1(1) by auto
  then obtain s' where s': "run (pcd_turn demo_strict_env) (App # [App, Net 0, Net 0, App, App]) s1 = Some s'"
    using pm.run_inv_always [of demo_strict_env s1 "App # [App, Net 0, Net 0, App, App]"] by blast
  show ?thesis
    using last_page_needs_race [OF c(2,1) demo_pcd_shm s0 s1(1,3) s1(4) [unfolded i(3)] s1(2) v s'] s0 s1(1) s' by blast
qed

theorem update_done_validated_witness:
  "\<exists>s0 s'. network_core_update (pe_mem demo_pcd_env) 0 0x1000 500 demo_pcd = Some s0
     \<and> run (pcd_turn demo_pcd_env) [Net 0, Net 0, Net 0, Net 0, App] s0 = Some s'
     \<and> pe_valid demo_pcd_env (pcd_stream s') \<and> pcd_net s' = NetOff
     \<and> pcd_stream s' = [region (pe_mem demo_pcd_env) 0x1000 (unat (500 :: u32))]"
proof -
  obtain s0 where s0: "network_core_update (pe_mem demo_pcd_env) 0 0x1000 500 demo_pcd = Some s0"
    by (auto simp: network_core_update_def pcd_cmd_write_def pcd_cmd_update_def external_def force_off_def)
  have c: "(0x1000 :: u32) \<noteq> 0" "(500 :: u32) \<noteq> 0" by simp_all
  note st = update_start_frame [OF s0 c]
  obtain s' where s': "run (pcd_turn demo_pcd_env) [Net 0, Net 0, Net 0, Net 0, App] s0 = Some s'"
    "pcd_app s' = AppReturned UpdateDone"
    using st by (auto simp: pcd_turn_def pcd_fw_copy_status_get_def external_def demo_pcd_env_def
        pcd_fw_copy_done_def pcd_magic force_off_def)
  have "(0x1000 :: u32) < 0x10000000" by simp
  then show ?thesis using update_done_validated [OF s0 c demo_pcd_shm(2) s'] s0 s'(1) by blast
qed

end
