(* ===== verification/CoreRpc.thy ===== *)
theory CoreRpc
  imports Prelude Machine
begin

text \<open>
  The nRF5340 example with a Bluetooth service on the network core and the application on the other
  (\<open>nrf53_ble/otherExamples\<close>: \<open>appcore/src/rpc_app_*.c\<close>, \<open>ble_netcore/src/rpc_net_*.c\<close>,
  \<open>ble_netcore/src/main.c\<close>, \<open>appcore/src/rpc_thread2.c\<close>): remote calls in both directions, each a
  CBOR packet and a response that carries an error code.

  The CBOR library and the remote procedure transport are parameters: packets are of a type \<open>'p\<close>, the
  library is a record of its operations, and the transport takes the handler that decodes the command
  on the other core. What they do is stated by \<open>cbor_ok\<close> and \<open>delivers\<close>, which the properties
  assume. A call that never returns, because no response is sent, is \<open>None\<close>.
\<close>

section \<open>The CBOR library\<close>

record 'p cbor_api =
  cb_alloc :: "nat \<Rightarrow> 'p"
  cb_put_int :: "int \<Rightarrow> 'p \<Rightarrow> 'p"
  cb_put_bytes :: "u8 list \<Rightarrow> 'p \<Rightarrow> 'p"
  cb_get_int :: "'p \<Rightarrow> int option"
  cb_advance :: "'p \<Rightarrow> 'p option"
  cb_copy_bytes :: "nat \<Rightarrow> 'p \<Rightarrow> u8 list option"

text \<open>
  What a packet holds. An item of the sizes used here has a head of at most 5 bytes; encoding works as
  long as the buffer has room, copying a byte string as long as it fits the buffer it is copied to.
\<close>

datatype cbor_item = CborInt int | CborBytes "u8 list"

fun item_size :: "cbor_item \<Rightarrow> nat" where
  "item_size (CborInt i) = 5"
| "item_size (CborBytes b) = 5 + length b"

definition packet_size :: "cbor_item list \<Rightarrow> nat" where
  "packet_size is = sum_list (map item_size is)"

fun put_item :: "'p cbor_api \<Rightarrow> cbor_item \<Rightarrow> 'p \<Rightarrow> 'p" where
  "put_item cb (CborInt i) p = cb_put_int cb i p"
| "put_item cb (CborBytes b) p = cb_put_bytes cb b p"

definition int_range :: "int \<Rightarrow> bool" where
  "int_range i \<longleftrightarrow> - (2 ^ 31) \<le> i \<and> i < 2 ^ 31"

fun item_ok :: "cbor_item \<Rightarrow> bool" where
  "item_ok (CborInt i) \<longleftrightarrow> int_range i"
| "item_ok (CborBytes b) \<longleftrightarrow> length b < 2 ^ 32"

definition cbor_ok :: "'p cbor_api \<Rightarrow> ('p \<Rightarrow> cbor_item list \<Rightarrow> bool) \<Rightarrow> bool" where
  "cbor_ok cb holds \<longleftrightarrow>
     (\<forall>n is. list_all item_ok is \<longrightarrow> packet_size is \<le> n \<longrightarrow> holds (fold (put_item cb) is (cb_alloc cb n)) is)
     \<and> (\<forall>p i is. holds p (CborInt i # is) \<longrightarrow> cb_get_int cb p = Some i)
     \<and> (\<forall>p b is n. holds p (CborBytes b # is) \<longrightarrow> cb_copy_bytes cb n p = (if length b \<le> n then Some b else None))
     \<and> (\<forall>p x is. holds p (x # is) \<longrightarrow> (\<exists>q. cb_advance cb p = Some q \<and> holds q is))"

lemma cbor_encode:
  "cbor_ok cb holds \<Longrightarrow> list_all item_ok is \<Longrightarrow> packet_size is \<le> n \<Longrightarrow>
     holds (fold (put_item cb) is (cb_alloc cb n)) is"
  by (simp add: cbor_ok_def)

lemma cbor_int: "cbor_ok cb holds \<Longrightarrow> holds p (CborInt i # is) \<Longrightarrow> cb_get_int cb p = Some i"
  unfolding cbor_ok_def by blast

lemma cbor_bytes:
  "cbor_ok cb holds \<Longrightarrow> holds p (CborBytes b # is) \<Longrightarrow>
     cb_copy_bytes cb n p = (if length b \<le> n then Some b else None)"
  unfolding cbor_ok_def by blast

lemma cbor_next:
  assumes "cbor_ok cb holds" and "holds p (x # is)"
  obtains q where "cb_advance cb p = Some q" and "holds q is"
  using assms unfolding cbor_ok_def by blast

section \<open>The transport\<close>

text \<open>
  \<open>nrf_rpc_cbor_cmd\<close>: it sends the packet, the other core decodes it and may send a response, which is
  handed to the caller. Without a response the caller waits for ever.
\<close>

type_synonym ('p, 's) handler = "'p \<Rightarrow> 's \<Rightarrow> 'p option \<times> 's"
type_synonym ('p, 's) transport = "('p, 's) handler \<Rightarrow> 'p \<Rightarrow> 's \<Rightarrow> (int \<times> 'p option \<times> 's) option"

definition delivers :: "('p, 's) transport \<Rightarrow> bool" where
  "delivers tr \<longleftrightarrow> (\<forall>h p s. tr h p s = (case h p s of
       (Some r, s1) \<Rightarrow> Some (0, Some r, s1) | (None, s1) \<Rightarrow> None))"

definition NRF_EINVAL :: int where "NRF_EINVAL = 22"
definition NRF_EBADMSG :: int where "NRF_EBADMSG = 77"
definition EBADMSG :: int where "EBADMSG = 77"
definition CBOR_BUF_SIZE :: nat where "CBOR_BUF_SIZE = 16"

text \<open>
  The response handler takes an error code from the response. (That it first stores \<open>-NRF_EINVAL\<close> for
  a response that is no integer has no effect, for the next statement overwrites it.)
\<close>

definition rsp_error_code_handle :: "'p cbor_api \<Rightarrow> 'p \<Rightarrow> int" where
  "rsp_error_code_handle cb p = (case cb_get_int cb p of Some i \<Rightarrow> i | None \<Rightarrow> - NRF_EINVAL)"

text \<open>The tail of every request: send, and take the result unless sending failed.\<close>

definition rpc_finish ::
  "'p cbor_api \<Rightarrow> ('p, 's) transport \<Rightarrow> ('p, 's) handler \<Rightarrow> 'p \<Rightarrow> 's \<Rightarrow> (int \<times> 's) option" where
  "rpc_finish cb tr h p s =
     Option.bind (tr h p s) (\<lambda>(err, rsp, s1).
        if err < 0 then Some (err, s1)
        else case rsp of None \<Rightarrow> None | Some r \<Rightarrow> Some (rsp_error_code_handle cb r, s1))"

definition error_code_packet :: "'p cbor_api \<Rightarrow> int \<Rightarrow> 'p" where
  "error_code_packet cb err = cb_put_int cb err (cb_alloc cb CBOR_BUF_SIZE)"

lemma error_code_back:
  assumes "cbor_ok cb holds" and "int_range err"
  shows "rsp_error_code_handle cb (error_code_packet cb err) = err"
proof -
  have "holds (fold (put_item cb) [CborInt err] (cb_alloc cb CBOR_BUF_SIZE)) [CborInt err]"
    by (rule cbor_encode [OF assms(1)]) (use assms(2) in \<open>simp_all add: packet_size_def CBOR_BUF_SIZE_def\<close>)
  then show ?thesis using cbor_int [OF assms(1)]
    by (simp add: rsp_error_code_handle_def error_code_packet_def)
qed

lemma rpc_finish_delivers:
  assumes "delivers tr"
  shows "rpc_finish cb tr h p s = (case h p s of
       (None, s1) \<Rightarrow> None | (Some r, s1) \<Rightarrow> Some (rsp_error_code_handle cb r, s1))"
  using assms by (simp add: delivers_def rpc_finish_def split: prod.splits option.splits)

section \<open>The state of the two cores\<close>

datatype rpc_call =
    NusSend "u8 list" | UartSend "u8 list" | RecvCallback "u8 list"
  | GattNotify ptr "u8 list" | SmpRxReq "u8 list" | McumgrBufFree
  | ConnRef ptr | ConnUnref ptr | SemGiveConn | SemGiveNus | MtuExchange ptr | TrSend "u8 list" | PinInterrupt bool

text \<open>\<open>bt_addr\<close>, \<open>m_connected\<close> and \<open>result_callback\<close> are the application core's, \<open>current_conn\<close> the network core's.\<close>

record duo =
  bt_addr :: "u8 list"
  m_connected :: bool
  result_callback :: bool
  current_conn :: ptr
  du_calls :: "rpc_call list"

record duo_env =
  re_nus_send :: "u8 list \<Rightarrow> int"
  re_notify :: "ptr \<Rightarrow> u8 list \<Rightarrow> int"
  re_buf_alloc :: bool
  re_att_mtu :: "ptr \<Rightarrow> u16"
  re_stack :: "u8 list"

definition du_do :: "rpc_call \<Rightarrow> duo \<Rightarrow> duo" where
  "du_do x s = s\<lparr>du_calls := du_calls s @ [x]\<rparr>"

section \<open>The general interface\<close>

definition NET2APP_BT_ADDR_SEND :: int where "NET2APP_BT_ADDR_SEND = 1"
definition APP2NET_BT_NUS_SEND :: int where "APP2NET_BT_NUS_SEND = 2"
definition APP2NET_BT_SMP_SEND :: int where "APP2NET_BT_SMP_SEND = 3"
definition NET2APP_BT_NUS_RECV :: int where "NET2APP_BT_NUS_RECV = 4"
definition NET2APP_BT_CONN_STATUS :: int where "NET2APP_BT_CONN_STATUS = 5"

lemmas api_types = NET2APP_BT_ADDR_SEND_def APP2NET_BT_NUS_SEND_def APP2NET_BT_SMP_SEND_def
  NET2APP_BT_NUS_RECV_def NET2APP_BT_CONN_STATUS_def

text \<open>The packet of a typed request, and how the other core takes it apart; \<open>None\<close> is the error exit.\<close>

definition typed_packet :: "'p cbor_api \<Rightarrow> int \<Rightarrow> u8 list \<Rightarrow> 'p" where
  "typed_packet cb t data =
     cb_put_bytes cb data (cb_put_int cb (int (length data)) (cb_put_int cb t (cb_alloc cb (CBOR_BUF_SIZE + length data))))"

definition typed_unpack :: "'p cbor_api \<Rightarrow> 'p \<Rightarrow> (int \<times> u8 list) option" where
  "typed_unpack cb p =
     Option.bind (cb_get_int cb p) (\<lambda>t.
     Option.bind (cb_advance cb p) (\<lambda>p1.
     Option.bind (cb_get_int cb p1) (\<lambda>n.
     Option.bind (cb_advance cb p1) (\<lambda>p2.
     Option.bind (cb_copy_bytes cb 256 p2) (\<lambda>data.
     if length data > 256 then None else Some (t, data))))))"

text \<open>
  The network core's handler. The variable \<open>err\<close> is 0 after the decoding, which is the answer to a
  type it does not know.
\<close>

definition rpc_app2net_handler :: "'p cbor_api \<Rightarrow> duo_env \<Rightarrow> ('p, duo) handler" where
  "rpc_app2net_handler cb e p s =
     (case typed_unpack cb p of
        None \<Rightarrow> (None, s)
      | Some (t, data) \<Rightarrow>
          (let (err, s1) = (if t = APP2NET_BT_NUS_SEND then (re_nus_send e data, du_do (NusSend data) s) else (0, s))
           in (Some (error_code_packet cb err), s1)))"

definition rpc_app2net_send ::
  "'p cbor_api \<Rightarrow> ('p, duo) transport \<Rightarrow> duo_env \<Rightarrow> int \<Rightarrow> u8 list option \<Rightarrow> duo \<Rightarrow> (int \<times> duo) option" where
  "rpc_app2net_send cb tr e t buffer s =
     (case buffer of
        None \<Rightarrow> Some (- NRF_EINVAL, s)
      | Some data \<Rightarrow>
          if length data < 1 then Some (- NRF_EINVAL, s)
          else rpc_finish cb tr (rpc_app2net_handler cb e) (typed_packet cb t data) s)"

definition app2net_send_nus where
  "app2net_send_nus cb tr e data s = rpc_app2net_send cb tr e APP2NET_BT_NUS_SEND data s"

text \<open>
  The application core's side. The handler's buffer has 256 bytes, of which the packet fills the first;
  \<open>re_stack\<close> is what the others held.
\<close>

definition net2app_receive_bt_addr :: "u8 list \<Rightarrow> duo \<Rightarrow> int \<times> duo" where
  "net2app_receive_bt_addr buf s = (0, s\<lparr>bt_addr := take 6 (drop 1 buf)\<rparr>)"

definition net2app_receive_nus :: "u8 list \<Rightarrow> nat \<Rightarrow> duo \<Rightarrow> int \<times> duo" where
  "net2app_receive_nus buf len s = (0, du_do (UartSend (take len buf)) s)"

definition net2app_receive_conn_status :: "u8 list \<Rightarrow> duo \<Rightarrow> int \<times> duo" where
  "net2app_receive_conn_status buf s = (0, s\<lparr>m_connected := (hd buf = 1)\<rparr>)"

definition is_ble_connected :: "duo \<Rightarrow> bool" where
  "is_ble_connected s = m_connected s"

definition net2app_receive :: "int \<Rightarrow> u8 list \<Rightarrow> nat \<Rightarrow> duo \<Rightarrow> int \<times> duo" where
  "net2app_receive t buf len s =
     (if t = NET2APP_BT_ADDR_SEND then net2app_receive_bt_addr buf s
      else if t = NET2APP_BT_NUS_RECV then net2app_receive_nus buf len s
      else if t = NET2APP_BT_CONN_STATUS then net2app_receive_conn_status buf s
      else (0, s))"

definition rpc_net2app_handler :: "'p cbor_api \<Rightarrow> duo_env \<Rightarrow> ('p, duo) handler" where
  "rpc_net2app_handler cb e p s =
     (case typed_unpack cb p of
        None \<Rightarrow> (None, s)
      | Some (t, data) \<Rightarrow>
          (let (err, s1) = net2app_receive t (data @ drop (length data) (re_stack e)) (length data) s
           in (Some (error_code_packet cb err), s1)))"

definition rpc_net2app_send ::
  "'p cbor_api \<Rightarrow> ('p, duo) transport \<Rightarrow> duo_env \<Rightarrow> int \<Rightarrow> u8 list option \<Rightarrow> duo \<Rightarrow> (int \<times> duo) option" where
  "rpc_net2app_send cb tr e t buffer s =
     (case buffer of
        None \<Rightarrow> Some (- NRF_EINVAL, s)
      | Some data \<Rightarrow>
          if length data < 1 then Some (- NRF_EINVAL, s)
          else rpc_finish cb tr (rpc_net2app_handler cb e) (typed_packet cb t data) s)"

definition net2app_send_bt_addr where
  "net2app_send_bt_addr cb tr e addr s = rpc_net2app_send cb tr e NET2APP_BT_ADDR_SEND (Some (take 7 addr)) s"

definition net2app_send_nus where
  "net2app_send_nus cb tr e data s = rpc_net2app_send cb tr e NET2APP_BT_NUS_RECV data s"

definition net2app_send_conn_status :: "'p cbor_api \<Rightarrow> ('p, duo) transport \<Rightarrow> duo_env \<Rightarrow> u8 \<Rightarrow> duo \<Rightarrow> (int \<times> duo) option" where
  "net2app_send_conn_status cb tr e b s = rpc_net2app_send cb tr e NET2APP_BT_CONN_STATUS (Some [b]) s"

section \<open>The dedicated interface of the UART service\<close>

definition bytes_packet :: "'p cbor_api \<Rightarrow> u8 list \<Rightarrow> 'p" where
  "bytes_packet cb data = cb_put_bytes cb data (cb_alloc cb (CBOR_BUF_SIZE + length data))"

definition bytes_request ::
  "'p cbor_api \<Rightarrow> ('p, duo) transport \<Rightarrow> ('p, duo) handler \<Rightarrow> u8 list option \<Rightarrow> duo \<Rightarrow> (int \<times> duo) option" where
  "bytes_request cb tr h buffer s =
     (case buffer of
        None \<Rightarrow> Some (- NRF_EINVAL, s)
      | Some data \<Rightarrow>
          if length data < 1 then Some (- NRF_EINVAL, s) else rpc_finish cb tr h (bytes_packet cb data) s)"

definition rpc_app_register_bt_recv_cb :: "bool \<Rightarrow> duo \<Rightarrow> int \<times> duo" where
  "rpc_app_register_bt_recv_cb given s =
     (if \<not> given then (- NRF_EINVAL, s) else (0, s\<lparr>result_callback := True\<rparr>))"

definition rpc_net_bt_nus_send :: "nat \<Rightarrow> 'p cbor_api \<Rightarrow> duo_env \<Rightarrow> ('p, duo) handler" where
  "rpc_net_bt_nus_send tx_mtu cb e p s =
     (let (err, s1) = (case cb_copy_bytes cb tx_mtu p of
          None \<Rightarrow> (- EBADMSG, s)
        | Some data \<Rightarrow> if length data > tx_mtu then (- EBADMSG, s)
                        else (re_nus_send e data, du_do (NusSend data) s))
      in (Some (error_code_packet cb err), s1))"

definition rpc_app_bt_nus_send where
  "rpc_app_bt_nus_send tx_mtu cb tr e buffer s = bytes_request cb tr (rpc_net_bt_nus_send tx_mtu cb e) buffer s"

definition rpc_app_bt_receive_cb :: "'p cbor_api \<Rightarrow> ('p, duo) handler" where
  "rpc_app_bt_receive_cb cb p s =
     (if \<not> result_callback s then (None, s)
      else
        (let (err, s1) = (case cb_copy_bytes cb 270 p of
             None \<Rightarrow> (- NRF_EBADMSG, s)
           | Some data \<Rightarrow> if length data > 270 then (- NRF_EBADMSG, s) else (0, du_do (RecvCallback data) s))
         in (Some (error_code_packet cb err), s1)))"

definition rpc_net_bt_nus_receive_cb where
  "rpc_net_bt_nus_receive_cb cb tr buffer s = bytes_request cb tr (rpc_app_bt_receive_cb cb) buffer s"

section \<open>The management protocol\<close>

definition smp_receive_data :: "duo_env \<Rightarrow> u8 list \<Rightarrow> duo \<Rightarrow> int \<times> duo" where
  "smp_receive_data e data s =
     (if \<not> re_buf_alloc e then (- ENOMEM, s) else (int (length data), du_do (SmpRxReq data) s))"

definition rpc_app_bt_smp_receive_cb :: "'p cbor_api \<Rightarrow> duo_env \<Rightarrow> ('p, duo) handler" where
  "rpc_app_bt_smp_receive_cb cb e p s =
     (let (err, s1) = (case cb_copy_bytes cb 270 p of
          None \<Rightarrow> (- NRF_EBADMSG, s)
        | Some data \<Rightarrow> if length data > 270 then (- NRF_EBADMSG, s) else smp_receive_data e data s)
      in (Some (error_code_packet cb err), s1))"

definition rpc_net_bt_smp_receive_cb where
  "rpc_net_bt_smp_receive_cb cb tr e buffer s = bytes_request cb tr (rpc_app_bt_smp_receive_cb cb e) buffer s"

text \<open>The write handler of the characteristic drops the result and reports everything as written.\<close>

definition smp_bt_chr_write ::
  "'p cbor_api \<Rightarrow> ('p, duo) transport \<Rightarrow> duo_env \<Rightarrow> u8 list \<Rightarrow> duo \<Rightarrow> (int \<times> duo) option" where
  "smp_bt_chr_write cb tr e data s =
     map_option (\<lambda>(r, s1). (int (length data), s1)) (rpc_net_bt_smp_receive_cb cb tr e (Some data) s)"

definition rpc_net_bt_smp_send :: "nat \<Rightarrow> 'p cbor_api \<Rightarrow> duo_env \<Rightarrow> ('p, duo) handler" where
  "rpc_net_bt_smp_send tx_mtu cb e p s =
     (let (err, s1) = (case cb_copy_bytes cb tx_mtu p of
          None \<Rightarrow> (- EBADMSG, s)
        | Some data \<Rightarrow> if length data > tx_mtu then (- EBADMSG, s)
                        else (re_notify e (current_conn s) data, du_do (GattNotify (current_conn s) data) s))
      in (Some (error_code_packet cb err), s1))"

definition rpc_app_bt_smp_send where
  "rpc_app_bt_smp_send tx_mtu cb tr e buffer s = bytes_request cb tr (rpc_net_bt_smp_send tx_mtu cb e) buffer s"

definition smp_rpc_tx_pkt ::
  "nat \<Rightarrow> 'p cbor_api \<Rightarrow> ('p, duo) transport \<Rightarrow> duo_env \<Rightarrow> u8 list \<Rightarrow> duo \<Rightarrow> (int \<times> duo) option" where
  "smp_rpc_tx_pkt tx_mtu cb tr e data s =
     map_option (\<lambda>(rc, s1). (rc, du_do McumgrBufFree s1)) (rpc_app_bt_smp_send tx_mtu cb tr e (Some data) s)"

definition rpc_net_bt_smp_get_mtu :: "'p cbor_api \<Rightarrow> duo_env \<Rightarrow> ('p, duo) handler" where
  "rpc_net_bt_smp_get_mtu cb e p s =
     (Some (error_code_packet cb (uint (re_att_mtu e (current_conn s) - 3))), s)"

definition rpc_app_bt_smp_get_mtu :: "'p cbor_api \<Rightarrow> ('p, duo) transport \<Rightarrow> duo_env \<Rightarrow> duo \<Rightarrow> (int \<times> duo) option" where
  "rpc_app_bt_smp_get_mtu cb tr e s = rpc_finish cb tr (rpc_net_bt_smp_get_mtu cb e) (cb_alloc cb CBOR_BUF_SIZE) s"

definition smp_rpc_get_mtu :: "'p cbor_api \<Rightarrow> ('p, duo) transport \<Rightarrow> duo_env \<Rightarrow> duo \<Rightarrow> (u16 \<times> duo) option" where
  "smp_rpc_get_mtu cb tr e s =
     map_option (\<lambda>(mtu, s1). (if mtu < 0 then 0 else of_int mtu, s1)) (rpc_app_bt_smp_get_mtu cb tr e s)"

section \<open>The network core's Bluetooth callbacks\<close>

text \<open>\<open>connected\<close> and \<open>disconnected\<close> as built with the general interface and a GATT client.\<close>

definition rpc_connected ::
  "'p cbor_api \<Rightarrow> ('p, duo) transport \<Rightarrow> duo_env \<Rightarrow> ptr \<Rightarrow> u8 \<Rightarrow> duo \<Rightarrow> duo option" where
  "rpc_connected cb tr e conn err s =
     (if err \<noteq> 0 then Some s
      else map_option (\<lambda>(r, s1). du_do (MtuExchange conn) s1)
             (net2app_send_conn_status cb tr e 1
               (du_do SemGiveConn ((du_do (ConnRef conn) s)\<lparr>current_conn := conn\<rparr>))))"

definition rpc_disconnected :: "'p cbor_api \<Rightarrow> ('p, duo) transport \<Rightarrow> duo_env \<Rightarrow> duo \<Rightarrow> duo option" where
  "rpc_disconnected cb tr e s =
     map_option snd (net2app_send_conn_status cb tr e 0
       (if current_conn s \<noteq> 0 then (du_do (ConnUnref (current_conn s)) s)\<lparr>current_conn := 0\<rparr> else s))"

definition bt_nus_receive_cb :: "'p cbor_api \<Rightarrow> ('p, duo) transport \<Rightarrow> duo_env \<Rightarrow> u8 list \<Rightarrow> duo \<Rightarrow> duo option" where
  "bt_nus_receive_cb cb tr e data s = map_option snd (net2app_send_nus cb tr e (Some data) s)"

datatype ble_event = Connected ptr u8 | Disconnected | NusReceived "u8 list"

definition ble_step :: "'p cbor_api \<Rightarrow> ('p, duo) transport \<Rightarrow> duo_env \<Rightarrow> ble_event \<Rightarrow> duo \<Rightarrow> duo option" where
  "ble_step cb tr e ev s =
     (case ev of Connected c err \<Rightarrow> rpc_connected cb tr e c err s
      | Disconnected \<Rightarrow> rpc_disconnected cb tr e s
      | NusReceived data \<Rightarrow> bt_nus_receive_cb cb tr e data s)"

section \<open>The raw channel\<close>

text \<open>
  Built without the interface (\<open>CONFIG_RPC_SIMULATE_UART\<close>) the network core puts everything into one
  channel: the bytes the peer sends, and frames that tell of connections.
\<close>

definition status_frame :: "bool \<Rightarrow> u8 list" where
  "status_frame up = [0x55, 1, 1, (if up then 0 else 1), 0xAA]"

definition raw_connected :: "ptr \<Rightarrow> u8 \<Rightarrow> duo \<Rightarrow> duo" where
  "raw_connected conn err s =
     (if err \<noteq> 0 then s
      else du_do (MtuExchange conn) (du_do (TrSend (status_frame True))
             (du_do SemGiveConn ((du_do (ConnRef conn) s)\<lparr>current_conn := conn\<rparr>))))"

definition raw_disconnected :: "duo \<Rightarrow> duo" where
  "raw_disconnected s =
     du_do (TrSend (status_frame False))
       (if current_conn s \<noteq> 0 then (du_do (ConnUnref (current_conn s)) s)\<lparr>current_conn := 0\<rparr> else s)"

definition raw_nus_receive :: "u8 list \<Rightarrow> duo \<Rightarrow> duo" where
  "raw_nus_receive data s = du_do (TrSend data) s"

text \<open>The application core's handler of a packet; reading past its end is undefined.\<close>

definition raw_receive_handler :: "u8 list \<Rightarrow> duo \<Rightarrow> duo option" where
  "raw_receive_handler packet s =
     (let s1 = du_do (UartSend packet) s in
      if packet = [] then None
      else if packet ! 0 \<noteq> 0x55 then Some s1
      else if length packet < 2 then None
      else if packet ! 1 \<noteq> 1 then Some s1
      else if length packet < 3 then None
      else if packet ! 2 \<noteq> 1 then Some s1
      else if length packet < 4 then None
      else Some (s1\<lparr>m_connected := (packet ! 3 = 0)\<rparr>))"

text \<open>The network core's handler of a packet from the application, cut to what one notification holds.\<close>

definition raw_to_nus :: "duo_env \<Rightarrow> u8 list \<Rightarrow> duo \<Rightarrow> duo option" where
  "raw_to_nus e packet s =
     (let room = int (unat (re_att_mtu e (current_conn s))) - 3;
          nus_len = (of_nat (length packet) :: u16);
          nus_len = (if room < uint nus_len then of_int room else nus_len)
      in if length packet < unat nus_len then None else Some (du_do (NusSend (take (unat nus_len) packet)) s))"

section \<open>Round trips\<close>

lemma typed_items:
  assumes "cbor_ok cb holds" and "length data < 2 ^ 31" and "int_range t"
  shows "holds (typed_packet cb t data) [CborInt t, CborInt (int (length data)), CborBytes data]"
proof -
  have "holds (fold (put_item cb) [CborInt t, CborInt (int (length data)), CborBytes data]
      (cb_alloc cb (CBOR_BUF_SIZE + length data))) [CborInt t, CborInt (int (length data)), CborBytes data]"
    by (rule cbor_encode [OF assms(1)])
       (use assms(2,3) in \<open>simp_all add: packet_size_def CBOR_BUF_SIZE_def int_range_def\<close>)
  then show ?thesis by (simp add: typed_packet_def)
qed

lemma typed_roundtrip:
  assumes "cbor_ok cb holds" and "length data < 2 ^ 31" and "int_range t"
  shows "typed_unpack cb (typed_packet cb t data) = (if length data \<le> 256 then Some (t, data) else None)"
proof -
  let ?p = "typed_packet cb t data"
  note h = typed_items [OF assms]
  obtain p1 where p1: "cb_advance cb ?p = Some p1" "holds p1 [CborInt (int (length data)), CborBytes data]"
    using cbor_next [OF assms(1) h] by blast
  obtain p2 where p2: "cb_advance cb p1 = Some p2" "holds p2 [CborBytes data]"
    using cbor_next [OF assms(1) p1(2)] by blast
  show ?thesis
    using cbor_int [OF assms(1) h] p1(1) cbor_int [OF assms(1) p1(2)] p2(1) cbor_bytes [OF assms(1) p2(2)]
    by (simp add: typed_unpack_def)
qed

lemma bytes_roundtrip:
  assumes "cbor_ok cb holds" and "length data < 2 ^ 31"
  shows "cb_copy_bytes cb n (bytes_packet cb data) = (if length data \<le> n then Some data else None)"
proof -
  have "holds (fold (put_item cb) [CborBytes data] (cb_alloc cb (CBOR_BUF_SIZE + length data))) [CborBytes data]"
    by (rule cbor_encode [OF assms(1)]) (use assms(2) in \<open>simp_all add: packet_size_def CBOR_BUF_SIZE_def\<close>)
  then show ?thesis using cbor_bytes [OF assms(1)] by (simp add: bytes_packet_def)
qed

lemma api_types_range [simp]:
  "int_range NET2APP_BT_ADDR_SEND" "int_range APP2NET_BT_NUS_SEND" "int_range NET2APP_BT_NUS_RECV"
  "int_range NET2APP_BT_CONN_STATUS" "int_range 0"
  by (simp_all add: api_types int_range_def)

text \<open>
  a packet of at most 256 bytes that the application core sends reaches the Bluetooth stack
  unchanged and the call returns what the stack returned; a longer one is refused without a
  response, so the call never returns.
\<close>

theorem app2net_nus_outcome:
  assumes "cbor_ok cb holds" and "delivers tr" and "length data < 2 ^ 16" and "int_range (re_nus_send e data)"
  shows "app2net_send_nus cb tr e (Some data) s =
     (if data = [] then Some (- NRF_EINVAL, s)
      else if length data \<le> 256 then Some (re_nus_send e data, du_do (NusSend data) s)
      else None)"
proof -
  have "length data < 2 ^ 31" using assms(3) by simp
  note u = typed_roundtrip [OF assms(1) this, of APP2NET_BT_NUS_SEND]
  show ?thesis
    using u error_code_back [OF assms(1,4)]
    by (simp add: app2net_send_nus_def rpc_app2net_send_def rpc_finish_delivers [OF assms(2)]
        rpc_app2net_handler_def Suc_le_eq)
qed

lemma net2app_outcome:
  assumes "cbor_ok cb holds" and "delivers tr" and "data \<noteq> []" and "length data \<le> 256" and "int_range t"
  shows "rpc_net2app_send cb tr e t (Some data) s =
     Some (0, snd (net2app_receive t (data @ drop (length data) (re_stack e)) (length data) s))"
proof -
  have "length data < 2 ^ 31" using assms(4) by simp
  note u = typed_roundtrip [OF assms(1) this assms(5)]
  have "fst (net2app_receive t b n s) = 0" for b n
    by (simp add: net2app_receive_def net2app_receive_bt_addr_def net2app_receive_nus_def
        net2app_receive_conn_status_def)
  then show ?thesis
    using u assms(3,4) error_code_back [OF assms(1), of 0]
    by (simp add: rpc_net2app_send_def rpc_finish_delivers [OF assms(2)] rpc_net2app_handler_def Suc_le_eq
        split: prod.split) (metis fst_conv snd_conv)
qed

lemma conn_status_outcome:
  assumes "cbor_ok cb holds" and "delivers tr"
  shows "net2app_send_conn_status cb tr e b s = Some (0, s\<lparr>m_connected := (b = 1)\<rparr>)"
  using net2app_outcome [OF assms, of "[b]" NET2APP_BT_CONN_STATUS e s]
  by (simp add: net2app_send_conn_status_def)
     (simp add: net2app_receive_def net2app_receive_conn_status_def api_types)

lemma nus_received_outcome:
  assumes "cbor_ok cb holds" and "delivers tr" and "data \<noteq> []" and "length data \<le> 256"
  shows "net2app_send_nus cb tr e (Some data) s = Some (0, du_do (UartSend data) s)"
  using net2app_outcome [OF assms, of NET2APP_BT_NUS_RECV e s]
  by (simp add: net2app_send_nus_def) (simp add: net2app_receive_def net2app_receive_nus_def api_types)

section \<open>What the application core knows\<close>

text \<open>The bytes written to the UART, and the bytes the peer sent.\<close>

definition uart_bytes :: "rpc_call list \<Rightarrow> u8 list" where
  "uart_bytes cs = concat (map (\<lambda>c. case c of UartSend b \<Rightarrow> b | _ \<Rightarrow> []) cs)"

definition sent_bytes :: "ble_event list \<Rightarrow> u8 list" where
  "sent_bytes evs = concat (map (\<lambda>ev. case ev of NusReceived b \<Rightarrow> b | _ \<Rightarrow> []) evs)"

fun ble_event_ok :: "ble_event \<Rightarrow> bool" where
  "ble_event_ok (Connected c err) \<longleftrightarrow> c \<noteq> 0"
| "ble_event_ok Disconnected \<longleftrightarrow> True"
| "ble_event_ok (NusReceived data) \<longleftrightarrow> length data \<le> 256"

definition duo_agree :: "duo \<Rightarrow> bool" where
  "duo_agree s \<longleftrightarrow> (is_ble_connected s \<longleftrightarrow> current_conn s \<noteq> 0)"

lemma ble_step_agree:
  assumes "cbor_ok cb holds" and "delivers tr" and "duo_agree s" and "ble_event_ok ev"
  shows "\<exists>s'. ble_step cb tr e ev s = Some s' \<and> duo_agree s'
     \<and> uart_bytes (du_calls s') = uart_bytes (du_calls s) @ sent_bytes [ev]"
proof (cases ev)
  case (Connected c err)
  then show ?thesis using assms(3,4) conn_status_outcome [OF assms(1,2)]
    by (auto simp: ble_step_def rpc_connected_def duo_agree_def is_ble_connected_def du_do_def uart_bytes_def
        sent_bytes_def)
next
  case Disconnected
  then show ?thesis using assms(3) conn_status_outcome [OF assms(1,2)]
    by (auto simp: ble_step_def rpc_disconnected_def duo_agree_def is_ble_connected_def du_do_def uart_bytes_def
        sent_bytes_def)
next
  case (NusReceived data)
  show ?thesis
  proof (cases "data = []")
    case True
    then show ?thesis using NusReceived assms(3)
      by (simp add: ble_step_def bt_nus_receive_cb_def net2app_send_nus_def rpc_net2app_send_def sent_bytes_def)
  next
    case False
    then show ?thesis using NusReceived assms(3,4) nus_received_outcome [OF assms(1,2) False, of e s]
      by (simp add: ble_step_def bt_nus_receive_cb_def duo_agree_def is_ble_connected_def du_do_def uart_bytes_def sent_bytes_def)
  qed
qed

lemma sent_bytes_Cons: "sent_bytes (ev # evs) = sent_bytes [ev] @ sent_bytes evs"
  by (simp add: sent_bytes_def)


section \<open>The dedicated interface, management and the raw channel\<close>

lemma bytes_request_outcome:
  assumes "delivers tr" and "data \<noteq> []"
  shows "bytes_request cb tr h (Some data) s = (case h (bytes_packet cb data) s of
       (None, s1) \<Rightarrow> None | (Some r, s1) \<Rightarrow> Some (rsp_error_code_handle cb r, s1))"
  using assms(2) by (simp add: bytes_request_def rpc_finish_delivers [OF assms(1)] Suc_le_eq)

text \<open>
  over the dedicated interface received data reaches the registered callback, a packet over 270
  bytes is answered with an error; without a callback there is no answer and the network core
  waits for ever.
\<close>

theorem dedicated_receive_outcome:
  assumes "cbor_ok cb holds" and "delivers tr" and "data \<noteq> []" and "length data < 2 ^ 16"
  shows "rpc_net_bt_nus_receive_cb cb tr (Some data) s =
     (if \<not> result_callback s then None
      else if length data \<le> 270 then Some (0, du_do (RecvCallback data) s)
      else Some (- NRF_EBADMSG, s))"
proof -
  have "length data < 2 ^ 31" using assms(4) by simp
  note u = bytes_roundtrip [OF assms(1) this]
  have "int_range (- NRF_EBADMSG)" by (simp add: int_range_def NRF_EBADMSG_def)
  then show ?thesis
    using u error_code_back [OF assms(1)]
    by (simp add: rpc_net_bt_nus_receive_cb_def bytes_request_outcome [OF assms(2,3)] rpc_app_bt_receive_cb_def
        int_range_def)
qed

text \<open>
  a management response goes out whole with the stack's result, or is refused with an error when it
  exceeds the buffer, and its buffer is freed once either way; a request is reported as written whatever
  becomes of it.
\<close>

theorem smp_outcome:
  assumes "cbor_ok cb holds" and "delivers tr" and "data \<noteq> []" and "length data < 2 ^ 16"
    and "int_range (re_notify e (current_conn s) data)"
  shows "smp_rpc_tx_pkt tx_mtu cb tr e data s =
     (if length data \<le> tx_mtu
      then Some (re_notify e (current_conn s) data, du_do McumgrBufFree (du_do (GattNotify (current_conn s) data) s))
      else Some (- EBADMSG, du_do McumgrBufFree s))
   \<and> smp_bt_chr_write cb tr e data s =
     Some (int (length data), if length data \<le> 270 \<and> re_buf_alloc e then du_do (SmpRxReq data) s else s)"
proof -
  have "length data < 2 ^ 31" using assms(4) by simp
  note u = bytes_roundtrip [OF assms(1) this]
  have r: "int_range (- EBADMSG)" by (simp add: int_range_def EBADMSG_def)
  show ?thesis
    using u error_code_back [OF assms(1,5)] error_code_back [OF assms(1) r]
    by (simp add: smp_rpc_tx_pkt_def rpc_app_bt_smp_send_def bytes_request_outcome [OF assms(2,3)]
        rpc_net_bt_smp_send_def smp_bt_chr_write_def rpc_net_bt_smp_receive_cb_def
        rpc_app_bt_smp_receive_cb_def smp_receive_data_def)
qed

lemma int_range_small: "0 \<le> i \<Longrightarrow> i < 65536 \<Longrightarrow> int_range i"
  by (simp add: int_range_def)

text \<open>
  the packet size reported to the management protocol is the connection's less the three bytes of the
  header, computed modulo 65536: where the stack reports less than three bytes it comes out as almost 64K.
\<close>

theorem smp_mtu_outcome:
  assumes "cbor_ok cb holds" and "delivers tr"
  shows "\<exists>m. smp_rpc_get_mtu cb tr e s = Some (m, s)
     \<and> unat m = (if 3 \<le> unat (re_att_mtu e (current_conn s)) then unat (re_att_mtu e (current_conn s)) - 3
                 else unat (re_att_mtu e (current_conn s)) + 65533)"
proof -
  let ?w = "re_att_mtu e (current_conn s)"
  have "0 \<le> uint (?w - 3)" "uint (?w - 3) < 65536" using uint_bounded [of "?w - 3"] by simp_all
  then have "int_range (uint (?w - 3))" by (rule int_range_small)
  note b = error_code_back [OF assms(1) this]
  have "smp_rpc_get_mtu cb tr e s = Some (?w - 3, s)"
    by (simp add: smp_rpc_get_mtu_def rpc_app_bt_smp_get_mtu_def rpc_finish_delivers [OF assms(2)]
        rpc_net_bt_smp_get_mtu_def b)
  moreover have "unat (?w - 3) = (if 3 \<le> unat ?w then unat ?w - 3 else unat ?w + 65533)"
    by (simp add: unat_sub_if_size word_size)
  ultimately show ?thesis by blast
qed

text \<open>
  on the raw channel the application core cannot tell the network core's frames from the peer's
  bytes: a peer that sends the five bytes of a frame switches the connection state the application
  core goes by, with the connection as it was; and one byte 0x55 makes the handler read past the packet.
\<close>

theorem raw_channel_spoofed:
  assumes "data = status_frame up"
  shows "du_calls (raw_nus_receive data s) = du_calls s @ [TrSend (status_frame up)]
     \<and> current_conn (raw_nus_receive data s) = current_conn s
     \<and> map_option m_connected (raw_receive_handler data s) = Some up
     \<and> raw_receive_handler [0x55] s = None"
  using assms by (simp add: raw_nus_receive_def raw_receive_handler_def status_frame_def du_do_def Let_def)

section \<open>Witnesses\<close>

text \<open>A packet as the list of its items with the room that is left.\<close>

type_synonym demo_packet = "nat \<times> cbor_item list"

definition demo_cbor :: "demo_packet cbor_api" where
  "demo_cbor = \<lparr>
     cb_alloc = (\<lambda>n. (n, [])),
     cb_put_int = (\<lambda>i (n, is). if n < 5 then (n, is) else (n - 5, is @ [CborInt i])),
     cb_put_bytes = (\<lambda>b (n, is). if n < 5 + length b then (n, is) else (n - (5 + length b), is @ [CborBytes b])),
     cb_get_int = (\<lambda>(n, is). case is of CborInt i # _ \<Rightarrow> Some i | _ \<Rightarrow> None),
     cb_advance = (\<lambda>(n, is). case is of x # r \<Rightarrow> Some (n, r) | [] \<Rightarrow> None),
     cb_copy_bytes = (\<lambda>k (n, is). case is of CborBytes b # _ \<Rightarrow> if length b \<le> k then Some b else None | _ \<Rightarrow> None)\<rparr>"

lemma demo_put: "item_size x \<le> n \<Longrightarrow> put_item demo_cbor x (n, is) = (n - item_size x, is @ [x])"
  by (cases x) (simp_all add: demo_cbor_def)

lemma demo_fold:
  "packet_size is \<le> n \<Longrightarrow> snd (fold (put_item demo_cbor) is (n, acc)) = acc @ is"
proof (induction "is" arbitrary: n acc)
  case (Cons x r)
  then have "item_size x \<le> n" "packet_size r \<le> n - item_size x" by (simp_all add: packet_size_def)
  then show ?case using Cons.IH [of "n - item_size x" "acc @ [x]"] demo_put [of x n acc] by simp
qed simp

lemma demo_cbor_ok: "cbor_ok demo_cbor (\<lambda>p is. snd p = is)"
  unfolding cbor_ok_def
proof (intro conjI allI impI)
  fix n :: nat and "is" :: "cbor_item list"
  assume "packet_size is \<le> n"
  then show "snd (fold (put_item demo_cbor) is (cb_alloc demo_cbor n)) = is"
    using demo_fold [of "is" n "[]"] by (simp add: demo_cbor_def)
qed (auto simp: demo_cbor_def split: list.splits cbor_item.splits)

definition demo_transport :: "(demo_packet, duo) transport" where
  "demo_transport h p s = (case h p s of (Some r, s1) \<Rightarrow> Some (0, Some r, s1) | (None, s1) \<Rightarrow> None)"

lemma demo_delivers: "delivers demo_transport"
  by (simp add: delivers_def demo_transport_def)

definition demo_duo_env :: duo_env where
  "demo_duo_env = \<lparr>re_nus_send = (\<lambda>b. - 12), re_notify = (\<lambda>c b. 0), re_buf_alloc = True,
     re_att_mtu = (\<lambda>c. if c = 0 then 0 else 23), re_stack = []\<rparr>"

definition demo_duo :: duo where
  "demo_duo = \<lparr>bt_addr = [], m_connected = False, result_callback = False, current_conn = 0, du_calls = []\<rparr>"

theorem app2net_nus_outcome_witness:
  "app2net_send_nus demo_cbor demo_transport demo_duo_env (Some [1, 2, 3]) demo_duo
     = Some (- 12, du_do (NusSend [1, 2, 3]) demo_duo)
   \<and> app2net_send_nus demo_cbor demo_transport demo_duo_env (Some (replicate 300 7)) demo_duo = None"
proof -
  have "int_range (re_nus_send demo_duo_env b)" for b by (simp add: demo_duo_env_def int_range_def)
  note o = app2net_nus_outcome [OF demo_cbor_ok demo_delivers _ this, of _ demo_duo]
  show ?thesis using o [of "[1, 2, 3]"] o [of "replicate 300 7"] by (auto simp: demo_duo_env_def)
qed


theorem dedicated_receive_outcome_witness:
  "rpc_net_bt_nus_receive_cb demo_cbor demo_transport (Some [9]) demo_duo = None
   \<and> rpc_net_bt_nus_receive_cb demo_cbor demo_transport (Some [9]) (demo_duo\<lparr>result_callback := True\<rparr>)
     = Some (0, du_do (RecvCallback [9]) (demo_duo\<lparr>result_callback := True\<rparr>))"
  using dedicated_receive_outcome [OF demo_cbor_ok demo_delivers, of "[9]"] by (simp add: demo_duo_def)

theorem smp_outcome_witness:
  "smp_rpc_tx_pkt 247 demo_cbor demo_transport demo_duo_env [1, 2] demo_duo
     = Some (0, du_do McumgrBufFree (du_do (GattNotify 0 [1, 2]) demo_duo))
   \<and> smp_bt_chr_write demo_cbor demo_transport demo_duo_env [1, 2] demo_duo
     = Some (2, du_do (SmpRxReq [1, 2]) demo_duo)"
  using smp_outcome [OF demo_cbor_ok demo_delivers, of "[1, 2]" demo_duo_env demo_duo 247]
  by (simp add: demo_duo_env_def demo_duo_def int_range_def)

theorem smp_mtu_outcome_witness:
  "\<exists>m. smp_rpc_get_mtu demo_cbor demo_transport demo_duo_env demo_duo = Some (m, demo_duo) \<and> unat m = 65533"
  using smp_mtu_outcome [OF demo_cbor_ok demo_delivers, of demo_duo_env demo_duo]
  by (simp add: demo_duo_env_def demo_duo_def)

theorem raw_channel_spoofed_witness:
  "map_option m_connected (raw_receive_handler [0x55, 1, 1, 1, 0xAA] (demo_duo\<lparr>m_connected := True, current_conn := 5\<rparr>)) = Some False"
  using raw_channel_spoofed [of "[0x55, 1, 1, 1, 0xAA]" False "demo_duo\<lparr>m_connected := True, current_conn := 5\<rparr>"]
  by (simp add: status_frame_def)

end
