(* ===== verification/FotaUart.thy ===== *)
theory FotaUart
  imports Prelude Machine
begin

text \<open>
  The UDP sample with firmware update and UART echo (\<open>app/nrf91/udp_mcuboot_fota_uart/src/main.c\<close>):
  modem set-up, the periodic transmission, the provisioning of the certificate, the download that a
  button starts, the start of the UART, and \<open>main\<close>.

  Calls of the modem library, the sockets, the drivers and the download library are elements of the
  trace; what they return and the configuration are fields of an environment. \<open>fo_irq\<close> is whether
  the button's interrupt is enabled, \<open>fo_work\<close> and \<open>fo_tx_work\<close> whether the two work items are
  pending, \<open>fo_sem\<close> the semaphore of the LTE connection.
\<close>

section \<open>State and environment\<close>

datatype fota_call =
    PsmReq bool | EdrxReq bool | RaiReq bool | AtNotifInit | LteInitConnect
  | KeyExists | KeyDelete | KeyWrite nat
  | SocketOpen | SocketConnect int | SocketClose int | SendUdp int nat | SubmitTx nat
  | SubmitFota | FotaStart int | FotaInit | BootConfirmed | ThreadSuspend
  | PinConfigure nat | AddCallback | PinIrq bool | LedOn nat
  | UartDrop | UartSleep nat | UartCallbackSet | UartRxEnable | UartOut u8

record fota =
  fo_sem :: bool
  fo_fd :: int
  fo_irq :: bool
  fo_work :: bool
  fo_tx_work :: bool
  fo_suspended :: bool
  fo_calls :: "fota_call list"

datatype bsd_result =
    MODEM_DFU_RESULT_OK | MODEM_DFU_RESULT_UUID_ERROR | MODEM_DFU_RESULT_AUTH_ERROR
  | MODEM_DFU_RESULT_HARDWARE_ERROR | MODEM_DFU_RESULT_INTERNAL_ERROR | BsdInitFailed | BsdOther

record fota_env =
  fe_psm_enable :: bool
  fe_edrx_enable :: bool
  fe_rai_enable :: bool
  fe_use_https :: bool
  fe_auto_init :: bool
  fe_sys_init :: bool
  fe_app_version :: nat
  fe_payload :: nat
  fe_period :: nat
  fe_psm_req :: int
  fe_edrx_req :: int
  fe_rai_req :: int
  fe_lte_init :: int
  fe_key_exists :: "int \<times> bool"
  fe_key_delete :: int
  fe_key_write :: int
  fe_cert_len :: nat
  fe_socket :: int
  fe_connect :: int
  fe_stack :: int
  fe_button_bound :: bool
  fe_pin_configure :: int
  fe_add_callback :: int
  fe_pin_irq :: int
  fe_led_bound :: bool
  fe_fota_init :: int
  fe_bsd :: bsd_result
  fe_uart_bound :: bool
  fe_uart_err :: "nat \<Rightarrow> int"
  fe_uart_clock :: "nat \<Rightarrow> u32"

definition fo_do :: "fota_call \<Rightarrow> fota \<Rightarrow> fota" where
  "fo_do c s = s\<lparr>fo_calls := fo_calls s @ [c]\<rparr>"

section \<open>The modem and the server\<close>

datatype nw_reg = RegisteredHome | RegisteredRoaming | NotRegistered
datatype lte_evt = NW_REG_STATUS nw_reg | OtherLteEvent

definition fota_lte_handler :: "lte_evt \<Rightarrow> fota \<Rightarrow> fota" where
  "fota_lte_handler evt s =
     (case evt of
        NW_REG_STATUS st \<Rightarrow> if st \<noteq> RegisteredHome \<and> st \<noteq> RegisteredRoaming then s else s\<lparr>fo_sem := True\<rparr>
      | OtherLteEvent \<Rightarrow> s)"

text \<open>Every request overwrites the result of the one before.\<close>

definition configure_low_power :: "fota_env \<Rightarrow> fota \<Rightarrow> int \<times> fota" where
  "configure_low_power e s =
     (let s1 = fo_do (PsmReq (fe_psm_enable e)) s;
          err = fe_psm_req e;
          s2 = fo_do (EdrxReq (fe_edrx_enable e)) s1;
          err = fe_edrx_req e
      in if fe_rai_enable e then (fe_rai_req e, fo_do (RaiReq True) s2) else (err, s2))"

definition cert_provision :: "fota_env \<Rightarrow> fota \<Rightarrow> int \<times> fota" where
  "cert_provision e s =
     (let s1 = fo_do KeyExists s; (err, present) = fe_key_exists e in
      if err \<noteq> 0 then (err, s1)
      else
        (let s2 = (if present then fo_do KeyDelete s1 else s1);
             s3 = fo_do (KeyWrite (fe_cert_len e - 1)) s2
         in if fe_key_write e \<noteq> 0 then (fe_key_write e, s3) else (0, s3)))"

text \<open>The assertions of this function are empty unless \<open>CONFIG_ASSERT\<close> is set, which it is not.\<close>

definition fota_modem_configure :: "fota_env \<Rightarrow> fota \<Rightarrow> fota" where
  "fota_modem_configure e s =
     (if fe_auto_init e then s
      else
        (let s1 = (if fe_sys_init e then s else fo_do AtNotifInit s);
             s2 = (if fe_use_https e then snd (cert_provision e s1) else s1)
         in fo_do LteInitConnect s2))"

definition server_disconnect :: "fota \<Rightarrow> fota" where
  "server_disconnect s = fo_do (SocketClose (fo_fd s)) s"

text \<open>When the socket cannot be opened, \<open>err\<close> has no value yet: what is returned is what the stack held.\<close>

definition server_connect :: "fota_env \<Rightarrow> fota \<Rightarrow> int \<times> fota" where
  "server_connect e s =
     (let s1 = (fo_do SocketOpen s)\<lparr>fo_fd := fe_socket e\<rparr> in
      if fo_fd s1 < 0 then (fe_stack e, server_disconnect s1)
      else
        (let s2 = fo_do (SocketConnect (fo_fd s1)) s1 in
         if fe_connect e < 0 then (fe_connect e, server_disconnect s2) else (0, s2)))"

text \<open>The work item that transmits; \<open>ret\<close> is what \<open>send\<close> returns.\<close>

definition server_transmission_work_fn :: "fota_env \<Rightarrow> int \<Rightarrow> fota \<Rightarrow> fota" where
  "server_transmission_work_fn e ret s =
     (let s1 = fo_do (SendUdp (fo_fd s) (fe_payload e)) (s\<lparr>fo_tx_work := False\<rparr>) in
      if ret < 0 then s1 else (fo_do (SubmitTx (fe_period e)) s1)\<lparr>fo_tx_work := True\<rparr>)"

section \<open>The firmware update\<close>

definition TLS_SEC_TAG :: int where "TLS_SEC_TAG = 42"

definition pin_irq :: "bool \<Rightarrow> fota \<Rightarrow> fota" where
  "pin_irq on s = (fo_do (PinIrq on) s)\<lparr>fo_irq := on\<rparr>"

definition app_dfu_transfer_start :: "fota_env \<Rightarrow> int \<Rightarrow> fota \<Rightarrow> fota" where
  "app_dfu_transfer_start e retval s =
     (let sec_tag = (if fe_use_https e then TLS_SEC_TAG else - 1);
          s1 = fo_do (FotaStart sec_tag) (s\<lparr>fo_work := False\<rparr>)
      in if retval \<noteq> 0 then pin_irq True s1 else s1)"

definition dfu_button_pressed :: "fota \<Rightarrow> fota" where
  "dfu_button_pressed s = pin_irq False ((fo_do SubmitFota s)\<lparr>fo_work := True\<rparr>)"

datatype fota_evt = FOTA_DOWNLOAD_EVT_ERROR | FOTA_DOWNLOAD_EVT_FINISHED | FOTA_DOWNLOAD_EVT_OTHER

definition fota_dl_handler :: "fota_evt \<Rightarrow> fota \<Rightarrow> fota" where
  "fota_dl_handler evt s =
     (case evt of FOTA_DOWNLOAD_EVT_ERROR \<Rightarrow> pin_irq True s
      | FOTA_DOWNLOAD_EVT_FINISHED \<Rightarrow> pin_irq True s
      | FOTA_DOWNLOAD_EVT_OTHER \<Rightarrow> s)"

definition led_app_version :: "fota_env \<Rightarrow> fota \<Rightarrow> int \<times> fota" where
  "led_app_version e s =
     (if \<not> fe_led_bound e then (1, s)
      else (0, if fe_app_version e = 2 then fo_do (LedOn 1) (fo_do (LedOn 0) s) else fo_do (LedOn 0) s))"

definition dfu_button_init :: "fota_env \<Rightarrow> fota \<Rightarrow> int \<times> fota" where
  "dfu_button_init e s =
     (if \<not> fe_button_bound e then (1, s)
      else
        (let s1 = fo_do (PinConfigure 0) s; err = fe_pin_configure e;
             (err, s2) = (if err = 0 then (fe_add_callback e, fo_do AddCallback s1) else (err, s1));
             (err, s3) = (if err = 0
                          then (fe_pin_irq e, if fe_pin_irq e = 0 then pin_irq True s2 else fo_do (PinIrq True) s2)
                          else (err, s2))
         in if err \<noteq> 0 then (1, s3) else (0, s3)))"

definition application_init :: "fota_env \<Rightarrow> fota \<Rightarrow> int \<times> fota" where
  "application_init e s =
     (let (err, s1) = dfu_button_init e s in
      if err \<noteq> 0 then (err, s1)
      else
        (let (err, s2) = led_app_version e s1 in
         if err \<noteq> 0 then (err, s2)
         else
           (let s3 = fo_do FotaInit s2 in
            if fe_fota_init e \<noteq> 0 then (fe_fota_init e, s3) else (0, s3))))"

text \<open>After a successful modem update the thread suspends itself and does not get further here.\<close>

definition ota_svr_start :: "fota_env \<Rightarrow> fota \<Rightarrow> fota" where
  "ota_svr_start e s =
     (case fe_bsd e of
        MODEM_DFU_RESULT_OK \<Rightarrow> (fo_do ThreadSuspend s)\<lparr>fo_suspended := True\<rparr>
      | BsdInitFailed \<Rightarrow> s
      | _ \<Rightarrow> snd (application_init e (fo_do BootConfirmed s)))"

section \<open>The UART\<close>

text \<open>
  The wait for a valid line: \<open>fe_uart_err\<close> and \<open>fe_uart_clock\<close> give the result of the \<open>i\<close>-th check and
  the time read after it.
\<close>

partial_function (option) uart_wait :: "fota_env \<Rightarrow> u32 \<Rightarrow> nat \<Rightarrow> fota \<Rightarrow> (int \<times> fota) option" where
  "uart_wait e start_time i s =
     (if fe_uart_err e i = 0 then Some (0, s)
      else if 500 < fe_uart_clock e i - start_time then Some (- EIO, s)
      else uart_wait e start_time (i + 1) (fo_do (UartSleep 10) (fo_do UartDrop s)))"

definition fota_at_uart_init :: "fota_env \<Rightarrow> u32 \<Rightarrow> fota \<Rightarrow> (int \<times> fota) option" where
  "fota_at_uart_init e start_time s =
     (if \<not> fe_uart_bound e then Some (- EINVAL, s)
      else map_option (\<lambda>(err, s1). (err, if err = 0 then fo_do UartCallbackSet s1 else s1))
             (uart_wait e start_time 0 s))"

definition fota_uart_init :: "fota_env \<Rightarrow> u32 \<Rightarrow> fota \<Rightarrow> (int \<times> fota) option" where
  "fota_uart_init e start_time s =
     map_option (\<lambda>(err, s1). if err \<noteq> 0 then (- EFAULT, s1) else (err, fo_do UartRxEnable s1))
       (fota_at_uart_init e start_time s)"

fun write_uart_string :: "u8 list \<Rightarrow> fota \<Rightarrow> fota" where
  "write_uart_string [] s = s"
| "write_uart_string (c # cs) s = (if c = 0 then s else write_uart_string cs (fo_do (UartOut c) s))"

text \<open>The interrupt handler echoes what the FIFO holds.\<close>

definition fota_isr :: "bool \<Rightarrow> u8 list \<Rightarrow> fota \<Rightarrow> fota" where
  "fota_isr rx_ready fifo s = (if \<not> rx_ready then s else fold (\<lambda>c. fo_do (UartOut c)) fifo s)"

text \<open>
  The result of \<open>uart_init\<close> is not looked at: without a device the bytes are written to a null pointer.
  The greeting is formatted into 100 bytes.
\<close>

definition greeting :: "string \<Rightarrow> string" where
  "greeting board = ''Hello World! from UART_0 '' @ board @ [CHR 0x0A, CHR 0x0D]"

definition uart_echo_start :: "fota_env \<Rightarrow> u32 \<Rightarrow> string \<Rightarrow> fota \<Rightarrow> fota option" where
  "uart_echo_start e start_time board s =
     (if \<not> fe_uart_bound e \<or> 100 < length (greeting board) + 1 then None
      else map_option (\<lambda>(r, s1).
          write_uart_string (bytes_of (''Now Starting Looping back'' @ [CHR 0x0D, CHR 0x0A]))
            (write_uart_string (bytes_of (greeting board)) s1))
        (fota_uart_init e start_time s))"

section \<open>The program\<close>

text \<open>
  \<open>main\<close> waits for the LTE connection; \<open>evts\<close> are the events that arrive while it does. When the library
  has connected by itself no handler is registered and none arrive. \<open>None\<close> is a run that is still
  waiting, or that stays in the UART's loop for ever.
\<close>

definition fota_main :: "fota_env \<Rightarrow> u32 \<Rightarrow> string \<Rightarrow> lte_evt list \<Rightarrow> fota \<Rightarrow> fota option" where
  "fota_main e start_time board evts s =
     (let s1 = fota_modem_configure e (snd (configure_low_power e s));
          s2 = fold fota_lte_handler (if fe_auto_init e then [] else evts) s1
      in if \<not> fo_sem s2 then None
         else
           (let (err, s3) = server_connect e (s2\<lparr>fo_sem := False\<rparr>) in
            if err \<noteq> 0 then Some s3
            else
              (let s4 = ota_svr_start e ((fo_do (SubmitTx 0) s3)\<lparr>fo_tx_work := True\<rparr>) in
               if fo_suspended s4 then Some s4 else uart_echo_start e start_time board s4)))"

section \<open>The wait for the line\<close>

text \<open>The wait is over at a check that succeeds or comes after more than 500 ms.\<close>

definition wait_over :: "fota_env \<Rightarrow> u32 \<Rightarrow> nat \<Rightarrow> bool" where
  "wait_over e start_time i \<longleftrightarrow> fe_uart_err e i = 0 \<or> 500 < fe_uart_clock e i - start_time"

definition waited :: "nat \<Rightarrow> fota \<Rightarrow> fota" where
  "waited n s = s\<lparr>fo_calls := fo_calls s @ concat (replicate n [UartDrop, UartSleep 10])\<rparr>"

lemma waited_0 [simp]: "waited 0 s = s"
  by (simp add: waited_def)

lemma waited_Suc: "waited n (fo_do (UartSleep 10) (fo_do UartDrop s)) = waited (Suc n) s"
  by (simp add: waited_def fo_do_def)

lemma uart_wait_result:
  assumes "wait_over e start_time (i + k)" and "\<And>j. j < k \<Longrightarrow> \<not> wait_over e start_time (i + j)"
  shows "uart_wait e start_time i s = Some (if fe_uart_err e (i + k) = 0 then 0 else - EIO, waited k s)"
  using assms
proof (induction k arbitrary: i s)
  case 0
  then show ?case by (subst uart_wait.simps) (auto simp: wait_over_def)
next
  case (Suc k)
  have "\<not> wait_over e start_time i" using Suc.prems(2) [of 0] by simp
  moreover have "uart_wait e start_time (Suc i) s' =
      Some (if fe_uart_err e (Suc i + k) = 0 then 0 else - EIO, waited k s')" for s'
  proof (rule Suc.IH)
    fix j
    assume "j < k"
    then show "\<not> wait_over e start_time (Suc i + j)" using Suc.prems(2) [of "Suc j"] by simp
  qed (use Suc.prems(1) in simp)
  ultimately show ?case by (subst uart_wait.simps) (simp add: wait_over_def waited_Suc)
qed

definition never_over :: "fota_env \<Rightarrow> u32 \<Rightarrow> bool" where
  "never_over e start_time \<longleftrightarrow> (\<forall>i. \<not> wait_over e start_time i)"

lemma uart_wait_sound: "uart_wait e start_time i s = Some r \<Longrightarrow> \<not> never_over e start_time"
  by (rule uart_wait.raw_induct [where P = "\<lambda>e st i s r. \<not> never_over e st"])
     (auto simp: never_over_def wait_over_def split: if_splits)


section \<open>The download\<close>

text \<open>
  The button, the work queue and the download library as steps on the program's state and on whether the
  library is downloading: the button only interrupts while its interrupt is enabled, the library
  starts no second download, and it ends one with an event.
\<close>

inductive fota_step :: "fota_env \<Rightarrow> fota \<times> bool \<Rightarrow> fota \<times> bool \<Rightarrow> bool" for e where
  press: "fo_irq s \<Longrightarrow> fota_step e (s, d) (dfu_button_pressed s, d)"
| start: "fo_work s \<Longrightarrow> \<not> d \<Longrightarrow> fota_step e (s, d) (app_dfu_transfer_start e 0 s, True)"
| start_fails: "fo_work s \<Longrightarrow> ret \<noteq> 0 \<Longrightarrow> fota_step e (s, d) (app_dfu_transfer_start e ret s, d)"
| event: "fota_step e (s, True) (fota_dl_handler evt s, evt = FOTA_DOWNLOAD_EVT_OTHER)"
| transmit: "fo_tx_work s \<Longrightarrow> fota_step e (s, d) (server_transmission_work_fn e ret s, d)"

inductive_cases fota_stepE: "fota_step e x y"

inductive fota_reach :: "fota_env \<Rightarrow> fota \<times> bool \<Rightarrow> fota \<times> bool \<Rightarrow> bool" for e x where
  reach_refl: "fota_reach e x x"
| reach_step: "fota_reach e x y \<Longrightarrow> fota_step e y z \<Longrightarrow> fota_reach e x z"

text \<open>Of the interrupt, the pending work item and the download exactly one is there.\<close>

definition fota_one :: "fota \<times> bool \<Rightarrow> bool" where
  "fota_one x \<longleftrightarrow> (case x of (s, d) \<Rightarrow>
     (fo_irq s \<and> \<not> fo_work s \<and> \<not> d) \<or> (\<not> fo_irq s \<and> fo_work s \<and> \<not> d) \<or> (\<not> fo_irq s \<and> \<not> fo_work s \<and> d))"

definition starts :: "fota \<Rightarrow> nat" where
  "starts s = length (filter (\<lambda>c. case c of FotaStart t \<Rightarrow> True | _ \<Rightarrow> False) (fo_calls s))"

definition presses :: "fota \<Rightarrow> nat" where
  "presses s = count_list (fo_calls s) SubmitFota"

lemma fota_step_one:
  assumes "fota_step e x y" and "fota_one x"
    and "presses (fst x) = starts (fst x) + (if fo_work (fst x) then 1 else 0)"
  shows "fota_one y \<and> presses (fst y) = starts (fst y) + (if fo_work (fst y) then 1 else 0)"
  using assms
  by cases (auto simp: fota_one_def presses_def starts_def dfu_button_pressed_def app_dfu_transfer_start_def
      fota_dl_handler_def server_transmission_work_fn_def pin_irq_def fo_do_def Let_def split: fota_evt.splits)

text \<open>
  C23: from a state in which the button is enabled, whatever the button, the work queue and the download do:
  exactly one of the button's interrupt, a pending start and a download is active, so no press is
  taken during a download and the button always comes back; and every press leads to one start.
\<close>

theorem button_gates_download:
  assumes "fota_reach e (s, False) (s', d)" and "fo_irq s" and "\<not> fo_work s" and "presses s = starts s"
  shows "(if d then \<not> fo_irq s' \<and> \<not> fo_work s' else fo_irq s' \<noteq> fo_work s')
     \<and> presses s' = starts s' + (if fo_work s' then 1 else 0)"
proof -
  have "fota_one y \<and> presses (fst y) = starts (fst y) + (if fo_work (fst y) then 1 else 0)"
    if "fota_reach e (s, False) y" for y
    using that
  proof induction
    case reach_refl
    then show ?case using assms(2-4) by (simp add: fota_one_def)
  next
    case (reach_step y z)
    then show ?case using fota_step_one by blast
  qed
  from this [OF assms(1)] show ?thesis by (auto simp: fota_one_def)
qed

section \<open>Errors\<close>

text \<open>The transmissions of a run of the work item, one result each.\<close>

fun transmissions :: "fota_env \<Rightarrow> int list \<Rightarrow> fota \<Rightarrow> fota" where
  "transmissions e [] s = s"
| "transmissions e (r # rs) s = (if fo_tx_work s then transmissions e rs (server_transmission_work_fn e r s) else s)"

definition sends :: "fota \<Rightarrow> nat" where
  "sends s = length (filter (\<lambda>c. case c of SendUdp f n \<Rightarrow> True | _ \<Rightarrow> False) (fo_calls s))"

lemma transmissions_stopped: "\<not> fo_tx_work s \<Longrightarrow> transmissions e rs s = s"
  by (cases rs) simp_all

text \<open>
  the periodic transmission goes on as long as every \<open>send\<close> succeeds, and the first failure is the last
  transmission of the run.
\<close>

theorem transmission_stops_at_error:
  assumes "fo_tx_work s"
  shows "sends (transmissions e rs s) =
     sends s + (if \<forall>r \<in> set rs. 0 \<le> r then length rs else Suc (length (takeWhile (\<lambda>r. 0 \<le> r) rs)))
   \<and> (fo_tx_work (transmissions e rs s) \<longleftrightarrow> (\<forall>r \<in> set rs. 0 \<le> r))"
  using assms
proof (induction rs arbitrary: s)
  case (Cons r rs)
  show ?case
  proof (cases "r < 0")
    case True
    then have "\<not> fo_tx_work (server_transmission_work_fn e r s)"
      by (simp add: server_transmission_work_fn_def fo_do_def)
    moreover have "sends (server_transmission_work_fn e r s) = Suc (sends s)"
      using True by (simp add: server_transmission_work_fn_def fo_do_def sends_def)
    ultimately show ?thesis using Cons.prems True by (auto simp: transmissions_stopped)
  next
    case False
    then have "fo_tx_work (server_transmission_work_fn e r s)"
      "sends (server_transmission_work_fn e r s) = Suc (sends s)"
      by (simp_all add: server_transmission_work_fn_def fo_do_def sends_def Let_def)
    then show ?thesis using Cons.IH [of "server_transmission_work_fn e r s"] Cons.prems False by auto
  qed
qed simp

text \<open>
  when the socket cannot be opened, \<open>server_connect\<close> returns whatever the stack held: with 0 there the
  program goes on, transmits on the invalid descriptor, and starts the update service.
\<close>

theorem failed_socket_goes_on:
  assumes "fe_socket e < 0" and "\<not> fe_auto_init e"
  shows "fst (server_connect e s) = fe_stack e
     \<and> (fe_stack e = 0 \<longrightarrow> fo_sem (fold fota_lte_handler evts (fota_modem_configure e (snd (configure_low_power e s))))
         \<longrightarrow> fe_bsd e = MODEM_DFU_RESULT_OK
         \<longrightarrow> (\<exists>s'. fota_main e start_time board evts s = Some s' \<and> fo_tx_work s' \<and> fo_fd s' < 0))"
  using assms
  by (auto simp: server_connect_def server_disconnect_def fota_main_def ota_svr_start_def fo_do_def Let_def)

text \<open>
  the start of the update service reports an error exactly when a step fails, but the button is enabled
  first: when the LED or the download library fails afterwards, it stays enabled.
\<close>

theorem application_init_outcome:
  fixes e :: fota_env
  assumes "\<not> fo_irq s"
  defines "ok \<equiv> fe_button_bound e \<and> fe_pin_configure e = 0 \<and> fe_add_callback e = 0 \<and> fe_pin_irq e = 0"
  shows "(fst (application_init e s) = 0 \<longleftrightarrow> ok \<and> fe_led_bound e \<and> fe_fota_init e = 0)
     \<and> (fo_irq (snd (application_init e s)) \<longleftrightarrow> ok)"
  using assms(1)
  by (auto simp: application_init_def dfu_button_init_def led_app_version_def pin_irq_def fo_do_def ok_def Let_def
      split: if_splits prod.splits)

text \<open>
  the low-power set-up reports the result of its last request only, and the certificate is written
  whether or not an old one could be deleted.
\<close>

theorem modem_setup_outcome:
  "fst (configure_low_power e s) = (if fe_rai_enable e then fe_rai_req e else fe_edrx_req e)
   \<and> (fst (cert_provision e s) = 0 \<longleftrightarrow> fst (fe_key_exists e) = 0 \<and> fe_key_write e = 0)
   \<and> (fst (fe_key_exists e) = 0 \<longrightarrow> last (fo_calls (snd (cert_provision e s))) = KeyWrite (fe_cert_len e - 1))"
  by (auto simp: configure_low_power_def cert_provision_def fo_do_def Let_def split: prod.splits)

section \<open>Witnesses\<close>

definition demo_fota_env :: fota_env where
  "demo_fota_env = \<lparr>fe_psm_enable = False, fe_edrx_enable = False, fe_rai_enable = False, fe_use_https = False,
     fe_auto_init = False, fe_sys_init = True, fe_app_version = 1, fe_payload = 50, fe_period = 60,
     fe_psm_req = 0, fe_edrx_req = 0, fe_rai_req = 0, fe_lte_init = 0, fe_key_exists = (0, False),
     fe_key_delete = 0, fe_key_write = 0, fe_cert_len = 100, fe_socket = - 1, fe_connect = 0, fe_stack = 0,
     fe_button_bound = True, fe_pin_configure = 0, fe_add_callback = 0, fe_pin_irq = 0, fe_led_bound = False,
     fe_fota_init = 0, fe_bsd = MODEM_DFU_RESULT_OK, fe_uart_bound = True,
     fe_uart_err = (\<lambda>i. if i < 2 then 1 else 0), fe_uart_clock = (\<lambda>i. of_nat (10 * i))\<rparr>"

definition demo_fota :: fota where
  "demo_fota = \<lparr>fo_sem = False, fo_fd = 0, fo_irq = False, fo_work = False, fo_tx_work = False,
     fo_suspended = False, fo_calls = []\<rparr>"


theorem button_gates_download_witness:
  "\<exists>s'. fota_reach demo_fota_env (demo_fota\<lparr>fo_irq := True\<rparr>, False) (s', True)
     \<and> \<not> fo_irq s' \<and> \<not> fo_work s' \<and> presses s' = starts s'"
proof -
  let ?s = "demo_fota\<lparr>fo_irq := True\<rparr>"
  let ?s2 = "app_dfu_transfer_start demo_fota_env 0 (dfu_button_pressed ?s)"
  have "fota_step demo_fota_env (?s, False) (dfu_button_pressed ?s, False)" by (rule press) simp
  moreover have "fota_step demo_fota_env (dfu_button_pressed ?s, False) (?s2, True)"
    by (rule start) (simp_all add: dfu_button_pressed_def pin_irq_def fo_do_def)
  ultimately have r: "fota_reach demo_fota_env (?s, False) (?s2, True)" by (meson reach_refl reach_step)
  have "fo_irq ?s" "\<not> fo_work ?s" "presses ?s = starts ?s"
    by (simp_all add: demo_fota_def presses_def starts_def)
  from button_gates_download [OF r this] r show ?thesis by (intro exI [of _ ?s2]) (auto split: if_splits)
qed

theorem transmission_stops_at_error_witness:
  "sends (transmissions demo_fota_env [50, 50, - 1, 50] (demo_fota\<lparr>fo_tx_work := True\<rparr>)) = 3
   \<and> \<not> fo_tx_work (transmissions demo_fota_env [50, 50, - 1, 50] (demo_fota\<lparr>fo_tx_work := True\<rparr>))"
  using transmission_stops_at_error [of "demo_fota\<lparr>fo_tx_work := True\<rparr>" demo_fota_env "[50, 50, - 1, 50]"]
  by (simp add: demo_fota_def sends_def)

theorem failed_socket_goes_on_witness:
  "\<exists>s'. fota_main demo_fota_env 0 ''board'' [NW_REG_STATUS RegisteredHome] demo_fota = Some s' \<and> fo_tx_work s' \<and> fo_fd s' < 0"
  using failed_socket_goes_on [where e = demo_fota_env and evts = "[NW_REG_STATUS RegisteredHome]" and s = demo_fota
      and start_time = "0" and board = "''board''"]
  by (simp add: demo_fota_env_def demo_fota_def fota_lte_handler_def)

theorem application_init_outcome_witness:
  "fst (application_init demo_fota_env demo_fota) \<noteq> 0 \<and> fo_irq (snd (application_init demo_fota_env demo_fota))"
  using application_init_outcome [of demo_fota demo_fota_env] by (simp add: demo_fota_def demo_fota_env_def)

theorem modem_setup_outcome_witness:
  "fst (cert_provision demo_fota_env demo_fota) = 0
   \<and> last (fo_calls (snd (cert_provision demo_fota_env demo_fota))) = KeyWrite 99"
  using modem_setup_outcome [of demo_fota_env demo_fota] by (simp add: demo_fota_env_def)

end
