(* ===== verification/HsUart.thy ===== *)
theory HsUart
  imports CoreRpc "HOL-Library.Multiset"
begin

text \<open>
  The UART thread of the nRF5340 example (\<open>nrf53_ble/otherExamples/appcore/src/uart_thread.c\<close>): what
  arrives over the UART is sent to the Bluetooth peer and back over the UART.

  Buffers are heap blocks by address, of which \<open>hs_heap\<close> holds the bytes up to their length; the two
  kernel FIFOs are lists of addresses. Allocation and what \<open>uart_tx\<close> returns are parameters.
  \<open>hs_busy\<close> is the buffer the driver has accepted and not reported done; \<open>hs_wire\<close>, \<open>hs_submitted\<close>
  and \<open>hs_received\<close> are history: what the driver accepted, what \<open>my_uart_send\<close> was given,
  and what was received. Using a block that is not allocated, a null pointer or more than the 255 bytes of
  a buffer is \<open>None\<close>.
\<close>

section \<open>State\<close>

definition HS_BUF_SIZE :: nat where "HS_BUF_SIZE = 255"

datatype hs_call = HsRxEnable | HsRxBufRsp ptr

record hs_uart =
  hs_heap :: "ptr \<Rightarrow> u8 list option"
  hs_tx_fifo :: "ptr list"
  hs_rx_fifo :: "ptr list"
  hs_next_buf :: ptr
  hs_busy :: "ptr option"
  hs_wire :: "u8 list list"
  hs_submitted :: "u8 list list"
  hs_received :: "u8 list list"
  hs_calls :: "hs_call list"

record hs_env =
  he_alloc :: "(ptr \<Rightarrow> u8 list option) \<Rightarrow> ptr"
  he_tx :: "ptr option \<Rightarrow> int"

text \<open>\<open>uart_tx\<close> of the block \<open>b\<close>.\<close>

definition hs_uart_tx :: "hs_env \<Rightarrow> ptr \<Rightarrow> u8 list \<Rightarrow> hs_uart \<Rightarrow> int \<times> hs_uart" where
  "hs_uart_tx e b data s =
     (he_tx e (hs_busy s),
      if he_tx e (hs_busy s) = 0 then s\<lparr>hs_busy := Some b, hs_wire := hs_wire s @ [data]\<rparr> else s)"

definition hs_free :: "ptr \<Rightarrow> hs_uart \<Rightarrow> hs_uart option" where
  "hs_free b s = (if hs_heap s b = None then None else Some (s\<lparr>hs_heap := (hs_heap s)(b := None)\<rparr>))"

section \<open>The callback\<close>

datatype hs_event = HS_TX_DONE ptr | HS_RX_RDY "u8 list" | HS_RX_DISABLED | HS_RX_BUF_REQUEST
  | HS_RX_BUF_RELEASED ptr | HS_TX_ABORTED | HS_OTHER

text \<open>\<open>CONTAINER_OF\<close>: the data starts four bytes into a block.\<close>

definition hs_uart_cb :: "hs_env \<Rightarrow> hs_event \<Rightarrow> hs_uart \<Rightarrow> hs_uart option" where
  "hs_uart_cb e evt s =
     (case evt of
        HS_TX_DONE buf \<Rightarrow>
          Option.bind (hs_free (buf - 4) s) (\<lambda>s1.
            case hs_tx_fifo s1 of
              [] \<Rightarrow> Some s1
            | b2 # q \<Rightarrow>
                (case hs_heap s1 b2 of
                   None \<Rightarrow> None
                 | Some data \<Rightarrow> Some (snd (hs_uart_tx e b2 data (s1\<lparr>hs_tx_fifo := q\<rparr>)))))
      | HS_RX_RDY data \<Rightarrow>
          (let b = he_alloc e (hs_heap s) in
           if b = 0 \<or> HS_BUF_SIZE < length data then None
           else Some (s\<lparr>hs_heap := (hs_heap s)(b \<mapsto> data), hs_rx_fifo := hs_rx_fifo s @ [b],
                        hs_received := hs_received s @ [data]\<rparr>))
      | HS_RX_DISABLED \<Rightarrow> Some (s\<lparr>hs_calls := hs_calls s @ [HsRxEnable]\<rparr>)
      | HS_RX_BUF_REQUEST \<Rightarrow> Some (s\<lparr>hs_calls := hs_calls s @ [HsRxBufRsp (hs_next_buf s)]\<rparr>)
      | HS_RX_BUF_RELEASED buf \<Rightarrow> Some (s\<lparr>hs_next_buf := buf\<rparr>)
      | HS_TX_ABORTED \<Rightarrow> Some s
      | HS_OTHER \<Rightarrow> Some s)"

section \<open>Sending\<close>

text \<open>
  \<open>my_uart_send\<close> up to the call of the driver, and the rest. The callback may run in between: the first
  part returns the block that is still to be put into the FIFO.
\<close>

definition send_begin :: "hs_env \<Rightarrow> u8 list \<Rightarrow> hs_uart \<Rightarrow> (int \<times> ptr option \<times> hs_uart) option" where
  "send_begin e buf s =
     (let b = he_alloc e (hs_heap s) in
      if b = 0 then Some (- ENOMEM, None, s)
      else if HS_BUF_SIZE < length buf then None
      else
        (let (err, s1) = hs_uart_tx e b buf (s\<lparr>hs_heap := (hs_heap s)(b \<mapsto> buf), hs_submitted := hs_submitted s @ [buf]\<rparr>)
         in Some (err, if err \<noteq> 0 then Some b else None, s1)))"

definition send_end :: "ptr option \<Rightarrow> hs_uart \<Rightarrow> hs_uart" where
  "send_end pending s = (case pending of None \<Rightarrow> s | Some b \<Rightarrow> s\<lparr>hs_tx_fifo := hs_tx_fifo s @ [b]\<rparr>)"

definition my_uart_send :: "hs_env \<Rightarrow> u8 list \<Rightarrow> hs_uart \<Rightarrow> (int \<times> hs_uart) option" where
  "my_uart_send e buf s = map_option (\<lambda>(err, pending, s1). (err, send_end pending s1)) (send_begin e buf s)"

section \<open>The thread\<close>

text \<open>
  Where the thread stands: it waits for a buffer, has taken one, has forwarded it to the peer, is between a refused
  \<open>uart_tx\<close> of the block \<open>t\<close> and its \<open>k_fifo_put\<close>, or has sent the buffer and is about to free it.
\<close>

datatype thread_pc = ThWait | ThGot ptr | ThForwarded ptr | ThRefused ptr ptr | ThSent ptr

text \<open>One step of \<open>uart_thread\<close> on the UART and the two cores; with an empty FIFO it waits.\<close>

definition uart_thread_step ::
  "'p cbor_api \<Rightarrow> ('p, duo) transport \<Rightarrow> duo_env \<Rightarrow> hs_env \<Rightarrow> thread_pc \<Rightarrow> hs_uart \<Rightarrow> duo \<Rightarrow> (thread_pc \<times> hs_uart \<times> duo) option" where
  "uart_thread_step cb tr de e pc s d =
     (case pc of
        ThWait \<Rightarrow> (case hs_rx_fifo s of [] \<Rightarrow> Some (ThWait, s, d) | b # q \<Rightarrow> Some (ThGot b, s\<lparr>hs_rx_fifo := q\<rparr>, d))
      | ThGot b \<Rightarrow>
          (case hs_heap s b of
             None \<Rightarrow> None
           | Some data \<Rightarrow>
               map_option (\<lambda>d1. (ThForwarded b, s, d1))
                 (if is_ble_connected d then map_option snd (app2net_send_nus cb tr de (Some data) d) else Some d))
      | ThForwarded b \<Rightarrow>
          (case hs_heap s b of
             None \<Rightarrow> None
           | Some data \<Rightarrow>
               map_option (\<lambda>(err, pending, s1). (case pending of None \<Rightarrow> ThSent b | Some t \<Rightarrow> ThRefused b t, s1, d))
                 (send_begin e data s))
      | ThRefused b t \<Rightarrow> Some (ThSent b, send_end (Some t) s, d)
      | ThSent b \<Rightarrow> map_option (\<lambda>s1. (ThWait, s1, d)) (hs_free b s))"

section \<open>Runs\<close>

text \<open>
  The thread, the callback of the remote call that hands over a packet from the peer (\<open>bt_receive_cb\<close> of the
  RPC thread, which calls \<open>my_uart_send\<close> too), and the driver's interrupt. \<open>hr_peer\<close> is the block which
  the remote call is about to put into the FIFO; \<open>hr_raced\<close> records that, while a refused block was not yet
  in the FIFO, a transmission ended or another packet was sent.
\<close>

record hs_run =
  hr_uart :: hs_uart
  hr_duo :: duo
  hr_thread :: thread_pc
  hr_peer :: "ptr option"
  hr_raced :: bool

fun thread_refused :: "thread_pc \<Rightarrow> ptr list" where
  "thread_refused (ThRefused b t) = [t]"
| "thread_refused _ = []"

definition refused :: "hs_run \<Rightarrow> ptr list" where
  "refused x = (case hr_peer x of None \<Rightarrow> [] | Some b \<Rightarrow> [b]) @ thread_refused (hr_thread x)"

text \<open>
  The driver is done with a buffer, the driver has received, the thread moves, a packet comes over Bluetooth, and
  the \<open>k_fifo_put\<close> of that packet when it was refused.
\<close>

datatype hs_move = TxDone | Received "u8 list" | ThreadMoves | FromPeer "u8 list" | PeerPuts

definition sends :: "hs_move \<Rightarrow> hs_run \<Rightarrow> bool" where
  "sends ev x = (case ev of
       TxDone \<Rightarrow> True
     | FromPeer data \<Rightarrow> True
     | ThreadMoves \<Rightarrow> (case hr_thread x of ThForwarded b \<Rightarrow> True | _ \<Rightarrow> False)
     | _ \<Rightarrow> False)"

definition hs_move_step ::
  "'p cbor_api \<Rightarrow> ('p, duo) transport \<Rightarrow> duo_env \<Rightarrow> hs_env \<Rightarrow> hs_move \<Rightarrow> hs_run \<Rightarrow> hs_run option" where
  "hs_move_step cb tr de e ev x =
     (let s = hr_uart x in
        case ev of
           TxDone \<Rightarrow> (case hs_busy s of
               None \<Rightarrow> Some x
             | Some b \<Rightarrow> map_option (\<lambda>s1. x\<lparr>hr_uart := s1\<rparr>) (hs_uart_cb e (HS_TX_DONE (b + 4)) (s\<lparr>hs_busy := None\<rparr>)))
         | Received data \<Rightarrow> map_option (\<lambda>s1. x\<lparr>hr_uart := s1\<rparr>) (hs_uart_cb e (HS_RX_RDY data) s)
         | ThreadMoves \<Rightarrow> map_option (\<lambda>(pc, s1, d1). x\<lparr>hr_thread := pc, hr_uart := s1, hr_duo := d1\<rparr>)
                            (uart_thread_step cb tr de e (hr_thread x) s (hr_duo x))
         | FromPeer data \<Rightarrow> map_option (\<lambda>(r, pending, s1). x\<lparr>hr_uart := s1, hr_peer := pending\<rparr>) (send_begin e data s)
         | PeerPuts \<Rightarrow> Some (x\<lparr>hr_uart := send_end (hr_peer x) s, hr_peer := None\<rparr>))"

definition hs_step ::
  "'p cbor_api \<Rightarrow> ('p, duo) transport \<Rightarrow> duo_env \<Rightarrow> hs_env \<Rightarrow> hs_move \<Rightarrow> hs_run \<Rightarrow> hs_run option" where
  "hs_step cb tr de e ev x =
     map_option (\<lambda>x1. x1\<lparr>hr_raced := hr_raced x \<or> refused x \<noteq> [] \<and> sends ev x\<rparr>) (hs_move_step cb tr de e ev x)"

text \<open>
  What is assumed of the environment: allocation gives a block that is not in use, or null; the driver
  accepts a buffer exactly when it has none. A step is good when what is received fits a buffer and
  there is memory for it, and the remote call hands over its packets one after the other.
\<close>

definition hs_env_ok :: "hs_env \<Rightarrow> bool" where
  "hs_env_ok e \<longleftrightarrow> (\<forall>h. he_alloc e h = 0 \<or> h (he_alloc e h) = None) \<and> (\<forall>b. he_tx e b = 0 \<longleftrightarrow> b = None)"

definition hs_step_ok :: "hs_env \<Rightarrow> hs_move \<Rightarrow> hs_run \<Rightarrow> bool" where
  "hs_step_ok e ev x = (case ev of
       Received data \<Rightarrow> data \<noteq> [] \<and> length data \<le> HS_BUF_SIZE \<and> he_alloc e (hs_heap (hr_uart x)) \<noteq> 0
     | FromPeer data \<Rightarrow> data \<noteq> [] \<and> length data \<le> HS_BUF_SIZE \<and> hr_peer x = None
     | _ \<Rightarrow> True)"

section \<open>The invariant\<close>

definition busy_list :: "hs_uart \<Rightarrow> ptr list" where
  "busy_list s = (case hs_busy s of None \<Rightarrow> [] | Some b \<Rightarrow> [b])"

fun thread_block :: "thread_pc \<Rightarrow> ptr list" where
  "thread_block ThWait = []"
| "thread_block (ThGot b) = [b]"
| "thread_block (ThForwarded b) = [b]"
| "thread_block (ThRefused b t) = [b]"
| "thread_block (ThSent b) = [b]"

fun thread_unsent :: "thread_pc \<Rightarrow> ptr list" where
  "thread_unsent (ThGot b) = [b]"
| "thread_unsent _ = []"

definition blocks :: "hs_run \<Rightarrow> ptr list" where
  "blocks x = busy_list (hr_uart x) @ hs_tx_fifo (hr_uart x) @ hs_rx_fifo (hr_uart x) @ thread_block (hr_thread x) @ refused x"

definition block_data :: "(ptr \<Rightarrow> u8 list option) \<Rightarrow> ptr list \<Rightarrow> u8 list list" where
  "block_data h bs = map (\<lambda>b. the (h b)) bs"

definition nus_sent :: "duo \<Rightarrow> u8 list list" where
  "nus_sent d = concat (map (\<lambda>c. case c of NusSend b \<Rightarrow> [b] | _ \<Rightarrow> []) (du_calls d))"

definition hs_heap_ok :: "hs_run \<Rightarrow> bool" where
  "hs_heap_ok x \<longleftrightarrow> distinct (blocks x) \<and> dom (hs_heap (hr_uart x)) = set (blocks x)
     \<and> (\<forall>b data. hs_heap (hr_uart x) b = Some data \<longrightarrow> data \<noteq> [] \<and> length data \<le> HS_BUF_SIZE)"

text \<open>Everything given to \<open>my_uart_send\<close> is on the wire, in the FIFO or refused and about to be put there.\<close>

definition on_the_way :: "hs_run \<Rightarrow> u8 list list" where
  "on_the_way x = hs_wire (hr_uart x) @ block_data (hs_heap (hr_uart x)) (hs_tx_fifo (hr_uart x) @ refused x)"

definition hs_ordered :: "hs_run \<Rightarrow> bool" where
  "hs_ordered x \<longleftrightarrow> mset (on_the_way x) = mset (hs_submitted (hr_uart x))
     \<and> (\<not> hr_raced x \<longrightarrow> on_the_way x = hs_submitted (hr_uart x) \<and> length (refused x) \<le> 1
          \<and> (hs_busy (hr_uart x) = None \<longrightarrow> hs_tx_fifo (hr_uart x) = [] \<and> refused x = []))"

definition to_peer :: "hs_run \<Rightarrow> bool" where
  "to_peer x \<longleftrightarrow> nus_sent (hr_duo x)
        @ block_data (hs_heap (hr_uart x)) (thread_unsent (hr_thread x) @ hs_rx_fifo (hr_uart x)) = hs_received (hr_uart x)"

definition hs_inv :: "hs_run \<Rightarrow> bool" where
  "hs_inv x \<longleftrightarrow> hs_heap_ok x \<and> hs_ordered x \<and> is_ble_connected (hr_duo x) \<and> to_peer x"

lemma refused_upd [simp]:
  "refused (x\<lparr>hr_uart := u\<rparr>) = refused x" "refused (x\<lparr>hr_raced := r\<rparr>) = refused x"
  "refused (x\<lparr>hr_uart := u, hr_raced := r\<rparr>) = refused x"
  by (simp_all add: refused_def)

lemma block_data_upd [simp]:
  "b \<notin> set bs \<Longrightarrow> block_data (h(b := x)) bs = block_data h bs"
  by (auto simp: block_data_def)

lemma block_data_simps [simp]:
  "block_data h [] = []" "block_data h (b # bs) = the (h b) # block_data h bs" "block_data h (bs @ cs) = block_data h bs @ block_data h cs"
  by (simp_all add: block_data_def)

lemma fresh_block:
  assumes "hs_env_ok e" and "hs_heap_ok x" and "he_alloc e (hs_heap (hr_uart x)) \<noteq> 0"
  shows "hs_heap (hr_uart x) (he_alloc e (hs_heap (hr_uart x))) = None"
    "he_alloc e (hs_heap (hr_uart x)) \<notin> set (blocks x)"
proof -
  have "he_alloc e h = 0 \<or> h (he_alloc e h) = None" for h using assms(1) by (simp add: hs_env_ok_def)
  from this [of "hs_heap (hr_uart x)"] show n: "hs_heap (hr_uart x) (he_alloc e (hs_heap (hr_uart x))) = None"
    using assms(3) by simp
  have d: "dom (hs_heap (hr_uart x)) = set (blocks x)" using assms(2) by (simp add: hs_heap_ok_def)
  show "he_alloc e (hs_heap (hr_uart x)) \<notin> set (blocks x)" unfolding d [symmetric] using n by (simp add: domIff)
qed

text \<open>Allocating, freeing and moving blocks, with the order of the lists left open.\<close>

lemma heap_ok_add:
  assumes "hs_heap_ok x" and "b \<notin> set (blocks x)" and "data \<noteq> []" and "length data \<le> HS_BUF_SIZE"
    and "hs_heap (hr_uart x') = (hs_heap (hr_uart x))(b \<mapsto> data)" and "mset (blocks x') = add_mset b (mset (blocks x))"
  shows "hs_heap_ok x'"
proof -
  have "mset (blocks x') = mset (b # blocks x)" using assms(6) by simp
  then have "set (blocks x') = insert b (set (blocks x))" "distinct (blocks x') \<longleftrightarrow> distinct (b # blocks x)"
    by (metis mset_eq_setD list.simps(15), metis mset_eq_imp_distinct_iff)
  with assms show ?thesis by (simp add: hs_heap_ok_def)
qed

lemma heap_ok_drop:
  assumes "hs_heap_ok x" and "hs_heap (hr_uart x') = (hs_heap (hr_uart x))(b := None)"
    and "mset (blocks x) = add_mset b (mset (blocks x'))"
  shows "hs_heap_ok x'"
proof -
  have "mset (blocks x) = mset (b # blocks x')" using assms(3) by simp
  then have "set (blocks x) = insert b (set (blocks x'))" "distinct (blocks x) \<longleftrightarrow> distinct (b # blocks x')"
    by (metis mset_eq_setD list.simps(15), metis mset_eq_imp_distinct_iff)
  with assms(1,2) show ?thesis by (auto simp: hs_heap_ok_def)
qed

lemma heap_ok_move:
  assumes "hs_heap_ok x" and "hs_heap (hr_uart x') = hs_heap (hr_uart x)" and "mset (blocks x') = mset (blocks x)"
  shows "hs_heap_ok x'"
  using assms mset_eq_setD [OF assms(3)] mset_eq_imp_distinct_iff [OF assms(3)] by (simp add: hs_heap_ok_def)

lemma heap_ok_block:
  assumes "hs_heap_ok x" and "b \<in> set (blocks x)"
  obtains data where "hs_heap (hr_uart x) b = Some data" and "data \<noteq> []" and "length data \<le> HS_BUF_SIZE"
proof -
  have "b \<in> dom (hs_heap (hr_uart x))" using assms by (simp add: hs_heap_ok_def)
  then obtain data where d: "hs_heap (hr_uart x) b = Some data" by (auto simp: dom_def)
  with assms(1) have "data \<noteq> []" "length data \<le> HS_BUF_SIZE" unfolding hs_heap_ok_def by blast+
  with d show thesis by (rule that)
qed

text \<open>
  The two outcomes of the first part of \<open>my_uart_send\<close> with memory; \<open>x'\<close> is any state of the run that has
  the new UART and, among the refused blocks, the one just refused.
\<close>

lemma send_begin_cases:
  assumes "hs_env_ok e" and "length data \<le> HS_BUF_SIZE"
  shows "he_alloc e (hs_heap s) = 0 \<Longrightarrow> send_begin e data s = Some (- ENOMEM, None, s)"
    and "he_alloc e (hs_heap s) \<noteq> 0 \<Longrightarrow> send_begin e data s =
      (let b = he_alloc e (hs_heap s);
           s1 = s\<lparr>hs_heap := (hs_heap s)(b \<mapsto> data), hs_submitted := hs_submitted s @ [data]\<rparr>
       in if hs_busy s = None then Some (0, None, s1\<lparr>hs_busy := Some b, hs_wire := hs_wire s @ [data]\<rparr>)
          else Some (he_tx e (hs_busy s), Some b, s1))"
proof -
  have tx: "he_tx e b = 0 \<longleftrightarrow> b = None" for b using assms(1) by (simp add: hs_env_ok_def)
  show "he_alloc e (hs_heap s) = 0 \<Longrightarrow> send_begin e data s = Some (- ENOMEM, None, s)"
    by (simp add: send_begin_def)
  assume "he_alloc e (hs_heap s) \<noteq> 0"
  then show "send_begin e data s =
      (let b = he_alloc e (hs_heap s);
           s1 = s\<lparr>hs_heap := (hs_heap s)(b \<mapsto> data), hs_submitted := hs_submitted s @ [data]\<rparr>
       in if hs_busy s = None then Some (0, None, s1\<lparr>hs_busy := Some b, hs_wire := hs_wire s @ [data]\<rparr>)
          else Some (he_tx e (hs_busy s), Some b, s1))"
    using assms(2) tx [of "hs_busy s"] tx [of None] by (simp add: send_begin_def hs_uart_tx_def Let_def)
qed

lemma send_begin_some:
  assumes "hs_env_ok e" and "length data \<le> HS_BUF_SIZE"
  shows "\<exists>err pending s1. send_begin e data s = Some (err, pending, s1)"
  using send_begin_cases [OF assms, of s]
  by (cases "he_alloc e (hs_heap s) = 0"; cases "hs_busy s = None") (simp_all add: Let_def)

definition pending_list :: "ptr option \<Rightarrow> ptr list" where
  "pending_list p = (case p of None \<Rightarrow> [] | Some b \<Rightarrow> [b])"

lemma mset_block_data: "mset (block_data h bs) = image_mset (\<lambda>b. the (h b)) (mset bs)"
  by (simp add: block_data_def)

lemma image_upd: "b \<notin># M \<Longrightarrow> image_mset (\<lambda>c. the ((h(b := v)) c)) M = image_mset (\<lambda>c. the (h c)) M"
  by (rule image_mset_cong) auto

text \<open>Sending a packet, for the thread and the remote call alike: \<open>x'\<close> is the state after it.\<close>

lemma send_inv:
  assumes e: "hs_env_ok e" and i: "hs_inv x" and d: "data \<noteq> []" "length data \<le> HS_BUF_SIZE"
    and s: "send_begin e data (hr_uart x) = Some (err, pending, hr_uart x')"
    and d': "hr_duo x' = hr_duo x" and tb: "thread_block (hr_thread x') = thread_block (hr_thread x)"
    and tu: "thread_unsent (hr_thread x') = thread_unsent (hr_thread x)"
    and ref: "mset (refused x') = mset (refused x) + mset (pending_list pending)"
      "refused x = [] \<Longrightarrow> refused x' = pending_list pending"
    and rc: "hr_raced x' = (hr_raced x \<or> refused x \<noteq> [])"
  shows "hs_inv x'"
proof (cases "he_alloc e (hs_heap (hr_uart x)) = 0")
  case True
  then have same: "hr_uart x' = hr_uart x" "pending = None"
    using s send_begin_cases(1) [OF e d(2)] by auto
  then have m: "mset (refused x') = mset (refused x)" using ref(1) by (simp add: pending_list_def)
  have "hs_heap_ok x'"
  proof (rule heap_ok_move [of x])
    show "hs_heap_ok x" using i by (simp add: hs_inv_def)
  qed (simp_all add: same(1) blocks_def tb m)
  moreover have "hs_ordered x'"
  proof -
    have o: "hs_ordered x" using i by (simp add: hs_inv_def)
    have "mset (on_the_way x') = mset (on_the_way x)" by (simp add: on_the_way_def mset_block_data same m)
    moreover have "on_the_way x' = on_the_way x" "refused x' = []" "refused x = []" if "\<not> hr_raced x'"
      using that rc ref(2) same by (simp_all add: on_the_way_def pending_list_def)
    ultimately show ?thesis using o rc unfolding hs_ordered_def same(1) by auto
  qed
  ultimately show ?thesis using i d' tu same(1) by (simp add: hs_inv_def to_peer_def)
next
  case False
  let ?s = "hr_uart x" and ?b = "he_alloc e (hs_heap (hr_uart x))"
  have h: "hs_heap_ok x" and o: "hs_ordered x" and c: "is_ble_connected (hr_duo x)" and p: "to_peer x"
    using i by (simp_all add: hs_inv_def)
  note f = fresh_block [OF e h False]
  have fs: "?b \<notin> set (hs_tx_fifo ?s)" "?b \<notin> set (hs_rx_fifo ?s)" "?b \<notin> set (refused x)"
    "?b \<notin> set (thread_block (hr_thread x))" using f(2) by (auto simp: blocks_def)
  have "set (thread_unsent (hr_thread x)) \<subseteq> set (thread_block (hr_thread x))" by (cases "hr_thread x") auto
  then have fu: "?b \<notin> set (thread_unsent (hr_thread x))" using fs(4) by blast
  note sb = send_begin_cases(2) [OF e d(2) False]
  show ?thesis
  proof (cases "hs_busy ?s")
    case None
    then have s': "hr_uart x' = ?s\<lparr>hs_heap := (hs_heap ?s)(?b \<mapsto> data), hs_submitted := hs_submitted ?s @ [data],
        hs_busy := Some ?b, hs_wire := hs_wire ?s @ [data]\<rparr>" "pending = None"
      using s sb by (simp_all add: Let_def)
    have m: "mset (refused x') = mset (refused x)" using ref(1) s'(2) by (simp add: pending_list_def)
    have fr: "?b \<notin> set (refused x')" using fs(3) mset_eq_setD [OF m] by simp
    have "hs_heap_ok x'"
      by (rule heap_ok_add [OF h f(2) d]) (simp_all add: s' blocks_def busy_list_def None tb m)
    moreover have "hs_ordered x'"
      using o None s' m ref(2) rc fs fr
      by (auto simp: hs_ordered_def on_the_way_def mset_block_data image_upd pending_list_def)
    moreover have "to_peer x'" using p s' fs fu by (simp add: to_peer_def tu d')
    ultimately show ?thesis using c by (simp add: hs_inv_def d')
  next
    case (Some b0)
    then have s': "hr_uart x' = ?s\<lparr>hs_heap := (hs_heap ?s)(?b \<mapsto> data), hs_submitted := hs_submitted ?s @ [data]\<rparr>"
      "pending = Some ?b"
      using s sb by (simp_all add: Let_def)
    have m: "mset (refused x') = add_mset ?b (mset (refused x))" using ref(1) s'(2) by (simp add: pending_list_def)
    have "hs_heap_ok x'"
      by (rule heap_ok_add [OF h f(2) d]) (simp_all add: s' blocks_def busy_list_def Some tb m)
    moreover have "hs_ordered x'"
      using o Some s' m ref(2) rc fs
      by (auto simp: hs_ordered_def on_the_way_def mset_block_data image_upd pending_list_def fun_upd_same
          simp del: fun_upd_apply)
    moreover have "to_peer x'" using p s' fs fu by (simp add: to_peer_def tu d')
    ultimately show ?thesis using c by (simp add: hs_inv_def d')
  qed
qed

text \<open>The driver reports a buffer done: it is freed and the oldest waiting one goes out.\<close>

lemma tx_done_inv:
  assumes e: "hs_env_ok e" and i: "hs_inv x" and b: "hs_busy (hr_uart x) = Some b"
  shows "\<exists>s'. hs_uart_cb e (HS_TX_DONE (b + 4)) ((hr_uart x)\<lparr>hs_busy := None\<rparr>) = Some s'
     \<and> hs_inv (x\<lparr>hr_uart := s', hr_raced := hr_raced x \<or> refused x \<noteq> []\<rparr>)"
proof -
  let ?s = "hr_uart x"
  have h: "hs_heap_ok x" and o: "hs_ordered x" and c: "is_ble_connected (hr_duo x)" and p: "to_peer x"
    using i by (simp_all add: hs_inv_def)
  have tx: "he_tx e None = 0" using e by (simp add: hs_env_ok_def)
  obtain d0 where d0: "hs_heap ?s b = Some d0" using heap_ok_block [OF h, of b] b
    by (auto simp: blocks_def busy_list_def)
  have fresh: "b \<notin> set (hs_tx_fifo ?s)" "b \<notin> set (hs_rx_fifo ?s)" "b \<notin> set (refused x)"
    "b \<notin> set (thread_block (hr_thread x))"
    using h b by (auto simp: hs_heap_ok_def blocks_def busy_list_def)
  have "set (thread_unsent (hr_thread x)) \<subseteq> set (thread_block (hr_thread x))" by (cases "hr_thread x") auto
  then have fu: "b \<notin> set (thread_unsent (hr_thread x))" using fresh(4) by blast
  show ?thesis
  proof (cases "hs_tx_fifo ?s")
    case Nil
    let ?u = "?s\<lparr>hs_busy := None, hs_heap := (hs_heap ?s)(b := None)\<rparr>"
    let ?x = "x\<lparr>hr_uart := ?u, hr_raced := hr_raced x \<or> refused x \<noteq> []\<rparr>"
    have "hs_heap_ok ?x"
      by (rule heap_ok_drop [OF h]) (simp_all add: blocks_def busy_list_def b Nil)
    moreover have "hs_ordered ?x" using o Nil fresh
      by (auto simp: hs_ordered_def on_the_way_def)
    moreover have "to_peer ?x" using p fresh fu by (simp add: to_peer_def)
    ultimately show ?thesis using d0 Nil c by (simp add: hs_uart_cb_def hs_free_def hs_inv_def)
  next
    case (Cons b2 q)
    obtain data where data: "hs_heap ?s b2 = Some data" using heap_ok_block [OF h, of b2] Cons
      by (auto simp: blocks_def)
    let ?u = "?s\<lparr>hs_heap := (hs_heap ?s)(b := None), hs_tx_fifo := q, hs_busy := Some b2, hs_wire := hs_wire ?s @ [data]\<rparr>"
    let ?x = "x\<lparr>hr_uart := ?u, hr_raced := hr_raced x \<or> refused x \<noteq> []\<rparr>"
    have "hs_heap_ok ?x"
      by (rule heap_ok_drop [OF h]) (simp_all add: blocks_def busy_list_def b Cons)
    moreover have "hs_ordered ?x" using o Cons fresh data
      by (auto simp: hs_ordered_def on_the_way_def)
    moreover have "to_peer ?x" using p fresh fu by (simp add: to_peer_def)
    ultimately show ?thesis using d0 Cons data fresh tx c
      by (simp add: hs_uart_cb_def hs_free_def hs_uart_tx_def hs_inv_def)
  qed
qed

lemma received_inv:
  assumes e: "hs_env_ok e" and i: "hs_inv x" and d: "data \<noteq> []" "length data \<le> HS_BUF_SIZE"
    and a: "he_alloc e (hs_heap (hr_uart x)) \<noteq> 0"
  shows "\<exists>s'. hs_uart_cb e (HS_RX_RDY data) (hr_uart x) = Some s' \<and> hs_inv (x\<lparr>hr_uart := s'\<rparr>)"
proof -
  let ?s = "hr_uart x" and ?b = "he_alloc e (hs_heap (hr_uart x))"
  have h: "hs_heap_ok x" and o: "hs_ordered x" and c: "is_ble_connected (hr_duo x)" and p: "to_peer x"
    using i by (simp_all add: hs_inv_def)
  note f = fresh_block [OF e h a]
  let ?u = "?s\<lparr>hs_heap := (hs_heap ?s)(?b \<mapsto> data), hs_rx_fifo := hs_rx_fifo ?s @ [?b], hs_received := hs_received ?s @ [data]\<rparr>"
  let ?x = "x\<lparr>hr_uart := ?u\<rparr>"
  have fs: "?b \<notin> set (hs_tx_fifo ?s)" "?b \<notin> set (hs_rx_fifo ?s)" "?b \<notin> set (refused x)"
    "?b \<notin> set (thread_block (hr_thread x))" using f(2) by (auto simp: blocks_def)
  have "set (thread_unsent (hr_thread x)) \<subseteq> set (thread_block (hr_thread x))" by (cases "hr_thread x") auto
  then have fu: "?b \<notin> set (thread_unsent (hr_thread x))" using fs(4) by blast
  have "hs_heap_ok ?x"
    by (rule heap_ok_add [OF h f(2) d]) (simp_all add: blocks_def busy_list_def)
  moreover have "hs_ordered ?x" using o fs by (simp add: hs_ordered_def on_the_way_def)
  moreover have "to_peer ?x" using p fs fu by (simp add: to_peer_def append_assoc [symmetric] del: append_assoc)
  ultimately have "hs_inv ?x" using c by (simp add: hs_inv_def)
  then show ?thesis using d a by (simp add: hs_uart_cb_def Let_def)
qed

section \<open>Runs keep everything in order\<close>

definition hs_world :: "'p cbor_api \<Rightarrow> ('p \<Rightarrow> cbor_item list \<Rightarrow> bool) \<Rightarrow> ('p, duo) transport \<Rightarrow> duo_env \<Rightarrow> hs_env \<Rightarrow> bool" where
  "hs_world cb holds tr de e \<longleftrightarrow> hs_env_ok e \<and> cbor_ok cb holds \<and> delivers tr \<and> (\<forall>b. int_range (re_nus_send de b))"

lemma thread_step_inv:
  assumes w: "hs_world cb holds tr de e" and i: "hs_inv x"
  shows "\<exists>x'. hs_step cb tr de e ThreadMoves x = Some x' \<and> hs_inv x'"
proof -
  let ?s = "hr_uart x" and ?d = "hr_duo x"
  have env: "hs_env_ok e" "cbor_ok cb holds" "delivers tr" "\<And>b. int_range (re_nus_send de b)"
    using w by (simp_all add: hs_world_def)
  have h: "hs_heap_ok x" and o: "hs_ordered x" and c: "is_ble_connected ?d" and p: "to_peer x"
    using i by (simp_all add: hs_inv_def)
  note defs = hs_step_def hs_move_step_def uart_thread_step_def sends_def Let_def
  show ?thesis
  proof (cases "hr_thread x")
    case ThWait
    show ?thesis
    proof (cases "hs_rx_fifo ?s")
      case Nil
      have e: "x\<lparr>hr_thread := ThWait\<rparr> = x" using ThWait by (cases x) simp
      have "hs_inv (x\<lparr>hr_thread := ThWait\<rparr>)" unfolding e by (rule i)
      then show ?thesis using ThWait Nil by (simp add: defs)
    next
      case (Cons b q)
      let ?x = "x\<lparr>hr_thread := ThGot b, hr_uart := ?s\<lparr>hs_rx_fifo := q\<rparr>\<rparr>"
      have r: "refused (x\<lparr>hr_thread := ThGot b\<rparr>) = refused x" using ThWait by (simp add: refused_def)
      have "hs_heap_ok ?x"
        by (rule heap_ok_move [OF h]) (simp_all add: blocks_def busy_list_def r ThWait Cons)
      moreover have "hs_ordered ?x" using o by (simp add: hs_ordered_def on_the_way_def r)
      moreover have "to_peer ?x" using p ThWait Cons by (simp add: to_peer_def)
      ultimately have "hs_inv ?x" using c by (simp add: hs_inv_def)
      then show ?thesis using ThWait Cons by (simp add: defs)
    qed
  next
    case (ThGot b)
    then obtain data where data: "hs_heap ?s b = Some data" "data \<noteq> []" "length data \<le> HS_BUF_SIZE"
      using heap_ok_block [OF h, of b] by (auto simp: blocks_def)
    have len: "length data \<le> 256" "length data < 2 ^ 16" using data(3) by (simp_all add: HS_BUF_SIZE_def)
    let ?x = "x\<lparr>hr_thread := ThForwarded b, hr_duo := du_do (NusSend data) ?d\<rparr>"
    have r: "refused ?x = refused x" using ThGot by (simp add: refused_def)
    have "hs_heap_ok ?x" by (rule heap_ok_move [OF h]) (simp_all add: blocks_def r ThGot)
    moreover have "hs_ordered ?x" using o by (simp add: hs_ordered_def on_the_way_def r)
    moreover have "to_peer ?x" using p ThGot data(1) by (simp add: to_peer_def nus_sent_def du_do_def)
    ultimately have "hs_inv ?x" using c by (simp add: hs_inv_def is_ble_connected_def du_do_def)
    then show ?thesis using ThGot data(1,2) len c
      by (simp add: defs app2net_nus_outcome [OF env(2,3) len(2) env(4)])
  next
    case (ThForwarded b)
    then obtain data where data: "hs_heap ?s b = Some data" "data \<noteq> []" "length data \<le> HS_BUF_SIZE"
      using heap_ok_block [OF h, of b] by (auto simp: blocks_def)
    obtain err pending s1 where sb: "send_begin e data ?s = Some (err, pending, s1)"
      using send_begin_some [OF env(1) data(3)] by blast
    let ?pc = "case pending of None \<Rightarrow> ThSent b | Some t \<Rightarrow> ThRefused b t"
    let ?x = "x\<lparr>hr_thread := ?pc, hr_uart := s1, hr_raced := hr_raced x \<or> refused x \<noteq> []\<rparr>"
    have "hs_inv ?x"
      by (rule send_inv [OF env(1) i data(2,3), of err pending])
        (use sb ThForwarded in \<open>auto simp: refused_def pending_list_def split: option.splits\<close>)
    then show ?thesis using ThForwarded data(1) sb by (simp add: defs)
  next
    case (ThRefused b t)
    let ?x = "x\<lparr>hr_thread := ThSent b, hr_uart := ?s\<lparr>hs_tx_fifo := hs_tx_fifo ?s @ [t]\<rparr>\<rparr>"
    have r: "refused x = refused (x\<lparr>hr_thread := ThSent b\<rparr>) @ [t]" using ThRefused by (simp add: refused_def)
    have "hs_heap_ok ?x"
      by (rule heap_ok_move [OF h]) (simp_all add: blocks_def busy_list_def r ThRefused)
    moreover have "hs_ordered ?x" using o
      by (auto simp: hs_ordered_def on_the_way_def r)
    moreover have "to_peer ?x" using p ThRefused by (simp add: to_peer_def)
    ultimately have "hs_inv ?x" using c by (simp add: hs_inv_def)
    then show ?thesis using ThRefused by (simp add: defs send_end_def)
  next
    case (ThSent b)
    then obtain data where data: "hs_heap ?s b = Some data"
      using heap_ok_block [OF h, of b] by (auto simp: blocks_def)
    have fresh: "b \<notin> set (hs_tx_fifo ?s)" "b \<notin> set (hs_rx_fifo ?s)" "b \<notin> set (refused x)"
      using h ThSent by (auto simp: hs_heap_ok_def blocks_def)
    let ?x = "x\<lparr>hr_thread := ThWait, hr_uart := ?s\<lparr>hs_heap := (hs_heap ?s)(b := None)\<rparr>\<rparr>"
    have r: "refused (x\<lparr>hr_thread := ThWait\<rparr>) = refused x" using ThSent by (simp add: refused_def)
    have "hs_heap_ok ?x"
      by (rule heap_ok_drop [OF h]) (simp_all add: blocks_def busy_list_def r ThSent)
    moreover have "hs_ordered ?x" using o fresh by (simp add: hs_ordered_def on_the_way_def r)
    moreover have "to_peer ?x" using p ThSent fresh by (simp add: to_peer_def)
    ultimately have "hs_inv ?x" using c by (simp add: hs_inv_def)
    then show ?thesis using ThSent data by (simp add: defs hs_free_def)
  qed
qed

lemma hs_step_inv:
  assumes w: "hs_world cb holds tr de e" and i: "hs_inv x" and ok: "hs_step_ok e ev x"
  shows "\<exists>x'. hs_step cb tr de e ev x = Some x' \<and> hs_inv x'"
proof -
  let ?s = "hr_uart x"
  have env: "hs_env_ok e" using w by (simp add: hs_world_def)
  show ?thesis
  proof (cases ev)
    case TxDone
    show ?thesis
    proof (cases "hs_busy ?s")
      case None
      let ?x = "x\<lparr>hr_raced := hr_raced x \<or> refused x \<noteq> []\<rparr>"
      have "hs_inv ?x" using i by (auto simp: hs_inv_def hs_heap_ok_def hs_ordered_def on_the_way_def to_peer_def blocks_def)
      then show ?thesis using TxDone None by (simp add: hs_step_def hs_move_step_def sends_def)
    next
      case (Some b)
      with tx_done_inv [OF env i Some] TxDone show ?thesis
        by (fastforce simp: hs_step_def hs_move_step_def sends_def)
    qed
  next
    case (Received data)
    then obtain s' where "hs_uart_cb e (HS_RX_RDY data) ?s = Some s'" "hs_inv (x\<lparr>hr_uart := s'\<rparr>)"
      using received_inv [OF env i] ok by (auto simp: hs_step_ok_def)
    then show ?thesis using Received by (simp add: hs_step_def hs_move_step_def sends_def)
  next
    case ThreadMoves
    then show ?thesis using thread_step_inv [OF w i] by simp
  next
    case (FromPeer data)
    then have d: "data \<noteq> []" "length data \<le> HS_BUF_SIZE" "hr_peer x = None" using ok by (simp_all add: hs_step_ok_def)
    obtain err pending s1 where sb: "send_begin e data ?s = Some (err, pending, s1)"
      using send_begin_some [OF env d(2)] by blast
    let ?x = "x\<lparr>hr_uart := s1, hr_peer := pending, hr_raced := hr_raced x \<or> refused x \<noteq> []\<rparr>"
    have "hs_inv ?x"
      by (rule send_inv [OF env i d(1,2), of err pending])
        (use sb d(3) in \<open>auto simp: refused_def pending_list_def split: option.splits\<close>)
    then show ?thesis using FromPeer sb by (simp add: hs_step_def hs_move_step_def sends_def)
  next
    case PeerPuts
    have h: "hs_heap_ok x" and o: "hs_ordered x" and p: "to_peer x" using i by (simp_all add: hs_inv_def)
    let ?x = "x\<lparr>hr_uart := send_end (hr_peer x) ?s, hr_peer := None\<rparr>"
    have "hs_inv ?x"
    proof (cases "hr_peer x")
      case None
      then show ?thesis using i
        by (auto simp: send_end_def hs_inv_def hs_heap_ok_def hs_ordered_def on_the_way_def to_peer_def blocks_def refused_def)
    next
      case (Some t)
      have r: "refused x = t # refused ?x" using Some by (simp add: refused_def)
      have "hs_heap_ok ?x"
        by (rule heap_ok_move [OF h]) (simp_all add: blocks_def busy_list_def r send_end_def Some)
      moreover have "hs_ordered ?x" using o by (auto simp: hs_ordered_def on_the_way_def r send_end_def Some)
      moreover have "to_peer ?x" using p by (simp add: to_peer_def send_end_def Some)
      ultimately show ?thesis using i by (simp add: hs_inv_def)
    qed
    then show ?thesis using PeerPuts by (simp add: hs_step_def hs_move_step_def sends_def)
  qed
qed

interpretation hs: machine "hs_step cb tr de e" "hs_step_ok e" "\<lambda>x. hs_world cb holds tr de e \<and> hs_inv x"
  for cb holds tr de e
  by unfold_locales (use hs_step_inv in blast)

definition hs_idle :: hs_uart where
  "hs_idle = \<lparr>hs_heap = Map.empty, hs_tx_fifo = [], hs_rx_fifo = [], hs_next_buf = 0, hs_busy = None,
     hs_wire = [], hs_submitted = [], hs_received = [], hs_calls = []\<rparr>"

definition hs_start :: "duo \<Rightarrow> hs_run" where
  "hs_start d = \<lparr>hr_uart = hs_idle, hr_duo = d, hr_thread = ThWait, hr_peer = None, hr_raced = False\<rparr>"

lemma hs_start_inv: "is_ble_connected d \<Longrightarrow> nus_sent d = [] \<Longrightarrow> hs_inv (hs_start d)"
  by (simp add: hs_inv_def hs_start_def hs_idle_def hs_heap_ok_def hs_ordered_def on_the_way_def to_peer_def
      blocks_def busy_list_def refused_def)

text \<open>
  C11: for every run of the UART thread, the callback of the remote call and the driver's interrupt, which can
  fall between any two of their steps, while the peer stays connected, the remote calls are delivered, packets
  have 1 to 255 bytes and there is memory for every packet received: no block is used that is not allocated,
  nothing waits for ever, and the blocks allocated are exactly those with the driver, in the FIFOs or
  in the hands of the two senders. Packets go to the peer in the order received. Every packet for which
  \<open>my_uart_send\<close> found memory is exactly once on the wire, in the FIFO or about to be put there; and it goes to
  the wire in the order of the calls, none left behind by an idle driver, unless a transmission ended
  or another packet was sent while a refused packet was not yet in the FIFO.
\<close>

theorem uart_loopback:
  assumes "hs_world cb holds tr de e" and "is_ble_connected d" and "nus_sent d = []"
    and "run_ok (hs_step cb tr de e) (hs_step_ok e) evs (hs_start d)"
  shows "\<exists>x. run (hs_step cb tr de e) evs (hs_start d) = Some x
     \<and> dom (hs_heap (hr_uart x)) = set (busy_list (hr_uart x)) \<union> set (hs_tx_fifo (hr_uart x)) \<union> set (hs_rx_fifo (hr_uart x))
          \<union> set (thread_block (hr_thread x)) \<union> set (refused x)
     \<and> nus_sent (hr_duo x) @ block_data (hs_heap (hr_uart x)) (thread_unsent (hr_thread x) @ hs_rx_fifo (hr_uart x))
          = hs_received (hr_uart x)
     \<and> mset (on_the_way x) = mset (hs_submitted (hr_uart x))
     \<and> (\<not> hr_raced x \<longrightarrow> on_the_way x = hs_submitted (hr_uart x)
          \<and> (hs_busy (hr_uart x) = None \<longrightarrow> hs_wire (hr_uart x) = hs_submitted (hr_uart x)))"
proof -
  obtain x where r: "run (hs_step cb tr de e) evs (hs_start d) = Some x" and i: "hs_inv x"
    using hs.run_inv [OF _ assms(4), of holds] assms(1) hs_start_inv [OF assms(2,3)] by auto
  have h: "hs_heap_ok x" and o: "hs_ordered x" and p: "to_peer x" using i by (simp_all add: hs_inv_def)
  have "dom (hs_heap (hr_uart x)) = set (busy_list (hr_uart x)) \<union> set (hs_tx_fifo (hr_uart x)) \<union> set (hs_rx_fifo (hr_uart x))
          \<union> set (thread_block (hr_thread x)) \<union> set (refused x)"
    using h by (auto simp: hs_heap_ok_def blocks_def)
  moreover have "hs_wire (hr_uart x) = hs_submitted (hr_uart x)" if "\<not> hr_raced x" "hs_busy (hr_uart x) = None"
    using o that by (auto simp: hs_ordered_def on_the_way_def)
  ultimately show ?thesis using r o p by (intro exI [of _ x]) (simp add: hs_ordered_def to_peer_def)
qed

text \<open>
  when the driver finishes between a refused \<open>uart_tx\<close> and the \<open>k_fifo_put\<close> of \<open>my_uart_send\<close>, the
  refused packet is stuck in the FIFO and the next one overtakes it on the wire.
\<close>

theorem uart_send_reorders:
  assumes "hs_env_ok e" and "hs_busy s = Some b" and "hs_tx_fifo s = []" and "hs_heap s b = Some x"
    and "length p1 \<le> HS_BUF_SIZE" and "length p2 \<le> HS_BUF_SIZE" 
    and "he_alloc e (hs_heap s) \<noteq> 0"
    and "he_alloc e ((hs_heap s)(he_alloc e (hs_heap s) \<mapsto> p1, b := None)) \<noteq> 0"
  shows "\<exists>err pending s1 s2 s3. send_begin e p1 s = Some (err, pending, s1)
     \<and> hs_uart_cb e (HS_TX_DONE (b + 4)) (s1\<lparr>hs_busy := None\<rparr>) = Some s2
     \<and> my_uart_send e p2 (send_end pending s2) = Some (0, s3)
     \<and> hs_submitted s3 = hs_submitted s @ [p1, p2] \<and> hs_wire s3 = hs_wire s @ [p2]
     \<and> block_data (hs_heap s3) (hs_tx_fifo s3) = [p1]"
proof -
  have tx: "he_tx e b = 0 \<longleftrightarrow> b = None" for b using assms(1) by (simp add: hs_env_ok_def)
  have fr: "he_alloc e h = 0 \<or> h (he_alloc e h) = None" for h using assms(1) by (simp add: hs_env_ok_def)
  have fresh: "he_alloc e h \<noteq> 0 \<Longrightarrow> h (he_alloc e h) = None" for h using fr [of h] by simp
  let ?b1 = "he_alloc e (hs_heap s)"
  let ?s1 = "s\<lparr>hs_heap := (hs_heap s)(?b1 \<mapsto> p1), hs_submitted := hs_submitted s @ [p1]\<rparr>"
  let ?h = "((hs_heap s)(?b1 \<mapsto> p1))(b := None)"
  let ?s2 = "?s1\<lparr>hs_busy := None, hs_heap := ?h\<rparr>"
  let ?b2 = "he_alloc e ?h"
  let ?s3 = "?s2\<lparr>hs_heap := ?h(?b2 \<mapsto> p2), hs_submitted := hs_submitted s @ [p1, p2],
              hs_busy := Some ?b2, hs_wire := hs_wire s @ [p2], hs_tx_fifo := [?b1]\<rparr>"
  have nb: "b \<noteq> ?b1" using fresh [OF assms(7)] assms(4) by auto
  then have nb2: "?b2 \<noteq> ?b1" using fresh [OF assms(8)] by fastforce
  have "send_begin e p1 s = Some (he_tx e (Some b), Some ?b1, ?s1)"
    using assms(2,5,7) tx [of "Some b"] by (simp add: send_begin_def hs_uart_tx_def Let_def)
  moreover have "hs_uart_cb e (HS_TX_DONE (b + 4)) (?s1\<lparr>hs_busy := None\<rparr>) = Some ?s2"
    using assms(3,4) nb by (simp add: hs_uart_cb_def hs_free_def)
  moreover have "my_uart_send e p2 (send_end (Some ?b1) ?s2) = Some (0, ?s3)"
    using assms(3,6,8) tx [of None]
    by (simp add: my_uart_send_def send_begin_def send_end_def hs_uart_tx_def Let_def)
  moreover have "block_data (hs_heap ?s3) (hs_tx_fifo ?s3) = [p1]" using nb nb2 by simp
  ultimately show ?thesis by (intro exI conjI) (assumption | simp)+
qed

section \<open>Instances\<close>

text \<open>An allocator that gives the first free of a few blocks, and a driver that takes one buffer.\<close>

definition demo_hs_env :: hs_env where
  "demo_hs_env = \<lparr>he_alloc = (\<lambda>h. if h 16 = None then 16 else if h 32 = None then 32 else if h 48 = None then 48 else 0),
     he_tx = (\<lambda>b. case b of None \<Rightarrow> 0 | Some _ \<Rightarrow> - 16)\<rparr>"

lemma demo_hs_env_ok: "hs_env_ok demo_hs_env"
  by (auto simp: hs_env_ok_def demo_hs_env_def split: option.splits)

lemma demo_hs_world: "hs_world demo_cbor (\<lambda>p is. snd p = is) demo_transport demo_duo_env demo_hs_env"
  using demo_cbor_ok demo_delivers demo_hs_env_ok by (simp add: hs_world_def demo_duo_env_def int_range_def)

definition demo_busy :: hs_uart where
  "demo_busy = hs_idle\<lparr>hs_heap := [16 \<mapsto> [7]], hs_busy := Some 16, hs_wire := [[7]], hs_submitted := [[7]]\<rparr>"

definition hs_demo_moves :: "hs_move list" where
  "hs_demo_moves = [Received [1, 2]] @ replicate 4 ThreadMoves @ [FromPeer [9], PeerPuts, Received [3], TxDone]
     @ replicate 5 ThreadMoves @ [TxDone, TxDone]"

theorem uart_loopback_witness:
  "\<exists>x. run (hs_step demo_cbor demo_transport demo_duo_env demo_hs_env) hs_demo_moves
         (hs_start (demo_duo\<lparr>m_connected := True\<rparr>)) = Some x
     \<and> mset (on_the_way x) = mset (hs_submitted (hr_uart x))
     \<and> (\<not> hr_raced x \<longrightarrow> on_the_way x = hs_submitted (hr_uart x))"
proof -
  have "run_ok (hs_step demo_cbor demo_transport demo_duo_env demo_hs_env) (hs_step_ok demo_hs_env)
     hs_demo_moves (hs_start (demo_duo\<lparr>m_connected := True\<rparr>))"
    by code_simp
  from uart_loopback [OF demo_hs_world _ _ this] show ?thesis
    by (auto simp: is_ble_connected_def nus_sent_def demo_duo_def)
qed

text \<open>In this run no packet is overtaken.\<close>

lemma hs_demo_in_order:
  "map_option (\<lambda>x. (hr_raced x, hs_wire (hr_uart x), nus_sent (hr_duo x)))
     (run (hs_step demo_cbor demo_transport demo_duo_env demo_hs_env) hs_demo_moves
        (hs_start (demo_duo\<lparr>m_connected := True\<rparr>))) = Some (False, [[1, 2], [9], [3]], [[1, 2], [3]])"
  by code_simp

theorem uart_send_reorders_witness:
  "\<exists>err pending s1 s2 s3. send_begin demo_hs_env [1] demo_busy = Some (err, pending, s1)
     \<and> hs_uart_cb demo_hs_env (HS_TX_DONE 20) (s1\<lparr>hs_busy := None\<rparr>) = Some s2
     \<and> my_uart_send demo_hs_env [2] (send_end pending s2) = Some (0, s3)
     \<and> hs_submitted s3 = [[7], [1], [2]] \<and> hs_wire s3 = [[7], [2]]
     \<and> block_data (hs_heap s3) (hs_tx_fifo s3) = [[1]]"
  using uart_send_reorders [OF demo_hs_env_ok, of demo_busy 16 "[7]" "[1]" "[2]"]
  by (simp add: demo_busy_def hs_idle_def demo_hs_env_def HS_BUF_SIZE_def)
end
