(* ===== verification/MqttClient.thy ===== *)
theory MqttClient
  imports Prelude Machine
begin

unbundle bit_operations_syntax

text \<open>
  The two MQTT clients: \<open>app/nrf91/mqtt_secure_ca/src/main.c\<close>, which acknowledges, echoes and reconnects,
  and the older \<open>app/nrf91/mqtt_non_secure/src/main.c\<close>, which reads the payload piece by piece and
  connects once.

  The MQTT library and the sockets are results in the events and in an environment; what is asked of
  them is the trace \<open>mq_calls\<close>. The buttons report from a thread of their own, so their reports
  are inputs that can come between any two calls of the library: among the events, between the
  acknowledgement and the echo of a message, while the client waits and after it has connected.
  \<open>mq_ready\<close> is whether the client structure has its broker, handler and buffers. \<open>mq_seen\<close> and
  \<open>mq_pressed\<close> are history: the events and the reports so far. A loop that does not end is \<open>None\<close>.
\<close>

section \<open>State, events and environment\<close>

definition EMSGSIZE :: int where "EMSGSIZE = 122"
definition ECHILD :: int where "ECHILD = 10"

text \<open>What a read of the payload gives: an error, or bytes.\<close>

datatype read_result = ReadErr int | ReadData "u8 list"

text \<open>A report of the button library: the states of the buttons and which have changed.\<close>

type_synonym press = "u32 \<times> u32"

text \<open>A message; \<open>pb_mid\<close> are the reports that come between its acknowledgement and its echo.\<close>

record mq_publish =
  pb_qos :: nat
  pb_id :: u16
  pb_len :: nat
  pb_readall :: read_result
  pb_read :: "nat \<Rightarrow> nat \<Rightarrow> read_result"
  pb_poll :: "nat \<Rightarrow> int \<times> bool"
  pb_mid :: "press list"

datatype mqtt_evt =
    MQTT_EVT_CONNACK int | MQTT_EVT_DISCONNECT int | MQTT_EVT_PUBLISH mq_publish
  | MQTT_EVT_PUBACK int | MQTT_EVT_SUBACK int | MQTT_EVT_PINGRESP int | MQTT_EVT_OTHER

datatype mqtt_input = Broker mqtt_evt | Press press

text \<open>Which code publishes: the handler of the client's events or the button handler.\<close>

datatype origin = FromHandler | FromButton

datatype mqtt_call =
    CaCertWrite | LteInitAndConnect | CarrierTake | PsmOff | EdrxOff | LteRetrySleep | MqButtonsInit
  | MqReconnectSleep | MqConnect | MqSubscribe string | MqPublish origin string u16 "u8 list" | MqPubAck u16 | MqDisconnect

record mqtt =
  mq_buf :: "u8 list"
  mq_broker :: "u32 option"
  mq_ready :: bool
  mq_pubs :: nat
  mq_attempt :: u32
  mq_seen :: "mqtt_evt list"
  mq_pressed :: "press list"
  mq_calls :: "mqtt_call list"

text \<open>The configuration, the random numbers, the provisioning's and the modem's results, and the addresses found for the host.\<close>

record mqtt_env =
  me_tls :: bool
  me_key_mgmt :: bool
  me_auto_init :: bool
  me_carrier :: bool
  me_payload_size :: nat
  me_button :: nat
  me_button_msg :: "u8 list"
  me_pub_topic :: string
  me_sub_topic :: string
  me_rand :: "nat \<Rightarrow> u32"
  me_cert :: int
  me_lte :: "nat \<Rightarrow> int"
  me_getaddrinfo :: int
  me_addrs :: "(nat \<times> u32) list"

definition mq_do :: "mqtt_call \<Rightarrow> mqtt \<Rightarrow> mqtt" where
  "mq_do c s = s\<lparr>mq_calls := mq_calls s @ [c]\<rparr>"

section \<open>Publishing and the event handler\<close>

definition certificates_provision :: "mqtt_env \<Rightarrow> mqtt \<Rightarrow> int \<times> mqtt" where
  "certificates_provision e s = (if me_key_mgmt e then (me_cert e, mq_do CaCertWrite s) else (0, s))"

text \<open>The message id is a random number cut to 16 bits.\<close>

definition data_publish :: "mqtt_env \<Rightarrow> origin \<Rightarrow> u8 list \<Rightarrow> mqtt \<Rightarrow> mqtt" where
  "data_publish e w data s =
     mq_do (MqPublish w (me_pub_topic e) (ucast (me_rand e (mq_pubs s))) data) (s\<lparr>mq_pubs := Suc (mq_pubs s)\<rparr>)"

definition mqtt_button_handler :: "mqtt_env \<Rightarrow> press \<Rightarrow> mqtt \<Rightarrow> mqtt" where
  "mqtt_button_handler e p s =
     (let s0 = s\<lparr>mq_pressed := mq_pressed s @ [p]\<rparr> in
      case p of (button_states, has_changed) \<Rightarrow>
        if has_changed AND button_states AND push_bit (me_button e - 1) 1 \<noteq> 0
        then data_publish e FromButton (me_button_msg e) s0 else s0)"

definition mq_presses :: "mqtt_env \<Rightarrow> press list \<Rightarrow> mqtt \<Rightarrow> mqtt" where
  "mq_presses e ps s = fold (mqtt_button_handler e) ps s"

definition subscribe :: "mqtt_env \<Rightarrow> mqtt \<Rightarrow> mqtt" where
  "subscribe e s = mq_do (MqSubscribe (me_sub_topic e)) s"

text \<open>Data at the start of the payload buffer. (After an error the buffer is not used.)\<close>

definition fill_payload :: "u8 list \<Rightarrow> mqtt \<Rightarrow> mqtt" where
  "fill_payload d s = s\<lparr>mq_buf := d @ drop (length d) (mq_buf s)\<rparr>"

definition publish_get_payload :: "mqtt_env \<Rightarrow> mq_publish \<Rightarrow> mqtt \<Rightarrow> int \<times> mqtt" where
  "publish_get_payload e p s =
     (if me_payload_size e < pb_len p then (- EMSGSIZE, s)
      else case pb_readall p of ReadErr err \<Rightarrow> (err, s) | ReadData d \<Rightarrow> (0, fill_payload d s))"

text \<open>
  The handler of both clients: \<open>get\<close> is the client's \<open>publish_get_payload\<close>, and only the newer one
  acknowledges a message (\<open>acks\<close>), before it looks at the result of reading it. \<open>presses\<close> is what
  the reports of the buttons do.
\<close>

definition mqtt_evt_handler ::
  "mqtt_env \<Rightarrow> bool \<Rightarrow> (press list \<Rightarrow> mqtt \<Rightarrow> mqtt) \<Rightarrow> (mq_publish \<Rightarrow> mqtt \<Rightarrow> (int \<times> mqtt) option) \<Rightarrow>
   mqtt_evt \<Rightarrow> mqtt \<Rightarrow> mqtt option" where
  "mqtt_evt_handler e acks presses get evt s =
     (let s0 = s\<lparr>mq_seen := mq_seen s @ [evt]\<rparr> in
      case evt of
        MQTT_EVT_CONNACK r \<Rightarrow> Some (if r \<noteq> 0 then s0 else subscribe e s0)
      | MQTT_EVT_PUBLISH p \<Rightarrow>
          Option.bind (get p s0) (\<lambda>(err, s1).
            let s2 = (if acks \<and> pb_qos p = 1 then mq_do (MqPubAck (pb_id p)) s1 else s1);
                s3 = presses (pb_mid p) s2 in
            Some (if 0 \<le> err then data_publish e FromHandler (take (pb_len p) (mq_buf s3)) s3 else mq_do MqDisconnect s3))
      | _ \<Rightarrow> Some s0)"

definition mqtt_input_handler ::
  "(mqtt_evt \<Rightarrow> mqtt \<Rightarrow> mqtt option) \<Rightarrow> (press list \<Rightarrow> mqtt \<Rightarrow> mqtt) \<Rightarrow> mqtt_input \<Rightarrow> mqtt \<Rightarrow> mqtt option" where
  "mqtt_input_handler h presses i s = (case i of Broker evt \<Rightarrow> h evt s | Press p \<Rightarrow> Some (presses [p] s))"

abbreviation secure_handler :: "mqtt_env \<Rightarrow> mqtt_evt \<Rightarrow> mqtt \<Rightarrow> mqtt option" where
  "secure_handler e \<equiv> mqtt_evt_handler e True (mq_presses e) (\<lambda>p s. Some (publish_get_payload e p s))"

abbreviation secure_input :: "mqtt_env \<Rightarrow> mqtt_input \<Rightarrow> mqtt \<Rightarrow> mqtt option" where
  "secure_input e \<equiv> mqtt_input_handler (secure_handler e) (mq_presses e)"

section \<open>Reading piece by piece\<close>

text \<open>The older client's loop; \<open>i\<close> counts the reads, \<open>left\<close> is \<open>end - buf\<close>.\<close>

partial_function (option) read_payload :: "mq_publish \<Rightarrow> nat \<Rightarrow> nat \<Rightarrow> u8 list \<Rightarrow> (int \<times> u8 list) option" where
  "read_payload p i left acc =
     (if left = 0 then Some (0, acc)
      else case pb_read p i left of
        ReadErr ret \<Rightarrow>
          if ret \<noteq> - EAGAIN then Some (ret, acc)
          else if 0 < fst (pb_poll p i) \<and> snd (pb_poll p i) then read_payload p (i + 1) left acc
          else Some (- EIO, acc)
      | ReadData d \<Rightarrow>
          if d = [] then Some (- EIO, acc) else read_payload p (i + 1) (left - length d) (acc @ d))"

definition simple_get_payload :: "mqtt_env \<Rightarrow> mq_publish \<Rightarrow> mqtt \<Rightarrow> (int \<times> mqtt) option" where
  "simple_get_payload e p s =
     (if me_payload_size e < pb_len p then Some (- EMSGSIZE, s)
      else map_option (\<lambda>(err, d). (err, fill_payload d s)) (read_payload p 0 (pb_len p) []))"

text \<open>The older client has no button handler.\<close>

definition simple_handler :: "mqtt_env \<Rightarrow> mqtt_input \<Rightarrow> mqtt \<Rightarrow> mqtt option" where
  "simple_handler e = mqtt_input_handler (mqtt_evt_handler e False (\<lambda>_ s. s) (simple_get_payload e)) (\<lambda>_ s. s)"

section \<open>Set-up\<close>

text \<open>
  \<open>broker_init\<close> takes the first address of the length of an IPv4 address (16). That there is none leaves
  \<open>err\<close> at 0.
\<close>

fun first_ipv4 :: "(nat \<times> u32) list \<Rightarrow> u32 option" where
  "first_ipv4 [] = None"
| "first_ipv4 ((len, a) # as) = (if len = 16 then Some a else first_ipv4 as)"

definition broker_init :: "mqtt_env \<Rightarrow> mqtt \<Rightarrow> int \<times> mqtt" where
  "broker_init e s =
     (if me_getaddrinfo e \<noteq> 0 then (- ECHILD, s)
      else (me_getaddrinfo e, case first_ipv4 (me_addrs e) of None \<Rightarrow> s | Some a \<Rightarrow> s\<lparr>mq_broker := Some a\<rparr>))"

definition client_init :: "mqtt_env \<Rightarrow> mqtt \<Rightarrow> int \<times> mqtt" where
  "client_init e s = (let (err, s1) = broker_init e s in if err \<noteq> 0 then (err, s1) else (err, s1\<lparr>mq_ready := True\<rparr>))"

text \<open>The transport is secure exactly when TLS is configured.\<close>

definition fds_init :: "mqtt_env \<Rightarrow> bool \<Rightarrow> int" where
  "fds_init e secure = (if \<not> secure then 0 else if me_tls e then 0 else - ENOTSUP)"

text \<open>The handler of the carrier library gives the semaphore the set-up waits for.\<close>

datatype carrier_event = LWM2M_CARRIER_EVENT_REGISTERED | CarrierOtherEvent

definition lwm2m_carrier_event_handler :: "carrier_event \<Rightarrow> bool \<Rightarrow> int \<times> bool" where
  "lwm2m_carrier_event_handler ev sem = (0, case ev of LWM2M_CARRIER_EVENT_REGISTERED \<Rightarrow> True | CarrierOtherEvent \<Rightarrow> sem)"

definition mqtt_modem_configure :: "mqtt_env \<Rightarrow> nat \<Rightarrow> mqtt \<Rightarrow> int \<times> mqtt" where
  "mqtt_modem_configure e i s =
     (let (err, s1) =
        (if me_auto_init e then (0, s)
         else if me_carrier e then (0, mq_do CarrierTake s)
         else (me_lte e i, mq_do LteInitAndConnect s))
      in if err \<noteq> 0 then (err, s1) else (0, mq_do EdrxOff (mq_do PsmOff s1)))"

partial_function (option) configure_retry :: "mqtt_env \<Rightarrow> nat \<Rightarrow> mqtt \<Rightarrow> mqtt option" where
  "configure_retry e i s =
     (case mqtt_modem_configure e i s of (err, s1) \<Rightarrow>
        if err \<noteq> 0 then configure_retry e (i + 1) (mq_do LteRetrySleep s1) else Some s1)"

section \<open>The program\<close>

text \<open>
  One turn of the loop over the socket: what \<open>poll\<close>, \<open>mqtt_live\<close> and \<open>mqtt_input\<close> return, the events
  the two deliver, and the flags of \<open>revents\<close>. The first part of the result is whether the loop
  goes on.
\<close>

record poll_round =
  po_poll :: int
  po_live :: int
  po_live_evts :: "mqtt_input list"
  po_in :: bool
  po_input :: int
  po_input_evts :: "mqtt_input list"
  po_err :: bool
  po_nval :: bool

definition mqtt_round :: "(mqtt_input \<Rightarrow> mqtt \<Rightarrow> mqtt option) \<Rightarrow> poll_round \<Rightarrow> mqtt \<Rightarrow> (bool \<times> mqtt) option" where
  "mqtt_round h r s =
     (if po_poll r < 0 then Some (False, s)
      else Option.bind (run h (po_live_evts r) s) (\<lambda>s1.
        if po_live r \<noteq> 0 \<and> po_live r \<noteq> - EAGAIN then Some (False, s1)
        else Option.bind (if po_in r then map_option (Pair (po_input r)) (run h (po_input_evts r) s1) else Some (0, s1))
          (\<lambda>(err, s2). Some (\<not> (po_in r \<and> err \<noteq> 0) \<and> \<not> po_err r \<and> \<not> po_nval r, s2))))"

primrec mqtt_loop :: "(mqtt_input \<Rightarrow> mqtt \<Rightarrow> mqtt option) \<Rightarrow> poll_round list \<Rightarrow> mqtt \<Rightarrow> (bool \<times> mqtt) option" where
  "mqtt_loop h [] s = Some (True, s)"
| "mqtt_loop h (r # rs) s =
     Option.bind (mqtt_round h r s) (\<lambda>(go, s1). if go then mqtt_loop h rs s1 else Some (False, s1))"

text \<open>
  From \<open>do_connect\<close> to the jump back to it; a session whose rounds are used up is still running. The
  first part of the result is whether the program jumps back. A session is what \<open>mqtt_connect\<close>
  returns and the turns of the loop, with the reports of the buttons that come before and after it.
\<close>

record mqtt_conn =
  mc_idle :: "press list"
  mc_result :: int
  mc_after :: "press list"
  mc_rounds :: "poll_round list"

definition mqtt_session :: "mqtt_env \<Rightarrow> mqtt_conn \<Rightarrow> mqtt \<Rightarrow> (bool \<times> mqtt) option" where
  "mqtt_session e x s =
     (let s1 = (if 0 < mq_attempt s then mq_do MqReconnectSleep s else s)\<lparr>mq_attempt := mq_attempt s + 1\<rparr>;
          s2 = mq_presses e (mc_after x) (mq_do MqConnect (mq_presses e (mc_idle x) s1))
      in if mc_result x \<noteq> 0 then Some (True, s2)
         else if fds_init e (me_tls e) \<noteq> 0 then Some (False, s2)
         else map_option (\<lambda>(running, s3). if running then (False, s3) else (True, mq_do MqDisconnect s3))
                (mqtt_loop (secure_input e) (mc_rounds x) s2))"

primrec mqtt_sessions :: "mqtt_env \<Rightarrow> mqtt_conn list \<Rightarrow> mqtt \<Rightarrow> mqtt option" where
  "mqtt_sessions e [] s = Some s"
| "mqtt_sessions e (x # xs) s =
     Option.bind (mqtt_session e x s) (\<lambda>(again, s1). if again then mqtt_sessions e xs s1 else Some s1)"

definition mqtt_main :: "mqtt_env \<Rightarrow> mqtt_conn list \<Rightarrow> mqtt \<Rightarrow> mqtt option" where
  "mqtt_main e xs s =
     (let (err, s1) = (if me_tls e then certificates_provision e s else (0, s)) in
      if err \<noteq> 0 then Some s1
      else Option.bind (configure_retry e 0 s1) (\<lambda>s2.
        let (err, s3) = client_init e s2 in
        if err \<noteq> 0 then Some s3
        else mqtt_sessions e xs (mq_do MqButtonsInit (s3\<lparr>mq_attempt := 0\<rparr>))))"

text \<open>The older client: one connection, no retry of anything, no power saving requests.\<close>

definition simple_main :: "mqtt_env \<Rightarrow> int \<times> poll_round list \<Rightarrow> mqtt \<Rightarrow> mqtt option" where
  "simple_main e x s =
     (let (err, s1) = (if me_tls e then certificates_provision e s else (0, s)) in
      if err \<noteq> 0 then Some s1
      else
        (let s2 = (if me_auto_init e then s1 else if me_carrier e then mq_do CarrierTake s1 else mq_do LteInitAndConnect s1);
             (err, s3) = client_init e s2
         in if err \<noteq> 0 then Some s3
            else
              (let s4 = mq_do MqConnect s3 in
               if fst x \<noteq> 0 \<or> fds_init e (me_tls e) \<noteq> 0 then Some s4
               else map_option (\<lambda>(running, s5). if running then s5 else mq_do MqDisconnect s5)
                      (mqtt_loop (simple_handler e) (snd x) s4))))"

section \<open>Every message is answered\<close>

text \<open>
  What the handler answers to the broker, and what it should answer to an event; and what the
  button publishes.
\<close>

datatype reply = SubscribeReply | AckReply u16 | EchoReply "u8 list"

fun reply_of :: "mqtt_call \<Rightarrow> reply list" where
  "reply_of (MqSubscribe t) = [SubscribeReply]"
| "reply_of (MqPubAck i) = [AckReply i]"
| "reply_of (MqPublish FromHandler t i d) = [EchoReply d]"
| "reply_of _ = []"

definition replies :: "mqtt \<Rightarrow> reply list" where
  "replies s = concat (map reply_of (mq_calls s))"

definition button_publishes :: "mqtt \<Rightarrow> u8 list list" where
  "button_publishes s = concat (map (\<lambda>c. case c of MqPublish FromButton t i d \<Rightarrow> [d] | _ \<Rightarrow> []) (mq_calls s))"

definition button_pressed :: "mqtt_env \<Rightarrow> press \<Rightarrow> bool" where
  "button_pressed e p \<longleftrightarrow> snd p AND fst p AND push_bit (me_button e - 1) 1 \<noteq> 0"

fun answers :: "mqtt_env \<Rightarrow> mqtt_evt \<Rightarrow> reply list" where
  "answers e (MQTT_EVT_CONNACK r) = (if r = 0 then [SubscribeReply] else [])"
| "answers e (MQTT_EVT_PUBLISH p) =
     (if pb_qos p = 1 then [AckReply (pb_id p)] else [])
     @ (case pb_readall p of ReadErr err \<Rightarrow> [] | ReadData d \<Rightarrow> if pb_len p \<le> me_payload_size e then [EchoReply d] else [])"
| "answers e _ = []"

text \<open>\<open>mqtt_readall_publish_payload\<close> gives all the bytes asked for, or a negative error.\<close>

fun event_ok :: "mqtt_evt \<Rightarrow> bool" where
  "event_ok (MQTT_EVT_PUBLISH p) = (case pb_readall p of ReadErr err \<Rightarrow> err < 0 | ReadData d \<Rightarrow> length d = pb_len p)"
| "event_ok _ = True"

fun input_ok :: "mqtt_input \<Rightarrow> bool" where
  "input_ok (Broker evt) = event_ok evt"
| "input_ok (Press p) = True"

text \<open>The connections and the waits before them, which the handler leaves alone.\<close>

definition conn_calls :: "mqtt \<Rightarrow> mqtt_call list" where
  "conn_calls s = filter (\<lambda>c. c = MqConnect \<or> c = MqReconnectSleep) (mq_calls s)"

definition mq_inv :: "mqtt_env \<Rightarrow> mqtt_call list \<Rightarrow> u32 \<Rightarrow> mqtt \<Rightarrow> bool" where
  "mq_inv e cs a s \<longleftrightarrow> replies s = concat (map (answers e) (mq_seen s))
     \<and> button_publishes s = map (\<lambda>_. me_button_msg e) (filter (button_pressed e) (mq_pressed s))
     \<and> conn_calls s = cs \<and> mq_attempt s = a"

lemma replies_simps [simp]:
  "replies (mq_do c s) = replies s @ reply_of c" "replies (s\<lparr>mq_buf := b\<rparr>) = replies s"
  "replies (s\<lparr>mq_pubs := n\<rparr>) = replies s" "replies (s\<lparr>mq_seen := es\<rparr>) = replies s"
  "replies (s\<lparr>mq_attempt := n'\<rparr>) = replies s" "replies (s\<lparr>mq_broker := b'\<rparr>) = replies s"
  "replies (s\<lparr>mq_ready := r\<rparr>) = replies s" "replies (s\<lparr>mq_pressed := ps\<rparr>) = replies s"
  by (simp_all add: replies_def mq_do_def)

lemma button_publishes_simps [simp]:
  "button_publishes (mq_do c s) = button_publishes s @ (case c of MqPublish FromButton t i d \<Rightarrow> [d] | _ \<Rightarrow> [])"
  "button_publishes (s\<lparr>mq_buf := b\<rparr>) = button_publishes s" "button_publishes (s\<lparr>mq_pubs := n\<rparr>) = button_publishes s"
  "button_publishes (s\<lparr>mq_seen := es\<rparr>) = button_publishes s" "button_publishes (s\<lparr>mq_attempt := n'\<rparr>) = button_publishes s"
  "button_publishes (s\<lparr>mq_broker := b'\<rparr>) = button_publishes s" "button_publishes (s\<lparr>mq_ready := r\<rparr>) = button_publishes s"
  "button_publishes (s\<lparr>mq_pressed := ps\<rparr>) = button_publishes s"
  by (simp_all add: button_publishes_def mq_do_def)

lemma conn_calls_simps [simp]:
  "conn_calls (mq_do c s) = conn_calls s @ (if c = MqConnect \<or> c = MqReconnectSleep then [c] else [])"
  "conn_calls (s\<lparr>mq_buf := b\<rparr>) = conn_calls s" "conn_calls (s\<lparr>mq_pubs := n\<rparr>) = conn_calls s"
  "conn_calls (s\<lparr>mq_seen := es\<rparr>) = conn_calls s" "conn_calls (s\<lparr>mq_attempt := n'\<rparr>) = conn_calls s"
  "conn_calls (s\<lparr>mq_broker := b'\<rparr>) = conn_calls s" "conn_calls (s\<lparr>mq_ready := r\<rparr>) = conn_calls s"
  "conn_calls (s\<lparr>mq_pressed := ps\<rparr>) = conn_calls s"
  by (simp_all add: conn_calls_def mq_do_def)

lemma mq_seen_do [simp]: "mq_seen (mq_do c s) = mq_seen s"
  and mq_buf_do [simp]: "mq_buf (mq_do c s) = mq_buf s"
  and mq_attempt_do [simp]: "mq_attempt (mq_do c s) = mq_attempt s"
  and mq_pubs_do [simp]: "mq_pubs (mq_do c s) = mq_pubs s"
  and mq_pressed_do [simp]: "mq_pressed (mq_do c s) = mq_pressed s"
  by (simp_all add: mq_do_def)

lemma presses_keep [simp]: "mq_buf (mq_presses e ps s) = mq_buf s" "mq_seen (mq_presses e ps s) = mq_seen s"
  "mq_attempt (mq_presses e ps s) = mq_attempt s" "replies (mq_presses e ps s) = replies s"
  "conn_calls (mq_presses e ps s) = conn_calls s"
  unfolding mq_presses_def
  by (induction ps arbitrary: s) (simp_all add: mqtt_button_handler_def data_publish_def Let_def split: prod.split)

definition buttons_ok :: "mqtt_env \<Rightarrow> mqtt \<Rightarrow> bool" where
  "buttons_ok e s \<longleftrightarrow> button_publishes s = map (\<lambda>_. me_button_msg e) (filter (button_pressed e) (mq_pressed s))"

lemma presses_buttons: "buttons_ok e s \<Longrightarrow> buttons_ok e (mq_presses e ps s)"
  unfolding mq_presses_def
proof (induction ps arbitrary: s)
  case (Cons p ps)
  have "buttons_ok e (mqtt_button_handler e p s)"
    using Cons.prems
    by (auto simp: buttons_ok_def mqtt_button_handler_def data_publish_def button_pressed_def Let_def split: prod.split)
  from Cons.IH [OF this] show ?case by simp
qed simp

lemma mq_inv_buttons: "mq_inv e cs a s \<longleftrightarrow> replies s = concat (map (answers e) (mq_seen s))
     \<and> buttons_ok e s \<and> conn_calls s = cs \<and> mq_attempt s = a"
  by (simp add: mq_inv_def buttons_ok_def)

lemma presses_inv: "mq_inv e cs a s \<Longrightarrow> mq_inv e cs a (mq_presses e ps s)"
  by (simp add: mq_inv_buttons presses_buttons)

lemma buttons_simps [simp]:
  "buttons_ok e (mq_do c s) = buttons_ok e s" if "case c of MqPublish FromButton t i d \<Rightarrow> False | _ \<Rightarrow> True"
  using that by (cases c) (auto simp: buttons_ok_def split: origin.splits)

lemma buttons_frame [simp]:
  "buttons_ok e (s\<lparr>mq_buf := b\<rparr>) = buttons_ok e s" "buttons_ok e (s\<lparr>mq_pubs := n\<rparr>) = buttons_ok e s"
  "buttons_ok e (s\<lparr>mq_seen := es\<rparr>) = buttons_ok e s" "buttons_ok e (s\<lparr>mq_attempt := n'\<rparr>) = buttons_ok e s"
  by (simp_all add: buttons_ok_def)

lemma secure_handler_inv:
  assumes "mq_inv e cs a s" and "event_ok evt"
  shows "\<exists>s'. secure_handler e evt s = Some s' \<and> mq_inv e cs a s'"
  using assms
  by (cases evt) (auto simp: mqtt_evt_handler_def mq_inv_buttons subscribe_def data_publish_def publish_get_payload_def
      fill_payload_def EMSGSIZE_def Let_def presses_buttons split: read_result.splits)

lemma secure_input_inv:
  assumes "mq_inv e cs a s" and "input_ok i"
  shows "\<exists>s'. secure_input e i s = Some s' \<and> mq_inv e cs a s'"
  using assms secure_handler_inv presses_inv by (cases i) (simp_all add: mqtt_input_handler_def)

interpretation mqtt_client: machine "secure_input e" "\<lambda>i s. input_ok i" "mq_inv e cs a" for e cs a
  by unfold_locales (rule secure_input_inv)

definition round_ok :: "poll_round \<Rightarrow> bool" where
  "round_ok r \<longleftrightarrow> list_all input_ok (po_live_evts r) \<and> list_all input_ok (po_input_evts r)"

text \<open>Whether a turn, or a session, is the last one; this depends on the results alone.\<close>

definition round_fails :: "poll_round \<Rightarrow> bool" where
  "round_fails r \<longleftrightarrow> po_poll r < 0 \<or> (po_live r \<noteq> 0 \<and> po_live r \<noteq> - EAGAIN) \<or> (po_in r \<and> po_input r \<noteq> 0) \<or> po_err r \<or> po_nval r"

definition session_ends :: "mqtt_conn \<Rightarrow> bool" where
  "session_ends x \<longleftrightarrow> mc_result x \<noteq> 0 \<or> list_ex round_fails (mc_rounds x)"

lemma mqtt_round_inv:
  assumes "mq_inv e cs a s" and "round_ok r"
  shows "\<exists>s'. mqtt_round (secure_input e) r s = Some (\<not> round_fails r, s') \<and> mq_inv e cs a s'"
proof -
  have run_ok: "\<exists>s'. run (secure_input e) es s = Some s' \<and> mq_inv e cs a s'" if "list_all input_ok es" "mq_inv e cs a s" for es s
    using mqtt_client.run_inv [OF that(2) run_ok_all [OF that(1)]] .
  obtain s1 where s1: "run (secure_input e) (po_live_evts r) s = Some s1" "mq_inv e cs a s1"
    using run_ok [OF _ assms(1)] assms(2) by (auto simp: round_ok_def)
  obtain s2 where "run (secure_input e) (po_input_evts r) s1 = Some s2" "mq_inv e cs a s2"
    using run_ok [OF _ s1(2)] assms(2) by (auto simp: round_ok_def)
  with s1 assms(1) show ?thesis by (auto simp: mqtt_round_def round_fails_def EAGAIN_def)
qed

lemma mqtt_loop_inv:
  assumes "mq_inv e cs a s" and "list_all round_ok rs"
  shows "\<exists>s'. mqtt_loop (secure_input e) rs s = Some (\<not> list_ex round_fails rs, s') \<and> mq_inv e cs a s'"
  using assms
proof (induction rs arbitrary: s)
  case (Cons r rs)
  obtain s1 where "mqtt_round (secure_input e) r s = Some (\<not> round_fails r, s1)" "mq_inv e cs a s1"
    using mqtt_round_inv [OF Cons.prems(1), of r] Cons.prems(2) by auto
  with Cons show ?case by auto
qed simp

section \<open>Connecting\<close>

lemma connect_inv: "mq_inv e cs a s \<Longrightarrow> mq_inv e (cs @ [MqConnect]) a (mq_do MqConnect s)"
  by (simp add: mq_inv_buttons)

lemma mqtt_session_inv:
  assumes "mq_inv e cs a s" and "list_all round_ok (mc_rounds x)"
  shows "\<exists>s'. mqtt_session e x s = Some (session_ends x, s')
     \<and> mq_inv e (cs @ (if a = 0 then [MqConnect] else [MqReconnectSleep, MqConnect])) (a + 1) s'"
proof -
  let ?t = "(if 0 < mq_attempt s then mq_do MqReconnectSleep s else s)\<lparr>mq_attempt := mq_attempt s + 1\<rparr>"
  let ?s = "mq_presses e (mc_after x) (mq_do MqConnect (mq_presses e (mc_idle x) ?t))"
  let ?cs = "cs @ (if a = 0 then [MqConnect] else [MqReconnectSleep, MqConnect])"
  have "mq_inv e (cs @ (if a = 0 then [] else [MqReconnectSleep])) (a + 1) ?t"
    using assms(1) by (auto simp: mq_inv_buttons word_neq_0_conv)
  from connect_inv [OF presses_inv [OF this]]
  have "mq_inv e ?cs (a + 1) (mq_do MqConnect (mq_presses e (mc_idle x) ?t))" by (cases "a = 0") simp_all
  then have i: "mq_inv e ?cs (a + 1) ?s" by (rule presses_inv)
  obtain s' where s': "mqtt_loop (secure_input e) (mc_rounds x) ?s = Some (\<not> list_ex round_fails (mc_rounds x), s')"
    "mq_inv e ?cs (a + 1) s'"
    using mqtt_loop_inv [OF i assms(2)] by blast
  have d: "mq_inv e ?cs (a + 1) (mq_do MqDisconnect s')" using s'(2) by (simp add: mq_inv_buttons)
  show ?thesis
    using i s' d by (auto simp: mqtt_session_def session_ends_def fds_init_def Let_def)
qed

text \<open>The sessions a run enters: those up to and including the first that does not end.\<close>

definition entered :: "mqtt_conn list \<Rightarrow> nat" where
  "entered xs = (if list_all session_ends xs then length xs else Suc (length (takeWhile session_ends xs)))"

fun connects :: "nat \<Rightarrow> mqtt_call list" where
  "connects 0 = []"
| "connects (Suc n) = connects n @ (if n = 0 then [MqConnect] else [MqReconnectSleep, MqConnect])"

lemma mqtt_sessions_inv:
  assumes "mq_inv e (connects n) (of_nat n) s" and "list_all (\<lambda>x. list_all round_ok (mc_rounds x)) xs" and "n + length xs < 2 ^ 32"
  shows "\<exists>s'. mqtt_sessions e xs s = Some s' \<and> mq_inv e (connects (n + entered xs)) (of_nat (n + entered xs)) s'"
  using assms
proof (induction xs arbitrary: n s)
  case Nil
  then show ?case by (simp add: entered_def)
next
  case (Cons x xs)
  have u: "unat (of_nat n :: u32) = n" using Cons.prems(3) by (simp add: unat_of_nat_u32)
  have z: "(of_nat n :: u32) = 0 \<longleftrightarrow> n = 0"
  proof
    assume "(of_nat n :: u32) = 0"
    with u show "n = 0" by simp
  qed simp
  have ok: "list_all round_ok (mc_rounds x)" "list_all (\<lambda>x. list_all round_ok (mc_rounds x)) xs" using Cons.prems(2) by simp_all
  have c: "connects n @ (if (of_nat n :: u32) = 0 then [MqConnect] else [MqReconnectSleep, MqConnect]) = connects (Suc n)"
    unfolding z by simp
  have n: "of_nat n + 1 = (of_nat (Suc n) :: u32)" by simp
  obtain s1 where s1: "mqtt_session e x s = Some (session_ends x, s1)" "mq_inv e (connects (Suc n)) (of_nat (Suc n)) s1"
    using mqtt_session_inv [OF Cons.prems(1) ok(1)] unfolding c n by blast
  show ?case
  proof (cases "session_ends x")
    case True
    obtain s' where "mqtt_sessions e xs s1 = Some s'"
      "mq_inv e (connects (Suc n + entered xs)) (of_nat (Suc n + entered xs)) s'"
      using Cons.IH [OF s1(2) ok(2)] Cons.prems(3) by fastforce
    moreover have e: "n + entered (x # xs) = Suc n + entered xs" using True by (simp add: entered_def)
    ultimately show ?thesis unfolding e using s1(1) True by auto
  next
    case False
    then have e: "n + entered (x # xs) = Suc n" by (simp add: entered_def)
    show ?thesis unfolding e using s1 False by auto
  qed
qed

text \<open>The set-up of the modem is tried until it succeeds.\<close>

definition configure_trace :: "mqtt_env \<Rightarrow> mqtt_call list" where
  "configure_trace e = (if me_auto_init e then [] else if me_carrier e then [CarrierTake] else [LteInitAndConnect])"

lemma configure_retry_result:
  assumes "\<And>j. j < k \<Longrightarrow> me_lte e (i + j) \<noteq> 0" and "me_lte e (i + k) = 0" and "\<not> me_auto_init e" and "\<not> me_carrier e"
  shows "configure_retry e i s =
     Some (s\<lparr>mq_calls := mq_calls s @ concat (replicate k [LteInitAndConnect, LteRetrySleep]) @ [LteInitAndConnect, PsmOff, EdrxOff]\<rparr>)"
  using assms(1,2)
proof (induction k arbitrary: i s)
  case 0
  then show ?case using assms(3,4) by (subst configure_retry.simps) (simp add: mqtt_modem_configure_def mq_do_def)
next
  case (Suc k)
  have "me_lte e i \<noteq> 0" using Suc.prems(1) [of 0] by simp
  moreover have "configure_retry e (Suc i) s' =
     Some (s'\<lparr>mq_calls := mq_calls s' @ concat (replicate k [LteInitAndConnect, LteRetrySleep]) @ [LteInitAndConnect, PsmOff, EdrxOff]\<rparr>)" for s'
  proof (rule Suc.IH)
    fix j
    assume "j < k"
    then show "me_lte e (Suc i + j) \<noteq> 0" using Suc.prems(1) [of "Suc j"] by simp
  qed (use Suc.prems(2) in simp)
  ultimately show ?case
    using assms(3,4) by (subst configure_retry.simps) (simp add: mqtt_modem_configure_def mq_do_def)
qed

definition mq_start :: mqtt where
  "mq_start = \<lparr>mq_buf = [], mq_broker = None, mq_ready = False, mq_pubs = 0, mq_attempt = 0, mq_seen = [], mq_pressed = [], mq_calls = []\<rparr>"

lemma mqtt_main_sessions:
  assumes "me_cert e = 0" and "\<And>j. j < k \<Longrightarrow> me_lte e j \<noteq> 0" and "me_lte e k = 0"
    and "\<not> me_auto_init e" and "\<not> me_carrier e" and "me_getaddrinfo e = 0"
    and "list_all (\<lambda>x. list_all round_ok (mc_rounds x)) xs" and "length xs < 2 ^ 32"
  shows "\<exists>s'. mqtt_main e xs mq_start = Some s' \<and> mq_inv e (connects (entered xs)) (of_nat (entered xs)) s'"
proof -
  define s1 where "s1 = (if me_tls e \<and> me_key_mgmt e then mq_do CaCertWrite mq_start else mq_start)"
  define s2 where "s2 = s1\<lparr>mq_calls := mq_calls s1 @ concat (replicate k [LteInitAndConnect, LteRetrySleep]) @ [LteInitAndConnect, PsmOff, EdrxOff]\<rparr>"
  define s3 where "s3 = snd (client_init e s2)"
  have "(if me_tls e then certificates_provision e mq_start else (0, mq_start)) = (0, s1)"
    using assms(1) by (simp add: certificates_provision_def s1_def)
  moreover have "configure_retry e 0 s1 = Some s2"
    unfolding s2_def using configure_retry_result [of k e 0 s1] assms(2-5) by simp
  moreover have c: "client_init e s2 = (0, s3)"
    unfolding s3_def using assms(6) by (simp add: client_init_def broker_init_def split: option.splits)
  ultimately have m: "mqtt_main e xs mq_start = mqtt_sessions e xs (mq_do MqButtonsInit (s3\<lparr>mq_attempt := 0\<rparr>))"
    unfolding mqtt_main_def Let_def by simp
  have r: "concat (map reply_of (concat (replicate k [LteInitAndConnect, LteRetrySleep]))) = []"
    "filter (\<lambda>c. c = MqConnect \<or> c = MqReconnectSleep) (concat (replicate k [LteInitAndConnect, LteRetrySleep])) = []" for k
    by (induction k) simp_all
  have r3: "concat (map (\<lambda>c. case c of MqPublish FromButton t i d \<Rightarrow> [d] | _ \<Rightarrow> []) (concat (replicate k [LteInitAndConnect, LteRetrySleep]))) = []" for k
    by (induction k) simp_all
  have s2: "replies s2 = []" "conn_calls s2 = []" "mq_seen s2 = []" "button_publishes s2 = []" "mq_pressed s2 = []"
    using r r3 by (simp_all add: s2_def s1_def mq_start_def replies_def conn_calls_def button_publishes_def mq_do_def)
  have "replies s3 = []" "conn_calls s3 = []" "mq_seen s3 = []" "button_publishes s3 = []" "mq_pressed s3 = []"
    using s2 assms(6) unfolding s3_def by (auto simp: client_init_def broker_init_def split: option.splits)
  then have "mq_inv e (connects 0) (of_nat 0) (mq_do MqButtonsInit (s3\<lparr>mq_attempt := 0\<rparr>))"
    by (simp add: mq_inv_def)
  from mqtt_sessions_inv [OF this assms(7)] show ?thesis using assms(8) unfolding m by simp
qed

text \<open>
  C5: the client with certificates that are accepted, a modem that it connects itself and that connects
  in the end, and a broker whose name can be resolved. Whatever the broker, the network and the
  buttons do (and with fewer than \<open>2^32\<close> sessions): every accepted connection is answered with the
  subscription, every message of QoS 1 with its acknowledgement, and every message that could be
  read and fits the buffer with its echo, in the order of the events, and the handler sends nothing
  else; every report of the chosen button as pressed publishes the button's message, and nothing
  else does; and the client never gives up: after every session that ends it waits and connects
  again.
\<close>

theorem mqtt_answers_and_reconnects:
  assumes "me_cert e = 0" and "\<And>j. j < k \<Longrightarrow> me_lte e j \<noteq> 0" and "me_lte e k = 0"
    and "\<not> me_auto_init e" and "\<not> me_carrier e" and "me_getaddrinfo e = 0"
    and "list_all (\<lambda>x. list_all round_ok (mc_rounds x)) xs" and "length xs < 2 ^ 32"
  shows "\<exists>s'. mqtt_main e xs mq_start = Some s'
     \<and> replies s' = concat (map (answers e) (mq_seen s'))
     \<and> button_publishes s' = map (\<lambda>_. me_button_msg e) (filter (button_pressed e) (mq_pressed s'))
     \<and> conn_calls s' = connects (entered xs)"
  using mqtt_main_sessions [OF assms] by (auto simp: mq_inv_def)

section \<open>Reading piece by piece\<close>

text \<open>A read gives no more than was asked for, or an error; \<open>m\<close> is when the library stops asking for patience.\<close>

definition reads_ok :: "mq_publish \<Rightarrow> nat \<Rightarrow> bool" where
  "reads_ok p m \<longleftrightarrow> (\<forall>i n. case pb_read p i n of
       ReadErr ret \<Rightarrow> ret < 0 \<and> (m \<le> i \<longrightarrow> ret \<noteq> - EAGAIN) | ReadData d \<Rightarrow> length d \<le> n)"

lemma reads_okD:
  assumes "reads_ok p m"
  shows "pb_read p i n = ReadErr ret \<Longrightarrow> ret < 0" "pb_read p i n = ReadErr ret \<Longrightarrow> m \<le> i \<Longrightarrow> ret \<noteq> - EAGAIN"
    "pb_read p i n = ReadData d \<Longrightarrow> length d \<le> n"
proof -
  have "case pb_read p i n of ReadErr ret \<Rightarrow> ret < 0 \<and> (m \<le> i \<longrightarrow> ret \<noteq> - EAGAIN) | ReadData d \<Rightarrow> length d \<le> n"
    using assms unfolding reads_ok_def by blast
  then show "pb_read p i n = ReadErr ret \<Longrightarrow> ret < 0" "pb_read p i n = ReadErr ret \<Longrightarrow> m \<le> i \<Longrightarrow> ret \<noteq> - EAGAIN"
    "pb_read p i n = ReadData d \<Longrightarrow> length d \<le> n" by auto
qed

lemma read_payload_ends:
  assumes "reads_ok p m"
  shows "\<exists>r d. read_payload p i left acc = Some (r, d) \<and> r \<le> 0 \<and> length d \<le> length acc + left
     \<and> (r = 0 \<longleftrightarrow> length d = length acc + left)"
proof (induction "left + (m - i)" arbitrary: i left acc rule: less_induct)
  case less
  note r = reads_okD [OF assms]
  show ?case
  proof (cases "left = 0")
    case True
    then show ?thesis by (subst read_payload.simps) simp
  next
    case nz: False
    show ?thesis
    proof (cases "pb_read p i left")
      case (ReadErr ret)
      show ?thesis
      proof (cases "ret = - EAGAIN \<and> 0 < fst (pb_poll p i) \<and> snd (pb_poll p i)")
        case True
        then have "i < m" using r(2) [OF ReadErr] by (cases "m \<le> i") auto
        then have "left + (m - (i + 1)) < left + (m - i)" by simp
        from less.hyps [OF this, of acc] show ?thesis
          using True nz ReadErr by (subst read_payload.simps) simp
      next
        case False
        then show ?thesis using nz ReadErr r(1) [OF ReadErr]
          by (subst read_payload.simps) (auto simp: EIO_def)
      qed
    next
      case (ReadData d)
      show ?thesis
      proof (cases "d = []")
        case True
        then show ?thesis using nz ReadData by (subst read_payload.simps) (simp add: EIO_def)
      next
        case False
        have l: "length d \<le> left" by (rule r(3) [OF ReadData])
        have "left - length d + (m - (i + 1)) < left + (m - i)" using False l nz by (cases d) auto
        from less.hyps [OF this, of "acc @ d"] l show ?thesis
          using nz ReadData False by (subst read_payload.simps) auto
      qed
    qed
  qed
qed

definition reads_stuck :: "mq_publish \<Rightarrow> bool" where
  "reads_stuck p \<longleftrightarrow> (\<forall>i n. pb_read p i n = ReadErr (- EAGAIN) \<and> 0 < fst (pb_poll p i) \<and> snd (pb_poll p i))"

lemma read_payload_sound:
  assumes "read_payload p i left acc = Some r" and "0 < left"
  shows "\<not> reads_stuck p"
proof -
  have "0 < left \<longrightarrow> \<not> reads_stuck p"
  proof (rule read_payload.raw_induct [OF _ assms(1), where P = "\<lambda>p i left acc r. 0 < left \<longrightarrow> \<not> reads_stuck p"],
      intro impI notI)
    fix rp :: "mq_publish \<Rightarrow> nat \<Rightarrow> nat \<Rightarrow> u8 list \<Rightarrow> (int \<times> u8 list) option"
    fix p i left acc r
    assume IH: "\<And>p i left acc r. rp p i left acc = Some r \<Longrightarrow> 0 < left \<longrightarrow> \<not> reads_stuck p"
      and body: "(if left = 0 then Some (0, acc)
        else case pb_read p i left of
          ReadErr ret \<Rightarrow>
            if ret \<noteq> - EAGAIN then Some (ret, acc)
            else if 0 < fst (pb_poll p i) \<and> snd (pb_poll p i) then rp p (i + 1) left acc else Some (- EIO, acc)
        | ReadData d \<Rightarrow> if d = [] then Some (- EIO, acc) else rp p (i + 1) (left - length d) (acc @ d)) = Some r"
      and left: "0 < left" and st: "reads_stuck p"
    from st have "pb_read p i left = ReadErr (- EAGAIN)" "0 < fst (pb_poll p i)" "snd (pb_poll p i)"
      by (simp_all add: reads_stuck_def)
    with body left have "rp p (i + 1) left acc = Some r" by simp
    from IH [OF this] left st show False by simp
  qed
  with assms(2) show ?thesis by simp
qed

text \<open>
  C31: the older client's reading of a payload ends when the library's reads give no more than was asked for
  and are not refused with \<open>EAGAIN\<close> for ever, and it succeeds exactly when all the bytes have been read;
  when the socket stays readable and every read is refused it never ends.
\<close>

theorem payload_reading_ends:
  assumes "reads_ok p m" and "pb_len p \<le> me_payload_size e"
  shows "(\<exists>r d. simple_get_payload e p s = Some (r, fill_payload d s) \<and> r \<le> 0 \<and> length d \<le> pb_len p
      \<and> (r = 0 \<longleftrightarrow> length d = pb_len p))
    \<and> (\<forall>p'. reads_stuck p' \<and> 0 < pb_len p' \<and> pb_len p' \<le> me_payload_size e \<longrightarrow> simple_get_payload e p' s = None)"
proof -
  obtain r d where "read_payload p 0 (pb_len p) [] = Some (r, d)" "r \<le> 0" "length d \<le> pb_len p" "r = 0 \<longleftrightarrow> length d = pb_len p"
    using read_payload_ends [OF assms(1), of 0 "pb_len p" "[]"] by auto
  moreover have "simple_get_payload e p' s = None" if "reads_stuck p'" "0 < pb_len p'" "pb_len p' \<le> me_payload_size e" for p'
    using that read_payload_sound [of p' 0 "pb_len p'" "[]"]
    by (cases "read_payload p' 0 (pb_len p') []") (auto simp: simple_get_payload_def)
  ultimately show ?thesis using assms(2) by (auto simp: simple_get_payload_def)
qed

section \<open>The broker's address\<close>

text \<open>
  the client is set up exactly when the host name can be resolved, with the first IPv4 address found; when
  there is none the set-up succeeds all the same and the client has no broker.
\<close>

theorem broker_is_first_ipv4:
  fixes e :: mqtt_env
  defines "v4 \<equiv> map snd (filter (\<lambda>x. fst x = 16) (me_addrs e))"
  shows "(fst (client_init e s) = 0 \<longleftrightarrow> me_getaddrinfo e = 0)
     \<and> (me_getaddrinfo e = 0 \<longrightarrow> mq_ready (snd (client_init e s))
          \<and> mq_broker (snd (client_init e s)) = (if v4 = [] then mq_broker s else Some (hd v4)))"
proof -
  have "first_ipv4 as = (case map snd (filter (\<lambda>x. fst x = 16) as) of [] \<Rightarrow> None | a # _ \<Rightarrow> Some a)" for as
    by (induction as rule: first_ipv4.induct) simp_all
  then show ?thesis
    by (auto simp: client_init_def broker_init_def ECHILD_def v4_def split: list.splits)
qed

section \<open>The client and the broker\<close>

text \<open>
  A broker that hands every message on its topic to the client and takes back what the client publishes on
  that topic.
\<close>

definition broker_message :: "u8 list \<Rightarrow> mq_publish" where
  "broker_message d = \<lparr>pb_qos = 1, pb_id = 1, pb_len = length d, pb_readall = ReadData d,
     pb_read = (\<lambda>i n. ReadData d), pb_poll = (\<lambda>i. (0, False)), pb_mid = []\<rparr>"

definition forwarded :: "string \<Rightarrow> mqtt_call list \<Rightarrow> u8 list list" where
  "forwarded topic cs = concat (map (\<lambda>c. case c of MqPublish w t i d \<Rightarrow> if t = topic then [d] else [] | _ \<Rightarrow> []) cs)"

primrec broker_turns :: "mqtt_env \<Rightarrow> nat \<Rightarrow> u8 list list \<times> mqtt \<Rightarrow> (u8 list list \<times> mqtt) option" where
  "broker_turns e 0 x = Some x"
| "broker_turns e (Suc n) x =
     (case fst x of
        [] \<Rightarrow> Some x
      | d # q \<Rightarrow>
          Option.bind (secure_handler e (MQTT_EVT_PUBLISH (broker_message d)) (snd x)) (\<lambda>s.
            broker_turns e n (q @ forwarded (me_sub_topic e) (drop (length (mq_calls (snd x))) (mq_calls s)), s)))"

text \<open>
  with the same topic for both directions, one message that fits the buffer is published again in every
  turn of the broker, for ever; with different topics it is published once.
\<close>

theorem echo_storm:
  assumes "length d \<le> me_payload_size e"
  shows "\<exists>s'. broker_turns e n ([d], s) = Some (if me_pub_topic e = me_sub_topic e \<or> n = 0 then [d] else [], s')
     \<and> mq_pubs s' = mq_pubs s + (if me_pub_topic e = me_sub_topic e then n else min n 1)"
proof (induction n arbitrary: s)
  case (Suc n)
  let ?id = "ucast (me_rand e (mq_pubs s)) :: u16"
  obtain s1 where s1: "secure_handler e (MQTT_EVT_PUBLISH (broker_message d)) s = Some s1"
    "mq_calls s1 = mq_calls s @ [MqPubAck 1, MqPublish FromHandler (me_pub_topic e) ?id d]" "mq_pubs s1 = Suc (mq_pubs s)"
    using assms
    by (simp add: mqtt_evt_handler_def publish_get_payload_def broker_message_def fill_payload_def data_publish_def
        mq_presses_def mq_do_def Let_def)
  have f: "forwarded (me_sub_topic e) (drop (length (mq_calls s)) (mq_calls s1))
      = (if me_pub_topic e = me_sub_topic e then [d] else [])"
    by (simp add: s1(2) forwarded_def)
  show ?case
  proof (cases "me_pub_topic e = me_sub_topic e")
    case True
    then show ?thesis using s1 f Suc.IH [of s1] by auto
  next
    case False
    have "broker_turns e n ([], s1) = Some ([], s1)" by (cases n) simp_all
    then show ?thesis using s1 f False by simp
  qed
qed simp

section \<open>Witnesses\<close>

definition demo_mqtt_env :: mqtt_env where
  "demo_mqtt_env = \<lparr>me_tls = True, me_key_mgmt = True, me_auto_init = False, me_carrier = False, me_payload_size = 128,
     me_button = 1, me_button_msg = [104], me_pub_topic = ''/lexi/test/hello/message'', me_sub_topic = ''/lexi/test/hello/message'',
     me_rand = (\<lambda>i. of_nat i + 7), me_cert = 0, me_lte = (\<lambda>i. if i < 2 then - 5 else 0), me_getaddrinfo = 0,
     me_addrs = [(28, 1), (16, 42)]\<rparr>"

definition demo_round :: "mqtt_input list \<Rightarrow> poll_round" where
  "demo_round evts = \<lparr>po_poll = 1, po_live = - EAGAIN, po_live_evts = [], po_in = True, po_input = 0,
     po_input_evts = evts, po_err = False, po_nval = False\<rparr>"

definition demo_sessions :: "mqtt_conn list" where
  "demo_sessions =
     [\<lparr>mc_idle = [], mc_result = - 111, mc_after = [], mc_rounds = []\<rparr>,
      \<lparr>mc_idle = [(1, 1)], mc_result = 0, mc_after = [],
        mc_rounds = [demo_round [Broker (MQTT_EVT_CONNACK 0)], (demo_round [])\<lparr>po_err := True\<rparr>]\<rparr>,
      \<lparr>mc_idle = [], mc_result = 0, mc_after = [(0, 1)],
        mc_rounds = [demo_round [Press (3, 1), Broker (MQTT_EVT_PUBLISH ((broker_message [1, 2])\<lparr>pb_mid := [(1, 1)]\<rparr>))]]\<rparr>]"

theorem mqtt_answers_and_reconnects_witness:
  "\<exists>s'. mqtt_main demo_mqtt_env demo_sessions mq_start = Some s'
     \<and> conn_calls s' = [MqConnect, MqReconnectSleep, MqConnect, MqReconnectSleep, MqConnect]"
proof -
  have e: "entered demo_sessions = 3"
    by (simp add: entered_def session_ends_def round_fails_def demo_round_def demo_sessions_def)
  have "list_all (\<lambda>x. list_all round_ok (mc_rounds x)) demo_sessions"
    by (simp add: round_ok_def demo_round_def broker_message_def demo_sessions_def)
  then have "\<exists>s'. mqtt_main demo_mqtt_env demo_sessions mq_start = Some s'
     \<and> replies s' = concat (map (answers demo_mqtt_env) (mq_seen s'))
     \<and> button_publishes s' = map (\<lambda>_. me_button_msg demo_mqtt_env) (filter (button_pressed demo_mqtt_env) (mq_pressed s'))
     \<and> conn_calls s' = connects (entered demo_sessions)"
    by (intro mqtt_answers_and_reconnects [where k = 2]) (simp_all add: demo_mqtt_env_def demo_sessions_def)
  with e show ?thesis by (auto simp: numeral_3_eq_3)
qed

theorem payload_reading_ends_witness:
  "simple_get_payload demo_mqtt_env
     ((broker_message [1, 2])\<lparr>pb_read := (\<lambda>i n. if i = 0 then ReadErr (- EAGAIN) else ReadData (take n [5])), pb_poll := (\<lambda>i. (1, True))\<rparr>)
     mq_start \<noteq> None"
proof -
  let ?p = "(broker_message [1, 2])\<lparr>pb_read := (\<lambda>i n. if i = 0 then ReadErr (- EAGAIN) else ReadData (take n [5])), pb_poll := (\<lambda>i. (1, True))\<rparr>"
  have "reads_ok ?p 1" "pb_len ?p \<le> me_payload_size demo_mqtt_env"
    by (auto simp: reads_ok_def EAGAIN_def broker_message_def demo_mqtt_env_def)
  from payload_reading_ends [OF this, of mq_start] show ?thesis by auto
qed

theorem broker_is_first_ipv4_witness:
  "mq_broker (snd (client_init demo_mqtt_env mq_start)) = Some 42
   \<and> mq_broker (snd (client_init (demo_mqtt_env\<lparr>me_addrs := [(28, 1)]\<rparr>) mq_start)) = None"
  using broker_is_first_ipv4 [of demo_mqtt_env mq_start]
    broker_is_first_ipv4 [of "demo_mqtt_env\<lparr>me_addrs := [(28, 1)]\<rparr>" mq_start]
  by (simp add: demo_mqtt_env_def mq_start_def)

theorem echo_storm_witness:
  "\<exists>s'. broker_turns demo_mqtt_env 1000 ([[104, 105]], mq_start) = Some ([[104, 105]], s') \<and> mq_pubs s' = 1000"
  using echo_storm [of "[104, 105]" demo_mqtt_env 1000 mq_start] by (simp add: demo_mqtt_env_def mq_start_def)
end
