(* ===== verification/AppThreads.thy ===== *)
theory AppThreads
  imports CoreRpc "HOL-Library.AList"
begin

text \<open>
  The other threads of the nRF5340 example (\<open>nrf53_ble/otherExamples\<close>): on the application core the analog
  inputs (\<open>adc_thread.c\<close>), the flash (\<open>flash_thread.c\<close>), the I2C master (\<open>iic_thread.c\<close>), the two senders
  (\<open>rpc_thread.c\<close>, \<open>rpc_thread1.c\<close>) and \<open>main.c\<close>; on the network core the rest of \<open>main.c\<close>: the set-up and
  the button that sends a notification.
\<close>

section \<open>Analog inputs\<close>

text \<open>
  \<open>BATTERY_VOLTAGE\<close>: the sample is multiplied by 6 as an \<open>int\<close>, and from the constant \<open>600UL\<close> on everything
  is a 32-bit unsigned number.
\<close>

definition BATTERY_VOLTAGE :: "16 word \<Rightarrow> u32" where
  "BATTERY_VOLTAGE sample = of_int (sint sample * 6) * 600 div 4096"

text \<open>
  \<open>ad_signaled\<close> is the signal that the driver raises when a conversion is done, \<open>ad_log\<close> the voltages
  logged, \<open>ad_reads\<close> the reads asked of the driver: whether it calibrates and whether it
  is asynchronous.
\<close>

record adc =
  adc_buffer :: "16 word list"
  adc_async_read_pending :: bool
  calibrated :: bool
  ad_signaled :: bool
  ad_reads :: "(bool \<times> bool) list"
  ad_log :: "u32 list"

definition adc_report :: "adc \<Rightarrow> adc" where
  "adc_report s = s\<lparr>ad_log := ad_log s @ map BATTERY_VOLTAGE (adc_buffer s)\<rparr>"

definition adc_sample_sync :: "int \<Rightarrow> 16 word list \<Rightarrow> adc \<Rightarrow> adc" where
  "adc_sample_sync err samples s =
     (let s1 = s\<lparr>ad_reads := ad_reads s @ [(\<not> calibrated s, False)], calibrated := True,
                 adc_buffer := (if err \<noteq> 0 then adc_buffer s else samples)\<rparr>
      in if err \<noteq> 0 then s1 else adc_report s1)"

text \<open>\<open>err\<close> is what \<open>adc_read_async\<close> returns; \<open>k_poll\<close> succeeds at once when the signal has been raised.\<close>

definition adc_sample_async :: "int \<Rightarrow> adc \<Rightarrow> adc" where
  "adc_sample_async err s =
     (if \<not> adc_async_read_pending s then
        (let s1 = s\<lparr>ad_reads := ad_reads s @ [(\<not> calibrated s, True)], calibrated := True\<rparr>
         in if err \<noteq> 0 then s1 else s1\<lparr>adc_async_read_pending := True\<rparr>)
      else if \<not> ad_signaled s then s
      else adc_report (s\<lparr>adc_async_read_pending := False\<rparr>))"

text \<open>The driver finishes a conversion.\<close>

definition conversion_done :: "16 word list \<Rightarrow> adc \<Rightarrow> adc" where
  "conversion_done samples s = s\<lparr>adc_buffer := samples, ad_signaled := True\<rparr>"

record adc_env =
  ae_bound :: bool
  ae_setup1 :: int
  ae_setup2 :: int
  ae_async :: bool

text \<open>The result and whether the work item has been submitted.\<close>

definition init_adc :: "adc_env \<Rightarrow> int \<times> bool" where
  "init_adc e =
     (if \<not> ae_bound e then (- ENXIO, False)
      else if ae_setup1 e \<noteq> 0 then (ae_setup1 e, False)
      else if ae_setup2 e \<noteq> 0 then (ae_setup2 e, False)
      else (0, ae_async e))"

section \<open>Flash\<close>

text \<open>
  The non-volatile storage maps ids to bytes, the settings names to bytes in the order they are
  visited when loaded. \<open>fl_reboot_cnt\<close> and \<open>fl_key\<close> are variables of one boot; \<open>fl_writes\<close> are the
  ids and names written in it.
\<close>

record flash =
  fl_nvs :: "nat \<Rightarrow> u8 list option"
  fl_settings :: "(string \<times> u8 list) list"
  fl_reboot_cnt :: u32
  fl_key :: "u8 list"
  fl_nvs_log :: "u32 option"
  fl_writes :: "string list"

record flash_env =
  fe_nvs_ok :: bool
  fe_nvs_write_ok :: "nat \<Rightarrow> bool"
  fe_subsys_init :: int
  fe_register :: int
  fe_save_ok :: "string \<Rightarrow> bool"

definition KEY_ID :: nat where "KEY_ID = 1"
definition RBT_CNT_ID :: nat where "RBT_CNT_ID = 2"

text \<open>With the file system not mounted nothing is found and nothing is written.\<close>

definition nvs_read :: "flash_env \<Rightarrow> nat \<Rightarrow> flash \<Rightarrow> u8 list option" where
  "nvs_read e i s = (if fe_nvs_ok e then fl_nvs s i else None)"

definition nvs_write :: "flash_env \<Rightarrow> nat \<Rightarrow> u8 list \<Rightarrow> flash \<Rightarrow> flash" where
  "nvs_write e i d s = (if fe_nvs_ok e \<and> fe_nvs_write_ok e i then s\<lparr>fl_nvs := (fl_nvs s)(i \<mapsto> d)\<rparr> else s)"

definition nvs_usage_init :: "flash_env \<Rightarrow> flash \<Rightarrow> flash" where
  "nvs_usage_init e s =
     (let s1 = (case nvs_read e KEY_ID s of
                  Some d \<Rightarrow> s
                | None \<Rightarrow> nvs_write e KEY_ID [0xFF, 0xFE, 0xFD, 0xFC, 0xFB, 0xFA, 0xF9, 0xF8] s);
          (found, reboot_counter) = (case nvs_read e RBT_CNT_ID s1 of Some d \<Rightarrow> (True, rd32 d) | None \<Rightarrow> (False, 0))
      in nvs_write e RBT_CNT_ID (le32 (reboot_counter + 1))
           (s1\<lparr>fl_nvs_log := (if found then Some reboot_counter else None)\<rparr>))"

definition alpha_handle_set :: "string \<Rightarrow> u8 list \<Rightarrow> flash \<Rightarrow> int \<times> flash" where
  "alpha_handle_set name d s =
     (if name = ''boot_cnt'' then
        if length d \<noteq> 4 then (- EINVAL, s) else (0, s\<lparr>fl_reboot_cnt := rd32 d\<rparr>)
      else if name = ''key'' then
        if length d \<noteq> 8 then (- EINVAL, s) else (0, s\<lparr>fl_key := d\<rparr>)
      else (- ENOENT, s))"

text \<open>
  \<open>settings_load\<close> hands every entry below \<open>alpha\<close> to the handler, when it could be registered; a later
  save replaces an entry.
\<close>

definition settings_load :: "flash_env \<Rightarrow> flash \<Rightarrow> flash" where
  "settings_load e s =
     (if fe_register e \<noteq> 0 then s
      else fold (\<lambda>(n, d) s. if take 6 n = ''alpha/'' then snd (alpha_handle_set (drop 6 n) d s) else s) (fl_settings s) s)"

definition settings_save_one :: "flash_env \<Rightarrow> string \<Rightarrow> u8 list \<Rightarrow> flash \<Rightarrow> flash" where
  "settings_save_one e n d s =
     (if fe_save_ok e n then s\<lparr>fl_settings := AList.update n d (fl_settings s), fl_writes := fl_writes s @ [n]\<rparr> else s)"

text \<open>A handler that could not be registered is only reported.\<close>

definition settings_usage_init :: "flash_env \<Rightarrow> flash \<Rightarrow> flash" where
  "settings_usage_init e s =
     (if fe_subsys_init e \<noteq> 0 then s
      else
        (let s1 = settings_load e s;
             s2 = (if fl_reboot_cnt s1 = 0
                   then settings_save_one e ''alpha/key'' [0x30, 0x31, 0x32, 0x33, 0x34, 0x35, 0x36, 0x37]
                          (s1\<lparr>fl_key := [0x30, 0x31, 0x32, 0x33, 0x34, 0x35, 0x36, 0x37]\<rparr>)
                   else s1);
             s3 = s2\<lparr>fl_reboot_cnt := fl_reboot_cnt s2 + 1\<rparr>
         in settings_save_one e ''alpha/boot_cnt'' (le32 (fl_reboot_cnt s3)) s3))"

text \<open>A boot: the variables start at zero, then the thread uses the storage, then the settings.\<close>

definition flash_thread :: "flash_env \<Rightarrow> flash \<Rightarrow> flash" where
  "flash_thread e s =
     settings_usage_init e (nvs_usage_init e
       (s\<lparr>fl_reboot_cnt := 0, fl_key := replicate 8 0, fl_nvs_log := None, fl_writes := []\<rparr>))"

section \<open>The I2C master\<close>

text \<open>
  \<open>ie_write\<close> is the result of sending the address bytes, \<open>ie_read\<close> the result of reading \<open>n\<close> bytes after
  them.
\<close>

record iic_env =
  ie_write :: "u8 list \<Rightarrow> int"
  ie_read :: "u8 list \<Rightarrow> nat \<Rightarrow> int \<times> u8 list"

definition EEPROM_SIM_SIZE :: nat where "EEPROM_SIM_SIZE = 320"
definition IN_LINE_PRINT_CNT :: nat where "IN_LINE_PRINT_CNT = 16"

definition addr_bytes :: "u16 \<Rightarrow> u8 list" where
  "addr_bytes a = [ucast a, ucast (drop_bit 8 a)]"

definition eeprom_read :: "iic_env \<Rightarrow> u16 \<Rightarrow> nat \<Rightarrow> int \<times> u8 list" where
  "eeprom_read e addr n =
     (if EEPROM_SIM_SIZE < n then (EINVAL, [])
      else if ie_write e (addr_bytes addr) \<noteq> 0 then (ie_write e (addr_bytes addr), [])
      else ie_read e (addr_bytes addr) n)"

text \<open>The loop over the addresses; what is logged and whether an error has ended it.\<close>

function eeprom_loop :: "iic_env \<Rightarrow> u16 \<Rightarrow> u8 list list \<Rightarrow> bool \<times> u8 list list" where
  "eeprom_loop e addr dumps =
     (if unat addr < EEPROM_SIM_SIZE then
        (let (err, d) = eeprom_read e addr IN_LINE_PRINT_CNT in
         if err \<noteq> 0 then (False, dumps) else eeprom_loop e (addr + of_nat IN_LINE_PRINT_CNT) (dumps @ [d]))
      else (True, dumps))"
  by pat_completeness auto
termination
proof (relation "measure (\<lambda>(e, addr, dumps). 65536 - unat addr)")
  fix e :: iic_env and addr :: u16 and dumps :: "u8 list list" and err d x
  assume a: "unat addr < EEPROM_SIM_SIZE"
  have "unat (addr + of_nat IN_LINE_PRINT_CNT) = unat addr + 16"
    using a by (simp add: EEPROM_SIM_SIZE_def IN_LINE_PRINT_CNT_def unat_plus_nowrap)
  then show "((e, addr + of_nat IN_LINE_PRINT_CNT, dumps @ [d]), (e, addr, dumps)) \<in> measure (\<lambda>(e, addr, dumps). 65536 - unat addr)"
    using a by (simp add: EEPROM_SIM_SIZE_def)
qed simp

declare eeprom_loop.simps [simp del]

definition eeprom_cmd_read :: "iic_env \<Rightarrow> bool \<times> u8 list list" where
  "eeprom_cmd_read e = eeprom_loop e 0 []"

text \<open>
  The pin: bound to a device, its interrupt enabled. The thread waits for the semaphore once; from then on
  it reads, sleeps and enables the interrupt again. Configuring an unbound pin is \<open>None\<close>.
\<close>

record iic =
  ii_gpio :: bool
  ii_irq :: bool
  ii_sem :: bool
  ii_looping :: bool
  ii_dumps :: "u8 list list"

definition config_io_interrupt :: "bool \<Rightarrow> int \<Rightarrow> int \<Rightarrow> iic \<Rightarrow> iic" where
  "config_io_interrupt bound err1 err2 s =
     (if \<not> bound then s
      else
        (let s1 = s\<lparr>ii_gpio := True\<rparr> in
         if err1 \<noteq> 0 then s1 else if err2 \<noteq> 0 then s1 else s1\<lparr>ii_irq := True\<rparr>))"

definition iic_ext_int_isr :: "iic \<Rightarrow> iic" where
  "iic_ext_int_isr s = s\<lparr>ii_irq := False, ii_sem := True\<rparr>"

definition iic_thread_turn :: "iic_env \<Rightarrow> iic \<Rightarrow> iic option" where
  "iic_thread_turn e s =
     (if \<not> ii_looping s then Some (if ii_sem s then s\<lparr>ii_sem := False, ii_looping := True\<rparr> else s)
      else if \<not> ii_gpio s then None
      else Some (s\<lparr>ii_dumps := ii_dumps s @ snd (eeprom_cmd_read e), ii_irq := True\<rparr>))"

section \<open>The senders\<close>

text \<open>
  \<open>snprintf\<close> into a buffer of at least \<open>n\<close> bytes: at most \<open>n - 1\<close> characters and a zero; the rest of the buffer is
  left as it was.
\<close>

definition snprintf_into :: "nat \<Rightarrow> string \<Rightarrow> u8 list \<Rightarrow> u8 list" where
  "snprintf_into n str buf = (let t = bytes_of (take (n - 1) str) @ [0] in t @ drop (length t) buf)"

definition numbered :: "nat \<Rightarrow> string \<Rightarrow> u8 \<Rightarrow> u8 list \<Rightarrow> u8 list" where
  "numbered n prefix cnt buf = (snprintf_into n (prefix @ dec (unat cnt)) buf)[n - 1 := 0]"

text \<open>The counters are static and count to 255; the buffer of the second sender is on its stack.\<close>

record sender =
  tx_cnt1 :: u8
  tx_cnt2 :: u8
  tx_buffer :: "u8 list"

definition app2net_tx1 ::
  "nat \<Rightarrow> 'p cbor_api \<Rightarrow> ('p, duo) transport \<Rightarrow> duo_env \<Rightarrow> sender \<times> duo \<Rightarrow> (sender \<times> duo) option" where
  "app2net_tx1 tx_mtu cb tr e x =
     (let buf = numbered 12 ''HelloApp'' (tx_cnt1 (fst x)) (tx_buffer (fst x)) in
      map_option (\<lambda>(err, d). ((fst x)\<lparr>tx_cnt1 := tx_cnt1 (fst x) + 1, tx_buffer := buf\<rparr>, d))
        (rpc_app_bt_nus_send tx_mtu cb tr e (Some (take 12 buf)) (snd x)))"

definition app2net_tx2 ::
  "u8 list \<Rightarrow> 'p cbor_api \<Rightarrow> ('p, duo) transport \<Rightarrow> duo_env \<Rightarrow> sender \<times> duo \<Rightarrow> (sender \<times> duo) option" where
  "app2net_tx2 stack cb tr e x =
     (let buf = numbered 10 ''RPC_app_'' (tx_cnt2 (fst x)) stack in
      map_option (\<lambda>(err, d). ((fst x)\<lparr>tx_cnt2 := tx_cnt2 (fst x) + 1\<rparr>, d))
        (app2net_send_nus cb tr e (Some (take 10 buf)) (snd x)))"

text \<open>A turn of \<open>rpc_thread1\<close> in the configuration with the dedicated interface, and without it.\<close>

definition rpc_thread1_turn ::
  "bool \<Rightarrow> nat \<Rightarrow> u8 list \<Rightarrow> 'p cbor_api \<Rightarrow> ('p, duo) transport \<Rightarrow> duo_env \<Rightarrow> sender \<times> duo \<Rightarrow> (sender \<times> duo) option" where
  "rpc_thread1_turn dedicated tx_mtu stack cb tr e x =
     Option.bind (if dedicated then app2net_tx1 tx_mtu cb tr e x else Some x) (app2net_tx2 stack cb tr e)"

text \<open>The older thread's sender, in its two configurations.\<close>

definition rpc_tx_app ::
  "bool \<Rightarrow> nat \<Rightarrow> 'p cbor_api \<Rightarrow> ('p, duo) transport \<Rightarrow> duo_env \<Rightarrow> sender \<times> duo \<Rightarrow> (sender \<times> duo) option" where
  "rpc_tx_app remote_api tx_mtu cb tr e x =
     (if remote_api then app2net_tx1 tx_mtu cb tr e x
      else
        (let buf = numbered 12 ''HelloApp'' (tx_cnt1 (fst x)) (tx_buffer (fst x)) in
         Some ((fst x)\<lparr>tx_cnt1 := tx_cnt1 (fst x) + 1, tx_buffer := buf\<rparr>, du_do (TrSend (take 12 buf)) (snd x))))"

section \<open>The main program of the application core\<close>

record app_main =
  am_uart0_suspended :: bool
  am_uart1_suspended :: bool
  sem_rpc_tx :: bool
  sem_spi_txrx :: bool
  sem_raw_nrfx_txrx :: bool
  led_is_on :: bool
  am_led :: bool
  am_blinky :: bool

definition pm_switch :: "int \<Rightarrow> bool \<Rightarrow> bool" where
  "pm_switch err suspended = (if err \<noteq> 0 then suspended else \<not> suspended)"

definition set_device_pm_state :: "int \<Rightarrow> int \<Rightarrow> app_main \<Rightarrow> app_main" where
  "set_device_pm_state err1 err0 s =
     s\<lparr>am_uart1_suspended := pm_switch err1 (am_uart1_suspended s), am_uart0_suspended := pm_switch err0 (am_uart0_suspended s)\<rparr>"

text \<open>The masks of the three buttons are the lowest bits.\<close>

definition app_button_changed :: "bool \<Rightarrow> int \<Rightarrow> int \<Rightarrow> u32 \<Rightarrow> u32 \<Rightarrow> app_main \<Rightarrow> app_main" where
  "app_button_changed pm err1 err0 button_state has_changed s =
     (let buttons = and button_state has_changed;
          s1 = (if bit buttons 0 then s\<lparr>sem_rpc_tx := True\<rparr> else s);
          s2 = (if bit buttons 1 then s1\<lparr>sem_spi_txrx := True, sem_raw_nrfx_txrx := True\<rparr> else s1)
      in if bit buttons 2 \<and> pm then set_device_pm_state err1 err0 s2 else s2)"

definition blinky_work_fn :: "app_main \<Rightarrow> app_main" where
  "blinky_work_fn s = s\<lparr>am_led := led_is_on s, led_is_on := \<not> led_is_on s, am_blinky := True\<rparr>"

section \<open>The main program of the network core\<close>

datatype net_phase = WaitConnected | WaitButton | Debouncing

record net =
  nt_gpio :: bool
  nt_irq :: bool
  sem_nus_op :: bool
  ble_conn_ok :: bool
  nt_phase :: net_phase
  nt_cnt :: u8
  nt_data :: "u8 list"
  nt_sent :: "u8 list list"

record net_env =
  ne_bound :: bool
  ne_configure :: int
  ne_irq :: int
  ne_callback :: int

text \<open>An error of enabling the interrupt does not end the set-up.\<close>

definition setup_ext_int :: "net_env \<Rightarrow> net \<Rightarrow> net" where
  "setup_ext_int e s =
     (if \<not> ne_bound e then s
      else
        (let s1 = s\<lparr>nt_gpio := True\<rparr> in
         if ne_configure e \<noteq> 0 then s1 else if ne_irq e \<noteq> 0 then s1 else s1\<lparr>nt_irq := True\<rparr>))"

definition net_ext_int_isr :: "net \<Rightarrow> net" where
  "net_ext_int_isr s = s\<lparr>nt_irq := False, sem_nus_op := True\<rparr>"

text \<open>The thread from one place where it waits to the next.\<close>

definition ble_write_thread :: "net \<Rightarrow> net option" where
  "ble_write_thread s =
     (case nt_phase s of
        WaitConnected \<Rightarrow> Some (if ble_conn_ok s then s\<lparr>ble_conn_ok := False, nt_cnt := 0, nt_phase := WaitButton\<rparr> else s)
      | WaitButton \<Rightarrow>
          if \<not> sem_nus_op s then Some s
          else
            (let data = numbered 12 ''HelloNet'' (nt_cnt s) (nt_data s) in
             Some (s\<lparr>sem_nus_op := False, nt_cnt := nt_cnt s + 1, nt_data := data,
                     nt_sent := nt_sent s @ [take 12 data], nt_phase := Debouncing\<rparr>))
      | Debouncing \<Rightarrow> if \<not> nt_gpio s then None else Some (s\<lparr>nt_irq := True, nt_phase := WaitButton\<rparr>))"

text \<open>What \<open>main\<close> does, with the results of its calls; the rest of the trace depends on them.\<close>

datatype net_call = NetTrInit | NetConnCallbacks | NetBtEnable | NetSmpRegister | NetSettingsLoad | NetNusInit
  | NetAdvStart | NetSendAddr

record net_main_env =
  nm_simulate_uart :: bool
  nm_dfu :: bool
  nm_settings :: bool
  nm_remote_api :: bool
  nm_tr_init :: int
  nm_bt_enable :: int
  nm_nus_init :: int

definition net_main :: "net_main_env \<Rightarrow> net_call list" where
  "net_main e =
     (let cs = (if nm_simulate_uart e then [NetTrInit] else []) in
      if nm_simulate_uart e \<and> nm_tr_init e < 0 then cs
      else
        (let cs = cs @ [NetConnCallbacks, NetBtEnable] in
         if nm_bt_enable e \<noteq> 0 then cs
         else
           (let cs = cs @ (if nm_dfu e then [NetSmpRegister] else []) @ (if nm_settings e then [NetSettingsLoad] else []) @ [NetNusInit] in
            if nm_nus_init e \<noteq> 0 then cs
            else cs @ [NetAdvStart] @ (if nm_remote_api e then [NetSendAddr] else []))))"

section \<open>The voltages\<close>

lemma BATTERY_VOLTAGE_uint: "uint (BATTERY_VOLTAGE s) = (sint s * 3600) mod 2 ^ 32 div 4096"
proof -
  have m: "(of_int (sint s * 6) * 600 :: u32) = of_int (sint s * 3600)" by simp
  have "uint (of_int (sint s * 3600) :: u32) = (sint s * 3600) mod 2 ^ 32"
    by (simp only: uint_word_of_int_eq take_bit_eq_mod) simp
  then show ?thesis unfolding BATTERY_VOLTAGE_def m uint_div by simp
qed

text \<open>
  a sample from 0 to 4095 gives its voltage in millivolts, at most 3599; a negative sample, which
  an input near ground can give, is reported as more than a million.
\<close>

theorem adc_voltage_range:
  "(0 \<le> sint s \<and> sint s < 4096 \<longrightarrow> uint (BATTERY_VOLTAGE s) = sint s * 3600 div 4096 \<and> uint (BATTERY_VOLTAGE s) \<le> 3599)
   \<and> (sint s < 0 \<longrightarrow> 1019776 \<le> uint (BATTERY_VOLTAGE s))"
proof (intro conjI impI)
  assume s: "0 \<le> sint s \<and> sint s < 4096"
  then have "(sint s * 3600) mod 2 ^ 32 = sint s * 3600" by simp
  then show u: "uint (BATTERY_VOLTAGE s) = sint s * 3600 div 4096" by (simp add: BATTERY_VOLTAGE_uint)
  have "sint s * 3600 \<le> 4095 * 3600" using s by simp
  then have "sint s * 3600 div 4096 \<le> 4095 * 3600 div 4096" by (rule zdiv_mono1) simp
  then show "uint (BATTERY_VOLTAGE s) \<le> 3599" using u by simp
next
  assume s: "sint s < 0"
  have l: "- 32768 \<le> sint s" using sint_greater_eq [of s] by simp
  have "(sint s * 3600) mod 2 ^ 32 = (sint s * 3600 + 2 ^ 32) mod 2 ^ 32" by simp
  also have "\<dots> = sint s * 3600 + 2 ^ 32" using s l by (intro mod_pos_pos_trivial) simp_all
  finally have "uint (BATTERY_VOLTAGE s) = (sint s * 3600 + 2 ^ 32) div 4096" by (simp add: BATTERY_VOLTAGE_uint)
  moreover have "4177002496 div 4096 \<le> (sint s * 3600 + 2 ^ 32) div 4096"
    using l by (intro zdiv_mono1) simp_all
  ultimately show "1019776 \<le> uint (BATTERY_VOLTAGE s)" by simp
qed

section \<open>The asynchronous conversions\<close>

datatype adc_event = AdcWork int | AdcDone "16 word list"

fun adc_step :: "adc_event \<Rightarrow> adc \<Rightarrow> adc" where
  "adc_step (AdcWork err) s = adc_sample_async err s"
| "adc_step (AdcDone samples) s = conversion_done samples s"

lemma adc_work_twice:
  assumes "ad_signaled s" and "\<not> adc_async_read_pending s"
  shows "adc_step (AdcWork 0) (adc_step (AdcWork 0) s)
     = s\<lparr>ad_reads := ad_reads s @ [(\<not> calibrated s, True)], calibrated := True, ad_log := ad_log s @ map BATTERY_VOLTAGE (adc_buffer s)\<rparr>"
  using assms by (simp add: adc_sample_async_def adc_report_def Let_def)

text \<open>
  the signal is not reset, so once a conversion has been done every second work item logs what the buffer
  holds although none of the conversions asked for since has been done; before the first one nothing
  is logged.
\<close>

theorem adc_reports_stale:
  assumes "\<not> adc_async_read_pending s"
  shows "ad_log (fold adc_step (replicate (2 * n) (AdcWork 0)) s)
       = ad_log s @ (if ad_signaled s then concat (replicate n (map BATTERY_VOLTAGE (adc_buffer s))) else [])
     \<and> length (ad_reads (fold adc_step (replicate (2 * n) (AdcWork 0)) s))
       = length (ad_reads s) + (if ad_signaled s then n else min n 1)"
proof (cases "ad_signaled s")
  case True
  with assms show ?thesis
  proof (induction n arbitrary: s)
    case (Suc n)
    note w = adc_work_twice [OF Suc.prems(2,1)]
    have "fold adc_step (replicate (2 * Suc n) (AdcWork 0)) s
        = fold adc_step (replicate (2 * n) (AdcWork 0)) (adc_step (AdcWork 0) (adc_step (AdcWork 0) s))" by simp
    with Suc.IH [of "adc_step (AdcWork 0) (adc_step (AdcWork 0) s)"] Suc.prems show ?case unfolding w by simp
  qed simp
next
  case False
  have still: "fold adc_step (replicate k (AdcWork 0)) s = s" if "adc_async_read_pending s" "\<not> ad_signaled s" for k s
    using that by (induction k) (simp_all add: adc_sample_async_def)
  show ?thesis
  proof (cases n)
    case (Suc k)
    let ?s = "adc_step (AdcWork 0) s"
    have "fold adc_step (replicate (2 * n) (AdcWork 0)) s = fold adc_step (replicate (Suc (2 * k)) (AdcWork 0)) ?s"
      by (simp add: Suc)
    also have "\<dots> = ?s" by (rule still) (use assms False in \<open>simp_all add: adc_sample_async_def\<close>)
    finally show ?thesis using assms False Suc by (simp add: adc_sample_async_def)
  qed (use False in simp)
qed

section \<open>Counting the boots\<close>

definition counter_bytes :: "nat \<Rightarrow> u8 list option" where
  "counter_bytes n = (if n = 0 then None else Some (le32 (of_nat n)))"

text \<open>What the storages hold after \<open>a\<close> and \<open>b\<close> successful writes of the counters.\<close>

definition nvs_inv :: "nat \<Rightarrow> (nat \<Rightarrow> u8 list option) \<Rightarrow> bool" where
  "nvs_inv a m \<longleftrightarrow> m RBT_CNT_ID = counter_bytes a
     \<and> (\<forall>i d. m i = Some d \<longrightarrow> (i = KEY_ID \<and> length d = 8) \<or> (i = RBT_CNT_ID \<and> length d = 4))"

definition flash_inv :: "nat \<Rightarrow> nat \<Rightarrow> flash \<Rightarrow> bool" where
  "flash_inv a b s \<longleftrightarrow> nvs_inv a (fl_nvs s)
     \<and> distinct (map fst (fl_settings s))
     \<and> (\<forall>(n, d) \<in> set (fl_settings s). (n = ''alpha/boot_cnt'' \<and> length d = 4) \<or> (n = ''alpha/key'' \<and> length d = 8))
     \<and> map_of (fl_settings s) ''alpha/boot_cnt'' = counter_bytes b"

lemma load_reboot_cnt:
  assumes "distinct (map fst xs)"
    and "\<forall>(n, d) \<in> set xs. (n = ''alpha/boot_cnt'' \<and> length d = 4) \<or> (n = ''alpha/key'' \<and> length d = 8)"
  shows "fl_reboot_cnt (fold (\<lambda>(n, d) s. if take 6 n = ''alpha/'' then snd (alpha_handle_set (drop 6 n) d s) else s) xs s)
      = (case map_of xs ''alpha/boot_cnt'' of None \<Rightarrow> fl_reboot_cnt s | Some d \<Rightarrow> rd32 d)"
  using assms
proof (induction xs arbitrary: s)
  case (Cons x xs)
  obtain n d where x: "x = (n, d)" by (cases x)
  show ?case
  proof (cases "n = ''alpha/boot_cnt''")
    case True
    then have "map_of xs ''alpha/boot_cnt'' = None" using Cons.prems(1) x by (simp add: map_of_eq_None_iff)
    with Cons x True show ?thesis by (simp add: alpha_handle_set_def)
  next
    case False
    then have "n = ''alpha/key''" "length d = 8" using Cons.prems(2) x by auto
    with Cons x show ?thesis by (simp add: alpha_handle_set_def split: option.split)
  qed
qed simp

lemma load_keeps:
  "fl_settings (fold (\<lambda>(n, d) s. if take 6 n = ''alpha/'' then snd (alpha_handle_set (drop 6 n) d s) else s) xs s) = fl_settings s
   \<and> fl_nvs (fold (\<lambda>(n, d) s. if take 6 n = ''alpha/'' then snd (alpha_handle_set (drop 6 n) d s) else s) xs s) = fl_nvs s"
  by (induction xs arbitrary: s) (auto simp: alpha_handle_set_def split: if_splits)

lemma counter_rd: "(case counter_bytes n of None \<Rightarrow> 0 | Some d \<Rightarrow> rd32 d) = of_nat n"
  using rd32_le32 [of "of_nat n" "[]"] by (simp add: counter_bytes_def)

text \<open>
  What a boot makes of the numbers of boots that the storages hold: without its handler the settings'
  counter starts again.
\<close>

definition nvs_saves :: "flash_env \<Rightarrow> bool" where
  "nvs_saves e \<longleftrightarrow> fe_nvs_ok e \<and> fe_nvs_write_ok e RBT_CNT_ID"

definition settings_saves :: "flash_env \<Rightarrow> bool" where
  "settings_saves e \<longleftrightarrow> fe_subsys_init e = 0 \<and> fe_save_ok e ''alpha/boot_cnt''"

definition next_count :: "flash_env \<Rightarrow> nat \<Rightarrow> nat" where
  "next_count e b = (if \<not> settings_saves e then b else if fe_register e = 0 then Suc b else 1)"

definition loaded :: "flash_env \<Rightarrow> nat \<Rightarrow> nat" where
  "loaded e b = (if fe_register e = 0 then b else 0)"

lemma settings_load_inv:
  assumes "flash_inv a b s" and "fl_reboot_cnt s = 0"
  shows "fl_reboot_cnt (settings_load e s) = of_nat (loaded e b)" "fl_settings (settings_load e s) = fl_settings s"
    "fl_nvs (settings_load e s) = fl_nvs s"
proof -
  have "distinct (map fst (fl_settings s))" "map_of (fl_settings s) ''alpha/boot_cnt'' = counter_bytes b"
    "\<forall>(n, d) \<in> set (fl_settings s). (n = ''alpha/boot_cnt'' \<and> length d = 4) \<or> (n = ''alpha/key'' \<and> length d = 8)"
    using assms(1) unfolding flash_inv_def by blast+
  with load_reboot_cnt [OF this(1,3), of s] assms(2) counter_rd [of b]
  show "fl_reboot_cnt (settings_load e s) = of_nat (loaded e b)"
    by (cases "counter_bytes b") (simp_all add: settings_load_def loaded_def)
  show "fl_settings (settings_load e s) = fl_settings s" "fl_nvs (settings_load e s) = fl_nvs s"
    using load_keeps by (simp_all add: settings_load_def)
qed

lemma save_inv:
  assumes "flash_inv a b s"
  shows "length d = 8 \<Longrightarrow> flash_inv a b (settings_save_one e ''alpha/key'' d s)"
    and "flash_inv a (if fe_save_ok e ''alpha/boot_cnt'' then Suc c else b)
           (settings_save_one e ''alpha/boot_cnt'' (le32 (of_nat (Suc c))) s)"
proof -
  have i: "nvs_inv a (fl_nvs s)" "distinct (map fst (fl_settings s))"
    "map_of (fl_settings s) ''alpha/boot_cnt'' = counter_bytes b"
    "\<And>n d. (n, d) \<in> set (fl_settings s) \<Longrightarrow> (n = ''alpha/boot_cnt'' \<and> length d = 4) \<or> (n = ''alpha/key'' \<and> length d = 8)"
    using assms unfolding flash_inv_def by blast+
  have u: "(n, x) \<in> set (AList.update k d xs) \<Longrightarrow> (n = k \<and> x = d) \<or> (n, x) \<in> set xs" for n k :: string and x d :: "u8 list" and xs
    by (induction xs) (auto split: if_splits)
  show "flash_inv a b (settings_save_one e ''alpha/key'' d s)" if "length d = 8"
    using i that by (auto simp: flash_inv_def settings_save_one_def distinct_update update_conv' dest!: u)
  show "flash_inv a (if fe_save_ok e ''alpha/boot_cnt'' then Suc c else b)
           (settings_save_one e ''alpha/boot_cnt'' (le32 (of_nat (Suc c))) s)"
    using i by (auto simp: flash_inv_def settings_save_one_def distinct_update update_conv' counter_bytes_def
        simp del: of_nat_Suc dest!: u)
qed

lemma nvs_usage_init_inv:
  assumes "flash_inv a b s"
  shows "flash_inv (if nvs_saves e then Suc a else a) b (nvs_usage_init e s)"
    and "fl_reboot_cnt (nvs_usage_init e s) = fl_reboot_cnt s"
proof -
  have i: "fl_nvs s RBT_CNT_ID = counter_bytes a" "\<And>i d. fl_nvs s i = Some d \<Longrightarrow> (i = KEY_ID \<and> length d = 8) \<or> (i = RBT_CNT_ID \<and> length d = 4)"
    using assms by (auto simp: flash_inv_def nvs_inv_def)
  have other: "fl_nvs s i = None" if "i \<noteq> KEY_ID" "i \<noteq> RBT_CNT_ID" for i
    using i(2) [of i] that by (cases "fl_nvs s i") auto
  have "nvs_inv (if nvs_saves e then Suc a else a) (fl_nvs (nvs_usage_init e s))"
    using i counter_rd [of a] other
    by (auto simp: nvs_saves_def nvs_inv_def nvs_usage_init_def nvs_read_def nvs_write_def Let_def KEY_ID_def RBT_CNT_ID_def
        counter_bytes_def add.commute [of _ 1] split: option.splits if_splits)
  moreover have "fl_settings (nvs_usage_init e s) = fl_settings s"
    by (auto simp: nvs_usage_init_def nvs_write_def Let_def split: option.splits prod.splits)
  ultimately show "flash_inv (if nvs_saves e then Suc a else a) b (nvs_usage_init e s)"
    using assms by (simp add: flash_inv_def)
  show "fl_reboot_cnt (nvs_usage_init e s) = fl_reboot_cnt s"
    by (auto simp: nvs_usage_init_def nvs_write_def Let_def split: option.splits prod.splits)
qed

lemma settings_usage_init_inv:
  assumes "flash_inv a b s1" and "fl_reboot_cnt s1 = 0"
  shows "flash_inv a (next_count e b) (settings_usage_init e s1)"
proof (cases "fe_subsys_init e = 0")
  case True
  define s2 where "s2 = settings_load e s1"
  note l = settings_load_inv [OF assms, of e]
  have i2: "flash_inv a b s2" and c2: "fl_reboot_cnt s2 = of_nat (loaded e b)"
    using assms(1) l by (simp_all add: s2_def flash_inv_def)
  define s3 where "s3 = (if fl_reboot_cnt s2 = 0
      then settings_save_one e ''alpha/key'' [0x30, 0x31, 0x32, 0x33, 0x34, 0x35, 0x36, 0x37]
             (s2\<lparr>fl_key := [0x30, 0x31, 0x32, 0x33, 0x34, 0x35, 0x36, 0x37]\<rparr>) else s2)"
  have "flash_inv a b (s2\<lparr>fl_key := k\<rparr>)" for k using i2 by (simp add: flash_inv_def)
  then have "flash_inv a b s3" using i2 save_inv(1) by (simp add: s3_def)
  moreover have c3: "fl_reboot_cnt s3 = of_nat (loaded e b)" using c2 by (simp add: s3_def settings_save_one_def)
  ultimately have i3: "flash_inv a b (s3\<lparr>fl_reboot_cnt := of_nat (Suc (loaded e b))\<rparr>)" by (simp add: flash_inv_def)
  have "settings_usage_init e s1 = settings_save_one e ''alpha/boot_cnt'' (le32 (fl_reboot_cnt s3 + 1)) (s3\<lparr>fl_reboot_cnt := fl_reboot_cnt s3 + 1\<rparr>)"
    using True unfolding settings_usage_init_def Let_def s2_def [symmetric] s3_def [symmetric] by simp
  then have "settings_usage_init e s1 = settings_save_one e ''alpha/boot_cnt'' (le32 (of_nat (Suc (loaded e b))))
      (s3\<lparr>fl_reboot_cnt := of_nat (Suc (loaded e b))\<rparr>)"
    by (simp add: c3 add.commute)
  with save_inv(2) [OF i3, of e "loaded e b"] True show ?thesis
    by (simp add: next_count_def settings_saves_def loaded_def split: if_splits)
qed (use assms in \<open>simp add: settings_usage_init_def next_count_def settings_saves_def\<close>)

lemma flash_thread_inv:
  assumes "flash_inv a b s"
  shows "flash_inv (if nvs_saves e then Suc a else a) (next_count e b) (flash_thread e s)"
proof -
  let ?s0 = "s\<lparr>fl_reboot_cnt := 0, fl_key := replicate 8 0, fl_nvs_log := None, fl_writes := []\<rparr>"
  have "flash_inv a b ?s0" using assms by (simp add: flash_inv_def)
  from settings_usage_init_inv [OF nvs_usage_init_inv(1) [OF this]] nvs_usage_init_inv(2) [OF this]
  show ?thesis by (simp add: flash_thread_def)
qed

definition flash_empty :: flash where
  "flash_empty = \<lparr>fl_nvs = (\<lambda>i. None), fl_settings = [], fl_reboot_cnt = 0, fl_key = [], fl_nvs_log = None, fl_writes = []\<rparr>"


section \<open>Reading the memory over I2C\<close>

text \<open>A slave that answers with its memory from the address it was sent.\<close>

definition slave_ok :: "iic_env \<Rightarrow> u8 list \<Rightarrow> bool" where
  "slave_ok e mem \<longleftrightarrow> (\<forall>a n. ie_write e (addr_bytes a) = 0 \<and> ie_read e (addr_bytes a) n = (0, take n (drop (unat a) mem)))"

lemma eeprom_loop_slave:
  assumes "slave_ok e mem" and "k \<le> 20"
  shows "eeprom_loop e (of_nat (16 * k)) dumps = (True, dumps @ map (\<lambda>j. take 16 (drop (16 * j) mem)) [k..<20])"
  using assms(2)
proof (induction "20 - k" arbitrary: k dumps)
  case 0
  then have "k = 20" by simp
  then show ?case by (subst eeprom_loop.simps) (simp add: EEPROM_SIM_SIZE_def)
next
  case (Suc m)
  then have k: "k < 20" by simp
  then have u: "unat (of_nat (16 * k) :: u16) = 16 * k" by (intro unat_of_nat_u16) simp
  have n: "of_nat (16 * k) + of_nat 16 = (of_nat (16 * Suc k) :: u16)" by simp
  have w: "eeprom_read e (of_nat (16 * k)) 16 = (0, take 16 (drop (16 * k) mem))"
    using assms(1) u by (simp add: eeprom_read_def slave_ok_def EEPROM_SIM_SIZE_def)
  have "eeprom_loop e (of_nat (16 * k)) dumps = eeprom_loop e (of_nat (16 * Suc k)) (dumps @ [take 16 (drop (16 * k) mem)])"
    unfolding eeprom_loop.simps [of e "of_nat (16 * k)"] u IN_LINE_PRINT_CNT_def w n
    using k by (simp add: EEPROM_SIM_SIZE_def)
  also have "\<dots> = (True, (dumps @ [take 16 (drop (16 * k) mem)]) @ map (\<lambda>j. take 16 (drop (16 * j) mem)) [Suc k..<20])"
    by (rule Suc.hyps(1)) (use Suc.hyps(2) k in simp_all)
  finally show ?case using k by (simp add: upt_conv_Cons)
qed

lemma concat_chunks: "length mem = 16 * n \<Longrightarrow> concat (map (\<lambda>j. take 16 (drop (16 * j) mem)) [0..<n]) = mem"
proof (induction n arbitrary: mem)
  case (Suc n)
  have "[0..<Suc n] = 0 # map Suc [0..<n]" by (simp add: map_Suc_upt upt_conv_Cons)
  then have "concat (map (\<lambda>j. take 16 (drop (16 * j) mem)) [0..<Suc n])
      = take 16 mem @ concat (map (\<lambda>j. take 16 (drop (16 * j) (drop 16 mem))) [0..<n])"
    by (simp add: comp_def add.commute)
  also have "\<dots> = take 16 mem @ drop 16 mem" using Suc.IH [of "drop 16 mem"] Suc.prems by simp
  finally show ?case by simp
qed simp

text \<open>
  from a slave that answers every request the whole memory of 320 bytes is read, in order, in 20 pieces; when
  the slave does not answer, nothing is read.
\<close>

theorem eeprom_dump_complete:
  assumes "slave_ok e mem" and "length mem = EEPROM_SIM_SIZE"
  shows "(\<exists>ds. eeprom_cmd_read e = (True, ds) \<and> concat ds = mem \<and> length ds = 20)
     \<and> (\<forall>e'. (\<forall>b. ie_write e' b \<noteq> 0) \<longrightarrow> eeprom_cmd_read e' = (False, []))"
proof -
  define ds where "ds = map (\<lambda>j. take 16 (drop (16 * j) mem)) [0..<20]"
  have "concat ds = mem" unfolding ds_def
    by (rule concat_chunks) (simp add: assms(2) EEPROM_SIM_SIZE_def)
  moreover have "eeprom_cmd_read e = (True, ds)"
    using eeprom_loop_slave [OF assms(1), of 0 "[]"] unfolding ds_def [symmetric] by (simp add: eeprom_cmd_read_def)
  moreover have "length ds = 20" unfolding ds_def length_map length_upt by simp
  moreover have "eeprom_cmd_read e' = (False, [])" if "\<And>b. ie_write e' b \<noteq> 0" for e'
    using that by (simp add: eeprom_cmd_read_def eeprom_loop.simps [of e' 0] eeprom_read_def EEPROM_SIM_SIZE_def IN_LINE_PRINT_CNT_def)
  ultimately show ?thesis by blast
qed

section \<open>Numbered messages\<close>

definition digit :: "char \<Rightarrow> bool" where
  "digit c \<longleftrightarrow> c \<in> set ''0123456789''"

lemma digit_char: "d < 10 \<Longrightarrow> digit (char_of (48 + d :: nat))"
proof -
  assume "d < 10"
  then have "d = 0 \<or> d = 1 \<or> d = 2 \<or> d = 3 \<or> d = 4 \<or> d = 5 \<or> d = 6 \<or> d = 7 \<or> d = 8 \<or> d = 9" by presburger
  then show ?thesis by (elim disjE) (simp_all add: char_of_def digit_def bit_0)
qed

lemma dec_digits: "c \<in> set (dec n) \<Longrightarrow> digit c"
proof (induction n rule: dec.induct)
  case (1 n)
  then show ?case using digit_char [of "n mod 10"] digit_char [of n]
    by (cases "n < 10") (auto simp: dec.simps [of n])
qed

lemma digit_bytes: "digit c \<Longrightarrow> (of_char c :: u8) \<noteq> 0"
  by (auto simp: of_char_def digit_def)

text \<open>What the receiver reads of a message of \<open>n\<close> bytes: the text up to the first zero.\<close>

definition c_string :: "u8 list \<Rightarrow> u8 list" where
  "c_string b = takeWhile (\<lambda>x. x \<noteq> 0) b"

lemma c_string_append: "0 \<notin> set t \<Longrightarrow> c_string (t @ 0 # r) = t"
proof -
  assume "0 \<notin> set t"
  then have "\<And>x. x \<in> set t \<Longrightarrow> x \<noteq> 0" by auto
  then show ?thesis unfolding c_string_def by (subst takeWhile_append2) simp_all
qed

lemma update_after:
  assumes "length t \<le> m"
  shows "\<exists>r'. (t @ 0 # r)[m := 0] = t @ (0 :: u8) # r'"
proof (cases "m = length t")
  case False
  with assms have "m - length t = Suc (m - length t - 1)" by simp
  then show ?thesis using assms by (metis list_update_append list_update_code(3) not_le)
qed (simp add: list_update_append)

lemma numbered_text:
  assumes "list_all (\<lambda>c. (of_char c :: u8) \<noteq> 0) prefix" and "1 < n"
  shows "c_string (take n (numbered n prefix cnt buf)) = bytes_of (take (n - 1) (prefix @ dec (unat cnt)))"
proof -
  define t where "t = bytes_of (take (n - 1) (prefix @ dec (unat cnt)))"
  have "0 \<notin> set t"
  proof
    assume "0 \<in> set t"
    then obtain c where c: "(of_char c :: u8) = 0" "c \<in> set prefix \<union> set (dec (unat cnt))"
      using set_take_subset [of "n - 1" "prefix @ dec (unat cnt)"] by (auto simp: bytes_of_def t_def)
    then show False using assms(1) dec_digits [of c "unat cnt"] digit_bytes [of c] by (auto simp: list_all_iff)
  qed
  moreover have len: "length t \<le> n - 1" by (simp add: bytes_of_def t_def)
  obtain r where r: "numbered n prefix cnt buf = t @ 0 # r"
    using update_after [OF len] by (auto simp: numbered_def snprintf_into_def Let_def t_def)
  have "take n (t @ 0 # r) = t @ 0 # take (n - 1 - length t) r" using len assms(2) by (simp add: take_Cons')
  ultimately show ?thesis unfolding r t_def [symmetric] using c_string_append by simp
qed

lemma prefixes_ascii [simp]:
  "list_all (\<lambda>c. (of_char c :: u8) \<noteq> 0) ''HelloApp''" "list_all (\<lambda>c. (of_char c :: u8) \<noteq> 0) ''HelloNet''"
  "list_all (\<lambda>c. (of_char c :: u8) \<noteq> 0) ''RPC_app_''"
  by (simp_all add: of_char_def)

lemma dec_u8_length: "length (dec (unat (c :: u8))) \<le> 3"
proof (rule length_dec_le)
  have "unat c < 2 ^ 8" using unsigned_less [of c, where ?'a = nat] by simp
  then show "unat c < 10 ^ 3" by simp
qed simp

lemma hello_text:
  "c_string (take 12 (numbered 12 ''HelloApp'' c buf)) = bytes_of (''HelloApp'' @ dec (unat c))"
  "c_string (take 12 (numbered 12 ''HelloNet'' c buf)) = bytes_of (''HelloNet'' @ dec (unat c))"
  using dec_u8_length [of c] by (simp_all add: numbered_text)

text \<open>
  the first sender's messages carry its whole counter, but the second's buffer ends after one digit: it sends
  the same text for all counters with the same first digit.
\<close>

theorem sender_messages:
  assumes "cbor_ok cb holds" and "delivers tr" and "int_range (re_nus_send e (take 10 (numbered 10 ''RPC_app_'' (tx_cnt2 t) stack)))"
    and "length stack = 20"
  shows "c_string (take 12 (numbered 12 ''HelloApp'' (tx_cnt1 t) (tx_buffer t))) = bytes_of (''HelloApp'' @ dec (unat (tx_cnt1 t)))
     \<and> (\<exists>d. app2net_tx2 stack cb tr e (t, s) = Some (t\<lparr>tx_cnt2 := tx_cnt2 t + 1\<rparr>, du_do (NusSend d) s)
        \<and> length d = 10 \<and> c_string d = bytes_of (''RPC_app_'' @ take 1 (dec (unat (tx_cnt2 t)))))"
proof -
  let ?d = "take 10 (numbered 10 ''RPC_app_'' (tx_cnt2 t) stack)"
  have len: "length ?d = 10" using assms(4) by (simp add: numbered_def snprintf_into_def bytes_of_def Let_def)
  then have "app2net_send_nus cb tr e (Some ?d) s = Some (re_nus_send e ?d, du_do (NusSend ?d) s)"
    using app2net_nus_outcome [OF assms(1,2) _ assms(3)] by (cases ?d) auto
  then have "app2net_tx2 stack cb tr e (t, s) = Some (t\<lparr>tx_cnt2 := tx_cnt2 t + 1\<rparr>, du_do (NusSend ?d) s)"
    by (simp add: app2net_tx2_def Let_def)
  moreover have "c_string ?d = bytes_of (''RPC_app_'' @ take 1 (dec (unat (tx_cnt2 t))))"
    by (subst numbered_text) simp_all
  ultimately show ?thesis using len hello_text(1) by blast
qed

section \<open>The buttons\<close>

datatype net_event = ButtonPress | BtConnected | WriteTurn

text \<open>With the number of presses that the interrupt has taken.\<close>

fun net_step :: "net_event \<Rightarrow> net \<times> nat \<Rightarrow> (net \<times> nat) option" where
  "net_step ButtonPress (s, p) = Some (if nt_irq s then (net_ext_int_isr s, Suc p) else (s, p))"
| "net_step BtConnected (s, p) = Some (s\<lparr>ble_conn_ok := True\<rparr>, p)"
| "net_step WriteTurn (s, p) = map_option (\<lambda>s1. (s1, p)) (ble_write_thread s)"

definition net_texts :: "net \<Rightarrow> bool" where
  "net_texts s \<longleftrightarrow> (\<forall>k < length (nt_sent s). c_string (nt_sent s ! k) = bytes_of (''HelloNet'' @ dec (k mod 256)))
     \<and> nt_cnt s = of_nat (length (nt_sent s)) \<and> (nt_phase s = WaitConnected \<longrightarrow> nt_sent s = [])"

definition net_inv :: "net \<times> nat \<Rightarrow> bool" where
  "net_inv x \<longleftrightarrow> (case x of (s, p) \<Rightarrow> nt_gpio s \<and> net_texts s
     \<and> ((nt_irq s \<and> \<not> sem_nus_op s \<and> nt_phase s \<noteq> Debouncing \<and> p = length (nt_sent s))
      \<or> (\<not> nt_irq s \<and> sem_nus_op s \<and> nt_phase s \<noteq> Debouncing \<and> p = Suc (length (nt_sent s)))
      \<or> (\<not> nt_irq s \<and> \<not> sem_nus_op s \<and> nt_phase s = Debouncing \<and> p = length (nt_sent s))))"

lemma net_texts_send:
  assumes "net_texts s" and "nt_phase s = WaitButton"
  defines "data \<equiv> numbered 12 ''HelloNet'' (nt_cnt s) (nt_data s)"
  shows "net_texts (s\<lparr>sem_nus_op := False, nt_cnt := nt_cnt s + 1, nt_data := data,
           nt_sent := nt_sent s @ [take 12 data], nt_phase := Debouncing\<rparr>)"
proof -
  have "unat (of_nat k :: u8) = k mod 256" for k by (simp add: unsigned_of_nat take_bit_eq_mod)
  then have "c_string (take 12 data) = bytes_of (''HelloNet'' @ dec (length (nt_sent s) mod 256))"
    using assms(1) hello_text(2) by (simp add: data_def net_texts_def)
  then show ?thesis using assms(1) by (auto simp: net_texts_def nth_append less_Suc_eq add.commute)
qed

interpretation net_button: machine net_step "\<lambda>ev x. True" net_inv
proof unfold_locales
  fix ev x
  assume i: "net_inv x"
  obtain s p where x: "x = (s, p)" by (cases x)
  show "\<exists>x'. net_step ev x = Some x' \<and> net_inv x'"
  proof (cases ev)
    case ButtonPress
    then show ?thesis using i x by (auto simp: net_inv_def net_ext_int_isr_def net_texts_def)
  next
    case BtConnected
    then show ?thesis using i x by (auto simp: net_inv_def net_texts_def)
  next
    case WriteTurn
    show ?thesis
    proof (cases "nt_phase s")
      case WaitConnected
      then show ?thesis using i x WriteTurn by (auto simp: net_inv_def ble_write_thread_def net_texts_def)
    next
      case WaitButton
      have "net_texts s" using i x by (simp add: net_inv_def)
      from net_texts_send [OF this WaitButton] show ?thesis
        using i x WriteTurn WaitButton by (auto simp: net_inv_def ble_write_thread_def Let_def)
    next
      case Debouncing
      then show ?thesis using i x WriteTurn by (auto simp: net_inv_def ble_write_thread_def net_texts_def)
    qed
  qed
qed

definition net_start :: net where
  "net_start = \<lparr>nt_gpio = False, nt_irq = False, sem_nus_op = False, ble_conn_ok = False, nt_phase = WaitConnected,
     nt_cnt = 0, nt_data = replicate 20 0, nt_sent = []\<rparr>"

text \<open>
  in every run after a successful set-up each press that the interrupt takes leads to one notification, the
  \<open>k\<close>-th with the text "HelloNet" and \<open>k\<close> modulo 256; until it has been sent and the time for
  bouncing has passed, the interrupt is off and no other press is taken.
\<close>

theorem button_sends_one:
  assumes "ne_bound e" and "ne_configure e = 0" and "ne_irq e = 0"
  shows "\<exists>s p. run net_step evs (setup_ext_int e net_start, 0) = Some (s, p)
     \<and> p = length (nt_sent s) + (if sem_nus_op s then 1 else 0)
     \<and> (nt_irq s \<longleftrightarrow> \<not> sem_nus_op s \<and> nt_phase s \<noteq> Debouncing)
     \<and> (\<forall>k < length (nt_sent s). c_string (nt_sent s ! k) = bytes_of (''HelloNet'' @ dec (k mod 256)))"
proof -
  have "net_inv (setup_ext_int e net_start, 0)"
    using assms by (simp add: net_inv_def setup_ext_int_def net_start_def net_texts_def)
  from net_button.run_inv_always [OF TrueI this, of evs] obtain s p
    where "run net_step evs (setup_ext_int e net_start, 0) = Some (s, p)" "net_inv (s, p)" by auto
  then show ?thesis by (auto simp: net_inv_def net_texts_def)
qed

datatype iic_event = IicPress | IicTurn

definition iic_step :: "iic_env \<Rightarrow> iic_event \<Rightarrow> iic \<Rightarrow> iic option" where
  "iic_step e ev s = (case ev of IicPress \<Rightarrow> Some (if ii_irq s then iic_ext_int_isr s else s) | IicTurn \<Rightarrow> iic_thread_turn e s)"

interpretation iic_pin: machine "iic_step e" "\<lambda>ev s. True" "\<lambda>s. ii_irq s \<or> ii_sem s \<or> ii_looping s \<longrightarrow> ii_gpio s" for e
  by unfold_locales (auto simp: iic_step_def iic_ext_int_isr_def iic_thread_turn_def split: iic_event.splits)

definition iic_start :: iic where
  "iic_start = \<lparr>ii_gpio = False, ii_irq = False, ii_sem = False, ii_looping = False, ii_dumps = []\<rparr>"

text \<open>C0: whatever the set-up of the pin returns, no run of the I2C thread and its interrupt configures a pin that is not bound.\<close>

theorem iic_pin_bound:
  "run (iic_step e) evs (config_io_interrupt bound err1 err2 iic_start) \<noteq> None"
proof -
  let ?s = "config_io_interrupt bound err1 err2 iic_start"
  have "ii_irq ?s \<or> ii_sem ?s \<or> ii_looping ?s \<longrightarrow> ii_gpio ?s"
    by (simp add: config_io_interrupt_def iic_start_def Let_def)
  from iic_pin.run_inv_always [OF TrueI this, of e evs] show ?thesis by blast
qed

section \<open>Witnesses\<close>

theorem adc_voltage_range_witness:
  "uint (BATTERY_VOLTAGE 4095) = 3599 \<and> 1019776 \<le> uint (BATTERY_VOLTAGE (- 1))"
  using adc_voltage_range [of 4095] adc_voltage_range [of "- 1"] by simp

definition demo_adc :: adc where
  "demo_adc = \<lparr>adc_buffer = [1000, 2000], adc_async_read_pending = False, calibrated = True, ad_signaled = True, ad_reads = [], ad_log = []\<rparr>"

theorem adc_reports_stale_witness:
  "length (ad_log (fold adc_step (replicate (2 * 3) (AdcWork 0)) demo_adc)) = 6"
  using adc_reports_stale [of demo_adc 3] by (simp add: demo_adc_def eval_nat_numeral)

definition demo_flash_env :: "bool \<Rightarrow> flash_env" where
  "demo_flash_env ok = \<lparr>fe_nvs_ok = True, fe_nvs_write_ok = (\<lambda>i. True), fe_subsys_init = 0, fe_register = 0,
     fe_save_ok = (\<lambda>n. ok)\<rparr>"


theorem eeprom_dump_complete_witness:
  "\<exists>e ds. eeprom_cmd_read e = (True, ds) \<and> concat ds = replicate 320 7"
proof -
  let ?e = "\<lparr>ie_write = (\<lambda>b. 0), ie_read = (\<lambda>b n. (0, take n (drop (unat (or (ucast (b ! 0)) (push_bit 8 (ucast (b ! 1))) :: u16)) (replicate 320 7))))\<rparr>"
  have "or (ucast (ucast a :: u8)) (push_bit 8 (ucast (ucast (drop_bit 8 a) :: u8))) = (a :: u16)" for a
    by (rule bit_word_eqI) (auto simp: bit_simps)
  then have "slave_ok ?e (replicate 320 7)" by (simp add: slave_ok_def addr_bytes_def)
  from eeprom_dump_complete [OF this] show ?thesis by (auto simp: EEPROM_SIM_SIZE_def)
qed

theorem sender_messages_witness:
  "\<exists>d. app2net_tx2 (replicate 20 1) demo_cbor demo_transport demo_duo_env (\<lparr>tx_cnt1 = 0, tx_cnt2 = 17, tx_buffer = replicate 64 0\<rparr>, demo_duo)
       = Some (\<lparr>tx_cnt1 = 0, tx_cnt2 = 18, tx_buffer = replicate 64 0\<rparr>, du_do (NusSend d) demo_duo)
     \<and> c_string d = bytes_of ''RPC_app_1''"
  using sender_messages [OF demo_cbor_ok demo_delivers, of demo_duo_env "\<lparr>tx_cnt1 = 0, tx_cnt2 = 17, tx_buffer = replicate 64 0\<rparr>" "replicate 20 1" demo_duo]
  by (auto simp: demo_duo_env_def int_range_def dec.simps char_of_def bit_0)

theorem button_sends_one_witness:
  "\<exists>s p. run net_step [BtConnected, WriteTurn, ButtonPress, ButtonPress, WriteTurn, WriteTurn, ButtonPress]
       (setup_ext_int \<lparr>ne_bound = True, ne_configure = 0, ne_irq = 0, ne_callback = 0\<rparr> net_start, 0) = Some (s, p)
     \<and> p = length (nt_sent s) + (if sem_nus_op s then 1 else 0)"
  using button_sends_one [of "\<lparr>ne_bound = True, ne_configure = 0, ne_irq = 0, ne_callback = 0\<rparr>"
      "[BtConnected, WriteTurn, ButtonPress, ButtonPress, WriteTurn, WriteTurn, ButtonPress]"] by auto
end
