(* ===== verification/CentralHr.thy ===== *)
theory CentralHr
  imports Prelude Machine
begin

text \<open>
  The program that is a central of ten battery services and a heart rate peripheral at once
  (\<open>app/ble/bluetooth_central_bas_peripheral_hr_10/src\<close>: \<open>main.c\<close> and \<open>app_hr.c\<close>).

  The two tables of connections are lists of ten addresses, 0 for \<open>NULL\<close>. \<open>hr_refs\<close> counts the references
  the program holds on a connection; giving back one it does not hold is \<open>None\<close>. The Bluetooth stack
  sends events with the results of the calls the handlers make; \<open>hr_scanning\<close> and \<open>hr_attempt\<close> are the
  stack's: whether it scans, and the connection it is trying to make as a central.
\<close>

section \<open>State\<close>

definition NUM_CONN_MAX :: nat where "NUM_CONN_MAX = 10"

datatype hr_call = DmStart nat | SetSecurity ptr | ReadBattery nat | HrsNotify u8 | BasSet u8

record hr10 =
  curr_conn :: "ptr list"
  hr_curr_conn :: "ptr list"
  hr_refs :: "ptr \<Rightarrow> nat"
  hr_scanning :: bool
  hr_attempt :: "ptr option"
  heartrate :: u8
  battery_level :: u8
  hr_calls :: "hr_call list"

definition hr_do :: "hr_call \<Rightarrow> hr10 \<Rightarrow> hr10" where
  "hr_do c s = s\<lparr>hr_calls := hr_calls s @ [c]\<rparr>"

definition hr_ref :: "ptr \<Rightarrow> hr10 \<Rightarrow> hr10" where
  "hr_ref c s = s\<lparr>hr_refs := (hr_refs s)(c := Suc (hr_refs s c))\<rparr>"

definition hr_unref :: "ptr \<Rightarrow> hr10 \<Rightarrow> hr10 option" where
  "hr_unref c s = (if hr_refs s c = 0 then None else Some (s\<lparr>hr_refs := (hr_refs s)(c := hr_refs s c - 1)\<rparr>))"

section \<open>The table of connections\<close>

text \<open>\<open>find_curr_conn\<close> of both files: the first slot that holds \<open>c\<close>; with \<open>NULL\<close> the first free one.\<close>

fun find_curr_conn :: "ptr \<Rightarrow> ptr list \<Rightarrow> nat option" where
  "find_curr_conn c [] = None"
| "find_curr_conn c (x # xs) = (if x = c then Some 0 else map_option Suc (find_curr_conn c xs))"

definition find_bas_client :: "ptr \<Rightarrow> hr10 \<Rightarrow> nat option" where
  "find_bas_client c s = (if c = 0 then None else find_curr_conn c (curr_conn s))"

text \<open>\<open>res\<close> is the result of \<open>bt_scan_start\<close>.\<close>

definition hr_scan_start :: "int \<Rightarrow> hr10 \<Rightarrow> hr10" where
  "hr_scan_start res s = (if res \<noteq> 0 then s else s\<lparr>hr_scanning := True\<rparr>)"

definition scan_connecting :: "ptr \<Rightarrow> hr10 \<Rightarrow> hr10" where
  "scan_connecting c s =
     (case find_curr_conn 0 (curr_conn s) of
        None \<Rightarrow> s | Some i \<Rightarrow> (hr_ref c s)\<lparr>curr_conn := (curr_conn s)[i := c]\<rparr>)"

text \<open>
  An advertisement that no filter matches: for a directed one with a free slot the scan is stopped and
  a connection created, which \<open>bt_conn_le_create\<close> returns with a reference. \<open>created\<close> is \<open>None\<close> when that fails.
\<close>

definition scan_filter_no_match :: "bool \<Rightarrow> ptr option \<Rightarrow> hr10 \<Rightarrow> hr10 option" where
  "scan_filter_no_match directed created s =
     (if \<not> directed then Some s
      else case find_curr_conn 0 (curr_conn s) of
        None \<Rightarrow> Some s
      | Some i \<Rightarrow>
          (let s1 = s\<lparr>hr_scanning := False\<rparr> in
           case created of
             None \<Rightarrow> Some s1
           | Some c \<Rightarrow>
               (let s2 = (hr_ref c s1)\<lparr>hr_attempt := Some c\<rparr>;
                    s3 = (hr_ref c s2)\<lparr>curr_conn := (curr_conn s2)[i := c]\<rparr>
                in hr_unref c s3)))"

definition hr_gatt_discover :: "ptr \<Rightarrow> hr10 \<Rightarrow> hr10" where
  "hr_gatt_discover c s =
     (case find_curr_conn c (curr_conn s) of
        None \<Rightarrow> s
      | Some i \<Rightarrow> (case find_bas_client c s of None \<Rightarrow> s | Some j \<Rightarrow> hr_do (DmStart j) s))"

section \<open>The peripheral\<close>

definition bt_hr_connected :: "ptr \<Rightarrow> int \<Rightarrow> hr10 \<Rightarrow> hr10" where
  "bt_hr_connected c err s =
     (if err \<noteq> 0 then s
      else case find_curr_conn 0 (hr_curr_conn s) of
        None \<Rightarrow> s | Some i \<Rightarrow> (hr_ref c s)\<lparr>hr_curr_conn := (hr_curr_conn s)[i := c]\<rparr>)"

definition bt_hr_disconnected :: "ptr \<Rightarrow> hr10 \<Rightarrow> hr10 option" where
  "bt_hr_disconnected c s =
     (case find_curr_conn c (hr_curr_conn s) of
        None \<Rightarrow> Some s
      | Some i \<Rightarrow> map_option (\<lambda>s1. s1\<lparr>hr_curr_conn := (hr_curr_conn s1)[i := 0]\<rparr>) (hr_unref (hr_curr_conn s ! i) s))"

definition hr_bas_notify :: "hr10 \<Rightarrow> hr10" where
  "hr_bas_notify s =
     (let l = battery_level s - 1; l = (if l = 0 then 100 else l) in hr_do (BasSet l) (s\<lparr>battery_level := l\<rparr>))"

definition hr_hrs_notify :: "hr10 \<Rightarrow> hr10" where
  "hr_hrs_notify s =
     (let h = heartrate s + 1; h = (if h = 160 then 90 else h) in hr_do (HrsNotify h) (s\<lparr>heartrate := h\<rparr>))"

definition bt_hr_main_loop :: "hr10 \<Rightarrow> hr10" where
  "bt_hr_main_loop s = hr_bas_notify (hr_hrs_notify s)"

section \<open>Connections\<close>

text \<open>What the handlers get from the stack about a connection: \<open>bt_conn_get_info\<close>'s result and role, and the results of their calls.\<close>

record hr_conn_info =
  ci_err :: int
  ci_slave :: bool
  ci_security :: int
  ci_scan :: int

definition hr_connected :: "hr_conn_info \<Rightarrow> ptr \<Rightarrow> int \<Rightarrow> hr10 \<Rightarrow> hr10 option" where
  "hr_connected r c conn_err s =
     (if ci_err r \<noteq> 0 then Some s
      else if ci_slave r then Some (bt_hr_connected c conn_err s)
      else if conn_err \<noteq> 0 then
        (case find_curr_conn c (curr_conn s) of
           None \<Rightarrow> Some s
         | Some i \<Rightarrow> map_option (\<lambda>s1. hr_scan_start (ci_scan r) (s1\<lparr>curr_conn := (curr_conn s1)[i := 0]\<rparr>)) (hr_unref (curr_conn s ! i) s))
      else
        (let s1 = hr_do (SetSecurity c) s;
             s2 = (if ci_security r \<noteq> 0 then hr_gatt_discover c s1 else s1)
         in Some (case find_curr_conn 0 (curr_conn s2) of None \<Rightarrow> s2 | Some i \<Rightarrow> hr_scan_start (ci_scan r) s2)))"

definition hr_disconnected :: "hr_conn_info \<Rightarrow> ptr \<Rightarrow> hr10 \<Rightarrow> hr10 option" where
  "hr_disconnected r c s =
     (if ci_err r \<noteq> 0 then Some s
      else if ci_slave r then bt_hr_disconnected c s
      else map_option (hr_scan_start (ci_scan r))
        (case find_curr_conn c (curr_conn s) of
           None \<Rightarrow> Some s
         | Some i \<Rightarrow> map_option (\<lambda>s1. s1\<lparr>curr_conn := (curr_conn s1)[i := 0]\<rparr>) (hr_unref (curr_conn s ! i) s)))"

definition hr_security_changed :: "ptr \<Rightarrow> hr10 \<Rightarrow> hr10" where
  "hr_security_changed c s = hr_gatt_discover c s"

definition button_readval :: "hr10 \<Rightarrow> hr10" where
  "button_readval s =
     fold (\<lambda>i s. if curr_conn s ! i \<noteq> 0 then hr_do (ReadBattery i) s else s) [0..<NUM_CONN_MAX] s"

definition hr_button_handler :: "u32 \<Rightarrow> u32 \<Rightarrow> hr10 \<Rightarrow> hr10" where
  "hr_button_handler button_state has_changed s = (if bit (and button_state has_changed) 0 then button_readval s else s)"

section \<open>Events\<close>

text \<open>
  \<open>Matched\<close> is a filter match: the scan library stops the scan and connects (\<open>None\<close> when that fails, of which
  the handler only prints a line).
\<close>

datatype hr_event =
    Matched "ptr option" | NotMatched bool "ptr option" | HrConn hr_conn_info ptr int | HrDisc hr_conn_info ptr
  | HrSecurity ptr | HrButton u32 u32 | HrTick

definition hr_step :: "hr_event \<Rightarrow> hr10 \<Rightarrow> hr10 option" where
  "hr_step ev s =
     (case ev of
        Matched created \<Rightarrow>
          (let s1 = s\<lparr>hr_scanning := False\<rparr> in
           Some (case created of None \<Rightarrow> s1 | Some c \<Rightarrow> scan_connecting c (s1\<lparr>hr_attempt := Some c\<rparr>)))
      | NotMatched directed created \<Rightarrow> scan_filter_no_match directed created s
      | HrConn r c err \<Rightarrow> hr_connected r c err (if ci_slave r then s else s\<lparr>hr_attempt := None\<rparr>)
      | HrDisc r c \<Rightarrow> hr_disconnected r c s
      | HrSecurity c \<Rightarrow> Some (hr_security_changed c s)
      | HrButton a b \<Rightarrow> Some (hr_button_handler a b s)
      | HrTick \<Rightarrow> Some (bt_hr_main_loop s))"

section \<open>References\<close>

lemma find_curr_conn_Some: "find_curr_conn c xs = Some i \<Longrightarrow> i < length xs \<and> xs ! i = c"
  by (induction xs arbitrary: i) (auto split: if_splits)

lemma find_curr_conn_None: "find_curr_conn c xs = None \<longleftrightarrow> c \<notin> set xs"
  by (induction xs) auto

lemma count_list_update:
  "i < length xs \<Longrightarrow> count_list (xs[i := y]) c + (if xs ! i = c then 1 else 0) = count_list xs c + (if y = c then 1 else 0)"
proof (induction xs arbitrary: i)
  case (Cons a xs)
  show ?case
  proof (cases i)
    case (Suc j)
    then show ?thesis using Cons.IH [of j] Cons.prems by (simp split: if_splits)
  qed simp
qed simp

lemma count_list_free: "i < length xs \<Longrightarrow> xs ! i = 0 \<Longrightarrow> y \<noteq> 0 \<Longrightarrow> c \<noteq> 0 \<Longrightarrow>
    count_list (xs[i := y]) c = count_list xs c + (if y = c then 1 else 0)"
  using count_list_update [of i xs y c] by simp

lemma count_list_clear: "i < length xs \<Longrightarrow> c \<noteq> 0 \<Longrightarrow>
    count_list xs c = count_list (xs[i := 0]) c + (if xs ! i = c then 1 else 0)"
  using count_list_update [of i xs 0 c] by simp

text \<open>The program holds one reference for every slot a connection is in.\<close>

definition refs_ok :: "hr10 \<Rightarrow> bool" where
  "refs_ok s \<longleftrightarrow> length (curr_conn s) = NUM_CONN_MAX \<and> length (hr_curr_conn s) = NUM_CONN_MAX
     \<and> (\<forall>c. c \<noteq> 0 \<longrightarrow> hr_refs s c = count_list (curr_conn s) c + count_list (hr_curr_conn s) c)"

lemma refs_okD: "refs_ok s \<Longrightarrow> c \<noteq> 0 \<Longrightarrow> hr_refs s c = count_list (curr_conn s) c + count_list (hr_curr_conn s) c"
  by (simp add: refs_ok_def)

lemma refs_ok_same:
  assumes "refs_ok s" and "curr_conn s' = curr_conn s" and "hr_curr_conn s' = hr_curr_conn s" and "hr_refs s' = hr_refs s"
  shows "refs_ok s'"
  using assms by (simp add: refs_ok_def)

lemma refs_ok_take:
  assumes "refs_ok s" and "c \<noteq> 0" and "i < length (curr_conn s)" and "curr_conn s ! i = 0"
  shows "refs_ok ((hr_ref c s)\<lparr>curr_conn := (curr_conn s)[i := c]\<rparr>)"
  using assms by (auto simp: refs_ok_def hr_ref_def count_list_free)

lemma refs_ok_hr_take:
  assumes "refs_ok s" and "c \<noteq> 0" and "i < length (hr_curr_conn s)" and "hr_curr_conn s ! i = 0"
  shows "refs_ok ((hr_ref c s)\<lparr>hr_curr_conn := (hr_curr_conn s)[i := c]\<rparr>)"
  using assms by (auto simp: refs_ok_def hr_ref_def count_list_free)

lemma refs_ok_release:
  assumes "refs_ok s" and "c \<noteq> 0" and "i < length (curr_conn s)" and "curr_conn s ! i = c"
  obtains s1 where "hr_unref c s = Some s1" and "refs_ok (s1\<lparr>curr_conn := (curr_conn s1)[i := 0]\<rparr>)"
    and "s1 = s\<lparr>hr_refs := (hr_refs s)(c := hr_refs s c - 1)\<rparr>"
proof -
  have "count_list (curr_conn s) x = count_list ((curr_conn s)[i := 0]) x + (if c = x then 1 else 0)" if "x \<noteq> 0" for x
    using count_list_clear [OF assms(3) that] assms(4) by simp
  with assms(1,2) that show thesis by (simp add: refs_ok_def hr_unref_def)
qed

lemma refs_ok_hr_release:
  assumes "refs_ok s" and "c \<noteq> 0" and "i < length (hr_curr_conn s)" and "hr_curr_conn s ! i = c"
  obtains s1 where "hr_unref c s = Some s1" and "refs_ok (s1\<lparr>hr_curr_conn := (hr_curr_conn s1)[i := 0]\<rparr>)"
    and "s1 = s\<lparr>hr_refs := (hr_refs s)(c := hr_refs s c - 1)\<rparr>"
proof -
  have "count_list (hr_curr_conn s) x = count_list ((hr_curr_conn s)[i := 0]) x + (if c = x then 1 else 0)" if "x \<noteq> 0" for x
    using count_list_clear [OF assms(3) that] assms(4) by simp
  with assms(1,2) that show thesis by (simp add: refs_ok_def hr_unref_def)
qed

text \<open>The parts of the state that do not matter for the tables.\<close>

definition tables :: "hr10 \<Rightarrow> ptr list \<times> ptr list \<times> (ptr \<Rightarrow> nat)" where
  "tables s = (curr_conn s, hr_curr_conn s, hr_refs s)"

lemma refs_ok_tables: "tables s' = tables s \<Longrightarrow> refs_ok s' = refs_ok s"
  by (simp add: tables_def refs_ok_def)

lemma button_readval_fold:
  "fold (\<lambda>i s. if curr_conn s ! i \<noteq> 0 then hr_do (ReadBattery i) s else s) is s
     = s\<lparr>hr_calls := hr_calls s @ map ReadBattery (filter (\<lambda>i. curr_conn s ! i \<noteq> 0) is)\<rparr>"
  by (induction "is" arbitrary: s) (simp_all add: hr_do_def)

lemma button_readval_eq:
  "button_readval s = s\<lparr>hr_calls := hr_calls s @ map ReadBattery (filter (\<lambda>i. curr_conn s ! i \<noteq> 0) [0..<NUM_CONN_MAX])\<rparr>"
  unfolding button_readval_def by (rule button_readval_fold)

lemma tables_simps [simp]:
  "tables (hr_do c s) = tables s" "tables (hr_scan_start res s) = tables s" "tables (hr_gatt_discover p s) = tables s"
  "tables (hr_security_changed p s) = tables s" "tables (hr_button_handler a b s) = tables s"
  "tables (bt_hr_main_loop s) = tables s" "tables (s\<lparr>hr_scanning := b'\<rparr>) = tables s" "tables (s\<lparr>hr_attempt := t\<rparr>) = tables s"
  by (auto simp: tables_def hr_do_def hr_scan_start_def hr_gatt_discover_def hr_security_changed_def hr_button_handler_def
      button_readval_eq bt_hr_main_loop_def hr_bas_notify_def hr_hrs_notify_def Let_def
      split: option.split)

lemma tables_eq: "tables s' = tables s \<Longrightarrow> curr_conn s' = curr_conn s \<and> hr_curr_conn s' = hr_curr_conn s \<and> hr_refs s' = hr_refs s"
  by (simp add: tables_def)

fun nonnull :: "hr_event \<Rightarrow> bool" where
  "nonnull (Matched created) \<longleftrightarrow> created \<noteq> Some 0"
| "nonnull (NotMatched directed created) \<longleftrightarrow> created \<noteq> Some 0"
| "nonnull (HrConn r c err) \<longleftrightarrow> c \<noteq> 0"
| "nonnull (HrDisc r c) \<longleftrightarrow> c \<noteq> 0"
| "nonnull _ \<longleftrightarrow> True"

lemma scan_connecting_refs: "refs_ok s \<Longrightarrow> c \<noteq> 0 \<Longrightarrow> refs_ok (scan_connecting c s)"
  using refs_ok_take find_curr_conn_Some by (fastforce simp: scan_connecting_def split: option.split)

lemma no_match_refs:
  assumes "refs_ok s" and "created \<noteq> Some 0"
  shows "\<exists>s'. scan_filter_no_match directed created s = Some s' \<and> refs_ok s'"
proof (cases "directed \<and> find_curr_conn 0 (curr_conn s) \<noteq> None")
  case True
  then obtain i where i: "find_curr_conn 0 (curr_conn s) = Some i" by auto
  show ?thesis
  proof (cases created)
    case None
    then show ?thesis using True i assms(1) refs_ok_tables [OF tables_simps(7)] by (simp add: scan_filter_no_match_def)
  next
    case (Some c)
    have "refs_ok ((hr_ref c s)\<lparr>curr_conn := (curr_conn s)[i := c]\<rparr>)"
      using refs_ok_take [OF assms(1)] find_curr_conn_Some [OF i] assms(2) Some by auto
    then show ?thesis
      using True i Some by (auto simp: scan_filter_no_match_def hr_ref_def hr_unref_def refs_ok_def Let_def)
  qed
qed (use assms(1) in \<open>auto simp: scan_filter_no_match_def split: option.split\<close>)

lemma connected_refs:
  assumes "refs_ok s" and "c \<noteq> 0"
  shows "\<exists>s'. hr_connected r c err s = Some s' \<and> refs_ok s'"
proof (cases "ci_err r = 0 \<and> \<not> ci_slave r \<and> err \<noteq> 0")
  case True
  show ?thesis
  proof (cases "find_curr_conn c (curr_conn s)")
    case None
    then show ?thesis using True assms(1) by (simp add: hr_connected_def)
  next
    case (Some i)
    have i: "i < length (curr_conn s)" "curr_conn s ! i = c" using find_curr_conn_Some [OF Some] by simp_all
    obtain s1 where "hr_unref c s = Some s1" "refs_ok (s1\<lparr>curr_conn := (curr_conn s1)[i := 0]\<rparr>)"
      by (rule refs_ok_release [OF assms i])
    then show ?thesis using True Some i refs_ok_tables [OF tables_simps(2)] by (simp add: hr_connected_def)
  qed
next
  case False
  have "refs_ok (bt_hr_connected c err s)"
    using assms refs_ok_hr_take find_curr_conn_Some by (fastforce simp: bt_hr_connected_def split: option.split)
  moreover have "refs_ok s'" if "tables s' = tables s" for s' using that assms(1) refs_ok_tables by blast
  ultimately show ?thesis using False assms(1) by (auto simp: hr_connected_def Let_def split: option.split)
qed

lemma disconnected_refs:
  assumes "refs_ok s" and "c \<noteq> 0"
  shows "\<exists>s'. hr_disconnected r c s = Some s' \<and> refs_ok s'"
proof -
  have hr: "\<exists>s'. bt_hr_disconnected c s = Some s' \<and> refs_ok s'"
  proof (cases "find_curr_conn c (hr_curr_conn s)")
    case (Some i)
    have i: "i < length (hr_curr_conn s)" "hr_curr_conn s ! i = c" using find_curr_conn_Some [OF Some] by simp_all
    obtain s1 where "hr_unref c s = Some s1" "refs_ok (s1\<lparr>hr_curr_conn := (hr_curr_conn s1)[i := 0]\<rparr>)"
      by (rule refs_ok_hr_release [OF assms i])
    then show ?thesis using Some i by (simp add: bt_hr_disconnected_def)
  qed (use assms(1) in \<open>simp add: bt_hr_disconnected_def\<close>)
  have "\<exists>s'. (case find_curr_conn c (curr_conn s) of None \<Rightarrow> Some s
      | Some i \<Rightarrow> map_option (\<lambda>s1. s1\<lparr>curr_conn := (curr_conn s1)[i := 0]\<rparr>) (hr_unref (curr_conn s ! i) s)) = Some s' \<and> refs_ok s'"
  proof (cases "find_curr_conn c (curr_conn s)")
    case (Some i)
    have i: "i < length (curr_conn s)" "curr_conn s ! i = c" using find_curr_conn_Some [OF Some] by simp_all
    obtain s1 where "hr_unref c s = Some s1" "refs_ok (s1\<lparr>curr_conn := (curr_conn s1)[i := 0]\<rparr>)"
      by (rule refs_ok_release [OF assms i])
    then show ?thesis using Some i by simp
  qed (use assms(1) in simp)
  then show ?thesis using hr assms(1) refs_ok_tables [OF tables_simps(2)] by (auto simp: hr_disconnected_def)
qed

lemma hr_step_refs:
  assumes "refs_ok s" and "nonnull ev"
  shows "\<exists>s'. hr_step ev s = Some s' \<and> refs_ok s'"
proof -
  have t: "refs_ok s'" if "tables s' = tables s" for s' using that assms(1) refs_ok_tables by blast
  show ?thesis
  proof (cases ev)
    case (Matched created)
    have "refs_ok (s\<lparr>hr_scanning := False, hr_attempt := a\<rparr>)" for a using t by (simp add: tables_def)
    then have "c \<noteq> 0 \<Longrightarrow> refs_ok (scan_connecting c (s\<lparr>hr_scanning := False, hr_attempt := a\<rparr>))" for a c
      by (rule scan_connecting_refs)
    then show ?thesis using Matched assms(2) t by (fastforce simp: hr_step_def Let_def split: option.split)
  next
    case (HrConn r c err)
    then show ?thesis using connected_refs [OF t, of "s\<lparr>hr_attempt := None\<rparr>"] connected_refs [OF assms(1)] assms(2)
      by (simp add: hr_step_def)
  qed (use assms t no_match_refs [OF assms(1)] disconnected_refs [OF assms(1)] in \<open>auto simp: hr_step_def\<close>)
qed

interpretation hr10: machine hr_step "\<lambda>ev s. nonnull ev" refs_ok
  by unfold_locales (rule hr_step_refs)

definition hr_start :: hr10 where
  "hr_start = \<lparr>curr_conn = replicate NUM_CONN_MAX 0, hr_curr_conn = replicate NUM_CONN_MAX 0, hr_refs = (\<lambda>c. 0),
     hr_scanning = True, hr_attempt = None, heartrate = 90, battery_level = 100, hr_calls = []\<rparr>"

lemma hr_start_refs: "refs_ok hr_start"
  by (simp add: refs_ok_def hr_start_def NUM_CONN_MAX_def)

text \<open>
  C12: whatever events the stack sends, no reference is given back that is not held, and the program holds
  exactly one reference on a connection for every slot of the two tables it is in.
\<close>

theorem references_match_slots:
  assumes "list_all nonnull evs"
  shows "\<exists>s. run hr_step evs hr_start = Some s \<and> length (curr_conn s) = 10 \<and> length (hr_curr_conn s) = 10
     \<and> (\<forall>c. c \<noteq> 0 \<longrightarrow> hr_refs s c = count_list (curr_conn s) c + count_list (hr_curr_conn s) c)"
  using hr10.run_inv [OF hr_start_refs run_ok_all [OF assms]] by (auto simp: refs_ok_def NUM_CONN_MAX_def)

section \<open>Scanning\<close>

text \<open>
  While there is a free slot the program scans or has a connection attempt of which it will hear: this
  holds when attempts can be started, information about a connection is available, and scanning can
  be started when it is not running.
\<close>

definition scans_or_tries :: "hr10 \<Rightarrow> bool" where
  "scans_or_tries s \<longleftrightarrow>
     (case hr_attempt s of
        None \<Rightarrow> hr_scanning s \<or> 0 \<notin> set (curr_conn s)
      | Some c \<Rightarrow> c \<noteq> 0 \<and> (c \<in> set (curr_conn s) \<or> hr_scanning s \<or> 0 \<notin> set (curr_conn s)))"

text \<open>The events of a stack that scans when it says so, makes one attempt at a time and reports its end.\<close>

fun stack_event :: "hr_event \<Rightarrow> hr10 \<Rightarrow> bool" where
  "stack_event (Matched created) s \<longleftrightarrow> hr_scanning s \<and> hr_attempt s = None \<and> created \<noteq> None"
| "stack_event (NotMatched directed created) s \<longleftrightarrow> hr_scanning s \<and> hr_attempt s = None \<and> created \<noteq> None"
| "stack_event (HrConn r c err) s \<longleftrightarrow> ci_err r = 0 \<and> (ci_slave r \<or> (hr_attempt s = Some c \<and> ci_scan r = 0))"
| "stack_event (HrDisc r c) s \<longleftrightarrow> ci_err r = 0 \<and> (ci_slave r \<or> (hr_attempt s \<noteq> Some c \<and> ci_scan r = 0))"
| "stack_event _ s \<longleftrightarrow> True"

lemma scans_or_tries_same:
  "curr_conn s' = curr_conn s \<Longrightarrow> hr_attempt s' = hr_attempt s \<Longrightarrow> hr_scanning s' = hr_scanning s \<Longrightarrow>
     scans_or_tries s' = scans_or_tries s"
  by (simp add: scans_or_tries_def split: option.split)

lemma set_update_keeps: "c \<in> set xs \<Longrightarrow> xs ! i \<noteq> c \<Longrightarrow> c \<in> set (xs[i := x])"
  by (metis in_set_conv_nth length_list_update nth_list_update_neq)

lemma hr_gatt_discover_same [simp]:
  "curr_conn (hr_gatt_discover c s) = curr_conn s" "hr_attempt (hr_gatt_discover c s) = hr_attempt s"
  "hr_scanning (hr_gatt_discover c s) = hr_scanning s"
  by (simp_all add: hr_gatt_discover_def hr_do_def split: option.split)

lemma unref_same:
  "hr_unref c s = Some s1 \<Longrightarrow> curr_conn s1 = curr_conn s \<and> hr_attempt s1 = hr_attempt s \<and> hr_scanning s1 = hr_scanning s"
  by (auto simp: hr_unref_def split: if_splits)

lemma matched_scans:
  assumes "hr_attempt s = None" and "c \<noteq> 0"
  shows "scans_or_tries (scan_connecting c (s\<lparr>hr_scanning := False, hr_attempt := Some c\<rparr>))"
proof (cases "find_curr_conn 0 (curr_conn s)")
  case None
  then have "0 \<notin> set (curr_conn s)" by (simp add: find_curr_conn_None)
  then show ?thesis using assms(2) by (simp add: scan_connecting_def scans_or_tries_def None)
next
  case (Some i)
  then show ?thesis using assms(2) find_curr_conn_Some [OF Some] set_update_memI
    by (fastforce simp: scan_connecting_def scans_or_tries_def hr_ref_def)
qed

lemma no_match_scans:
  assumes "scans_or_tries s" and "hr_attempt s = None" and "c \<noteq> 0"
    and "scan_filter_no_match directed (Some c) s = Some s'"
  shows "scans_or_tries s'"
proof (cases "directed \<and> find_curr_conn 0 (curr_conn s) \<noteq> None")
  case True
  then obtain i where i: "find_curr_conn 0 (curr_conn s) = Some i" by auto
  have "c \<in> set ((curr_conn s)[i := c])" using find_curr_conn_Some [OF i] by (simp add: set_update_memI)
  then show ?thesis using True i assms(3,4)
    by (auto simp: scan_filter_no_match_def hr_ref_def hr_unref_def scans_or_tries_def Let_def split: if_splits)
next
  case False
  then have "s' = s" using assms(4) by (cases directed) (simp_all add: scan_filter_no_match_def)
  then show ?thesis using assms(1) by simp
qed

lemma connected_scans:
  assumes "scans_or_tries s" and "ci_err r = 0" and "\<not> ci_slave r" and "hr_attempt s = Some c" and "ci_scan r = 0"
    and "hr_connected r c err (s\<lparr>hr_attempt := None\<rparr>) = Some s'"
  shows "scans_or_tries s'"
proof (cases "err = 0")
  case True
  then show ?thesis using assms(2,3,5,6)
    by (auto simp: hr_connected_def hr_scan_start_def scans_or_tries_def hr_do_def Let_def find_curr_conn_None split: option.splits if_splits)
next
  case False
  show ?thesis
  proof (cases "find_curr_conn c (curr_conn s)")
    case None
    then have "c \<notin> set (curr_conn s)" by (simp add: find_curr_conn_None)
    then have "hr_scanning s \<or> 0 \<notin> set (curr_conn s)" using assms(1,4) by (simp add: scans_or_tries_def)
    moreover have "s' = s\<lparr>hr_attempt := None\<rparr>" using False None assms(2,3,6) by (simp add: hr_connected_def)
    ultimately show ?thesis by (simp add: scans_or_tries_def)
  next
    case (Some i)
    then show ?thesis using False assms(2,3,5,6) unref_same
      by (fastforce simp: hr_connected_def scans_or_tries_def hr_scan_start_def)
  qed
qed

lemma disconnected_scans:
  assumes "scans_or_tries s" and "ci_err r = 0" and "\<not> ci_slave r" and "ci_scan r = 0"
    and "hr_disconnected r c s = Some s'"
  shows "scans_or_tries s'"
proof -
  obtain s1 where s1: "s' = hr_scan_start 0 s1" "hr_attempt s1 = hr_attempt s"
  proof (cases "find_curr_conn c (curr_conn s)")
    case None
    then show thesis using assms(2-5) by (intro that [of s]) (simp_all add: hr_disconnected_def)
  next
    case (Some i)
    then show thesis using assms that unref_same by (fastforce simp: hr_disconnected_def)
  qed
  then show ?thesis using assms(1) by (auto simp: hr_scan_start_def scans_or_tries_def split: option.splits)
qed

lemma hr_slave_same:
  "hr_attempt (bt_hr_connected c err s) = hr_attempt s \<and> hr_scanning (bt_hr_connected c err s) = hr_scanning s
     \<and> curr_conn (bt_hr_connected c err s) = curr_conn s"
  "bt_hr_disconnected c s = Some s' \<Longrightarrow> hr_attempt s' = hr_attempt s \<and> hr_scanning s' = hr_scanning s \<and> curr_conn s' = curr_conn s"
  by (auto simp: bt_hr_connected_def bt_hr_disconnected_def hr_ref_def hr_unref_def split: option.splits if_splits)

lemma hr_step_scans:
  assumes "scans_or_tries s" and "stack_event ev s" and "nonnull ev" and "hr_step ev s = Some s'"
  shows "scans_or_tries s'"
proof (cases ev)
  case (Matched created)
  then obtain c where c: "created = Some c" "c \<noteq> 0" "hr_attempt s = None" using assms(2,3) by auto
  then show ?thesis using Matched assms(4) matched_scans [OF c(3,2)] by (simp add: hr_step_def Let_def)
next
  case (NotMatched directed created)
  then obtain c where c: "created = Some c" "c \<noteq> 0" "hr_attempt s = None" using assms(2,3) by auto
  then show ?thesis using NotMatched assms(4) no_match_scans [OF assms(1) c(3,2)] by (simp add: hr_step_def)
next
  case (HrConn r c err)
  show ?thesis
  proof (cases "ci_slave r")
    case True
    then have "s' = bt_hr_connected c err s" using assms HrConn by (simp add: hr_step_def hr_connected_def)
    then show ?thesis using scans_or_tries_same hr_slave_same(1) assms(1) by blast
  next
    case False
    then have "ci_err r = 0" "hr_attempt s = Some c" "ci_scan r = 0"
      "hr_connected r c err (s\<lparr>hr_attempt := None\<rparr>) = Some s'"
      using assms(2,4) HrConn by (simp_all add: hr_step_def)
    then show ?thesis using connected_scans [OF assms(1) _ False] by blast
  qed
next
  case (HrDisc r c)
  show ?thesis
  proof (cases "ci_slave r")
    case True
    then have "bt_hr_disconnected c s = Some s'" using assms HrDisc by (simp add: hr_step_def hr_disconnected_def)
    then show ?thesis using scans_or_tries_same hr_slave_same(2) assms(1) by blast
  next
    case False
    then have "ci_err r = 0" "ci_scan r = 0" "hr_disconnected r c s = Some s'"
      using assms(2,4) HrDisc by (simp_all add: hr_step_def)
    then show ?thesis using disconnected_scans [OF assms(1) _ False] by blast
  qed
next
  case (HrSecurity c)
  then have "s' = hr_gatt_discover c s" using assms(4) by (simp add: hr_step_def hr_security_changed_def)
  then have "scans_or_tries s' = scans_or_tries s" by (intro scans_or_tries_same) simp_all
  then show ?thesis using assms(1) by simp
next
  case (HrButton a b)
  then have "s' = hr_button_handler a b s" using assms(4) by (simp add: hr_step_def)
  then have "scans_or_tries s' = scans_or_tries s"
    by (intro scans_or_tries_same) (simp_all add: hr_button_handler_def button_readval_eq)
  then show ?thesis using assms(1) by simp
next
  case HrTick
  then have "s' = bt_hr_main_loop s" using assms(4) by (simp add: hr_step_def)
  then have "scans_or_tries s' = scans_or_tries s"
    by (intro scans_or_tries_same) (simp_all add: bt_hr_main_loop_def hr_bas_notify_def hr_hrs_notify_def hr_do_def Let_def)
  then show ?thesis using assms(1) by simp
qed

interpretation hr_scan: machine hr_step "\<lambda>ev s. nonnull ev \<and> stack_event ev s" "\<lambda>s. refs_ok s \<and> scans_or_tries s"
  by unfold_locales (use hr_step_refs hr_step_scans in blast)

text \<open>
  with a stack that makes its attempts, the program always scans, waits for the outcome of an attempt, or
  has all ten slots in use.
\<close>

theorem free_slot_is_searched:
  assumes "run_ok hr_step (\<lambda>ev s. nonnull ev \<and> stack_event ev s) evs hr_start"
  shows "\<exists>s. run hr_step evs hr_start = Some s \<and> (hr_scanning s \<or> hr_attempt s \<noteq> None \<or> 0 \<notin> set (curr_conn s))"
proof -
  have "refs_ok hr_start \<and> scans_or_tries hr_start"
    using hr_start_refs by (simp add: scans_or_tries_def hr_start_def)
  from hr_scan.run_inv [OF this assms] show ?thesis by (auto simp: scans_or_tries_def split: option.splits)
qed

text \<open>Without a scan, an attempt or a connection as a central only these events are left.\<close>

fun left_over :: "hr_event \<Rightarrow> bool" where
  "left_over (HrConn r c err) \<longleftrightarrow> ci_slave r \<and> c \<noteq> 0"
| "left_over (HrDisc r c) \<longleftrightarrow> ci_slave r \<and> c \<noteq> 0"
| "left_over (HrSecurity c) \<longleftrightarrow> c \<noteq> 0"
| "left_over (HrButton a b) \<longleftrightarrow> True"
| "left_over HrTick \<longleftrightarrow> True"
| "left_over _ \<longleftrightarrow> False"

definition stuck :: "hr10 \<Rightarrow> bool" where
  "stuck s \<longleftrightarrow> refs_ok s \<and> \<not> hr_scanning s \<and> hr_attempt s = None \<and> set (curr_conn s) = {0}"

lemma hr_step_stuck:
  assumes "stuck s" and "left_over ev"
  shows "\<exists>s'. hr_step ev s = Some s' \<and> stuck s'"
proof -
  have n: "nonnull ev" using assms(2) by (cases ev) simp_all
  obtain s' where s': "hr_step ev s = Some s'" "refs_ok s'" using hr_step_refs [OF _ n] assms(1) by (auto simp: stuck_def)
  have "curr_conn s' = curr_conn s \<and> hr_attempt s' = hr_attempt s \<and> hr_scanning s' = hr_scanning s"
  proof (cases ev)
    case (HrConn r c err)
    then have "s' = s \<or> s' = bt_hr_connected c err s" using assms(2) s'(1)
      by (cases "ci_err r = 0") (simp_all add: hr_step_def hr_connected_def)
    then show ?thesis using hr_slave_same(1) by metis
  next
    case (HrDisc r c)
    then show ?thesis using assms(2) s'(1) hr_slave_same(2) by (auto simp: hr_step_def hr_disconnected_def split: if_splits)
  next
    case (HrSecurity c)
    then show ?thesis using s'(1) by (auto simp: hr_step_def hr_security_changed_def)
  next
    case (HrButton a b)
    then show ?thesis using s'(1) by (auto simp: hr_step_def hr_button_handler_def button_readval_eq split: if_splits)
  next
    case HrTick
    then show ?thesis using s'(1)
      by (auto simp: hr_step_def bt_hr_main_loop_def hr_bas_notify_def hr_hrs_notify_def hr_do_def Let_def)
  qed (use assms(2) in simp_all)
  with s' assms(1) show ?thesis by (auto simp: stuck_def)
qed

interpretation hr_stuck: machine hr_step "\<lambda>ev s. left_over ev" stuck
  by unfold_locales (rule hr_step_stuck)

text \<open>
  when the connection to a directed advertiser cannot be created, the scan has been stopped and is not started
  again: with no other connection the program does not search for peers again, whatever happens.
\<close>

theorem create_error_ends_search:
  assumes "refs_ok s" and "set (curr_conn s) = {0}" and "hr_attempt s = None" and "list_all left_over evs"
  shows "\<exists>s1 s2. hr_step (NotMatched True None) s = Some s1 \<and> run hr_step evs s1 = Some s2
     \<and> \<not> hr_scanning s2 \<and> hr_attempt s2 = None \<and> set (curr_conn s2) = {0}"
proof -
  have "find_curr_conn 0 (curr_conn s) \<noteq> None" using assms(2) by (simp add: find_curr_conn_None)
  then have "hr_step (NotMatched True None) s = Some (s\<lparr>hr_scanning := False\<rparr>)"
    by (auto simp: hr_step_def scan_filter_no_match_def)
  moreover have "stuck (s\<lparr>hr_scanning := False\<rparr>)"
    using assms refs_ok_tables [OF tables_simps(7)] by (simp add: stuck_def)
  from hr_stuck.run_inv [OF this run_ok_all [OF assms(4)]] obtain s2
    where "run hr_step evs (s\<lparr>hr_scanning := False\<rparr>) = Some s2" "stuck s2" by blast
  ultimately show ?thesis by (auto simp: stuck_def)
qed

section \<open>The simulated measurements and the button\<close>

text \<open>
  after \<open>n\<close> seconds the heart rate has gone \<open>n\<close> steps round 90 to 159 and the battery level \<open>n\<close> steps down
  round 100 to 1; a press of the button reads exactly the clients with a connection.
\<close>

theorem measurements_cycle:
  assumes "heartrate s = 90" and "battery_level s = 100"
  shows "unat (heartrate ((bt_hr_main_loop ^^ n) s)) = 90 + n mod 70
     \<and> unat (battery_level ((bt_hr_main_loop ^^ n) s)) = 100 - n mod 100
     \<and> hr_calls (hr_button_handler 1 1 s) = hr_calls s @ map ReadBattery (filter (\<lambda>i. curr_conn s ! i \<noteq> 0) [0..<10])"
proof -
  have "unat (heartrate ((bt_hr_main_loop ^^ n) s)) = 90 + n mod 70
     \<and> unat (battery_level ((bt_hr_main_loop ^^ n) s)) = 100 - n mod 100"
  proof (induction n)
    case 0
    then show ?case using assms by simp
  next
    case (Suc n)
    let ?s = "(bt_hr_main_loop ^^ n) s"
    have h: "heartrate (bt_hr_main_loop ?s) = (if heartrate ?s + 1 = 160 then 90 else heartrate ?s + 1)"
      and b: "battery_level (bt_hr_main_loop ?s) = (if battery_level ?s - 1 = 0 then 100 else battery_level ?s - 1)"
      by (simp_all add: bt_hr_main_loop_def hr_bas_notify_def hr_hrs_notify_def hr_do_def Let_def)
    have h1: "unat (heartrate ?s + 1) = 91 + n mod 70" using Suc by (simp add: unat_plus_nowrap)
    have "unat (battery_level ?s) = 100 - n mod 100" using Suc by simp
    then have "1 \<le> battery_level ?s" by (simp add: word_le_nat_alt)
    then have b1: "unat (battery_level ?s - 1) = 99 - n mod 100" using Suc by (simp add: unat_minus_le)
    have "heartrate ?s + 1 = 160 \<longleftrightarrow> n mod 70 = 69" using h1 by (simp add: word_unat_eq_iff)
    moreover have "n mod 100 < 100" by simp
    then have "battery_level ?s - 1 = 0 \<longleftrightarrow> n mod 100 = 99" using b1 by (simp add: word_unat_eq_iff) linarith
    ultimately show ?case using h b h1 b1 by (auto simp: mod_Suc)
  qed
  moreover have "hr_calls (hr_button_handler 1 1 s) = hr_calls s @ map ReadBattery (filter (\<lambda>i. curr_conn s ! i \<noteq> 0) [0..<10])"
    unfolding hr_button_handler_def button_readval_eq NUM_CONN_MAX_def by simp
  ultimately show ?thesis by blast
qed

section \<open>Witnesses\<close>

definition demo_info :: hr_conn_info where
  "demo_info = \<lparr>ci_err = 0, ci_slave = False, ci_security = 0, ci_scan = 0\<rparr>"

theorem references_match_slots_witness:
  "\<exists>s. run hr_step [NotMatched True (Some 5), HrConn demo_info 5 0, Matched (Some 6), HrConn demo_info 6 62, HrDisc demo_info 5] hr_start = Some s
     \<and> hr_refs s 5 = count_list (curr_conn s) 5 + count_list (hr_curr_conn s) 5"
  using references_match_slots [of "[NotMatched True (Some 5), HrConn demo_info 5 0, Matched (Some 6), HrConn demo_info 6 62, HrDisc demo_info 5]"]
  by force

theorem free_slot_is_searched_witness:
  "\<exists>s. run hr_step [NotMatched True (Some 5), HrConn demo_info 5 0, Matched (Some 6)] hr_start = Some s
     \<and> (hr_scanning s \<or> hr_attempt s \<noteq> None \<or> 0 \<notin> set (curr_conn s))"
proof -
  have "run_ok hr_step (\<lambda>ev s. nonnull ev \<and> stack_event ev s) [NotMatched True (Some 5), HrConn demo_info 5 0, Matched (Some 6)] hr_start"
    by code_simp
  from free_slot_is_searched [OF this] show ?thesis .
qed

theorem create_error_ends_search_witness:
  "\<exists>s1 s2. hr_step (NotMatched True None) hr_start = Some s1 \<and> run hr_step [HrTick, HrButton 1 1] s1 = Some s2 \<and> \<not> hr_scanning s2"
  using create_error_ends_search [OF hr_start_refs, of "[HrTick, HrButton 1 1]"]
  by (auto simp: hr_start_def NUM_CONN_MAX_def)

theorem measurements_cycle_witness:
  "unat (heartrate ((bt_hr_main_loop ^^ 75) hr_start)) = 95 \<and> unat (battery_level ((bt_hr_main_loop ^^ 100) hr_start)) = 100"
  using measurements_cycle [of hr_start 75] measurements_cycle [of hr_start 100] by (simp add: hr_start_def)
end
