(* ===== verification/LoaderImage.thy ===== *)
theory LoaderImage
  imports Prelude
begin

text \<open>
  The boot loader of the application core, first part: its data, headers, sizes and sectors of images, the
  status of a swap, and the validation of a slot. The source is MCUboot's \<open>loader.c\<close> in the version the
  repository keeps with its changes for the nRF5340's external flash,
  \<open>nrf53_ble/otherExamples/resources/9loader.c\<close>.

  The loader's state is the record \<open>loader\<close>; its last field is the flash and the devices, of any type.
  The macros its source tests are the record \<open>build\<close>, so that the model holds the code of every \<open>#if\<close>
  apart from encrypted images, measured boot and data sharing, which this program's configuration leaves out.
  What is not in the file (the flash map, the rest of MCUboot, the update of the network core, the
  values of its macros) is the record \<open>boot_env\<close>; theorems state what they rely on of it. A function that
  ends in \<open>assert(0)\<close> or in the panic loop is \<open>None\<close>.
\<close>

section \<open>Data\<close>

named_theorems boot_defs "definitions of the boot loader that its proofs unfold"

definition BOOT_EFLASH :: int where [errno_defs]: "BOOT_EFLASH = 1"
definition BOOT_EBADIMAGE :: int where [errno_defs]: "BOOT_EBADIMAGE = 3"
definition BOOT_EBADARGS :: int where [errno_defs]: "BOOT_EBADARGS = 7"

definition IMAGE_MAGIC :: u32 where "IMAGE_MAGIC = 0x96f3b83d"
definition IMAGE_F_NON_BOOTABLE :: u32 where "IMAGE_F_NON_BOOTABLE = 0x10"
definition IMAGE_F_RAM_LOAD :: u32 where "IMAGE_F_RAM_LOAD = 0x20"
definition IMAGE_TLV_INFO_MAGIC :: u16 where "IMAGE_TLV_INFO_MAGIC = 0x6907"
definition IMAGE_TLV_PROT_INFO_MAGIC :: u16 where "IMAGE_TLV_PROT_INFO_MAGIC = 0x6908"

text \<open>The slots of an image and what the fault-hardened functions return.\<close>

abbreviation (input) primary :: nat where "primary \<equiv> 0"
abbreviation (input) secondary :: nat where "secondary \<equiv> 1"

datatype fih = FIH_SUCCESS | FIH_FAILURE | FIH_ENC int

datatype swap_type = Swap_None | Swap_Test | Swap_Perm | Swap_Revert | Swap_Fail | Swap_Panic | Swap_Other nat

record image_version =
  iv_major :: u8
  iv_minor :: u8
  iv_revision :: u16
  iv_build_num :: u32

record image_header =
  ih_magic :: u32
  ih_load_addr :: u32
  ih_hdr_size :: u16
  ih_protect_tlv_size :: u16
  ih_img_size :: u32
  ih_flags :: u32
  ih_ver :: image_version

record image_dependency =
  dep_image_id :: nat
  dep_min_version :: image_version

record flash_area =
  fa_id :: nat
  fa_off :: u32
  fa_size :: u32
  fa_dev_name :: string
  fa_device_id :: u8

record boot_sector =
  sec_off :: u32
  sec_size :: u32

record boot_status =
  st_use_scratch :: u8
  st_swap_size :: u32
  st_source :: u8
  st_op :: u8
  st_idx :: u32
  st_state :: u8
  st_swap_type :: swap_type

record boot_swap_state =
  ss_magic_good :: bool
  ss_copy_done :: bool
  ss_image_ok :: bool

text \<open>
  The state of the loader: per image and slot the header, the open flash area and the sectors,
  per image the swap type, the image the loader is at, and the flash and devices behind it.
\<close>

record 'w loader =
  bl_hdr :: "nat \<Rightarrow> nat \<Rightarrow> image_header"
  bl_area :: "nat \<Rightarrow> nat \<Rightarrow> flash_area"
  bl_sectors :: "nat \<Rightarrow> nat \<Rightarrow> boot_sector list"
  bl_scratch_area :: flash_area
  bl_scratch_sectors :: "boot_sector list"
  bl_swap_type :: "nat \<Rightarrow> swap_type"
  bl_curr :: nat
  bl_write_sz :: u32
  bl_w :: 'w

text \<open>How the loader is built: the macros its sources test.\<close>

datatype upgrade_mode = SwapScratch | SwapMove | OverwriteOnly | OverwriteFast | DirectXip | RamLoad

record build =
  b_images :: nat                 \<comment> \<open>\<open>BOOT_IMAGE_NUMBER\<close>\<close>
  b_mode :: upgrade_mode
  b_bootstrap :: bool             \<comment> \<open>\<open>MCUBOOT_BOOTSTRAP\<close>\<close>
  b_validate_primary :: bool      \<comment> \<open>\<open>MCUBOOT_VALIDATE_PRIMARY_SLOT\<close>\<close>
  b_rollback :: bool              \<comment> \<open>\<open>MCUBOOT_HW_ROLLBACK_PROT\<close>\<close>
  b_downgrade :: bool             \<comment> \<open>\<open>MCUBOOT_DOWNGRADE_PREVENTION\<close>\<close>
  b_xip_revert :: bool            \<comment> \<open>\<open>MCUBOOT_DIRECT_XIP_REVERT\<close>\<close>
  b_s1 :: bool                    \<comment> \<open>\<open>PM_S1_ADDRESS\<close>\<close>
  b_nrf5340 :: bool               \<comment> \<open>\<open>CONFIG_SOC_NRF5340_CPUAPP\<close>\<close>
  b_net_b0n :: "u32 option"       \<comment> \<open>\<open>PM_CPUNET_B0N_ADDRESS\<close>\<close>
  b_slots_equivalent :: bool      \<comment> \<open>\<open>ARE_SLOTS_EQUIVALENT()\<close>\<close>
  b_ram_start :: u32              \<comment> \<open>\<open>IMAGE_EXECUTABLE_RAM_START\<close>\<close>
  b_ram_size :: u32               \<comment> \<open>\<open>IMAGE_EXECUTABLE_RAM_SIZE\<close>\<close>

text \<open>What the loader calls: the flash map, the rest of MCUboot, the network core's update.\<close>

record 'w boot_env =
  slot_area_id :: "nat \<Rightarrow> nat \<Rightarrow> nat"
  primary_id :: "nat \<Rightarrow> nat"
  secondary_id :: "nat \<Rightarrow> nat"
  scratch_id :: nat
  area_open :: "nat \<Rightarrow> 'w \<Rightarrow> int \<times> flash_area"
  area_read :: "flash_area \<Rightarrow> u32 \<Rightarrow> nat \<Rightarrow> 'w \<Rightarrow> int \<times> u8 list"
  area_write :: "flash_area \<Rightarrow> u32 \<Rightarrow> u8 list \<Rightarrow> 'w \<Rightarrow> int \<times> 'w"
  area_erase :: "flash_area \<Rightarrow> u32 \<Rightarrow> u32 \<Rightarrow> 'w \<Rightarrow> int \<times> 'w"
  area_align :: "flash_area \<Rightarrow> u32"
  area_erased_val :: "flash_area \<Rightarrow> u8"
  area_sectors :: "nat \<Rightarrow> 'w \<Rightarrow> int \<times> boot_sector list"
  device_erase :: "string \<Rightarrow> u32 \<Rightarrow> u32 \<Rightarrow> 'w \<Rightarrow> int \<times> 'w"
  mapped_header :: "u32 \<Rightarrow> 'w \<Rightarrow> image_header"
  mapped_u32 :: "u32 \<Rightarrow> 'w \<Rightarrow> u32"
  max_align :: nat
  tlv_off :: "image_header \<Rightarrow> u32"
  u32_safe_add :: "u32 \<Rightarrow> u32 \<Rightarrow> u32 option"
  read_image_header :: "'w loader \<Rightarrow> nat \<Rightarrow> boot_status option \<Rightarrow> int \<times> image_header"
  img_validate :: "nat \<Rightarrow> image_header \<Rightarrow> flash_area \<Rightarrow> u8 list \<Rightarrow> 'w \<Rightarrow> fih \<times> u8 list"
  tlv_dependencies :: "image_header \<Rightarrow> flash_area \<Rightarrow> 'w \<Rightarrow> int \<times> (int \<times> u32 \<times> nat) list"
  dependency_size :: nat
  dependency_of :: "u8 list \<Rightarrow> image_dependency"
  is_upgrade :: "swap_type \<Rightarrow> bool"
  swap_type_multi :: "nat \<Rightarrow> 'w \<Rightarrow> swap_type"
  slots_compatible :: "'w loader \<Rightarrow> bool"
  swap_read_status :: "'w loader \<Rightarrow> boot_status \<Rightarrow> int \<times> boot_status"
  swap_run :: "'w loader \<Rightarrow> boot_status \<Rightarrow> u32 \<Rightarrow> 'w loader \<times> boot_status"
  swap_erase_trailer :: "'w loader \<Rightarrow> flash_area \<Rightarrow> int \<times> 'w"
  swap_set_image_ok :: "nat \<Rightarrow> 'w \<Rightarrow> int \<times> 'w"
  swap_set_copy_done :: "nat \<Rightarrow> 'w \<Rightarrow> int \<times> 'w"
  read_swap_size :: "nat \<Rightarrow> 'w \<Rightarrow> int \<times> u32"
  read_swap_state :: "flash_area \<Rightarrow> 'w \<Rightarrow> int \<times> boot_swap_state"
  write_copy_done :: "flash_area \<Rightarrow> 'w \<Rightarrow> int \<times> 'w"
  write_magic :: "flash_area \<Rightarrow> 'w \<Rightarrow> int \<times> 'w"
  trailer_sz :: "u32 \<Rightarrow> u32"
  status_off :: "flash_area \<Rightarrow> u32"
  status_internal_off :: "boot_status \<Rightarrow> u32 \<Rightarrow> u32"
  status_start :: "u8 \<times> u32 \<times> u8"   \<comment> \<open>\<open>BOOT_STATUS_OP_MOVE\<close>, \<open>_IDX_0\<close>, \<open>_STATE_0\<close>\<close>
  security_cnt :: "image_header \<Rightarrow> flash_area \<Rightarrow> 'w \<Rightarrow> int \<times> u32"
  nv_counter_update :: "nat \<Rightarrow> u32 \<Rightarrow> 'w \<Rightarrow> int \<times> 'w"
  pcd_update :: "u32 \<Rightarrow> u32 \<Rightarrow> 'w \<Rightarrow> int \<times> 'w"
  qspi_xip :: "bool \<Rightarrow> 'w \<Rightarrow> 'w"
  ram_load :: "u32 \<Rightarrow> u8 list \<Rightarrow> 'w \<Rightarrow> 'w"

definition boot_img_hdr :: "'w loader \<Rightarrow> nat \<Rightarrow> image_header" where
  "boot_img_hdr s slot = bl_hdr s (bl_curr s) slot"

definition boot_img_area :: "'w loader \<Rightarrow> nat \<Rightarrow> flash_area" where
  "boot_img_area s slot = bl_area s (bl_curr s) slot"

definition boot_img_sectors :: "'w loader \<Rightarrow> nat \<Rightarrow> boot_sector list" where
  "boot_img_sectors s slot = bl_sectors s (bl_curr s) slot"

definition boot_swap_type :: "'w loader \<Rightarrow> swap_type" where
  "boot_swap_type s = bl_swap_type s (bl_curr s)"

definition set_hdr :: "nat \<Rightarrow> image_header \<Rightarrow> 'w loader \<Rightarrow> 'w loader" where
  "set_hdr slot h s = s\<lparr>bl_hdr := (bl_hdr s)(bl_curr s := (bl_hdr s (bl_curr s))(slot := h))\<rparr>"

definition set_area :: "nat \<Rightarrow> flash_area \<Rightarrow> 'w loader \<Rightarrow> 'w loader" where
  "set_area slot a s = s\<lparr>bl_area := (bl_area s)(bl_curr s := (bl_area s (bl_curr s))(slot := a))\<rparr>"

definition set_sectors :: "nat \<Rightarrow> boot_sector list \<Rightarrow> 'w loader \<Rightarrow> 'w loader" where
  "set_sectors slot xs s =
    s\<lparr>bl_sectors := (bl_sectors s)(bl_curr s := (bl_sectors s (bl_curr s))(slot := xs))\<rparr>"

definition set_swap_type :: "swap_type \<Rightarrow> 'w loader \<Rightarrow> 'w loader" where
  "set_swap_type t s = s\<lparr>bl_swap_type := (bl_swap_type s)(bl_curr s := t)\<rparr>"

section \<open>Headers, sizes and sectors\<close>

primrec read_headers :: "'w boot_env \<Rightarrow> build \<Rightarrow> bool \<Rightarrow> boot_status option \<Rightarrow> nat list \<Rightarrow> 'w loader \<Rightarrow> int \<times> 'w loader" where
  "read_headers E B require_all bs [] s = (0, s)"
| "read_headers E B require_all bs (i # is) s =
    (let (rc, h) = read_image_header E s i bs; s1 = set_hdr i h s in
     if rc \<noteq> 0 then
       if b_s1 B \<and> bl_curr s = 1 \<and> i = 0 then read_headers E B require_all bs is s1
       else if i > 0 \<and> \<not> require_all then (0, s1)
       else (rc, s1)
     else read_headers E B require_all bs is s1)"

definition boot_read_image_headers :: "'w boot_env \<Rightarrow> build \<Rightarrow> bool \<Rightarrow> boot_status option \<Rightarrow> 'w loader \<Rightarrow> int \<times> 'w loader" where
  "boot_read_image_headers E B require_all bs s = read_headers E B require_all bs [primary, secondary] s"

text \<open>\<open>struct image_tlv_info\<close> as the little-endian processor reads it: the magic and the total.\<close>

definition u16_at :: "u8 list \<Rightarrow> nat \<Rightarrow> u16" where
  "u16_at bs i = ucast (bs ! i) + 256 * ucast (bs ! (i + 1))"

definition boot_read_image_size :: "'w boot_env \<Rightarrow> 'w loader \<Rightarrow> nat \<Rightarrow> int \<times> u32" where
  "boot_read_image_size E s slot =
    (let (rc, fap) = area_open E (slot_area_id E (bl_curr s) slot) (bl_w s);
         hdr = boot_img_hdr s slot; off = tlv_off E hdr; prot = ih_protect_tlv_size hdr;
         (r1, info) = area_read E fap off 4 (bl_w s);
         tail = (\<lambda>info. if u16_at info 0 \<noteq> IMAGE_TLV_INFO_MAGIC then (BOOT_EBADIMAGE, 0)
                        else (0, off + ucast prot + ucast (u16_at info 2))) in
     if rc \<noteq> 0 then (BOOT_EFLASH, 0)
     else if r1 \<noteq> 0 then (BOOT_EFLASH, 0)
     else if u16_at info 0 = IMAGE_TLV_PROT_INFO_MAGIC then
       if prot \<noteq> u16_at info 2 then (BOOT_EBADIMAGE, 0)
       else let (r2, info2) = area_read E fap (off + ucast (u16_at info 2)) 4 (bl_w s) in
         if r2 \<noteq> 0 then (BOOT_EFLASH, 0) else tail info2
     else if prot \<noteq> 0 then (BOOT_EBADIMAGE, 0)
     else tail info)"

definition boot_write_sz :: "'w boot_env \<Rightarrow> build \<Rightarrow> 'w loader \<Rightarrow> u32" where
  "boot_write_sz E B s =
    (let elem = area_align E (boot_img_area s primary);
         scratch = area_align E (bl_scratch_area s) in
     if b_mode B = SwapScratch \<and> scratch > elem then scratch else elem)"

definition boot_initialize_area :: "'w boot_env \<Rightarrow> build \<Rightarrow> nat \<Rightarrow> 'w loader \<Rightarrow> int \<times> 'w loader" where
  "boot_initialize_area E B area s =
    (let (rc, xs) = area_sectors E area (bl_w s) in
     if area = primary_id E (bl_curr s) then
       if rc \<noteq> 0 then (rc, s) else (0, set_sectors primary xs s)
     else if area = secondary_id E (bl_curr s) then
       if rc \<noteq> 0 then (rc, s) else (0, set_sectors secondary xs s)
     else if b_mode B = SwapScratch \<and> area = scratch_id E then
       if rc \<noteq> 0 then (rc, s) else (0, s\<lparr>bl_scratch_sectors := xs\<rparr>)
     else (BOOT_EFLASH, s))"

definition boot_read_sectors :: "'w boot_env \<Rightarrow> build \<Rightarrow> 'w loader \<Rightarrow> int \<times> 'w loader" where
  "boot_read_sectors E B s =
    (let (r1, s1) = boot_initialize_area E B (primary_id E (bl_curr s)) s in
     if r1 \<noteq> 0 then (BOOT_EFLASH, s1)
     else let (r2, s2) = boot_initialize_area E B (secondary_id E (bl_curr s)) s1 in
     if r2 \<noteq> 0 then (BOOT_EFLASH, s2)
     else let (r3, s3) = (if b_mode B = SwapScratch then boot_initialize_area E B (scratch_id E) s2 else (0, s2)) in
     if r3 \<noteq> 0 then (BOOT_EFLASH, s3)
     else (0, s3\<lparr>bl_write_sz := boot_write_sz E B s3\<rparr>))"

section \<open>The status of a swap\<close>

definition boot_status_reset :: "'w boot_env \<Rightarrow> boot_status \<Rightarrow> boot_status" where
  "boot_status_reset E bs =
    (let (op, idx, state) = status_start E in
     bs\<lparr>st_use_scratch := 0, st_swap_size := 0, st_source := 0,
        st_op := op, st_idx := idx, st_state := state, st_swap_type := Swap_None\<rparr>)"

definition boot_status_is_reset :: "'w boot_env \<Rightarrow> boot_status \<Rightarrow> bool" where
  "boot_status_is_reset E bs = ((st_op bs, st_idx bs, st_state bs) = status_start E)"

definition boot_write_status :: "'w boot_env \<Rightarrow> build \<Rightarrow> 'w loader \<Rightarrow> boot_status \<Rightarrow> int \<times> 'w" where
  "boot_write_status E B s bs =
    (let area = (if b_mode B = SwapScratch \<and> st_use_scratch bs \<noteq> 0 then scratch_id E
                 else primary_id E (bl_curr s));
         (rc, fap) = area_open E area (bl_w s);
         off = status_off E fap + status_internal_off E bs (bl_write_sz s);
         buf = (replicate (max_align E) (area_erased_val E fap))[0 := st_state bs];
         (r1, w1) = area_write E fap off (take (unat (area_align E fap)) buf) (bl_w s) in
     if rc \<noteq> 0 then (BOOT_EFLASH, bl_w s)
     else if r1 \<noteq> 0 then (BOOT_EFLASH, w1)
     else (0, w1))"

unbundle bit_operations_syntax

section \<open>Validation\<close>

definition boot_image_check :: "'w boot_env \<Rightarrow> 'w loader \<Rightarrow> image_header \<Rightarrow> flash_area \<Rightarrow> fih" where
  "boot_image_check E s hdr fap = fst (img_validate E (bl_curr s) hdr fap [] (bl_w s))"

definition split_image_check :: "'w boot_env \<Rightarrow> bool \<Rightarrow> image_header \<Rightarrow> flash_area \<Rightarrow> image_header \<Rightarrow> flash_area \<Rightarrow> 'w \<Rightarrow> fih" where
  "split_image_check E tmpbuf app_hdr app_fap loader_hdr loader_fap w =
    (if \<not> tmpbuf then FIH_FAILURE
     else let (r1, loader_hash) = img_validate E 0 loader_hdr loader_fap [] w in
       if r1 \<noteq> FIH_SUCCESS then r1
       else fst (img_validate E 0 app_hdr app_fap loader_hash w))"

definition boot_is_header_valid :: "'w boot_env \<Rightarrow> image_header \<Rightarrow> flash_area \<Rightarrow> bool" where
  "boot_is_header_valid E hdr fap =
    (ih_magic hdr = IMAGE_MAGIC \<and>
     (case u32_safe_add E (ih_img_size hdr) (ucast (ih_hdr_size hdr)) of
        None \<Rightarrow> False
      | Some sz \<Rightarrow> \<not> sz \<ge> fa_size fap))"

text \<open>
  The counter of \<open>boot_data_is_set_to\<close> has eight bits: on more than 255 equal bytes it never
  reaches the length. \<open>None\<close> stands for a loop that does not end, or a read behind the data.
\<close>

partial_function (option) is_set_from :: "u8 \<Rightarrow> u8 list \<Rightarrow> nat \<Rightarrow> u8 \<Rightarrow> bool option" where
  "is_set_from val p len i =
    (if unat i < len then
       if unat i < length p then
         if val \<noteq> p ! unat i then Some False else is_set_from val p len (i + 1)
       else None
     else Some True)"

declare is_set_from.simps [code]

definition boot_data_is_set_to :: "u8 \<Rightarrow> u8 list \<Rightarrow> nat \<Rightarrow> bool option" where
  "boot_data_is_set_to val p len = is_set_from val p len 0"

definition boot_check_header_erased :: "'w boot_env \<Rightarrow> 'w loader \<Rightarrow> nat \<Rightarrow> int" where
  "boot_check_header_erased E s slot =
    (let (rc, fap) = area_open E (slot_area_id E (bl_curr s) slot) (bl_w s) in
     if rc \<noteq> 0 then -1
     else if boot_data_is_set_to (area_erased_val E fap) (le32 (ih_magic (boot_img_hdr s slot))) 4 \<noteq> Some True
       then -1
     else 0)"

definition boot_version_cmp :: "image_version \<Rightarrow> image_version \<Rightarrow> int" where
  "boot_version_cmp ver1 ver2 =
    (if iv_major ver1 > iv_major ver2 then 1
     else if iv_major ver1 < iv_major ver2 then -1
     else if iv_minor ver1 > iv_minor ver2 then 1
     else if iv_minor ver1 < iv_minor ver2 then -1
     else if iv_revision ver1 > iv_revision ver2 then 1
     else if iv_revision ver1 < iv_revision ver2 then -1
     else 0)"

definition boot_validate_slot :: "'w boot_env \<Rightarrow> build \<Rightarrow> 'w loader \<Rightarrow> nat \<Rightarrow> fih \<times> 'w" where
  "boot_validate_slot E B s slot =
    (let (rc, fap) = area_open E (slot_area_id E (bl_curr s) slot) (bl_w s); hdr = boot_img_hdr s slot in
     if rc \<noteq> 0 then (FIH_FAILURE, bl_w s)
     else if boot_check_header_erased E s slot = 0 \<or> ih_flags hdr AND IMAGE_F_NON_BOOTABLE \<noteq> 0 then
       (FIH_ENC 1,
        if (b_mode B = SwapScratch \<or> b_mode B = SwapMove) \<and> slot \<noteq> primary
        then snd (swap_erase_trailer E s fap) else bl_w s)
     else if (b_mode B = OverwriteOnly \<or> b_mode B = OverwriteFast) \<and> b_downgrade B \<and> slot \<noteq> primary
           \<and> boot_version_cmp (ih_ver (boot_img_hdr s secondary)) (ih_ver (boot_img_hdr s primary)) < 0
           \<and> boot_check_header_erased E s primary \<noteq> 0 then
       (FIH_ENC 1, snd (area_erase E fap 0 (fa_size fap) (bl_w s)))
     else if \<not> boot_is_header_valid E hdr fap \<or> boot_image_check E s hdr fap \<noteq> FIH_SUCCESS then
       (FIH_ENC 1,
        if slot \<noteq> primary \<or> b_slots_equivalent B
        then snd (area_erase E fap 0 (fa_size fap) (bl_w s)) else bl_w s)
     else (FIH_SUCCESS, bl_w s))"

definition boot_update_security_counter :: "'w boot_env \<Rightarrow> nat \<Rightarrow> nat \<Rightarrow> image_header \<Rightarrow> 'w \<Rightarrow> int \<times> 'w" where
  "boot_update_security_counter E img slot hdr w =
    (let (rc, fap) = area_open E (slot_area_id E img slot) w;
         (r1, cnt) = security_cnt E hdr fap w in
     if rc \<noteq> 0 then (BOOT_EFLASH, w)
     else if r1 \<noteq> 0 then (r1, w)
     else nv_counter_update E img cnt w)"

section \<open>Lemmas: headers and versions\<close>

lemma is_set_from_upto:
  assumes "k \<le> 255" "k \<le> length p"
  shows "i \<le> k \<Longrightarrow> is_set_from v p k (of_nat i) = Some (\<forall>j\<in>{i..<k}. p ! j = v)"
proof (induction "k - i" arbitrary: i)
  case 0
  then show ?case using assms by (subst is_set_from.simps) (simp add: unat_of_nat)
next
  case (Suc n)
  then have i: "i < k" "unat (of_nat i :: u8) = i" using assms by (simp_all add: unat_of_nat)
  have next_ok: "is_set_from v p k (of_nat (Suc i)) = Some (\<forall>j\<in>{Suc i..<k}. p ! j = v)"
    using Suc by (intro Suc.hyps) simp_all
  have range: "{i..<k} = insert i {Suc i..<k}" using i by auto
  show ?case using i assms next_ok
    by (subst is_set_from.simps) (auto simp: range add.commute)
qed

lemma data_is_set_to_iff:
  "k \<le> 255 \<Longrightarrow> k \<le> length p \<Longrightarrow> boot_data_is_set_to v p k = Some (\<forall>j<k. p ! j = v)"
  using is_set_from_upto [of k p 0 v] by (auto simp: boot_data_is_set_to_def)

lemma validate_slot_success:
  assumes "boot_validate_slot E B s slot = (FIH_SUCCESS, w')"
  shows "w' = bl_w s"
    and "fst (area_open E (slot_area_id E (bl_curr s) slot) (bl_w s)) = 0"
    and "boot_check_header_erased E s slot \<noteq> 0"
    and "ih_flags (boot_img_hdr s slot) AND IMAGE_F_NON_BOOTABLE = 0"
    and "boot_is_header_valid E (boot_img_hdr s slot) (snd (area_open E (slot_area_id E (bl_curr s) slot) (bl_w s)))"
    and "boot_image_check E s (boot_img_hdr s slot) (snd (area_open E (slot_area_id E (bl_curr s) slot) (bl_w s))) = FIH_SUCCESS"
  using assms by (auto simp: boot_validate_slot_def Let_def split: prod.splits if_splits)

lemma validate_slot_results:
  "fst (boot_validate_slot E B s slot) \<in> {FIH_SUCCESS, FIH_FAILURE, FIH_ENC 1}"
  by (auto simp: boot_validate_slot_def Let_def split: prod.splits)

lemma validate_slot_failure:
  "fst (boot_validate_slot E B s slot) = FIH_FAILURE \<longleftrightarrow>
   fst (area_open E (slot_area_id E (bl_curr s) slot) (bl_w s)) \<noteq> 0"
  by (auto simp: boot_validate_slot_def Let_def split: prod.splits)

lemma validate_primary_keeps_world:
  "\<not> b_slots_equivalent B \<Longrightarrow> snd (boot_validate_slot E B s primary) = bl_w s"
  by (auto simp: boot_validate_slot_def Let_def split: prod.splits)

lemma is_set_from_none:
  assumes "is_set_from v p len i = Some b" "255 < len" "\<forall>j<256. p ! j = v"
  shows False
proof -
  have "is_set_from v p len i = Some b \<Longrightarrow> 255 < len \<longrightarrow> (\<forall>j<256. p ! j = v) \<longrightarrow> False" for b
  proof (induction rule: is_set_from.raw_induct [rotated, consumes 1])
    case (1 rec v p len i b)
    have "unat i < 256" by (rule unat_u8_less)
    then show ?case using 1 by (auto split: if_splits)
  qed
  then show False using assms by blast
qed

lemma is_set_from_differs:
  assumes "k < 256" "k < len" "len \<le> length p" "p ! k \<noteq> v" "\<forall>j<k. p ! j = v"
  shows "i \<le> k \<Longrightarrow> is_set_from v p len (of_nat i) = Some False"
proof (induction "k - i" arbitrary: i)
  case 0
  then show ?case using assms by (subst is_set_from.simps) (simp add: unat_of_nat)
next
  case (Suc n)
  then have "is_set_from v p len (of_nat (Suc i)) = Some False"
    by (intro Suc.hyps) simp_all
  then show ?case using assms Suc
    by (subst is_set_from.simps) (simp add: unat_of_nat add.commute)
qed

lemma data_is_set_to_loops:
  assumes "255 < n" "\<forall>j<256. p ! j = v"
  shows "boot_data_is_set_to v p n = None"
  using is_set_from_none [OF _ assms] unfolding boot_data_is_set_to_def
  by (cases "is_set_from v p n 0") simp_all

lemma data_is_set_to_differs:
  assumes "n \<le> length p" "j < n" "j < 256" "p ! j \<noteq> v"
  shows "boot_data_is_set_to v p n = Some False"
proof -
  define k where "k = (LEAST j. p ! j \<noteq> v)"
  have "p ! k \<noteq> v" "k \<le> j" "\<forall>l<k. p ! l = v"
    using assms(4) LeastI [of "\<lambda>j. p ! j \<noteq> v" j] Least_le [of "\<lambda>j. p ! j \<noteq> v" j] not_less_Least
    unfolding k_def by blast+
  then show ?thesis
    using assms is_set_from_differs [of k n p v 0] by (simp add: boot_data_is_set_to_def)
qed

text \<open>
  the check of erased bytes ends for every length up to 255 and tells whether all bytes have the value. For a
  longer stretch it still finds a difference among the first 256 bytes, and on 256 bytes of the value it never
  ends, since its counter has eight bits.
\<close>

theorem erased_check_complete:
  "n \<le> length p \<Longrightarrow>
   boot_data_is_set_to v p n =
     (if n \<le> 255 then Some (\<forall>j<n. p ! j = v)
      else if \<forall>j<256. p ! j = v then None else Some False)"
  using data_is_set_to_iff [of n p v] data_is_set_to_loops [of n p v] data_is_set_to_differs [of n p _ v]
  by auto

theorem erased_check_complete_witness:
  "boot_data_is_set_to 255 (replicate 300 255) 300 = None \<and>
   boot_data_is_set_to 255 (replicate 4 255) 4 = Some True"
  using erased_check_complete [of 300 "replicate 300 255" 255] erased_check_complete [of 4 "replicate 4 255" 255]
  by simp_all

text \<open>The version as one number, without the build number.\<close>

definition version_key :: "image_version \<Rightarrow> nat" where
  "version_key v = unat (iv_major v) * 16777216 + unat (iv_minor v) * 65536 + unat (iv_revision v)"

lemma lexicographic_key:
  fixes a b c x y z :: nat
  assumes "b < 256" "y < 256" "c < 65536" "z < 65536"
  shows "(if x < a then 1 else if a < x then -1 else if y < b then 1 else if b < y then -1
          else if z < c then 1 else if c < z then -1 else (0::int)) =
    sgn (int (a * 16777216 + b * 65536 + c) - int (x * 16777216 + y * 65536 + z))"
proof (rule linorder_cases [of a x])
  assume "a < x"
  then show ?thesis using assms by (simp add: sgn_if)
next
  assume "x < a"
  then show ?thesis using assms by (simp add: sgn_if)
next
  assume "a = x"
  then show ?thesis using assms by (auto simp: sgn_if)
qed

lemma version_cmp_key:
  "boot_version_cmp v1 v2 = sgn (int (version_key v1) - int (version_key v2))"
  unfolding boot_version_cmp_def version_key_def word_less_nat_alt
  by (rule lexicographic_key) (rule unat_u8_less unat_u16_less)+

definition safe_add_law :: "'w boot_env \<Rightarrow> bool" where
  "safe_add_law E \<longleftrightarrow>
    (\<forall>a b. u32_safe_add E a b = (if unat a + unat b < 2 ^ 32 then Some (a + b) else None))"

lemma header_valid_exact:
  assumes "safe_add_law E"
  shows "boot_is_header_valid E hdr fap \<longleftrightarrow>
    ih_magic hdr = IMAGE_MAGIC \<and> unat (ih_img_size hdr) + unat (ih_hdr_size hdr) < unat (fa_size fap)"
proof -
  have size_lt: "unat (fa_size fap) < 2 ^ 32" using unat_u32_less [of "fa_size fap"] by simp
  have cast: "unat (ucast (ih_hdr_size hdr) :: u32) = unat (ih_hdr_size hdr)"
    by simp
  show ?thesis
  proof (cases "unat (ih_img_size hdr) + unat (ih_hdr_size hdr) < 2 ^ 32")
    case True
    then have "unat (ih_img_size hdr + ucast (ih_hdr_size hdr)) = unat (ih_img_size hdr) + unat (ih_hdr_size hdr)"
      by (simp add: unat_word_ariths cast)
    then show ?thesis using assms True
      by (auto simp: boot_is_header_valid_def safe_add_law_def cast word_le_nat_alt not_le)
  next
    case False
    then show ?thesis using assms size_lt
      by (auto simp: boot_is_header_valid_def safe_add_law_def cast)
  qed
qed

section \<open>A small flash for the examples\<close>

text \<open>
  Two images with two slots each; per area the bytes, the header, whether the image would
  validate, and the type of the swap that is asked for.
\<close>

record demo_flash =
  df_mem :: "nat \<Rightarrow> u8 list"
  df_hdr :: "nat \<Rightarrow> image_header"
  df_good :: "nat \<Rightarrow> bool"
  df_swap :: swap_type
  df_net :: "(u32 \<times> u32) list"

definition demo_header :: "u8 \<Rightarrow> image_header" where
  "demo_header v = \<lparr>ih_magic = IMAGE_MAGIC, ih_load_addr = 0, ih_hdr_size = 2, ih_protect_tlv_size = 0,
     ih_img_size = 8, ih_flags = 0,
     ih_ver = \<lparr>iv_major = v, iv_minor = 0, iv_revision = 0, iv_build_num = 0\<rparr>\<rparr>"

definition demo_area :: "nat \<Rightarrow> flash_area" where
  "demo_area i = \<lparr>fa_id = i, fa_off = 4096 * of_nat i, fa_size = 4096, fa_dev_name = ''MX25R64'', fa_device_id = 1\<rparr>"

definition demo_swap :: "demo_flash \<Rightarrow> demo_flash" where
  "demo_swap w = w\<lparr>df_hdr := (df_hdr w)(0 := df_hdr w 1, 1 := df_hdr w 0),
     df_good := (df_good w)(0 := df_good w 1, 1 := df_good w 0), df_swap := Swap_None\<rparr>"

definition boot_demo :: "demo_flash boot_env" where
  "boot_demo = \<lparr>
    slot_area_id = \<lambda>i slot. 2 * i + slot, primary_id = \<lambda>i. 2 * i, secondary_id = \<lambda>i. 2 * i + 1, scratch_id = 9,
    area_open = \<lambda>i w. (0, demo_area i),
    area_read = \<lambda>a off n w. let m = df_mem w (fa_id a) in
      if unat off + n \<le> length m then (0, take n (drop (unat off) m)) else (-1, []),
    area_write = \<lambda>a off d w. let m = df_mem w (fa_id a) in
      if unat off + length d \<le> length m
      then (0, w\<lparr>df_mem := (df_mem w)(fa_id a := take (unat off) m @ d @ drop (unat off + length d) m)\<rparr>)
      else (-1, w),
    area_erase = \<lambda>a off sz w. (0, w\<lparr>df_mem := (df_mem w)(fa_id a := map (\<lambda>_. 255) (df_mem w (fa_id a))),
      df_good := (df_good w)(fa_id a := False)\<rparr>),
    area_align = \<lambda>a. 4, area_erased_val = \<lambda>a. 255,
    area_sectors = \<lambda>i w. (0, [\<lparr>sec_off = 0, sec_size = 2048\<rparr>, \<lparr>sec_off = 2048, sec_size = 2048\<rparr>]),
    device_erase = \<lambda>name off sz w. (0, w\<lparr>df_swap := Swap_None\<rparr>),
    mapped_header = \<lambda>a w. df_hdr w 1, mapped_u32 = \<lambda>a w. 0, max_align = 8,
    tlv_off = \<lambda>h. ucast (ih_hdr_size h) + ih_img_size h,
    u32_safe_add = \<lambda>a b. if unat a + unat b < 2 ^ 32 then Some (a + b) else None,
    read_image_header = \<lambda>s slot bs. (0, df_hdr (bl_w s) (2 * bl_curr s + slot)),
    img_validate = \<lambda>i h a seed w. (if df_good w (fa_id a) then FIH_SUCCESS else FIH_FAILURE, []),
    tlv_dependencies = \<lambda>h a w. (0, if fa_id a = 3 then [(0, 0, 12)] else []),
    dependency_size = 12, dependency_of = \<lambda>bs. \<lparr>dep_image_id = 0, dep_min_version = ih_ver (demo_header 5)\<rparr>,
    is_upgrade = \<lambda>t. t = Swap_Test \<or> t = Swap_Perm \<or> t = Swap_Revert,
    swap_type_multi = \<lambda>i w. df_swap w, slots_compatible = \<lambda>s. True,
    swap_read_status = \<lambda>s bs. (0, bs), swap_run = \<lambda>s bs n. (s\<lparr>bl_w := demo_swap (bl_w s)\<rparr>, bs),
    swap_erase_trailer = \<lambda>s a. (0, (bl_w s)\<lparr>df_swap := Swap_None\<rparr>),
    swap_set_image_ok = \<lambda>i w. (0, w), swap_set_copy_done = \<lambda>i w. (0, w), read_swap_size = \<lambda>i w. (0, 8),
    read_swap_state = \<lambda>a w. (0, \<lparr>ss_magic_good = True, ss_copy_done = True, ss_image_ok = True\<rparr>),
    write_copy_done = \<lambda>a w. (0, w), write_magic = \<lambda>a w. (0, w), trailer_sz = \<lambda>x. 64,
    status_off = \<lambda>a. 0, status_internal_off = \<lambda>bs x. 0, status_start = (1, 1, 1),
    security_cnt = \<lambda>h a w. (0, 1), nv_counter_update = \<lambda>i n w. (0, w),
    pcd_update = \<lambda>a n w. (0, w\<lparr>df_net := df_net w @ [(a, n)]\<rparr>), qspi_xip = \<lambda>on w. w, ram_load = \<lambda>a bs w. w\<rparr>"

lemma boot_demo_simps [simp]:
  "slot_area_id boot_demo = (\<lambda>i slot. 2 * i + slot)"
  "primary_id boot_demo = (\<lambda>i. 2 * i)"
  "secondary_id boot_demo = (\<lambda>i. 2 * i + 1)"
  "scratch_id boot_demo = (9)"
  "area_open boot_demo = (\<lambda>i w. (0, demo_area i))"
  "area_read boot_demo = (\<lambda>a off n w. let m = df_mem w (fa_id a) in if unat off + n \<le> length m then (0, take n (drop (unat off) m)) else (-1, []))"
  "area_write boot_demo = (\<lambda>a off d w. let m = df_mem w (fa_id a) in if unat off + length d \<le> length m then (0, w\<lparr>df_mem := (df_mem w)(fa_id a := take (unat off) m @ d @ drop (unat off + length d) m)\<rparr>) else (-1, w))"
  "area_erase boot_demo = (\<lambda>a off sz w. (0, w\<lparr>df_mem := (df_mem w)(fa_id a := map (\<lambda>_. 255) (df_mem w (fa_id a))), df_good := (df_good w)(fa_id a := False)\<rparr>))"
  "area_align boot_demo = (\<lambda>a. 4)"
  "area_erased_val boot_demo = (\<lambda>a. 255)"
  "area_sectors boot_demo = (\<lambda>i w. (0, [\<lparr>sec_off = 0, sec_size = 2048\<rparr>, \<lparr>sec_off = 2048, sec_size = 2048\<rparr>]))"
  "device_erase boot_demo = (\<lambda>name off sz w. (0, w\<lparr>df_swap := Swap_None\<rparr>))"
  "mapped_header boot_demo = (\<lambda>a w. df_hdr w 1)"
  "mapped_u32 boot_demo = (\<lambda>a w. 0)"
  "max_align boot_demo = (8)"
  "tlv_off boot_demo = (\<lambda>h. ucast (ih_hdr_size h) + ih_img_size h)"
  "u32_safe_add boot_demo = (\<lambda>a b. if unat a + unat b < 2 ^ 32 then Some (a + b) else None)"
  "read_image_header boot_demo = (\<lambda>s slot bs. (0, df_hdr (bl_w s) (2 * bl_curr s + slot)))"
  "img_validate boot_demo = (\<lambda>i h a seed w. (if df_good w (fa_id a) then FIH_SUCCESS else FIH_FAILURE, []))"
  "tlv_dependencies boot_demo = (\<lambda>h a w. (0, if fa_id a = 3 then [(0, 0, 12)] else []))"
  "dependency_size boot_demo = (12)"
  "dependency_of boot_demo = (\<lambda>bs. \<lparr>dep_image_id = 0, dep_min_version = ih_ver (demo_header 5)\<rparr>)"
  "is_upgrade boot_demo = (\<lambda>t. t = Swap_Test \<or> t = Swap_Perm \<or> t = Swap_Revert)"
  "swap_type_multi boot_demo = (\<lambda>i w. df_swap w)"
  "slots_compatible boot_demo = (\<lambda>s. True)"
  "swap_read_status boot_demo = (\<lambda>s bs. (0, bs))"
  "swap_run boot_demo = (\<lambda>s bs n. (s\<lparr>bl_w := demo_swap (bl_w s)\<rparr>, bs))"
  "swap_erase_trailer boot_demo = (\<lambda>s a. (0, (bl_w s)\<lparr>df_swap := Swap_None\<rparr>))"
  "swap_set_image_ok boot_demo = (\<lambda>i w. (0, w))"
  "swap_set_copy_done boot_demo = (\<lambda>i w. (0, w))"
  "read_swap_size boot_demo = (\<lambda>i w. (0, 8))"
  "read_swap_state boot_demo = (\<lambda>a w. (0, \<lparr>ss_magic_good = True, ss_copy_done = True, ss_image_ok = True\<rparr>))"
  "write_copy_done boot_demo = (\<lambda>a w. (0, w))"
  "write_magic boot_demo = (\<lambda>a w. (0, w))"
  "trailer_sz boot_demo = (\<lambda>x. 64)"
  "status_off boot_demo = (\<lambda>a. 0)"
  "status_internal_off boot_demo = (\<lambda>bs x. 0)"
  "status_start boot_demo = ((1, 1, 1))"
  "security_cnt boot_demo = (\<lambda>h a w. (0, 1))"
  "nv_counter_update boot_demo = (\<lambda>i n w. (0, w))"
  "pcd_update boot_demo = (\<lambda>a n w. (0, w\<lparr>df_net := df_net w @ [(a, n)]\<rparr>))"
  "qspi_xip boot_demo = (\<lambda>on w. w)"
  "ram_load boot_demo = (\<lambda>a bs w. w)"
  by (simp_all add: boot_demo_def)

lemma safe_add_law_demo: "safe_add_law boot_demo"
  by (simp add: safe_add_law_def)

text \<open>
  the comparison of versions is that of one number: total, and blind to the build number.
\<close>

theorem version_cmp_reference:
  "boot_version_cmp v1 v2 = sgn (int (version_key v1) - int (version_key v2))"
  by (rule version_cmp_key)

text \<open>
  C25: a header is valid exactly when its magic is right and header and image together, computed without
  overflow, are smaller than the flash area.
\<close>

theorem header_fits_area:
  "safe_add_law E \<Longrightarrow> boot_is_header_valid E hdr fap \<longleftrightarrow>
    ih_magic hdr = IMAGE_MAGIC \<and> unat (ih_img_size hdr) + unat (ih_hdr_size hdr) < unat (fa_size fap)"
  by (rule header_valid_exact)

theorem header_fits_area_witness:
  "boot_is_header_valid boot_demo (demo_header 1) (demo_area 0) \<and>
   \<not> boot_is_header_valid boot_demo ((demo_header 1)\<lparr>ih_img_size := 0xFFFFFFFF\<rparr>) (demo_area 0)"
  unfolding header_fits_area [OF safe_add_law_demo] by (simp add: demo_header_def demo_area_def)

end
