(* ===== verification/LoaderSwap.thy ===== *)
theory LoaderSwap
  imports LoaderImage "HOL-Library.Monad_Syntax"
begin

text \<open>
  The boot loader, second part: which update to make (with the earlier versions of the repository's patch,
  \<open>appcore/hex/loader.c\<close> and \<open>loader1.c\<close> to \<open>loader3.c\<close>, whose other functions are those of \<open>9loader.c\<close>), copying
  and swapping of images, dependencies between images, and the preparation of one image.
\<close>

text \<open>
  \<open>None\<close> is a loader that stops: an assertion that fails (then the panic loop), or an index
  outside the table of sectors.
\<close>

definition assert_ok :: "int \<times> 'a \<Rightarrow> 'a option" where
  "assert_ok r = (if fst r = 0 then Some (snd r) else None)"

definition last_sector :: "'w loader \<Rightarrow> nat \<Rightarrow> boot_sector option" where
  "last_sector s slot = (if boot_img_sectors s slot = [] then None else Some (last (boot_img_sectors s slot)))"

section \<open>Which update to make\<close>

text \<open>
  The vector table of the image in the secondary slot: its address, the address of the reset
  handler, and whether the header that was read is that of an image. In internal flash it is
  read through the memory map, in external flash with \<open>flash_area_read\<close>.
\<close>

definition in_internal_flash :: "flash_area \<Rightarrow> bool" where
  "in_internal_flash fa = (fa_dev_name fa = ''NRF_FLASH_DRV_NAME'')"

definition update_header :: "'w boot_env \<Rightarrow> 'w loader \<Rightarrow> image_header" where
  "update_header E s =
    (let fa = boot_img_area s secondary in
     if in_internal_flash fa then mapped_header E (fa_off fa) (bl_w s) else boot_img_hdr s secondary)"

definition rd_u32 :: "u8 list \<Rightarrow> u32" where
  "rd_u32 bs = ucast (bs ! 0) + 256 * ucast (bs ! 1) + 65536 * ucast (bs ! 2) + 16777216 * ucast (bs ! 3)"

definition update_vectors :: "'w boot_env \<Rightarrow> 'w loader \<Rightarrow> (u32 \<times> u32) option" where
  "update_vectors E s =
    (let fa = boot_img_area s secondary; hdr = update_header E s; hsz = ucast (ih_hdr_size hdr) in
     if ih_magic hdr \<noteq> IMAGE_MAGIC then Some (0, 0)
     else if in_internal_flash fa then
       Some (fa_off fa + hsz, mapped_u32 E (fa_off fa + hsz + 4) (bl_w s))
     else let (rc, bs) = area_read E fa (hsz + 4) 4 (bl_w s) in
       if rc \<noteq> 0 then None else Some (0x10000000 + hsz, rd_u32 bs))"

definition erase_update_trailer :: "'w boot_env \<Rightarrow> 'w loader \<Rightarrow> 'w \<Rightarrow> 'w option" where
  "erase_update_trailer E s w =
    (let fa = boot_img_area s secondary in
     if in_internal_flash fa then Some (snd (swap_erase_trailer E (s\<lparr>bl_w := w\<rparr>) fa))
     else map_option (\<lambda>sec.
       if \<not> sec_off sec > fa_size fa \<and> \<not> sec_off sec + sec_size sec > fa_size fa
       then snd (device_erase E (fa_dev_name fa) (fa_off fa + sec_off sec) (sec_size sec) w)
       else w) (last_sector s secondary))"

definition for_other_image :: "'w boot_env \<Rightarrow> build \<Rightarrow> 'w loader \<Rightarrow> image_header \<Rightarrow> u32 \<Rightarrow> (bool, swap_type) sum" where
  "for_other_image E B s hdr reset =
    (let (rc, fa) = area_open E (slot_area_id E (bl_curr s) primary) (bl_w s) in
     if \<not> b_s1 B \<or> ih_magic hdr \<noteq> IMAGE_MAGIC then Inl False
     else if rc \<noteq> 0 then Inr Swap_Fail
     else Inl (reset < fa_off fa \<or> reset > fa_off fa + fa_size fa))"

text \<open>
  The decision, over the parts in which the versions of the patch differ: the header and the
  vectors of the update, the update of the network core, the removal of the trailer.
\<close>

definition swap_type_by :: "'w boot_env \<Rightarrow> build \<Rightarrow> 'w loader \<Rightarrow> image_header \<Rightarrow> (u32 \<times> u32) option \<Rightarrow>
    (u32 \<Rightarrow> u32 \<Rightarrow> 'w \<Rightarrow> int \<times> 'w) \<Rightarrow> ('w \<Rightarrow> 'w option) \<Rightarrow> (swap_type \<times> 'w) option" where
  "swap_type_by E B s hdr vectors update trailer =
    (case (if b_s1 B \<or> b_nrf5340 B then vectors else Some (0, 0)) of
       None \<Rightarrow> Some (Swap_Fail, bl_w s)
     | Some (vtable, reset) \<Rightarrow>
    (case for_other_image E B s hdr reset of
       Inr t \<Rightarrow> Some (t, bl_w s)
     | Inl True \<Rightarrow> Some (Swap_None, bl_w s)
     | Inl False \<Rightarrow>
    (let t = swap_type_multi E (bl_curr s) (bl_w s) in
     if \<not> is_upgrade E t then Some (t, bl_w s)
     else
       let (fih_rc, w1) = boot_validate_slot E B s secondary;
           t1 = (if fih_rc = FIH_SUCCESS then t else if fih_rc = FIH_ENC 1 then Swap_None else Swap_Fail) in
       case (if b_nrf5340 B then b_net_b0n B else None) of
         None \<Rightarrow> Some (t1, w1)
       | Some b0n \<Rightarrow>
         if fih_rc = FIH_SUCCESS \<and> reset > b0n then
           let (rc, w2) = update vtable (ih_img_size hdr) w1 in
           if rc \<noteq> 0 then Some (Swap_Fail, w2)
           else map_option (Pair Swap_None) (trailer w2)
         else Some (t1, w1))))"

definition boot_validated_swap_type :: "'w boot_env \<Rightarrow> build \<Rightarrow> 'w loader \<Rightarrow> (swap_type \<times> 'w) option" where
  "boot_validated_swap_type E B s =
    swap_type_by E B s (update_header E s) (update_vectors E s) (pcd_update E) (erase_update_trailer E s)"

subsection \<open>The earlier versions of the patch\<close>

text \<open>
  The repository keeps four earlier versions. The first takes the header from the loader's state
  (at the address \<open>hdr_addr\<close>), reads both words of the vector table and takes the first, the
  initial stack pointer, for the address of the image. The second switches the mapping of the
  external flash on and off around the update. Both erase the trailer with the swap's function,
  as does \<open>loader.c\<close>; \<open>loader3.c\<close> erases the last sector without checking its place.
\<close>

definition update_vectors1 :: "'w boot_env \<Rightarrow> u32 \<Rightarrow> 'w loader \<Rightarrow> (u32 \<times> u32) option" where
  "update_vectors1 E hdr_addr s =
    (let fa = boot_img_area s secondary; hdr = boot_img_hdr s secondary; hsz = ucast (ih_hdr_size hdr) in
     if ih_magic hdr \<noteq> IMAGE_MAGIC then Some (0, 0)
     else if in_internal_flash fa then
       Some (hdr_addr + hsz, mapped_u32 E (hdr_addr + hsz + 4) (bl_w s))
     else let (rc, bs) = area_read E fa hsz 8 (bl_w s) in
       if rc \<noteq> 0 then None else Some (rd_u32 bs, rd_u32 (drop 4 bs)))"

definition erase_trailer_by_swap :: "'w boot_env \<Rightarrow> 'w loader \<Rightarrow> 'w \<Rightarrow> 'w option" where
  "erase_trailer_by_swap E s w = Some (snd (swap_erase_trailer E (s\<lparr>bl_w := w\<rparr>) (boot_img_area s secondary)))"

definition erase_trailer_unchecked :: "'w boot_env \<Rightarrow> 'w loader \<Rightarrow> 'w \<Rightarrow> 'w option" where
  "erase_trailer_unchecked E s w =
    (let fa = boot_img_area s secondary in
     if in_internal_flash fa then erase_trailer_by_swap E s w
     else map_option (\<lambda>sec. snd (area_erase E fa (sec_off sec) (sec_size sec) w)) (last_sector s secondary))"

definition update_with_xip :: "'w boot_env \<Rightarrow> 'w loader \<Rightarrow> bool \<Rightarrow> u32 \<Rightarrow> u32 \<Rightarrow> 'w \<Rightarrow> int \<times> 'w" where
  "update_with_xip E s off_again vtable fw_size w =
    (if in_internal_flash (boot_img_area s secondary) then pcd_update E vtable fw_size w
     else let (rc, w1) = pcd_update E vtable fw_size (qspi_xip E True w) in
       (rc, if off_again then qspi_xip E False w1 else w1))"

definition validated_swap_type_v0 :: "'w boot_env \<Rightarrow> build \<Rightarrow> 'w loader \<Rightarrow> (swap_type \<times> 'w) option" where
  "validated_swap_type_v0 E B s =
    swap_type_by E B s (update_header E s) (update_vectors E s) (pcd_update E) (erase_trailer_by_swap E s)"

definition validated_swap_type_v1 :: "'w boot_env \<Rightarrow> build \<Rightarrow> u32 \<Rightarrow> 'w loader \<Rightarrow> (swap_type \<times> 'w) option" where
  "validated_swap_type_v1 E B hdr_addr s =
    swap_type_by E B s (boot_img_hdr s secondary) (update_vectors1 E hdr_addr s) (update_with_xip E s False)
      (erase_trailer_by_swap E s)"

definition validated_swap_type_v2 :: "'w boot_env \<Rightarrow> build \<Rightarrow> 'w loader \<Rightarrow> (swap_type \<times> 'w) option" where
  "validated_swap_type_v2 E B s =
    swap_type_by E B s (update_header E s) (update_vectors E s) (update_with_xip E s True) (erase_trailer_by_swap E s)"

definition validated_swap_type_v3 :: "'w boot_env \<Rightarrow> build \<Rightarrow> 'w loader \<Rightarrow> (swap_type \<times> 'w) option" where
  "validated_swap_type_v3 E B s =
    swap_type_by E B s (update_header E s) (update_vectors E s) (pcd_update E) (erase_trailer_unchecked E s)"

section \<open>Copying\<close>

definition boot_erase_region :: "'w boot_env \<Rightarrow> flash_area \<Rightarrow> u32 \<Rightarrow> u32 \<Rightarrow> 'w \<Rightarrow> int \<times> 'w" where
  "boot_erase_region E fap off sz w = area_erase E fap off sz w"

definition copy_chunk_sz :: "u32 \<Rightarrow> u32 \<Rightarrow> u32" where
  "copy_chunk_sz sz bytes_copied = (if sz - bytes_copied > 1024 then 1024 else sz - bytes_copied)"

lemma copy_chunk_sz_bounds:
  assumes "bytes_copied < sz"
  shows "0 < unat (copy_chunk_sz sz bytes_copied)"
    and "unat (copy_chunk_sz sz bytes_copied) \<le> 1024"
    and "unat (bytes_copied + copy_chunk_sz sz bytes_copied) = unat bytes_copied + unat (copy_chunk_sz sz bytes_copied)"
    and "unat bytes_copied + unat (copy_chunk_sz sz bytes_copied) \<le> unat sz"
proof -
  have d: "unat (sz - bytes_copied) = unat sz - unat bytes_copied" and l: "unat bytes_copied < unat sz"
    using assms unat_minus_le [of bytes_copied sz] by (simp_all add: word_less_nat_alt order.strict_implies_order)
  show a: "0 < unat (copy_chunk_sz sz bytes_copied)" "unat (copy_chunk_sz sz bytes_copied) \<le> 1024"
    using d l by (auto simp: copy_chunk_sz_def word_less_nat_alt)
  show b: "unat bytes_copied + unat (copy_chunk_sz sz bytes_copied) \<le> unat sz"
    using d l by (auto simp: copy_chunk_sz_def word_less_nat_alt)
  show "unat (bytes_copied + copy_chunk_sz sz bytes_copied) = unat bytes_copied + unat (copy_chunk_sz sz bytes_copied)"
    using b unat_u32_less [of sz] by (intro unat_plus_nowrap) simp
qed

function copy_from :: "'w boot_env \<Rightarrow> flash_area \<Rightarrow> flash_area \<Rightarrow> u32 \<Rightarrow> u32 \<Rightarrow> u32 \<Rightarrow> u32 \<Rightarrow> 'w \<Rightarrow> int \<times> 'w" where
  "copy_from E src dst off_src off_dst sz bytes_copied w =
    (if \<not> bytes_copied < sz then (0, w)
     else let chunk = copy_chunk_sz sz bytes_copied;
              (rc, buf) = area_read E src (off_src + bytes_copied) (unat chunk) w in
       if rc \<noteq> 0 then (BOOT_EFLASH, w)
       else let (r1, w1) = area_write E dst (off_dst + bytes_copied) buf w in
         if r1 \<noteq> 0 then (BOOT_EFLASH, w1)
         else copy_from E src dst off_src off_dst sz (bytes_copied + chunk) w1)"
  by pat_completeness auto

termination
proof (relation "measure (\<lambda>(E, src, dst, off_src, off_dst, sz, bytes_copied, w). unat sz - unat bytes_copied)", goal_cases)
  case (2 E src dst off_src off_dst sz bytes_copied w)
  then have "bytes_copied < sz" by simp
  from copy_chunk_sz_bounds [OF this] 2 show ?case by (simp add: word_less_nat_alt)
qed simp

declare copy_from.simps [simp del]

definition boot_copy_region :: "'w boot_env \<Rightarrow> flash_area \<Rightarrow> flash_area \<Rightarrow> u32 \<Rightarrow> u32 \<Rightarrow> u32 \<Rightarrow> 'w \<Rightarrow> int \<times> 'w" where
  "boot_copy_region E src dst off_src off_dst sz w = copy_from E src dst off_src off_dst sz 0 w"

primrec erase_for_copy :: "'w boot_env \<Rightarrow> build \<Rightarrow> flash_area \<Rightarrow> u32 \<Rightarrow> u32 \<Rightarrow> boot_sector list \<Rightarrow> u32 \<Rightarrow> 'w \<Rightarrow> (u32 \<times> 'w) option" where
  "erase_for_copy E B fap write_sz src_size [] sz w = Some (sz, w)"
| "erase_for_copy E B fap write_sz src_size (x # xs) sz w =
    do { w1 \<leftarrow> assert_ok (boot_erase_region E fap sz (sec_size x) w);
         if b_mode B = OverwriteFast \<and> \<not> sz + sec_size x < src_size
         then let sz1 = sz + (src_size - sz) in Some (sz1 + (write_sz - sz1 mod write_sz), w1)
         else erase_for_copy E B fap write_sz src_size xs (sz + sec_size x) w1 }"

text \<open>The sectors of the trailer, from the last one down: where they start and how long they are.\<close>

primrec trailer_region :: "u32 \<Rightarrow> boot_sector list \<Rightarrow> u32 \<Rightarrow> (u32 \<times> u32) option" where
  "trailer_region tsz [] sz = None"
| "trailer_region tsz (x # xs) sz =
    (let sz1 = sz + sec_size x in
     if sz1 < tsz then trailer_region tsz xs sz1 else Some (sec_off x, sz1))"

definition boot_copy_image :: "'w boot_env \<Rightarrow> build \<Rightarrow> 'w loader \<Rightarrow> (int \<times> 'w) option" where
  "boot_copy_image E B s =
    do { src_size \<leftarrow> (if b_mode B = OverwriteFast then assert_ok (boot_read_image_size E s secondary) else Some 0);
         pri \<leftarrow> assert_ok (area_open E (primary_id E (bl_curr s)) (bl_w s));
         sec \<leftarrow> assert_ok (area_open E (secondary_id E (bl_curr s)) (bl_w s));
         (sz, w1) \<leftarrow> erase_for_copy E B pri (bl_write_sz s) src_size (boot_img_sectors s primary) 0 (bl_w s);
         w2 \<leftarrow> (if b_mode B = OverwriteFast then
                 do { (off, tsz) \<leftarrow> trailer_region (trailer_sz E (bl_write_sz s)) (rev (boot_img_sectors s primary)) 0;
                      assert_ok (boot_erase_region E pri off tsz w1) }
               else Some w1);
         let (r3, w3) = boot_copy_region E sec pri 0 0 sz w2;
             (r4, w4) = (if b_mode B = OverwriteFast then write_magic E pri w3 else (0, w3));
             (r5, w5) = (if b_rollback B
                         then boot_update_security_counter E (bl_curr s) primary (boot_img_hdr s secondary) w4
                         else (0, w4)) in
         if r3 \<noteq> 0 then Some (r3, w3)
         else if r4 \<noteq> 0 then Some (r4, w4)
         else if r5 \<noteq> 0 then Some (r5, w5)
         else do {
           first \<leftarrow> (if boot_img_sectors s secondary = [] then None else Some (hd (boot_img_sectors s secondary)));
           w6 \<leftarrow> assert_ok (boot_erase_region E sec (sec_off first) (sec_size first) w5);
           end_sector \<leftarrow> last_sector s secondary;
           w7 \<leftarrow> assert_ok (boot_erase_region E sec (sec_off end_sector) (sec_size end_sector) w6);
           Some (0, w7) } }"

section \<open>Swapping\<close>

text \<open>The largest of the two images, when no swap was under way; else what the trailer says.\<close>

definition size_if_image :: "'w boot_env \<Rightarrow> 'w loader \<Rightarrow> nat \<Rightarrow> u32 option" where
  "size_if_image E s slot =
    (if ih_magic (boot_img_hdr s slot) = IMAGE_MAGIC then assert_ok (boot_read_image_size E s slot) else Some 0)"

definition boot_swap_image :: "'w boot_env \<Rightarrow> 'w loader \<Rightarrow> boot_status \<Rightarrow> ('w loader \<times> boot_status) option" where
  "boot_swap_image E s bs =
    (if boot_status_is_reset E bs then
       do { copy_size \<leftarrow> size_if_image E s primary;
            size2 \<leftarrow> size_if_image E s secondary;
            let n = (if size2 > copy_size then size2 else copy_size) in
            Some (swap_run E s (bs\<lparr>st_swap_size := n\<rparr>) n) }
     else
       do { n \<leftarrow> assert_ok (read_swap_size E (bl_curr s) (bl_w s));
            Some (swap_run E s (bs\<lparr>st_swap_size := n\<rparr>) n) })"

section \<open>Dependencies between images\<close>

definition boot_verify_slot_dependency :: "'w boot_env \<Rightarrow> image_dependency \<Rightarrow> 'w loader \<Rightarrow> int \<times> 'w loader" where
  "boot_verify_slot_dependency E dep s =
    (let t = bl_swap_type s (dep_image_id dep);
         dep_slot = (if is_upgrade E t then secondary else primary);
         rc = boot_version_cmp (ih_ver (bl_hdr s (dep_image_id dep) dep_slot)) (dep_min_version dep) in
     if rc < 0 then
       (rc, case boot_swap_type s of
              Swap_Test \<Rightarrow> set_swap_type Swap_None s
            | Swap_Perm \<Rightarrow> set_swap_type Swap_None s
            | Swap_None \<Rightarrow> set_swap_type Swap_Revert s
            | _ \<Rightarrow> s)
     else (0, s))"

text \<open>The turns of the loop over the dependency entries; each is what the iterator returned.\<close>

fun verify_entries :: "'w boot_env \<Rightarrow> build \<Rightarrow> flash_area \<Rightarrow> (int \<times> u32 \<times> nat) list \<Rightarrow> 'w loader \<Rightarrow> int \<times> 'w loader" where
  "verify_entries E B fap [] s = (0, s)"
| "verify_entries E B fap ((rc, off, len) # es) s =
    (if rc < 0 then (-1, s)
     else if rc > 0 then (0, s)
     else if len \<noteq> dependency_size E then (BOOT_EBADIMAGE, s)
     else let (r1, bs) = area_read E fap off len (bl_w s); dep = dependency_of E bs in
       if r1 \<noteq> 0 then (BOOT_EFLASH, s)
       else if dep_image_id dep \<ge> b_images B then (BOOT_EBADARGS, s)
       else let (r2, s1) = boot_verify_slot_dependency E dep s in
         if r2 \<noteq> 0 then (r2, s1) else verify_entries E B fap es s1)"

definition boot_verify_slot_dependencies :: "'w boot_env \<Rightarrow> build \<Rightarrow> nat \<Rightarrow> 'w loader \<Rightarrow> int \<times> 'w loader" where
  "boot_verify_slot_dependencies E B slot s =
    (let (rc, fap) = area_open E (slot_area_id E (bl_curr s) slot) (bl_w s);
         (r1, es) = tlv_dependencies E (boot_img_hdr s slot) fap (bl_w s) in
     if rc \<noteq> 0 then (BOOT_EFLASH, s)
     else if r1 \<noteq> 0 then (r1, s)
     else verify_entries E B fap es s)"

text \<open>The loop over the images that is left when \<open>n\<close> of them remain.\<close>

primrec verify_images :: "'w boot_env \<Rightarrow> build \<Rightarrow> nat \<Rightarrow> 'w loader \<Rightarrow> int \<times> 'w loader" where
  "verify_images E B 0 s = (-1, s)"
| "verify_images E B (Suc n) s =
    (let t = boot_swap_type s;
         slot = (if t \<noteq> Swap_None \<and> t \<noteq> Swap_Fail then secondary else primary);
         (rc, s1) = boot_verify_slot_dependencies E B slot s in
     if rc = 0 then
       let s2 = s1\<lparr>bl_curr := bl_curr s1 + 1\<rparr> in
       if n = 0 then (0, s2) else verify_images E B n s2
     else (rc, fold (\<lambda>idx s. set_swap_type Swap_None (s\<lparr>bl_curr := idx\<rparr>)) [0..<b_images B] s1))"

definition boot_verify_dependencies :: "'w boot_env \<Rightarrow> build \<Rightarrow> 'w loader \<Rightarrow> int \<times> 'w loader" where
  "boot_verify_dependencies E B s = verify_images E B (b_images B) (s\<lparr>bl_curr := 0\<rparr>)"

section \<open>Performing an update\<close>

text \<open>The flags of the trailer after a swap of the given type.\<close>

definition set_image_ok :: "'w boot_env \<Rightarrow> 'w loader \<Rightarrow> int \<times> 'w loader" where
  "set_image_ok E s =
    (let (rc, w) = swap_set_image_ok E (bl_curr s) (bl_w s); s1 = s\<lparr>bl_w := w\<rparr> in
     (rc, if rc \<noteq> 0 then set_swap_type Swap_Panic s1 else s1))"

definition set_copy_done :: "'w boot_env \<Rightarrow> 'w loader \<Rightarrow> int \<times> 'w loader" where
  "set_copy_done E s =
    (let (rc, w) = swap_set_copy_done E (bl_curr s) (bl_w s); s1 = s\<lparr>bl_w := w\<rparr> in
     (rc, if rc \<noteq> 0 then set_swap_type Swap_Panic s1 else s1))"

definition overwrites :: "build \<Rightarrow> bool" where
  "overwrites B \<longleftrightarrow> b_mode B = OverwriteOnly \<or> b_mode B = OverwriteFast"

definition move_images :: "'w boot_env \<Rightarrow> build \<Rightarrow> 'w loader \<Rightarrow> boot_status \<Rightarrow> ('w loader \<times> boot_status) option" where
  "move_images E B s bs =
    (let copy = (\<lambda>s. do { w1 \<leftarrow> (case boot_copy_image E B s of None \<Rightarrow> None | Some r \<Rightarrow> assert_ok r);
                           Some (s\<lparr>bl_w := w1\<rparr>, bs) }) in
     if overwrites B then copy s
     else if b_bootstrap B then
       let erased = boot_check_header_erased E s primary;
           (fih_rc, w1) = boot_validate_slot E B s primary; s1 = s\<lparr>bl_w := w1\<rparr> in
       if erased = 0 \<or> fih_rc \<noteq> FIH_SUCCESS then copy s1 else boot_swap_image E s1 bs
     else boot_swap_image E s bs)"

definition boot_perform_update :: "'w boot_env \<Rightarrow> build \<Rightarrow> 'w loader \<Rightarrow> boot_status \<Rightarrow> (int \<times> 'w loader \<times> boot_status) option" where
  "boot_perform_update E B s bs =
    do { (s1, bs1) \<leftarrow> move_images E B s bs;
         if overwrites B then Some (0, s1, bs1)
         else
           let t = boot_swap_type s1;
               (r2, s2) = (if t = Swap_Revert \<or> t = Swap_Perm then set_image_ok E s1 else (0, s1));
               t2 = (if r2 \<noteq> 0 then Swap_Panic else t);
               (r3, s3) = (if b_rollback B \<and> t2 = Swap_Perm then
                   let (rc, w) = boot_update_security_counter E (bl_curr s2) primary (boot_img_hdr s2 secondary) (bl_w s2);
                       s' = s2\<lparr>bl_w := w\<rparr> in
                   (rc, if rc \<noteq> 0 then set_swap_type Swap_Panic s' else s')
                 else (r2, s2));
               (r4, s4) = (if is_upgrade E t2 then set_copy_done E s3 else (r3, s3)) in
           Some (r4, s4, bs1) }"

definition boot_complete_partial_swap :: "'w boot_env \<Rightarrow> 'w loader \<Rightarrow> boot_status \<Rightarrow> (int \<times> 'w loader \<times> boot_status) option" where
  "boot_complete_partial_swap E s bs =
    do { (s1, bs1) \<leftarrow> boot_swap_image E s bs;
         let t = st_swap_type bs1;
             s2 = set_swap_type t s1;
             (r3, s3) = (if t = Swap_Revert \<or> t = Swap_Perm then set_image_ok E s2 else (0, s2));
             (r4, s4) = (if is_upgrade E t then set_copy_done E s3 else (r3, s3)) in
         if boot_swap_type s4 = Swap_Panic then None else Some (r4, s4, bs1) }"

definition boot_review_image_swap_types :: "bool \<Rightarrow> 'w loader \<Rightarrow> 'w loader" where
  "boot_review_image_swap_types aborted_swap s =
    (if bl_curr s = 0 then s
     else if \<not> aborted_swap \<and> (boot_swap_type s = Swap_None \<or> boot_swap_type s = Swap_Revert) then s
     else s\<lparr>bl_swap_type := (\<lambda>i. if i < bl_curr s \<and> bl_swap_type s i = Swap_Revert then Swap_None
                                 else bl_swap_type s i)\<rparr>)"

section \<open>Preparing an image\<close>

definition prepare_swap_type :: "'w boot_env \<Rightarrow> build \<Rightarrow> 'w loader \<Rightarrow> boot_status \<Rightarrow> ('w loader) option" where
  "prepare_swap_type E B s bs =
    do { s1 \<leftarrow> (if st_swap_type bs = Swap_None then
                 do { (t, w) \<leftarrow> boot_validated_swap_type E B s; Some (set_swap_type t (s\<lparr>bl_w := w\<rparr>)) }
               else
                 let (fih_rc, w) = boot_validate_slot E B s secondary in
                 Some (set_swap_type (if fih_rc \<noteq> FIH_SUCCESS then Swap_Fail else st_swap_type bs) (s\<lparr>bl_w := w\<rparr>)));
         let s2 = (if b_images B > 1 then boot_review_image_swap_types False s1 else s1) in
         if b_bootstrap B \<and> boot_swap_type s2 = Swap_None then
           let erased = boot_check_header_erased E s2 primary;
               (f3, w3) = boot_validate_slot E B s2 primary; s3 = s2\<lparr>bl_w := w3\<rparr> in
           if erased = 0 \<or> f3 \<noteq> FIH_SUCCESS then
             let magic = (ih_magic (boot_img_hdr s3 secondary) = IMAGE_MAGIC);
                 (f4, w4) = boot_validate_slot E B s3 secondary; s4 = s3\<lparr>bl_w := w4\<rparr> in
             Some (if magic \<and> f4 = FIH_SUCCESS then set_swap_type Swap_Revert s4 else s4)
           else Some s3
         else Some s2 }"

definition resume_swap :: "'w boot_env \<Rightarrow> build \<Rightarrow> 'w loader \<Rightarrow> boot_status \<Rightarrow> ('w loader \<times> boot_status) option" where
  "resume_swap E B s bs =
    (let s1 = (if b_images B > 1 then boot_review_image_swap_types True s else s) in
     if overwrites B then None
     else do {
       (rc, s2, bs2) \<leftarrow> boot_complete_partial_swap E s1 bs;
       if rc \<noteq> 0 then None
       else let (r3, s3) = boot_read_image_headers E B False (Some bs2) s2 in
         if r3 \<noteq> 0 then None else Some (set_swap_type Swap_None s3, bs2) })"

definition boot_prepare_image_for_update :: "'w boot_env \<Rightarrow> build \<Rightarrow> 'w loader \<Rightarrow> boot_status \<Rightarrow> ('w loader \<times> boot_status) option" where
  "boot_prepare_image_for_update E B s bs =
    (let (r1, s1) = boot_read_sectors E B s in
     if r1 \<noteq> 0 then Some (set_swap_type Swap_None s1, bs)
     else let (r2, s2) = boot_read_image_headers E B False None s1 in
     if r2 \<noteq> 0 then Some (set_swap_type Swap_None s2, bs)
     else if \<not> slots_compatible E s2 then Some (set_swap_type Swap_None s2, bs)
     else let (r3, bs3) = (if overwrites B then (0, boot_status_reset E bs)
                           else swap_read_status E s2 (boot_status_reset E bs)) in
     if r3 \<noteq> 0 then Some (set_swap_type Swap_None s2, bs3)
     else let (r4, s4) = (if b_mode B = SwapMove
                          then boot_read_image_headers E B (\<not> boot_status_is_reset E bs3) (Some bs3) s2
                          else (0, s2)) in
     if r4 \<noteq> 0 \<and> \<not> (b_bootstrap B \<and> bl_curr s4 = primary \<and> boot_check_header_erased E s4 primary = 0)
     then Some (set_swap_type Swap_None s4, bs3)
     else if \<not> boot_status_is_reset E bs3 then resume_swap E B s4 bs3
     else map_option (\<lambda>s5. (s5, bs3)) (prepare_swap_type E B s4 bs3))"

section \<open>Lemmas: copying\<close>

text \<open>
  What is relied on of the flash map: a read that succeeds gives the bytes of the area, a write
  that succeeds on erased bytes puts the data there and changes nothing else.
\<close>

definition flash_laws :: "'w boot_env \<Rightarrow> ('w \<Rightarrow> nat \<Rightarrow> nat \<Rightarrow> u8) \<Rightarrow> bool" where
  "flash_laws E mem \<longleftrightarrow>
    (\<forall>a off n w bs. area_read E a off n w = (0, bs) \<longrightarrow> bs = map (\<lambda>k. mem w (fa_id a) (unat off + k)) [0..<n]) \<and>
    (\<forall>a off d w w'. area_write E a off d w = (0, w') \<longrightarrow>
       (\<forall>k<length d. mem w (fa_id a) (unat off + k) = area_erased_val E a) \<longrightarrow>
       mem w' = (\<lambda>i p. if i = fa_id a \<and> unat off \<le> p \<and> p < unat off + length d then d ! (p - unat off) else mem w i p))"

lemma flash_read:
  "flash_laws E mem \<Longrightarrow> area_read E a off n w = (0, bs) \<Longrightarrow>
   bs = map (\<lambda>k. mem w (fa_id a) (unat off + k)) [0..<n]"
  unfolding flash_laws_def by (drule conjunct1) blast

lemma flash_write:
  "flash_laws E mem \<Longrightarrow> area_write E a off d w = (0, w') \<Longrightarrow>
   (\<forall>k<length d. mem w (fa_id a) (unat off + k) = area_erased_val E a) \<Longrightarrow>
   mem w' = (\<lambda>i p. if i = fa_id a \<and> unat off \<le> p \<and> p < unat off + length d then d ! (p - unat off) else mem w i p)"
  unfolding flash_laws_def by (drule conjunct2) blast

lemma copy_from_spec:
  assumes laws: "flash_laws E mem" and other: "fa_id src \<noteq> fa_id dst"
    and ranges: "unat off_src + unat sz < 2 ^ 32" "unat off_dst + unat sz < 2 ^ 32"
  shows "copy_from E src dst off_src off_dst sz c w = (0, w') \<Longrightarrow>
    (\<forall>k. unat c \<le> k \<and> k < unat sz \<longrightarrow> mem w (fa_id dst) (unat off_dst + k) = area_erased_val E dst) \<Longrightarrow>
    mem w' = (\<lambda>i p. if i = fa_id dst \<and> unat off_dst + unat c \<le> p \<and> p < unat off_dst + unat sz
                    then mem w (fa_id src) (unat off_src + (p - unat off_dst)) else mem w i p)"
proof (induction "unat sz - unat c" arbitrary: c w rule: less_induct)
  case less
  show ?case
  proof (cases "c < sz")
    case False
    then have "w' = w" "unat sz \<le> unat c"
      using less.prems(1) by (simp_all add: copy_from.simps [of E src dst off_src off_dst sz c] word_less_nat_alt)
    then show ?thesis by (intro ext) auto
  next
    case True
    define chunk where "chunk = copy_chunk_sz sz c"
    note bounds = copy_chunk_sz_bounds [OF True, folded chunk_def]
    have fits: "unat (off_src + c) = unat off_src + unat c" "unat (off_dst + c) = unat off_dst + unat c"
      using ranges bounds by (simp_all add: unat_plus_nowrap)
    obtain buf w1 where
      rd: "area_read E src (off_src + c) (unat chunk) w = (0, buf)" and
      wr: "area_write E dst (off_dst + c) buf w = (0, w1)" and
      rest: "copy_from E src dst off_src off_dst sz (c + chunk) w1 = (0, w')"
      using less.prems(1) True
      by (auto simp: copy_from.simps [of E src dst off_src off_dst sz c] chunk_def errno_defs Let_def
          split: prod.splits if_splits)
    have buf: "buf = map (\<lambda>k. mem w (fa_id src) (unat off_src + unat c + k)) [0..<unat chunk]"
      using flash_read [OF laws rd] by (simp only: fits)
    have m1: "mem w1 = (\<lambda>i p. if i = fa_id dst \<and> unat off_dst + unat c \<le> p \<and> p < unat off_dst + unat c + unat chunk
        then buf ! (p - (unat off_dst + unat c)) else mem w i p)"
    proof -
      have erased: "\<forall>k<length buf. mem w (fa_id dst) (unat (off_dst + c) + k) = area_erased_val E dst"
        using less.prems(2) bounds by (simp add: fits buf add.assoc)
      have "length buf = unat chunk" by (simp add: buf)
      then show ?thesis using flash_write [OF laws wr erased] by (simp only: fits)
    qed
    have ih: "mem w' = (\<lambda>i p. if i = fa_id dst \<and> unat off_dst + unat (c + chunk) \<le> p \<and> p < unat off_dst + unat sz
        then mem w1 (fa_id src) (unat off_src + (p - unat off_dst)) else mem w1 i p)"
    proof (rule less.hyps [OF _ rest])
      show "unat sz - unat (c + chunk) < unat sz - unat c" using bounds True by (simp add: word_less_nat_alt)
      show "\<forall>k. unat (c + chunk) \<le> k \<and> k < unat sz \<longrightarrow>
          mem w1 (fa_id dst) (unat off_dst + k) = area_erased_val E dst"
        using less.prems(2) bounds by (simp add: m1)
    qed
    show ?thesis
      using other bounds by (intro ext) (auto simp: ih m1 buf algebra_simps)
  qed
qed

section \<open>Lemmas: dependencies\<close>

text \<open>The dependency entries as the loader should read them, and when they are satisfied.\<close>

definition version_after :: "'w boot_env \<Rightarrow> 'w loader \<Rightarrow> nat \<Rightarrow> image_version" where
  "version_after E s i = ih_ver (bl_hdr s i (if is_upgrade E (bl_swap_type s i) then secondary else primary))"

fun entries_ok :: "'w boot_env \<Rightarrow> build \<Rightarrow> flash_area \<Rightarrow> 'w loader \<Rightarrow> (int \<times> u32 \<times> nat) list \<Rightarrow> bool" where
  "entries_ok E B fap s [] = True"
| "entries_ok E B fap s ((rc, off, len) # es) =
    (rc > 0 \<or>
     rc = 0 \<and> len = dependency_size E \<and>
     (let (r1, bs) = area_read E fap off len (bl_w s); dep = dependency_of E bs in
        r1 = 0 \<and> dep_image_id dep < b_images B \<and>
        version_key (dep_min_version dep) \<le> version_key (version_after E s (dep_image_id dep)) \<and>
        entries_ok E B fap s es))"

definition image_deps_ok :: "'w boot_env \<Rightarrow> build \<Rightarrow> 'w loader \<Rightarrow> nat \<Rightarrow> bool" where
  "image_deps_ok E B s i =
    (let slot = (if bl_swap_type s i = Swap_None \<or> bl_swap_type s i = Swap_Fail then primary else secondary);
         (rc, fap) = area_open E (slot_area_id E i slot) (bl_w s);
         (r1, es) = tlv_dependencies E (bl_hdr s i slot) fap (bl_w s) in
     rc = 0 \<and> r1 = 0 \<and> entries_ok E B fap s es)"

lemma sgn_neg_iff: "sgn (a - b) < 0 \<longleftrightarrow> a < (b::int)"
  by (simp add: sgn_if)

lemma verify_dependency_ok:
  "fst (boot_verify_slot_dependency E dep s) = 0 \<longleftrightarrow>
     version_key (dep_min_version dep) \<le> version_key (version_after E s (dep_image_id dep))"
  "fst (boot_verify_slot_dependency E dep s) = 0 \<Longrightarrow> snd (boot_verify_slot_dependency E dep s) = s"
  by (auto simp: boot_verify_slot_dependency_def version_after_def version_cmp_key Let_def sgn_neg_iff split: if_splits)

text \<open>What a failed check leaves: only the swap type of the image may differ.\<close>

definition same_but_types :: "'w loader \<Rightarrow> 'w loader \<Rightarrow> bool" where
  "same_but_types s s' \<longleftrightarrow> (\<exists>t. s' = set_swap_type t s)"

lemma same_but_types_refl [simp]: "same_but_types s s"
  unfolding same_but_types_def by (rule exI [of _ "boot_swap_type s"]) (simp add: set_swap_type_def boot_swap_type_def)

lemma verify_dependency_state: "same_but_types s (snd (boot_verify_slot_dependency E dep s))"
  by (auto simp: boot_verify_slot_dependency_def Let_def same_but_types_def [symmetric]
      split: swap_type.split intro: same_but_types_def [THEN iffD2])

lemma verify_entries_cons:
  "verify_entries E B fap ((0, off, dependency_size E) # es) s =
    (let (r1, bs) = area_read E fap off (dependency_size E) (bl_w s); dep = dependency_of E bs in
       if r1 \<noteq> 0 then (BOOT_EFLASH, s)
       else if dep_image_id dep \<ge> b_images B then (BOOT_EBADARGS, s)
       else let (r2, s1) = boot_verify_slot_dependency E dep s in
         if r2 \<noteq> 0 then (r2, s1) else verify_entries E B fap es s1)"
  by simp

lemma verify_entries_spec:
  "(entries_ok E B fap s es \<longrightarrow> verify_entries E B fap es s = (0, s)) \<and>
   (\<not> entries_ok E B fap s es \<longrightarrow> fst (verify_entries E B fap es s) \<noteq> 0) \<and>
   same_but_types s (snd (verify_entries E B fap es s))"
proof (induction es)
  case (Cons e es)
  obtain rc off len where e: "e = (rc, off, len)" by (cases e) auto
  obtain r1 bs where rd: "area_read E fap off (dependency_size E) (bl_w s) = (r1, bs)" by fastforce
  obtain r2 s2 where dep: "boot_verify_slot_dependency E (dependency_of E bs) s = (r2, s2)" by fastforce
  have d: "r2 = 0 \<longleftrightarrow> version_key (dep_min_version (dependency_of E bs))
      \<le> version_key (version_after E s (dep_image_id (dependency_of E bs)))"
    "r2 = 0 \<Longrightarrow> s2 = s" "same_but_types s s2"
    using verify_dependency_ok [of E "dependency_of E bs" s] verify_dependency_state [of s E "dependency_of E bs"] dep
    by simp_all
  show ?case
  proof (cases "rc = 0 \<and> len = dependency_size E")
    case True
    then show ?thesis using Cons d
      by (auto simp: e verify_entries_cons rd dep errno_defs Let_def simp del: verify_entries.simps(2))
  next
    case False
    then show ?thesis by (auto simp: e errno_defs)
  qed
qed simp

lemma entries_ok_curr [simp]: "entries_ok E B fap (s\<lparr>bl_curr := k\<rparr>) es = entries_ok E B fap s es"
proof (induction es)
  case (Cons e es)
  then show ?case by (cases e) (simp add: version_after_def Let_def split: prod.split)
qed simp

lemma image_deps_ok_curr [simp]: "image_deps_ok E B (s\<lparr>bl_curr := k\<rparr>) i = image_deps_ok E B s i"
  by (simp add: image_deps_ok_def)

definition types_cleared :: "build \<Rightarrow> 'w loader \<Rightarrow> 'w loader" where
  "types_cleared B s = s\<lparr>bl_swap_type := \<lambda>i. if i < b_images B then Swap_None else bl_swap_type s i,
     bl_curr := b_images B - 1\<rparr>"

lemma fold_clear_types:
  "0 < m \<Longrightarrow> fold (\<lambda>idx s. set_swap_type Swap_None (s\<lparr>bl_curr := idx\<rparr>)) [0..<m] s =
     s\<lparr>bl_swap_type := \<lambda>i. if i < m then Swap_None else bl_swap_type s i, bl_curr := m - 1\<rparr>"
proof (induction m)
  case (Suc m)
  then show ?case
    by (cases "m = 0") (auto simp: set_swap_type_def fun_upd_def less_Suc_eq intro!: loader.equality)
qed simp

lemma clear_after_failure:
  assumes "same_but_types s s1" "bl_curr s < b_images B"
  shows "fold (\<lambda>idx s. set_swap_type Swap_None (s\<lparr>bl_curr := idx\<rparr>)) [0..<b_images B] s1 = types_cleared B s"
proof -
  obtain t where "s1 = set_swap_type t s" using assms(1) by (auto simp: same_but_types_def)
  then show ?thesis using assms(2)
    by (simp add: fold_clear_types types_cleared_def) (auto simp: set_swap_type_def intro!: loader.equality)
qed

lemma slot_dependencies_spec:
  assumes "slot = (if boot_swap_type s \<noteq> Swap_None \<and> boot_swap_type s \<noteq> Swap_Fail then secondary else primary)"
  shows "(image_deps_ok E B s (bl_curr s) \<longrightarrow> boot_verify_slot_dependencies E B slot s = (0, s)) \<and>
    (\<not> image_deps_ok E B s (bl_curr s) \<longrightarrow> fst (boot_verify_slot_dependencies E B slot s) \<noteq> 0) \<and>
    same_but_types s (snd (boot_verify_slot_dependencies E B slot s))"
proof -
  have sl: "slot = (if bl_swap_type s (bl_curr s) = Swap_None \<or> bl_swap_type s (bl_curr s) = Swap_Fail
      then primary else secondary)"
    using assms by (simp add: boot_swap_type_def)
  obtain rc fap where o: "area_open E (slot_area_id E (bl_curr s) slot) (bl_w s) = (rc, fap)" by fastforce
  obtain r1 es where t: "tlv_dependencies E (boot_img_hdr s slot) fap (bl_w s) = (r1, es)" by fastforce
  have ok: "image_deps_ok E B s (bl_curr s) \<longleftrightarrow> rc = 0 \<and> r1 = 0 \<and> entries_ok E B fap s es"
    using o t by (simp add: image_deps_ok_def sl [symmetric] boot_img_hdr_def)
  show ?thesis
    using verify_entries_spec [of E B fap s es]
    by (auto simp: boot_verify_slot_dependencies_def o t ok errno_defs)
qed

lemma verify_images_spec:
  "0 < n \<Longrightarrow> bl_curr s + n = b_images B \<Longrightarrow>
   (if \<forall>i. bl_curr s \<le> i \<and> i < b_images B \<longrightarrow> image_deps_ok E B s i
    then verify_images E B n s = (0, s\<lparr>bl_curr := b_images B\<rparr>)
    else fst (verify_images E B n s) \<noteq> 0 \<and> snd (verify_images E B n s) = types_cleared B s)"
proof (induction n arbitrary: s)
  case (Suc n)
  let ?k = "bl_curr s"
  define slot where "slot = (if boot_swap_type s \<noteq> Swap_None \<and> boot_swap_type s \<noteq> Swap_Fail then secondary else primary)"
  note this_image = slot_dependencies_spec [OF slot_def, of E B]
  let ?s2 = "s\<lparr>bl_curr := Suc ?k\<rparr>"
  have split: "(\<forall>i. ?k \<le> i \<and> i < b_images B \<longrightarrow> image_deps_ok E B s i) \<longleftrightarrow>
      image_deps_ok E B s ?k \<and> (\<forall>i. Suc ?k \<le> i \<and> i < b_images B \<longrightarrow> image_deps_ok E B s i)"
    using Suc.prems by (metis Suc_leD Suc_leI add_Suc_right le_add1 le_neq_implies_less less_Suc_eq_le order_refl)
  show ?case
  proof (cases "image_deps_ok E B s ?k")
    case False
    then show ?thesis using this_image Suc.prems clear_after_failure [of s _ B]
      by (auto simp: split slot_def [symmetric] Let_def split: prod.split)
  next
    case True
    then have v: "boot_verify_slot_dependencies E B slot s = (0, s)" using this_image by blast
    show ?thesis
    proof (cases "n = 0")
      case True
      with Suc.prems \<open>image_deps_ok E B s ?k\<close> v show ?thesis
        by (auto simp: split slot_def [symmetric] Let_def)
    next
      case False
      have "types_cleared B ?s2 = types_cleared B s"
        by (auto simp: types_cleared_def intro!: loader.equality)
      moreover have "verify_images E B (Suc n) s = verify_images E B n ?s2"
        using v False by (simp add: slot_def [symmetric] Let_def)
      ultimately show ?thesis
        using Suc.IH [of ?s2] Suc.prems False \<open>image_deps_ok E B s ?k\<close> by (simp only: split) simp
    qed
  qed
qed simp

section \<open>Properties\<close>

text \<open>
  C10: a copy that reports success has put the source bytes into the destination, whatever the number of
  pieces, and has changed no other byte of the flash.
\<close>

theorem copy_region_exact:
  assumes "flash_laws E mem" "fa_id src \<noteq> fa_id dst"
    and "unat off_src + unat sz < 2 ^ 32" "unat off_dst + unat sz < 2 ^ 32"
    and "\<forall>k<unat sz. mem w (fa_id dst) (unat off_dst + k) = area_erased_val E dst"
    and "boot_copy_region E src dst off_src off_dst sz w = (0, w')"
  shows "mem w' = (\<lambda>i p. if i = fa_id dst \<and> unat off_dst \<le> p \<and> p < unat off_dst + unat sz
                         then mem w (fa_id src) (unat off_src + (p - unat off_dst)) else mem w i p)"
  using copy_from_spec [OF assms(1-4), of 0 w w'] assms(5,6) by (simp add: boot_copy_region_def)

definition demo_mem :: "demo_flash \<Rightarrow> nat \<Rightarrow> nat \<Rightarrow> u8" where
  "demo_mem w i p = (if p < length (df_mem w i) then df_mem w i ! p else 0)"

lemma demo_flash_laws: "flash_laws boot_demo demo_mem"
  unfolding flash_laws_def
proof (intro conjI allI impI)
  fix a off n w bs
  assume "area_read boot_demo a off n w = (0, bs)"
  then show "bs = map (\<lambda>k. demo_mem w (fa_id a) (unat off + k)) [0..<n]"
    by (auto simp:  demo_mem_def Let_def split: if_splits intro!: nth_equalityI)
next
  fix a off d w w'
  assume "area_write boot_demo a off d w = (0, w')"
  then show "demo_mem w' = (\<lambda>i p. if i = fa_id a \<and> unat off \<le> p \<and> p < unat off + length d
      then d ! (p - unat off) else demo_mem w i p)"
    by (intro ext) (auto simp:  demo_mem_def Let_def nth_append min_def split: if_splits)
qed

definition demo_flash0 :: demo_flash where
  "demo_flash0 = \<lparr>df_mem = (\<lambda>i. if i = 1 then [1, 2, 3, 4, 0, 0, 1, 128, 1, 0] else [255, 255, 255, 255]),
     df_hdr = (\<lambda>i. demo_header (if i = 1 then 2 else 1)), df_good = (\<lambda>i. True), df_swap = Swap_Test, df_net = []\<rparr>"

lemma demo_mem_flash0:
  "demo_mem demo_flash0 = (\<lambda>i p. if i = 1 then if p < 10 then [1, 2, 3, 4, 0, 0, 1, 128, 1, 0] ! p else 0
     else if p < 4 then 255 else 0)"
  by (intro ext) (auto simp: demo_mem_def demo_flash0_def nth_Cons split: nat.split)

theorem copy_region_exact_witness:
  "demo_mem (snd (boot_copy_region boot_demo (demo_area 1) (demo_area 0) 1 0 3 demo_flash0)) 0 2 = 4"
proof -
  have "boot_copy_region boot_demo (demo_area 1) (demo_area 0) 1 0 3 demo_flash0 =
      (0, snd (boot_copy_region boot_demo (demo_area 1) (demo_area 0) 1 0 3 demo_flash0))"
    unfolding boot_copy_region_def
    by (simp add: copy_from.simps  demo_area_def demo_flash0_def copy_chunk_sz_def)
  then have "demo_mem (snd (boot_copy_region boot_demo (demo_area 1) (demo_area 0) 1 0 3 demo_flash0)) =
      (\<lambda>i p. if i = fa_id (demo_area 0) \<and> unat (0 :: u32) \<le> p \<and> p < unat (0 :: u32) + unat (3 :: u32)
             then demo_mem demo_flash0 (fa_id (demo_area 1)) (unat (1 :: u32) + (p - unat (0 :: u32)))
             else demo_mem demo_flash0 i p)"
    by (rule copy_region_exact [OF demo_flash_laws, rotated -1])
      (simp_all add: demo_area_def demo_mem_flash0)
  then show ?thesis by (simp add: demo_area_def demo_mem_flash0)
qed

definition upgrade_law :: "'w boot_env \<Rightarrow> bool" where
  "upgrade_law E \<longleftrightarrow> (\<forall>t. is_upgrade E t \<longleftrightarrow> t \<in> {Swap_Test, Swap_Perm, Swap_Revert})"

lemma not_upgrade: "upgrade_law E \<Longrightarrow> \<not> is_upgrade E Swap_None" "upgrade_law E \<Longrightarrow> \<not> is_upgrade E Swap_Fail"
  by (simp_all add: upgrade_law_def)

lemma for_other_image_results: "for_other_image E B s hdr r = Inr t \<Longrightarrow> t = Swap_Fail"
  by (auto simp: for_other_image_def Let_def split: prod.splits if_splits)

lemma validated_upgrade:
  assumes "upgrade_law E" "boot_validated_swap_type E B s = Some (t, w')" "is_upgrade E t"
  shows "t = swap_type_multi E (bl_curr s) (bl_w s)" "boot_validate_slot E B s secondary = (FIH_SUCCESS, w')"
    and "b_nrf5340 B \<Longrightarrow> b_net_b0n B = Some b0n \<Longrightarrow> update_vectors E s = Some (vtable, reset) \<Longrightarrow> \<not> reset > b0n"
  using assms not_upgrade [OF assms(1)]
  by (auto simp: boot_validated_swap_type_def swap_type_by_def Let_def map_option_case
      split: option.splits prod.splits sum.splits bool.splits if_splits dest!: for_other_image_results)

text \<open>
  C4: an update is only chosen when it has been asked for and the image in the secondary slot has passed every
  check; nothing has been erased then, and on the nRF5340 the image is not one for the network core.
\<close>

theorem update_only_valid:
  assumes "upgrade_law E" "boot_validated_swap_type E B s = Some (t, w')" "is_upgrade E t"
  shows "t = swap_type_multi E (bl_curr s) (bl_w s) \<and> w' = bl_w s \<and>
    boot_check_header_erased E s secondary \<noteq> 0 \<and>
    ih_flags (boot_img_hdr s secondary) AND IMAGE_F_NON_BOOTABLE = 0 \<and>
    boot_is_header_valid E (boot_img_hdr s secondary)
      (snd (area_open E (slot_area_id E (bl_curr s) secondary) (bl_w s))) \<and>
    boot_image_check E s (boot_img_hdr s secondary)
      (snd (area_open E (slot_area_id E (bl_curr s) secondary) (bl_w s))) = FIH_SUCCESS \<and>
    (\<forall>b0n vtable reset. b_nrf5340 B \<longrightarrow> b_net_b0n B = Some b0n \<longrightarrow> update_vectors E s = Some (vtable, reset)
       \<longrightarrow> reset \<le> b0n)"
  using validated_upgrade(1,2) [OF assms] validated_upgrade(3) [OF assms]
    validate_slot_success [OF validated_upgrade(2) [OF assms]]
  by (simp add: not_less)

definition demo_build :: build where
  "demo_build = \<lparr>b_images = 1, b_mode = SwapMove, b_bootstrap = False, b_validate_primary = True, b_rollback = False,
     b_downgrade = False, b_xip_revert = False, b_s1 = False, b_nrf5340 = True, b_net_b0n = Some 0x01008800,
     b_slots_equivalent = False, b_ram_start = 0x20000000, b_ram_size = 0x10000\<rparr>"

lemma demo_build_simps [simp]:
  "b_images demo_build = 1" "b_mode demo_build = SwapMove" "\<not> b_bootstrap demo_build"
  "b_validate_primary demo_build" "\<not> b_rollback demo_build" "\<not> b_s1 demo_build" "b_nrf5340 demo_build"
  "b_net_b0n demo_build = Some 0x01008800" "\<not> b_slots_equivalent demo_build"
  "b_ram_start demo_build = 0x20000000" "b_ram_size demo_build = 0x10000" "\<not> b_xip_revert demo_build"
  "\<not> b_downgrade demo_build"
  by (simp_all add: demo_build_def)

lemma demo_upgrade_law: "upgrade_law boot_demo"
  by (auto simp: upgrade_law_def )

definition demo_loader :: "demo_flash \<Rightarrow> demo_flash loader" where
  "demo_loader w = \<lparr>bl_hdr = \<lambda>i slot. df_hdr w (2 * i + slot), bl_area = \<lambda>i slot. demo_area (2 * i + slot),
     bl_sectors = \<lambda>i slot. [\<lparr>sec_off = 0, sec_size = 2048\<rparr>, \<lparr>sec_off = 2048, sec_size = 2048\<rparr>],
     bl_scratch_area = demo_area 9, bl_scratch_sectors = [], bl_swap_type = \<lambda>i. Swap_Other 0,
     bl_curr = 0, bl_write_sz = 4, bl_w = w\<rparr>"

lemma magic_not_erased:
  "ih_magic (boot_img_hdr s slot) = IMAGE_MAGIC \<Longrightarrow> boot_check_header_erased boot_demo s slot = -1"
  by (simp add: boot_check_header_erased_def data_is_set_to_iff  IMAGE_MAGIC_def le32_def)
    (rule exI [of _ 0], simp)

lemma demo_validate:
  assumes "ih_magic (boot_img_hdr s slot) = IMAGE_MAGIC" "ih_img_size (boot_img_hdr s slot) = 8"
    "ih_hdr_size (boot_img_hdr s slot) = 2" "ih_flags (boot_img_hdr s slot) = 0"
    "df_good (bl_w s) (2 * bl_curr s + slot)" "\<not> b_downgrade B"
  shows "boot_validate_slot boot_demo B s slot = (FIH_SUCCESS, bl_w s)"
proof -
  have "boot_is_header_valid boot_demo (boot_img_hdr s slot) (demo_area (2 * bl_curr s + slot))"
    using assms by (simp add: header_valid_exact [OF safe_add_law_demo] demo_area_def)
  then show ?thesis using assms
    by (simp add: boot_validate_slot_def magic_not_erased) (simp add: boot_image_check_def demo_area_def)
qed

lemma demo_vectors: "update_vectors boot_demo (demo_loader demo_flash0) = Some (0x10000002, 0x18001)"
  by (simp add: update_vectors_def demo_loader_def demo_flash0_def in_internal_flash_def demo_area_def
      update_header_def boot_img_area_def boot_img_hdr_def demo_header_def rd_u32_def)

lemma demo_chooses_test:
  "boot_validated_swap_type boot_demo demo_build (demo_loader demo_flash0) = Some (Swap_Test, demo_flash0)"
proof -
  have v: "boot_validate_slot boot_demo demo_build (demo_loader demo_flash0) 1 = (FIH_SUCCESS, demo_flash0)"
    using demo_validate [of "demo_loader demo_flash0" 1 demo_build]
    by (simp add: demo_loader_def boot_img_hdr_def demo_flash0_def demo_header_def)
  show ?thesis
    by (simp add: boot_validated_swap_type_def swap_type_by_def v [unfolded One_nat_def] demo_vectors for_other_image_def Let_def split_def)
      (simp add: demo_loader_def demo_flash0_def)
qed

theorem update_only_valid_witness:
  "fst (img_validate boot_demo 0 (demo_header 2) (demo_area 1) [] demo_flash0) = FIH_SUCCESS"
  using update_only_valid [OF demo_upgrade_law demo_chooses_test]
  by (simp add: boot_image_check_def demo_loader_def boot_img_hdr_def demo_flash0_def)

text \<open>
  an image for the network core is never chosen as an update of the application, whatever its update ends
  with: the application's slots stay as they are.
\<close>

theorem network_image_not_swapped:
  assumes "upgrade_law E" "b_nrf5340 B" "b_net_b0n B = Some b0n" "\<not> b_bootstrap B"
    and "update_vectors E s = Some (vtable, reset)" "reset > b0n"
    and "st_swap_type bs = Swap_None" "prepare_swap_type E B s bs = Some s'"
  shows "\<not> is_upgrade E (boot_swap_type s')"
proof -
  obtain t w where v: "boot_validated_swap_type E B s = Some (t, w)"
      and s': "s' = (if b_images B > 1 then boot_review_image_swap_types False (set_swap_type t (s\<lparr>bl_w := w\<rparr>))
                     else set_swap_type t (s\<lparr>bl_w := w\<rparr>))"
    using assms(4,7,8) by (auto simp: prepare_swap_type_def Let_def bind_eq_Some_conv split: prod.splits)
  have "\<not> is_upgrade E t" using validated_upgrade(3) [OF assms(1) v _ assms(2,3,5)] assms(6) by blast
  then show ?thesis
    by (simp add: s' boot_review_image_swap_types_def boot_swap_type_def set_swap_type_def)
qed

definition demo_net_flash :: demo_flash where
  "demo_net_flash = demo_flash0\<lparr>df_mem := (\<lambda>i. [1, 2, 3, 4, 0, 0, 1, 128, 1, 1])\<rparr>"

lemma demo_net_vectors: "update_vectors boot_demo (demo_loader demo_net_flash) = Some (0x10000002, 0x01018001)"
  by (simp add: update_vectors_def demo_loader_def demo_net_flash_def demo_flash0_def in_internal_flash_def demo_area_def
      update_header_def boot_img_area_def boot_img_hdr_def demo_header_def rd_u32_def)

definition demo_status :: boot_status where
  "demo_status = \<lparr>st_use_scratch = 0, st_swap_size = 0, st_source = 0, st_op = 1, st_idx = 1, st_state = 1,
     st_swap_type = Swap_None\<rparr>"

lemma demo_net_validated:
  "boot_validated_swap_type boot_demo demo_build (demo_loader demo_net_flash) =
    Some (Swap_None, demo_net_flash\<lparr>df_net := [(0x10000002, 8)], df_swap := Swap_None\<rparr>)"
proof -
  have v: "boot_validate_slot boot_demo demo_build (demo_loader demo_net_flash) 1 = (FIH_SUCCESS, demo_net_flash)"
    using demo_validate [of "demo_loader demo_net_flash" 1 demo_build]
    by (simp add: demo_loader_def boot_img_hdr_def demo_net_flash_def demo_flash0_def demo_header_def)
  show ?thesis
    by (simp add: boot_validated_swap_type_def swap_type_by_def v [unfolded One_nat_def] demo_net_vectors for_other_image_def Let_def split_def
        erase_update_trailer_def last_sector_def)
      (simp add: demo_loader_def demo_net_flash_def demo_flash0_def boot_img_area_def demo_area_def
        in_internal_flash_def boot_img_sectors_def update_header_def boot_img_hdr_def demo_header_def)
qed

theorem network_image_not_swapped_witness:
  "\<exists>s'. prepare_swap_type boot_demo demo_build (demo_loader demo_net_flash) demo_status = Some s' \<and>
     \<not> is_upgrade boot_demo (boot_swap_type s')"
proof -
  obtain s' where "prepare_swap_type boot_demo demo_build (demo_loader demo_net_flash) demo_status = Some s'"
    by (simp add: prepare_swap_type_def demo_status_def demo_net_validated)
  with network_image_not_swapped [OF demo_upgrade_law _ _ _ demo_net_vectors, of demo_build "0x01008800" demo_status s']
  show ?thesis by (simp add: demo_status_def)
qed

text \<open>
  C8: dependencies are all or nothing: when every image, with the version it would have after the updates,
  satisfies the entries of all the others, the chosen updates stand; otherwise no image is updated or
  reverted. The swap type that a single unsatisfied entry sets is never seen.
\<close>

theorem dependencies_all_or_nothing:
  "0 < b_images B \<Longrightarrow>
   (if \<forall>i<b_images B. image_deps_ok E B s i
    then boot_verify_dependencies E B s = (0, s\<lparr>bl_curr := b_images B\<rparr>)
    else fst (boot_verify_dependencies E B s) \<noteq> 0 \<and>
      snd (boot_verify_dependencies E B s) =
        s\<lparr>bl_swap_type := \<lambda>i. if i < b_images B then Swap_None else bl_swap_type s i, bl_curr := b_images B - 1\<rparr>)"
proof -
  assume "0 < b_images B"
  moreover have "types_cleared B (s\<lparr>bl_curr := 0\<rparr>) =
      s\<lparr>bl_swap_type := \<lambda>i. if i < b_images B then Swap_None else bl_swap_type s i, bl_curr := b_images B - 1\<rparr>"
    by (auto simp: types_cleared_def intro!: loader.equality)
  ultimately show ?thesis
    using verify_images_spec [of "b_images B" "s\<lparr>bl_curr := 0\<rparr>" B E] by (simp add: boot_verify_dependencies_def)
qed

definition demo_two :: "demo_flash loader" where
  "demo_two = (demo_loader demo_flash0)\<lparr>bl_swap_type := (\<lambda>i. Swap_Test),
     bl_w := demo_flash0\<lparr>df_mem := \<lambda>i. replicate 16 0\<rparr>\<rparr>"

theorem dependencies_all_or_nothing_witness:
  "bl_swap_type (snd (boot_verify_dependencies boot_demo (demo_build\<lparr>b_images := 2\<rparr>) demo_two)) 0 = Swap_None"
proof -
  have "\<not> image_deps_ok boot_demo (demo_build\<lparr>b_images := 2\<rparr>) demo_two 1"
    by (simp add: image_deps_ok_def demo_two_def demo_loader_def demo_area_def version_after_def version_key_def
        demo_header_def demo_flash0_def)
  then show ?thesis
    using dependencies_all_or_nothing [of "demo_build\<lparr>b_images := 2\<rparr>" boot_demo demo_two]
    by (auto split: if_splits)
qed

lemma rd_u32_bytes: "rd_u32 (drop 4 (map f [0..<8])) = rd_u32 (map (\<lambda>k. f (4 + k)) [0..<4])"
  by (simp add: rd_u32_def)

lemma first_vectors:
  assumes "flash_laws E mem" "\<not> in_internal_flash (boot_img_area s secondary)"
    and "fst (area_read E (boot_img_area s secondary) (ucast (ih_hdr_size (boot_img_hdr s secondary))) 8 (bl_w s)) = 0"
    and "update_vectors E s = Some (vtable, reset)" "ih_magic (boot_img_hdr s secondary) = IMAGE_MAGIC"
  shows "update_vectors1 E a s = Some (rd_u32 (map (\<lambda>k. mem (bl_w s) (fa_id (boot_img_area s secondary))
    (unat (ih_hdr_size (boot_img_hdr s secondary)) + k)) [0..<4]), reset)"
proof -
  let ?fa = "boot_img_area s secondary" and ?hdr = "boot_img_hdr s secondary"
  let ?h = "ucast (ih_hdr_size ?hdr) :: u32"
  have h4: "unat (?h + 4) = unat (ih_hdr_size ?hdr) + 4"
    using unat_u16_less [of "ih_hdr_size ?hdr"] by (simp add: unat_plus_nowrap)
  obtain bs8 where r8: "area_read E ?fa ?h 8 (bl_w s) = (0, bs8)" using assms(3) by (metis prod.collapse)
  obtain bs4 where r4: "area_read E ?fa (?h + 4) 4 (bl_w s) = (0, bs4)" "reset = rd_u32 bs4"
    using assms(2,4,5) by (auto simp: update_vectors_def update_header_def Let_def split: prod.splits if_splits)
  have b8: "bs8 = map (\<lambda>k. mem (bl_w s) (fa_id ?fa) (unat (ih_hdr_size ?hdr) + k)) [0..<8]"
    using flash_read [OF assms(1) r8] by simp
  have "bs4 = map (\<lambda>k. mem (bl_w s) (fa_id ?fa) (unat (ih_hdr_size ?hdr) + 4 + k)) [0..<4]"
    using flash_read [OF assms(1) r4(1)] by (simp only: h4)
  then have "rd_u32 (drop 4 bs8) = reset" by (simp add: b8 r4(2) rd_u32_bytes add.assoc)
  moreover have "rd_u32 bs8 = rd_u32 (map (\<lambda>k. mem (bl_w s) (fa_id ?fa) (unat (ih_hdr_size ?hdr) + k)) [0..<4])"
    by (simp add: b8 rd_u32_def)
  ultimately show ?thesis using assms(2,5) r8 by (simp add: update_vectors1_def)
qed

lemma swap_type_by_application:
  assumes "b_net_b0n B = Some b0n" "reset \<le> b0n"
  shows "swap_type_by E B s hdr (Some (v1, reset)) u1 t1 = swap_type_by E B s hdr (Some (v2, reset)) u2 t2"
  using assms unfolding swap_type_by_def by (auto simp: Let_def not_less split: option.split sum.split bool.split prod.split)

text \<open>
  all versions of the patch treat an application's image in external flash alike. For an image of the network
  core the first one hands the stack pointer in the image's first word to the update as the address of the
  image.
\<close>

theorem patch_versions_agree:
  assumes "flash_laws E mem" "\<not> in_internal_flash (boot_img_area s secondary)"
    and "fst (area_read E (boot_img_area s secondary) (ucast (ih_hdr_size (boot_img_hdr s secondary))) 8 (bl_w s)) = 0"
    and "update_vectors E s = Some (vtable, reset)" "ih_magic (boot_img_hdr s secondary) = IMAGE_MAGIC"
  shows "(reset \<le> b0n \<longrightarrow>
      (\<forall>v \<in> {validated_swap_type_v0 E B s, validated_swap_type_v1 E B a s, validated_swap_type_v2 E B s,
             validated_swap_type_v3 E B s}. b_net_b0n B = Some b0n \<longrightarrow> v = boot_validated_swap_type E B s)) \<and>
    update_vectors1 E a s = Some (rd_u32 (map (\<lambda>k. mem (bl_w s) (fa_id (boot_img_area s secondary))
      (unat (ih_hdr_size (boot_img_hdr s secondary)) + k)) [0..<4]), reset)"
proof -
  have h: "update_header E s = boot_img_hdr s secondary" using assms(2) by (simp add: update_header_def)
  show ?thesis
    using first_vectors [OF assms, of a] swap_type_by_application [of B b0n reset E s "boot_img_hdr s secondary"]
    unfolding validated_swap_type_v0_def validated_swap_type_v1_def validated_swap_type_v2_def
      validated_swap_type_v3_def boot_validated_swap_type_def h assms(4)
    by auto
qed

theorem patch_versions_agree_witness:
  "validated_swap_type_v1 boot_demo demo_build 0 (demo_loader demo_flash0) =
   boot_validated_swap_type boot_demo demo_build (demo_loader demo_flash0)"
proof -
  have "\<not> in_internal_flash (boot_img_area (demo_loader demo_flash0) secondary)"
      "ih_magic (boot_img_hdr (demo_loader demo_flash0) secondary) = IMAGE_MAGIC"
      "fst (area_read boot_demo (boot_img_area (demo_loader demo_flash0) secondary)
        (ucast (ih_hdr_size (boot_img_hdr (demo_loader demo_flash0) secondary))) 8 (bl_w (demo_loader demo_flash0))) = 0"
    by (simp_all add: demo_loader_def boot_img_area_def boot_img_hdr_def in_internal_flash_def demo_area_def
        demo_flash0_def demo_header_def)
  from patch_versions_agree [OF demo_flash_laws this(1,3) demo_vectors this(2), of "0x01008800" demo_build 0]
  show ?thesis by simp
qed

end
