(* ===== verification/LoaderBoot.thy ===== *)
theory LoaderBoot
  imports LoaderSwap
begin

text \<open>
  The boot loader, third part: \<open>context_boot_go\<close>, which prepares, updates and checks all images and answers
  with the image to start, and \<open>split_go\<close>.
\<close>

section \<open>Starting the image\<close>

record boot_rsp =
  br_flash_dev_id :: u8
  br_image_off :: u32
  br_hdr :: image_header

text \<open>\<open>memset\<close> of the state: everything zero, no image magic anywhere.\<close>

definition zero_header :: image_header where
  "zero_header = \<lparr>ih_magic = 0, ih_load_addr = 0, ih_hdr_size = 0, ih_protect_tlv_size = 0, ih_img_size = 0,
     ih_flags = 0, ih_ver = \<lparr>iv_major = 0, iv_minor = 0, iv_revision = 0, iv_build_num = 0\<rparr>\<rparr>"

definition zero_area :: flash_area where
  "zero_area = \<lparr>fa_id = 0, fa_off = 0, fa_size = 0, fa_dev_name = [], fa_device_id = 0\<rparr>"

definition zero_loader :: "'w \<Rightarrow> 'w loader" where
  "zero_loader w = \<lparr>bl_hdr = \<lambda>_ _. zero_header, bl_area = \<lambda>_ _. zero_area, bl_sectors = \<lambda>_ _. [],
     bl_scratch_area = zero_area, bl_scratch_sectors = [], bl_swap_type = \<lambda>_. Swap_Other 0,
     bl_curr = 0, bl_write_sz = 0, bl_w = w\<rparr>"

primrec open_slots :: "'w boot_env \<Rightarrow> nat list \<Rightarrow> 'w loader \<Rightarrow> ('w loader) option" where
  "open_slots E [] s = Some s"
| "open_slots E (slot # slots) s =
    do { fa \<leftarrow> assert_ok (area_open E (slot_area_id E (bl_curr s) slot) (bl_w s));
         open_slots E slots (set_area slot fa s) }"

definition open_areas :: "'w boot_env \<Rightarrow> build \<Rightarrow> 'w loader \<Rightarrow> ('w loader) option" where
  "open_areas E B s =
    do { s1 \<leftarrow> open_slots E [primary, secondary] s;
         if b_mode B = SwapScratch
         then map_option (\<lambda>fa. s1\<lparr>bl_scratch_area := fa\<rparr>) (assert_ok (area_open E (scratch_id E) (bl_w s1)))
         else Some s1 }"

text \<open>
  The three loops over the images, each over the images still to come. With one image the
  macro \<open>IMAGES_ITER\<close> is empty: the body runs once and the index stays 0.
\<close>

definition images :: "build \<Rightarrow> nat list" where
  "images B = [0..<b_images B]"

definition end_of_images :: "build \<Rightarrow> 'w loader \<Rightarrow> 'w loader" where
  "end_of_images B s = (if b_images B > 1 then s\<lparr>bl_curr := b_images B\<rparr> else s)"

primrec prepare_images :: "'w boot_env \<Rightarrow> build \<Rightarrow> nat list \<Rightarrow> bool \<Rightarrow> 'w loader \<Rightarrow> boot_status \<Rightarrow> (bool \<times> 'w loader \<times> boot_status) option" where
  "prepare_images E B [] has_upgrade s bs = Some (has_upgrade, end_of_images B s, bs)"
| "prepare_images E B (i # is) has_upgrade s bs =
    do { s1 \<leftarrow> open_areas E B (s\<lparr>bl_curr := i\<rparr>);
         (s2, bs2) \<leftarrow> boot_prepare_image_for_update E B s1 bs;
         prepare_images E B is (has_upgrade \<or> is_upgrade E (boot_swap_type s2)) s2 bs2 }"

definition update_image :: "'w boot_env \<Rightarrow> build \<Rightarrow> 'w loader \<Rightarrow> boot_status \<Rightarrow> (int \<times> 'w loader \<times> boot_status) option" where
  "update_image E B s bs =
    (let bs1 = (if b_images B > 1 then boot_status_reset E bs else bs); bs2 = bs1\<lparr>st_swap_type := boot_swap_type s\<rparr> in
     case boot_swap_type s of
       Swap_None \<Rightarrow> Some (0, s, bs2)
     | Swap_Test \<Rightarrow> boot_perform_update E B s bs2
     | Swap_Perm \<Rightarrow> boot_perform_update E B s bs2
     | Swap_Revert \<Rightarrow> boot_perform_update E B s bs2
     | Swap_Fail \<Rightarrow>
         if overwrites B then Some (0, s, bs2) else let (rc, s1) = set_image_ok E s in Some (rc, s1, bs2)
     | _ \<Rightarrow> None)"

primrec update_images :: "'w boot_env \<Rightarrow> build \<Rightarrow> nat list \<Rightarrow> 'w loader \<Rightarrow> boot_status \<Rightarrow> ('w loader \<times> boot_status) option" where
  "update_images E B [] s bs = Some (end_of_images B s, bs)"
| "update_images E B (i # is) s bs =
    do { (rc, s1, bs1) \<leftarrow> update_image E B (s\<lparr>bl_curr := i\<rparr>) bs;
         if rc \<noteq> 0 \<or> boot_swap_type s1 = Swap_Panic then None else update_images E B is s1 bs1 }"

text \<open>The last check of an image before the start: what goes to \<open>out\<close> is \<open>Inr (rc, fih_rc)\<close>.\<close>

definition final_check :: "'w boot_env \<Rightarrow> build \<Rightarrow> 'w loader \<Rightarrow> fih \<Rightarrow> (fih, int \<times> fih) sum \<times> 'w loader" where
  "final_check E B s fih_rc =
    (if b_validate_primary B \<and> \<not> (b_s1 B \<and> bl_curr s \<noteq> 0) then
       let (f, w) = boot_validate_slot E B s primary in
       (if f \<noteq> FIH_SUCCESS then Inr (0, f) else Inl f, s\<lparr>bl_w := w\<rparr>)
     else if \<not> b_validate_primary B \<and> ih_magic (boot_img_hdr s primary) \<noteq> IMAGE_MAGIC then
       (Inr (BOOT_EBADIMAGE, fih_rc), s)
     else (Inl fih_rc, s))"

definition final_counter :: "'w boot_env \<Rightarrow> build \<Rightarrow> 'w loader \<Rightarrow> int \<times> 'w loader" where
  "final_counter E B s =
    (if b_rollback B \<and> boot_swap_type s = Swap_None then
       let (rc, w) = boot_update_security_counter E (bl_curr s) primary (boot_img_hdr s primary) (bl_w s) in
       (rc, s\<lparr>bl_w := w\<rparr>)
     else (0, s))"

primrec check_images :: "'w boot_env \<Rightarrow> build \<Rightarrow> boot_status \<Rightarrow> nat list \<Rightarrow> fih \<Rightarrow> 'w loader \<Rightarrow> (fih, int \<times> fih) sum \<times> 'w loader" where
  "check_images E B bs [] fih_rc s = (Inl fih_rc, end_of_images B s)"
| "check_images E B bs (i # is) fih_rc s =
    (let s0 = s\<lparr>bl_curr := i\<rparr>;
         (r1, s1) = (if boot_swap_type s0 \<noteq> Swap_None then boot_read_image_headers E B False (Some bs) s0 else (0, s0)) in
     if r1 \<noteq> 0 then (Inr (r1, fih_rc), s1)
     else let (r2, s2) = final_check E B s1 fih_rc in
       case r2 of
         Inr out \<Rightarrow> (Inr out, s2)
       | Inl f \<Rightarrow> let (r3, s3) = final_counter E B s2 in
           if r3 \<noteq> 0 then (Inr (r3, f), s3) else check_images E B bs is f s3)"

definition boot_response :: "'w loader \<Rightarrow> boot_rsp" where
  "boot_response s =
    \<lparr>br_flash_dev_id = fa_device_id (boot_img_area s primary), br_image_off = fa_off (boot_img_area s primary),
     br_hdr = boot_img_hdr s primary\<rparr>"

definition boot_end :: "build \<Rightarrow> (fih, int \<times> fih) sum \<times> 'w loader \<Rightarrow> fih \<times> boot_rsp option \<times> 'w loader" where
  "boot_end B r =
    (case r of
       (Inr (rc, f), s) \<Rightarrow> (if rc \<noteq> 0 then FIH_ENC rc else f, None, s)
     | (Inl f, s) \<Rightarrow>
         let s1 = (if b_images B > 1 then s\<lparr>bl_curr := 0\<rparr> else s) in
         (FIH_SUCCESS, Some (boot_response s1), s1))"

definition context_boot_go :: "'w boot_env \<Rightarrow> build \<Rightarrow> boot_status \<Rightarrow> 'w \<Rightarrow> (fih \<times> boot_rsp option \<times> 'w loader) option" where
  "context_boot_go E B bs0 w =
    do { (has_upgrade, s1, bs1) \<leftarrow> prepare_images E B (images B) False (zero_loader w) bs0;
         (s3, bs3) \<leftarrow> update_images E B (images B)
           (if b_images B > 1 \<and> has_upgrade then snd (boot_verify_dependencies E B s1) else s1) bs1;
         Some (boot_end B (check_images E B bs3 (images B) FIH_FAILURE s3)) }"

definition boot_go :: "'w boot_env \<Rightarrow> build \<Rightarrow> boot_status \<Rightarrow> 'w \<Rightarrow> (fih \<times> boot_rsp option \<times> 'w loader) option" where
  "boot_go E B bs0 w = context_boot_go E B bs0 w"

text \<open>The start of an image that was split in two; \<open>malloc\<close> and the buffer's are arguments.\<close>

definition split_go :: "'w boot_env \<Rightarrow> build \<Rightarrow> bool \<Rightarrow> bool \<Rightarrow> int \<Rightarrow> nat \<Rightarrow> nat \<Rightarrow> 'w loader \<Rightarrow> (fih \<times> u32 option \<times> 'w loader) option" where
  "split_go E B mem tmpbuf go_err loader_slot split_slot s =
    (if \<not> mem then Some (FIH_FAILURE, None, s)
     else do {
       s1 \<leftarrow> open_slots E [loader_slot, split_slot] s;
       let (r2, s2) = boot_read_sectors E B s1 in
       if r2 \<noteq> 0 then Some (if go_err \<noteq> 0 then FIH_ENC go_err else FIH_FAILURE, None, s2)
       else let (r3, s3) = boot_read_image_headers E B True None s2 in
       if r3 \<noteq> 0 then Some (FIH_ENC r3, None, s3)
       else let f = split_image_check E tmpbuf (boot_img_hdr s3 split_slot) (boot_img_area s3 split_slot)
                      (boot_img_hdr s3 loader_slot) (boot_img_area s3 loader_slot) (bl_w s3) in
       if f \<noteq> FIH_SUCCESS then Some (f, None, s3)
       else Some (FIH_SUCCESS,
              Some (fa_off (boot_img_area s3 split_slot) + ucast (ih_hdr_size (boot_img_hdr s3 split_slot))), s3) })"

section \<open>Lemmas: the last check\<close>

text \<open>The image \<open>i\<close> can be started: what has to be true of its primary slot.\<close>

definition startable :: "'w boot_env \<Rightarrow> 'w loader \<Rightarrow> nat \<Rightarrow> bool" where
  "startable E s i =
    (let (rc, fap) = area_open E (slot_area_id E i primary) (bl_w s); hdr = bl_hdr s i primary in
     rc = 0 \<and> boot_check_header_erased E (s\<lparr>bl_curr := i\<rparr>) primary \<noteq> 0 \<and>
     ih_flags hdr AND IMAGE_F_NON_BOOTABLE = 0 \<and> boot_is_header_valid E hdr fap \<and>
     fst (img_validate E i hdr fap [] (bl_w s)) = FIH_SUCCESS)"

lemma validate_primary_startable:
  "boot_validate_slot E B s primary = (FIH_SUCCESS, w) \<Longrightarrow> startable E s (bl_curr s)"
  using validate_slot_success [of E B s primary w]
  by (simp add: startable_def boot_img_hdr_def boot_image_check_def split_def)

lemma startable_validate_primary:
  "startable E s (bl_curr s) \<Longrightarrow> boot_validate_slot E B s primary = (FIH_SUCCESS, bl_w s)"
  by (auto simp: startable_def boot_validate_slot_def boot_img_hdr_def boot_image_check_def Let_def split: prod.splits)

lemma startable_cong:
  "bl_w s = bl_w s' \<Longrightarrow> bl_hdr s i = bl_hdr s' i \<Longrightarrow> startable E s i = startable E s' i"
  by (simp add: startable_def boot_check_header_erased_def boot_img_hdr_def Let_def split: prod.split)

text \<open>Reading the headers of the current image changes nothing but them.\<close>

definition same_but_headers :: "'w loader \<Rightarrow> 'w loader \<Rightarrow> bool" where
  "same_but_headers s s' \<longleftrightarrow> (\<exists>h. s' = s\<lparr>bl_hdr := (bl_hdr s)(bl_curr s := h)\<rparr>)"

lemma same_but_headers_refl [simp]: "same_but_headers s s"
  unfolding same_but_headers_def by (rule exI [of _ "bl_hdr s (bl_curr s)"]) simp

lemma same_but_headers_trans: "same_but_headers s s' \<Longrightarrow> same_but_headers s' s'' \<Longrightarrow> same_but_headers s s''"
  unfolding same_but_headers_def by force

lemma same_but_headers_set_hdr: "same_but_headers s (set_hdr slot h s)"
  unfolding same_but_headers_def set_hdr_def by blast

lemma same_but_headersD:
  assumes "same_but_headers s s'"
  shows "bl_w s' = bl_w s" "bl_curr s' = bl_curr s" "bl_swap_type s' = bl_swap_type s" "bl_area s' = bl_area s"
    "bl_sectors s' = bl_sectors s" "i \<noteq> bl_curr s \<Longrightarrow> bl_hdr s' i = bl_hdr s i"
  using assms by (auto simp: same_but_headers_def)

lemma read_headers_state: "same_but_headers s (snd (read_headers E B ra bs is s))"
proof (induction "is" arbitrary: s)
  case (Cons i "is")
  obtain rc h where r: "read_image_header E s i bs = (rc, h)" by fastforce
  show ?case
    using Cons.IH [of "set_hdr i h s"] same_but_headers_set_hdr [of s i h]
    by (auto simp: r Let_def intro: same_but_headers_trans)
qed simp

lemma boot_read_image_headers_state: "same_but_headers s (snd (boot_read_image_headers E B ra bs s))"
  unfolding boot_read_image_headers_def by (rule read_headers_state)

lemma final_check_Inl:
  assumes "final_check E B s f = (Inl f', s')"
  shows "s' = s" "b_validate_primary B \<Longrightarrow> \<not> b_s1 B \<or> bl_curr s = 0 \<Longrightarrow> startable E s (bl_curr s)"
  using assms validate_slot_success(1) [of E B s primary] validate_primary_startable [of E B s]
  by (auto simp: final_check_def split: prod.splits if_splits)

text \<open>
  With protection against rollback the security counters are written after the check of an image: these are the only
  writes that come after it.
\<close>

definition counter_step :: "'w boot_env \<Rightarrow> 'w \<Rightarrow> 'w \<Rightarrow> bool" where
  "counter_step E v w \<longleftrightarrow> (\<exists>img hdr. w = snd (boot_update_security_counter E img primary hdr v))"

definition counters_moved :: "'w boot_env \<Rightarrow> 'w \<Rightarrow> 'w \<Rightarrow> bool" where
  "counters_moved E = (counter_step E)\<^sup>*\<^sup>*"

text \<open>
  What has been checked of the image \<open>i\<close>: with validation of the primary slot, everything (not for the images other than
  the first when there is a second stage in S1); without it, the magic number of its header.
\<close>

definition image_checked :: "'w boot_env \<Rightarrow> build \<Rightarrow> 'w loader \<Rightarrow> nat \<Rightarrow> bool" where
  "image_checked E B s i \<longleftrightarrow>
     (b_validate_primary B \<and> (\<not> b_s1 B \<or> i = 0) \<longrightarrow>
        (\<exists>v. startable E (s\<lparr>bl_w := v\<rparr>) i \<and> counters_moved E v (bl_w s) \<and> (\<not> b_rollback B \<longrightarrow> v = bl_w s))) \<and>
     (\<not> b_validate_primary B \<longrightarrow> ih_magic (bl_hdr s i primary) = IMAGE_MAGIC)"

lemma image_checked_later:
  assumes "image_checked E B s i" "bl_hdr s' i = bl_hdr s i" "counters_moved E (bl_w s) (bl_w s')"
    and "\<not> b_rollback B \<longrightarrow> bl_w s' = bl_w s"
  shows "image_checked E B s' i"
proof -
  have "startable E (s'\<lparr>bl_w := v\<rparr>) i = startable E (s\<lparr>bl_w := v\<rparr>) i" for v
    using assms(2) by (intro startable_cong) simp_all
  then show ?thesis
    using assms unfolding image_checked_def counters_moved_def by (fastforce intro: rtranclp_trans)
qed

lemma final_check_checked:
  assumes "final_check E B s f = (Inl f', s')"
  shows "image_checked E B s (bl_curr s)"
proof (cases "b_validate_primary B")
  case True
  have "counters_moved E (bl_w s) (bl_w s)" by (simp add: counters_moved_def)
  moreover have "startable E (s\<lparr>bl_w := bl_w s\<rparr>) i = startable E s i" for i by (intro startable_cong) simp_all
  ultimately show ?thesis using final_check_Inl(2) [OF assms True] True unfolding image_checked_def by blast
next
  case False
  then show ?thesis using assms by (auto simp: final_check_def image_checked_def boot_img_hdr_def split: if_splits)
qed

lemma final_counter_moves:
  assumes "final_counter E B s = (r, s')"
  shows "counters_moved E (bl_w s) (bl_w s')" "\<not> b_rollback B \<longrightarrow> bl_w s' = bl_w s" "bl_hdr s' = bl_hdr s"
    "bl_curr s' = bl_curr s"
proof -
  have "bl_w s' = bl_w s \<or> counter_step E (bl_w s) (bl_w s')"
  proof (cases "b_rollback B \<and> boot_swap_type s = Swap_None")
    case True
    then have "bl_w s' = snd (boot_update_security_counter E (bl_curr s) primary (boot_img_hdr s primary) (bl_w s))"
      using assms by (auto simp: final_counter_def split_beta)
    then show ?thesis unfolding counter_step_def by blast
  next
    case False
    then show ?thesis using assms by (auto simp: final_counter_def)
  qed
  then show "counters_moved E (bl_w s) (bl_w s')" by (auto simp: counters_moved_def)
  show "\<not> b_rollback B \<longrightarrow> bl_w s' = bl_w s" "bl_hdr s' = bl_hdr s" "bl_curr s' = bl_curr s"
    using assms by (auto simp: final_counter_def split: prod.splits if_splits)
qed

lemma check_images_spec:
  "check_images E B bs is f s = (Inl f', s') \<Longrightarrow> distinct is \<Longrightarrow>
    counters_moved E (bl_w s) (bl_w s') \<and> (\<not> b_rollback B \<longrightarrow> bl_w s' = bl_w s) \<and>
    (\<forall>i. i \<notin> set is \<longrightarrow> bl_hdr s' i = bl_hdr s i) \<and> (\<forall>i\<in>set is. image_checked E B s' i) \<and>
    bl_curr s' = (if b_images B > 1 then b_images B else last (bl_curr s # is))"
proof (induction "is" arbitrary: f s)
  case Nil
  then show ?case by (auto simp: end_of_images_def counters_moved_def)
next
  case (Cons i "is")
  let ?s0 = "s\<lparr>bl_curr := i\<rparr>"
  obtain r1 s1 where r: "(if boot_swap_type ?s0 \<noteq> Swap_None then boot_read_image_headers E B False (Some bs) ?s0
      else (0, ?s0)) = (r1, s1)" by fastforce
  then have hdrs: "same_but_headers ?s0 s1"
    using boot_read_image_headers_state [of ?s0 E B False "Some bs"] same_but_headers_refl [of ?s0]
    by (auto split: if_splits)
  obtain o2 s2 where fin0: "final_check E B s1 f = (o2, s2)" by fastforce
  obtain r3 s3 where cnt: "final_counter E B s2 = (r3, s3)" by fastforce
  obtain f2 where fin: "final_check E B s1 f = (Inl f2, s2)" and rest: "check_images E B bs is f2 s3 = (Inl f', s')"
    using Cons.prems(1) fin0
    by (cases o2) (auto simp: r cnt Let_def split: if_splits)
  have s2: "s2 = s1" by (rule final_check_Inl(1) [OF fin])
  note m = final_counter_moves [OF cnt, unfolded s2]
  have i: "bl_curr s1 = i" "bl_w s1 = bl_w s" "\<And>j. j \<noteq> i \<Longrightarrow> bl_hdr s1 j = bl_hdr s j"
    using same_but_headersD [OF hdrs] by auto
  have ih: "counters_moved E (bl_w s3) (bl_w s')" "\<not> b_rollback B \<longrightarrow> bl_w s' = bl_w s3"
    "\<And>j. j \<notin> set is \<Longrightarrow> bl_hdr s' j = bl_hdr s3 j" "\<forall>i\<in>set is. image_checked E B s' i"
    "bl_curr s' = (if b_images B > 1 then b_images B else last (bl_curr s3 # is))"
    using Cons.IH [OF rest] Cons.prems(2) by auto
  have mv: "counters_moved E (bl_w s1) (bl_w s')" using m(1) ih(1) unfolding counters_moved_def by (rule rtranclp_trans)
  have "image_checked E B s1 i" using final_check_checked [OF fin] i(1) by simp
  then have "image_checked E B s' i"
    by (rule image_checked_later) (use mv m ih(2,3) Cons.prems(2) in auto)
  then show ?case using ih m mv i by auto
qed

lemma check_images_Inr:
  "check_images E B bs is f s = (Inr (rc, f'), s') \<Longrightarrow> rc \<noteq> 0 \<or> f' \<noteq> FIH_SUCCESS"
proof (induction "is" arbitrary: f s)
  case (Cons i "is")
  then show ?case
    by (auto simp: final_check_def errno_defs Let_def split: prod.splits if_splits sum.splits)
qed simp

text \<open>
  C2: when the boot loader answers with success, it answers with the primary slot of the first image; and if it was
  built to validate the primary slot, every image (with a second stage in S1, the first image) has passed
  every check on the flash as it then is, but for the writes to the security counters that follow the
  check in a build with protection against rollback. In a build that does not validate the primary slot
  the header of every image has the magic number.
\<close>

theorem boots_only_validated:
  assumes "0 < b_images B" and "context_boot_go E B bs0 w = Some (FIH_SUCCESS, rsp, s)"
  shows "(\<forall>i<b_images B.
      (b_validate_primary B \<and> (\<not> b_s1 B \<or> i = 0) \<longrightarrow>
        (\<exists>v. startable E (s\<lparr>bl_w := v\<rparr>) i \<and> counters_moved E v (bl_w s) \<and> (\<not> b_rollback B \<longrightarrow> v = bl_w s))) \<and>
      (\<not> b_validate_primary B \<longrightarrow> ih_magic (bl_hdr s i primary) = IMAGE_MAGIC)) \<and>
    rsp = Some \<lparr>br_flash_dev_id = fa_device_id (bl_area s 0 primary), br_image_off = fa_off (bl_area s 0 primary),
                br_hdr = bl_hdr s 0 primary\<rparr>"
proof -
  obtain s3 bs3 where go: "boot_end B (check_images E B bs3 (images B) FIH_FAILURE s3) = (FIH_SUCCESS, rsp, s)"
    using assms(2) by (auto simp: context_boot_go_def bind_eq_Some_conv)
  obtain r s4 where c0: "check_images E B bs3 (images B) FIH_FAILURE s3 = (r, s4)" by fastforce
  obtain f where c: "check_images E B bs3 (images B) FIH_FAILURE s3 = (Inl f, s4)"
    and s: "s = (if b_images B > 1 then s4\<lparr>bl_curr := 0\<rparr> else s4)" "rsp = Some (boot_response s)"
    using check_images_Inr [of E B bs3 "images B" FIH_FAILURE s3] go c0
    by (cases r) (auto simp: boot_end_def Let_def split: if_splits)
  have d: "distinct (images B)" by (simp add: images_def)
  note spec = check_images_spec [OF c d]
  have curr: "bl_curr s = 0"
    using spec s(1) assms(1) by (cases "b_images B > 1") (auto simp: images_def)
  have "image_checked E B s i" if "i < b_images B" for i
  proof (rule image_checked_later [of E B s4])
    show "image_checked E B s4 i" using spec that by (auto simp: images_def)
  qed (use s(1) in \<open>auto simp: counters_moved_def\<close>)
  then have "\<forall>i<b_images B. image_checked E B s i" by blast
  then show ?thesis
    using s(2) curr unfolding image_checked_def by (auto simp: boot_response_def boot_img_area_def boot_img_hdr_def)
qed

section \<open>Lemmas: a start with no swap under way\<close>

text \<open>
  The flash \<open>w\<close> can be read, the headers of the first image are \<open>h\<close>, and the trailers tell of no
  swap under way.
\<close>

definition idle :: "'w boot_env \<Rightarrow> (nat \<Rightarrow> image_header) \<Rightarrow> 'w \<Rightarrow> bool" where
  "idle E h w \<longleftrightarrow>
    (\<forall>i. fst (area_open E i w) = 0) \<and> (\<forall>i. fst (area_sectors E i w) = 0) \<and>
    (\<forall>s slot bs. bl_w s = w \<longrightarrow> bl_curr s = 0 \<longrightarrow> read_image_header E s slot bs = (0, h slot)) \<and>
    (\<forall>s bs. bl_w s = w \<longrightarrow> swap_read_status E s bs = (0, bs))"

text \<open>The loader at the first image, with its areas open, before and after the headers are read.\<close>

definition opened :: "'w boot_env \<Rightarrow> 'w \<Rightarrow> 'w loader \<Rightarrow> bool" where
  "opened E w s \<longleftrightarrow> bl_w s = w \<and> bl_curr s = 0 \<and>
    (\<forall>slot\<in>{primary, secondary}. bl_area s 0 slot = snd (area_open E (slot_area_id E 0 slot) w))"

definition headers_loaded :: "'w boot_env \<Rightarrow> (nat \<Rightarrow> image_header) \<Rightarrow> 'w \<Rightarrow> 'w loader \<Rightarrow> bool" where
  "headers_loaded E h w s \<longleftrightarrow> opened E w s \<and> bl_hdr s 0 primary = h primary \<and> bl_hdr s 0 secondary = h secondary"

lemma idleD:
  assumes "idle E h w"
  shows "fst (area_open E i w) = 0" "fst (area_sectors E i w) = 0"
    "bl_w s = w \<Longrightarrow> bl_curr s = 0 \<Longrightarrow> read_image_header E s slot bs = (0, h slot)"
    "bl_w s = w \<Longrightarrow> swap_read_status E s bs' = (0, bs')"
  using assms by (simp_all add: idle_def)

lemma status_is_reset [simp]: "boot_status_is_reset E (boot_status_reset E bs)"
  "st_swap_type (boot_status_reset E bs) = Swap_None"
  by (simp_all add: boot_status_is_reset_def boot_status_reset_def split: prod.split)

lemma set_fields [simp]:
  "bl_w (set_swap_type t s) = bl_w s" "bl_curr (set_swap_type t s) = bl_curr s"
  "bl_hdr (set_swap_type t s) = bl_hdr s" "boot_swap_type (set_swap_type t s) = t" "bl_area (set_swap_type t s) = bl_area s"
  "bl_w (set_sectors slot xs s) = bl_w s" "bl_curr (set_sectors slot xs s) = bl_curr s" "bl_area (set_sectors slot xs s) = bl_area s"
  "bl_w (set_area slot a s) = bl_w s" "bl_curr (set_area slot a s) = bl_curr s"
  "bl_w (set_hdr slot h s) = bl_w s" "bl_curr (set_hdr slot h s) = bl_curr s" "bl_area (set_hdr slot h s) = bl_area s"
  by (simp_all add: set_swap_type_def set_sectors_def set_area_def set_hdr_def boot_swap_type_def)

lemma open_areas_idle:
  assumes "idle E h w" "bl_w s = w" "bl_curr s = 0"
  shows "\<exists>s'. open_areas E B s = Some s' \<and> opened E w s'"
  using assms by (simp add: open_areas_def assert_ok_def idleD(1) opened_def set_area_def Let_def)

lemma read_image_headers_idle:
  assumes "idle E h w" "opened E w s"
  shows "\<exists>s'. boot_read_image_headers E B ra bs s = (0, s') \<and> headers_loaded E h w s'"
  using assms by (simp add: boot_read_image_headers_def idleD(3) opened_def headers_loaded_def Let_def)
    (simp add: set_hdr_def)

lemma initialize_area_idle:
  assumes "idle E h w" "opened E w s" "area \<in> {primary_id E 0, secondary_id E 0} \<or> b_mode B = SwapScratch \<and> area = scratch_id E"
  shows "\<exists>s'. boot_initialize_area E B area s = (0, s') \<and> opened E w s'"
proof -
  obtain rc xs where a: "area_sectors E area (bl_w s) = (rc, xs)" by fastforce
  then have "rc = 0" using idleD(2) [OF assms(1), of area] assms(2) by (simp add: opened_def)
  then have "boot_initialize_area E B area s =
      (if area = primary_id E (bl_curr s) then (0, set_sectors primary xs s)
       else if area = secondary_id E (bl_curr s) then (0, set_sectors secondary xs s)
       else if b_mode B = SwapScratch \<and> area = scratch_id E then (0, s\<lparr>bl_scratch_sectors := xs\<rparr>)
       else (BOOT_EFLASH, s))"
    by (simp add: boot_initialize_area_def a)
  then show ?thesis using assms(2,3) by (auto simp: opened_def)
qed

lemma read_sectors_idle:
  assumes "idle E h w" "opened E w s"
  shows "\<exists>s'. boot_read_sectors E B s = (0, s') \<and> opened E w s'"
proof -
  have curr: "bl_curr s = 0" using assms(2) by (simp add: opened_def)
  obtain s1 where 1: "boot_initialize_area E B (primary_id E 0) s = (0, s1)" "opened E w s1"
    using initialize_area_idle [OF assms, of "primary_id E 0" B] by auto
  obtain s2 where 2: "boot_initialize_area E B (secondary_id E 0) s1 = (0, s2)" "opened E w s2"
    using initialize_area_idle [OF assms(1) 1(2), of "secondary_id E 0" B] by auto
  obtain s3 where 3: "(if b_mode B = SwapScratch then boot_initialize_area E B (scratch_id E) s2 else (0, s2)) = (0, s3)"
      "opened E w s3"
    using initialize_area_idle [OF assms(1) 2(2), of "scratch_id E" B] 2 by (cases "b_mode B = SwapScratch") auto
  have "bl_curr s1 = 0" using 1 by (simp add: opened_def)
  then show ?thesis using 1 2 3 curr by (simp add: boot_read_sectors_def opened_def Let_def)
qed

lemma prepare_idle:
  assumes "idle E h w" "opened E w s" "\<not> overwrites B"
  shows "\<exists>s'. headers_loaded E h w s' \<and>
    (boot_prepare_image_for_update E B s bs = map_option (\<lambda>s5. (s5, boot_status_reset E bs))
        (prepare_swap_type E B s' (boot_status_reset E bs)) \<or>
     boot_prepare_image_for_update E B s bs = Some (set_swap_type Swap_None s', bs) \<and> (\<exists>s. \<not> slots_compatible E s))"
proof -
  obtain s1 where 1: "boot_read_sectors E B s = (0, s1)" "opened E w s1"
    using read_sectors_idle [OF assms(1,2)] by blast
  obtain s2 where 2: "boot_read_image_headers E B False None s1 = (0, s2)" "headers_loaded E h w s2"
    using read_image_headers_idle [OF assms(1) 1(2)] by blast
  then have o2: "opened E w s2" by (simp add: headers_loaded_def)
  obtain s4 where 4: "(if b_mode B = SwapMove then boot_read_image_headers E B False (Some (boot_status_reset E bs)) s2
      else (0, s2)) = (0, s4)" "headers_loaded E h w s4"
    using read_image_headers_idle [OF assms(1) o2] 2 by metis
  have st: "swap_read_status E s2 (boot_status_reset E bs) = (0, boot_status_reset E bs)"
    using o2 idleD(4) [OF assms(1)] by (simp add: opened_def)
  show ?thesis
  proof (cases "slots_compatible E s2")
    case True
    then show ?thesis using 1 2 4 st assms(3)
      by (intro exI [of _ s4]) (cases "b_mode B = SwapMove"; simp add: boot_prepare_image_for_update_def Let_def)
  next
    case False
    then show ?thesis using 1 2
      by (intro exI [of _ s2]) (auto simp: boot_prepare_image_for_update_def Let_def)
  qed
qed

lemma one_image: "b_images B = 1 \<Longrightarrow> images B = [0]"
  by (simp add: images_def)

text \<open>What the first loop leaves of a flash that is idle, when one image has been prepared.\<close>

lemma prepare_one_idle:
  assumes "idle E h w" "b_images B = 1" "\<not> overwrites B" "\<not> b_bootstrap B"
  obtains s where "headers_loaded E h w s"
    "(\<exists>bs1 up. prepare_images E B (images B) False (zero_loader w) bs0 =
        (case boot_validated_swap_type E B s of None \<Rightarrow> None
         | Some (t, w1) \<Rightarrow> Some (up t, set_swap_type t (s\<lparr>bl_w := w1\<rparr>), bs1))) \<or>
     (\<exists>bs1 up. prepare_images E B (images B) False (zero_loader w) bs0 = Some (up, set_swap_type Swap_None s, bs1) \<and>
        (\<exists>s. \<not> slots_compatible E s))"
proof -
  have w0: "bl_w ((zero_loader w)\<lparr>bl_curr := 0\<rparr>) = w" by (simp add: zero_loader_def)
  obtain s1 where 1: "open_areas E B ((zero_loader w)\<lparr>bl_curr := 0\<rparr>) = Some s1" "opened E w s1"
    using open_areas_idle [OF assms(1) w0] by auto
  obtain s where s: "headers_loaded E h w s" and
    p: "boot_prepare_image_for_update E B s1 bs0 = map_option (\<lambda>s5. (s5, boot_status_reset E bs0))
        (prepare_swap_type E B s (boot_status_reset E bs0)) \<or>
     boot_prepare_image_for_update E B s1 bs0 = Some (set_swap_type Swap_None s, bs0) \<and> (\<exists>s. \<not> slots_compatible E s)"
    using prepare_idle [OF assms(1) 1(2) assms(3)] by blast
  have pst: "prepare_swap_type E B s (boot_status_reset E bs0) = (case boot_validated_swap_type E B s of None \<Rightarrow> None
      | Some (t, w1) \<Rightarrow> Some (set_swap_type t (s\<lparr>bl_w := w1\<rparr>)))"
    using assms(2,4) by (auto simp: prepare_swap_type_def Let_def split: option.split)
  show ?thesis
  proof (rule that [OF s])
    show "(\<exists>bs1 up. prepare_images E B (images B) False (zero_loader w) bs0 =
        (case boot_validated_swap_type E B s of None \<Rightarrow> None
         | Some (t, w1) \<Rightarrow> Some (up t, set_swap_type t (s\<lparr>bl_w := w1\<rparr>), bs1))) \<or>
     (\<exists>bs1 up. prepare_images E B (images B) False (zero_loader w) bs0 = Some (up, set_swap_type Swap_None s, bs1) \<and>
        (\<exists>s. \<not> slots_compatible E s))"
      using p
    proof
      assume a: "boot_prepare_image_for_update E B s1 bs0 = map_option (\<lambda>s5. (s5, boot_status_reset E bs0))
        (prepare_swap_type E B s (boot_status_reset E bs0))"
      show ?thesis
        by (rule disjI1, rule exI [of _ "boot_status_reset E bs0"], rule exI [of _ "is_upgrade E"])
          (use a 1 assms(2) in \<open>simp add: one_image pst end_of_images_def split: option.split\<close>)
    next
      assume a: "boot_prepare_image_for_update E B s1 bs0 = Some (set_swap_type Swap_None s, bs0) \<and>
        (\<exists>s. \<not> slots_compatible E s)"
      then show ?thesis
        by (intro disjI2 exI [of _ bs0] exI [of _ "is_upgrade E Swap_None"] conjI)
          (use 1 assms(2) in \<open>simp_all add: one_image end_of_images_def\<close>)
    qed
  qed
qed

lemma validate_primary_result:
  assumes "\<not> b_slots_equivalent B"
  shows "snd (boot_validate_slot E B s primary) = bl_w s"
    and "fst (boot_validate_slot E B s primary) = FIH_SUCCESS \<longleftrightarrow> startable E s (bl_curr s)"
proof -
  show w: "snd (boot_validate_slot E B s primary) = bl_w s" by (rule validate_primary_keeps_world [OF assms])
  show "fst (boot_validate_slot E B s primary) = FIH_SUCCESS \<longleftrightarrow> startable E s (bl_curr s)"
  proof
    assume "fst (boot_validate_slot E B s primary) = FIH_SUCCESS"
    then have "boot_validate_slot E B s primary = (FIH_SUCCESS, bl_w s)" using w by (simp add: prod_eq_iff)
    then show "startable E s (bl_curr s)" by (rule validate_primary_startable)
  next
    assume "startable E s (bl_curr s)"
    then show "fst (boot_validate_slot E B s primary) = FIH_SUCCESS" by (simp add: startable_validate_primary)
  qed
qed

lemma boot_end_world: "bl_w (snd (snd (boot_end B (r, s)))) = bl_w s"
  by (auto simp: boot_end_def Let_def split: sum.split)

lemma boot_end_cases:
  "boot_end B (Inl f, s) = (FIH_SUCCESS, Some (boot_response (if b_images B > 1 then s\<lparr>bl_curr := 0\<rparr> else s)),
     if b_images B > 1 then s\<lparr>bl_curr := 0\<rparr> else s)"
  "boot_end B (Inr (0, f), s) = (f, None, s)"
  by (simp_all add: boot_end_def Let_def)

text \<open>The check of the only image changes nothing in the flash.\<close>

lemma check_one_world:
  assumes "\<not> b_rollback B" "\<not> b_slots_equivalent B"
  shows "bl_w (snd (check_images E B bs [0] f s)) = bl_w s"
proof -
  let ?s0 = "s\<lparr>bl_curr := 0\<rparr>"
  obtain r1 s1 where r: "(if boot_swap_type ?s0 \<noteq> Swap_None then boot_read_image_headers E B False (Some bs) ?s0
      else (0, ?s0)) = (r1, s1)" by fastforce
  then have "same_but_headers ?s0 s1"
    using boot_read_image_headers_state [of ?s0 E B False "Some bs"] same_but_headers_refl [of ?s0]
    by (auto split: if_splits)
  then have w: "bl_w s1 = bl_w s" by (simp add: same_but_headersD)
  have "bl_w (snd (final_check E B s1 f)) = bl_w s1" for f
    using validate_primary_result(1) [OF assms(2), of E s1]
    by (auto simp: final_check_def split: prod.splits)
  then show ?thesis using w
    by (auto simp: r final_counter_def assms(1) end_of_images_def Let_def split: prod.splits sum.splits) (metis snd_conv)+
qed

lemma check_one_none:
  assumes "b_validate_primary B" "\<not> b_rollback B" "\<not> b_slots_equivalent B" "b_images B = 1"
    "boot_swap_type (s\<lparr>bl_curr := 0\<rparr>) = Swap_None"
  shows "\<exists>f' s'. check_images E B bs [0] f s = (if startable E s 0 then Inl f' else Inr (0, f'), s') \<and>
    (\<not> startable E s 0 \<longrightarrow> f' \<noteq> FIH_SUCCESS) \<and> (startable E s' 0 = startable E s 0) \<and> bl_hdr s' = bl_hdr s"
proof -
  let ?s0 = "s\<lparr>bl_curr := 0\<rparr>"
  have same: "startable E ?s0 0 = startable E s 0" by (rule startable_cong) simp_all
  obtain f' w where v: "boot_validate_slot E B ?s0 primary = (f', w)" by fastforce
  have w: "w = bl_w s" and f: "f' = FIH_SUCCESS \<longleftrightarrow> startable E s 0"
    using validate_primary_result [OF assms(3), of E ?s0] v same by auto
  have "startable E (?s0\<lparr>bl_w := w\<rparr>) 0 = startable E s 0" by (rule startable_cong) (simp_all add: w)
  then show ?thesis using v f assms
    by (intro exI [of _ f'] exI [of _ "?s0\<lparr>bl_w := w\<rparr>"])
      (auto simp: final_check_def final_counter_def end_of_images_def Let_def)
qed

lemma boot_go_one:
  "prepare_images E B (images B) False (zero_loader w) bs0 = Some (up, s1, bs1) \<Longrightarrow> b_images B = 1 \<Longrightarrow>
   update_images E B [0] s1 bs1 = Some (s2, bs2) \<Longrightarrow>
   context_boot_go E B bs0 w = Some (boot_end B (check_images E B bs2 [0] FIH_FAILURE s2))"
  unfolding context_boot_go_def by (simp add: one_image del: update_images.simps check_images.simps prepare_images.simps)

lemma quiet_run:
  assumes "idle E h w" "upgrade_law E" "swap_type_multi E 0 w = Swap_None"
    and "\<forall>s. headers_loaded E h w s \<longrightarrow> update_vectors E s \<noteq> None"
    and "b_images B = 1" "\<not> overwrites B" "\<not> b_bootstrap B" "b_validate_primary B" "\<not> b_rollback B"
      "\<not> b_slots_equivalent B" "\<not> b_s1 B"
  shows "\<exists>f rsp s. context_boot_go E B bs0 w = Some (f, rsp, s) \<and> bl_w s = w \<and> bl_hdr s 0 primary = h primary \<and>
    (f = FIH_SUCCESS \<longleftrightarrow> startable E s 0)"
proof -
  obtain s where l: "headers_loaded E h w s" and
    prep: "(\<exists>bs1 up. prepare_images E B (images B) False (zero_loader w) bs0 =
        (case boot_validated_swap_type E B s of None \<Rightarrow> None
         | Some (t, w1) \<Rightarrow> Some (up t, set_swap_type t (s\<lparr>bl_w := w1\<rparr>), bs1))) \<or>
     (\<exists>bs1 up. prepare_images E B (images B) False (zero_loader w) bs0 = Some (up, set_swap_type Swap_None s, bs1) \<and>
        (\<exists>s. \<not> slots_compatible E s))"
    by (rule prepare_one_idle [OF assms(1,5,6,7)])
  then have s: "bl_w s = w" "bl_curr s = 0" "bl_hdr s 0 primary = h primary" by (simp_all add: headers_loaded_def opened_def)
  obtain v where "update_vectors E s = Some v" using assms(4) l by auto
  moreover have "for_other_image E B s hdr r = Inl False" for hdr r
    using assms(11) by (simp add: for_other_image_def split: prod.split)
  ultimately have "boot_validated_swap_type E B s = Some (Swap_None, w)"
    by (cases v) (simp add: boot_validated_swap_type_def swap_type_by_def s assms(3) not_upgrade(1) [OF assms(2)])
  then obtain bs1 up where p: "prepare_images E B (images B) False (zero_loader w) bs0 =
      Some (up, set_swap_type Swap_None s, bs1)"
    using prep s by auto
  let ?s1 = "(set_swap_type Swap_None s)\<lparr>bl_curr := 0\<rparr>"
  have t: "boot_swap_type ?s1 = Swap_None"
    using s by (simp add: boot_swap_type_def set_swap_type_def)
  obtain bs2 where u: "update_images E B [0] (set_swap_type Swap_None s) bs1 = Some (?s1, bs2)"
    using assms(5) t by (auto simp: update_image_def end_of_images_def Let_def)
  obtain f' s' where c: "check_images E B bs2 [0] FIH_FAILURE ?s1 =
        (if startable E ?s1 0 then Inl f' else Inr (0, f'), s')"
      "\<not> startable E ?s1 0 \<longrightarrow> f' \<noteq> FIH_SUCCESS" "startable E s' 0 = startable E ?s1 0" "bl_hdr s' = bl_hdr s"
    using check_one_none [OF assms(8,9,10,5), of ?s1 E bs2 FIH_FAILURE] t by auto
  have "bl_w s' = w" using check_one_world [OF assms(9,10), of E bs2 FIH_FAILURE ?s1] c(1) s by simp
  then show ?thesis
    using c s(3) assms(5) unfolding boot_go_one [OF p assms(5) u]
    by (cases "startable E ?s1 0") (simp_all add: boot_end_cases)
qed

section \<open>Properties\<close>

text \<open>
  C17: a start with nothing to do (the areas and headers can be read, no swap is under way, the trailers ask for none
  and the vectors of the image in the secondary slot can be read), with one image, in a build that swaps and validates
  the primary slot, without bootstrapping, protection against rollback, equivalent slots or a second stage in S1,
  changes no byte of the flash, and it succeeds exactly when the image in the primary slot passes all checks.
\<close>

theorem quiet_boot:
  assumes "idle E h w" "upgrade_law E" "swap_type_multi E 0 w = Swap_None"
    and "\<forall>s. headers_loaded E h w s \<longrightarrow> update_vectors E s \<noteq> None"
    and "b_images B = 1" "\<not> overwrites B" "\<not> b_bootstrap B" "b_validate_primary B" "\<not> b_rollback B"
      "\<not> b_slots_equivalent B" "\<not> b_s1 B"
  shows "\<exists>f rsp s. context_boot_go E B bs0 w = Some (f, rsp, s) \<and> bl_w s = w \<and> bl_hdr s 0 primary = h primary \<and>
    (f = FIH_SUCCESS \<longleftrightarrow> startable E s 0)"
  using quiet_run [OF assms] .

text \<open>
  C15: in a build for the nRF5340 with one image that swaps and does not only overwrite, without bootstrapping,
  protection against rollback or equivalent slots, when the areas and headers can be read, the slots fit together,
  no swap is under way and the flag can be written: when the vector table of the image in the external
  secondary slot cannot be read, the boot loader marks the running image as confirmed, also when no update has been
  asked for: an image that runs on trial is kept without its own confirmation.
\<close>

theorem vector_failure_confirms:
  assumes "idle E h w" "b_nrf5340 B" "\<forall>s. slots_compatible E s"
    and "\<forall>s. headers_loaded E h w s \<longrightarrow> update_vectors E s = None" "swap_set_image_ok E 0 w = (0, w1)"
    and "b_images B = 1" "\<not> overwrites B" "\<not> b_bootstrap B" "\<not> b_rollback B" "\<not> b_slots_equivalent B"
  shows "\<exists>f rsp s. context_boot_go E B bs0 w = Some (f, rsp, s) \<and> bl_w s = w1"
proof -
  obtain s where l: "headers_loaded E h w s" and
    prep: "(\<exists>bs1 up. prepare_images E B (images B) False (zero_loader w) bs0 =
        (case boot_validated_swap_type E B s of None \<Rightarrow> None
         | Some (t, w1) \<Rightarrow> Some (up t, set_swap_type t (s\<lparr>bl_w := w1\<rparr>), bs1))) \<or>
     (\<exists>bs1 up. prepare_images E B (images B) False (zero_loader w) bs0 = Some (up, set_swap_type Swap_None s, bs1) \<and>
        (\<exists>s. \<not> slots_compatible E s))"
    by (rule prepare_one_idle [OF assms(1,6,7,8)])
  then have s: "bl_w s = w" "bl_curr s = 0" by (simp_all add: headers_loaded_def opened_def)
  have "boot_validated_swap_type E B s = Some (Swap_Fail, w)"
    using assms(2,4) l s by (simp add: boot_validated_swap_type_def swap_type_by_def)
  then obtain bs1 up where p: "prepare_images E B (images B) False (zero_loader w) bs0 =
      Some (up, set_swap_type Swap_Fail s, bs1)"
    using prep assms(3) s by auto
  have t: "boot_swap_type ((set_swap_type Swap_Fail s)\<lparr>bl_curr := 0\<rparr>) = Swap_Fail"
    using s by (simp add: boot_swap_type_def set_swap_type_def)
  define s2 where "s2 = (set_swap_type Swap_Fail s)\<lparr>bl_curr := 0, bl_w := w1\<rparr>"
  have t2: "boot_swap_type s2 = Swap_Fail" and w2: "bl_w s2 = w1"
    using t by (simp_all add: s2_def boot_swap_type_def)
  have "update_image E B ((set_swap_type Swap_Fail s)\<lparr>bl_curr := 0\<rparr>) bs1 =
      Some (0, s2, bs1\<lparr>st_swap_type := Swap_Fail\<rparr>)"
    using assms(6,7) by (simp add: update_image_def t set_image_ok_def s s2_def assms(5))
  then have u: "update_images E B [0] (set_swap_type Swap_Fail s) bs1 = Some (s2, bs1\<lparr>st_swap_type := Swap_Fail\<rparr>)"
    using t2 assms(6) by (simp add: end_of_images_def)
  obtain r s3 where c: "check_images E B (bs1\<lparr>st_swap_type := Swap_Fail\<rparr>) [0] FIH_FAILURE s2 = (r, s3)" by fastforce
  then have "bl_w s3 = w1"
    using check_one_world [OF assms(9,10), of E "bs1\<lparr>st_swap_type := Swap_Fail\<rparr>" FIH_FAILURE s2] w2 by simp
  then have "bl_w (snd (snd (boot_end B (r, s3)))) = w1" by (simp add: boot_end_world)
  then show ?thesis
    unfolding boot_go_one [OF p assms(6) u] c by (cases "boot_end B (r, s3)") simp
qed

text \<open>A flash that answers every read and every write of a flag, whatever it holds.\<close>

definition device_works :: "'w boot_env \<Rightarrow> bool" where
  "device_works E \<longleftrightarrow>
    (\<forall>i w. fst (area_open E i w) = 0 \<and> fst (area_sectors E i w) = 0 \<and> fst (read_swap_size E i w) = 0 \<and>
           fst (swap_set_image_ok E i w) = 0 \<and> fst (swap_set_copy_done E i w) = 0) \<and>
    (\<forall>s slot bs. fst (read_image_header E s slot bs) = 0)"

text \<open>The flags that a finished swap of type \<open>t\<close> leaves in the trailer.\<close>

definition mark_swap :: "'w boot_env \<Rightarrow> swap_type \<Rightarrow> nat \<Rightarrow> 'w \<Rightarrow> 'w" where
  "mark_swap E t i w =
    (let w1 = (if t = Swap_Revert \<or> t = Swap_Perm then snd (swap_set_image_ok E i w) else w) in
     if is_upgrade E t then snd (swap_set_copy_done E i w1) else w1)"

lemma read_headers_works:
  assumes "device_works E"
  shows "fst (read_headers E B ra bs is s) = 0"
proof (induction "is" arbitrary: s)
  case (Cons i "is")
  obtain rc h where r: "read_image_header E s i bs = (rc, h)" by fastforce
  moreover have "fst (read_image_header E s i bs) = 0" using assms unfolding device_works_def by blast
  ultimately show ?case using Cons by simp
qed simp

lemma read_image_headers_works:
  assumes "device_works E"
  obtains s' where "boot_read_image_headers E B ra bs s = (0, s')" "same_but_headers s s'"
  using read_headers_works [OF assms, of B ra bs "[primary, secondary]" s] boot_read_image_headers_state [of s E B ra bs]
  unfolding boot_read_image_headers_def by (metis prod.collapse)

lemma read_sectors_works:
  assumes "device_works E"
  obtains s' where "boot_read_sectors E B s = (0, s')" "bl_w s' = bl_w s" "bl_curr s' = bl_curr s"
    "bl_swap_type s' = bl_swap_type s"
proof -
  have i: "\<exists>s'. boot_initialize_area E B a s = (0, s') \<and> bl_w s' = bl_w s \<and> bl_curr s' = bl_curr s \<and>
      bl_swap_type s' = bl_swap_type s"
    if "a \<in> {primary_id E (bl_curr s), secondary_id E (bl_curr s)} \<or> b_mode B = SwapScratch \<and> a = scratch_id E" for a s
  proof -
    obtain rc xs where a: "area_sectors E a (bl_w s) = (rc, xs)" by fastforce
    moreover have "fst (area_sectors E a (bl_w s)) = 0" using assms unfolding device_works_def by blast
    ultimately show ?thesis using that by (auto simp: boot_initialize_area_def set_sectors_def)
  qed
  obtain s1 where 1: "boot_initialize_area E B (primary_id E (bl_curr s)) s = (0, s1)" "bl_w s1 = bl_w s"
      "bl_curr s1 = bl_curr s" "bl_swap_type s1 = bl_swap_type s"
    using i [of "primary_id E (bl_curr s)" s] by auto
  obtain s2 where 2: "boot_initialize_area E B (secondary_id E (bl_curr s)) s1 = (0, s2)" "bl_w s2 = bl_w s"
      "bl_curr s2 = bl_curr s" "bl_swap_type s2 = bl_swap_type s"
    using i [of "secondary_id E (bl_curr s)" s1] 1 by auto
  obtain s3 where 3: "(if b_mode B = SwapScratch then boot_initialize_area E B (scratch_id E) s2 else (0, s2)) = (0, s3)"
      "bl_w s3 = bl_w s" "bl_curr s3 = bl_curr s" "bl_swap_type s3 = bl_swap_type s"
    using i [of "scratch_id E" s2] 2 by (cases "b_mode B = SwapScratch") auto
  show ?thesis using 1 2 3 by (intro that [of "s3\<lparr>bl_write_sz := boot_write_sz E B s3\<rparr>"]) (simp_all add: boot_read_sectors_def Let_def)
qed

text \<open>What is relied on of \<open>swap_run\<close>: it does not change the image in work or the type of the swap.\<close>

definition swap_run_law :: "'w boot_env \<Rightarrow> bool" where
  "swap_run_law E \<longleftrightarrow> (\<forall>s bs n. bl_curr (fst (swap_run E s bs n)) = bl_curr s \<and>
     st_swap_type (snd (swap_run E s bs n)) = st_swap_type bs)"

lemma complete_partial_swap_works:
  fixes s :: "'w loader"
  assumes "device_works E" "upgrade_law E" "swap_run_law E" "t \<in> {Swap_Test, Swap_Perm, Swap_Revert}"
    and "\<not> boot_status_is_reset E bs" "st_swap_type bs = t"
  defines "n \<equiv> snd (read_swap_size E (bl_curr s) (bl_w s))"
  shows "\<exists>s' bs'. boot_complete_partial_swap E s bs = Some (0, s', bs') \<and> bl_curr s' = bl_curr s \<and>
    bl_w s' = mark_swap E t (bl_curr s) (bl_w (fst (swap_run E s (bs\<lparr>st_swap_size := n\<rparr>) n)))"
proof -
  have flags: "fst (read_swap_size E i w) = 0" "fst (swap_set_image_ok E i w) = 0" "fst (swap_set_copy_done E i w) = 0" for i w
    using assms(1) unfolding device_works_def by blast+
  have up: "is_upgrade E t" using assms(2,4) by (auto simp: upgrade_law_def)
  have ok: "set_image_ok E s = (0, s\<lparr>bl_w := snd (swap_set_image_ok E (bl_curr s) (bl_w s))\<rparr>)" for s
    using flags(2) [of "bl_curr s" "bl_w s"] by (simp add: set_image_ok_def split_def Let_def)
  have cdone: "set_copy_done E s = (0, s\<lparr>bl_w := snd (swap_set_copy_done E (bl_curr s) (bl_w s))\<rparr>)" for s
    using flags(3) [of "bl_curr s" "bl_w s"] by (simp add: set_copy_done_def split_def Let_def)
  obtain s1 bs1 where run: "swap_run E s (bs\<lparr>st_swap_size := n\<rparr>) n = (s1, bs1)" by fastforce
  have "bl_curr (fst (swap_run E s (bs\<lparr>st_swap_size := n\<rparr>) n)) = bl_curr s"
    "st_swap_type (snd (swap_run E s (bs\<lparr>st_swap_size := n\<rparr>) n)) = st_swap_type (bs\<lparr>st_swap_size := n\<rparr>)"
    using assms(3) unfolding swap_run_law_def by blast+
  then have r: "bl_curr s1 = bl_curr s" "st_swap_type bs1 = t" using run assms(6) by simp_all
  have n: "boot_swap_image E s bs = Some (s1, bs1)"
    using assms(5) flags(1) run by (simp add: boot_swap_image_def assert_ok_def n_def split_def)
  have "boot_swap_type ((set_swap_type t s)\<lparr>bl_w := w\<rparr>) = t" for w
    by (simp add: set_swap_type_def boot_swap_type_def)
  then show ?thesis
    using assms(4) r by (auto simp: boot_complete_partial_swap_def n run up ok cdone mark_swap_def set_swap_type_def
        boot_swap_type_def Let_def)
qed

text \<open>
  C6: when the trailer tells of a swap that a reset has interrupted (with one image, in a build that swaps and does not
  only overwrite, with slots that fit together and a flash whose areas, headers and trailer can be read and
  whose flags can be written), the next start runs \<open>swap_run\<close> on the flash as it found it, with the status
  and the size from the trailer; it sets the flags of the swap's type on the flash that \<open>swap_run\<close> leaves, and
  chooses no other update. Of \<open>swap_run\<close> only this is used: it keeps the image in work and the type of the swap.
\<close>

theorem interrupted_swap_resumed:
  assumes "device_works E" "upgrade_law E" "swap_run_law E" "t \<in> {Swap_Test, Swap_Perm, Swap_Revert}"
    and "\<forall>s' bs. bl_w s' = bl_w s \<and> bl_curr s' = bl_curr s \<longrightarrow> fst (swap_read_status E s' bs) = 0 \<and>
           \<not> boot_status_is_reset E (snd (swap_read_status E s' bs)) \<and> st_swap_type (snd (swap_read_status E s' bs)) = t"
    and "\<forall>s. slots_compatible E s" "\<not> overwrites B" "b_images B = 1"
  defines "n \<equiv> snd (read_swap_size E (bl_curr s) (bl_w s))"
  shows "\<exists>s' bs' s0 sr. boot_prepare_image_for_update E B s bs = Some (s', bs') \<and> boot_swap_type s' = Swap_None \<and>
    bl_w s0 = bl_w s \<and> bl_curr s0 = bl_curr s \<and> bl_w sr = bl_w s \<and> bl_curr sr = bl_curr s \<and>
    bl_w s' = mark_swap E t (bl_curr s)
      (bl_w (fst (swap_run E s0 ((snd (swap_read_status E sr (boot_status_reset E bs)))\<lparr>st_swap_size := n\<rparr>) n)))"
proof -
  obtain s1 where 1: "boot_read_sectors E B s = (0, s1)" "bl_w s1 = bl_w s" "bl_curr s1 = bl_curr s"
    by (rule read_sectors_works [OF assms(1)])
  obtain s2 where 2: "boot_read_image_headers E B False None s1 = (0, s2)" "same_but_headers s1 s2"
    by (rule read_image_headers_works [OF assms(1)])
  have w2: "bl_w s2 = bl_w s" "bl_curr s2 = bl_curr s" using same_but_headersD [OF 2(2)] 1 by simp_all
  obtain bs3 where 3: "swap_read_status E s2 (boot_status_reset E bs) = (0, bs3)" "\<not> boot_status_is_reset E bs3"
      "st_swap_type bs3 = t"
    using assms(5) w2 by (metis prod.collapse)
  obtain s4 where 4: "(if b_mode B = SwapMove then boot_read_image_headers E B True (Some bs3) s2 else (0, s2)) = (0, s4)"
      "same_but_headers s2 s4"
    using read_image_headers_works [OF assms(1), of B True "Some bs3" s2] same_but_headers_refl [of s2] by metis
  have w4: "bl_w s4 = bl_w s" "bl_curr s4 = bl_curr s"
    using same_but_headersD [OF 4(2)] w2 by simp_all
  obtain s5 bs5 where 5: "boot_complete_partial_swap E s4 bs3 = Some (0, s5, bs5)"
      "bl_w s5 = mark_swap E t (bl_curr s) (bl_w (fst (swap_run E s4 (bs3\<lparr>st_swap_size := n\<rparr>) n)))"
    using complete_partial_swap_works [OF assms(1-4) 3(2,3), of s4] w4 by (auto simp: n_def)
  obtain s6 where 6: "boot_read_image_headers E B False (Some bs5) s5 = (0, s6)" "same_but_headers s5 s6"
    by (rule read_image_headers_works [OF assms(1)])
  have "boot_prepare_image_for_update E B s bs = resume_swap E B s4 bs3"
    using 1 2 3 4 assms(6,7)
    by (cases "b_mode B = SwapMove"; simp add: boot_prepare_image_for_update_def Let_def)
  also have "\<dots> = Some (set_swap_type Swap_None s6, bs5)"
    using 5 6 assms(7,8) by (simp add: resume_swap_def)
  finally have "boot_prepare_image_for_update E B s bs = Some (set_swap_type Swap_None s6, bs5)" .
  then show ?thesis
    by (rule_tac exI [of _ "set_swap_type Swap_None s6"], rule_tac exI [of _ bs5], rule_tac exI [of _ s4],
        rule_tac exI [of _ s2]) (simp add: w2 w4 3(1) 5(2) same_but_headersD(1) [OF 6(2)])
qed

definition demo_idle :: demo_flash where
  "demo_idle = demo_flash0\<lparr>df_swap := Swap_None\<rparr>"

lemma demo_header_simps [simp]:
  "ih_magic (demo_header v) = IMAGE_MAGIC" "ih_img_size (demo_header v) = 8" "ih_hdr_size (demo_header v) = 2"
  "ih_flags (demo_header v) = 0" "ih_protect_tlv_size (demo_header v) = 0"
  by (simp_all add: demo_header_def)

lemma demo_flash_simps [simp]:
  "df_hdr demo_flash0 i = demo_header (if i = 1 then 2 else 1)" "df_good demo_flash0 i" "df_swap demo_flash0 = Swap_Test"
  "df_mem demo_flash0 i = (if i = 1 then [1, 2, 3, 4, 0, 0, 1, 128, 1, 0] else [255, 255, 255, 255])"
  by (simp_all add: demo_flash0_def)

definition demo_hdrs :: "nat \<Rightarrow> image_header" where
  "demo_hdrs slot = demo_header (if slot = 1 then 2 else 1)"

lemma demo_is_idle: "idle boot_demo demo_hdrs demo_idle"
  by (simp add: idle_def demo_hdrs_def demo_idle_def)

lemma demo_loaded_vectors:
  "headers_loaded boot_demo demo_hdrs demo_idle s \<Longrightarrow> update_vectors boot_demo s = Some (0x10000002, 0x18001)"
  by (simp add: headers_loaded_def opened_def update_vectors_def demo_hdrs_def boot_img_area_def boot_img_hdr_def
      demo_idle_def in_internal_flash_def demo_area_def update_header_def rd_u32_def)

lemma demo_startable:
  assumes "bl_w s = demo_idle" "bl_hdr s 0 primary = demo_hdrs primary"
  shows "startable boot_demo s 0"
proof -
  have "boot_img_hdr (s\<lparr>bl_curr := 0\<rparr>) primary = demo_header 1"
    using assms by (simp add: boot_img_hdr_def demo_hdrs_def)
  then show ?thesis
    using assms by (simp add: startable_def magic_not_erased demo_hdrs_def demo_idle_def demo_area_def
        header_valid_exact [OF safe_add_law_demo] Let_def)
qed

theorem quiet_boot_witness:
  "\<exists>rsp s. context_boot_go boot_demo demo_build demo_status demo_idle = Some (FIH_SUCCESS, rsp, s) \<and> bl_w s = demo_idle"
proof -
  have "\<forall>s. headers_loaded boot_demo demo_hdrs demo_idle s \<longrightarrow> update_vectors boot_demo s \<noteq> None"
    by (simp add: demo_loaded_vectors)
  from quiet_boot [OF demo_is_idle demo_upgrade_law _ this, of demo_build demo_status]
  obtain f rsp s where "context_boot_go boot_demo demo_build demo_status demo_idle = Some (f, rsp, s)"
      "bl_w s = demo_idle" "bl_hdr s 0 primary = demo_hdrs primary" "f = FIH_SUCCESS \<longleftrightarrow> startable boot_demo s 0"
    by (auto simp: overwrites_def demo_idle_def)
  then show ?thesis using demo_startable by blast
qed

lemma demo_boots:
  "\<exists>rsp s. context_boot_go boot_demo demo_build demo_status demo_idle = Some (FIH_SUCCESS, rsp, s)"
proof -
  have "\<forall>s. headers_loaded boot_demo demo_hdrs demo_idle s \<longrightarrow> update_vectors boot_demo s \<noteq> None"
    by (simp add: demo_loaded_vectors)
  from quiet_run [OF demo_is_idle demo_upgrade_law _ this, of demo_build demo_status]
  obtain f rsp s where "context_boot_go boot_demo demo_build demo_status demo_idle = Some (f, rsp, s)"
      "bl_w s = demo_idle" "bl_hdr s 0 primary = demo_hdrs primary" "f = FIH_SUCCESS \<longleftrightarrow> startable boot_demo s 0"
    by (auto simp: overwrites_def demo_idle_def)
  then show ?thesis using demo_startable by blast
qed

theorem boots_only_validated_witness:
  "\<exists>s rsp. context_boot_go boot_demo demo_build demo_status demo_idle = Some (FIH_SUCCESS, rsp, s) \<and> startable boot_demo s 0"
proof -
  obtain rsp s where "context_boot_go boot_demo demo_build demo_status demo_idle = Some (FIH_SUCCESS, rsp, s)"
    using demo_boots by blast
  moreover from boots_only_validated [OF _ this] have "startable boot_demo s 0"
    by (auto simp: demo_build_def startable_def boot_check_header_erased_def boot_img_hdr_def)
  ultimately show ?thesis by blast
qed

text \<open>The flash whose external part cannot be read.\<close>

definition demo_deaf :: "demo_flash boot_env" where
  "demo_deaf = boot_demo\<lparr>area_read := \<lambda>a off n w. (-1, []), swap_set_image_ok := \<lambda>i w. (0, w\<lparr>df_swap := Swap_Perm\<rparr>)\<rparr>"

theorem vector_failure_confirms_witness:
  "\<exists>f rsp s. context_boot_go demo_deaf demo_build demo_status demo_idle = Some (f, rsp, s) \<and> df_swap (bl_w s) = Swap_Perm"
proof -
  have i: "idle demo_deaf demo_hdrs demo_idle"
    by (simp add: idle_def demo_deaf_def demo_hdrs_def demo_idle_def)
  have v: "\<forall>s. headers_loaded demo_deaf demo_hdrs demo_idle s \<longrightarrow> update_vectors demo_deaf s = None"
    by (simp add: headers_loaded_def opened_def demo_deaf_def update_vectors_def demo_hdrs_def boot_img_area_def
        boot_img_hdr_def in_internal_flash_def demo_area_def update_header_def Let_def)
  have c: "\<forall>s. slots_compatible demo_deaf s" by (simp add: demo_deaf_def)
  have o: "swap_set_image_ok demo_deaf 0 demo_idle = (0, demo_idle\<lparr>df_swap := Swap_Perm\<rparr>)" by (simp add: demo_deaf_def)
  from vector_failure_confirms [OF i _ c v o, of demo_build demo_status]
  obtain f rsp s where "context_boot_go demo_deaf demo_build demo_status demo_idle = Some (f, rsp, s)"
      "bl_w s = demo_idle\<lparr>df_swap := Swap_Perm\<rparr>"
    by (auto simp: overwrites_def)
  then show ?thesis by auto
qed

text \<open>The flash on which a reset has interrupted a test swap.\<close>

definition demo_broken :: "demo_flash boot_env" where
  "demo_broken = boot_demo\<lparr>swap_read_status := \<lambda>s bs. (0, bs\<lparr>st_idx := 2, st_swap_type := Swap_Test\<rparr>),
     swap_run := \<lambda>s bs n. (s\<lparr>bl_w := demo_swap (bl_w s)\<rparr>, bs)\<rparr>"

theorem interrupted_swap_resumed_witness:
  "\<exists>s' bs'. boot_prepare_image_for_update demo_broken demo_build (demo_loader demo_flash0) demo_status = Some (s', bs') \<and>
     df_hdr (bl_w s') 0 = demo_header 2"
proof -
  have d: "device_works demo_broken" by (simp add: device_works_def demo_broken_def)
  have u: "upgrade_law demo_broken" by (auto simp: upgrade_law_def demo_broken_def)
  have r: "\<forall>s bs. fst (swap_read_status demo_broken s bs) = 0 \<and>
      \<not> boot_status_is_reset demo_broken (snd (swap_read_status demo_broken s bs)) \<and>
      st_swap_type (snd (swap_read_status demo_broken s bs)) = Swap_Test"
    by (simp add: demo_broken_def boot_status_is_reset_def)
  have w: "swap_run_law demo_broken" by (simp add: swap_run_law_def demo_broken_def)
  have c: "\<forall>s. slots_compatible demo_broken s" by (simp add: demo_broken_def)
  from interrupted_swap_resumed [OF d u w, of Swap_Test "demo_loader demo_flash0" demo_build demo_status] r c
  show ?thesis
    by (auto simp: overwrites_def mark_swap_def demo_broken_def demo_build_def demo_swap_def demo_loader_def)
qed

end
