(* ===== verification/LoaderXip.thy ===== *)
theory LoaderXip
  imports LoaderBoot
begin

text \<open>
  The boot loader, last part: the builds that start the newest image where it is, or load it to memory.
\<close>

section \<open>Starting an image where it is, or from memory\<close>

definition boot_get_slot_usage :: "'w boot_env \<Rightarrow> 'w loader \<Rightarrow> nat \<Rightarrow> bool list" where
  "boot_get_slot_usage E s slot_cnt =
    map (\<lambda>slot. boot_is_header_valid E (boot_img_hdr s slot) (boot_img_area s slot)) [0..<slot_cnt]"

definition boot_select_or_erase :: "'w boot_env \<Rightarrow> nat \<Rightarrow> 'w \<Rightarrow> (int \<times> boot_swap_state \<times> 'w) option" where
  "boot_select_or_erase E slot w =
    do { fap \<leftarrow> assert_ok (area_open E (slot_area_id E 0 slot) w);
         st \<leftarrow> assert_ok (read_swap_state E fap w);
         if \<not> ss_magic_good st \<or> (ss_copy_done st \<and> \<not> ss_image_ok st)
         then do { w1 \<leftarrow> assert_ok (area_erase E fap 0 (fa_size fap) w); Some (-1, st, w1) }
         else if \<not> ss_copy_done st then Some (0, st, snd (write_copy_done E fap w))
         else Some (0, st, w) }"

definition boot_verify_ram_load_address :: "'w boot_env \<Rightarrow> build \<Rightarrow> u32 \<Rightarrow> u32 \<Rightarrow> int" where
  "boot_verify_ram_load_address E B img_dst img_sz =
    (if img_dst < b_ram_start B then BOOT_EBADIMAGE
     else case u32_safe_add E img_dst img_sz of
       None \<Rightarrow> BOOT_EBADIMAGE
     | Some img_end_addr \<Rightarrow>
         if img_end_addr > b_ram_start B + b_ram_size B then BOOT_EBADIMAGE else 0)"

definition boot_copy_image_to_sram :: "'w boot_env \<Rightarrow> nat \<Rightarrow> u32 \<Rightarrow> u32 \<Rightarrow> 'w \<Rightarrow> int \<times> 'w" where
  "boot_copy_image_to_sram E slot img_dst img_sz w =
    (let (rc, fap) = area_open E (slot_area_id E 0 slot) w;
         (r1, bs) = area_read E fap 0 (unat img_sz) w in
     if rc \<noteq> 0 then (BOOT_EFLASH, w) else (r1, ram_load E img_dst bs w))"

definition boot_load_image_to_sram :: "'w boot_env \<Rightarrow> build \<Rightarrow> nat \<Rightarrow> image_header \<Rightarrow> 'w loader \<Rightarrow> (int \<times> u32 \<times> u32) \<times> 'w loader" where
  "boot_load_image_to_sram E B slot hdr s =
    (let img_dst = ih_load_addr hdr;
         (r1, img_sz) = boot_read_image_size E s slot;
         r2 = boot_verify_ram_load_address E B img_dst img_sz;
         (r3, w) = boot_copy_image_to_sram E slot img_dst img_sz (bl_w s) in
     if ih_flags hdr AND IMAGE_F_RAM_LOAD = 0 then ((BOOT_EBADIMAGE, 0, 0), s)
     else if r1 \<noteq> 0 then ((r1, img_dst, img_sz), s)
     else if r2 \<noteq> 0 then ((r2, img_dst, img_sz), s)
     else ((r3, img_dst, img_sz), s\<lparr>bl_w := w\<rparr>))"

definition boot_remove_image_from_sram :: "'w boot_env \<Rightarrow> u32 \<Rightarrow> u32 \<Rightarrow> 'w \<Rightarrow> 'w" where
  "boot_remove_image_from_sram E img_dst img_sz w = ram_load E img_dst (replicate (unat img_sz) 0) w"

text \<open>
  The search for the newest image among the slots in use; the result is the slot, its header
  and \<open>rc\<close>, which the comparison of the versions sets.
\<close>

primrec select_slot :: "'w loader \<Rightarrow> bool list \<Rightarrow> nat list \<Rightarrow> nat \<times> image_header option \<times> int \<Rightarrow> nat \<times> image_header option \<times> int" where
  "select_slot s usage [] sel = sel"
| "select_slot s usage (slot # slots) sel =
    (let (sel_slot, sel_hdr, rc) = sel; hdr = boot_img_hdr s slot in
     select_slot s usage slots
       (if \<not> usage ! slot then sel
        else case sel_hdr of
          None \<Rightarrow> (slot, Some hdr, rc)
        | Some h \<Rightarrow>
            let r = boot_version_cmp (ih_ver hdr) (ih_ver h) in
            if r < 1 then (sel_slot, sel_hdr, r) else (slot, Some hdr, r)))"

record xip_state =
  x_usage :: "bool list"
  x_slot :: nat
  x_hdr :: "image_header option"
  x_rc :: int
  x_fih :: fih
  x_swap :: "boot_swap_state option"

text \<open>The selected image cannot be used: its slot is marked and the search starts over.\<close>

definition xip_skip :: "nat \<Rightarrow> xip_state \<Rightarrow> xip_state" where
  "xip_skip slot x = x\<lparr>x_usage := (x_usage x)[slot := False], x_hdr := None\<rparr>"

definition xip_try :: "'w boot_env \<Rightarrow> build \<Rightarrow> nat \<Rightarrow> u32 \<times> u32 \<Rightarrow> xip_state \<Rightarrow> 'w loader \<Rightarrow> bool \<times> xip_state \<times> 'w loader" where
  "xip_try E B slot region x s =
    (let (f, w) = boot_validate_slot E B s slot; s1 = s\<lparr>bl_w := w\<rparr>; x1 = x\<lparr>x_fih := f\<rparr> in
     if f = FIH_SUCCESS then (True, x1, s1)
     else (False, xip_skip slot x1,
           if b_mode B = RamLoad then s1\<lparr>bl_w := boot_remove_image_from_sram E (fst region) (snd region) w\<rparr> else s1))"

definition xip_load :: "'w boot_env \<Rightarrow> build \<Rightarrow> nat \<Rightarrow> image_header \<Rightarrow> xip_state \<Rightarrow> 'w loader \<Rightarrow> bool \<times> xip_state \<times> 'w loader" where
  "xip_load E B slot hdr x s =
    (if b_mode B \<noteq> RamLoad then xip_try E B slot (0, 0) x s
     else let ((r, region), s1) = boot_load_image_to_sram E B slot hdr s; x1 = x\<lparr>x_rc := r\<rparr> in
       if r \<noteq> 0 then (False, xip_skip slot x1, s1) else xip_try E B slot region x1 s1)"

text \<open>One turn of the loop over the images: \<open>True\<close> when it breaks out.\<close>

definition xip_turn :: "'w boot_env \<Rightarrow> build \<Rightarrow> xip_state \<Rightarrow> 'w loader \<Rightarrow> (bool \<times> xip_state \<times> 'w loader) option" where
  "xip_turn E B x s =
    (let (slot, hdr, rc) = select_slot s (x_usage x) [primary, secondary] (0, x_hdr x, x_rc x);
         h = (case hdr of Some h \<Rightarrow> h | None \<Rightarrow> zero_header);
         x1 = x\<lparr>x_slot := slot, x_hdr := hdr, x_rc := rc\<rparr> in
     if b_xip_revert B then
       do { (r, st, w) \<leftarrow> boot_select_or_erase E slot (bl_w s);
            let x2 = x1\<lparr>x_rc := r, x_swap := Some st\<rparr>; s2 = s\<lparr>bl_w := w\<rparr> in
            Some (if r \<noteq> 0 then (False, xip_skip slot x2, s2) else xip_load E B slot h x2 s2) }
     else Some (xip_load E B slot h x1 s))"

primrec xip_loop :: "'w boot_env \<Rightarrow> build \<Rightarrow> nat \<Rightarrow> xip_state \<Rightarrow> 'w loader \<Rightarrow> (xip_state \<times> 'w loader) option" where
  "xip_loop E B 0 x s = Some (x, s)"
| "xip_loop E B (Suc n) x s =
    do { (stop, x1, s1) \<leftarrow> xip_turn E B x s;
         if stop then Some (x1, s1) else xip_loop E B n x1 s1 }"

definition xip_finish :: "int \<Rightarrow> fih \<Rightarrow> boot_rsp option \<Rightarrow> 'w loader \<Rightarrow> fih \<times> boot_rsp option \<times> 'w loader" where
  "xip_finish rc f rsp s = (if rc \<noteq> 0 then FIH_ENC rc else f, rsp, s)"

definition xip_counter :: "'w boot_env \<Rightarrow> build \<Rightarrow> image_header \<Rightarrow> xip_state \<Rightarrow> 'w loader \<Rightarrow> (int \<times> 'w loader) option" where
  "xip_counter E B hdr x s =
    (if b_rollback B \<and> (b_xip_revert B \<longrightarrow> (case x_swap x of Some st \<Rightarrow> ss_image_ok st | None \<Rightarrow> False))
     then let (r, w) = boot_update_security_counter E 0 (x_slot x) hdr (bl_w s) in Some (r, s\<lparr>bl_w := w\<rparr>)
     else None)"

definition xip_response :: "image_header \<Rightarrow> xip_state \<Rightarrow> 'w loader \<Rightarrow> boot_rsp" where
  "xip_response hdr x s =
    \<lparr>br_flash_dev_id = fa_device_id (boot_img_area s (x_slot x)), br_image_off = fa_off (boot_img_area s (x_slot x)),
     br_hdr = hdr\<rparr>"

definition xip_answer :: "'w boot_env \<Rightarrow> build \<Rightarrow> xip_state \<Rightarrow> 'w loader \<Rightarrow> fih \<times> boot_rsp option \<times> 'w loader" where
  "xip_answer E B x s =
    (case x_hdr x of
       None \<Rightarrow> xip_finish (x_rc x) (x_fih x) None s
     | Some hdr \<Rightarrow>
         if x_fih x \<noteq> FIH_SUCCESS then xip_finish (x_rc x) (x_fih x) None s
         else case xip_counter E B hdr x s of
           None \<Rightarrow> xip_finish (x_rc x) (x_fih x) (Some (xip_response hdr x s)) s
         | Some (rc, s1) \<Rightarrow>
             if rc \<noteq> 0 then xip_finish rc (x_fih x) None s1
             else xip_finish 0 (x_fih x) (Some (xip_response hdr x s1)) s1)"

definition xip_start :: "bool list \<Rightarrow> xip_state" where
  "xip_start usage = \<lparr>x_usage = usage, x_slot = 0, x_hdr = None, x_rc = 0, x_fih = FIH_FAILURE, x_swap = None\<rparr>"

definition context_boot_go_xip :: "'w boot_env \<Rightarrow> build \<Rightarrow> 'w \<Rightarrow> (fih \<times> boot_rsp option \<times> 'w loader) option" where
  "context_boot_go_xip E B w =
    do { s1 \<leftarrow> open_slots E [primary, secondary] (zero_loader w);
         let (r2, s2) = boot_read_image_headers E B False None s1; usage = boot_get_slot_usage E s2 2;
             img_cnt = length (filter id usage) in
         if r2 \<noteq> 0 then Some (xip_finish r2 FIH_FAILURE None s2)
         else if img_cnt = 0 then Some (xip_finish BOOT_EBADIMAGE FIH_FAILURE None s2)
         else do { (x, s3) \<leftarrow> xip_loop E B img_cnt (xip_start usage) s2;
                   Some (xip_answer E B x s3) } }"

section \<open>Lemmas\<close>

lemma ram_address_ok:
  assumes "safe_add_law E" "unat (b_ram_start B) + unat (b_ram_size B) < 2 ^ 32"
  shows "boot_verify_ram_load_address E B dst sz = 0 \<longleftrightarrow>
    unat (b_ram_start B) \<le> unat dst \<and> unat dst + unat sz \<le> unat (b_ram_start B) + unat (b_ram_size B)"
proof -
  have e: "unat (b_ram_start B + b_ram_size B) = unat (b_ram_start B) + unat (b_ram_size B)"
    using assms(2) by (simp add: unat_plus_nowrap)
  show ?thesis
  proof (cases "unat dst + unat sz < 2 ^ 32")
    case True
    then have "unat (dst + sz) = unat dst + unat sz" by (simp add: unat_plus_nowrap)
    then show ?thesis using assms(1) True e
      by (auto simp: boot_verify_ram_load_address_def safe_add_law_def errno_defs word_less_nat_alt)
  next
    case False
    then show ?thesis using assms
      by (auto simp: boot_verify_ram_load_address_def safe_add_law_def errno_defs word_less_nat_alt)
  qed
qed

text \<open>What the search selects is a slot in use, with the header of that slot.\<close>

lemma select_slot_header:
  "(case snd3 of (h, rc) \<Rightarrow> h = None \<or> h = Some (boot_img_hdr s sl)) \<Longrightarrow>
   select_slot s usage slots (sl, snd3) = (sl', h', rc') \<Longrightarrow> h' = None \<or> h' = Some (boot_img_hdr s sl')"
proof (induction slots arbitrary: sl snd3)
  case (Cons slot slots)
  obtain h rc where h: "snd3 = (h, rc)" by fastforce
  show ?case
    using Cons.prems(1) Cons.prems(2)
    by (cases "usage ! slot"; cases h)
      (auto simp: h Let_def split: if_splits elim!: Cons.IH [rotated])
qed auto

lemma select_two:
  "select_slot s [u0, u1] [primary, secondary] (0, None, rc) =
    (let h0 = boot_img_hdr s 0; h1 = boot_img_hdr s 1; r = boot_version_cmp (ih_ver h1) (ih_ver h0) in
     if u0 \<and> u1 then if r < 1 then (0, Some h0, r) else (1, Some h1, r)
     else if u0 then (0, Some h0, rc) else if u1 then (1, Some h1, rc) else (0, None, rc))"
  by (simp add: Let_def)

lemma img_hdr_world [simp]: "boot_img_hdr (s\<lparr>bl_w := w\<rparr>) = boot_img_hdr s"
  by (rule ext) (simp add: boot_img_hdr_def)

lemma load_image_header [simp]:
  "boot_load_image_to_sram E B slot hdr s = (r, s') \<Longrightarrow> boot_img_hdr s' sl = boot_img_hdr s sl"
  by (auto simp: boot_load_image_to_sram_def Let_def split: prod.splits if_splits)

definition xip_good :: "'w boot_env \<Rightarrow> build \<Rightarrow> bool \<times> xip_state \<times> 'w loader \<Rightarrow> bool" where
  "xip_good E B r =
    (case r of (stop, x, s) \<Rightarrow>
       if stop then boot_validate_slot E B s (x_slot x) = (FIH_SUCCESS, bl_w s) \<and>
         (x_hdr x = None \<or> x_hdr x = Some (boot_img_hdr s (x_slot x)))
       else x_hdr x = None \<and> x_fih x \<noteq> FIH_SUCCESS)"

lemma xip_try_good:
  assumes "x_slot x = slot" "x_hdr x = None \<or> x_hdr x = Some (boot_img_hdr s slot)"
  shows "xip_good E B (xip_try E B slot region x s)"
proof -
  obtain f w where v: "boot_validate_slot E B s slot = (f, w)" by fastforce
  show ?thesis
  proof (cases "f = FIH_SUCCESS")
    case True
    then have "w = bl_w s" using validate_slot_success(1) [of E B s slot w] v by simp
    then show ?thesis using v True assms by (auto simp: xip_try_def xip_good_def)
  next
    case False
    then show ?thesis by (simp add: xip_try_def xip_good_def v xip_skip_def Let_def)
  qed
qed

lemma xip_load_good:
  assumes "x_slot x = slot" "x_hdr x = None \<or> x_hdr x = Some (boot_img_hdr s slot)" "x_fih x \<noteq> FIH_SUCCESS"
  shows "xip_good E B (xip_load E B slot hdr x s)"
proof -
  obtain r region s1 where l: "boot_load_image_to_sram E B slot hdr s = ((r, region), s1)" by (metis prod.collapse)
  then have h: "boot_img_hdr s1 slot = boot_img_hdr s slot" by simp
  have t: "xip_good E B (xip_try E B slot reg x s)" for reg by (rule xip_try_good) fact+
  have t1: "xip_good E B (xip_try E B slot region (x\<lparr>x_rc := r\<rparr>) s1)"
    using assms h by (intro xip_try_good) simp_all
  have "xip_good E B (False, xip_skip slot (x\<lparr>x_rc := r\<rparr>), s1)"
    using assms by (simp add: xip_good_def xip_skip_def)
  then show ?thesis using t t1 by (cases "r = 0") (simp_all add: xip_load_def l Let_def)
qed

lemma xip_turn_good:
  assumes "xip_turn E B x s = Some r" "x_hdr x = None" "x_fih x \<noteq> FIH_SUCCESS"
  shows "xip_good E B r"
proof -
  obtain slot hdr rc where sel: "select_slot s (x_usage x) [primary, secondary] (0, None, x_rc x) = (slot, hdr, rc)"
    by (metis prod.collapse)
  have h: "hdr = None \<or> hdr = Some (boot_img_hdr s slot)"
    by (rule select_slot_header [OF _ sel]) simp
  show ?thesis
  proof (cases "b_xip_revert B")
    case True
    then show ?thesis using assms h unfolding xip_turn_def assms(2) sel
      by (auto simp: bind_eq_Some_conv Let_def xip_good_def [of E B "(False, _)"] xip_skip_def intro!: xip_load_good)
  next
    case False
    then show ?thesis using assms h unfolding xip_turn_def assms(2) sel
      by (auto simp: Let_def intro!: xip_load_good)
  qed
qed

lemma xip_loop_good:
  "xip_loop E B n x s = Some (x', s') \<Longrightarrow> x_hdr x = None \<Longrightarrow> x_fih x \<noteq> FIH_SUCCESS \<Longrightarrow>
   x_fih x' = FIH_SUCCESS \<Longrightarrow> boot_validate_slot E B s' (x_slot x') = (FIH_SUCCESS, bl_w s') \<and>
     (x_hdr x' = None \<or> x_hdr x' = Some (boot_img_hdr s' (x_slot x')))"
proof (induction n arbitrary: x s)
  case (Suc n)
  then obtain stop x1 s1 where t: "xip_turn E B x s = Some (stop, x1, s1)"
    and l: "if stop then x1 = x' \<and> s1 = s' else xip_loop E B n x1 s1 = Some (x', s')"
    by (auto simp: bind_eq_Some_conv split: if_splits)
  have "xip_good E B (stop, x1, s1)" by (rule xip_turn_good [OF t Suc.prems(2,3)])
  then show ?case using l Suc.IH [of x1 s1] Suc.prems(4) by (auto simp: xip_good_def split: if_splits)
qed simp

section \<open>Properties\<close>

text \<open>
  C29: whatever was tried before, an image that is started in place or from memory has passed every check on the
  flash as it then is, except that in a build with protection against rollback the image's security counter may have
  been written after the checks; and the answer holds that image's header and offset.
\<close>

theorem xip_boots_only_validated:
  assumes "context_boot_go_xip E B w = Some (FIH_SUCCESS, Some rsp, s)"
  shows "\<exists>slot v. (v = bl_w s \<or> b_rollback B \<and> bl_w s = snd (boot_update_security_counter E 0 slot (br_hdr rsp) v)) \<and>
    boot_validate_slot E B (s\<lparr>bl_w := v\<rparr>) slot = (FIH_SUCCESS, v) \<and>
    boot_is_header_valid E (br_hdr rsp) (snd (area_open E (slot_area_id E (bl_curr s) slot) v)) \<and>
    boot_image_check E (s\<lparr>bl_w := v\<rparr>) (br_hdr rsp) (snd (area_open E (slot_area_id E (bl_curr s) slot) v)) = FIH_SUCCESS \<and>
    br_hdr rsp = boot_img_hdr s slot \<and> br_image_off rsp = fa_off (boot_img_area s slot)"
proof -
  obtain s1 where s1: "open_slots E [primary, secondary] (zero_loader w) = Some s1"
    using assms by (auto simp: context_boot_go_xip_def bind_eq_Some_conv simp del: open_slots.simps)
  obtain r2 s2 where s2: "boot_read_image_headers E B False None s1 = (r2, s2)" by fastforce
  obtain n u x s3 where loop: "xip_loop E B n (xip_start u) s2 = Some (x, s3)"
    and a: "xip_answer E B x s3 = (FIH_SUCCESS, Some rsp, s)"
    using assms unfolding context_boot_go_xip_def s1
    by (auto simp: s2 bind_eq_Some_conv xip_finish_def Let_def
        simp del: open_slots.simps split: if_splits)
  let ?slot = "x_slot x" and ?v = "bl_w s3"
  have x: "x_fih x = FIH_SUCCESS" "x_hdr x = Some (br_hdr rsp)" "s3 = s\<lparr>bl_w := ?v\<rparr>"
    "br_image_off rsp = fa_off (boot_img_area s ?slot)"
    "?v = bl_w s \<or> b_rollback B \<and> bl_w s = snd (boot_update_security_counter E 0 ?slot (br_hdr rsp) ?v)"
    using a by (auto simp: xip_answer_def xip_counter_def xip_finish_def xip_response_def boot_img_area_def
        split: option.splits if_splits prod.splits)
  have h: "boot_img_hdr s = boot_img_hdr s3" "bl_curr s = bl_curr s3" by (subst x(3); simp add: boot_img_hdr_def fun_eq_iff)+
  have v: "boot_validate_slot E B s3 ?slot = (FIH_SUCCESS, ?v)" "br_hdr rsp = boot_img_hdr s3 ?slot"
    using xip_loop_good [OF loop] x(1,2) by (auto simp: xip_start_def)
  show ?thesis
    using validate_slot_success [OF v(1)] v x(4,5)
    by (intro exI [of _ ?slot] exI [of _ ?v]) (simp add: h x(3) [symmetric])
qed

lemma xip_try_result:
  obtains stop x' s' where "xip_try E B slot region x s = (stop, x', s')" "x_rc x' = x_rc x"
    "\<not> stop \<Longrightarrow> x_usage x' = (x_usage x)[slot := False] \<and> x_hdr x' = None"
    "boot_img_hdr s' = boot_img_hdr s"
proof -
  obtain f w where v: "boot_validate_slot E B s slot = (f, w)" by fastforce
  show ?thesis
  proof (cases "f = FIH_SUCCESS")
    case True
    show ?thesis
      by (rule that [of True "x\<lparr>x_fih := f\<rparr>" "s\<lparr>bl_w := w\<rparr>"]) (simp_all add: xip_try_def v True)
  next
    case False
    show ?thesis
      by (rule that [of False "xip_skip slot (x\<lparr>x_fih := f\<rparr>)" "snd (snd (xip_try E B slot region x s))"])
        (simp_all add: xip_try_def v False xip_skip_def Let_def)
  qed
qed

lemma xip_turn_plain:
  assumes "b_mode B = DirectXip" "\<not> b_xip_revert B" "x_hdr x = None" "x_usage x = [u0, u1]"
    "select_slot s [u0, u1] [primary, secondary] (0, None, x_rc x) = (slot, hdr, rc)"
  obtains stop x' s' where "xip_turn E B x s = Some (stop, x', s')" "x_rc x' = rc"
    "\<not> stop \<Longrightarrow> x_usage x' = [u0, u1][slot := False] \<and> x_hdr x' = None" "boot_img_hdr s' = boot_img_hdr s"
proof -
  obtain stop x' s' where t: "xip_try E B slot (0, 0) (x\<lparr>x_slot := slot, x_hdr := hdr, x_rc := rc\<rparr>) s = (stop, x', s')"
      "x_rc x' = rc" "\<not> stop \<Longrightarrow> x_usage x' = [u0, u1][slot := False] \<and> x_hdr x' = None"
      "boot_img_hdr s' = boot_img_hdr s"
    by (rule xip_try_result [of E B slot "(0, 0)" "x\<lparr>x_slot := slot, x_hdr := hdr, x_rc := rc\<rparr>" s]) (simp add: assms(4))
  show ?thesis
    by (rule that [OF _ t(2-4)]) (simp_all only: xip_turn_def assms, simp add: assms xip_load_def t(1))
qed

text \<open>With two versions in the slots the result of the comparison stays in \<open>rc\<close> to the end.\<close>

lemma xip_loop_two:
  assumes "b_mode B = DirectXip" "\<not> b_xip_revert B" "x_hdr x = None" "x_usage x = [True, True]"
  shows "\<exists>x' s'. xip_loop E B 2 x s = Some (x', s') \<and>
    x_rc x' = boot_version_cmp (ih_ver (boot_img_hdr s 1)) (ih_ver (boot_img_hdr s 0))"
proof -
  define r where "r = boot_version_cmp (ih_ver (boot_img_hdr s 1)) (ih_ver (boot_img_hdr s 0))"
  have both: "select_slot s [True, True] [primary, secondary] (0, None, x_rc x) =
      (if r < 1 then 0 else 1, Some (boot_img_hdr s (if r < 1 then 0 else 1)), r)"
    unfolding select_two r_def Let_def by simp
  obtain slot hdr where sel: "select_slot s [True, True] [primary, secondary] (0, None, x_rc x) = (slot, hdr, r)"
      "slot = 0 \<or> slot = 1"
    by (rule that [OF both]) simp
  obtain stop x1 s1 where 1: "xip_turn E B x s = Some (stop, x1, s1)" "x_rc x1 = r"
      "\<not> stop \<Longrightarrow> x_usage x1 = [True, True][slot := False] \<and> x_hdr x1 = None"
    by (rule xip_turn_plain [OF assms sel(1)]) blast
  show ?thesis
  proof (cases stop)
    case True
    then show ?thesis using 1 by (simp add: numeral_2_eq_2 r_def)
  next
    case False
    then obtain u0 u1 where u: "x_usage x1 = [u0, u1]" "x_hdr x1 = None" "\<not> (u0 \<and> u1)"
      using 1(3) sel(2) by auto
    obtain slot2 hdr2 where sel2: "select_slot s1 [u0, u1] [primary, secondary] (0, None, x_rc x1) = (slot2, hdr2, r)"
      using u(3) 1(2) unfolding select_two by (cases u0; cases u1) (auto simp: Let_def)
    obtain stop2 x2 s2 where 2: "xip_turn E B x1 s1 = Some (stop2, x2, s2)" "x_rc x2 = r"
      by (rule xip_turn_plain [OF assms(1,2) u(2,1) sel2]) blast
    show ?thesis using 1 2 False by (cases stop2) (simp_all add: numeral_2_eq_2 r_def)
  qed
qed

lemma xip_answer_rc:
  "\<not> b_rollback B \<Longrightarrow> x_rc x \<noteq> 0 \<Longrightarrow> \<exists>rsp. xip_answer E B x s = (FIH_ENC (x_rc x), rsp, s)"
  by (auto simp: xip_answer_def xip_finish_def xip_counter_def split: option.split)

text \<open>
  C13: direct execution, in a build without reverting and without protection against rollback, never starts while
  the two slots hold images with valid headers, which can be read, of different versions, however valid the images
  are: the result of comparing the versions is returned as if it were an error.
\<close>

theorem xip_two_versions_fail:
  assumes "b_mode B = DirectXip" "\<not> b_xip_revert B" "\<not> b_rollback B"
    and "\<forall>i. fst (area_open E i w) = 0"
    and "\<forall>s slot bs. bl_w s = w \<longrightarrow> bl_curr s = 0 \<longrightarrow> read_image_header E s slot bs = (0, h slot)"
    and "\<forall>slot\<in>{primary, secondary}. boot_is_header_valid E (h slot) (snd (area_open E (slot_area_id E 0 slot) w))"
    and "version_key (ih_ver (h 0)) \<noteq> version_key (ih_ver (h 1))"
  shows "\<exists>rsp s. context_boot_go_xip E B w =
    Some (FIH_ENC (boot_version_cmp (ih_ver (h 1)) (ih_ver (h 0))), rsp, s)"
proof -
  have z: "bl_w (zero_loader w) = w" "bl_curr (zero_loader w) = 0" by (simp_all add: zero_loader_def)
  obtain s1 where 1: "open_slots E [primary, secondary] (zero_loader w) = Some s1" "bl_w s1 = w" "bl_curr s1 = 0"
      "\<forall>slot\<in>{primary, secondary}. boot_img_area s1 slot = snd (area_open E (slot_area_id E 0 slot) w)"
    using assms(4) z by (simp add: assert_ok_def set_area_def boot_img_area_def)
  obtain s2 where 2: "boot_read_image_headers E B False None s1 = (0, s2)" "boot_img_hdr s2 0 = h 0" "boot_img_hdr s2 1 = h 1"
      "boot_img_area s2 0 = boot_img_area s1 0" "boot_img_area s2 1 = boot_img_area s1 1"
    using assms(5) 1(2,3) by (simp add: boot_read_image_headers_def set_hdr_def boot_img_hdr_def boot_img_area_def Let_def)
  have usage: "boot_get_slot_usage E s2 2 = [True, True]"
    using assms(6) 1(4) 2 by (simp add: boot_get_slot_usage_def numeral_2_eq_2)
  define r where "r = boot_version_cmp (ih_ver (h 1)) (ih_ver (h 0))"
  obtain x s3 where loop: "xip_loop E B 2 (xip_start [True, True]) s2 = Some (x, s3)" "x_rc x = r"
    using xip_loop_two [OF assms(1,2), of "xip_start [True, True]" E s2] 2(2,3) by (auto simp: xip_start_def r_def)
  have "r \<noteq> 0" using assms(7) by (simp add: r_def version_cmp_key sgn_if)
  then obtain rsp where "xip_answer E B x s3 = (FIH_ENC r, rsp, s3)"
    using xip_answer_rc [OF assms(3), of x E s3] loop(2) by auto
  then show ?thesis unfolding context_boot_go_xip_def 1(1)
    using loop(1) [unfolded numeral_2_eq_2] by (simp add: 2(1) usage Let_def r_def del: xip_loop.simps)
qed

definition demo_xip :: build where
  "demo_xip = demo_build\<lparr>b_mode := DirectXip\<rparr>"

theorem xip_two_versions_fail_witness:
  "\<exists>rsp s. context_boot_go_xip boot_demo demo_xip demo_flash0 = Some (FIH_ENC 1, rsp, s)"
  using xip_two_versions_fail [of demo_xip boot_demo demo_flash0 demo_hdrs]
  by (simp add: demo_xip_def demo_hdrs_def header_valid_exact [OF safe_add_law_demo] demo_area_def version_key_def
      demo_header_def boot_version_cmp_def)

text \<open>
  an image is only copied to memory when all of it, header and trailing data included, lies in the memory set
  aside for it, computed without overflow.
\<close>

theorem ram_load_in_bounds:
  assumes "safe_add_law E" "unat (b_ram_start B) + unat (b_ram_size B) < 2 ^ 32"
    and "boot_load_image_to_sram E B slot hdr s = ((0, dst, sz), s')"
  shows "ih_flags hdr AND IMAGE_F_RAM_LOAD \<noteq> 0 \<and> boot_read_image_size E s slot = (0, sz) \<and>
    unat (b_ram_start B) \<le> unat dst \<and> unat dst + unat sz \<le> unat (b_ram_start B) + unat (b_ram_size B)"
proof -
  have "boot_verify_ram_load_address E B dst sz = 0 \<and> ih_flags hdr AND IMAGE_F_RAM_LOAD \<noteq> 0 \<and>
      boot_read_image_size E s slot = (0, sz)"
    using assms(3) by (auto simp: boot_load_image_to_sram_def errno_defs Let_def split: prod.splits if_splits)
  then show ?thesis using ram_address_ok [OF assms(1,2)] by blast
qed

definition demo_same :: demo_flash where
  "demo_same = demo_flash0\<lparr>df_hdr := \<lambda>i. demo_header 1\<rparr>"

lemma demo_xip_boots:
  "\<exists>rsp s. context_boot_go_xip boot_demo demo_xip demo_same = Some (FIH_SUCCESS, Some rsp, s)"
proof -
  obtain s1 where 1: "open_slots boot_demo [primary, secondary] (zero_loader demo_same) = Some s1" "bl_w s1 = demo_same"
      "bl_curr s1 = 0" "boot_img_area s1 0 = demo_area 0" "boot_img_area s1 1 = demo_area 1"
    by (simp add: assert_ok_def set_area_def boot_img_area_def zero_loader_def)
  obtain s2 where 2: "boot_read_image_headers boot_demo demo_xip False None s1 = (0, s2)" "boot_img_hdr s2 0 = demo_header 1"
      "boot_img_hdr s2 1 = demo_header 1" "boot_img_area s2 0 = demo_area 0" "boot_img_area s2 1 = demo_area 1"
      "bl_w s2 = demo_same" "bl_curr s2 = 0"
    using 1 by (simp add: boot_read_image_headers_def set_hdr_def boot_img_hdr_def boot_img_area_def demo_same_def Let_def)
  have usage: "boot_get_slot_usage boot_demo s2 2 = [True, True]"
    using 2 by (simp add: boot_get_slot_usage_def upt_rec header_valid_exact [OF safe_add_law_demo] demo_area_def)
  have v: "boot_validate_slot boot_demo demo_xip s2 0 = (FIH_SUCCESS, demo_same)"
    using 2 demo_validate [of s2 0 demo_xip] by (simp add: demo_xip_def demo_same_def)
  have "xip_turn boot_demo demo_xip (xip_start [True, True]) s2 =
      Some (True, (xip_start [True, True])\<lparr>x_hdr := Some (demo_header 1), x_fih := FIH_SUCCESS\<rparr>, s2)"
    using 2 v by (simp add: xip_turn_def xip_start_def xip_load_def xip_try_def demo_xip_def boot_version_cmp_def)
  then have "xip_loop boot_demo demo_xip (Suc (Suc 0)) (xip_start [True, True]) s2 =
      Some ((xip_start [True, True])\<lparr>x_hdr := Some (demo_header 1), x_fih := FIH_SUCCESS\<rparr>, s2)" by simp
  moreover have "\<exists>rsp. xip_answer boot_demo demo_xip
      ((xip_start [True, True])\<lparr>x_hdr := Some (demo_header 1), x_fih := FIH_SUCCESS\<rparr>) s2 = (FIH_SUCCESS, Some rsp, s2)"
    by (simp add: xip_answer_def xip_start_def xip_counter_def xip_finish_def demo_xip_def)
  ultimately show ?thesis unfolding context_boot_go_xip_def 1(1)
    by (auto simp: 2(1) usage Let_def simp del: xip_loop.simps)
qed

theorem xip_boots_only_validated_witness:
  "\<exists>rsp s. context_boot_go_xip boot_demo demo_xip demo_same = Some (FIH_SUCCESS, Some rsp, s) \<and>
     (\<exists>slot. br_hdr rsp = boot_img_hdr s slot \<and> boot_validate_slot boot_demo demo_xip s slot = (FIH_SUCCESS, bl_w s))"
proof -
  obtain rsp s where go: "context_boot_go_xip boot_demo demo_xip demo_same = Some (FIH_SUCCESS, Some rsp, s)"
    using demo_xip_boots by blast
  from xip_boots_only_validated [OF go] have "\<exists>slot. br_hdr rsp = boot_img_hdr s slot \<and>
      boot_validate_slot boot_demo demo_xip s slot = (FIH_SUCCESS, bl_w s)"
    by (fastforce simp: demo_xip_def)
  with go show ?thesis by blast
qed

text \<open>A flash whose image asks to be loaded to the start of the memory.\<close>

definition demo_ram :: demo_flash where
  "demo_ram = demo_flash0\<lparr>df_mem := \<lambda>i. replicate 10 0 @ [7, 105, 4, 0]\<rparr>"

definition demo_ram_header :: image_header where
  "demo_ram_header = (demo_header 1)\<lparr>ih_load_addr := 0x20000000, ih_flags := IMAGE_F_RAM_LOAD\<rparr>"

definition demo_ram_loader :: "demo_flash loader" where
  "demo_ram_loader = (demo_loader demo_ram)\<lparr>bl_hdr := \<lambda>i slot. demo_ram_header\<rparr>"

lemma demo_ram_size: "boot_read_image_size boot_demo demo_ram_loader 0 = (0, 14)"
  by (simp add: boot_read_image_size_def demo_ram_loader_def demo_loader_def demo_ram_def demo_ram_header_def demo_area_def
      boot_img_hdr_def u16_at_def IMAGE_TLV_INFO_MAGIC_def IMAGE_TLV_PROT_INFO_MAGIC_def Let_def)

theorem ram_load_in_bounds_witness:
  "unat (b_ram_start demo_build) \<le> 0x20000000 \<and> 0x20000000 + 14 \<le> unat (b_ram_start demo_build) + unat (b_ram_size demo_build)"
proof -
  have l: "boot_load_image_to_sram boot_demo demo_build 0 demo_ram_header demo_ram_loader =
      ((0, 0x20000000, 14), demo_ram_loader)"
  proof -
    have "ih_load_addr demo_ram_header = 0x20000000" "ih_flags demo_ram_header AND IMAGE_F_RAM_LOAD \<noteq> 0"
      "bl_w demo_ram_loader = demo_ram" "df_mem demo_ram i = replicate 10 0 @ [7, 105, 4, 0]" for i
      by (simp_all add: demo_ram_header_def IMAGE_F_RAM_LOAD_def demo_ram_loader_def demo_loader_def demo_ram_def)
    moreover have "demo_ram_loader\<lparr>bl_w := demo_ram\<rparr> = demo_ram_loader"
      by (simp add: demo_ram_loader_def demo_loader_def)
    ultimately show ?thesis
      by (simp add: boot_load_image_to_sram_def demo_ram_size boot_verify_ram_load_address_def
          boot_copy_image_to_sram_def demo_area_def)
  qed
  from ram_load_in_bounds [OF safe_add_law_demo _ l] show ?thesis by simp
qed

end
