(* ===== verification/IsoMain.thy ===== *)
theory IsoMain
  imports IsoReceiver IsoBroadcaster "HOL-Library.Sublist"
begin

text \<open>
  The main program of the isochronous broadcast benchmark (\<open>main\<close> and \<open>device_role_select\<close> of
  \<open>app/ble/iso_broadcast_benchmark_pa_lna/src/main.c\<close>): it starts the stack and the console, then
  chooses a role and runs that role's test, again and again, until the role is to quit. The tests are
  those of the theories \<open>IsoReceiver\<close> and \<open>IsoBroadcaster\<close>, on their own states; the console is shared.

  The list of rounds is what happens from outside in each turn of the loop: the receiver's callbacks
  while the program waits for the role, the script of the receiver's test, the callbacks of the
  broadcast's channels, how often its timer fires, and the answers of the pin driver. When the list
  ends the program is still waiting.
\<close>

section \<open>The loop\<close>

record iso_config =
  ic_pa :: bool
  ic_lna :: bool
  ic_rx :: rx_env
  ic_bc :: bc_env
  ic_bt_enable :: int
  ic_console_init :: int

record iso_round =
  ir_between :: "rx_event list"
  ir_script :: "rx_item list"
  ir_channels :: "bool list"
  ir_timer :: nat
  ir_pin :: "pa_pin \<Rightarrow> int"

record iso_main =
  im_rx :: iso_rx
  im_bc :: bcast
  im_console :: string
  im_pins :: "pa_pin \<Rightarrow> bool option"
  im_log :: "(benchmark_role \<times> int) list"

datatype iso_result = IsoNext iso_main | IsoExit iso_main | IsoWaits | IsoUndefined

text \<open>The role and the pins. The result of \<open>init_pa_lna\<close> is not used.\<close>

definition role_and_pins :: "iso_config \<Rightarrow> iso_round \<Rightarrow> iso_main \<Rightarrow> (benchmark_role \<times> iso_main) option" where
  "role_and_pins c r s =
     (case device_role_select (ic_pa c) (ic_lna c) (im_console s) of
        None \<Rightarrow> None
      | Some (role, rest) \<Rightarrow>
          Some (role, s\<lparr>im_console := rest,
            im_pins := (if ic_pa c then snd (init_pa_lna (ir_pin r) 1 (im_pins s))
                        else if ic_lna c then snd (init_pa_lna (ir_pin r) 0 (im_pins s)) else im_pins s)\<rparr>))"

definition run_test :: "iso_config \<Rightarrow> iso_round \<Rightarrow> benchmark_role \<Rightarrow> iso_main \<Rightarrow> iso_result" where
  "run_test c r role s =
     (case role of
        ROLE_RECEIVER \<Rightarrow>
          (case test_run_receiver (ic_rx c) ((im_rx s)\<lparr>rx_script := ir_script r\<rparr>) of
             RxDone err rx \<Rightarrow> IsoNext (s\<lparr>im_rx := rx, im_log := im_log s @ [(role, err)]\<rparr>)
           | RxWaiting _ \<Rightarrow> IsoWaits
           | RxUndef \<Rightarrow> IsoUndefined)
      | ROLE_BROADCASTER \<Rightarrow>
          (case test_run_broadcaster (ic_bc c) (ic_pa c) (ir_channels r) (ir_timer r) (im_console s) (im_bc s) of
             BcDone err bc rest \<Rightarrow> IsoNext (s\<lparr>im_bc := bc, im_console := rest, im_log := im_log s @ [(role, err)]\<rparr>)
           | BcWaiting \<Rightarrow> IsoWaits
           | BcUndef \<Rightarrow> IsoUndefined)
      | ROLE_QUIT \<Rightarrow> IsoExit s)"

text \<open>Callbacks of the receiver come once it has registered them.\<close>

definition between_tests :: "iso_config \<Rightarrow> iso_round \<Rightarrow> iso_main \<Rightarrow> iso_main option" where
  "between_tests c r s =
     map_option (\<lambda>rx. s\<lparr>im_rx := rx\<rparr>)
       (run (rx_event_step (ic_rx c)) (if callbacks_registered (im_rx s) then ir_between r else []) (im_rx s))"

definition iso_turn :: "iso_config \<Rightarrow> iso_round \<Rightarrow> iso_main \<Rightarrow> iso_result" where
  "iso_turn c r s =
     (case between_tests c r s of
        None \<Rightarrow> IsoUndefined
      | Some s1 \<Rightarrow>
          (case role_and_pins c r s1 of
             None \<Rightarrow> IsoWaits
           | Some (role, s2) \<Rightarrow> run_test c r role s2))"

primrec iso_loop :: "iso_config \<Rightarrow> iso_round list \<Rightarrow> iso_main \<Rightarrow> iso_result" where
  "iso_loop c [] s = IsoWaits"
| "iso_loop c (r # rs) s = (case iso_turn c r s of IsoNext s' \<Rightarrow> iso_loop c rs s' | t \<Rightarrow> t)"

definition iso_program :: "iso_config \<Rightarrow> iso_round list \<Rightarrow> iso_main \<Rightarrow> iso_result" where
  "iso_program c rs s =
     (if ic_bt_enable c \<noteq> 0 then IsoExit s
      else if ic_console_init c \<noteq> 0 then IsoExit s
      else iso_loop c rs s)"

section \<open>The roles\<close>

lemma role_select_fixed:
  "device_role_select True lna cs = Some (ROLE_BROADCASTER, cs)"
  "device_role_select False True cs = Some (ROLE_RECEIVER, cs)"
  by (simp_all add: device_role_select.simps)

text \<open>The roles read from the console: the first of the three letters, in either case.\<close>

definition is_role :: "char \<Rightarrow> bool" where
  "is_role ch \<longleftrightarrow> to_lower ch \<in> {CHR ''r'', CHR ''b'', CHR ''q''}"

lemma role_select_console:
  "device_role_select False False cs =
     (case dropWhile (\<lambda>ch. \<not> is_role ch) cs of
        [] \<Rightarrow> None
      | ch # rest \<Rightarrow> Some (if to_lower ch = CHR ''r'' then ROLE_RECEIVER
                         else if to_lower ch = CHR ''b'' then ROLE_BROADCASTER else ROLE_QUIT, rest))"
proof (induction cs)
  case Nil
  show ?case by (simp add: device_role_select.simps)
next
  case (Cons ch cs)
  then show ?case by (subst device_role_select.simps) (simp add: is_role_def Let_def)
qed

lemma run_test_log:
  "run_test c r role s = IsoNext s' \<Longrightarrow> \<exists>err. im_log s' = im_log s @ [(role, err)] \<and> im_pins s' = im_pins s"
  by (auto simp: run_test_def split: benchmark_role.splits rx_res.splits bc_res.splits)

lemma between_tests_frame:
  "between_tests c r s = Some s' \<Longrightarrow> im_log s' = im_log s \<and> im_pins s' = im_pins s \<and> im_console s' = im_console s"
  by (auto simp: between_tests_def)

lemma role_and_pins_frame:
  "role_and_pins c r s = Some (role, s') \<Longrightarrow>
     device_role_select (ic_pa c) (ic_lna c) (im_console s) = Some (role, im_console s')
     \<and> im_log s' = im_log s \<and> im_rx s' = im_rx s \<and> im_bc s' = im_bc s
     \<and> im_pins s' = (if ic_pa c then snd (init_pa_lna (ir_pin r) 1 (im_pins s))
                      else if ic_lna c then snd (init_pa_lna (ir_pin r) 0 (im_pins s)) else im_pins s)"
  by (auto simp: role_and_pins_def split: option.splits)

text \<open>A test is never run for the role to quit, and with a fixed mode only that mode's role is.\<close>

lemma run_test_role: "run_test c r role s = IsoNext s' \<Longrightarrow> role \<noteq> ROLE_QUIT"
  by (auto simp: run_test_def)

definition modes_role :: "iso_config \<Rightarrow> benchmark_role option" where
  "modes_role c = (if ic_pa c then Some ROLE_BROADCASTER else if ic_lna c then Some ROLE_RECEIVER else None)"

definition role_allowed :: "iso_config \<Rightarrow> benchmark_role \<Rightarrow> bool" where
  "role_allowed c role \<longleftrightarrow> role \<noteq> ROLE_QUIT \<and> (case modes_role c of None \<Rightarrow> True | Some m \<Rightarrow> role = m)"

lemma iso_turn_next:
  assumes "iso_turn c r s = IsoNext s'"
  shows "\<exists>role err. role_allowed c role \<and> im_log s' = im_log s @ [(role, err)]
     \<and> im_pins s' = (if ic_pa c then snd (init_pa_lna (ir_pin r) 1 (im_pins s))
                      else if ic_lna c then snd (init_pa_lna (ir_pin r) 0 (im_pins s)) else im_pins s)"
proof -
  obtain s1 where s1: "between_tests c r s = Some s1"
    using assms by (auto simp: iso_turn_def split: option.splits)
  then obtain role s2 where s2: "role_and_pins c r s1 = Some (role, s2)" and t: "run_test c r role s2 = IsoNext s'"
    using assms by (auto simp: iso_turn_def split: option.splits)
  note f = role_and_pins_frame [OF s2] between_tests_frame [OF s1]
  have rest: "device_role_select (ic_pa c) (ic_lna c) (im_console s) = Some (role, im_console s2)"
    using f by simp
  have "role_allowed c role"
    using rest run_test_role [OF t] role_select_fixed
    by (cases "ic_pa c"; cases "ic_lna c") (auto simp: role_allowed_def modes_role_def device_role_select.simps)
  with run_test_log [OF t] f show ?thesis by auto
qed

lemma iso_turn_exit:
  assumes "iso_turn c r s = IsoExit s'"
  shows "\<not> ic_pa c \<and> \<not> ic_lna c \<and> im_log s' = im_log s \<and> im_pins s' = im_pins s
     \<and> device_role_select False False (im_console s) = Some (ROLE_QUIT, im_console s')"
proof -
  obtain s1 where s1: "between_tests c r s = Some s1"
    using assms by (auto simp: iso_turn_def split: option.splits)
  then obtain role s2 where s2: "role_and_pins c r s1 = Some (role, s2)" and t: "run_test c r role s2 = IsoExit s'"
    using assms by (auto simp: iso_turn_def split: option.splits)
  from t have q: "role = ROLE_QUIT" "s' = s2"
    by (auto simp: run_test_def split: benchmark_role.splits rx_res.splits bc_res.splits)
  have d: "device_role_select (ic_pa c) (ic_lna c) (im_console s) = Some (ROLE_QUIT, im_console s')"
    using role_and_pins_frame [OF s2] q between_tests_frame [OF s1] by simp
  then have m: "\<not> ic_pa c \<and> \<not> ic_lna c" using role_select_fixed
    by (cases "ic_pa c"; cases "ic_lna c") (auto simp: device_role_select.simps)
  with d role_and_pins_frame [OF s2] q between_tests_frame [OF s1] show ?thesis by simp
qed

section \<open>Memory safety\<close>

text \<open>The ring of the latest packets, and callbacks without the one that divides.\<close>

definition ring_wf :: "iso_rx \<Rightarrow> bool" where
  "ring_wf s \<longleftrightarrow> length (stats_latest_arr s) = 1000 \<and> stats_latest_arr_pos s < 1000"

fun is_loss :: "rx_event \<Rightarrow> bool" where
  "is_loss (IsoDisconnected now) = True"
| "is_loss _ = False"

fun item_events :: "rx_item \<Rightarrow> rx_event list" where
  "item_events (Burst evs) = evs"
| "item_events TimeOut = []"

definition quiet_items :: "rx_item list \<Rightarrow> bool" where
  "quiet_items items \<longleftrightarrow> (\<forall>i\<in>set items. \<forall>ev\<in>set (item_events i). \<not> is_loss ev)"

lemma quiet_Cons [simp]:
  "quiet_items (i # items) \<longleftrightarrow> (\<forall>ev\<in>set (item_events i). \<not> is_loss ev) \<and> quiet_items items"
  "quiet_items []"
  by (auto simp: quiet_items_def)

lemma give_frame [simp]:
  "ring_wf (give m s) = ring_wf s" "rx_script (give m s) = rx_script s"
  by (simp_all add: give_def ring_wf_def)

lemma rx_event_defined:
  "ring_wf s \<Longrightarrow> \<not> is_loss ev \<Longrightarrow> \<exists>s'. rx_event_step e ev s = Some s' \<and> ring_wf s' \<and> rx_script s' = rx_script s"
  by (cases ev) (auto simp: scan_recv_def sync_cb_def term_cb_def biginfo_cb_def iso_connected_def iso_recv_def
      ring_wf_def give_def Let_def)

lemma rx_events_defined:
  "ring_wf s \<Longrightarrow> \<forall>ev\<in>set evs. \<not> is_loss ev \<Longrightarrow>
     \<exists>s'. run (rx_event_step e) evs s = Some s' \<and> ring_wf s' \<and> rx_script s' = rx_script s"
proof (induction evs arbitrary: s)
  case (Cons ev evs)
  then obtain s1 where "rx_event_step e ev s = Some s1" "ring_wf s1" "rx_script s1 = rx_script s"
    using rx_event_defined [of s ev e] by auto
  with Cons show ?case by fastforce
qed simp

text \<open>A routine of the receiver's test that is defined and keeps the ring and a quiet script.\<close>

fun rx_safe :: "'a rx_res \<Rightarrow> bool" where
  "rx_safe (RxDone x s) = (ring_wf s \<and> quiet_items (rx_script s))"
| "rx_safe (RxWaiting s) = True"
| "rx_safe RxUndef = False"

lemma rx_safe_bind:
  "rx_safe r \<Longrightarrow> (\<And>x s. ring_wf s \<Longrightarrow> quiet_items (rx_script s) \<Longrightarrow> rx_safe (f x s)) \<Longrightarrow> rx_safe (rx_bind r f)"
  by (cases r) auto

lemma sem_take_safe:
  "ring_wf s \<Longrightarrow> quiet_items items \<Longrightarrow> rx_safe (sem_take e forever m items s)"
proof (induction e forever m items s rule: sem_take.induct)
  case (1 e forever m items s)
  show ?case
  proof (cases "rx_given s m")
    case True
    then show ?thesis using "1.prems" by (subst sem_take.simps) (simp add: ring_wf_def)
  next
    case n: False
    show ?thesis
    proof (cases items)
      case Nil
      then show ?thesis using n by (subst sem_take.simps) simp
    next
      case (Cons i items')
      show ?thesis
      proof (cases i)
        case TimeOut
        show ?thesis using Cons TimeOut n "1.IH"(2) [OF n Cons TimeOut] "1.prems"
          by (subst sem_take.simps) (simp add: ring_wf_def)
      next
        case (Burst evs)
        obtain s' where s': "run (rx_event_step e) evs s = Some s'" "ring_wf s'"
          using rx_events_defined [of s evs e] "1.prems" Cons Burst by auto
        show ?thesis using Cons Burst n s' "1.IH"(1) [OF n Cons Burst s'(1)] "1.prems"
          by (subst sem_take.simps) simp
      qed
    qed
  qed
qed

lemma take_sem_safe: "ring_wf s \<Longrightarrow> quiet_items (rx_script s) \<Longrightarrow> rx_safe (take_sem e forever m s)"
  unfolding take_sem_def by (rule sem_take_safe)

lemma rx_do_frame [simp]:
  "ring_wf (snd (rx_do e c s)) = ring_wf s" "rx_script (snd (rx_do e c s)) = rx_script s"
  by (simp_all add: rx_do_def ring_wf_def)

lemma rx_do_pair: "rx_do e c s = (err, s') \<Longrightarrow> ring_wf s' = ring_wf s \<and> rx_script s' = rx_script s"
  using rx_do_frame [of e c s] by simp

lemma cleanup_pair: "cleanup e sync big s = (err, s') \<Longrightarrow> ring_wf s' = ring_wf s \<and> rx_script s' = rx_script s"
  by (auto simp: cleanup_def Let_def rx_do_def ring_wf_def split: if_splits prod.splits)

lemma cleanup_frame [simp]:
  "ring_wf (snd (cleanup e sync big s)) = ring_wf s" "rx_script (snd (cleanup e sync big s)) = rx_script s"
  using cleanup_pair [of e sync big s] by (cases "cleanup e sync big s"; simp)+

lemma create_pa_sync_safe: "ring_wf s \<Longrightarrow> quiet_items (rx_script s) \<Longrightarrow> rx_safe (create_pa_sync e s)"
  unfolding create_pa_sync_def Let_def
  by (auto split: prod.split dest!: rx_do_pair intro!: rx_safe_bind take_sem_safe)

lemma create_big_sync_safe: "ring_wf s \<Longrightarrow> quiet_items (rx_script s) \<Longrightarrow> rx_safe (create_big_sync e sync s)"
  unfolding create_big_sync_def Let_def
  by (auto split: prod.split dest!: rx_do_pair intro!: rx_safe_bind take_sem_safe simp: ring_wf_def)

lemma big_safe:
  "ring_wf s \<Longrightarrow> quiet_items (rx_script s) \<Longrightarrow> rx_safe (take_sem e b m s)"
  "ring_wf s \<Longrightarrow> quiet_items (rx_script s) \<Longrightarrow> rx_safe (create_big_sync e sync (new_sync_stats s))"
  by (auto simp: new_sync_stats_def ring_wf_def intro!: take_sem_safe create_big_sync_safe)

lemma receiver_safe:
  assumes "ring_wf s" "quiet_items (rx_script s)"
  shows "rx_safe (test_run_receiver e s)"
proof -
  let ?s0 = "reset_sems (s\<lparr>broadcaster_found := False, per_adv_lost := False, big_sync_lost := False, biginfo_received := False\<rparr>)"
  define s1 where "s1 = (if callbacks_registered ?s0 then ?s0 else (snd (rx_do e RxCbRegister ?s0))\<lparr>callbacks_registered := True\<rparr>)"
  have s1: "ring_wf s1" "quiet_items (rx_script s1)"
    using assms by (simp_all add: s1_def reset_sems_def ring_wf_def rx_do_def)
  obtain err s2 where s2: "start_scan e s1 = (err, s2)" by fastforce
  then have k: "ring_wf s2" "quiet_items (rx_script s2)" using s1 rx_do_pair [of e _ s1] by (simp_all add: start_scan_def)
  show ?thesis unfolding test_run_receiver_def Let_def s1_def [symmetric] s2
    by (auto split: prod.split simp: stop_scan_def k dest!: rx_do_pair cleanup_pair
        intro!: rx_safe_bind big_safe create_pa_sync_safe)
qed

text \<open>The broadcaster: with settings within the arrays nothing is undefined.\<close>

definition bc_wf :: "iso_limits \<Rightarrow> bcast \<Rightarrow> bool" where
  "bc_wf lim s \<longleftrightarrow> params_wf lim (bc_prm s) \<and> length (iso_data s) = iso_tx_mtu lim"

lemma bc_do_wf [simp]: "bc_wf lim (snd (bc_do e c s)) = bc_wf lim s"
  by (simp add: bc_do_def bc_wf_def)

lemma bc_seq_wf: "bc_wf lim s \<Longrightarrow> bc_wf lim (snd (bc_seq e cs s))"
proof (induction cs arbitrary: s)
  case (Cons c cs)
  then show ?case using bc_do_wf [of lim e c s] by (auto split: prod.split simp del: bc_do_wf)
qed simp

lemma bis_wf [simp]:
  "bc_wf lim (bis_connected s) = bc_wf lim s" "bc_wf lim (bis_disconnected s) = bc_wf lim s"
  by (simp_all add: bis_connected_def bis_disconnected_def bc_wf_def Let_def)

lemma wait_complete_wf: "bc_wf lim s \<Longrightarrow> wait_complete cbs s = Some s' \<Longrightarrow> bc_wf lim s'"
proof (induction cbs arbitrary: s)
  case Nil
  then show ?case by (subst (asm) wait_complete.simps) (auto simp: bc_wf_def split: if_splits)
next
  case (Cons b cbs)
  show ?case
  proof (cases "sem_big_complete s")
    case True
    with Cons.prems show ?thesis by (subst (asm) wait_complete.simps) (auto simp: bc_wf_def)
  next
    case False
    with Cons.prems(2) have "wait_complete cbs (if b then bis_connected s else bis_disconnected s) = Some s'"
      by (subst (asm) wait_complete.simps) simp
    from Cons.IH [OF _ this] Cons.prems(1) show ?thesis by (cases b) simp_all
  qed
qed

lemma create_big_wf:
  assumes "bc_wf lim s" "create_big e cbs s = Some (err, s')"
  shows "bc_wf lim s'"
proof -
  let ?cs = "[BcAdvCreate, BcPerAdvParam, BcPerAdvStart, BcExtAdvStart, BcBigCreate (bc_prm s)]"
  obtain r s1 where s1: "bc_seq e ?cs s = (r, s1)" by fastforce
  then have "bc_wf lim s1" using bc_seq_wf [OF assms(1), of e ?cs] by simp
  then show ?thesis using assms(2) unfolding create_big_def Let_def s1
    by (auto split: if_splits intro: wait_complete_wf)
qed

lemma bc_wf_fits:
  "bc_wf lim s \<Longrightarrow> group_iso_count lim \<le> iso_max_chan lim \<Longrightarrow>
     unat (bc_num_bis (bc_prm s)) \<le> iso_max_chan lim \<and> unat (bc_sdu (bc_prm s)) \<le> length (iso_data s)"
  by (auto simp: bc_wf_def params_wf_def)

lemma send_bis_wf:
  "bc_wf (bc_lim e) s \<Longrightarrow> group_iso_count (bc_lim e) \<le> iso_max_chan (bc_lim e) \<Longrightarrow>
     \<exists>s'. send_bis e i s = Some s' \<and> bc_wf (bc_lim e) s'"
proof (induction "unat (bc_num_bis (bc_prm s)) - i" arbitrary: i s)
  case 0
  then show ?case by (subst send_bis.simps) simp
next
  case (Suc m)
  note fits = bc_wf_fits [OF Suc.prems]
  have lt: "i < unat (bc_num_bis (bc_prm s))" using Suc(2) by simp
  have w: "bc_wf (bc_lim e) (s\<lparr>bc_calls := cs\<rparr>)" "bc_wf (bc_lim e) (after_send e i s)" for cs
    using Suc.prems(1) by (simp_all add: bc_wf_def after_send_def)
  have "\<exists>s'. send_bis e (i + 1) (after_send e i s) = Some s' \<and> bc_wf (bc_lim e) s'"
    using Suc(2) lt w(2) Suc.prems(2) by (intro Suc(1)) simp_all
  then show ?case using send_bis_turn [of i s e] lt fits w(1) by auto
qed

lemma timer_rounds_wf:
  "bc_wf (bc_lim e) s \<Longrightarrow> group_iso_count (bc_lim e) \<le> iso_max_chan (bc_lim e) \<Longrightarrow>
     \<exists>s'. timer_rounds e n s = Some s' \<and> bc_wf (bc_lim e) s'"
proof (induction n arbitrary: s)
  case (Suc n)
  obtain s1 where "iso_timer_timeout e s = Some s1" "bc_wf (bc_lim e) s1"
    using send_bis_wf [of e "snd (bc_do e (BcReschedule (bc_interval (bc_prm s) - 100)) s)" 0] Suc.prems
    unfolding iso_timer_timeout_def by auto
  with Suc show ?case by simp
qed simp

lemma init_data_wf: "bc_wf lim s \<Longrightarrow> bc_wf lim (init_data s)"
  by (auto simp: init_data_def bc_wf_def params_wf_def)

lemma bc_settings_wf:
  assumes "bc_wf (bc_lim e) s" "limits_ok (bc_lim e)" "bc_settings e pa console s = Some (err, s', rest)"
  shows "bc_wf (bc_lim e) s'"
  using assms set_params_wf [OF assms(2)]
  by (auto simp: bc_settings_def parse_args_def bc_wf_def split: if_splits list.splits option.splits)

lemma broadcaster_safe:
  assumes "bc_wf (bc_lim e) s" "limits_ok (bc_lim e)" "group_iso_count (bc_lim e) \<le> iso_max_chan (bc_lim e)"
  shows "case test_run_broadcaster e pa cbs n console s of
           BcDone err s' rest \<Rightarrow> bc_wf (bc_lim e) s' | BcWaiting \<Rightarrow> True | BcUndef \<Rightarrow> False"
proof (cases "bc_settings e pa console (bc_reset_sems s)")
  case None
  then show ?thesis by (simp add: test_run_broadcaster_def)
next
  case (Some x)
  obtain err s1 rest where x: "x = (err, s1, rest)" by (cases x)
  have r: "bc_wf (bc_lim e) (bc_reset_sems s)" using assms(1) by (simp add: bc_wf_def bc_reset_sems_def)
  have w1: "bc_wf (bc_lim e) s1" using bc_settings_wf [OF r assms(2)] Some x by simp
  show ?thesis
  proof (cases "err = 0")
    case False
    then show ?thesis using Some x w1 by (simp add: test_run_broadcaster_def)
  next
    case True
    show ?thesis
    proof (cases "create_big e cbs s1")
      case None
      then show ?thesis using Some x True by (simp add: test_run_broadcaster_def)
    next
      case (Some y)
      obtain err2 s2 where y: "y = (err2, s2)" by (cases y)
      have w2: "bc_wf (bc_lim e) s2" using create_big_wf [OF w1] Some y by simp
      define s4 where "s4 = snd (bc_do e BcWorkSchedule (snd (bc_do e BcWorkInit (init_data (s2\<lparr>iso_send_count := 0\<rparr>)))))"
      have "bc_wf (bc_lim e) s4" unfolding s4_def bc_do_wf
        by (rule init_data_wf) (use w2 in \<open>simp add: bc_wf_def\<close>)
      then obtain s5 where s5: "timer_rounds e n s4 = Some s5" "bc_wf (bc_lim e) s5"
        using timer_rounds_wf [OF _ assms(3)] by blast
      have w6: "bc_wf (bc_lim e) (snd (delete_big e (snd (bc_do e BcWorkCancel s5))))"
        unfolding delete_big_def by (rule bc_seq_wf) (simp add: s5(2))
      obtain err6 s6 where s6: "delete_big e (snd (bc_do e BcWorkCancel s5)) = (err6, s6)" by fastforce
      show ?thesis
        using \<open>bc_settings e pa console (bc_reset_sems s) = Some x\<close> x True Some y w2 s5(1) w6 s6
        by (simp add: test_run_broadcaster_def Let_def s4_def [symmetric] split: option.split)
    qed
  qed
qed

text \<open>The whole program: an invariant of its state that every turn of the loop keeps.\<close>

definition main_wf :: "iso_config \<Rightarrow> iso_main \<Rightarrow> bool" where
  "main_wf c s \<longleftrightarrow> ring_wf (im_rx s) \<and> bc_wf (bc_lim (ic_bc c)) (im_bc s)"

definition quiet_round :: "iso_round \<Rightarrow> bool" where
  "quiet_round r \<longleftrightarrow> (\<forall>ev\<in>set (ir_between r). \<not> is_loss ev) \<and> quiet_items (ir_script r)"

lemma iso_turn_safe:
  assumes "limits_ok (bc_lim (ic_bc c))" "group_iso_count (bc_lim (ic_bc c)) \<le> iso_max_chan (bc_lim (ic_bc c))"
    and "main_wf c s" "quiet_round r"
  shows "case iso_turn c r s of IsoNext s' \<Rightarrow> main_wf c s' | IsoExit s' \<Rightarrow> main_wf c s' | IsoWaits \<Rightarrow> True | IsoUndefined \<Rightarrow> False"
proof -
  have ev: "\<forall>ev\<in>set (if callbacks_registered (im_rx s) then ir_between r else []). \<not> is_loss ev"
    using assms(4) by (simp add: quiet_round_def)
  have ring: "ring_wf (im_rx s)" using assms(3) by (simp add: main_wf_def)
  obtain s1 where s1: "between_tests c r s = Some s1" "main_wf c s1"
    using rx_events_defined [OF ring ev, of "ic_rx c"] assms(3) by (auto simp: between_tests_def main_wf_def)
  show ?thesis
  proof (cases "role_and_pins c r s1")
    case None
    then show ?thesis using s1 by (simp add: iso_turn_def)
  next
    case (Some x)
    obtain role s2 where x: "x = (role, s2)" by (cases x)
    have w: "main_wf c s2" using role_and_pins_frame [of c r s1 role s2] Some x s1(2) by (simp add: main_wf_def)
    have rx: "rx_safe (test_run_receiver (ic_rx c) ((im_rx s2)\<lparr>rx_script := ir_script r\<rparr>))"
      using w assms(4) by (intro receiver_safe) (simp_all add: main_wf_def ring_wf_def quiet_round_def)
    have bc: "case test_run_broadcaster (ic_bc c) (ic_pa c) (ir_channels r) (ir_timer r) (im_console s2) (im_bc s2) of
        BcDone err s' rest \<Rightarrow> bc_wf (bc_lim (ic_bc c)) s' | BcWaiting \<Rightarrow> True | BcUndef \<Rightarrow> False"
      using w assms(1,2) by (intro broadcaster_safe) (simp_all add: main_wf_def)
    show ?thesis using s1(1) Some x w rx bc
      by (auto simp: iso_turn_def run_test_def main_wf_def split: benchmark_role.split rx_res.split bc_res.split)
  qed
qed


section \<open>The end of the program\<close>

text \<open>What the program leaves of the console is an end of it.\<close>

lemma get_chars_suffix: "get_chars n cs = Some (buf, rest) \<Longrightarrow> suffix rest cs"
  using get_chars_some [of n cs buf rest] by (simp add: suffix_drop)

lemma read_arg_suffix: "read_arg n d bad cs = Some (v, rest) \<Longrightarrow> suffix rest cs"
  by (auto simp: read_arg_def dest: get_chars_suffix split: option.splits)

lemma parse_all_suffix:
  "\<forall>p\<in>set ps. \<forall>cs v rest. p cs = Some (v, rest) \<longrightarrow> suffix rest cs \<Longrightarrow> parse_all ps cs = Some (x, rest) \<Longrightarrow> suffix rest cs"
proof (induction ps arbitrary: cs x)
  case (Cons p ps)
  obtain v r where p: "p cs = Some (v, r)" using Cons.prems(2) by (auto split: option.splits)
  then have s: "suffix r cs" using Cons.prems(1) by auto
  show ?case
  proof (cases "v < 0")
    case True
    then show ?thesis using Cons.prems(2) p s by simp
  next
    case False
    then obtain y where "parse_all ps r = Some (y, rest)"
      using Cons.prems(2) p by (auto split: option.splits)
    with Cons.IH [of r y] Cons.prems(1) s show ?thesis by (auto intro: suffix_order.trans)
  qed
qed (simp)

lemma arg_parsers_suffix: "p \<in> set (arg_parsers lim) \<Longrightarrow> p cs = Some (v, rest) \<Longrightarrow> suffix rest cs"
  by (auto simp: arg_parsers_def parse_rtn_arg_def parse_interval_arg_def parse_latency_arg_def parse_phy_arg_def
      parse_sdu_arg_def parse_packing_arg_def parse_framing_arg_def parse_bis_count_arg_def dest: read_arg_suffix)

lemma parse_args_suffix: "parse_args lim cs p = Some (err, p', rest) \<Longrightarrow> suffix rest cs"
  using parse_all_suffix [of "arg_parsers lim" cs] arg_parsers_suffix [of _ lim]
  by (fastforce simp: parse_args_def split: option.splits)

lemma bc_settings_suffix: "bc_settings e pa cs s = Some (err, s', rest) \<Longrightarrow> suffix rest cs"
  by (auto simp: bc_settings_def suffix_Cons dest!: parse_args_suffix split: if_splits list.splits)

lemma wait_quit_suffix: "wait_quit cs = Some rest \<Longrightarrow> suffix rest cs"
  by (induction cs) (auto simp: suffix_Cons split: if_splits)

lemma broadcaster_suffix:
  "test_run_broadcaster e pa cbs n cs s = BcDone err s' rest \<Longrightarrow> suffix rest cs"
  by (auto simp: test_run_broadcaster_def Let_def split: option.splits if_splits prod.splits
      dest!: bc_settings_suffix wait_quit_suffix intro: suffix_order.trans)

lemma role_select_suffix: "device_role_select pa lna cs = Some (role, rest) \<Longrightarrow> suffix rest cs"
proof (induction cs arbitrary: rest)
  case Nil
  then show ?case by (subst (asm) device_role_select.simps) (auto split: if_splits)
next
  case (Cons ch cs)
  show ?case using Cons.prems [unfolded device_role_select.simps [of pa lna "ch # cs"]] Cons.IH [of rest]
    by (auto simp: Let_def suffix_Cons split: if_splits)
qed

lemma iso_turn_suffix:
  "iso_turn c r s = IsoNext s' \<Longrightarrow> suffix (im_console s') (im_console s)"
  by (auto simp: iso_turn_def run_test_def split: option.splits prod.splits benchmark_role.splits rx_res.splits bc_res.splits
      dest!: between_tests_frame role_and_pins_frame role_select_suffix broadcaster_suffix intro: suffix_order.trans)

lemma role_quit_char:
  assumes "device_role_select False False cs = Some (ROLE_QUIT, rest)"
  shows "\<exists>q. to_lower q = CHR ''q'' \<and> suffix (q # rest) cs"
proof (cases "dropWhile (\<lambda>ch. \<not> is_role ch) cs")
  case Nil
  with assms show ?thesis by (simp add: role_select_console)
next
  case (Cons ch r)
  then have "is_role ch" using hd_dropWhile [of "\<lambda>ch. \<not> is_role ch" cs] by auto
  with assms Cons have "rest = r" "to_lower ch = CHR ''q''"
    by (auto simp: role_select_console is_role_def split: if_splits)
  moreover have "suffix (ch # r) cs" using Cons suffix_dropWhile [of "\<lambda>ch. \<not> is_role ch" cs] by simp
  ultimately show ?thesis by blast
qed

lemma iso_loop_exit:
  "iso_loop c rs s = IsoExit s' \<Longrightarrow> \<not> ic_pa c \<and> \<not> ic_lna c
     \<and> (\<exists>ts. im_log s' = im_log s @ ts \<and> length ts < length rs \<and> (\<forall>t\<in>set ts. fst t \<noteq> ROLE_QUIT))
     \<and> (\<exists>q. to_lower q = CHR ''q'' \<and> suffix (q # im_console s') (im_console s))"
proof (induction rs arbitrary: s)
  case (Cons r rs)
  show ?case
  proof (cases "iso_turn c r s")
    case (IsoNext t)
    with Cons.prems have l: "iso_loop c rs t = IsoExit s'" by simp
    obtain role err where r: "role_allowed c role" "im_log t = im_log s @ [(role, err)]"
      using iso_turn_next [OF IsoNext] by blast
    obtain ts q where "im_log s' = im_log t @ ts" "length ts < length rs" "\<forall>t\<in>set ts. fst t \<noteq> ROLE_QUIT"
      and q: "to_lower q = CHR ''q''" "suffix (q # im_console s') (im_console t)"
      using Cons.IH [OF l] by blast
    with r have "im_log s' = im_log s @ ((role, err) # ts) \<and> length ((role, err) # ts) < length (r # rs)
       \<and> (\<forall>t\<in>set ((role, err) # ts). fst t \<noteq> ROLE_QUIT)"
      by (simp add: role_allowed_def)
    moreover have "suffix (q # im_console s') (im_console s)"
      using q(2) iso_turn_suffix [OF IsoNext] by (rule suffix_order.trans)
    ultimately show ?thesis using Cons.IH [OF l] q(1) by blast
  next
    case (IsoExit t)
    with Cons.prems have "t = s'" by simp
    with iso_turn_exit [OF IsoExit] role_quit_char show ?thesis by fastforce
  qed (use Cons.prems in simp_all)
qed simp

text \<open>
  Once the stack and the console are up, the program ends only because a q was typed for the role, in a
  configuration without a fixed role; no test ends it, whatever error it returns: each is logged and the role is asked
  for again.
\<close>

theorem program_ends_by_choice:
  assumes "ic_bt_enable c = 0" "ic_console_init c = 0" "iso_program c rs s = IsoExit s'"
  shows "\<not> ic_pa c \<and> \<not> ic_lna c
     \<and> (\<exists>ts. im_log s' = im_log s @ ts \<and> length ts < length rs \<and> (\<forall>t\<in>set ts. fst t \<noteq> ROLE_QUIT))
     \<and> (\<exists>q. to_lower q = CHR ''q'' \<and> suffix (q # im_console s') (im_console s))"
  using assms iso_loop_exit by (simp add: iso_program_def)

definition other_amplifier_off :: "iso_config \<Rightarrow> (pa_pin \<Rightarrow> bool option) \<Rightarrow> bool" where
  "other_amplifier_off c pins \<longleftrightarrow>
     (if ic_pa c then pins RX_EN_PIN \<noteq> Some True else if ic_lna c then pins TX_EN_PIN \<noteq> Some True
      else pins = (\<lambda>_. None))"

lemma init_pa_lna_other:
  "pins RX_EN_PIN \<noteq> Some True \<Longrightarrow> snd (init_pa_lna ret 1 pins) RX_EN_PIN \<noteq> Some True"
  "pins TX_EN_PIN \<noteq> Some True \<Longrightarrow> snd (init_pa_lna ret 0 pins) TX_EN_PIN \<noteq> Some True"
  by (simp_all add: init_pa_lna_def)

primrec after_rounds :: "iso_config \<Rightarrow> iso_round list \<Rightarrow> iso_main \<Rightarrow> iso_main option" where
  "after_rounds c [] s = Some s"
| "after_rounds c (r # rs) s = (case iso_turn c r s of IsoNext s' \<Rightarrow> after_rounds c rs s' | _ \<Rightarrow> None)"

text \<open>
  With a fixed role only that role's test is run, and the amplifier of the other direction is never switched on,
  whichever of the pins' configurations fail.
\<close>

theorem fixed_role_amplifiers:
  assumes "after_rounds c rs s = Some s'" "other_amplifier_off c (im_pins s)"
  shows "other_amplifier_off c (im_pins s')
     \<and> (\<exists>ts. im_log s' = im_log s @ ts \<and> length ts = length rs \<and> (\<forall>t\<in>set ts. role_allowed c (fst t)))"
  using assms
proof (induction rs arbitrary: s)
  case (Cons r rs)
  then obtain t where t: "iso_turn c r s = IsoNext t" "after_rounds c rs t = Some s'"
    by (auto split: iso_result.splits)
  obtain role err where n: "role_allowed c role" "im_log t = im_log s @ [(role, err)]"
    and pins: "im_pins t = (if ic_pa c then snd (init_pa_lna (ir_pin r) 1 (im_pins s))
                      else if ic_lna c then snd (init_pa_lna (ir_pin r) 0 (im_pins s)) else im_pins s)"
    using iso_turn_next [OF t(1)] by blast
  have "other_amplifier_off c (im_pins t)"
    using Cons.prems(2) unfolding pins other_amplifier_off_def
    by (cases "ic_pa c"; cases "ic_lna c") (simp_all add: init_pa_lna_other)
  then obtain ts where o: "other_amplifier_off c (im_pins s')"
    and ts: "im_log s' = im_log t @ ts" "length ts = length rs" "\<forall>t\<in>set ts. role_allowed c (fst t)"
    using Cons.IH [OF t(2)] by blast
  have "im_log s' = im_log s @ ((role, err) # ts) \<and> length ((role, err) # ts) = length (r # rs)
     \<and> (\<forall>t\<in>set ((role, err) # ts). role_allowed c (fst t))"
    using ts n by simp
  with o show ?case by blast
qed simp

section \<open>Witnesses\<close>

definition demo_iso :: "bool \<Rightarrow> iso_config" where
  "demo_iso pa = \<lparr>ic_pa = pa, ic_lna = False, ic_rx = demo_rx_env\<lparr>rx_ret := (\<lambda>_. - 5)\<rparr>,
     ic_bc = \<lparr>bc_lim = demo_limits\<lparr>group_iso_count := iso_max_chan demo_limits\<rparr>, bc_ret = (\<lambda>_. - 5)\<rparr>,
     ic_bt_enable = 0, ic_console_init = 0\<rparr>"

definition demo_iso_round :: iso_round where
  "demo_iso_round = \<lparr>ir_between = [PerTerm], ir_script = [], ir_channels = [], ir_timer = 0, ir_pin = (\<lambda>_. 0)\<rparr>"

definition demo_main :: "string \<Rightarrow> iso_main" where
  "demo_main cs = \<lparr>im_rx = iso_rx_init, im_bc = demo_bcast\<lparr>bc_prm := default_params demo_limits\<rparr>, im_console = cs,
     im_pins = (\<lambda>_. None), im_log = []\<rparr>"

lemma demo_failing_receiver:
  assumes "rx_ret e = (\<lambda>_. - 5)"
  shows "\<exists>s'. test_run_receiver e s = RxDone (- 5) s' \<and> callbacks_registered s'"
  using assms by (auto simp: test_run_receiver_def start_scan_def rx_do_def Let_def)

lemma demo_between:
  "\<exists>s'. between_tests (demo_iso pa) demo_iso_round s = Some s'"
  by (simp add: between_tests_def demo_iso_round_def)

lemma demo_turn:
  assumes "device_role_select False False (im_console s) = Some (role, rest)" "role \<noteq> ROLE_BROADCASTER"
  shows "\<exists>s'. iso_turn (demo_iso False) demo_iso_round s = (if role = ROLE_QUIT then IsoExit s' else IsoNext s') \<and> im_console s' = rest"
proof -
  obtain s1 where s1: "between_tests (demo_iso False) demo_iso_round s = Some s1" using demo_between by blast
  then have "im_console s1 = im_console s" using between_tests_frame by blast
  then obtain s2 where s2: "role_and_pins (demo_iso False) demo_iso_round s1 = Some (role, s2)" "im_console s2 = rest"
    using assms(1) by (simp add: role_and_pins_def demo_iso_def)
  obtain rx where "test_run_receiver (ic_rx (demo_iso False)) ((im_rx s2)\<lparr>rx_script := ir_script demo_iso_round\<rparr>) = RxDone (- 5) rx"
    using demo_failing_receiver [of "ic_rx (demo_iso False)"] by (auto simp: demo_iso_def)
  with s1 s2 assms(2) show ?thesis
    by (cases role) (auto simp: iso_turn_def run_test_def)
qed

theorem program_ends_by_choice_witness:
  "\<exists>s'. iso_program (demo_iso False) [demo_iso_round, demo_iso_round] (demo_main ''?rQ'') = IsoExit s'
     \<and> (\<exists>q. to_lower q = CHR ''q'' \<and> suffix (q # im_console s') ''?rQ'')"
proof -
  have "device_role_select False False ''?rQ'' = Some (ROLE_RECEIVER, ''Q'')" by code_simp
  with demo_turn [of "demo_main ''?rQ''" ROLE_RECEIVER "''Q''"] obtain s1
    where s1: "iso_turn (demo_iso False) demo_iso_round (demo_main ''?rQ'') = IsoNext s1" "im_console s1 = ''Q''"
    by (auto simp: demo_main_def)
  have "device_role_select False False ''Q'' = Some (ROLE_QUIT, [])" by code_simp
  with demo_turn [of s1 ROLE_QUIT "[]"] s1(2) obtain s2
    where s2: "iso_turn (demo_iso False) demo_iso_round s1 = IsoExit s2" by auto
  have e: "iso_program (demo_iso False) [demo_iso_round, demo_iso_round] (demo_main ''?rQ'') = IsoExit s2"
    by (simp add: iso_program_def s1(1) s2) (simp add: demo_iso_def)
  with program_ends_by_choice [OF _ _ e] show ?thesis by (auto simp: demo_iso_def demo_main_def)
qed


lemma demo_failing_broadcaster:
  "\<exists>s'. test_run_broadcaster (ic_bc (demo_iso True)) True cbs n cs s = BcDone (- 5) s' cs"
  by (auto simp: test_run_broadcaster_def bc_settings_def create_big_def demo_iso_def bc_do_def Let_def)

theorem fixed_role_amplifiers_witness:
  "\<exists>s'. after_rounds (demo_iso True) [demo_iso_round] (demo_main ''q'') = Some s' \<and> im_pins s' RX_EN_PIN \<noteq> Some True"
proof -
  obtain s1 where s1: "between_tests (demo_iso True) demo_iso_round (demo_main ''q'') = Some s1" using demo_between by blast
  obtain role s2 where s2: "role_and_pins (demo_iso True) demo_iso_round s1 = Some (role, s2)" "role = ROLE_BROADCASTER"
    by (simp add: role_and_pins_def role_select_fixed) (simp add: demo_iso_def role_select_fixed)
  obtain b where "test_run_broadcaster (ic_bc (demo_iso True)) True (ir_channels demo_iso_round) (ir_timer demo_iso_round)
      (im_console s2) (im_bc s2) = BcDone (- 5) b (im_console s2)"
    using demo_failing_broadcaster by blast
  with s1 s2 have "\<exists>s'. after_rounds (demo_iso True) [demo_iso_round] (demo_main ''q'') = Some s'"
    by (simp add: iso_turn_def run_test_def) (simp add: demo_iso_def)
  then obtain s' where s': "after_rounds (demo_iso True) [demo_iso_round] (demo_main ''q'') = Some s'" by blast
  have "other_amplifier_off (demo_iso True) (im_pins (demo_main ''q''))"
    by (simp add: other_amplifier_off_def demo_iso_def demo_main_def)
  with fixed_role_amplifiers [OF s'] s' show ?thesis by (auto simp: other_amplifier_off_def demo_iso_def)
qed

end
