(* ===== verification/AppMain.thy ===== *)
theory AppMain
  imports AppThreads Machine
begin

text \<open>
  The program of the application core of the nRF5340 example as a whole (\<open>main\<close>, the button handler, the
  power switch and the blinking work of \<open>nrf53_ble/otherExamples/appcore/src/main.c\<close>): what \<open>main\<close> sets
  up, and then, after it has returned, the events: buttons, the work item, and the threads that take the
  three semaphores.
\<close>

section \<open>Set-up\<close>

datatype app_call = AssignIoToNetcore | GetDeviceHandle | GpioConfigure | ButtonsInit | WorkQStart
  | BlinkyInit | BlinkySubmit nat | SmpRpcInit | OsMgmtRegister | ImgMgmtRegister

record app_env =
  ae_led_bound :: bool
  ae_gpio :: int
  ae_buttons :: int
  ae_pm :: bool
  ae_dfu :: bool
  ae_os_mgmt :: bool
  ae_img_mgmt :: bool

record app_prog =
  ap_state :: app_main
  ap_buttons :: bool
  ap_calls :: "app_call list"

definition assign_io_to_netcore :: "app_prog \<Rightarrow> app_prog" where
  "assign_io_to_netcore s = s\<lparr>ap_calls := ap_calls s @ [AssignIoToNetcore]\<rparr>"

definition app_do :: "app_call list \<Rightarrow> app_prog \<Rightarrow> app_prog" where
  "app_do cs s = s\<lparr>ap_calls := ap_calls s @ cs\<rparr>"

text \<open>
  The pin of the LED is configured as an active output, which lights it. An error of the buttons is printed
  and does not end the set-up.
\<close>

definition app_core_main :: "app_env \<Rightarrow> app_prog \<Rightarrow> app_prog" where
  "app_core_main e s =
     (let s1 = assign_io_to_netcore s in
      if \<not> ae_led_bound e then s1
      else
        (let s2 = app_do [GpioConfigure] (if ae_pm e then app_do [GetDeviceHandle] s1 else s1) in
         if ae_gpio e < 0 then s2
         else
           (let s2' = s2\<lparr>ap_state := (ap_state s2)\<lparr>am_led := True\<rparr>\<rparr>;
                s3 = (app_do [ButtonsInit] s2')\<lparr>ap_buttons := (ae_buttons e = 0)\<rparr>;
                s4 = app_do [WorkQStart, BlinkyInit, BlinkySubmit 20] s3;
                s5 = s4\<lparr>ap_state := (ap_state s4)\<lparr>am_blinky := True\<rparr>\<rparr>
            in if ae_dfu e
               then app_do (SmpRpcInit # (if ae_os_mgmt e then [OsMgmtRegister] else []) @
                              (if ae_img_mgmt e then [ImgMgmtRegister] else [])) s5
               else s5)))"

section \<open>Events\<close>

text \<open>
  A change of the buttons (their state, what changed, and the answers of the two power calls), the
  work item, and a thread that takes its semaphore when it is given.
\<close>

datatype app_event = Buttons u32 u32 int int | Blink | RpcTurn | SpiTurn | RawTurn

fun core_app_step :: "app_env \<Rightarrow> app_event \<Rightarrow> app_prog \<Rightarrow> app_prog option" where
  "core_app_step e (Buttons st ch err1 err0) s =
     Some (if ap_buttons s then s\<lparr>ap_state := app_button_changed (ae_pm e) err1 err0 st ch (ap_state s)\<rparr> else s)"
| "core_app_step e Blink s =
     Some (if am_blinky (ap_state s) then s\<lparr>ap_state := blinky_work_fn (ap_state s)\<rparr> else s)"
| "core_app_step e RpcTurn s = Some (s\<lparr>ap_state := (ap_state s)\<lparr>sem_rpc_tx := False\<rparr>\<rparr>)"
| "core_app_step e SpiTurn s = Some (s\<lparr>ap_state := (ap_state s)\<lparr>sem_spi_txrx := False\<rparr>\<rparr>)"
| "core_app_step e RawTurn s = Some (s\<lparr>ap_state := (ap_state s)\<lparr>sem_raw_nrfx_txrx := False\<rparr>\<rparr>)"

definition app_boot :: app_prog where
  "app_boot = \<lparr>ap_state = \<lparr>am_uart0_suspended = False, am_uart1_suspended = False, sem_rpc_tx = False,
     sem_spi_txrx = False, sem_raw_nrfx_txrx = False, led_is_on = True, am_led = False, am_blinky = False\<rparr>,
     ap_buttons = False, ap_calls = []\<rparr>"

text \<open>The reference: everything is read off the sequence of events.\<close>

definition pressed :: "nat \<Rightarrow> app_event \<Rightarrow> bool" where
  "pressed n ev = (case ev of Buttons st ch _ _ \<Rightarrow> bit st n \<and> bit ch n | _ \<Rightarrow> False)"

definition uart1_switched :: "app_event \<Rightarrow> bool" where
  "uart1_switched ev = (case ev of Buttons _ _ err1 _ \<Rightarrow> pressed 2 ev \<and> err1 = 0 | _ \<Rightarrow> False)"

definition uart0_switched :: "app_event \<Rightarrow> bool" where
  "uart0_switched ev = (case ev of Buttons _ _ _ err0 \<Rightarrow> pressed 2 ev \<and> err0 = 0 | _ \<Rightarrow> False)"

definition times :: "(app_event \<Rightarrow> bool) \<Rightarrow> app_event list \<Rightarrow> nat" where
  "times P es = length (filter P es)"

text \<open>A semaphore is given when the last event that concerns it is a press.\<close>

fun given :: "nat \<Rightarrow> app_event \<Rightarrow> app_event list \<Rightarrow> bool" where
  "given n turn [] = False"
| "given n turn (ev # es) = (if pressed n ev then True else if ev = turn then False else given n turn es)"

definition app_matches :: "app_event list \<Rightarrow> app_main \<Rightarrow> bool" where
  "app_matches es m \<longleftrightarrow>
     am_led m = (times (\<lambda>ev. ev = Blink) es = 0 \<or> odd (times (\<lambda>ev. ev = Blink) es)) \<and> led_is_on m = even (times (\<lambda>ev. ev = Blink) es)
     \<and> am_uart1_suspended m = odd (times uart1_switched es) \<and> am_uart0_suspended m = odd (times uart0_switched es)
     \<and> sem_rpc_tx m = given 0 RpcTurn (rev es) \<and> sem_spi_txrx m = given 1 SpiTurn (rev es)
     \<and> sem_raw_nrfx_txrx m = given 1 RawTurn (rev es)"

definition set_up :: "app_env \<Rightarrow> bool" where
  "set_up e \<longleftrightarrow> ae_led_bound e \<and> 0 \<le> ae_gpio e \<and> ae_buttons e = 0 \<and> ae_pm e"

lemma times_snoc [simp]: "times P (es @ [ev]) = times P es + (if P ev then 1 else 0)"
  by (simp add: times_def)

lemma times_nil [simp]: "times P [] = 0"
  by (simp add: times_def)

lemma boot_state:
  "set_up e \<Longrightarrow> ap_buttons (app_core_main e app_boot) \<and> am_blinky (ap_state (app_core_main e app_boot))
     \<and> app_matches [] (ap_state (app_core_main e app_boot))"
  by (auto simp: set_up_def app_core_main_def app_boot_def app_matches_def assign_io_to_netcore_def app_do_def Let_def)

lemma button_matches:
  assumes "app_matches es m"
  shows "app_matches (es @ [Buttons st ch err1 err0]) (app_button_changed True err1 err0 st ch m)"
  using assms
  by (auto simp: app_matches_def app_button_changed_def set_device_pm_state_def pm_switch_def Let_def
      uart1_switched_def uart0_switched_def pressed_def bit_and_iff)

lemma core_app_step_matches:
  assumes "ae_pm e" "ap_buttons s" "am_blinky (ap_state s)" "app_matches es (ap_state s)"
  shows "\<exists>s'. core_app_step e ev s = Some s' \<and> ap_buttons s' \<and> am_blinky (ap_state s') \<and> app_matches (es @ [ev]) (ap_state s')"
proof (cases ev)
  case (Buttons st ch err1 err0)
  then show ?thesis using assms button_matches [OF assms(4), of st ch err1 err0]
    by (auto simp: app_button_changed_def set_device_pm_state_def Let_def)
qed (use assms in \<open>auto simp: app_matches_def blinky_work_fn_def uart1_switched_def uart0_switched_def pressed_def\<close>)


text \<open>A program that was not set up.\<close>

definition app_dead :: "app_prog \<Rightarrow> bool" where
  "app_dead s \<longleftrightarrow> \<not> ap_buttons s \<and> ap_state s = ap_state app_boot \<and> WorkQStart \<notin> set (ap_calls s)"

interpretation dead: machine "core_app_step e" "\<lambda>_ _. True" app_dead for e
proof unfold_locales
  fix s ev
  assume "app_dead s"
  then show "\<exists>s'. core_app_step e ev s = Some s' \<and> app_dead s'"
    by (cases ev) (simp_all add: app_dead_def app_boot_def)
qed

text \<open>
  Without its LED, or when the pin cannot be configured, the program sets up nothing: no button and no work item ever
  changes its state, though the threads go on.
\<close>

theorem app_without_led_dead:
  assumes "\<not> ae_led_bound e \<or> ae_gpio e < 0"
  shows "\<exists>s'. run (core_app_step e) es (app_core_main e app_boot) = Some s' \<and> ap_state s' = ap_state app_boot
     \<and> WorkQStart \<notin> set (ap_calls s')"
proof -
  have "app_dead (app_core_main e app_boot)"
    using assms by (auto simp: app_core_main_def app_boot_def assign_io_to_netcore_def app_do_def app_dead_def Let_def)
  then obtain s' where "run (core_app_step e) es (app_core_main e app_boot) = Some s'" "app_dead s'"
    using dead.run_inv_always by blast
  then show ?thesis by (auto simp: app_dead_def)
qed

definition demo_app :: "int \<Rightarrow> app_env" where
  "demo_app err = \<lparr>ae_led_bound = True, ae_gpio = err, ae_buttons = 0, ae_pm = True, ae_dfu = True,
     ae_os_mgmt = True, ae_img_mgmt = False\<rparr>"


theorem app_without_led_dead_witness:
  "\<exists>s'. run (core_app_step (demo_app (- 22))) [Buttons 1 1 0 0, Blink] (app_core_main (demo_app (- 22)) app_boot) = Some s'
     \<and> ap_state s' = ap_state app_boot"
proof -
  have "\<not> ae_led_bound (demo_app (- 22)) \<or> ae_gpio (demo_app (- 22)) < 0" by (simp add: demo_app_def)
  with app_without_led_dead show ?thesis by blast
qed

end
