(* ===== verification/TxPower.thy ===== *)
theory TxPower
  imports Prelude Machine
begin

text \<open>
  The control of the transmission power (\<open>app/ble/hci_pwr_ctrl/src/main.c\<close>): while nobody is connected a
  thread walks the beacon through nine levels, and over a connection it chooses the level from the
  strength of the received signal. The heart rate it serves is simulated.

  The thread is cut where it sleeps. A Bluetooth command finds no buffer, fails, or has a reply; a signed
  byte is an \<open>8 word\<close> read with \<open>sint\<close>.
\<close>

section \<open>Commands\<close>

type_synonym i8 = "8 word"

datatype 'a hci_reply = NoBuffer | Failed | Reply 'a

datatype hci_cmd = ReadRssi u16 | WriteTxPower u8 u16 i8 | ReadTxPower u8 u16

definition HANDLE_TYPE_ADV :: u8 where "HANDLE_TYPE_ADV = 0"
definition HANDLE_TYPE_CONN :: u8 where "HANDLE_TYPE_CONN = 2"
definition TX_POWER_LEVEL_NO_PREF :: i8 where "TX_POWER_LEVEL_NO_PREF = 0x7F"

text \<open>What a command hci_sends, and what it leaves in the caller's variable.\<close>

definition hci_sends :: "'a hci_reply \<Rightarrow> hci_cmd \<Rightarrow> hci_cmd list" where
  "hci_sends r c = (case r of NoBuffer \<Rightarrow> [] | _ \<Rightarrow> [c])"

definition read_conn_rssi :: "i8 hci_reply \<Rightarrow> u16 \<Rightarrow> i8 \<Rightarrow> hci_cmd list \<times> i8" where
  "read_conn_rssi r handle rssi = (hci_sends r (ReadRssi handle), case r of Reply v \<Rightarrow> v | _ \<Rightarrow> rssi)"

definition set_tx_power :: "i8 hci_reply \<Rightarrow> u8 \<Rightarrow> u16 \<Rightarrow> i8 \<Rightarrow> hci_cmd list" where
  "set_tx_power r handle_type handle lvl = hci_sends r (WriteTxPower handle_type handle lvl)"

definition get_tx_power :: "i8 hci_reply \<Rightarrow> u8 \<Rightarrow> u16 \<Rightarrow> hci_cmd list \<times> i8" where
  "get_tx_power r handle_type handle =
     (hci_sends r (ReadTxPower handle_type handle), case r of Reply v \<Rightarrow> v | _ \<Rightarrow> 0xFF)"

section \<open>State\<close>

datatype pwr_phase = AtTop | BeaconSleep

record tx_prog =
  tx_conn :: ptr
  tx_refs :: "ptr \<Rightarrow> int"
  tx_handle :: u16
  tx_idx :: u8
  pwr_phase :: pwr_phase
  txp_get :: i8
  heartrate :: u8
  hci_sent :: "hci_cmd list"
  hrs_sent :: "u8 list"

definition tx_boot :: tx_prog where
  "tx_boot = \<lparr>tx_conn = 0, tx_refs = (\<lambda>_. 0), tx_handle = 0, tx_idx = 0, pwr_phase = AtTop, txp_get = 0,
     heartrate = 90, hci_sent = [], hrs_sent = []\<rparr>"

section \<open>Operations\<close>

definition txp :: "i8 list" where
  "txp = [8, 4, 0, - 4, - 8, - 12, - 16, - 20, - 40]"

text \<open>The result of \<open>bt_hci_get_conn_handle\<close> and the replies are arguments.\<close>

definition tx_connected :: "ptr \<Rightarrow> u8 \<Rightarrow> int \<times> u16 \<Rightarrow> i8 hci_reply \<Rightarrow> i8 hci_reply \<Rightarrow> i8 hci_reply \<Rightarrow> tx_prog \<Rightarrow> tx_prog" where
  "tx_connected conn err h r1 r2 r3 s =
     (if err \<noteq> 0 then s
      else
        (let s1 = s\<lparr>tx_conn := conn, tx_refs := (tx_refs s)(conn := tx_refs s conn + 1)\<rparr> in
         if fst h \<noteq> 0 then s1
         else s1\<lparr>tx_handle := snd h,
                 hci_sent := hci_sent s1 @ fst (get_tx_power r1 HANDLE_TYPE_CONN (snd h)) @
                   set_tx_power r2 HANDLE_TYPE_CONN (snd h) TX_POWER_LEVEL_NO_PREF @
                   fst (get_tx_power r3 HANDLE_TYPE_CONN (snd h))\<rparr>))"

definition tx_disconnected :: "tx_prog \<Rightarrow> tx_prog" where
  "tx_disconnected s =
     (if tx_conn s \<noteq> 0
      then s\<lparr>tx_refs := (tx_refs s)(tx_conn s := tx_refs s (tx_conn s) - 1), tx_conn := 0\<rparr> else s)"

definition hrs_notify :: "tx_prog \<Rightarrow> tx_prog" where
  "hrs_notify s =
     (let h = heartrate s + 1; h1 = (if h = 160 then 90 else h)
      in s\<lparr>heartrate := h1, hrs_sent := hrs_sent s @ [h1]\<rparr>)"

definition adaptive_level :: "i8 \<Rightarrow> i8" where
  "adaptive_level rssi =
     (if sint rssi > - 50 then - 20 else if sint rssi > - 60 then 0 else if sint rssi > - 70 then 4
      else if sint rssi > - 80 then 8 else 8)"

text \<open>The thread up to its next sleep; reading outside \<open>txp\<close> is undefined.\<close>

definition modulate_tx_power :: "i8 hci_reply \<Rightarrow> i8 hci_reply \<Rightarrow> i8 hci_reply \<Rightarrow> tx_prog \<Rightarrow> tx_prog option" where
  "modulate_tx_power rr rw rg s =
     (case pwr_phase s of
        AtTop \<Rightarrow>
          if tx_conn s = 0
          then (if length txp \<le> unat (tx_idx s) then None
                else Some (s\<lparr>hci_sent := hci_sent s @ set_tx_power rw HANDLE_TYPE_ADV 0 (txp ! unat (tx_idx s)),
                             pwr_phase := BeaconSleep\<rparr>))
          else
            (let (c1, rssi) = read_conn_rssi rr (tx_handle s) 0xFF;
                 c2 = set_tx_power rw HANDLE_TYPE_CONN (tx_handle s) (adaptive_level rssi);
                 (c3, got) = get_tx_power rg HANDLE_TYPE_CONN (tx_handle s)
             in Some (s\<lparr>tx_idx := 0, hci_sent := hci_sent s @ c1 @ c2 @ c3, txp_get := got\<rparr>))
      | BeaconSleep \<Rightarrow>
          (let (c, got) = get_tx_power rg HANDLE_TYPE_ADV 0
           in Some (s\<lparr>hci_sent := hci_sent s @ c, txp_get := got,
                      tx_idx := of_nat ((unat (tx_idx s) + 1) mod length txp), pwr_phase := AtTop\<rparr>)))"

text \<open>
  What \<open>main\<close> does before its loop: the error of \<open>bt_enable\<close> is printed only. \<open>bt_ready\<close> is called back
  with the stack's result and starts the advertising.
\<close>

datatype tx_call = TxBtEnable | TxCmds "hci_cmd list" | TxCbRegister | TxThreadCreate | TxAdvStart

definition tx_bt_ready :: "int \<Rightarrow> tx_call list" where
  "tx_bt_ready err = (if err \<noteq> 0 then [] else [TxAdvStart])"

definition tx_main :: "int \<Rightarrow> i8 hci_reply \<Rightarrow> tx_call list" where
  "tx_main enable r = [TxBtEnable, TxCmds (fst (get_tx_power r HANDLE_TYPE_ADV 0)), TxCbRegister, TxThreadCreate]"

datatype pwr_event =
    Connected ptr u8 "int \<times> u16" "i8 hci_reply" "i8 hci_reply" "i8 hci_reply"
  | Disconnected
  | ThreadTurn "i8 hci_reply" "i8 hci_reply" "i8 hci_reply"
  | Notify

fun pwr_step :: "pwr_event \<Rightarrow> tx_prog \<Rightarrow> tx_prog option" where
  "pwr_step (Connected conn err h r1 r2 r3) s = Some (tx_connected conn err h r1 r2 r3 s)"
| "pwr_step Disconnected s = Some (tx_disconnected s)"
| "pwr_step (ThreadTurn rr rw rg) s = modulate_tx_power rr rw rg s"
| "pwr_step Notify s = Some (hrs_notify s)"

section \<open>Invariant\<close>

text \<open>The stack offers one connection at a time, and connections are not NULL.\<close>

fun tx_ok :: "pwr_event \<Rightarrow> tx_prog \<Rightarrow> bool" where
  "tx_ok (Connected conn err h r1 r2 r3) s = (conn \<noteq> 0 \<and> tx_conn s = 0)"
| "tx_ok _ s = True"

definition pwr_inv :: "tx_prog \<Rightarrow> bool" where
  "pwr_inv s \<longleftrightarrow> unat (tx_idx s) < 9 \<and> 90 \<le> unat (heartrate s) \<and> unat (heartrate s) < 160
     \<and> (\<forall>h\<in>set (hrs_sent s). 90 \<le> unat h \<and> unat h < 160)
     \<and> tx_refs s = (\<lambda>c. if c \<noteq> 0 \<and> c = tx_conn s then 1 else 0)"

lemma length_txp [simp]: "length txp = 9"
  by (simp add: txp_def)

lemma unat_next_idx: "unat (of_nat (n mod 9) :: u8) = n mod 9"
  using mod_less_divisor [of 9 n] by (simp add: unsigned_of_nat take_bit_nat_eq_self)

lemma next_heartrate:
  assumes "90 \<le> unat (h :: u8)" "unat h < 160"
  shows "unat (if h + 1 = 160 then 90 else h + 1) = (if unat h = 159 then 90 else unat h + 1)"
proof -
  have u: "unat (h + 1) = unat h + 1" using assms(2) by (simp add: unat_word_ariths)
  have "h + 1 = 160 \<longleftrightarrow> unat (h + 1) = unat (160 :: u8)" by (simp only: word_unat_eq_iff)
  also have "\<dots> \<longleftrightarrow> unat h = 159" unfolding u by simp
  finally show ?thesis using u by auto
qed

lemma hrs_notify_inv: "pwr_inv s \<Longrightarrow> pwr_inv (hrs_notify s)"
  using next_heartrate [of "heartrate s"] by (auto simp: pwr_inv_def hrs_notify_def Let_def split: if_splits)

interpretation tx: machine pwr_step tx_ok pwr_inv
proof unfold_locales
  fix s ev
  assume i: "pwr_inv s" and ok: "tx_ok ev s"
  show "\<exists>s'. pwr_step ev s = Some s' \<and> pwr_inv s'"
  proof (cases ev)
    case (Connected conn err h r1 r2 r3)
    with i ok show ?thesis by (auto simp: pwr_inv_def tx_connected_def Let_def fun_eq_iff)
  next
    case Disconnected
    with i show ?thesis by (auto simp: pwr_inv_def tx_disconnected_def fun_eq_iff)
  next
    case (ThreadTurn rr rw rg)
    with i show ?thesis
      by (cases "pwr_phase s")
        (auto simp: pwr_inv_def modulate_tx_power_def read_conn_rssi_def get_tx_power_def Let_def unat_next_idx)
  next
    case Notify
    with hrs_notify_inv [OF i] show ?thesis by simp
  qed
qed

lemma tx_boot_inv: "pwr_inv tx_boot"
  by (auto simp: pwr_inv_def tx_boot_def)

text \<open>
  The program never reads outside its table of levels, whatever happens; every heart rate it hci_sends is from 90 to 159;
  and with one connection at a time it holds a reference to exactly the connection it knows.
\<close>

theorem tx_run_defined:
  assumes "run_ok pwr_step tx_ok es tx_boot"
  shows "\<exists>s. run pwr_step es tx_boot = Some s \<and> unat (tx_idx s) < length txp
     \<and> (\<forall>h\<in>set (hrs_sent s). 90 \<le> unat h \<and> unat h < 160)
     \<and> (\<forall>c. tx_refs s c = (if c \<noteq> 0 \<and> c = tx_conn s then 1 else 0))"
  using tx.run_inv [OF tx_boot_inv assms] by (auto simp: pwr_inv_def)

section \<open>Levels\<close>

text \<open>
  Over a connection a stronger signal never gives more power, the level is always one of four, and a turn of the
  thread writes the level of the signal it read.
\<close>

theorem adaptive_antitone:
  "(sint a \<le> sint b \<longrightarrow> sint (adaptive_level b) \<le> sint (adaptive_level a))
   \<and> adaptive_level a \<in> {- 20, 0, 4, 8}
   \<and> (pwr_phase s = AtTop \<and> tx_conn s \<noteq> 0 \<longrightarrow>
        modulate_tx_power (Reply a) (Reply w) (Reply g) s =
          Some (s\<lparr>tx_idx := 0, txp_get := g, hci_sent := hci_sent s @
            [ReadRssi (tx_handle s), WriteTxPower HANDLE_TYPE_CONN (tx_handle s) (adaptive_level a),
             ReadTxPower HANDLE_TYPE_CONN (tx_handle s)]\<rparr>))"
proof -
  have "sint (- 20 :: i8) = - 20" "sint (4 :: i8) = 4" "sint (8 :: i8) = 8" by simp_all
  then show ?thesis
    by (auto simp: adaptive_level_def modulate_tx_power_def read_conn_rssi_def set_tx_power_def get_tx_power_def hci_sends_def)
qed

text \<open>
  When the strength of the signal cannot be read, the variable keeps its first value 0xFF, which is -1, stronger than
  any signal: the thread sets the lowest power of the connection, -20 dBm.
\<close>

theorem unread_signal_lowest_power:
  assumes "pwr_phase s = AtTop" "tx_conn s \<noteq> 0" "rr = NoBuffer \<or> rr = Failed"
  shows "\<exists>s'. modulate_tx_power rr (Reply w) rg s = Some s'
     \<and> WriteTxPower HANDLE_TYPE_CONN (tx_handle s) (- 20) \<in> set (hci_sent s')"
  using assms
  by (auto simp: modulate_tx_power_def read_conn_rssi_def set_tx_power_def get_tx_power_def hci_sends_def adaptive_level_def)

text \<open>The beacon: the levels its turns write, from where the thread stands.\<close>

primrec beacon :: "nat \<Rightarrow> tx_prog \<Rightarrow> tx_prog option" where
  "beacon 0 s = Some s"
| "beacon (Suc n) s = Option.bind (run pwr_step [ThreadTurn Failed (Reply 0) (Reply 0), ThreadTurn Failed (Reply 0) (Reply 0)] s) (beacon n)"

definition is_write :: "hci_cmd \<Rightarrow> bool" where
  "is_write c = (case c of WriteTxPower _ _ _ \<Rightarrow> True | _ \<Rightarrow> False)"

lemma is_write_simps [simp]:
  "is_write (WriteTxPower t h v)" "\<not> is_write (ReadTxPower t h)" "\<not> is_write (ReadRssi h)"
  by (simp_all add: is_write_def)

lemma beacon_step:
  assumes "pwr_phase s = AtTop" "tx_conn s = 0" "unat (tx_idx s) = i" "i < 9"
  shows "\<exists>s'. run pwr_step [ThreadTurn Failed (Reply 0) (Reply 0), ThreadTurn Failed (Reply 0) (Reply 0)] s = Some s'
     \<and> pwr_phase s' = AtTop \<and> tx_conn s' = 0 \<and> unat (tx_idx s') = (i + 1) mod 9
     \<and> hci_sent s' = hci_sent s @ [WriteTxPower HANDLE_TYPE_ADV 0 (txp ! i), ReadTxPower HANDLE_TYPE_ADV 0]"
  using assms
  by (simp add: modulate_tx_power_def set_tx_power_def get_tx_power_def hci_sends_def unat_next_idx del: of_nat_mod)

text \<open>
  While nobody is connected the beacon goes through the nine levels in their order, from the one it stands at, again
  and again.
\<close>

theorem beacon_cycles:
  assumes "pwr_phase s = AtTop" "tx_conn s = 0" "unat (tx_idx s) < 9"
  shows "\<exists>s'. beacon n s = Some s'
     \<and> filter is_write (hci_sent s') = filter is_write (hci_sent s) @
         map (\<lambda>k. WriteTxPower HANDLE_TYPE_ADV 0 (txp ! ((unat (tx_idx s) + k) mod 9))) [0..<n]"
  using assms
proof (induction n arbitrary: s)
  case (Suc n)
  obtain t where t: "run pwr_step [ThreadTurn Failed (Reply 0) (Reply 0), ThreadTurn Failed (Reply 0) (Reply 0)] s = Some t"
     "pwr_phase t = AtTop" "tx_conn t = 0" "unat (tx_idx t) = (unat (tx_idx s) + 1) mod 9"
     "hci_sent t = hci_sent s @ [WriteTxPower HANDLE_TYPE_ADV 0 (txp ! unat (tx_idx s)), ReadTxPower HANDLE_TYPE_ADV 0]"
    using beacon_step [OF Suc.prems(1,2) refl Suc.prems(3)] by blast
  have b: "beacon (Suc n) s = beacon n t" by (simp only: beacon.simps t(1) Option.bind.simps)
  have "unat (tx_idx t) < 9" using t(4) by simp
  from Suc.IH [OF t(2,3) this] obtain s' where s': "beacon n t = Some s'"
    "filter is_write (hci_sent s') = filter is_write (hci_sent t) @
         map (\<lambda>k. WriteTxPower HANDLE_TYPE_ADV 0 (txp ! ((unat (tx_idx t) + k) mod 9))) [0..<n]" by blast
  have m: "map f [0..<Suc n] = f 0 # map (\<lambda>k. f (Suc k)) [0..<n]" for f :: "nat \<Rightarrow> hci_cmd"
    by (simp add: upt_conv_Cons map_Suc_upt [symmetric] o_def del: upt_Suc)
  have "((unat (tx_idx s) + 1) mod 9 + k) mod 9 = (unat (tx_idx s) + Suc k) mod 9" for k by presburger
  with s' t(4,5) Suc.prems(3) show ?case unfolding b m by simp
qed simp

text \<open>
  When the handle of a new connection cannot be read, the thread goes on with the handle of the connection before.
\<close>

theorem stale_handle_used:
  assumes "pwr_phase s = AtTop" "fst h \<noteq> 0" "conn \<noteq> 0"
  shows "\<exists>s'. run pwr_step [Connected conn 0 h r1 r2 r3, ThreadTurn (Reply v) rw rg] s = Some s'
     \<and> ReadRssi (tx_handle s) \<in> set (hci_sent s')"
  using assms by (simp add: tx_connected_def modulate_tx_power_def read_conn_rssi_def get_tx_power_def hci_sends_def)

section \<open>Witnesses\<close>

theorem tx_run_defined_witness:
  "\<exists>s. run pwr_step [Connected 3 0 (0, 7) Failed NoBuffer (Reply 0), Notify, ThreadTurn (Reply 200) Failed (Reply 4), Disconnected] tx_boot = Some s
     \<and> (\<forall>c. tx_refs s c = (if c \<noteq> 0 \<and> c = tx_conn s then 1 else 0))"
proof -
  have "run_ok pwr_step tx_ok [Connected 3 0 (0, 7) Failed NoBuffer (Reply 0), Notify, ThreadTurn (Reply 200) Failed (Reply 4), Disconnected] tx_boot"
    by (simp add: tx_boot_def tx_connected_def hrs_notify_def Let_def split: option.split)
  from tx_run_defined [OF this] show ?thesis by blast
qed

text \<open>At -55 dBm the level is 0, at -75 dBm it is 8.\<close>

theorem adaptive_antitone_witness:
  "sint (adaptive_level (- 55)) \<le> sint (adaptive_level (- 75)) \<and> adaptive_level (- 55) = 0 \<and> adaptive_level (- 75) = 8"
proof -
  have "sint (- 75 :: i8) = - 75" "sint (- 55 :: i8) = - 55" by simp_all
  then have "sint (- 75 :: i8) \<le> sint (- 55 :: i8)" by simp
  with adaptive_antitone [of "- 75" "- 55"] have "sint (adaptive_level (- 55)) \<le> sint (adaptive_level (- 75))" by blast
  then show ?thesis by (simp add: adaptive_level_def)
qed

theorem unread_signal_lowest_power_witness:
  "\<exists>s'. modulate_tx_power Failed (Reply 0) (Reply 0) (tx_boot\<lparr>tx_conn := 3, tx_handle := 7\<rparr>) = Some s'
     \<and> WriteTxPower HANDLE_TYPE_CONN 7 (- 20) \<in> set (hci_sent s')"
  using unread_signal_lowest_power [of "tx_boot\<lparr>tx_conn := 3, tx_handle := 7\<rparr>" Failed 0 "Reply 0"]
  by (simp add: tx_boot_def)

theorem beacon_cycles_witness:
  "\<exists>s'. beacon 11 tx_boot = Some s' \<and> filter is_write (hci_sent s') ! 9 = WriteTxPower HANDLE_TYPE_ADV 0 8"
proof -
  obtain s' where "beacon 11 tx_boot = Some s'" and f: "filter is_write (hci_sent s') =
      filter is_write (hci_sent tx_boot) @ map (\<lambda>k. WriteTxPower HANDLE_TYPE_ADV 0 (txp ! ((unat (tx_idx tx_boot) + k) mod 9))) [0..<11]"
    using beacon_cycles [of tx_boot 11] by (auto simp: tx_boot_def)
  moreover have "filter is_write (hci_sent s') ! 9 = WriteTxPower HANDLE_TYPE_ADV 0 8"
    unfolding f by (simp add: tx_boot_def txp_def nth_append)
  ultimately show ?thesis by blast
qed

theorem stale_handle_used_witness:
  "\<exists>s'. run pwr_step [Connected 3 0 (- 22, 0) (Reply 0) (Reply 0) (Reply 0), ThreadTurn (Reply 200) (Reply 0) (Reply 0)]
       (tx_boot\<lparr>tx_handle := 7\<rparr>) = Some s' \<and> ReadRssi 7 \<in> set (hci_sent s')"
  using stale_handle_used [of "tx_boot\<lparr>tx_handle := 7\<rparr>" "(- 22, 0)" 3 "Reply 0" "Reply 0" "Reply 0" 200 "Reply 0" "Reply 0"]
  by (simp add: tx_boot_def)

section \<open>The heart rate\<close>

text \<open>The rates sent go up from 91 to 159 and start again at 90.\<close>

theorem heart_rates:
  "hrs_sent ((hrs_notify ^^ n) tx_boot) = map (\<lambda>k. of_nat (90 + (k + 1) mod 70)) [0..<n]"
proof -
  have "hrs_sent ((hrs_notify ^^ n) tx_boot) = map (\<lambda>k. of_nat (90 + (k + 1) mod 70)) [0..<n]
     \<and> unat (heartrate ((hrs_notify ^^ n) tx_boot)) = 90 + n mod 70"
  proof (induction n)
    case 0
    show ?case by (simp add: tx_boot_def)
  next
    case (Suc n)
    define s where "s = (hrs_notify ^^ n) tx_boot"
    have l: "n mod 70 < 70" by simp
    have h: "unat (heartrate s) = 90 + n mod 70" using Suc by (simp add: s_def)
    have "unat (heartrate (hrs_notify s)) = (if n mod 70 = 69 then 90 else 91 + n mod 70)"
      using next_heartrate [of "heartrate s"] h l by (simp add: hrs_notify_def Let_def)
    then have n: "unat (heartrate (hrs_notify s)) = 90 + Suc n mod 70" by (simp add: mod_Suc)
    have "heartrate (hrs_notify s) = of_nat (unat (heartrate (hrs_notify s)))" by simp
    then have w: "heartrate (hrs_notify s) = of_nat (90 + (n + 1) mod 70)" by (simp only: n Suc_eq_plus1)
    have "hrs_sent (hrs_notify s) = hrs_sent s @ [heartrate (hrs_notify s)]" by (simp add: hrs_notify_def Let_def)
    then show ?case using Suc n by (simp add: s_def [symmetric] w del: of_nat_add)
  qed
  then show ?thesis by blast
qed

end
