(* ===== verification/MultiCell.thy ===== *)
theory MultiCell
  imports Prelude Machine
begin

text \<open>
  The cell location sample (\<open>app/nrf91/v1.7.x/multi_cell/src/main.c\<close>): a button, a timer and a change of
  the serving cell start measurements; each set of measurements is asked to a location service together
  with the name of the device.

  Three threads share the state: the link controller's, which calls \<open>lte_handler\<close>; the work queue, which runs
  the two work items and the button handler; and \<open>main\<close>. The handlers run in cooperative threads, which \<open>main\<close>
  does not preempt, but they preempt \<open>main\<close> anywhere. So \<open>main\<close> is cut where it waits for a semaphore and at
  each read of \<open>cell_data\<close>: of the serving cell, of the count, and of one neighbour, both when it prints them
  and when \<open>multicell_location_get\<close> reads them through the pointer it was given. A machine
  word of the measurements is an \<open>int\<close>, as nothing is computed with it.
\<close>

section \<open>State\<close>

record lte_cell =
  ce_mcc :: int
  ce_mnc :: int
  ce_id :: u32
  ce_tac :: int
  ce_earfcn :: int
  ce_timing_advance :: int
  ce_measurement_time :: int
  ce_phys_cell_id :: int
  ce_rsrp :: int
  ce_rsrq :: int

record lte_ncell =
  nc_earfcn :: int
  nc_time_diff :: int
  nc_phys_cell_id :: int
  nc_rsrp :: int
  nc_rsrq :: int

text \<open>\<open>struct lte_lc_cells_info\<close>: the serving cell and \<open>ncells_count\<close> neighbours behind a pointer.\<close>

record cells_info =
  ci_current :: lte_cell
  ci_count :: u8
  ci_neighbours :: "lte_ncell list"

datatype reg_status = RegHome | RegRoaming | RegOther int

datatype mc_lte_evt =
    NwRegStatus reg_status | PsmUpdate int int | EdrxUpdate | RrcUpdate bool | CellUpdate u32 int
  | LteModeUpdate int | NeighbourCellMeas cells_info | OtherEvt int

datatype id_choice = IdRuntime | IdCompileTime string | IdImei string | IdNone

record mc_config =
  mc_psm :: bool
  mc_edrx :: bool
  mc_periodic :: bool
  mc_interval :: nat
  mc_print :: bool
  mc_id :: id_choice
  mc_at_sys_init :: bool

datatype mc_line = NoCells | CurrentCell lte_cell | NoNeighbours | Neighbour nat lte_ncell

datatype mc_call =
    PsmReq bool | EdrxReq bool | InitAndConnect | Measure | SchedulePeriodic nat
  | PrintLine mc_line | LocationGet cells_info "string option"

text \<open>
  Where \<open>main\<close> stands: waiting for the connection or for measurements, before the first print or
  the print of a neighbour, before the call of \<open>multicell_location_get\<close>, or in it: with the serving
  cell read, or with the count and some neighbours read.
\<close>

datatype mc_phase =
    McConnecting | McLoop | McEnded | McPrint | McPrintNeighbour nat | McGet | McGotCell lte_cell
  | McGotCount lte_cell u8 "lte_ncell list"

record mc =
  lte_connected :: bool
  cell_data_ready :: bool
  change_pending :: bool
  periodic_pending :: bool
  prev_cell_id :: u32
  neighbor_cells :: "lte_ncell list"
  mc_current :: lte_cell
  mc_ncells_count :: u8
  mc_phase :: mc_phase
  mc_buttons :: bool
  mc_device_id :: "string option"
  mc_calls :: "mc_call list"

definition mc_do :: "mc_call \<Rightarrow> mc \<Rightarrow> mc" where
  "mc_do c s = s\<lparr>mc_calls := mc_calls s @ [c]\<rparr>"

section \<open>Events of the link\<close>

text \<open>
  The handler copies the neighbours into an array of 17; more of them, or fewer behind the pointer than
  announced, are undefined. Submitting a work item that is pending changes nothing.
\<close>

definition lte_handler :: "mc_lte_evt \<Rightarrow> mc \<Rightarrow> mc option" where
  "lte_handler evt s =
     (case evt of
        NwRegStatus st \<Rightarrow>
          Some (case st of RegOther _ \<Rightarrow> s | _ \<Rightarrow> s\<lparr>lte_connected := True\<rparr>)
      | CellUpdate cid tac \<Rightarrow>
          Some (if cid \<noteq> prev_cell_id s then s\<lparr>change_pending := True, prev_cell_id := cid\<rparr> else s)
      | NeighbourCellMeas info \<Rightarrow>
          (let n = unat (ci_count info) in
           if length (neighbor_cells s) < n \<or> length (ci_neighbours info) < n then None
           else Some (s\<lparr>mc_current := ci_current info, mc_ncells_count := ci_count info,
                        neighbor_cells := take n (ci_neighbours info) @ drop n (neighbor_cells s),
                        cell_data_ready := True\<rparr>))
      | _ \<Rightarrow> Some s)"

text \<open>Errors of the first two requests are printed only.\<close>

definition lte_connect :: "mc_config \<Rightarrow> int \<Rightarrow> mc \<Rightarrow> int \<times> mc" where
  "lte_connect c err s = (err, mc_do InitAndConnect (mc_do (EdrxReq (mc_edrx c)) (mc_do (PsmReq (mc_psm c)) s)))"

section \<open>What starts measurements\<close>

definition start_cell_measurements :: "mc \<Rightarrow> mc" where
  "start_cell_measurements s = mc_do Measure s"

definition mc_button_handler :: "u32 \<Rightarrow> u32 \<Rightarrow> mc \<Rightarrow> mc" where
  "mc_button_handler button_states has_changed s =
     (if bit (and has_changed button_states) 0 then start_cell_measurements s else s)"

definition cell_change_search_work_fn :: "mc \<Rightarrow> mc" where
  "cell_change_search_work_fn s = start_cell_measurements s"

definition periodic_search_work_fn :: "mc_config \<Rightarrow> mc \<Rightarrow> mc" where
  "periodic_search_work_fn c s =
     (mc_do (SchedulePeriodic (mc_interval c)) (start_cell_measurements s))\<lparr>periodic_pending := True\<rparr>"

section \<open>What is printed\<close>

text \<open>The first reads of \<open>print_cell_data\<close>, and one turn of its loop; the count is read in every turn.\<close>

definition print_cell_data :: "mc \<Rightarrow> mc" where
  "print_cell_data s =
     (if ce_id (mc_current s) = 0 then (mc_do (PrintLine NoCells) s)\<lparr>mc_phase := McGet\<rparr>
      else
        (let s1 = mc_do (PrintLine (CurrentCell (mc_current s))) s in
         if mc_ncells_count s1 = 0 then (mc_do (PrintLine NoNeighbours) s1)\<lparr>mc_phase := McGet\<rparr>
         else s1\<lparr>mc_phase := McPrintNeighbour 0\<rparr>))"

definition print_neighbour :: "nat \<Rightarrow> mc \<Rightarrow> mc option" where
  "print_neighbour i s =
     (if unat (mc_ncells_count s) \<le> i then Some (s\<lparr>mc_phase := McGet\<rparr>)
      else if length (neighbor_cells s) \<le> i then None
      else Some ((mc_do (PrintLine (Neighbour (i + 1) (neighbor_cells s ! i))) s)\<lparr>mc_phase := McPrintNeighbour (i + 1)\<rparr>))"

section \<open>The name of the device\<close>

definition DEVICE_ID_MAX_LEN :: nat where "DEVICE_ID_MAX_LEN = 64"
definition CGSN_RESPONSE_LENGTH :: nat where "CGSN_RESPONSE_LENGTH = 19"
definition IMEI_LEN :: nat where "IMEI_LEN = 15"

definition NUL :: char where "NUL = char_of (0 :: nat)"

text \<open>
  The answers of the AT commands: the results, and the buffer \<open>imei_buf\<close> after the command. What is printed of
  it ends at its first NUL or after 15 characters; \<open>snprintf\<close> returns the length of the whole text.
\<close>

record at_answer =
  at_init :: int
  at_write :: int
  at_buf :: string

definition get_device_id :: "mc_config \<Rightarrow> at_answer \<Rightarrow> string option" where
  "get_device_id c a =
     (case mc_id c of
        IdRuntime \<Rightarrow> Some ''my_device_id''
      | IdCompileTime name \<Rightarrow> Some name
      | IdImei pre \<Rightarrow>
          (if \<not> mc_at_sys_init c \<and> at_init a \<noteq> 0 then None
           else if at_write a \<noteq> 0 then None
           else
             (let imei_buf = (at_buf a)[IMEI_LEN := NUL];
                  dev_id = pre @ takeWhile (\<lambda>ch. ch \<noteq> NUL) (take IMEI_LEN imei_buf);
                  err = length dev_id
              in if err \<le> 0 \<or> DEVICE_ID_MAX_LEN + 1 \<le> err then None else Some dev_id))
      | IdNone \<Rightarrow> None)"

section \<open>The program\<close>

record mc_setup =
  ms_provision :: int
  ms_buttons :: int
  ms_connect :: int
  ms_at :: at_answer

definition mc_main :: "mc_config \<Rightarrow> mc_setup \<Rightarrow> mc \<Rightarrow> mc" where
  "mc_main c r s =
     (if ms_provision r \<noteq> 0 then s\<lparr>mc_phase := McEnded\<rparr>
      else
        (let (err, s1) = lte_connect c (ms_connect r) (s\<lparr>mc_buttons := (ms_buttons r = 0)\<rparr>) in
         if err \<noteq> 0 then s1\<lparr>mc_phase := McEnded\<rparr> else s1\<lparr>mc_phase := McConnecting\<rparr>))"

text \<open>
  A turn of the loop, step by step: the semaphore is taken, the measurements are printed, and the service is
  called, which reads the serving cell, the count and that many neighbours. An error of it is printed.
\<close>

definition mc_loop_step :: "mc_config \<Rightarrow> mc \<Rightarrow> mc option" where
  "mc_loop_step c s =
     (case mc_phase s of
        McLoop \<Rightarrow>
          Some (if cell_data_ready s
                then s\<lparr>cell_data_ready := False, mc_phase := (if mc_print c then McPrint else McGet)\<rparr> else s)
      | McPrint \<Rightarrow> Some (print_cell_data s)
      | McPrintNeighbour i \<Rightarrow> print_neighbour i s
      | McGet \<Rightarrow> Some (s\<lparr>mc_phase := McGotCell (mc_current s)\<rparr>)
      | McGotCell cell \<Rightarrow> Some (s\<lparr>mc_phase := McGotCount cell (mc_ncells_count s) []\<rparr>)
      | McGotCount cell n ns \<Rightarrow>
          if length ns < unat n then
            (if length (neighbor_cells s) \<le> length ns then None
             else Some (s\<lparr>mc_phase := McGotCount cell n (ns @ [neighbor_cells s ! length ns])\<rparr>))
          else Some ((mc_do (LocationGet \<lparr>ci_current = cell, ci_count = n, ci_neighbours = ns\<rparr> (mc_device_id s)) s)
                 \<lparr>mc_phase := McLoop\<rparr>)
      | _ \<Rightarrow> Some s)"

text \<open>After the connection the timer is started and the name read; then the loop.\<close>

definition mc_main_turn :: "mc_config \<Rightarrow> mc_setup \<Rightarrow> mc \<Rightarrow> mc option" where
  "mc_main_turn c r s =
     (case mc_phase s of
        McConnecting \<Rightarrow>
          Some (if lte_connected s
                then s\<lparr>lte_connected := False, periodic_pending := periodic_pending s \<or> mc_periodic c,
                       mc_device_id := get_device_id c (ms_at r), mc_phase := McLoop\<rparr>
                else s)
      | McEnded \<Rightarrow> Some s
      | _ \<Rightarrow> mc_loop_step c s)"

datatype mc_event = LteEvent mc_lte_evt | McButton u32 u32 | ChangeWork | PeriodicWork | MainTurn

definition mc_step :: "mc_config \<Rightarrow> mc_setup \<Rightarrow> mc_event \<Rightarrow> mc \<Rightarrow> mc option" where
  "mc_step c r ev s =
     (case ev of
        LteEvent evt \<Rightarrow> lte_handler evt s
      | McButton states changed \<Rightarrow> Some (if mc_buttons s then mc_button_handler states changed s else s)
      | ChangeWork \<Rightarrow> Some (if change_pending s then cell_change_search_work_fn (s\<lparr>change_pending := False\<rparr>) else s)
      | PeriodicWork \<Rightarrow> Some (if periodic_pending s then periodic_search_work_fn c (s\<lparr>periodic_pending := False\<rparr>) else s)
      | MainTurn \<Rightarrow> mc_main_turn c r s)"

section \<open>The measurements that are asked for\<close>

text \<open>
  The link controller announces at most 17 neighbours and hands over that many.
\<close>

definition info_ok :: "cells_info \<Rightarrow> bool" where
  "info_ok info \<longleftrightarrow> unat (ci_count info) \<le> 17 \<and> unat (ci_count info) \<le> length (ci_neighbours info)"

definition mc_event_ok :: "mc_event \<Rightarrow> bool" where
  "mc_event_ok ev = (case ev of LteEvent (NeighbourCellMeas info) \<Rightarrow> info_ok info | _ \<Rightarrow> True)"

definition mc_wf :: "mc \<Rightarrow> bool" where
  "mc_wf s \<longleftrightarrow> length (neighbor_cells s) = 17 \<and> unat (mc_ncells_count s) \<le> 17
     \<and> (case mc_phase s of McGotCount cell n ns \<Rightarrow> length ns \<le> unat n \<and> unat n \<le> 17 | _ \<Rightarrow> True)"

definition cut :: "cells_info \<Rightarrow> cells_info" where
  "cut info = info\<lparr>ci_neighbours := take (unat (ci_count info)) (ci_neighbours info)\<rparr>"

fun mc_measured :: "mc_event list \<Rightarrow> cells_info list" where
  "mc_measured [] = []"
| "mc_measured (LteEvent (NeighbourCellMeas info) # es) = cut info # mc_measured es"
| "mc_measured (_ # es) = mc_measured es"

fun requests :: "mc_call list \<Rightarrow> cells_info list" where
  "requests [] = []"
| "requests (LocationGet info name # cs) = info # requests cs"
| "requests (_ # cs) = requests cs"

definition cell_data :: "mc \<Rightarrow> cells_info" where
  "cell_data s = cut \<lparr>ci_current = mc_current s, ci_count = mc_ncells_count s, ci_neighbours = neighbor_cells s\<rparr>"

lemma mc_measured_append [simp]: "mc_measured (xs @ ys) = mc_measured xs @ mc_measured ys"
  by (induction xs rule: mc_measured.induct) simp_all

lemma requests_append [simp]: "requests (xs @ ys) = requests xs @ requests ys"
  by (induction xs rule: requests.induct) simp_all

text \<open>
  \<open>in_turn s m\<close>: in the middle of a turn of the loop, what has been read so far is from \<open>m\<close>.
\<close>

fun part_of :: "mc_phase \<Rightarrow> cells_info \<Rightarrow> bool" where
  "part_of (McGotCell cell) m = (cell = ci_current m)"
| "part_of (McGotCount cell n ns) m =
     (cell = ci_current m \<and> n = ci_count m \<and> ns = take (length ns) (ci_neighbours m))"
| "part_of ph m = True"

fun busy :: "mc_phase \<Rightarrow> bool" where
  "busy McConnecting = False"
| "busy McLoop = False"
| "busy McEnded = False"
| "busy ph = True"

definition newest_asked :: "cells_info list \<Rightarrow> mc_call list \<Rightarrow> bool" where
  "newest_asked ms cs \<longleftrightarrow> (ms = [] \<longrightarrow> requests cs = []) \<and> (ms \<noteq> [] \<longrightarrow> requests cs \<noteq> [] \<and> last (requests cs) = last ms)"

definition tracks :: "cells_info list \<Rightarrow> mc \<Rightarrow> bool" where
  "tracks ms s \<longleftrightarrow> (ms \<noteq> [] \<longrightarrow> cell_data s = last ms)
     \<and> length (requests (mc_calls s)) + (if cell_data_ready s then 1 else 0) + (if busy (mc_phase s) then 1 else 0) \<le> length ms
     \<and> (\<not> cell_data_ready s \<longrightarrow> (if busy (mc_phase s) then part_of (mc_phase s) (last ms) else newest_asked ms (mc_calls s)))"

text \<open>What touches neither the measurements nor the requests nor where \<open>main\<close> stands.\<close>

definition same_cells :: "mc \<Rightarrow> mc \<Rightarrow> bool" where
  "same_cells s s' \<longleftrightarrow> mc_current s' = mc_current s \<and> mc_ncells_count s' = mc_ncells_count s
     \<and> neighbor_cells s' = neighbor_cells s \<and> cell_data_ready s' = cell_data_ready s
     \<and> mc_phase s' = mc_phase s \<and> requests (mc_calls s') = requests (mc_calls s)"

lemma same_cells_keeps: "same_cells s s' \<Longrightarrow> mc_wf s \<and> tracks ms s \<Longrightarrow> mc_wf s' \<and> tracks ms s'"
  by (simp add: same_cells_def mc_wf_def tracks_def newest_asked_def cell_data_def split: if_splits)

lemma new_cells:
  assumes "mc_wf s" "info_ok info"
  shows "\<exists>s'. lte_handler (NeighbourCellMeas info) s = Some s' \<and> mc_wf s' \<and> cell_data s' = cut info
     \<and> cell_data_ready s' \<and> mc_calls s' = mc_calls s \<and> mc_phase s' = mc_phase s"
  using assms by (cases info) (simp add: lte_handler_def mc_wf_def info_ok_def cell_data_def cut_def Let_def)

lemma tracks_moved:
  assumes "mc_wf s" "tracks ms s" "busy (mc_phase s)" "busy ph"
    and "\<And>m. part_of (mc_phase s) m \<Longrightarrow> m = cell_data s \<Longrightarrow> part_of ph m"
    and "mc_wf (s\<lparr>mc_phase := ph\<rparr>)"
  shows "mc_wf (s\<lparr>mc_phase := ph\<rparr>) \<and> tracks ms (s\<lparr>mc_phase := ph\<rparr>)"
  using assms by (auto simp: tracks_def cell_data_def)

lemma do_print_frame:
  "mc_wf (mc_do (PrintLine l) s) = mc_wf s" "tracks ms (mc_do (PrintLine l) s) = tracks ms s"
  "mc_phase (mc_do (PrintLine l) s) = mc_phase s"
  by (simp_all add: mc_do_def mc_wf_def tracks_def newest_asked_def cell_data_def)

lemma wf_phase: "mc_wf s \<Longrightarrow> (case ph of McGotCount cell n ns \<Rightarrow> length ns \<le> unat n \<and> unat n \<le> 17 | _ \<Rightarrow> True) \<Longrightarrow>
  mc_wf (s\<lparr>mc_phase := ph\<rparr>)"
  by (simp add: mc_wf_def)

lemma print_moves:
  assumes "mc_wf s" "tracks ms s" "busy (mc_phase s)" "ph = McGet \<or> (\<exists>i. ph = McPrintNeighbour i)"
  shows "mc_wf (s\<lparr>mc_phase := ph\<rparr>) \<and> tracks ms (s\<lparr>mc_phase := ph\<rparr>)"
  using assms by (intro tracks_moved wf_phase) auto

lemma take_cells_step:
  assumes "mc_wf s" "tracks ms s" "mc_phase s = McLoop" "cell_data_ready s" "ph = McPrint \<or> ph = McGet"
  shows "mc_wf (s\<lparr>cell_data_ready := False, mc_phase := ph\<rparr>) \<and> tracks ms (s\<lparr>cell_data_ready := False, mc_phase := ph\<rparr>)"
  using assms by (auto simp: mc_wf_def tracks_def cell_data_def)

lemma read_neighbour_step:
  assumes "mc_wf s" "tracks ms s" "mc_phase s = McGotCount cell n ns" "length ns < unat n"
  shows "mc_wf (s\<lparr>mc_phase := McGotCount cell n (ns @ [neighbor_cells s ! length ns])\<rparr>)
     \<and> tracks ms (s\<lparr>mc_phase := McGotCount cell n (ns @ [neighbor_cells s ! length ns])\<rparr>)"
proof (rule tracks_moved [OF assms(1,2)])
  have l: "length ns < length (neighbor_cells s)" using assms(1,3,4) by (simp add: mc_wf_def)
  show "part_of (McGotCount cell n (ns @ [neighbor_cells s ! length ns])) m" if "part_of (mc_phase s) m" "m = cell_data s" for m
    using that assms(3,4) l by (auto simp: cell_data_def cut_def take_Suc_conv_app_nth)
  show "mc_wf (s\<lparr>mc_phase := McGotCount cell n (ns @ [neighbor_cells s ! length ns])\<rparr>)"
    using assms by (simp add: mc_wf_def)
qed (use assms(3) in simp_all)

lemma request_step:
  fixes name :: "string option"
  assumes "mc_wf s" "tracks ms s" "mc_phase s = McGotCount cell n ns" "\<not> length ns < unat n"
  defines "t \<equiv> (mc_do (LocationGet \<lparr>ci_current = cell, ci_count = n, ci_neighbours = ns\<rparr> name) s)\<lparr>mc_phase := McLoop\<rparr>"
  shows "mc_wf t \<and> tracks ms t"
proof -
  have l: "length ns = unat n" using assms(1,3,4) by (simp add: mc_wf_def)
  have ms: "ms \<noteq> []" using assms(2,3) by (auto simp: tracks_def)
  have "\<lparr>ci_current = cell, ci_count = n, ci_neighbours = ns\<rparr> = last ms" if "\<not> cell_data_ready s"
  proof -
    have "cell_data s = last ms" "part_of (McGotCount cell n ns) (last ms)"
      using assms(2,3) that ms by (simp_all add: tracks_def)
    moreover have "length (ci_neighbours (cell_data s)) = unat (ci_count (cell_data s))"
      using assms(1) by (simp add: cell_data_def cut_def mc_wf_def)
    ultimately show ?thesis using l by (cases "last ms") auto
  qed
  then show ?thesis using assms(1-3) ms
    by (auto simp: t_def mc_wf_def tracks_def newest_asked_def cell_data_def mc_do_def)
qed

lemma loop_step_inv:
  assumes "mc_wf s" "tracks ms s"
  shows "\<exists>s'. mc_loop_step c s = Some s' \<and> mc_wf s' \<and> tracks ms s'"
proof (cases "mc_phase s")
  case McLoop
  then show ?thesis using assms take_cells_step [OF assms McLoop] by (simp add: mc_loop_step_def)
next
  case McPrint
  have m: "mc_wf (t\<lparr>mc_phase := ph\<rparr>) \<and> tracks ms (t\<lparr>mc_phase := ph\<rparr>)"
    if "ph = McGet \<or> ph = McPrintNeighbour 0" "mc_wf t" "tracks ms t" "mc_phase t = McPrint" for ph t
    using print_moves [of t ms ph] that by auto
  show ?thesis using McPrint assms
    by (auto simp: mc_loop_step_def print_cell_data_def Let_def do_print_frame intro!: m [THEN conjunct1] m [THEN conjunct2])
next
  case (McPrintNeighbour i)
  have m: "mc_wf (t\<lparr>mc_phase := ph\<rparr>) \<and> tracks ms (t\<lparr>mc_phase := ph\<rparr>)"
    if "ph = McGet \<or> ph = McPrintNeighbour (i + 1)" "mc_wf t" "tracks ms t" "mc_phase t = McPrintNeighbour i" for ph t
    using print_moves [of t ms ph] that by auto
  have "\<not> (\<not> unat (mc_ncells_count s) \<le> i \<and> length (neighbor_cells s) \<le> i)" using assms(1) by (auto simp: mc_wf_def)
  with McPrintNeighbour assms show ?thesis
    by (auto simp: mc_loop_step_def print_neighbour_def do_print_frame intro!: m [THEN conjunct1] m [THEN conjunct2])
next
  case McGet
  then show ?thesis using tracks_moved [OF assms, of "McGotCell (mc_current s)"] wf_phase [OF assms(1)]
    by (simp add: mc_loop_step_def cell_data_def cut_def)
next
  case (McGotCell cell)
  have "unat (mc_ncells_count s) \<le> 17" using assms(1) by (simp add: mc_wf_def)
  with McGotCell show ?thesis
    using tracks_moved [OF assms, of "McGotCount cell (mc_ncells_count s) []"] wf_phase [OF assms(1)]
    by (simp add: mc_loop_step_def cell_data_def cut_def)
next
  case (McGotCount cell n ns)
  have "\<not> (length ns < unat n \<and> length (neighbor_cells s) \<le> length ns)" using assms(1) McGotCount by (auto simp: mc_wf_def)
  with McGotCount assms read_neighbour_step [OF assms McGotCount] request_step [OF assms McGotCount] show ?thesis
    by (auto simp: mc_loop_step_def)
qed (use assms in \<open>simp_all add: mc_loop_step_def\<close>)

lemma main_turn_inv:
  assumes "mc_wf s" "tracks ms s"
  shows "\<exists>s'. mc_main_turn c r s = Some s' \<and> mc_wf s' \<and> tracks ms s'"
proof (cases "mc_phase s = McConnecting")
  case True
  then show ?thesis using assms by (auto simp: mc_main_turn_def mc_wf_def tracks_def newest_asked_def cell_data_def)
next
  case False
  then have "mc_main_turn c r s = mc_loop_step c s"
    by (cases "mc_phase s") (simp_all add: mc_main_turn_def mc_loop_step_def)
  with loop_step_inv [OF assms] show ?thesis by simp
qed

lemma mc_measured_other: "(\<forall>info. evt \<noteq> NeighbourCellMeas info) \<Longrightarrow> mc_measured [LteEvent evt] = []"
  by (cases evt) simp_all

lemma tracks_step:
  assumes "mc_wf s" "tracks ms s" "mc_event_ok ev"
  shows "\<exists>s'. mc_step c r ev s = Some s' \<and> mc_wf s' \<and> tracks (ms @ mc_measured [ev]) s'"
proof (cases "\<exists>info. ev = LteEvent (NeighbourCellMeas info)")
  case True
  then obtain info where ev: "ev = LteEvent (NeighbourCellMeas info)" ..
  obtain s' where "lte_handler (NeighbourCellMeas info) s = Some s'" "mc_wf s'" "cell_data s' = cut info"
      "cell_data_ready s'" "mc_calls s' = mc_calls s" "mc_phase s' = mc_phase s"
    using new_cells [OF assms(1), of info] assms(3) ev by (auto simp: mc_event_ok_def)
  with assms(2) show ?thesis by (auto simp: ev mc_step_def tracks_def split: if_splits)
next
  case False
  then have m: "mc_measured [ev] = []"
    using mc_measured_other by (cases ev) auto
  show ?thesis
  proof (cases "ev = MainTurn")
    case True
    with main_turn_inv [OF assms(1,2)] m show ?thesis by (simp add: mc_step_def)
  next
    case nt: False
    have "\<exists>s'. mc_step c r ev s = Some s' \<and> same_cells s s'"
      using False nt
      by (auto simp: mc_step_def same_cells_def lte_handler_def mc_button_handler_def start_cell_measurements_def
          cell_change_search_work_fn_def periodic_search_work_fn_def mc_do_def split: mc_event.splits mc_lte_evt.splits reg_status.splits)
    with same_cells_keeps [of s] assms(1,2) m show ?thesis by auto
  qed
qed

definition mc_boot :: mc where
  "mc_boot = \<lparr>lte_connected = False, cell_data_ready = False, change_pending = False, periodic_pending = False,
     prev_cell_id = 0, neighbor_cells = replicate 17 \<lparr>nc_earfcn = 0, nc_time_diff = 0, nc_phys_cell_id = 0, nc_rsrp = 0, nc_rsrq = 0\<rparr>,
     mc_current = \<lparr>ce_mcc = 0, ce_mnc = 0, ce_id = 0, ce_tac = 0, ce_earfcn = 0, ce_timing_advance = 0,
       ce_measurement_time = 0, ce_phys_cell_id = 0, ce_rsrp = 0, ce_rsrq = 0\<rparr>,
     mc_ncells_count = 0, mc_phase = McConnecting, mc_buttons = False, mc_device_id = None, mc_calls = []\<rparr>"

lemma mc_main_start: "mc_wf (mc_main c r mc_boot) \<and> tracks [] (mc_main c r mc_boot)"
  by (simp add: mc_main_def lte_connect_def mc_boot_def mc_wf_def tracks_def newest_asked_def mc_do_def)

lemma tracks_run:
  assumes "list_all mc_event_ok es"
  shows "\<exists>s. run (mc_step c r) es (mc_main c r mc_boot) = Some s \<and> mc_wf s \<and> tracks (mc_measured es) s"
  using assms
proof (induction es rule: rev_induct)
  case Nil
  show ?case using mc_main_start by simp
next
  case (snoc ev es)
  then obtain s1 where "run (mc_step c r) es (mc_main c r mc_boot) = Some s1" "mc_wf s1" "tracks (mc_measured es) s1"
    by auto
  with tracks_step [of s1 "mc_measured es" ev c r] snoc.prems show ?case by (auto simp: run_append)
qed

text \<open>
  C26: Whatever happens and in whatever order, with the measurements arriving between any two reads of \<open>main\<close>
  (the link controller announces at most 17 neighbours and hands over that many): the program stays
  inside its array of neighbours; it makes at most one request for each measurement that came; and
  it never loses the newest: when it waits with nothing left to take, the last request is exactly
  the last measurement, serving cell, count and neighbours.
\<close>

theorem requests_follow_measurements:
  assumes "list_all mc_event_ok es"
  shows "\<exists>s. run (mc_step c r) es (mc_main c r mc_boot) = Some s
     \<and> length (requests (mc_calls s)) \<le> length (mc_measured es)
     \<and> (mc_phase s = McLoop \<and> \<not> cell_data_ready s \<and> mc_measured es \<noteq> [] \<longrightarrow>
          requests (mc_calls s) \<noteq> [] \<and> last (requests (mc_calls s)) = last (mc_measured es))"
proof -
  obtain s where "run (mc_step c r) es (mc_main c r mc_boot) = Some s" "tracks (mc_measured es) s"
    using tracks_run [OF assms] by blast
  then show ?thesis by (auto simp: tracks_def newest_asked_def split: if_splits)
qed

section \<open>The parts\<close>

text \<open>
  More than 17 neighbours are written past the array.
\<close>

theorem neighbours_overrun:
  assumes "length (neighbor_cells s) = 17" "17 < unat (ci_count info)"
  shows "lte_handler (NeighbourCellMeas info) s = None"
  using assms by (simp add: lte_handler_def Let_def)

text \<open>
  With the IMEI the name is the prefix and the first fifteen characters of the modem's answer; as the build checks
  that the two fit, the name is never cut, and the test for a text too long never fires.
\<close>

theorem device_id_from_imei:
  assumes "mc_id c = IdImei pre" "length pre + IMEI_LEN \<le> DEVICE_ID_MAX_LEN"
    and "length (at_buf a) = CGSN_RESPONSE_LENGTH + 1"
  shows "(at_write a = 0 \<and> (mc_at_sys_init c \<or> at_init a = 0) \<and> NUL \<notin> set (take IMEI_LEN (at_buf a)) \<longrightarrow>
            get_device_id c a = Some (pre @ take IMEI_LEN (at_buf a)))
     \<and> (get_device_id c a = None \<longrightarrow> at_write a \<noteq> 0 \<or> at_init a \<noteq> 0 \<or> pre = [] \<and> at_buf a ! 0 = NUL)
     \<and> (\<forall>name. get_device_id c a = Some name \<longrightarrow> length name \<le> DEVICE_ID_MAX_LEN)"
proof -
  define imei where "imei = takeWhile (\<lambda>ch. ch \<noteq> NUL) (take IMEI_LEN (at_buf a))"
  have t: "take IMEI_LEN ((at_buf a)[IMEI_LEN := NUL]) = take IMEI_LEN (at_buf a)" by simp
  have l: "length imei \<le> IMEI_LEN"
    unfolding imei_def using length_takeWhile_le [of _ "take IMEI_LEN (at_buf a)"] by (rule order_trans) simp
  have n: "imei = [] \<Longrightarrow> at_buf a ! 0 = NUL"
    using assms(3) by (cases "at_buf a") (auto simp: imei_def IMEI_LEN_def CGSN_RESPONSE_LENGTH_def split: if_splits)
  have f: "NUL \<notin> set (take IMEI_LEN (at_buf a)) \<Longrightarrow> imei = take IMEI_LEN (at_buf a)"
    unfolding imei_def by (rule takeWhile_eq_all_conv [THEN iffD2]) auto
  have ne: "take IMEI_LEN (at_buf a) \<noteq> []" using assms(3) by (auto simp: IMEI_LEN_def CGSN_RESPONSE_LENGTH_def)
  have g: "get_device_id c a =
      (if \<not> mc_at_sys_init c \<and> at_init a \<noteq> 0 then None else if at_write a \<noteq> 0 then None
       else if pre @ imei = [] then None else Some (pre @ imei))"
    using l assms(1,2) by (auto simp: get_device_id_def Let_def t imei_def [symmetric])
  show ?thesis using l n f ne assms(2) unfolding g by auto
qed

text \<open>
  A change of cell is noticed exactly when one of the cells reported differs from the one known before: the work is
  then pending, once however many changes there were. As the known cell starts as 0, a first cell 0 is not a change.
\<close>

theorem cell_change_noticed:
  "\<exists>s'. run (mc_step c r) (map (\<lambda>i. LteEvent (CellUpdate i tac)) ids) s = Some s'
     \<and> prev_cell_id s' = last (prev_cell_id s # ids)
     \<and> (change_pending s' \<longleftrightarrow> change_pending s \<or> (\<exists>i\<in>set ids. i \<noteq> prev_cell_id s))"
proof (induction ids arbitrary: s)
  case (Cons i ids)
  let ?t = "if i \<noteq> prev_cell_id s then s\<lparr>change_pending := True, prev_cell_id := i\<rparr> else s"
  have t: "mc_step c r (LteEvent (CellUpdate i tac)) s = Some ?t" by (simp add: mc_step_def lte_handler_def)
  show ?case using Cons.IH [of ?t] t by (auto split: if_splits)
qed simp

section \<open>Witnesses\<close>

definition demo_cell :: "u32 \<Rightarrow> lte_cell" where
  "demo_cell i = \<lparr>ce_mcc = 242, ce_mnc = 1, ce_id = i, ce_tac = 2305, ce_earfcn = 6300, ce_timing_advance = 80,
     ce_measurement_time = 10, ce_phys_cell_id = 9, ce_rsrp = 54, ce_rsrq = 20\<rparr>"

definition demo_cells :: "u32 \<Rightarrow> u8 \<Rightarrow> cells_info" where
  "demo_cells i n = \<lparr>ci_current = demo_cell i, ci_count = n,
     ci_neighbours = replicate 20 \<lparr>nc_earfcn = 6301, nc_time_diff = 3, nc_phys_cell_id = 10, nc_rsrp = 40, nc_rsrq = 18\<rparr>\<rparr>"

definition demo_mc_config :: mc_config where
  "demo_mc_config = \<lparr>mc_psm = False, mc_edrx = False, mc_periodic = True, mc_interval = 60, mc_print = True,
     mc_id = IdImei ''nrf-'', mc_at_sys_init = True\<rparr>"

definition demo_at :: at_answer where
  "demo_at = \<lparr>at_init = 0, at_write = 0, at_buf = ''352656106111232'' @ [char_of (13 :: nat), char_of (10 :: nat), NUL, NUL, NUL]\<rparr>"

definition demo_setup :: mc_setup where
  "demo_setup = \<lparr>ms_provision = 0, ms_buttons = 0, ms_connect = 0, ms_at = demo_at\<rparr>"

theorem device_id_from_imei_witness:
  "get_device_id demo_mc_config demo_at = Some ''nrf-352656106111232''"
proof -
  have "mc_id demo_mc_config = IdImei ''nrf-''" "length ''nrf-'' + IMEI_LEN \<le> DEVICE_ID_MAX_LEN"
    "length (at_buf demo_at) = CGSN_RESPONSE_LENGTH + 1" "at_write demo_at = 0" "mc_at_sys_init demo_mc_config"
    by (simp_all add: demo_mc_config_def demo_at_def IMEI_LEN_def DEVICE_ID_MAX_LEN_def CGSN_RESPONSE_LENGTH_def)
  moreover have "take IMEI_LEN (at_buf demo_at) = ''352656106111232''" by (simp add: demo_at_def IMEI_LEN_def)
  moreover have "NUL \<notin> set ''352656106111232''" by code_simp
  ultimately show ?thesis using device_id_from_imei [of demo_mc_config "''nrf-''" demo_at] by simp
qed

theorem neighbours_overrun_witness:
  "lte_handler (NeighbourCellMeas (demo_cells 7 18)) mc_boot = None"
  by (rule neighbours_overrun) (simp_all add: mc_boot_def demo_cells_def)

definition demo_start :: "mc_event list" where
  "demo_start = [LteEvent (NwRegStatus RegHome), MainTurn, PeriodicWork, LteEvent (NeighbourCellMeas (demo_cells 7 1))]"

text \<open>The setting of the witnesses prints nothing, so that a turn of the loop is its reads.\<close>

definition quiet_config :: mc_config where
  "quiet_config = demo_mc_config\<lparr>mc_print := False, mc_id := IdNone\<rparr>"

lemmas mc_eval = demo_start_def demo_cells_def mc_step_def mc_main_def lte_connect_def mc_boot_def mc_do_def
  demo_setup_def demo_mc_config_def quiet_config_def lte_handler_def mc_main_turn_def mc_loop_step_def Let_def
  get_device_id_def demo_cell_def periodic_search_work_fn_def start_cell_measurements_def cut_def

theorem requests_follow_measurements_witness:
  "\<exists>s. run (mc_step quiet_config demo_setup) (demo_start @ replicate 5 MainTurn) (mc_main quiet_config demo_setup mc_boot) = Some s
     \<and> last (requests (mc_calls s)) = cut (demo_cells 7 1)"
proof -
  let ?es = "demo_start @ replicate 5 MainTurn"
  have e: "list_all mc_event_ok ?es" by (simp add: demo_start_def mc_event_ok_def info_ok_def demo_cells_def eval_nat_numeral)
  have m: "mc_measured ?es = [cut (demo_cells 7 1)]" by (simp add: demo_start_def eval_nat_numeral)
  obtain s where s: "run (mc_step quiet_config demo_setup) ?es (mc_main quiet_config demo_setup mc_boot) = Some s"
    "mc_phase s = McLoop \<and> \<not> cell_data_ready s \<and> mc_measured ?es \<noteq> [] \<longrightarrow>
       last (requests (mc_calls s)) = last (mc_measured ?es)"
    using requests_follow_measurements [OF e] by blast
  have "mc_phase s = McLoop \<and> \<not> cell_data_ready s"
    using s(1) by (auto simp: mc_eval eval_nat_numeral)
  with s m show ?thesis by auto
qed

text \<open>
  What a measurement that arrives in the middle of a turn does. Between the taking of the semaphore and the reads
  of the service it is asked for twice, and the one before it never; between the reads the request mixes the
  serving cell of one with the neighbours of another.
\<close>

theorem measurement_requested_twice:
  "\<exists>s. run (mc_step quiet_config demo_setup)
         (demo_start @ MainTurn # LteEvent (NeighbourCellMeas (demo_cells 8 0)) # replicate 7 MainTurn)
         (mc_main quiet_config demo_setup mc_boot) = Some s
     \<and> requests (mc_calls s) = [cut (demo_cells 8 0), cut (demo_cells 8 0)]"
  by (simp add: mc_eval eval_nat_numeral)

theorem request_mixes_measurements:
  "\<exists>s. run (mc_step quiet_config demo_setup)
         (demo_start @ [MainTurn, MainTurn, LteEvent (NeighbourCellMeas (demo_cells 8 0)), MainTurn, MainTurn])
         (mc_main quiet_config demo_setup mc_boot) = Some s
     \<and> requests (mc_calls s) = [\<lparr>ci_current = demo_cell 7, ci_count = 0, ci_neighbours = []\<rparr>]"
  by (simp add: mc_eval eval_nat_numeral)

end
