(* ===== verification/BootMain.thy ===== *)
theory BootMain
  imports Prelude
begin

text \<open>
  The main program of MCUboot with the repository's watchdog
  (\<open>app/util_test/watchdog_mcuboot/boot_and_app/mcuboot_patch/main.c\<close>; the copy beside it under
  \<open>boot_and_app_nowdt\<close> is the same file): the watchdog is started before the kernel, then \<open>main\<close> may enter
  a recovery, lets the boot loader choose the image, protects its own flash and jumps.

  The preprocessor's choices are a record of flags. The program is a list of stages; each makes calls and
  goes on or ends. Where the code spins, waits or jumps is an end. The boot loader itself, the drivers
  and the memory are the environment; \<open>assert\<close> and \<open>__ASSERT\<close> stop the program when they are compiled in.
\<close>

section \<open>The log\<close>

text \<open>
  The thread that empties the log, and the semaphore \<open>boot_log_sem\<close>, which is defined with a count of 1. A turn of
  the thread prints one message, or finds none and ends when it is told to.
\<close>

record boot_log =
  bl_messages :: nat
  bl_stop :: bool
  bl_sem :: nat
  bl_ended :: bool

definition boot_log_init :: "nat \<Rightarrow> boot_log" where
  "boot_log_init n = \<lparr>bl_messages = n, bl_stop = False, bl_sem = 1, bl_ended = False\<rparr>"

definition boot_log_thread_turn :: "boot_log \<Rightarrow> boot_log" where
  "boot_log_thread_turn s =
     (if bl_ended s then s
      else if 0 < bl_messages s then s\<lparr>bl_messages := bl_messages s - 1\<rparr>
      else if bl_stop s then s\<lparr>bl_ended := True, bl_sem := min 1 (bl_sem s + 1)\<rparr> else s)"

text \<open>\<open>None\<close>: the caller waits.\<close>

definition zephyr_boot_log_stop :: "boot_log \<Rightarrow> boot_log option" where
  "zephyr_boot_log_stop s =
     (let s1 = s\<lparr>bl_stop := True\<rparr> in if 0 < bl_sem s1 then Some (s1\<lparr>bl_sem := bl_sem s1 - 1\<rparr>) else None)"

section \<open>Configuration and environment\<close>

datatype boot_arch = ArmArch | XtensaArch | OtherArch

datatype usb_dfu = NoUsbDfu | UsbDfuGpio | UsbDfuWait

record bm_config =
  bm_asserts :: bool
  bm_soc_nrf :: bool
  bm_led :: bool
  bm_log :: bool
  bm_flash_label :: bool
  bm_serial :: bool
  bm_dfu :: usb_dfu
  bm_fprotect :: bool
  bm_pcd :: bool
  bm_arch :: boot_arch
  bm_usb_stack :: bool
  bm_ext_api :: bool
  bm_s0 :: bool
  bm_cleanup_peripheral :: bool
  bm_cleanup_core :: bool
  bm_cortex_m7 :: bool
  bm_mpu :: bool
  bm_stack_guard :: bool
  bm_vec_reloc :: bool
  bm_vector_relay :: bool
  bm_vtor :: bool
  bm_detect_expected :: u32
  bm_detect_delay :: int
  bm_dfu_expected :: u32
  bm_dfu_delay :: int

record pin_env =
  pe_bound :: bool
  pe_configure :: int
  pe_first :: int
  pe_later :: "(int \<times> u32) list"

record zb_rsp =
  br_base :: "int \<times> u32"
  br_image_off :: u32
  br_hdr_size :: u16

record bm_env =
  be_led_bound :: bool
  be_flash_found :: bool
  be_reset_reason :: u32
  be_serial_pin :: pin_env
  be_console :: int
  be_serial_returns :: bool
  be_dfu_pin :: pin_env
  be_usb_enable :: int
  be_dfu_returns :: bool
  be_boot_go :: int
  be_rsp :: zb_rsp
  be_protect :: int
  be_log :: boot_log
  be_provided :: bool
  be_word :: "u32 \<Rightarrow> u32"
  be_area_open :: int
  be_relay_table :: u32
  be_vector_start :: u32

datatype boot_act =
    WatchdogFeed | LedBinding | LedOff | LedOn | HeapInit | LogThread | FlashBinding
  | ConsoleInit | SerialStart | UsbEnable | WaitUsbDfu bool | BootGo | ProtectFlash | PcdLockRam | LogStop
  | ClockDisable | UsbDisable | ProvideExtApi u32 | CleanupPeripheral | CleanupNvic | DisableCaches
  | ClearMpu | ClearSplim | IrqLock | VectorPointer u32 | SetVtor u32 | SetMsp u32 | SetControl
  | AreaOpen | AreaRead u32 | AreaClose

datatype boot_stop = Jump u32 | Spin | FihPanic | InSerial | InDfu | PinWaits | LogWaits | Asserted | UndefinedEnd

type_synonym boot_stage = "boot_act list \<times> boot_stop option"

fun andthen :: "boot_stage \<Rightarrow> boot_stage \<Rightarrow> boot_stage" where
  "andthen (as, Some e) q = (as, Some e)"
| "andthen (as, None) q = (as @ fst q, snd q)"

definition FIH_OK :: int where "FIH_OK = 0"

section \<open>Watchdog\<close>

text \<open>\<open>install\<close> answers the first and, when the first is \<open>-ENOTSUP\<close>, the second installation.\<close>

definition WDT_MAX_WINDOW :: nat where "WDT_MAX_WINDOW = 1000"

record wdt =
  wdt_window :: "nat option"
  wdt_channel_id :: int
  wdt_running :: bool

definition init_wdt :: "bool \<Rightarrow> int \<Rightarrow> int \<Rightarrow> int \<Rightarrow> wdt \<Rightarrow> int \<times> wdt" where
  "init_wdt bound install1 install2 setup w =
     (if \<not> bound then (- 1, w)
      else
        (let ch = (if install1 = - ENOTSUP then install2 else install1);
             w1 = w\<lparr>wdt_channel_id := ch\<rparr>
         in if ch < 0 then (ch, w1)
            else (let w2 = w1\<lparr>wdt_window := Some WDT_MAX_WINDOW\<rparr> in
                  if setup < 0 then (setup, w2) else (0, w2\<lparr>wdt_running := True\<rparr>))))"

section \<open>Recovery\<close>

text \<open>Not after a power-on or a reset by the pin; bit 0 of the reasons is the pin.\<close>

definition boot_skip_serial_recovery :: "bm_config \<Rightarrow> u32 \<Rightarrow> bool" where
  "boot_skip_serial_recovery c rr \<longleftrightarrow> bm_soc_nrf c \<and> \<not> (rr = 0 \<or> bit rr 0)"

text \<open>
  The pin: its state, an assertion, still waiting when the list of readings (value and time since the
  start) ends, or a missing port.
\<close>

datatype pin_result = PinIs bool | PinAsserted | PinWaiting | PinUndefined

fun debounce :: "bool \<Rightarrow> u32 \<Rightarrow> u32 \<Rightarrow> (int \<times> u32) list \<Rightarrow> pin_result" where
  "debounce asserts expected delay [] = PinWaiting"
| "debounce asserts expected delay ((rc, delta) # rs) =
     (if rc < 0 \<and> asserts then PinAsserted
      else if delay \<le> delta \<or> of_int rc \<noteq> expected then PinIs (of_int rc = expected)
      else debounce asserts expected delay rs)"

definition detect_pin :: "bool \<Rightarrow> u32 \<Rightarrow> int \<Rightarrow> pin_env \<Rightarrow> pin_result" where
  "detect_pin asserts expected delay p =
     (if \<not> pe_bound p then (if asserts then PinAsserted else PinUndefined)
      else if pe_configure p \<noteq> 0 \<and> asserts then PinAsserted
      else if pe_first p < 0 \<and> asserts then PinAsserted
      else if of_int (pe_first p) = expected \<and> 0 < delay then debounce asserts expected (of_int delay) (pe_later p)
      else PinIs (of_int (pe_first p) = expected))"

definition on_pin :: "pin_result \<Rightarrow> boot_stage \<Rightarrow> boot_stage" where
  "on_pin r q = (case r of PinIs b \<Rightarrow> if b then q else ([], None) | PinAsserted \<Rightarrow> ([], Some Asserted)
     | PinWaiting \<Rightarrow> ([], Some PinWaits) | PinUndefined \<Rightarrow> ([], Some UndefinedEnd))"

text \<open>The LED that was not found is used all the same.\<close>

definition led_on :: "bm_config \<Rightarrow> bm_env \<Rightarrow> boot_stage" where
  "led_on c e =
     (if \<not> bm_led c then ([], None) else if be_led_bound e then ([LedOn], None) else ([], Some UndefinedEnd))"

definition serial_stage :: "bm_config \<Rightarrow> bm_env \<Rightarrow> boot_stage" where
  "serial_stage c e =
     (if \<not> bm_serial c then ([], None)
      else on_pin (detect_pin (bm_asserts c) (bm_detect_expected c) (bm_detect_delay c) (be_serial_pin e))
        (if boot_skip_serial_recovery c (be_reset_reason e) then ([], None)
         else andthen (andthen (led_on c e) ([ConsoleInit], if be_console e \<noteq> 0 \<and> bm_asserts c then Some Asserted else None))
                ([SerialStart], if \<not> be_serial_returns e then Some InSerial
                                else if bm_asserts c then Some Asserted else None)))"

definition dfu_stage :: "bm_config \<Rightarrow> bm_env \<Rightarrow> boot_stage" where
  "dfu_stage c e =
     (case bm_dfu c of
        NoUsbDfu \<Rightarrow> ([], None)
      | UsbDfuGpio \<Rightarrow>
          on_pin (detect_pin (bm_asserts c) (bm_dfu_expected c) (bm_dfu_delay c) (be_dfu_pin e))
            (andthen (andthen (led_on c e) ([UsbEnable], None))
               (if be_usb_enable e \<noteq> 0 then ([], None)
                else ([WaitUsbDfu True], if be_dfu_returns e then None else Some InDfu)))
      | UsbDfuWait \<Rightarrow>
          andthen ([UsbEnable], None) (if be_usb_enable e \<noteq> 0 then ([], None) else ([WaitUsbDfu False], None)))"

section \<open>The jump\<close>

definition image_start :: "bm_env \<Rightarrow> u32" where
  "image_start e = snd (br_base (be_rsp e)) + br_image_off (be_rsp e) + ucast (br_hdr_size (be_rsp e))"

definition SRAM_BASE_ADDRESS :: u32 where "SRAM_BASE_ADDRESS = 0xBE030000"

definition vector_acts :: "bm_config \<Rightarrow> bm_env \<Rightarrow> boot_act list" where
  "vector_acts c e =
     (if bm_vec_reloc c
      then (if bm_vector_relay c
            then VectorPointer (image_start e) # (if bm_vtor c then [SetVtor (be_relay_table e)] else [])
            else if bm_vtor c then [SetVtor (image_start e)] else [])
      else if bm_vtor c \<and> bm_vector_relay c
      then [VectorPointer (be_vector_start e), SetVtor (be_relay_table e)] else [])"

definition arm_cleanup :: "bm_config \<Rightarrow> boot_act list" where
  "arm_cleanup c =
     (if bm_cleanup_peripheral c then [CleanupPeripheral] else []) @
     (if bm_cleanup_core c
      then [CleanupNvic] @ (if bm_cortex_m7 c then [DisableCaches] else []) @
           (if bm_mpu c then [ClearMpu] else []) @ (if bm_stack_guard c then [ClearSplim] else [])
      else [IrqLock])"

definition do_boot_arm :: "bm_config \<Rightarrow> bm_env \<Rightarrow> boot_stage" where
  "do_boot_arm c e =
     (if fst (br_base (be_rsp e)) \<noteq> 0 then ([], Some (if bm_asserts c then Asserted else UndefinedEnd))
      else
        andthen (ClockDisable # (if bm_usb_stack c then [UsbDisable] else []) @
                   (if bm_ext_api c then [ProvideExtApi (image_start e)] else []),
                 if bm_ext_api c \<and> bm_s0 c \<and> \<not> be_provided e then Some Spin else None)
          (arm_cleanup c @ vector_acts c e @ [SetMsp (be_word e (image_start e))] @
             (if bm_cleanup_core c then [SetControl] else []),
           Some (Jump (be_word e (image_start e + 4)))))"

text \<open>When the area cannot be opened its uninitialised pointer is closed; an error of the read is not passed on.\<close>

definition copy_img_to_SRAM :: "bm_env \<Rightarrow> boot_stage" where
  "copy_img_to_SRAM e =
     (if be_area_open e \<noteq> 0 then ([AreaOpen], Some UndefinedEnd)
      else ([AreaOpen, AreaRead (ucast (br_hdr_size (be_rsp e))), AreaClose], None))"

definition do_boot_xtensa :: "bm_env \<Rightarrow> boot_stage" where
  "do_boot_xtensa e = andthen (copy_img_to_SRAM e) ([], Some (Jump (SRAM_BASE_ADDRESS + ucast (br_hdr_size (be_rsp e)))))"

definition do_boot_other :: "bm_config \<Rightarrow> bm_env \<Rightarrow> boot_stage" where
  "do_boot_other c e =
     (if fst (br_base (be_rsp e)) \<noteq> 0 then ([], Some (if bm_asserts c then Asserted else UndefinedEnd))
      else ([IrqLock], Some (Jump (image_start e))))"

definition do_boot :: "bm_config \<Rightarrow> bm_env \<Rightarrow> boot_stage" where
  "do_boot c e = (case bm_arch c of ArmArch \<Rightarrow> do_boot_arm c e | XtensaArch \<Rightarrow> do_boot_xtensa e | OtherArch \<Rightarrow> do_boot_other c e)"

section \<open>The program\<close>

definition led_init :: "bm_config \<Rightarrow> bm_env \<Rightarrow> boot_stage" where
  "led_init c e = (if bm_led c then (LedBinding # (if be_led_bound e then [LedOff] else []), None) else ([], None))"

definition start_stage :: "bm_config \<Rightarrow> bm_env \<Rightarrow> boot_stage" where
  "start_stage c e =
     andthen (andthen ([WatchdogFeed], None) (led_init c e))
       (andthen (HeapInit # (if bm_log c then [LogThread] else []), None)
          (if bm_flash_label c then ([FlashBinding], if be_flash_found e then None else Some Spin) else ([], None)))"

definition go_stage :: "bm_env \<Rightarrow> boot_stage" where
  "go_stage e = ([BootGo], if be_boot_go e \<noteq> FIH_OK then Some FihPanic else None)"

definition protect_stage :: "bm_config \<Rightarrow> bm_env \<Rightarrow> boot_stage" where
  "protect_stage c e =
     (if bm_fprotect c then ([ProtectFlash], if be_protect e \<noteq> 0 then Some Spin else None) else ([], None))"

definition lock_stage :: "bm_config \<Rightarrow> boot_stage" where
  "lock_stage c = (if bm_pcd c then [PcdLockRam] else [], None)"

definition log_stage :: "bm_config \<Rightarrow> bm_env \<Rightarrow> boot_stage" where
  "log_stage c e =
     (if bm_log c then ([LogStop], if zephyr_boot_log_stop (be_log e) = None then Some LogWaits else None) else ([], None))"

definition boot_main :: "bm_config \<Rightarrow> bm_env \<Rightarrow> boot_stage" where
  "boot_main c e =
     andthen (start_stage c e) (andthen (serial_stage c e) (andthen (dfu_stage c e)
       (andthen (go_stage e) (andthen (protect_stage c e) (andthen (lock_stage c) (andthen (log_stage c e) (do_boot c e)))))))"

section \<open>Stages\<close>

lemma andthen_acts: "fst (andthen p q) = fst p @ (if snd p = None then fst q else [])"
  by (cases "(p, q)" rule: andthen.cases) auto

lemma andthen_end: "snd (andthen p q) = (if snd p = None then snd q else snd p)"
  by (cases "(p, q)" rule: andthen.cases) auto

lemmas andthen_simps = andthen_acts andthen_end

lemma andthen_assoc: "andthen (andthen p q) r = andthen p (andthen q r)"
  by (cases "(p, q)" rule: andthen.cases; cases "(q, r)" rule: andthen.cases) auto

lemma andthen_first: "andthen (a # fst p, snd p) q = (a # fst (andthen p q), snd (andthen p q))"
  by (simp add: prod_eq_iff andthen_simps)

text \<open>Before the boot loader is called nothing jumps, and the watchdog is fed once, first.\<close>

definition early :: "boot_stage \<Rightarrow> bool" where
  "early q \<longleftrightarrow> set (fst q) \<inter> {WatchdogFeed, BootGo, ProtectFlash, PcdLockRam, LogStop} = {} \<and> (\<forall>a. snd q \<noteq> Some (Jump a))"

lemma early_andthen: "early p \<Longrightarrow> early q \<Longrightarrow> early (andthen p q)"
  by (auto simp: early_def andthen_simps)

lemma early_on_pin: "early q \<Longrightarrow> early (on_pin r q)"
  by (auto simp: early_def on_pin_def split: pin_result.split)

lemma early_led: "early (led_on c e)" "early (led_init c e)"
  by (auto simp: early_def led_on_def led_init_def)

lemma early_serial: "early (serial_stage c e)"
  by (auto simp: serial_stage_def intro!: early_on_pin early_andthen early_led) (auto simp: early_def)

lemma early_dfu: "early (dfu_stage c e)"
  by (auto simp: dfu_stage_def split: usb_dfu.split intro!: early_on_pin early_andthen early_led) (auto simp: early_def)

lemma start_stage_early: "\<exists>q. start_stage c e = (WatchdogFeed # fst q, snd q) \<and> early q"
proof -
  let ?q = "andthen (led_init c e) (andthen (HeapInit # (if bm_log c then [LogThread] else []), None)
          (if bm_flash_label c then ([FlashBinding], if be_flash_found e then None else Some Spin) else ([], None)))"
  have "early ?q" by (intro early_andthen early_led) (auto simp: early_def)
  moreover have "start_stage c e = (WatchdogFeed # fst ?q, snd ?q)"
    by (cases "led_init c e") (auto simp: start_stage_def prod_eq_iff andthen_simps)
  ultimately show ?thesis by blast
qed

lemma boot_main_early:
  obtains q where "early q"
    "boot_main c e = andthen (WatchdogFeed # fst q, snd q)
       (andthen (go_stage e) (andthen (protect_stage c e) (andthen (lock_stage c) (andthen (log_stage c e) (do_boot c e)))))"
proof -
  obtain q0 where q0: "start_stage c e = (WatchdogFeed # fst q0, snd q0)" "early q0" using start_stage_early by blast
  let ?q = "andthen q0 (andthen (serial_stage c e) (dfu_stage c e))"
  have "early ?q" by (intro early_andthen q0 early_serial early_dfu)
  moreover have "boot_main c e = andthen (WatchdogFeed # fst ?q, snd ?q)
       (andthen (go_stage e) (andthen (protect_stage c e) (andthen (lock_stage c) (andthen (log_stage c e) (do_boot c e)))))"
    by (simp only: boot_main_def q0(1) andthen_first [symmetric] andthen_assoc)
  ultimately show ?thesis using that by blast
qed

lemma do_boot_acts: "set (fst (do_boot c e)) \<inter> {WatchdogFeed, BootGo, ProtectFlash, PcdLockRam, LogStop} = {}"
  by (auto simp: do_boot_def do_boot_arm_def do_boot_xtensa_def do_boot_other_def copy_img_to_SRAM_def arm_cleanup_def
      vector_acts_def andthen_simps split: boot_arch.splits if_splits)


text \<open>
  The program feeds the watchdog once, first of all, whatever happens afterwards; without an image it never jumps, so a
  running watchdog resets it.
\<close>

theorem watchdog_fed_once:
  "(\<exists>acts. fst (boot_main c e) = WatchdogFeed # acts \<and> WatchdogFeed \<notin> set acts)
   \<and> (be_boot_go e \<noteq> FIH_OK \<longrightarrow> (\<forall>a. snd (boot_main c e) \<noteq> Some (Jump a)))"
proof -
  obtain q where q: "early q" "boot_main c e = andthen (WatchdogFeed # fst q, snd q)
       (andthen (go_stage e) (andthen (protect_stage c e) (andthen (lock_stage c) (andthen (log_stage c e) (do_boot c e)))))"
    by (rule boot_main_early)
  have "WatchdogFeed \<notin> set (fst (go_stage e))" "WatchdogFeed \<notin> set (fst (protect_stage c e))"
    "WatchdogFeed \<notin> set (fst (lock_stage c))" "WatchdogFeed \<notin> set (fst (log_stage c e))" "WatchdogFeed \<notin> set (fst (do_boot c e))" "WatchdogFeed \<notin> set (fst q)"
    using do_boot_acts [of c e] q(1) by (auto simp: go_stage_def protect_stage_def lock_stage_def log_stage_def early_def)
  moreover have "be_boot_go e \<noteq> FIH_OK \<longrightarrow> (\<forall>a. snd (boot_main c e) \<noteq> Some (Jump a))"
    using q(1) unfolding q(2) by (auto simp: andthen_simps go_stage_def early_def)
  ultimately show ?thesis unfolding q(2) by (auto simp: andthen_simps)
qed

section \<open>Recovery\<close>

definition pin_held :: "u32 \<Rightarrow> u32 \<Rightarrow> int \<times> u32 \<Rightarrow> bool" where
  "pin_held expected delay r \<longleftrightarrow> of_int (fst r) = expected \<and> snd r < delay"

lemma debounce_first:
  "debounce False expected delay rs =
     (case dropWhile (pin_held expected delay) rs of [] \<Rightarrow> PinWaiting | r # _ \<Rightarrow> PinIs (of_int (fst r) = expected))"
proof (induction rs)
  case (Cons r rs)
  then show ?case by (cases r) (auto simp: pin_held_def not_less)
qed simp

text \<open>
  The pin is taken as pressed exactly when it has the expected value at the first reading and at every later one until
  the delay is over; one other reading before that gives no press. The wait goes on while the pin is held and the delay
  is not over.
\<close>

theorem pin_debounced:
  assumes "pe_bound p" "0 < delay"
  shows "detect_pin False expected delay p =
    (if of_int (pe_first p) \<noteq> expected then PinIs False
     else case dropWhile (pin_held expected (of_int delay)) (pe_later p) of
            [] \<Rightarrow> PinWaiting
          | r # _ \<Rightarrow> PinIs (of_int (fst r) = expected))"
  using assms by (simp add: detect_pin_def debounce_first)

lemma in_on_pin: "a \<in> set (fst (on_pin r q)) \<Longrightarrow> r = PinIs True \<and> a \<in> set (fst q)"
  by (auto simp: on_pin_def split: pin_result.splits if_splits)

text \<open>
  The serial recovery starts only when its pin was detected and, on Nordic's devices, the reset was a power-on or came
  from the reset pin; a reset by the watchdog never leads into it.
\<close>

theorem recovery_after_pin_reset:
  assumes "SerialStart \<in> set (fst (boot_main c e))"
  shows "bm_serial c \<and> (bm_soc_nrf c \<longrightarrow> be_reset_reason e = 0 \<or> bit (be_reset_reason e) 0)
     \<and> detect_pin (bm_asserts c) (bm_detect_expected c) (bm_detect_delay c) (be_serial_pin e) = PinIs True"
proof -
  have "SerialStart \<notin> set (fst (start_stage c e))" "SerialStart \<notin> set (fst (go_stage e))"
    "SerialStart \<notin> set (fst (protect_stage c e))" "SerialStart \<notin> set (fst (lock_stage c))"
    "SerialStart \<notin> set (fst (log_stage c e))"
    by (auto simp: start_stage_def led_init_def go_stage_def protect_stage_def lock_stage_def log_stage_def andthen_simps split: if_splits)
  moreover have "SerialStart \<notin> set (fst (dfu_stage c e))"
    by (auto simp: dfu_stage_def on_pin_def led_on_def andthen_simps split: usb_dfu.split pin_result.split)
  moreover have "SerialStart \<notin> set (fst (do_boot c e))"
    by (auto simp: do_boot_def do_boot_arm_def do_boot_xtensa_def do_boot_other_def copy_img_to_SRAM_def arm_cleanup_def
      vector_acts_def andthen_simps split: boot_arch.splits if_splits)
  ultimately have "SerialStart \<in> set (fst (serial_stage c e))"
    using assms by (auto simp: boot_main_def andthen_simps split: if_splits)
  then show ?thesis
    by (auto simp: serial_stage_def boot_skip_serial_recovery_def dest!: in_on_pin split: if_splits)
qed

section \<open>Watchdog and log\<close>

text \<open>
  The watchdog runs, with its window of a second, exactly when the set-up returns 0: it needs the device, a channel at
  the first attempt or, when callbacks are not supported, at the second, and the start.
\<close>

theorem watchdog_set_up:
  assumes "\<not> wdt_running w"
  shows "(fst (init_wdt bound i1 i2 su w) = 0 \<longleftrightarrow> wdt_running (snd (init_wdt bound i1 i2 su w)))
     \<and> (fst (init_wdt bound i1 i2 su w) = 0 \<longleftrightarrow> bound \<and> 0 \<le> (if i1 = - ENOTSUP then i2 else i1) \<and> 0 \<le> su)
     \<and> (wdt_running (snd (init_wdt bound i1 i2 su w)) \<longrightarrow> wdt_window (snd (init_wdt bound i1 i2 su w)) = Some 1000)"
  using assms by (auto simp: init_wdt_def Let_def WDT_MAX_WINDOW_def)

lemma log_turns:
  "(boot_log_thread_turn ^^ k) (boot_log_init n) = (boot_log_init n)\<lparr>bl_messages := n - k\<rparr>"
  by (induction k) (simp_all add: boot_log_init_def boot_log_thread_turn_def)

text \<open>
  Stopping the log does not wait: the semaphore that the thread gives at its end is there from the beginning. However
  many turns the thread has had, it has not ended, and the messages that are left then are not printed before the jump.
  With a count of 0 the caller would wait until all are.
\<close>

theorem log_stop_does_not_wait:
  "\<exists>s. zephyr_boot_log_stop ((boot_log_thread_turn ^^ k) (boot_log_init n)) = Some s \<and> \<not> bl_ended s \<and> bl_messages s = n - k"
  by (simp add: log_turns zephyr_boot_log_stop_def) (simp add: boot_log_init_def)

section \<open>Witnesses\<close>

definition demo_bm :: "bool \<Rightarrow> bm_config" where
  "demo_bm serial = \<lparr>bm_asserts = False, bm_soc_nrf = True, bm_led = False, bm_log = True, bm_flash_label = True,
     bm_serial = serial, bm_dfu = NoUsbDfu, bm_fprotect = True, bm_pcd = True, bm_arch = ArmArch, bm_usb_stack = False,
     bm_ext_api = False, bm_s0 = False, bm_cleanup_peripheral = False, bm_cleanup_core = True, bm_cortex_m7 = False,
     bm_mpu = True, bm_stack_guard = True, bm_vec_reloc = True, bm_vector_relay = False, bm_vtor = True,
     bm_detect_expected = 0, bm_detect_delay = 50, bm_dfu_expected = 0, bm_dfu_delay = 0\<rparr>"

definition demo_pin :: "int \<Rightarrow> pin_env" where
  "demo_pin v = \<lparr>pe_bound = True, pe_configure = 0, pe_first = 0, pe_later = [(0, 0), (v, 30), (0, 60)]\<rparr>"

definition demo_be :: "int \<Rightarrow> bm_env" where
  "demo_be go = \<lparr>be_led_bound = False, be_flash_found = True, be_reset_reason = 1, be_serial_pin = demo_pin 0,
     be_console = 0, be_serial_returns = False, be_dfu_pin = demo_pin 0, be_usb_enable = 0, be_dfu_returns = False,
     be_boot_go = go, be_rsp = \<lparr>br_base = (0, 0), br_image_off = 0xC000, br_hdr_size = 0x200\<rparr>, be_protect = 0, be_log = boot_log_init 0,
     be_provided = False, be_word = (\<lambda>a. a + 1), be_area_open = 0, be_relay_table = 0, be_vector_start = 0\<rparr>"

lemma demo_boot: "snd (boot_main (demo_bm False) (demo_be 0)) = Some (Jump 0xC205)"
  by (simp add: boot_main_def start_stage_def led_init_def serial_stage_def dfu_stage_def go_stage_def protect_stage_def
      lock_stage_def log_stage_def do_boot_def do_boot_arm_def arm_cleanup_def vector_acts_def image_start_def demo_bm_def demo_be_def FIH_OK_def
      zephyr_boot_log_stop_def boot_log_init_def)


theorem watchdog_fed_once_witness:
  "snd (boot_main (demo_bm False) (demo_be (- 1))) \<noteq> Some (Jump 0xC205)"
proof -
  have "be_boot_go (demo_be (- 1)) \<noteq> FIH_OK" by (simp add: demo_be_def FIH_OK_def)
  with watchdog_fed_once show ?thesis by blast
qed

theorem pin_debounced_witness:
  "detect_pin False 0 50 (demo_pin 0) = PinIs True \<and> detect_pin False 0 50 (demo_pin 1) = PinIs False"
  using pin_debounced [of "demo_pin 0" 50 0] pin_debounced [of "demo_pin 1" 50 0] by (simp add: demo_pin_def pin_held_def)

theorem recovery_after_pin_reset_witness:
  "bit (be_reset_reason (demo_be 0)) 0
     \<and> detect_pin (bm_asserts (demo_bm True)) (bm_detect_expected (demo_bm True)) (bm_detect_delay (demo_bm True))
         (be_serial_pin (demo_be 0)) = PinIs True"
proof -
  have "SerialStart \<in> set (fst (boot_main (demo_bm True) (demo_be 0)))"
    by (simp add: boot_main_def start_stage_def led_init_def serial_stage_def boot_skip_serial_recovery_def on_pin_def led_on_def
        detect_pin_def demo_bm_def demo_be_def demo_pin_def andthen_simps)
  from recovery_after_pin_reset [OF this] show ?thesis by (auto simp: demo_be_def demo_bm_def)
qed

definition demo_wdt :: wdt where
  "demo_wdt = \<lparr>wdt_window = None, wdt_channel_id = 0, wdt_running = False\<rparr>"

theorem watchdog_set_up_witness:
  "wdt_running (snd (init_wdt True (- ENOTSUP) 0 0 demo_wdt)) \<and> \<not> wdt_running (snd (init_wdt True (- 22) 0 0 demo_wdt))"
proof -
  have "\<not> wdt_running demo_wdt" by (simp add: demo_wdt_def)
  from watchdog_set_up [OF this, of True "- ENOTSUP" 0 0] watchdog_set_up [OF this, of True "- 22" 0 0] show ?thesis
    by (auto simp: ENOTSUP_def)
qed

end
