(* ===== verification/Spec2Isabelle.thy ===== *)
theory Spec2Isabelle
  imports Battery GatewayMain BleUart DmMain FlashCore IsoReceiver IsoBroadcaster NusThroughput PcdUpdate CoreRpc FotaUart HsUart MqttClient AppThreads CentralHr
    LoaderXip IsoMain AppMain TxPower MultiCell BootMain
begin

text \<open>
  \<^bold>\<open>What the repository is.\<close> A collection of embedded programs in C for Nordic's nRF91, nRF52 and nRF53
  (nRF Connect SDK, Zephyr). Each program is a few files under one \<open>src\<close> directory; they share no code and
  call the kernel, the Bluetooth stack, the modem and the drivers, which are not in the repository. The
  development models the programs with logic of their own; each theory opens with a text on its files.

  \<^bold>\<open>The library.\<close> \<open>Prelude\<close>: machine words, error codes, lemmas on words, lists, bytes and decimal numbers, the
  parser of advertising data. \<open>Float32\<close>: C's \<open>float\<close> on bit patterns. \<open>Machine\<close>: a component as a step
  function into an option (\<open>None\<close>: undefined behaviour, or a call that does not return) and the locale
  \<open>machine\<close>, which carries an invariant over runs; it is interpreted on the step functions of the bridge,
  the adapter, the peers, the NUS central, the network core update, the UART thread, the MQTT client, the
  central of ten, the power control, and the buttons. \<open>SensorQueue\<close>: the contract of the gateway's queue, interpreted on the
  aggregator. \<open>UartAdapter\<close> offers the contract the bridge uses, interpreted in \<open>BleUart\<close>.

  \<^bold>\<open>The programs and their theories.\<close>
  \<^item> Battery monitor, \<open>driver/battery\<close>: \<open>Battery\<close> (measurement, interpolation of the level, time stamps).
  \<^item> LTE/BLE gateway, \<open>app/nrf91/v1.6.1/lte_ble_gateway\<close>: \<open>Aggregator\<close> (the queue of \<open>aggregator.c\<close> over a heap),
    \<open>Alarm\<close> (\<open>alarm.c\<close>), \<open>BleSensors\<close> (\<open>ble.c\<close>), \<open>Gateway\<close> (the cloud side and LEDs of \<open>main.c\<close>) and \<open>GatewayMain\<close>
    (the main loop with the callbacks as one machine). Notifications and sentences are put into the queue;
    the alarm drains it into the cloud.
  \<^item> UART bridge, \<open>app/mcuboot_prv_key/peripheral_uart\<close>: \<open>UartAdapter\<close> (the asynchronous interface over an
    interrupt-driven UART) and \<open>BleUart\<close> (buffers, queues, connections of \<open>main.c\<close> above it).
  \<^item> Distance measurement, \<open>app/ble/nrf_dm_nrf52840_dongle_v191\<close>: \<open>Peer\<close> (the list of peers, the filter and its
    sort, LEDs) and \<open>DmMain\<close> (advertising data, scanning, requests).
  \<^item> Throughput with flash, \<open>nrf53_ble/throughput_with_flash_write\<close>: \<open>Throughput\<close> (characteristic and shell) and
    \<open>FlashCore\<close> (the handshake of the two cores as a step relation).
  \<^item> Isochronous broadcast benchmark, \<open>app/ble/iso_broadcast_benchmark_pa_lna\<close>: \<open>IsoReceiver\<close>, \<open>IsoBroadcaster\<close>,
    and \<open>IsoMain\<close> (the program that chooses a role and runs their tests in a loop).
  \<^item> NUS throughput, \<open>app/ble/throughput_nus\<close>: \<open>NusThroughput\<close> (meter, central, peripheral).
  \<^item> nRF5340 example, \<open>nrf53_ble/otherExamples\<close>: \<open>PcdUpdate\<close> (\<open>9pcd.c\<close>, \<open>9main.c\<close>: the update of the network core
    through shared memory, under every schedule of the two cores), \<open>CoreRpc\<close> (remote calls in both directions),
    \<open>HsUart\<close> (\<open>uart_thread.c\<close> with its callback), \<open>AppThreads\<close> (analog inputs, flash, I2C, senders, buttons, and
    the network core's \<open>main.c\<close>), \<open>AppMain\<close> (the application core's \<open>main.c\<close> as one machine).
  \<^item> Boot loader of the nRF5340's application core, \<open>nrf53_ble/otherExamples/resources/9loader.c\<close> (MCUboot's
    \<open>loader.c\<close> with the repository's changes, and the changes of four earlier versions under \<open>appcore/hex\<close>):
    \<open>LoaderImage\<close> (headers and validation), \<open>LoaderSwap\<close> (decision, copying, dependencies), \<open>LoaderBoot\<close> (the start
    as a whole), \<open>LoaderXip\<close> (builds that run an image in place or from memory). It calls the network core's
    update of \<open>PcdUpdate\<close>, here a parameter.
  \<^item> UDP sample with firmware update and UART echo, \<open>app/nrf91/udp_mcuboot_fota_uart\<close>: \<open>FotaUart\<close>.
  \<^item> MQTT clients, \<open>app/nrf91/mqtt_secure_ca\<close> and \<open>mqtt_non_secure\<close>: \<open>MqttClient\<close>.
  \<^item> Central of ten battery services that is a peripheral too, \<open>app/ble/bluetooth_central_bas_peripheral_hr_10\<close>:
    \<open>CentralHr\<close>.
  \<^item> Adaptive transmission power, \<open>app/ble/hci_pwr_ctrl\<close>: \<open>TxPower\<close>. Cell location,
    \<open>app/nrf91/v1.7.x/multi_cell\<close>: \<open>MultiCell\<close>.
  \<^item> MCUboot's main program with a watchdog, \<open>app/util_test/watchdog_mcuboot\<close>: \<open>BootMain\<close> (recovery, the call
    of the boot loader, the protection of the flash and the jump, as stages).

  \<^bold>\<open>How the code is modelled.\<close> The static variables of a file are a record; a function takes and returns it,
  with its error code as an \<open>int\<close>. Pointers are addresses (0 is \<open>NULL\<close>), heaps maps from addresses to blocks;
  a double free, a null pointer, an access out of bounds or a blocked call is \<open>None\<close>. Integers keep their
  width. Calls outside the repository are elements of a trace in the state; what they return comes from a
  record of the environment, from events, or from a function of the state, of which a theorem assumes the
  documented behaviour. Callbacks and threads are events of one machine: every interleaving is a list of
  events, or a derivation of a step relation, at the grain of the calls that can be preempted. Fields
  called history do not influence the program.

  \<^bold>\<open>What the lemmas show.\<close> Refinement: the aggregator is a bounded queue of the latest records, the bridge a pair
  of ordered byte streams. Invariants: heaps hold exactly the blocks in use (gateway, bridge, peers, UART
  thread), references are held exactly for the slots and variables (bridge, central of ten), the cores stay in
  step (flash, remote calls), the update writes a prefix of the image, counters match histories. Equivalence:
  the meters and statistics compute what their whole history defines. Termination of every loop that ends,
  with the inputs for which it does not. Round trips: records, packets, messages. Bounds: levels, rates,
  averages, voltages. Errors: what is left behind on each path. Where the code does not do what it means to, a
  theorem says what it does.

  \<^bold>\<open>Loops and bounds.\<close> Loops over data are structural, or \<open>function\<close>s with a measure. Loops that can run for ever
  (releasing buffers, waiting for a line, reading a payload, retrying a connection) are \<open>partial_function\<close>s into
  an option, with a theorem that gives the inputs on which they return. Main loops are runs over lists of
  events: a theorem quantifies over all lists, so no fuel is chosen.

  \<^bold>\<open>Not modelled.\<close> Log output, the encoding on the radio, the drivers. Copies of MCUboot's loader (vendored);
  copies and older versions of programs that are modelled; programs of a few driver calls in a row; the samples
  named in the manifest with their reasons. Of modelled programs: \<open>main\<close> functions that only call set-up
  functions one after the other, where no result decides anything.
\<close>

end
